(* ===== verification/Prelude.thy ===== *)
theory Prelude
  imports Main "HOL-Library.Word" "HOL-Library.Multiset"
begin

text \<open>
  The vocabulary shared by every component of the development.

  \<^item> \<open>error\<close> and \<open>'a result\<close>: how the C++ program stops. \<open>ASSERT\<close> and \<open>FATAL\<close> of
    \<^verbatim>\<open>common/macros.h\<close> print and call \<open>std::exit\<close>; \<open>std::array::at\<close> out of range throws
    inside a \<open>noexcept\<close> function, so \<open>std::terminate\<close> runs; dereferencing \<open>nullptr\<close> and indexing
    out of bounds with \<open>operator[]\<close> are undefined behaviour. Each is a value of \<open>error\<close>, and an
    operation that may stop returns \<open>error + 'a\<close>.
  \<^item> \<open>bindR\<close>, \<open>foldR\<close>: sequencing of such operations, and a loop over a list.
  \<^item> pointers into a pool are \<open>nat option\<close>, \<open>None\<close> being \<open>nullptr\<close>.
  \<^item> generic lemmas on lists, functions and words.
\<close>

section \<open>Errors and results\<close>

datatype error =
    NullDeref            \<comment> \<open>dereference of \<open>nullptr\<close>: undefined behaviour\<close>
  | BadIndex             \<comment> \<open>\<open>operator[]\<close> out of bounds: undefined behaviour\<close>
  | OutOfRange           \<comment> \<open>\<open>std::array::at\<close> throws inside \<open>noexcept\<close>: \<open>std::terminate\<close>\<close>
  | AssertFailed string  \<comment> \<open>a failed \<open>ASSERT\<close>: \<open>std::exit\<close>\<close>
  | FatalError string    \<comment> \<open>\<open>FATAL\<close>: \<open>std::exit\<close>\<close>
  | ArithmeticUB         \<comment> \<open>signed overflow, or a conversion out of the range of its type: undefined behaviour\<close>
  | Diverges             \<comment> \<open>a loop that does not end\<close>
  | Exception string     \<comment> \<open>an exception that nothing catches: \<open>std::terminate\<close>\<close>
  | OutOfFuel            \<comment> \<open>a loop of the model used up its bound\<close>

type_synonym 'a result = "error + 'a"
type_synonym ptr = "nat option"

text \<open>
  \<open>ASSERT(cond, msg)\<close> of \<^verbatim>\<open>common/macros.h\<close> continues when the condition holds and exits the
  process otherwise; \<open>FATAL(msg)\<close> always exits.
\<close>

definition ASSERT :: "bool \<Rightarrow> string \<Rightarrow> unit result" where
  "ASSERT cond msg = (if \<not> cond then Inl (AssertFailed msg) else Inr ())"

definition FATAL :: "string \<Rightarrow> 'a result" where
  "FATAL msg = Inl (FatalError msg)"

primrec bindR :: "'a result \<Rightarrow> ('a \<Rightarrow> 'b result) \<Rightarrow> 'b result" where
  "bindR (Inl e) f = Inl e"
| "bindR (Inr x) f = f x"

primrec foldR :: "('a \<Rightarrow> 's \<Rightarrow> 's result) \<Rightarrow> 'a list \<Rightarrow> 's \<Rightarrow> 's result" where
  "foldR f [] s = Inr s"
| "foldR f (x # xs) s = bindR (f x s) (foldR f xs)"

text \<open>\<open>std::array::at\<close>: the index, or \<open>std::terminate\<close>.\<close>

definition at :: "nat \<Rightarrow> nat \<Rightarrow> nat result" where
  "at n i = (if i < n then Inr i else Inl OutOfRange)"

text \<open>\<open>operator[]\<close> of an array or vector of \<open>n\<close> elements: defined only in range.\<close>

definition index :: "nat \<Rightarrow> nat \<Rightarrow> nat result" where
  "index n i = (if i < n then Inr i else Inl BadIndex)"

text \<open>Results of signed arithmetic: defined only in the range of the type.\<close>

definition int32 :: "int \<Rightarrow> int result" where
  "int32 i = (if - (2 ^ 31) \<le> i \<and> i < 2 ^ 31 then Inr i else Inl ArithmeticUB)"

definition int64 :: "int \<Rightarrow> int result" where
  "int64 i = (if - (2 ^ 63) \<le> i \<and> i < 2 ^ 63 then Inr i else Inl ArithmeticUB)"

text \<open>\<open>static_cast<int32_t>\<close> of a \<open>uint32_t\<close>: two's complement.\<close>

definition to_int32 :: "32 word \<Rightarrow> int" where
  "to_int32 w = sint w"

named_theorems result_simps "unfolding of the result operations"

lemma bindR_assoc [simp]: "bindR (bindR m f) g = bindR m (\<lambda>x. bindR (f x) g)"
  by (cases m) simp_all

lemma bindR_Inr_right [simp]: "bindR m Inr = m"
  by (cases m) simp_all

lemma bindR_eq_Inr [result_simps]: "bindR m f = Inr y \<longleftrightarrow> (\<exists>x. m = Inr x \<and> f x = Inr y)"
  by (cases m) auto

lemma bindR_eq_Inl [result_simps]:
  "bindR m f = Inl e \<longleftrightarrow> m = Inl e \<or> (\<exists>x. m = Inr x \<and> f x = Inl e)"
  by (cases m) auto

lemma bindR_if_distrib: "bindR (if c then a else b) f = (if c then bindR a f else bindR b f)"
  by simp

lemma at_Inr [simp]: "i < n \<Longrightarrow> at n i = Inr i"
  by (simp add: at_def)

lemma at_eq_Inr [result_simps]: "at n i = Inr j \<longleftrightarrow> i < n \<and> j = i"
  by (auto simp: at_def)

lemma index_Inr [simp]: "i < n \<Longrightarrow> index n i = Inr i"
  by (simp add: index_def)

lemma index_eq_Inr [result_simps]: "index n i = Inr j \<longleftrightarrow> i < n \<and> j = i"
  by (auto simp: index_def)

lemma int32_Inr [simp]: "- (2 ^ 31) \<le> i \<Longrightarrow> i < 2 ^ 31 \<Longrightarrow> int32 i = Inr i"
  by (simp add: int32_def)

lemma int32_eq_Inr [result_simps]: "int32 i = Inr j \<longleftrightarrow> - (2 ^ 31) \<le> i \<and> i < 2 ^ 31 \<and> j = i"
  by (auto simp: int32_def)

lemma int64_Inr [simp]: "- (2 ^ 63) \<le> i \<Longrightarrow> i < 2 ^ 63 \<Longrightarrow> int64 i = Inr i"
  by (simp add: int64_def)

lemma int64_eq_Inr [result_simps]: "int64 i = Inr j \<longleftrightarrow> - (2 ^ 63) \<le> i \<and> i < 2 ^ 63 \<and> j = i"
  by (auto simp: int64_def)

lemma ASSERT_True [simp]: "ASSERT True msg = Inr ()"
  by (simp add: ASSERT_def)

lemma ASSERT_False [simp]: "ASSERT False msg = Inl (AssertFailed msg)"
  by (simp add: ASSERT_def)

lemma ASSERT_eq_Inr [result_simps]: "ASSERT c msg = Inr u \<longleftrightarrow> c"
  by (simp add: ASSERT_def)

lemma foldR_append: "foldR f (xs @ ys) s = bindR (foldR f xs s) (foldR f ys)"
proof (induction xs arbitrary: s)
  case (Cons x xs)
  then show ?case by (cases "f x s") simp_all
qed simp

text \<open>A loop whose body keeps an invariant and never stops runs to the end.\<close>

lemma foldR_invariant:
  assumes "P s"
    and "\<And>x s. x \<in> set xs \<Longrightarrow> P s \<Longrightarrow> \<exists>s'. f x s = Inr s' \<and> P s'"
  shows "\<exists>s'. foldR f xs s = Inr s' \<and> P s'"
  using assms
proof (induction xs arbitrary: s)
  case Nil
  then show ?case by simp
next
  case (Cons x xs)
  from Cons.prems obtain s1 where s1: "f x s = Inr s1" "P s1"
    by (metis list.set_intros(1))
  have "\<exists>s'. foldR f xs s1 = Inr s' \<and> P s'"
  proof (rule Cons.IH)
    show "P s1" by (rule s1)
    show "\<And>y t. y \<in> set xs \<Longrightarrow> P t \<Longrightarrow> \<exists>s'. f y t = Inr s' \<and> P s'"
      using Cons.prems(2) by simp
  qed
  with s1 show ?case by simp
qed

section \<open>Lists\<close>

lemma hd_in_set_iff [simp]: "xs \<noteq> [] \<Longrightarrow> hd xs \<in> set xs"
  by (cases xs) simp_all

lemma last_Cons_append [simp]: "last (x # xs @ [y]) = y"
  by simp

lemma in_set_split: "x \<in> set xs \<Longrightarrow> \<exists>ps qs. xs = ps @ x # qs"
  by (rule split_list)

lemma map_cong_upd: "x \<notin> set xs \<Longrightarrow> map (f(x := y)) xs = map f xs"
  by (induction xs) auto

section \<open>Modular counters\<close>

lemma mod_Suc_less: "0 < n \<Longrightarrow> Suc i mod n < n"
  by simp

lemma mod_add_inj:
  fixes r n i j :: nat
  assumes "(r + i) mod n = (r + j) mod n" and "i < n" and "j < n"
  shows "i = j"
proof (rule ccontr)
  assume "i \<noteq> j"
  have *: "(r + a) mod n \<noteq> (r + b) mod n" if ab: "a < b" "b < n" for a b
  proof
    assume "(r + a) mod n = (r + b) mod n"
    then have "n dvd (r + b) - (r + a)"
      using ab by (metis add_le_cancel_left less_imp_le mod_eq_dvd_iff_nat)
    then have "n dvd b - a" by simp
    with ab show False
      by (metis dvd_imp_le diff_is_0_eq less_imp_diff_less linorder_not_less zero_less_diff)
  qed
  from \<open>i \<noteq> j\<close> consider "i < j" | "j < i" by linarith
  then show False
    using * assms by cases (metis, metis)
qed

section \<open>Words\<close>

text \<open>Counting up does not wrap below any other word of the type.\<close>

lemma unat_add1:
  fixes a :: "'a::len word"
  assumes "a < n"
  shows "unat (a + 1) = Suc (unat a)"
proof -
  have "Suc (unat a) \<le> unat n" using assms by (simp add: word_less_nat_alt)
  also have "\<dots> < 2 ^ LENGTH('a)" by (rule unsigned_less)
  finally have "Suc (unat a) < 2 ^ LENGTH('a)" .
  then show ?thesis by (simp add: unat_word_ariths)
qed

lemma less_add1: "a < n \<Longrightarrow> a < a + (1 :: 'a::len word)"
  by (simp add: word_less_nat_alt unat_add1)

lemma add1_le: "a < n \<Longrightarrow> a + (1 :: 'a::len word) \<le> n"
  by (simp add: word_less_nat_alt word_le_nat_alt unat_add1)

end
