(* ===== verification/CommonTypes.thy ===== *)
theory CommonTypes
  imports Prelude
begin

text \<open>
  \<^verbatim>\<open>common/types.h\<close>: sizing constants, the named primitive types with their \<open>INVALID\<close> values,
  the enums \<open>Side\<close> and \<open>AlgoType\<close> and their conversions.

  Unsigned identifiers and quantities are words of the source's width. \<open>Price\<close> is
  \<open>int64_t\<close>: prices are only stored, compared and reduced modulo a constant by the order books, so
  they are \<open>int\<close> with the range of the type written out as \<open>price_ok\<close>.
\<close>

section \<open>Sizing constants\<close>

definition ME_MAX_TICKERS :: nat where "ME_MAX_TICKERS = 8"
definition ME_MAX_CLIENT_UPDATES :: nat where "ME_MAX_CLIENT_UPDATES = 256 * 1024"
definition ME_MAX_MARKET_UPDATES :: nat where "ME_MAX_MARKET_UPDATES = 256 * 1024"
definition ME_MAX_NUM_CLIENTS :: nat where "ME_MAX_NUM_CLIENTS = 256"
definition ME_MAX_ORDER_IDS :: nat where "ME_MAX_ORDER_IDS = 1024 * 1024"
definition ME_MAX_PRICE_LEVELS :: nat where "ME_MAX_PRICE_LEVELS = 131072"

lemmas sizing_defs =
  ME_MAX_TICKERS_def ME_MAX_CLIENT_UPDATES_def ME_MAX_MARKET_UPDATES_def
  ME_MAX_NUM_CLIENTS_def ME_MAX_ORDER_IDS_def ME_MAX_PRICE_LEVELS_def

section \<open>Primitive named types\<close>

type_synonym OrderId = "64 word"
type_synonym TickerId = "32 word"
type_synonym ClientId = "32 word"
type_synonym Price = int
type_synonym Qty = "32 word"
type_synonym Priority = "64 word"

definition OrderId_INVALID :: OrderId where "OrderId_INVALID = - 1"
definition TickerId_INVALID :: TickerId where "TickerId_INVALID = - 1"
definition ClientId_INVALID :: ClientId where "ClientId_INVALID = - 1"
definition Price_INVALID :: Price where "Price_INVALID = 2 ^ 63 - 1"
definition Qty_INVALID :: Qty where "Qty_INVALID = - 1"
definition Priority_INVALID :: Priority where "Priority_INVALID = - 1"

definition price_ok :: "Price \<Rightarrow> bool" where
  "price_ok p \<longleftrightarrow> - (2 ^ 63) \<le> p \<and> p < 2 ^ 63"

section \<open>Sides\<close>

text \<open>\<open>enum class Side : int8_t\<close>; the enumerators \<open>INVALID\<close> and \<open>MAX\<close> carry the enum's name.\<close>

datatype Side = Side_INVALID | BUY | SELL | Side_MAX

primrec sideToValue :: "Side \<Rightarrow> int" where
  "sideToValue Side_INVALID = 0"
| "sideToValue BUY = 1"
| "sideToValue SELL = - 1"
| "sideToValue Side_MAX = 2"

definition sideToIndex :: "Side \<Rightarrow> nat" where
  "sideToIndex side = nat (sideToValue side + 1)"

primrec sideToString :: "Side \<Rightarrow> string" where
  "sideToString BUY = ''BUY''"
| "sideToString SELL = ''SELL''"
| "sideToString Side_INVALID = ''INVALID''"
| "sideToString Side_MAX = ''MAX''"

lemma sideToIndex_simps [simp]:
  "sideToIndex BUY = 2" "sideToIndex SELL = 0"
  "sideToIndex Side_INVALID = 1" "sideToIndex Side_MAX = 3"
  by (simp_all add: sideToIndex_def)

lemma sideToIndex_inject [simp]: "sideToIndex a = sideToIndex b \<longleftrightarrow> a = b"
  by (cases a; cases b) simp_all

lemma sideToIndex_bound: "sideToIndex s < sideToIndex Side_MAX + 1"
  by (cases s) simp_all

section \<open>Trading strategy selection\<close>

text \<open>
  \<open>stringToAlgoType\<close> casts the integers from \<open>INVALID\<close> = 0 to \<open>MAX\<close> = 4 to the enum in
  turn, and returns the first whose name is the argument, \<open>INVALID\<close> if there is none.
\<close>

datatype AlgoType = Algo_INVALID | Algo_RANDOM | Algo_MAKER | Algo_TAKER | Algo_MAX

primrec algoTypeToString :: "AlgoType \<Rightarrow> string" where
  "algoTypeToString Algo_RANDOM = ''RANDOM''"
| "algoTypeToString Algo_MAKER = ''MAKER''"
| "algoTypeToString Algo_TAKER = ''TAKER''"
| "algoTypeToString Algo_INVALID = ''INVALID''"
| "algoTypeToString Algo_MAX = ''MAX''"

fun stringToAlgoType_from :: "AlgoType list \<Rightarrow> string \<Rightarrow> AlgoType" where
  "stringToAlgoType_from [] str = Algo_INVALID"
| "stringToAlgoType_from (t # ts) str =
     (if algoTypeToString t = str then t else stringToAlgoType_from ts str)"

definition stringToAlgoType :: "string \<Rightarrow> AlgoType" where
  "stringToAlgoType str =
     stringToAlgoType_from [Algo_INVALID, Algo_RANDOM, Algo_MAKER, Algo_TAKER, Algo_MAX] str"

text \<open>Names round-trip, and any other string is \<open>INVALID\<close>.\<close>

lemma stringToAlgoType_roundtrip: "stringToAlgoType (algoTypeToString t) = t"
  by (cases t) (simp_all add: stringToAlgoType_def)

lemma stringToAlgoType_unknown:
  assumes "str \<notin> range algoTypeToString"
  shows "stringToAlgoType str = Algo_INVALID"
proof -
  have "algoTypeToString t \<noteq> str" for t using assms by blast
  then show ?thesis by (simp only: stringToAlgoType_def stringToAlgoType_from.simps if_False)
qed

section \<open>Price index\<close>

text \<open>
  \<open>price % ME_MAX_PRICE_LEVELS\<close> of both order books: \<open>int64_t % size_t\<close> converts the price to
  an unsigned 64-bit value first, so a negative price wraps modulo \<open>2 ^ 64\<close>.
\<close>

definition priceToIndex :: "Price \<Rightarrow> nat" where
  "priceToIndex price = nat ((price mod 2 ^ 64) mod int ME_MAX_PRICE_LEVELS)"

lemma priceToIndex_bound [simp]: "priceToIndex p < ME_MAX_PRICE_LEVELS"
  by (simp add: priceToIndex_def ME_MAX_PRICE_LEVELS_def)

text \<open>
  The number of levels divides \<open>2 ^ 64\<close>, so the conversion does not change the residue: two prices
  share an index exactly when they are congruent modulo the number of levels.
\<close>

lemma priceToIndex_eq: "priceToIndex p = nat (p mod 131072)"
proof -
  have "(131072::int) dvd 2 ^ 64" by simp
  then show ?thesis
    by (simp add: priceToIndex_def ME_MAX_PRICE_LEVELS_def mod_mod_cancel)
qed

lemma priceToIndex_collision_iff: "priceToIndex p = priceToIndex q \<longleftrightarrow> p mod 131072 = q mod 131072"
  by (auto simp: priceToIndex_eq nat_eq_iff2)

text \<open>The prices the comment on \<open>ME_MAX_PRICE_LEVELS\<close> allows: they index without collision.\<close>

definition price_in_window :: "Price \<Rightarrow> bool" where
  "price_in_window p \<longleftrightarrow> 0 \<le> p \<and> p < int ME_MAX_PRICE_LEVELS"

lemma priceToIndex_inject:
  "price_in_window p \<Longrightarrow> price_in_window q \<Longrightarrow> priceToIndex p = priceToIndex q \<longleftrightarrow> p = q"
  by (simp add: price_in_window_def priceToIndex_collision_iff ME_MAX_PRICE_LEVELS_def)

end
