(* ===== verification/MemPool.thy ===== *)
theory MemPool
  imports Prelude
begin

text \<open>
  \<^verbatim>\<open>common/mem_pool.h\<close> and \<^verbatim>\<open>common/opt_mem_pool.h\<close>: the fixed-capacity object pool behind every
  order and price level. A pool is a vector of \<open>ObjectBlock\<close>s, each an object and a free flag, and the
  index of the next free block. A pointer returned by \<open>allocate\<close> is the index of its block.
  The vector is a function from indices with its size beside it: every index the code computes is
  below the size, which the invariant \<open>pool_inv\<close> records.

  The theory shows that \<open>allocate\<close> and \<open>deallocate\<close> keep the invariant and change exactly one
  block, that the search for the next free block always ends, and that a pool of \<open>n\<close> blocks serves
  only \<open>n - 1\<close>: taking the last free block makes \<open>updateNextFreeIndex\<close> abort. The contract the
  order books rely on is the locale \<open>object_pool\<close>, interpreted for both pools.
\<close>

section \<open>State and operations\<close>

record 'a ObjectBlock =
  block_object :: 'a
  block_free :: bool

record 'a MemPool =
  pool_store :: "nat \<Rightarrow> 'a ObjectBlock"
  pool_size :: nat
  next_free_index :: nat

text \<open>\<open>store_(num_elems, {T(), true})\<close>: \<open>num_elems\<close> default objects, all free.\<close>

definition MemPool_new :: "nat \<Rightarrow> 'a \<Rightarrow> 'a MemPool" where
  "MemPool_new num_elems dflt =
     \<lparr> pool_store = (\<lambda>_. \<lparr> block_object = dflt, block_free = True \<rparr>),
       pool_size = num_elems, next_free_index = 0 \<rparr>"

text \<open>
  The loop of \<open>updateNextFreeIndex\<close>: advance while the block is in use, wrap at the end of the
  vector, stop the process when the search is back at its start. The fuel counts iterations; the
  vector's size is enough (\<open>updateNextFreeIndex_total\<close>).
\<close>

fun scan_free :: "nat \<Rightarrow> 'a MemPool \<Rightarrow> nat \<Rightarrow> nat \<Rightarrow> nat result" where
  "scan_free 0 p initial i =
     (if block_free (pool_store p i) then Inr i else Inl OutOfFuel)"
| "scan_free (Suc fuel) p initial i =
     (if block_free (pool_store p i) then Inr i
      else let i1 = i + 1;
               i2 = (if i1 = pool_size p then 0 else i1)
           in if initial = i2 then Inl (AssertFailed ''Memory Pool out of space.'')
              else scan_free fuel p initial i2)"

definition updateNextFreeIndex :: "'a MemPool \<Rightarrow> 'a MemPool result" where
  "updateNextFreeIndex p =
     bindR (scan_free (pool_size p) p (next_free_index p) (next_free_index p))
       (\<lambda>i. Inr (p\<lparr> next_free_index := i \<rparr>))"

definition allocate :: "'a MemPool \<Rightarrow> 'a \<Rightarrow> (nat \<times> 'a MemPool) result" where
  "allocate p x =
     (let i = next_free_index p in
      bindR (ASSERT (block_free (pool_store p i)) ''Expected free ObjectBlock'') (\<lambda>_.
      bindR (updateNextFreeIndex
               (p\<lparr> pool_store := (pool_store p)(i := \<lparr> block_object = x, block_free = False \<rparr>) \<rparr>))
        (\<lambda>p'. Inr (i, p'))))"

definition deallocate :: "'a MemPool \<Rightarrow> nat \<Rightarrow> 'a MemPool result" where
  "deallocate p idx =
     bindR (ASSERT (idx < pool_size p) ''Element being deallocated does not belong to this Memory pool.'') (\<lambda>_.
     bindR (ASSERT (\<not> block_free (pool_store p idx)) ''Expected in-use ObjectBlock'') (\<lambda>_.
     Inr (p\<lparr> pool_store := (pool_store p)(idx := (pool_store p idx)\<lparr> block_free := True \<rparr>) \<rparr>)))"

text \<open>Reading and writing through a pointer into the pool.\<close>

definition obj :: "'a MemPool \<Rightarrow> nat \<Rightarrow> 'a" where
  "obj p i = block_object (pool_store p i)"

definition deref :: "'a MemPool \<Rightarrow> ptr \<Rightarrow> 'a result" where
  "deref p q = (case q of None \<Rightarrow> Inl NullDeref | Some i \<Rightarrow> Inr (obj p i))"

definition modify :: "'a MemPool \<Rightarrow> nat \<Rightarrow> ('a \<Rightarrow> 'a) \<Rightarrow> 'a MemPool" where
  "modify p i f =
     p\<lparr> pool_store := (pool_store p)(i := (pool_store p i)\<lparr> block_object := f (obj p i) \<rparr>) \<rparr>"

text \<open>
  \<open>OptCommon::OptMemPool\<close>: the same pool with the \<open>ASSERT\<close>s of \<open>allocate\<close> and \<open>deallocate\<close>
  compiled away when \<open>NDEBUG\<close> is defined; running out of space is \<open>FATAL\<close> in both builds. Without
  the bounds check an index outside the vector is undefined behaviour.
\<close>

fun opt_scan_free :: "nat \<Rightarrow> 'a MemPool \<Rightarrow> nat \<Rightarrow> nat \<Rightarrow> nat result" where
  "opt_scan_free 0 p initial i =
     (if block_free (pool_store p i) then Inr i else Inl OutOfFuel)"
| "opt_scan_free (Suc fuel) p initial i =
     (if block_free (pool_store p i) then Inr i
      else let i1 = i + 1;
               i2 = (if i1 = pool_size p then 0 else i1)
           in if initial = i2 then FATAL ''Memory Pool out of space.''
              else opt_scan_free fuel p initial i2)"

definition opt_allocate :: "bool \<Rightarrow> 'a MemPool \<Rightarrow> 'a \<Rightarrow> (nat \<times> 'a MemPool) result" where
  "opt_allocate ndebug p x =
     (let i = next_free_index p;
          p1 = p\<lparr> pool_store := (pool_store p)(i := \<lparr> block_object = x, block_free = False \<rparr>) \<rparr> in
      bindR (if ndebug then Inr ()
             else ASSERT (block_free (pool_store p i)) ''Expected free ObjectBlock'') (\<lambda>_.
      bindR (opt_scan_free (pool_size p1) p1 i i) (\<lambda>j.
      Inr (i, p1\<lparr> next_free_index := j \<rparr>))))"

definition opt_deallocate :: "bool \<Rightarrow> 'a MemPool \<Rightarrow> nat \<Rightarrow> 'a MemPool result" where
  "opt_deallocate ndebug p idx =
     bindR (if ndebug then bindR (index (pool_size p) idx) (\<lambda>_. Inr ())
            else bindR (ASSERT (idx < pool_size p)
                   ''Element being deallocated does not belong to this Memory pool.'') (\<lambda>_.
                 ASSERT (\<not> block_free (pool_store p idx)) ''Expected in-use ObjectBlock'')) (\<lambda>_.
     Inr (p\<lparr> pool_store := (pool_store p)(idx := (pool_store p idx)\<lparr> block_free := True \<rparr>) \<rparr>))"

section \<open>Invariant\<close>

definition in_use :: "'a MemPool \<Rightarrow> nat set" where
  "in_use p = {i. i < pool_size p \<and> \<not> block_free (pool_store p i)}"

definition pool_inv :: "'a MemPool \<Rightarrow> bool" where
  "pool_inv p \<longleftrightarrow> next_free_index p < pool_size p \<and> block_free (pool_store p (next_free_index p))"

text \<open>A pool has room when a block other than the next one is free too.\<close>

definition has_room :: "'a MemPool \<Rightarrow> bool" where
  "has_room p \<longleftrightarrow> Suc (card (in_use p)) < pool_size p"

lemma finite_in_use [simp]: "finite (in_use p)"
  by (simp add: in_use_def)

lemma obj_modify [simp]: "obj (modify p i f) j = (if j = i then f (obj p i) else obj p j)"
  by (simp add: modify_def obj_def)

lemma modify_frame [simp]:
  "pool_size (modify p i f) = pool_size p"
  "next_free_index (modify p i f) = next_free_index p"
  "block_free (pool_store (modify p i f) j) = block_free (pool_store p j)"
  by (simp_all add: modify_def)

lemma modify_inv [simp]:
  "in_use (modify p i f) = in_use p"
  "pool_inv (modify p i f) = pool_inv p"
  "has_room (modify p i f) = has_room p"
  by (simp_all add: in_use_def pool_inv_def has_room_def)

lemma deref_simps [simp]: "deref p None = Inl NullDeref" "deref p (Some i) = Inr (obj p i)"
  by (simp_all add: deref_def)

lemma new_pool_inv: "0 < n \<Longrightarrow> pool_inv (MemPool_new n x)"
  by (simp add: pool_inv_def MemPool_new_def)

lemma new_pool_in_use [simp]: "in_use (MemPool_new n x) = {}"
  by (simp add: in_use_def MemPool_new_def)

section \<open>The search for a free block\<close>

text \<open>
  Positions are counted from the start \<open>s\<close> of the search modulo the size: after \<open>d\<close> steps the
  search is at \<open>(s + d) mod n\<close>. It finds the first free position, and gives up after \<open>n\<close> steps.
\<close>

lemma wrap_step: "i < n \<Longrightarrow> (if i + 1 = n then 0 else i + 1) = Suc i mod (n::nat)"
  by (auto simp: mod_Suc)

lemma scan_free_finds:
  assumes "s < pool_size p" and "d + fuel = pool_size p"
    and "\<exists>e. d \<le> e \<and> e < pool_size p \<and> block_free (pool_store p ((s + e) mod pool_size p))"
  shows "\<exists>j. scan_free fuel p s ((s + d) mod pool_size p) = Inr j
           \<and> j < pool_size p \<and> block_free (pool_store p j)"
  using assms
proof (induction fuel arbitrary: d)
  case 0
  then show ?case by auto
next
  case (Suc fuel)
  let ?n = "pool_size p" and ?i = "(s + d) mod pool_size p"
  have n: "0 < ?n" using Suc.prems(1) by simp
  show ?case
  proof (cases "block_free (pool_store p ?i)")
    case True
    then show ?thesis using n by simp
  next
    case False
    from Suc.prems(3) obtain e where e: "d \<le> e" "e < ?n" "block_free (pool_store p ((s + e) mod ?n))"
      by blast
    with False have "d \<noteq> e" by auto
    with e have de: "Suc d \<le> e" by simp
    have step: "(if ?i + 1 = ?n then 0 else ?i + 1) = (s + Suc d) mod ?n"
      using wrap_step[of ?i ?n] n by (simp add: mod_Suc_eq)
    have "(s + Suc d) mod ?n \<noteq> s"
    proof
      assume "(s + Suc d) mod ?n = s"
      then have "(s + Suc d) mod ?n = (s + 0) mod ?n" using Suc.prems(1) by simp
      then have "Suc d = 0" using mod_add_inj[of s "Suc d" ?n 0] de e(2) n by auto
      then show False by simp
    qed
    moreover have "\<exists>j. scan_free fuel p s ((s + Suc d) mod ?n) = Inr j
        \<and> j < ?n \<and> block_free (pool_store p j)"
      using Suc.IH[of "Suc d"] Suc.prems e de by auto
    ultimately show ?thesis using False step by (auto simp: Let_def)
  qed
qed

lemma scan_free_none:
  assumes "s < pool_size p" and "d + fuel = pool_size p" and "0 < fuel"
    and "\<And>j. j < pool_size p \<Longrightarrow> \<not> block_free (pool_store p j)"
  shows "scan_free fuel p s ((s + d) mod pool_size p)
           = Inl (AssertFailed ''Memory Pool out of space.'')"
  using assms
proof (induction fuel arbitrary: d)
  case 0
  then show ?case by simp
next
  case (Suc fuel)
  let ?n = "pool_size p" and ?i = "(s + d) mod pool_size p"
  have n: "0 < ?n" using Suc.prems(1) by simp
  have step: "(if ?i + 1 = ?n then 0 else ?i + 1) = (s + Suc d) mod ?n"
    using wrap_step[of ?i ?n] n by (simp add: mod_Suc_eq)
  have "\<not> block_free (pool_store p ?i)" using Suc.prems(4) n by simp
  moreover have "scan_free fuel p s ((s + Suc d) mod ?n) = Inl (AssertFailed ''Memory Pool out of space.'')"
    if "(s + Suc d) mod ?n \<noteq> s"
  proof -
    have "fuel \<noteq> 0"
    proof
      assume "fuel = 0"
      then have "s + Suc d = s + ?n" using Suc.prems(2) by simp
      then have "(s + Suc d) mod ?n = s" using Suc.prems(1) by (simp del: add_Suc_right)
      with that show False by simp
    qed
    then show ?thesis using Suc.IH[of "Suc d"] Suc.prems by simp
  qed
  ultimately show ?case using step by (auto simp: Let_def)
qed

section \<open>Correctness of allocate and deallocate\<close>

lemma has_room_other:
  assumes "has_room p" and "i < pool_size p"
  shows "\<exists>j. j \<noteq> i \<and> j < pool_size p \<and> block_free (pool_store p j)"
proof (rule ccontr)
  assume "\<nexists>j. j \<noteq> i \<and> j < pool_size p \<and> block_free (pool_store p j)"
  then have "{..<pool_size p} \<subseteq> insert i (in_use p)"
    by (auto simp: in_use_def)
  then have "pool_size p \<le> card (insert i (in_use p))"
    using card_mono[of "insert i (in_use p)" "{..<pool_size p}"] by simp
  also have "\<dots> \<le> Suc (card (in_use p))" by (rule card_insert_le_m1) simp_all
  finally show False using assms(1) by (simp add: has_room_def)
qed

lemma position_from:
  assumes "s < n" and "j < (n::nat)"
  shows "\<exists>e<n. (s + e) mod n = j"
proof (cases "s \<le> j")
  case True
  with assms show ?thesis by (intro exI[of _ "j - s"]) auto
next
  case False
  with assms show ?thesis by (intro exI[of _ "n + j - s"]) auto
qed

lemma updateNextFreeIndex_total:
  assumes "next_free_index p < pool_size p" and "j < pool_size p" and "block_free (pool_store p j)"
  shows "\<exists>k. updateNextFreeIndex p = Inr (p\<lparr> next_free_index := k \<rparr>)
           \<and> k < pool_size p \<and> block_free (pool_store p k)"
proof -
  obtain e where "e < pool_size p" "(next_free_index p + e) mod pool_size p = j"
    using position_from assms by blast
  then show ?thesis
    using scan_free_finds[of "next_free_index p" p 0 "pool_size p"] assms
    by (fastforce simp: updateNextFreeIndex_def)
qed

lemma allocate_ok:
  assumes "pool_inv p" and "has_room p"
  shows "\<exists>p'. allocate p x = Inr (next_free_index p, p')
     \<and> pool_inv p' \<and> pool_size p' = pool_size p
     \<and> next_free_index p \<notin> in_use p
     \<and> in_use p' = insert (next_free_index p) (in_use p)
     \<and> obj p' (next_free_index p) = x
     \<and> (\<forall>j. j \<noteq> next_free_index p \<longrightarrow> obj p' j = obj p j)"
proof -
  let ?i = "next_free_index p"
  let ?q = "p\<lparr> pool_store := (pool_store p)(?i := \<lparr> block_object = x, block_free = False \<rparr>) \<rparr>"
  have i: "?i < pool_size p" and free: "block_free (pool_store p ?i)"
    using assms(1) by (auto simp: pool_inv_def)
  obtain j where j: "j \<noteq> ?i" "j < pool_size p" "block_free (pool_store p j)"
    using has_room_other[OF assms(2) i] by blast
  then obtain k where k: "updateNextFreeIndex ?q = Inr (?q\<lparr> next_free_index := k \<rparr>)"
      "k < pool_size ?q" "block_free (pool_store ?q k)"
    using updateNextFreeIndex_total[of ?q j] i by auto
  have "allocate p x = Inr (?i, ?q\<lparr> next_free_index := k \<rparr>)"
    using free k(1) by (simp add: allocate_def Let_def)
  moreover have "pool_inv (?q\<lparr> next_free_index := k \<rparr>)"
    using k by (simp add: pool_inv_def)
  moreover have "in_use (?q\<lparr> next_free_index := k \<rparr>) = insert ?i (in_use p)"
    using i by (auto simp: in_use_def)
  ultimately show ?thesis using free by (auto simp: obj_def in_use_def)
qed

text \<open>
  The last free block is never usable: with every other block in use, \<open>allocate\<close> marks it taken and
  then finds no next block, which stops the process.
\<close>

lemma allocate_last_block_aborts:
  assumes "pool_inv p" and "\<And>j. j < pool_size p \<Longrightarrow> j \<noteq> next_free_index p \<Longrightarrow> j \<in> in_use p"
  shows "allocate p x = Inl (AssertFailed ''Memory Pool out of space.'')"
proof -
  let ?i = "next_free_index p"
  let ?q = "p\<lparr> pool_store := (pool_store p)(?i := \<lparr> block_object = x, block_free = False \<rparr>) \<rparr>"
  have i: "?i < pool_size p" and free: "block_free (pool_store p ?i)"
    using assms(1) by (auto simp: pool_inv_def)
  have "scan_free (pool_size p) ?q ?i ?i = Inl (AssertFailed ''Memory Pool out of space.'')"
    using scan_free_none[of ?i ?q 0 "pool_size p"] i assms(2) by (auto simp: in_use_def)
  then show ?thesis using free by (simp add: allocate_def updateNextFreeIndex_def Let_def)
qed

lemma deallocate_ok:
  assumes "i \<in> in_use p"
  shows "\<exists>p'. deallocate p i = Inr p' \<and> pool_size p' = pool_size p
     \<and> (pool_inv p \<longrightarrow> pool_inv p')
     \<and> in_use p' = in_use p - {i} \<and> (\<forall>j. obj p' j = obj p j)"
  using assms by (auto simp: deallocate_def in_use_def pool_inv_def obj_def)

lemma deallocate_free_aborts:
  "i < pool_size p \<Longrightarrow> i \<notin> in_use p \<Longrightarrow>
   deallocate p i = Inl (AssertFailed ''Expected in-use ObjectBlock'')"
  by (simp add: deallocate_def in_use_def)

lemma opt_scan_free_eq:
  "opt_scan_free fuel p s i =
     (case scan_free fuel p s i of
        Inl (AssertFailed m) \<Rightarrow> FATAL m | Inl e \<Rightarrow> Inl e | Inr j \<Rightarrow> Inr j)"
  by (induction fuel p s i rule: scan_free.induct) (simp_all add: Let_def FATAL_def)

text \<open>
  Where the checked pool succeeds, the unchecked one does the same, whatever \<open>NDEBUG\<close> is.
\<close>

lemma opt_allocate_refines: "allocate p x = Inr r \<Longrightarrow> opt_allocate nd p x = Inr r"
  by (auto simp: allocate_def opt_allocate_def updateNextFreeIndex_def opt_scan_free_eq Let_def
      result_simps split: sum.splits)

lemma opt_deallocate_refines: "deallocate p i = Inr p' \<Longrightarrow> opt_deallocate nd p i = Inr p'"
  by (auto simp: deallocate_def opt_deallocate_def result_simps)

section \<open>The contract of a pool\<close>

text \<open>
  What the order books and the snapshot synthesizer rely on: a fresh block on \<open>allocate\<close> while there
  is room, nothing else disturbed, and a block in use can be given back.
\<close>

locale object_pool =
  fixes alloc :: "'a MemPool \<Rightarrow> 'a \<Rightarrow> (nat \<times> 'a MemPool) result"
    and dealloc :: "'a MemPool \<Rightarrow> nat \<Rightarrow> 'a MemPool result"
  assumes alloc_ok: "pool_inv p \<Longrightarrow> has_room p \<Longrightarrow>
      \<exists>i p'. alloc p x = Inr (i, p') \<and> pool_inv p' \<and> pool_size p' = pool_size p
        \<and> i \<notin> in_use p \<and> i < pool_size p \<and> in_use p' = insert i (in_use p) \<and> obj p' i = x
        \<and> (\<forall>j. j \<noteq> i \<longrightarrow> obj p' j = obj p j)"
    and dealloc_ok: "pool_inv p \<Longrightarrow> i \<in> in_use p \<Longrightarrow>
      \<exists>p'. dealloc p i = Inr p' \<and> pool_inv p' \<and> pool_size p' = pool_size p
        \<and> in_use p' = in_use p - {i} \<and> (\<forall>j. obj p' j = obj p j)"
begin

text \<open>Allocation followed by deallocation leaves the live blocks as they were.\<close>

lemma alloc_dealloc:
  assumes "pool_inv p" and "has_room p"
  shows "\<exists>i p1 p2. alloc p x = Inr (i, p1) \<and> dealloc p1 i = Inr p2 \<and> pool_inv p2
    \<and> in_use p2 = in_use p \<and> (\<forall>j \<in> in_use p. obj p2 j = obj p j)"
proof -
  obtain i p1 where a: "alloc p x = Inr (i, p1)" "pool_inv p1" "i \<notin> in_use p"
      "in_use p1 = insert i (in_use p)" "\<forall>j. j \<noteq> i \<longrightarrow> obj p1 j = obj p j"
    using alloc_ok[OF assms] by blast
  then obtain p2 where "dealloc p1 i = Inr p2" "pool_inv p2" "in_use p2 = in_use p1 - {i}"
      "\<forall>j. obj p2 j = obj p1 j"
    using dealloc_ok[of p1 i] by auto
  with a show ?thesis by (intro exI[of _ i] exI[of _ p1] exI[of _ p2]) auto
qed

text \<open>Freeing a list of live blocks, one after the other.\<close>

lemma dealloc_list:
  assumes "pool_inv p" and "distinct is" and "set is \<subseteq> in_use p"
  shows "\<exists>p'. foldR (\<lambda>i q. dealloc q i) is p = Inr p' \<and> pool_inv p' \<and> pool_size p' = pool_size p
    \<and> in_use p' = in_use p - set is \<and> (\<forall>j. obj p' j = obj p j)"
  using assms
proof (induction "is" arbitrary: p)
  case (Cons i "is")
  then obtain p1 where p1: "dealloc p i = Inr p1" "pool_inv p1" "pool_size p1 = pool_size p"
      "in_use p1 = in_use p - {i}" "\<forall>j. obj p1 j = obj p j"
    using dealloc_ok[of p i] by auto
  with Cons.prems have "distinct is" "set is \<subseteq> in_use p1" by auto
  then obtain p2 where "foldR (\<lambda>i q. dealloc q i) is p1 = Inr p2" "pool_inv p2"
      "pool_size p2 = pool_size p1" "in_use p2 = in_use p1 - set is" "\<forall>j. obj p2 j = obj p1 j"
    using Cons.IH p1(2) by blast
  with p1 show ?case by auto
qed simp

end

interpretation mp: object_pool allocate deallocate
proof
  fix p :: "'a MemPool" and x
  assume "pool_inv p" "has_room p"
  then show "\<exists>i p'. allocate p x = Inr (i, p') \<and> pool_inv p' \<and> pool_size p' = pool_size p
        \<and> i \<notin> in_use p \<and> i < pool_size p \<and> in_use p' = insert i (in_use p) \<and> obj p' i = x
        \<and> (\<forall>j. j \<noteq> i \<longrightarrow> obj p' j = obj p j)"
    using allocate_ok[of p x] by (auto simp: pool_inv_def)
next
  fix p :: "'a MemPool" and i
  assume "pool_inv p" "i \<in> in_use p"
  then show "\<exists>p'. deallocate p i = Inr p' \<and> pool_inv p' \<and> pool_size p' = pool_size p
        \<and> in_use p' = in_use p - {i} \<and> (\<forall>j. obj p' j = obj p j)"
    using deallocate_ok[of i p] by auto
qed

interpretation omp: object_pool "opt_allocate nd" "opt_deallocate nd" for nd
proof
  fix p :: "'a MemPool" and x
  assume "pool_inv p" "has_room p"
  then show "\<exists>i p'. opt_allocate nd p x = Inr (i, p') \<and> pool_inv p' \<and> pool_size p' = pool_size p
        \<and> i \<notin> in_use p \<and> i < pool_size p \<and> in_use p' = insert i (in_use p) \<and> obj p' i = x
        \<and> (\<forall>j. j \<noteq> i \<longrightarrow> obj p' j = obj p j)"
    using mp.alloc_ok[of p x] by (auto dest!: opt_allocate_refines[where nd = nd])
next
  fix p :: "'a MemPool" and i
  assume "pool_inv p" "i \<in> in_use p"
  then show "\<exists>p'. opt_deallocate nd p i = Inr p' \<and> pool_inv p' \<and> pool_size p' = pool_size p
        \<and> in_use p' = in_use p - {i} \<and> (\<forall>j. obj p' j = obj p j)"
    using mp.dealloc_ok[of p i] by (auto dest!: opt_deallocate_refines[where nd = nd])
qed

end
