(* ===== verification/Ring.thy ===== *)
theory Ring
  imports Prelude
begin

text \<open>
  Circular doubly linked lists, the shape of both kinds of list in the order books: the levels of
  one side and the orders of one level. The link fields of a pool are two functions \<open>nx\<close> and
  \<open>pv\<close> from blocks to pointers. \<open>links nx pv xs\<close> says that consecutive blocks of \<open>xs\<close> point
  to each other; \<open>ring nx pv xs\<close> says that the distinct blocks \<open>xs\<close> form a cycle in this order.
  The theory shows the effect on rings of the pointer assignments the books make:
  insertion before a block, removal, and rotation of the head.
\<close>

type_synonym field = "nat \<Rightarrow> ptr"

fun links :: "field \<Rightarrow> field \<Rightarrow> nat list \<Rightarrow> bool" where
  "links nx pv (x # y # zs) \<longleftrightarrow> nx x = Some y \<and> pv y = Some x \<and> links nx pv (y # zs)"
| "links nx pv xs \<longleftrightarrow> True"

definition ring :: "field \<Rightarrow> field \<Rightarrow> nat list \<Rightarrow> bool" where
  "ring nx pv xs \<longleftrightarrow> xs \<noteq> [] \<and> distinct xs \<and> links nx pv (xs @ [hd xs])"

lemma links_append:
  "links nx pv (xs @ y # zs) \<longleftrightarrow> links nx pv (xs @ [y]) \<and> links nx pv (y # zs)"
proof (induction xs)
  case (Cons x xs)
  then show ?case by (cases xs) auto
qed simp

lemma links_cong:
  "(\<And>x. x \<in> set (butlast xs) \<Longrightarrow> nx' x = nx x) \<Longrightarrow> (\<And>x. x \<in> set (tl xs) \<Longrightarrow> pv' x = pv x) \<Longrightarrow>
   links nx pv xs \<Longrightarrow> links nx' pv' xs"
proof (induction nx pv xs rule: links.induct)
  case (1 nx pv x y zs)
  have "links nx' pv' (y # zs)"
  proof (rule 1(1))
    show "\<And>u. u \<in> set (butlast (y # zs)) \<Longrightarrow> nx' u = nx u"
      using 1(2) by (simp split: if_splits)
    show "\<And>u. u \<in> set (tl (y # zs)) \<Longrightarrow> pv' u = pv u"
      using 1(3) by simp
    show "links nx pv (y # zs)" using 1(4) by simp
  qed
  then show ?case using 1(2)[of x] 1(3)[of y] 1(4) by simp
qed simp_all

lemma ring_nonempty: "ring nx pv xs \<Longrightarrow> xs \<noteq> []"
  by (simp add: ring_def)

lemma ring_distinct: "ring nx pv xs \<Longrightarrow> distinct xs"
  by (simp add: ring_def)

lemma ring_single [simp]: "ring nx pv [x] \<longleftrightarrow> nx x = Some x \<and> pv x = Some x"
  by (simp add: ring_def)

text \<open>A ring depends only on the links of its own blocks.\<close>

lemma ring_cong:
  assumes "ring nx pv xs" and "\<And>x. x \<in> set xs \<Longrightarrow> nx' x = nx x" and "\<And>x. x \<in> set xs \<Longrightarrow> pv' x = pv x"
  shows "ring nx' pv' xs"
proof -
  have "set (tl (xs @ [hd xs])) \<subseteq> set xs"
    using assms(1) by (cases xs) (auto simp: ring_def)
  moreover have "links nx pv (xs @ [hd xs])" using assms(1) by (simp add: ring_def)
  ultimately have "links nx' pv' (xs @ [hd xs])"
    using assms(2,3) by (intro links_cong[of "xs @ [hd xs]" nx' nx pv' pv]) auto
  then show ?thesis using assms(1) by (simp add: ring_def)
qed

text \<open>The head of the cycle may be any of its blocks.\<close>

lemma ring_rotate:
  assumes "ring nx pv (as @ bs)"
  shows "ring nx pv (bs @ as)"
proof (cases "as = [] \<or> bs = []")
  case True
  then show ?thesis using assms by auto
next
  case False
  then obtain a as' b bs' where ab: "as = a # as'" "bs = b # bs'"
    by (meson neq_Nil_conv)
  have "links nx pv (as @ b # bs' @ [a])" using assms ab by (simp add: ring_def)
  then have "links nx pv (as @ [b])" "links nx pv (b # bs' @ [a])"
    using links_append by blast+
  then have "links nx pv (bs @ as @ [b])"
    using ab links_append[of nx pv "b # bs'" a "as' @ [b]"] by simp
  then show ?thesis using assms ab by (auto simp: ring_def)
qed

lemma ring_rotate_iff: "ring nx pv (as @ bs) \<longleftrightarrow> ring nx pv (bs @ as)"
  using ring_rotate by blast

text \<open>Links of a ring, read off at any block.\<close>

lemma ring_next_hd: "ring nx pv (x # y # zs) \<Longrightarrow> nx x = Some y"
  by (simp add: ring_def)

lemma ring_prev_hd: "ring nx pv (x # xs) \<Longrightarrow> pv x = Some (last (x # xs))"
proof -
  assume r: "ring nx pv (x # xs)"
  obtain ys y where ys: "x # xs = ys @ [y]" by (metis neq_Nil_conv rev_exhaust)
  have "links nx pv (ys @ y # [x])" using r ys by (metis append.assoc append_Cons append_Nil list.sel(1) ring_def)
  then have "links nx pv [y, x]" using links_append by blast
  then show ?thesis using ys by simp
qed

lemma ring_next_mid: "ring nx pv (as @ x # y # bs) \<Longrightarrow> nx x = Some y"
  using ring_rotate[of nx pv as "x # y # bs"] by (simp add: ring_next_hd)

lemma ring_next_last: "ring nx pv (x # xs) \<Longrightarrow> nx (last (x # xs)) = Some x"
proof -
  assume r: "ring nx pv (x # xs)"
  obtain ys y where ys: "x # xs = ys @ [y]" by (metis neq_Nil_conv rev_exhaust)
  have "links nx pv (ys @ y # [x])" using r ys by (metis append.assoc append_Cons append_Nil list.sel(1) ring_def)
  then have "links nx pv [y, x]" using links_append by blast
  then show ?thesis using ys by simp
qed

lemma ring_prev_self: "ring nx pv xs \<Longrightarrow> x \<in> set xs \<Longrightarrow> pv x = Some x \<longleftrightarrow> xs = [x]"
proof -
  assume r: "ring nx pv xs" and x: "x \<in> set xs"
  obtain as bs where xs: "xs = as @ x # bs" using x by (meson split_list)
  have r': "ring nx pv (x # bs @ as)" using r xs ring_rotate[of nx pv as "x # bs"] by simp
  then have "pv x = Some (last (x # bs @ as))" by (rule ring_prev_hd)
  moreover have "last (x # bs @ as) = x \<longleftrightarrow> bs @ as = []"
    using ring_distinct[OF r'] by (metis distinct.simps(2) last_ConsL last_ConsR last_in_set)
  ultimately show ?thesis using xs by (auto simp: append_eq_Cons_conv)
qed

lemma ring_next_self: "ring nx pv xs \<Longrightarrow> x \<in> set xs \<Longrightarrow> nx x = Some x \<longleftrightarrow> xs = [x]"
proof -
  assume r: "ring nx pv xs" and x: "x \<in> set xs"
  obtain as bs where xs: "xs = as @ x # bs" using x by (meson split_list)
  have r': "ring nx pv (x # bs @ as)" using r xs ring_rotate[of nx pv as "x # bs"] by simp
  show ?thesis
  proof (cases "bs @ as")
    case Nil
    then show ?thesis using r' xs by simp
  next
    case (Cons y ys)
    then have "nx x = Some y" "x \<noteq> y"
      using r' ring_next_hd[of nx pv x y ys] ring_distinct[OF r'] by auto
    then show ?thesis using Cons xs by (auto simp: append_eq_Cons_conv)
  qed
qed

text \<open>Every block of a ring has both links inside the ring.\<close>

lemma ring_links_inside:
  assumes "ring nx pv xs" and "x \<in> set xs"
  shows "\<exists>y \<in> set xs. nx x = Some y" and "\<exists>y \<in> set xs. pv x = Some y"
proof -
  obtain as bs where xs: "xs = as @ x # bs" using assms(2) by (meson split_list)
  then have r: "ring nx pv (x # bs @ as)" using assms(1) ring_rotate[of nx pv as "x # bs"] by simp
  show "\<exists>y \<in> set xs. nx x = Some y"
  proof (cases "bs @ as")
    case Nil
    then show ?thesis using r xs by simp
  next
    case (Cons y ys)
    then have "y \<in> set xs" using xs by (metis Un_iff list.set_intros set_append)
    then show ?thesis using r Cons ring_next_hd by metis
  qed
  show "\<exists>y \<in> set xs. pv x = Some y"
    using ring_prev_hd[OF r] xs
    by (metis Un_iff last_in_set list.distinct(1) list.set_intros(1,2) set_ConsD set_append)
qed

section \<open>Insertion and removal\<close>

text \<open>
  Insertion of a fresh block \<open>x\<close> before the head \<open>t\<close>: between \<open>t\<close> and its predecessor.
\<close>

lemma ring_insert:
  assumes r: "ring nx pv (t # qs)" and fresh: "x \<notin> set (t # qs)" and p: "pv t = Some p"
    and nx': "nx' = nx(x := Some t, p := Some x)" and pv': "pv' = pv(x := Some p, t := Some x)"
  shows "ring nx' pv' (x # t # qs)"
proof -
  have last: "p = last (t # qs)" using ring_prev_hd[OF r] p by simp
  obtain ys where ys: "t # qs = ys @ [p]" using last append_butlast_last_id by (metis list.distinct(1))
  have pin: "p \<in> set (t # qs)" using ys by (metis in_set_conv_decomp)
  have "links nx pv (t # qs @ [t])" using r by (simp add: ring_def)
  then have "links nx pv (t # qs)" using ys links_append[of nx pv ys p "[t]"]
    by (metis append.assoc append_Cons append_Nil)
  moreover have "p \<notin> set (butlast (t # qs))"
    using ring_distinct[OF r] ys by (metis butlast_snoc distinct_append disjoint_iff list.set_intros(1))
  moreover have "t \<notin> set qs" using ring_distinct[OF r] by simp
  ultimately have "links nx' pv' (t # qs)"
    using fresh nx' pv' by (intro links_cong[of "t # qs" nx' nx pv' pv])
      (auto dest: in_set_butlastD split: if_splits)
  moreover have "nx' x = Some t" "pv' t = Some x" "nx' p = Some x" "pv' x = Some p"
    using nx' pv' fresh pin by auto
  ultimately have "links nx' pv' (x # t # qs)" "links nx' pv' [p, x]" by simp_all
  then have "links nx' pv' ((x # ys) @ [p])" "links nx' pv' [p, x]" using ys by simp_all
  then have "links nx' pv' ((x # ys) @ p # [x])" using links_append by blast
  then have "links nx' pv' (x # t # qs @ [x])" using ys by (metis append.assoc append_Cons append_Nil)
  then show ?thesis using r fresh by (simp add: ring_def)
qed

text \<open>Removal of the head \<open>x\<close> from a ring with other blocks.\<close>

lemma ring_remove:
  assumes r: "ring nx pv (x # t # qs)" and p: "pv x = Some p"
    and nx': "nx' = nx(p := Some t)" and pv': "pv' = pv(t := Some p)"
  shows "ring nx' pv' (t # qs)"
proof -
  have last: "p = last (t # qs)" using ring_prev_hd[OF r] p by simp
  obtain ys where ys: "t # qs = ys @ [p]" using last append_butlast_last_id by (metis list.distinct(1))
  have d: "distinct (t # qs)" using ring_distinct[OF r] by simp
  have "links nx pv (x # t # qs @ [x])" using r by (simp add: ring_def)
  then have "links nx pv ((t # qs) @ [x])" by simp
  then have "links nx pv (t # qs)" using ys links_append[of nx pv ys p "[x]"]
    by (metis append.assoc append_Cons append_Nil)
  moreover have "p \<notin> set (butlast (t # qs))"
    using d ys by (metis butlast_snoc distinct_append disjoint_iff list.set_intros(1))
  ultimately have "links nx' pv' (t # qs)"
    using d nx' pv' by (intro links_cong[of "t # qs" nx' nx pv' pv]) auto
  moreover have "nx' p = Some t" "pv' t = Some p" using nx' pv' by auto
  ultimately have "links nx' pv' (ys @ [p])" "links nx' pv' [p, t]" using ys by simp_all
  then have "links nx' pv' (ys @ p # [t])" using links_append by blast
  then have "links nx' pv' (t # qs @ [t])" using ys by (metis append.assoc append_Cons append_Nil)
  then show ?thesis using d by (simp add: ring_def)
qed

end
