(* ===== verification/BookCore.thy ===== *)
theory BookCore
  imports CommonTypes MemPool Ring
begin

text \<open>
  The pointer structure shared by the exchange's book (\<^verbatim>\<open>exchange/matcher/me_order_book.h\<close>) and the
  client's book (\<^verbatim>\<open>trading/strategy/market_order_book.h\<close>): the source states that the four list
  operations of the two are the same algorithm. An order is an extensible record whose first fields are
  the ones these operations use, and the operations take the function \<open>slot\<close> that
  computes the place of an order in the book's id array (\<open>cid_oid_to_order_\<close> or
  \<open>oid_to_order_\<close>), or \<open>OutOfRange\<close> where \<open>.at()\<close> throws. Pointers are indices into the pools, and every
  assignment through a pointer is a \<open>modify\<close> of its pool in the order the code makes it.
\<close>

section \<open>Data\<close>

text \<open>\<open>MEOrdersAtPrice\<close> and \<open>MarketOrdersAtPrice\<close> have the same fields.\<close>

record OrdersAtPrice =
  lv_side :: Side
  lv_price :: Price
  lv_first :: ptr
  lv_prev :: ptr
  lv_next :: ptr

definition OrdersAtPrice_default :: OrdersAtPrice where
  "OrdersAtPrice_default =
     \<lparr> lv_side = Side_INVALID, lv_price = Price_INVALID, lv_first = None, lv_prev = None, lv_next = None \<rparr>"

record order_node =
  on_side :: Side
  on_price :: Price
  on_qty :: Qty
  on_priority :: Priority
  on_prev :: ptr
  on_next :: ptr

record ('k, 'e) book =
  bk_index :: "'k \<Rightarrow> ptr"
  bk_levels :: "OrdersAtPrice MemPool"
  bk_orders :: "'e order_node_scheme MemPool"
  bk_bids :: ptr
  bk_asks :: ptr
  bk_price_index :: "nat \<Rightarrow> ptr"

abbreviation LV :: "('k, 'e) book \<Rightarrow> nat \<Rightarrow> OrdersAtPrice" where
  "LV b l \<equiv> obj (bk_levels b) l"

abbreviation ON :: "('k, 'e) book \<Rightarrow> nat \<Rightarrow> 'e order_node_scheme" where
  "ON b i \<equiv> obj (bk_orders b) i"

section \<open>Operations\<close>

text \<open>\<open>p->field = v\<close>: undefined for \<open>nullptr\<close>.\<close>

definition assign :: "'a MemPool \<Rightarrow> ptr \<Rightarrow> ('a \<Rightarrow> 'a) \<Rightarrow> 'a MemPool result" where
  "assign p q f = (case q of None \<Rightarrow> Inl NullDeref | Some i \<Rightarrow> Inr (modify p i f))"

lemma assign_simps [simp]: "assign p None f = Inl NullDeref" "assign p (Some i) f = Inr (modify p i f)"
  by (simp_all add: assign_def)

text \<open>\<open>(side == Side::BUY ? bids_by_price_ : asks_by_price_)\<close>, read and assigned.\<close>

definition best_of :: "Side \<Rightarrow> ('k, 'e) book \<Rightarrow> ptr" where
  "best_of side b = (if side = BUY then bk_bids b else bk_asks b)"

definition set_best :: "Side \<Rightarrow> ptr \<Rightarrow> ('k, 'e) book \<Rightarrow> ('k, 'e) book" where
  "set_best side p b = (if side = BUY then b\<lparr> bk_bids := p \<rparr> else b\<lparr> bk_asks := p \<rparr>)"

text \<open>\<open>price_orders_at_price_.at(priceToIndex(price))\<close>: the index is always in range.\<close>

definition getOrdersAtPrice :: "('k, 'e) book \<Rightarrow> Price \<Rightarrow> ptr" where
  "getOrdersAtPrice b price = bk_price_index b (priceToIndex price)"

definition set_price_index :: "('k, 'e) book \<Rightarrow> Price \<Rightarrow> ptr \<Rightarrow> ('k, 'e) book" where
  "set_price_index b price p = b\<lparr> bk_price_index := (bk_price_index b)(priceToIndex price := p) \<rparr>"

text \<open>The condition \<open>add_after\<close>: the new level is worse than the target.\<close>

definition add_after :: "OrdersAtPrice \<Rightarrow> OrdersAtPrice \<Rightarrow> bool" where
  "add_after n t \<longleftrightarrow> (lv_side n = SELL \<and> lv_price n > lv_price t) \<or> (lv_side n = BUY \<and> lv_price n < lv_price t)"

text \<open>The \<open>while\<close> loop that looks for the insertion point.\<close>

fun insertion_walk ::
  "nat \<Rightarrow> OrdersAtPrice MemPool \<Rightarrow> OrdersAtPrice \<Rightarrow> ptr \<Rightarrow> ptr \<Rightarrow> bool \<Rightarrow> (ptr \<times> bool) result" where
  "insertion_walk fuel L n best target aa =
     (if aa \<and> target \<noteq> best then
        (case fuel of
           0 \<Rightarrow> Inl OutOfFuel
         | Suc fuel' \<Rightarrow>
             bindR (deref L target) (\<lambda>t.
             if add_after n t then insertion_walk fuel' L n best (lv_next t) True
             else insertion_walk fuel' L n best target False))
      else Inr (target, aa))"

declare insertion_walk.simps [simp del]

definition insert_level_after ::
  "OrdersAtPrice MemPool \<Rightarrow> nat \<Rightarrow> ptr \<Rightarrow> OrdersAtPrice MemPool result" where
  "insert_level_after L new target =
     (let L1 = modify L new (lv_prev_update (\<lambda>_. target)) in
      bindR (deref L1 target) (\<lambda>t.
      bindR (assign L1 (lv_next t) (lv_prev_update (\<lambda>_. Some new))) (\<lambda>L2.
      bindR (deref L2 target) (\<lambda>t2.
      let L3 = modify L2 new (lv_next_update (\<lambda>_. lv_next t2)) in
      assign L3 target (lv_next_update (\<lambda>_. Some new))))))"

definition insert_level_before ::
  "OrdersAtPrice MemPool \<Rightarrow> nat \<Rightarrow> ptr \<Rightarrow> OrdersAtPrice MemPool result" where
  "insert_level_before L new target =
     bindR (deref L target) (\<lambda>t.
     let L1 = modify L new (lv_prev_update (\<lambda>_. lv_prev t));
         L2 = modify L1 new (lv_next_update (\<lambda>_. target)) in
     bindR (deref L2 target) (\<lambda>t2.
     bindR (assign L2 (lv_prev t2) (lv_next_update (\<lambda>_. Some new))) (\<lambda>L3.
     assign L3 target (lv_prev_update (\<lambda>_. Some new)))))"

definition addOrdersAtPrice :: "('k, 'e) book \<Rightarrow> nat \<Rightarrow> ('k, 'e) book result" where
  "addOrdersAtPrice b0 new =
     (let n = LV b0 new;
          b = set_price_index b0 (lv_price n) (Some new);
          side = lv_side n;
          best = best_of side b;
          L = bk_levels b
      in
      if best = None then
        Inr (set_best side (Some new)
               (b\<lparr> bk_levels := modify L new (\<lambda>v. v\<lparr> lv_prev := Some new, lv_next := Some new \<rparr>) \<rparr>))
      else
        bindR (deref L best) (\<lambda>t0.
        bindR (if add_after n t0
               then bindR (deref L (lv_next t0)) (\<lambda>t1. Inr (lv_next t0, add_after n t1))
               else Inr (best, False)) (\<lambda>(target1, aa1).
        bindR (insertion_walk (pool_size L) L n best target1 aa1) (\<lambda>(target, aa).
        if aa then
          bindR (if target = best then Inr (lv_prev t0) else Inr target) (\<lambda>target'.
          bindR (insert_level_after L new target') (\<lambda>L'.
          Inr (b\<lparr> bk_levels := L' \<rparr>)))
        else
          bindR (insert_level_before L new target) (\<lambda>L1.
          bindR (deref L1 best) (\<lambda>tb.
          if (side = BUY \<and> lv_price n > lv_price tb) \<or> (side = SELL \<and> lv_price n < lv_price tb) then
            bindR (assign L1 target (\<lambda>v. v\<lparr> lv_next := (if lv_next v = best then Some new else lv_next v) \<rparr>))
              (\<lambda>L2. Inr (set_best side (Some new) (b\<lparr> bk_levels := L2 \<rparr>)))
          else Inr (b\<lparr> bk_levels := L1 \<rparr>)))))))"

definition removeOrdersAtPrice :: "('k, 'e) book \<Rightarrow> Side \<Rightarrow> Price \<Rightarrow> ('k, 'e) book result" where
  "removeOrdersAtPrice b side price =
     (let best = best_of side b;
          p = getOrdersAtPrice b price;
          L = bk_levels b
      in
      bindR (deref L p) (\<lambda>oap.
      bindR (if lv_next oap = p then Inr (set_best side None b)
             else
               bindR (assign L (lv_prev oap) (lv_next_update (\<lambda>_. lv_next oap))) (\<lambda>L1.
               bindR (deref L1 p) (\<lambda>oap1.
               bindR (assign L1 (lv_next oap1) (lv_prev_update (\<lambda>_. lv_prev oap1))) (\<lambda>L2.
               bindR (deref L2 p) (\<lambda>oap2.
               bindR (assign L2 p (\<lambda>v. v\<lparr> lv_prev := None, lv_next := None \<rparr>)) (\<lambda>L3.
               Inr ((if p = best then set_best side (lv_next oap2) b else b)\<lparr> bk_levels := L3 \<rparr>))))))) (\<lambda>b1.
      case p of
        None \<Rightarrow> Inl NullDeref
      | Some i \<Rightarrow>
          bindR (deallocate (bk_levels b1) i) (\<lambda>L4.
          Inr ((set_price_index b1 price None)\<lparr> bk_levels := L4 \<rparr>)))))"

definition removeOrder :: "('e order_node_scheme \<Rightarrow> 'k result) \<Rightarrow> ('k, 'e) book \<Rightarrow> ptr \<Rightarrow> ('k, 'e) book result" where
  "removeOrder slot b p =
     bindR (deref (bk_orders b) p) (\<lambda>order.
     let oap = getOrdersAtPrice b (on_price order) in
     bindR (if on_prev order = p then removeOrdersAtPrice b (on_side order) (on_price order)
            else
              bindR (assign (bk_orders b) (on_prev order) (on_next_update (\<lambda>_. on_next order))) (\<lambda>O1.
              bindR (assign O1 (on_next order) (on_prev_update (\<lambda>_. on_prev order))) (\<lambda>O2.
              bindR (deref (bk_levels b) oap) (\<lambda>lv.
              bindR (if lv_first lv = p
                     then assign (bk_levels b) oap (lv_first_update (\<lambda>_. on_next order))
                     else Inr (bk_levels b)) (\<lambda>L1.
              bindR (assign O2 p (\<lambda>v. v\<lparr> on_prev := None, on_next := None \<rparr>)) (\<lambda>O3.
              Inr (b\<lparr> bk_orders := O3, bk_levels := L1 \<rparr>))))))) (\<lambda>b1.
     bindR (slot order) (\<lambda>k.
     case p of
       None \<Rightarrow> Inl NullDeref
     | Some i \<Rightarrow>
         bindR (deallocate (bk_orders b1) i) (\<lambda>O4.
         Inr (b1\<lparr> bk_index := (bk_index b1)(k := None), bk_orders := O4 \<rparr>)))))"

definition addOrder :: "('e order_node_scheme \<Rightarrow> 'k result) \<Rightarrow> ('k, 'e) book \<Rightarrow> nat \<Rightarrow> ('k, 'e) book result" where
  "addOrder slot b i =
     (let order = ON b i;
          oap = getOrdersAtPrice b (on_price order)
      in
      bindR (if oap = None then
               (let b1 = b\<lparr> bk_orders := modify (bk_orders b) i (\<lambda>v. v\<lparr> on_next := Some i, on_prev := Some i \<rparr>) \<rparr> in
                bindR (allocate (bk_levels b1)
                         \<lparr> lv_side = on_side order, lv_price = on_price order, lv_first = Some i,
                           lv_prev = None, lv_next = None \<rparr>) (\<lambda>(new, L1).
                addOrdersAtPrice (b1\<lparr> bk_levels := L1 \<rparr>) new))
             else
               bindR (deref (bk_levels b) oap) (\<lambda>lv.
               let first = lv_first lv in
               bindR (deref (bk_orders b) first) (\<lambda>f.
               bindR (assign (bk_orders b) (on_prev f) (on_next_update (\<lambda>_. Some i))) (\<lambda>O1.
               bindR (deref O1 first) (\<lambda>f1.
               let O2 = modify O1 i (on_prev_update (\<lambda>_. on_prev f1));
                   O3 = modify O2 i (on_next_update (\<lambda>_. first)) in
               bindR (assign O3 first (on_prev_update (\<lambda>_. Some i))) (\<lambda>O4.
               Inr (b\<lparr> bk_orders := O4 \<rparr>))))))) (\<lambda>b2.
      bindR (slot (ON b2 i)) (\<lambda>k.
      Inr (b2\<lparr> bk_index := (bk_index b2)(k := Some i) \<rparr>))))"

end
