(* ===== verification/BookRep.thy ===== *)
theory BookRep
  imports BookCore
begin

text \<open>
  What the pointer structure of the theory BookCore represents. A \<^emph>\<open>shape\<close> lists, for one side, the level
  blocks best first, each with the blocks of its orders first in first out.
  \<open>side_ok b side Ls\<close> says that the links of \<open>b\<close> have the shape \<open>Ls\<close> on that side and
  that its prices improve strictly towards the head; \<open>book_rep\<close> joins both sides with the id array, the
  price array and the two pools. \<open>abs_side\<close> reads the abstract value off a shape: prices with
  their queues of orders, links removed.
\<close>

section \<open>Shapes\<close>

type_synonym shape = "(nat \<times> nat list) list"

definition level_blocks :: "shape \<Rightarrow> nat list" where
  "level_blocks Ls = map fst Ls"

definition order_blocks :: "shape \<Rightarrow> nat list" where
  "order_blocks Ls = concat (map snd Ls)"

lemma level_blocks_simps [simp]:
  "level_blocks [] = []" "level_blocks ((l, os) # Ls) = l # level_blocks Ls"
  "level_blocks (Ls @ Ls') = level_blocks Ls @ level_blocks Ls'"
  by (simp_all add: level_blocks_def)

lemma order_blocks_simps [simp]:
  "order_blocks [] = []" "order_blocks ((l, os) # Ls) = os @ order_blocks Ls"
  "order_blocks (Ls @ Ls') = order_blocks Ls @ order_blocks Ls'"
  by (simp_all add: order_blocks_def)

lemma level_blocks_eq_Nil [simp]: "level_blocks Ls = [] \<longleftrightarrow> Ls = []"
  by (simp add: level_blocks_def)

lemma level_blocksI: "(l, os) \<in> set Ls \<Longrightarrow> l \<in> set (level_blocks Ls)"
  by (force simp: level_blocks_def)

lemma order_blocksI: "(l, os) \<in> set Ls \<Longrightarrow> i \<in> set os \<Longrightarrow> i \<in> set (order_blocks Ls)"
  by (force simp: order_blocks_def)

text \<open>\<open>better side p q\<close>: the price \<open>p\<close> is closer to the head of the side's list than \<open>q\<close>.\<close>

definition better :: "Side \<Rightarrow> Price \<Rightarrow> Price \<Rightarrow> bool" where
  "better side p q \<longleftrightarrow> (if side = BUY then q < p else p < q)"

lemma better_trans: "better side p q \<Longrightarrow> better side q r \<Longrightarrow> better side p r"
  by (auto simp: better_def split: if_splits)

lemma better_irrefl [simp]: "\<not> better side p p"
  by (simp add: better_def)

lemma better_total: "p \<noteq> q \<Longrightarrow> better side p q \<or> better side q p"
  by (auto simp: better_def)

lemma better_asym: "better side p q \<Longrightarrow> \<not> better side q p"
  by (auto simp: better_def split: if_splits)

definition lnx :: "('k, 'e) book \<Rightarrow> field" where "lnx b = (\<lambda>l. lv_next (LV b l))"
definition lpv :: "('k, 'e) book \<Rightarrow> field" where "lpv b = (\<lambda>l. lv_prev (LV b l))"
definition onx :: "('k, 'e) book \<Rightarrow> field" where "onx b = (\<lambda>i. on_next (ON b i))"
definition opv :: "('k, 'e) book \<Rightarrow> field" where "opv b = (\<lambda>i. on_prev (ON b i))"

definition level_ok :: "('k, 'e) book \<Rightarrow> Side \<Rightarrow> nat \<times> nat list \<Rightarrow> bool" where
  "level_ok b side x \<longleftrightarrow> lv_side (LV b (fst x)) = side
     \<and> lv_first (LV b (fst x)) = Some (hd (snd x))
     \<and> ring (onx b) (opv b) (snd x)
     \<and> (\<forall>i \<in> set (snd x). on_side (ON b i) = side \<and> on_price (ON b i) = lv_price (LV b (fst x)))"

definition levels_linked :: "('k, 'e) book \<Rightarrow> Side \<Rightarrow> shape \<Rightarrow> bool" where
  "levels_linked b side Ls \<longleftrightarrow>
     best_of side b = (if Ls = [] then None else Some (hd (level_blocks Ls)))
     \<and> (Ls \<noteq> [] \<longrightarrow> ring (lnx b) (lpv b) (level_blocks Ls))"

definition side_ok :: "('k, 'e) book \<Rightarrow> Side \<Rightarrow> shape \<Rightarrow> bool" where
  "side_ok b side Ls \<longleftrightarrow> levels_linked b side Ls
     \<and> (\<forall>x \<in> set Ls. level_ok b side x)
     \<and> sorted_wrt (better side) (map (\<lambda>l. lv_price (LV b l)) (level_blocks Ls))"

section \<open>Frame lemmas\<close>

lemma level_ok_cong:
  assumes "level_ok b side (l, os)"
    and "lv_side (LV b' l) = lv_side (LV b l)" "lv_first (LV b' l) = lv_first (LV b l)"
      "lv_price (LV b' l) = lv_price (LV b l)"
    and "\<And>i. i \<in> set os \<Longrightarrow> ON b' i = ON b i"
  shows "level_ok b' side (l, os)"
proof -
  have "ring (onx b') (opv b') os"
    using assms ring_cong[of "onx b" "opv b" os "onx b'" "opv b'"]
    by (auto simp: level_ok_def onx_def opv_def)
  then show ?thesis using assms by (auto simp: level_ok_def)
qed

lemma side_ok_cong:
  assumes "side_ok b side Ls" and "best_of side b' = best_of side b"
    and "\<And>l. l \<in> set (level_blocks Ls) \<Longrightarrow> LV b' l = LV b l"
    and "\<And>i. i \<in> set (order_blocks Ls) \<Longrightarrow> ON b' i = ON b i"
  shows "side_ok b' side Ls"
proof -
  have "ring (lnx b') (lpv b') (level_blocks Ls)" if "Ls \<noteq> []"
    using assms that ring_cong[of "lnx b" "lpv b" "level_blocks Ls" "lnx b'" "lpv b'"]
    by (auto simp: side_ok_def levels_linked_def lnx_def lpv_def)
  moreover have "level_ok b' side x" if "x \<in> set Ls" for x
  proof -
    obtain l os where x: "x = (l, os)" by (cases x)
    then show ?thesis
      using that assms level_ok_cong[of b side l os b'] level_blocksI[of l os Ls]
        order_blocksI[of l os Ls] by (auto simp: side_ok_def)
  qed
  moreover have "sorted_wrt (better side) (map (\<lambda>l. lv_price (LV b' l)) (level_blocks Ls))"
  proof -
    have "map (\<lambda>l. lv_price (LV b' l)) (level_blocks Ls) = map (\<lambda>l. lv_price (LV b l)) (level_blocks Ls)"
      using assms(3) by simp
    then show ?thesis using assms(1) unfolding side_ok_def by metis
  qed
  ultimately show ?thesis
    using assms by (auto simp: side_ok_def levels_linked_def)
qed

section \<open>The abstract value\<close>

text \<open>An order without its links; the abstract side is the list of price levels with their queues.\<close>

definition unlinked :: "'e order_node_scheme \<Rightarrow> 'e order_node_scheme" where
  "unlinked n = n\<lparr> on_prev := None, on_next := None \<rparr>"

lemma unlinked_frame [simp]:
  "on_side (unlinked n) = on_side n" "on_price (unlinked n) = on_price n"
  "on_qty (unlinked n) = on_qty n" "on_priority (unlinked n) = on_priority n"
  "order_node.more (unlinked n) = order_node.more n"
  "unlinked (n\<lparr> on_prev := p \<rparr>) = unlinked n" "unlinked (n\<lparr> on_next := p \<rparr>) = unlinked n"
  "unlinked (unlinked n) = unlinked n"
  by (simp_all add: unlinked_def)

type_synonym 'v side_view = "(Price \<times> 'v list) list"

definition abs_side :: "('k, 'e) book \<Rightarrow> shape \<Rightarrow> 'e order_node_scheme side_view" where
  "abs_side b Ls = map (\<lambda>(l, os). (lv_price (LV b l), map (\<lambda>i. unlinked (ON b i)) os)) Ls"

lemma abs_side_simps [simp]:
  "abs_side b [] = []"
  "abs_side b ((l, os) # Ls) = (lv_price (LV b l), map (\<lambda>i. unlinked (ON b i)) os) # abs_side b Ls"
  "abs_side b (Ls @ Ls') = abs_side b Ls @ abs_side b Ls'"
  by (simp_all add: abs_side_def)

lemma abs_side_cong:
  assumes "\<And>l. l \<in> set (level_blocks Ls) \<Longrightarrow> lv_price (LV b' l) = lv_price (LV b l)"
    and "\<And>i. i \<in> set (order_blocks Ls) \<Longrightarrow> unlinked (ON b' i) = unlinked (ON b i)"
  shows "abs_side b' Ls = abs_side b Ls"
  using assms by (induction Ls) auto

text \<open>
  The operations of the abstract value: append to the queue of a price, creating its level in the
  right place; delete the orders with a property, dropping empty levels; change the orders with a property.
\<close>

fun view_insert :: "Side \<Rightarrow> Price \<Rightarrow> 'v \<Rightarrow> 'v side_view \<Rightarrow> 'v side_view" where
  "view_insert side p v [] = [(p, [v])]"
| "view_insert side p v ((q, vs) # ls) =
     (if q = p then (q, vs @ [v]) # ls
      else if better side p q then (p, [v]) # (q, vs) # ls
      else (q, vs) # view_insert side p v ls)"

definition view_delete :: "('v \<Rightarrow> bool) \<Rightarrow> 'v side_view \<Rightarrow> 'v side_view" where
  "view_delete P ls =
     filter (\<lambda>(q, vs). vs \<noteq> []) (map (\<lambda>(q, vs). (q, filter (\<lambda>v. \<not> P v) vs)) ls)"

definition view_update :: "('v \<Rightarrow> bool) \<Rightarrow> ('v \<Rightarrow> 'v) \<Rightarrow> 'v side_view \<Rightarrow> 'v side_view" where
  "view_update P f ls = map (\<lambda>(q, vs). (q, map (\<lambda>v. if P v then f v else v) vs)) ls"

definition view_orders :: "'v side_view \<Rightarrow> 'v list" where
  "view_orders ls = concat (map snd ls)"

lemma view_delete_simps [simp]:
  "view_delete P [] = []"
  "view_delete P (ls @ ls') = view_delete P ls @ view_delete P ls'"
  "view_delete P ((q, vs) # ls) =
     (let vs' = filter (\<lambda>v. \<not> P v) vs in if vs' = [] then view_delete P ls else (q, vs') # view_delete P ls)"
  by (simp_all add: view_delete_def Let_def)

lemma view_update_simps [simp]:
  "view_update P f [] = []"
  "view_update P f (ls @ ls') = view_update P f ls @ view_update P f ls'"
  "view_update P f ((q, vs) # ls) = (q, map (\<lambda>v. if P v then f v else v) vs) # view_update P f ls"
  by (simp_all add: view_update_def)

lemma view_orders_simps [simp]:
  "view_orders [] = []" "view_orders ((q, vs) # ls) = vs @ view_orders ls"
  "view_orders (ls @ ls') = view_orders ls @ view_orders ls'"
  by (simp_all add: view_orders_def)

lemma view_delete_id: "(\<And>v. v \<in> set (view_orders ls) \<Longrightarrow> \<not> P v) \<Longrightarrow> (\<And>q vs. (q, vs) \<in> set ls \<Longrightarrow> vs \<noteq> [])
    \<Longrightarrow> view_delete P ls = ls"
proof (induction ls)
  case (Cons x ls)
  obtain q vs where x: "x = (q, vs)" by (cases x)
  have "filter (\<lambda>v. \<not> P v) vs = vs" using Cons.prems(1) x by (intro filter_True) auto
  moreover have "vs \<noteq> []" using Cons.prems(2)[of q vs] x by simp
  moreover have "view_delete P ls = ls"
    using Cons.prems by (intro Cons.IH) (auto simp: x)
  ultimately show ?case by (simp add: x)
qed simp

lemma view_update_id: "(\<And>v. v \<in> set (view_orders ls) \<Longrightarrow> \<not> P v) \<Longrightarrow> view_update P f ls = ls"
  by (induction ls) (auto intro!: map_idI)

lemma view_orders_insert: "mset (view_orders (view_insert side p v ls)) = add_mset v (mset (view_orders ls))"
  by (induction side p v ls rule: view_insert.induct) auto

lemma view_orders_delete: "view_orders (view_delete P ls) = filter (\<lambda>v. \<not> P v) (view_orders ls)"
  by (induction ls) (auto simp: Let_def)

lemma view_orders_abs: "view_orders (abs_side b Ls) = map (\<lambda>i. unlinked (ON b i)) (order_blocks Ls)"
  by (induction Ls) auto

section \<open>The representation of a whole book\<close>

definition live_levels :: "shape \<Rightarrow> shape \<Rightarrow> nat set" where
  "live_levels Bs As = set (level_blocks Bs) \<union> set (level_blocks As)"

definition live_orders :: "shape \<Rightarrow> shape \<Rightarrow> nat set" where
  "live_orders Bs As = set (order_blocks Bs) \<union> set (order_blocks As)"

definition shapes_disjoint :: "shape \<Rightarrow> shape \<Rightarrow> bool" where
  "shapes_disjoint Bs As \<longleftrightarrow> distinct (level_blocks Bs @ level_blocks As)
     \<and> distinct (order_blocks Bs @ order_blocks As)"

definition pools_ok :: "('k, 'e) book \<Rightarrow> shape \<Rightarrow> shape \<Rightarrow> bool" where
  "pools_ok b Bs As \<longleftrightarrow> pool_inv (bk_levels b) \<and> pool_inv (bk_orders b)
     \<and> in_use (bk_levels b) = live_levels Bs As \<and> in_use (bk_orders b) = live_orders Bs As"

definition price_index_ok :: "('k, 'e) book \<Rightarrow> shape \<Rightarrow> shape \<Rightarrow> bool" where
  "price_index_ok b Bs As \<longleftrightarrow>
     (\<forall>i l. bk_price_index b i = Some l \<longleftrightarrow> l \<in> live_levels Bs As \<and> priceToIndex (lv_price (LV b l)) = i)
     \<and> (\<forall>l \<in> live_levels Bs As. price_in_window (lv_price (LV b l)))"

definition id_index_ok ::
  "('e order_node_scheme \<Rightarrow> 'k result) \<Rightarrow> ('k, 'e) book \<Rightarrow> shape \<Rightarrow> shape \<Rightarrow> bool" where
  "id_index_ok slot b Bs As \<longleftrightarrow>
     (\<forall>k i. bk_index b k = Some i \<longleftrightarrow> i \<in> live_orders Bs As \<and> slot (ON b i) = Inr k)
     \<and> (\<forall>i \<in> live_orders Bs As. \<exists>k. slot (ON b i) = Inr k)"

definition opp :: "Side \<Rightarrow> Side" where
  "opp side = (if side = BUY then SELL else BUY)"

lemma opp_simps [simp]: "opp BUY = SELL" "opp SELL = BUY"
  by (simp_all add: opp_def)

text \<open>
  The operations treat the two sides alike, so the representation is stated from the view of one of
  them: \<open>Ls\<close> is the shape of \<open>side\<close>, \<open>Ms\<close> the shape of the other.
\<close>

definition half_rep ::
  "('e order_node_scheme \<Rightarrow> 'k result) \<Rightarrow> ('k, 'e) book \<Rightarrow> Side \<Rightarrow> shape \<Rightarrow> shape \<Rightarrow> bool" where
  "half_rep slot b side Ls Ms \<longleftrightarrow> side_ok b side Ls \<and> side_ok b (opp side) Ms \<and> shapes_disjoint Ls Ms
     \<and> pools_ok b Ls Ms \<and> price_index_ok b Ls Ms \<and> id_index_ok slot b Ls Ms"

definition book_rep ::
  "('e order_node_scheme \<Rightarrow> 'k result) \<Rightarrow> ('k, 'e) book \<Rightarrow> shape \<Rightarrow> shape \<Rightarrow> bool" where
  "book_rep slot b Bs As \<longleftrightarrow> half_rep slot b BUY Bs As"

lemma half_rep_swap:
  assumes "side = BUY \<or> side = SELL"
  shows "half_rep slot b side Ls Ms \<longleftrightarrow> half_rep slot b (opp side) Ms Ls"
  using assms
  by (auto simp: half_rep_def shapes_disjoint_def pools_ok_def price_index_ok_def id_index_ok_def
      live_levels_def live_orders_def)

lemmas live_defs = live_levels_def live_orders_def

section \<open>Changes of the two arrays\<close>

lemma id_index_add:
  assumes "id_index_ok slot b Ls Ms" and "live_orders Ls' Ms' = insert i (live_orders Ls Ms)"
    and "i \<notin> live_orders Ls Ms" and "\<And>j. j \<in> live_orders Ls Ms \<Longrightarrow> slot (ON b' j) = slot (ON b j)"
    and "slot (ON b' i) = Inr k" and "bk_index b k = None" and "bk_index b' = (bk_index b)(k := Some i)"
  shows "id_index_ok slot b' Ls' Ms'"
proof -
  have "bk_index b' m = Some j \<longleftrightarrow> j \<in> live_orders Ls' Ms' \<and> slot (ON b' j) = Inr m" for m j
  proof (cases "m = k")
    case True
    have "slot (ON b j) \<noteq> Inr k" if "j \<in> live_orders Ls Ms"
    proof
      assume "slot (ON b j) = Inr k"
      then have "bk_index b k = Some j" using assms(1) that by (simp add: id_index_ok_def)
      then show False using assms(6) by simp
    qed
    then show ?thesis using True assms by auto
  next
    case False
    then show ?thesis using assms by (auto simp: id_index_ok_def)
  qed
  then show ?thesis using assms by (auto simp: id_index_ok_def)
qed

lemma id_index_remove:
  assumes ok: "id_index_ok slot b Ls Ms" and live: "live_orders Ls' Ms' = live_orders Ls Ms - {i}"
    and i: "i \<in> live_orders Ls Ms"
    and same: "\<And>j. j \<in> live_orders Ls' Ms' \<Longrightarrow> slot (ON b' j) = slot (ON b j)"
    and k: "slot (ON b i) = Inr k" and upd: "bk_index b' = (bk_index b)(k := None)"
  shows "id_index_ok slot b' Ls' Ms'"
proof -
  have ki: "bk_index b k = Some i" using ok i k by (simp add: id_index_ok_def)
  have "bk_index b' m = Some j \<longleftrightarrow> j \<in> live_orders Ls' Ms' \<and> slot (ON b' j) = Inr m" for m j
  proof (cases "m = k")
    case True
    have "slot (ON b' j) \<noteq> Inr k" if "j \<in> live_orders Ls' Ms'"
    proof
      assume "slot (ON b' j) = Inr k"
      then have "bk_index b k = Some j" using ok that live same by (auto simp: id_index_ok_def)
      then show False using ki live that by auto
    qed
    then show ?thesis using True upd by auto
  next
    case False
    have "bk_index b m = Some j \<longleftrightarrow> j \<in> live_orders Ls Ms \<and> slot (ON b j) = Inr m"
      using ok by (simp add: id_index_ok_def)
    moreover have "slot (ON b i) \<noteq> Inr m" using k False by simp
    ultimately show ?thesis using False upd live same by (cases "j = i") auto
  qed
  moreover have "\<forall>j \<in> live_orders Ls' Ms'. \<exists>m. slot (ON b' j) = Inr m"
    using ok live same by (auto simp: id_index_ok_def)
  ultimately show ?thesis by (simp add: id_index_ok_def)
qed

lemma price_index_keep:
  assumes "price_index_ok b Ls Ms" and "live_levels Ls' Ms' = live_levels Ls Ms"
    and "bk_price_index b' = bk_price_index b" and "\<And>l. lv_price (LV b' l) = lv_price (LV b l)"
  shows "price_index_ok b' Ls' Ms'"
  using assms by (simp add: price_index_ok_def)

lemma price_index_add:
  assumes "price_index_ok b Ls Ms" and "live_levels Ls' Ms' = insert new (live_levels Ls Ms)"
    and "new \<notin> live_levels Ls Ms"
    and "bk_price_index b' = (bk_price_index b)(priceToIndex price := Some new)"
    and "bk_price_index b (priceToIndex price) = None" and "price_in_window price"
    and "\<And>l. l \<in> live_levels Ls Ms \<Longrightarrow> lv_price (LV b' l) = lv_price (LV b l)" and "lv_price (LV b' new) = price"
  shows "price_index_ok b' Ls' Ms'"
proof -
  have "bk_price_index b' i = Some l \<longleftrightarrow> l \<in> live_levels Ls' Ms' \<and> priceToIndex (lv_price (LV b' l)) = i" for i l
  proof (cases "i = priceToIndex price")
    case True
    have "priceToIndex (lv_price (LV b l)) \<noteq> i" if "l \<in> live_levels Ls Ms"
    proof
      assume "priceToIndex (lv_price (LV b l)) = i"
      then have "bk_price_index b i = Some l" using assms(1) that by (simp add: price_index_ok_def)
      then show False using assms(5) True by simp
    qed
    then show ?thesis using True assms by auto
  next
    case False
    then show ?thesis using assms by (auto simp: price_index_ok_def)
  qed
  then show ?thesis using assms by (auto simp: price_index_ok_def)
qed

lemma price_index_remove:
  assumes ok: "price_index_ok b Ls Ms" and live: "live_levels Ls' Ms' = live_levels Ls Ms - {l}"
    and l: "l \<in> live_levels Ls Ms"
    and upd: "bk_price_index b' = (bk_price_index b)(priceToIndex (lv_price (LV b l)) := None)"
    and same: "\<And>m. lv_price (LV b' m) = lv_price (LV b m)"
  shows "price_index_ok b' Ls' Ms'"
proof -
  have ki: "bk_price_index b (priceToIndex (lv_price (LV b l))) = Some l"
    using ok l by (simp add: price_index_ok_def)
  have "bk_price_index b' i = Some m \<longleftrightarrow> m \<in> live_levels Ls' Ms' \<and> priceToIndex (lv_price (LV b' m)) = i" for i m
  proof (cases "i = priceToIndex (lv_price (LV b l))")
    case True
    have "priceToIndex (lv_price (LV b m)) \<noteq> i" if "m \<in> live_levels Ls' Ms'"
    proof
      assume "priceToIndex (lv_price (LV b m)) = i"
      then have "bk_price_index b i = Some m" using ok that live by (auto simp: price_index_ok_def)
      then show False using ki live that True by auto
    qed
    then show ?thesis using True upd same by auto
  next
    case False
    have "bk_price_index b i = Some m \<longleftrightarrow> m \<in> live_levels Ls Ms \<and> priceToIndex (lv_price (LV b m)) = i"
      using ok by (simp add: price_index_ok_def)
    then show ?thesis using False upd live same by auto
  qed
  moreover have "\<forall>m \<in> live_levels Ls' Ms'. price_in_window (lv_price (LV b' m))"
    using ok live same by (auto simp: price_index_ok_def)
  ultimately show ?thesis by (simp add: price_index_ok_def)
qed

text \<open>Within the window a price has at most one level, found through the price array.\<close>

lemma getOrdersAtPrice_Some:
  assumes "price_index_ok b Ls Ms" and "price_in_window price" and "getOrdersAtPrice b price = Some l"
  shows "l \<in> live_levels Ls Ms \<and> lv_price (LV b l) = price"
  using assms priceToIndex_inject by (auto simp: price_index_ok_def getOrdersAtPrice_def)

lemma getOrdersAtPrice_live:
  "price_index_ok b Ls Ms \<Longrightarrow> l \<in> live_levels Ls Ms \<Longrightarrow> getOrdersAtPrice b (lv_price (LV b l)) = Some l"
  by (simp add: price_index_ok_def getOrdersAtPrice_def)

section \<open>Insertion into a sorted view\<close>

lemma view_insert_existing:
  "(\<And>q vs. (q, vs) \<in> set xs \<Longrightarrow> better side q p) \<Longrightarrow>
   view_insert side p v (xs @ (p, vs) # ys) = xs @ (p, vs @ [v]) # ys"
proof (induction xs)
  case (Cons x xs)
  then have "better side (fst x) p" "fst x \<noteq> p" by (cases x, fastforce)+
  then show ?case using Cons by (cases x) (auto dest: better_asym)
qed simp

lemma view_insert_new:
  "(\<And>q vs. (q, vs) \<in> set xs \<Longrightarrow> better side q p) \<Longrightarrow> (\<And>q vs. (q, vs) \<in> set ys \<Longrightarrow> better side p q) \<Longrightarrow>
   view_insert side p v (xs @ ys) = xs @ (p, [v]) # ys"
proof (induction xs)
  case Nil
  then show ?case by (cases ys) fastforce+
next
  case (Cons x xs)
  then have "better side (fst x) p" "fst x \<noteq> p" by (cases x, fastforce)+
  then show ?case using Cons by (cases x) (auto dest: better_asym)
qed

end
