(* ===== verification/BookLevels.thy ===== *)
theory BookLevels
  imports BookRep
begin

text \<open>
  The list of price levels of one side: \<open>addOrdersAtPrice\<close> puts a new level at the place its price
  demands, promoting it to the head when it is the best, and \<open>removeOrdersAtPrice\<close> takes a level out. The loop
  that looks for the place always ends within the number of levels.
\<close>

section \<open>Links of a pool of levels\<close>

abbreviation nxL :: "OrdersAtPrice MemPool \<Rightarrow> field" where "nxL L \<equiv> \<lambda>l. lv_next (obj L l)"
abbreviation pvL :: "OrdersAtPrice MemPool \<Rightarrow> field" where "pvL L \<equiv> \<lambda>l. lv_prev (obj L l)"

text \<open>Only links of the blocks in \<open>S\<close> differ between the two pools.\<close>

definition relinked :: "nat set \<Rightarrow> OrdersAtPrice MemPool \<Rightarrow> OrdersAtPrice MemPool \<Rightarrow> bool" where
  "relinked S L L' \<longleftrightarrow> pool_size L' = pool_size L \<and> pool_inv L' = pool_inv L \<and> in_use L' = in_use L
     \<and> (\<forall>l. lv_side (obj L' l) = lv_side (obj L l) \<and> lv_price (obj L' l) = lv_price (obj L l)
           \<and> lv_first (obj L' l) = lv_first (obj L l))
     \<and> (\<forall>l. l \<notin> S \<longrightarrow> obj L' l = obj L l)"

lemma relinked_refl: "relinked S L L"
  by (simp add: relinked_def)

lemma relinked_mono: "relinked S L L' \<Longrightarrow> S \<subseteq> T \<Longrightarrow> relinked T L L'"
  by (auto simp: relinked_def)

lemma insert_level_before_ring:
  assumes r: "ring (nxL L) (pvL L) (t # qs)" and fresh: "new \<notin> set (t # qs)"
  shows "\<exists>L'. insert_level_before L new (Some t) = Inr L'
     \<and> ring (nxL L') (pvL L') (new # t # qs) \<and> relinked (set (new # t # qs)) L L'"
proof -
  obtain p where p: "lv_prev (obj L t) = Some p" "p = last (t # qs)"
    using ring_prev_hd[OF r] by simp
  have pin: "p \<in> set (t # qs)" using p(2) by (metis last_in_set list.distinct(1))
  have ne: "new \<noteq> t" "new \<noteq> p" using fresh pin by auto
  define L' where "L' = modify (modify (modify (modify L new (lv_prev_update (\<lambda>_. Some p)))
    new (lv_next_update (\<lambda>_. Some t))) p (lv_next_update (\<lambda>_. Some new))) t (lv_prev_update (\<lambda>_. Some new))"
  have run: "insert_level_before L new (Some t) = Inr L'"
    using p(1) ne by (simp add: insert_level_before_def L'_def Let_def)
  have nx: "nxL L' = (nxL L)(new := Some t, p := Some new)"
    using ne by (auto simp: L'_def fun_eq_iff)
  have pv: "pvL L' = (pvL L)(new := Some p, t := Some new)"
    using ne by (auto simp: L'_def fun_eq_iff)
  have "ring (nxL L') (pvL L') (new # t # qs)"
    using ring_insert[OF r fresh _ nx pv] p(1) by simp
  moreover have "relinked (set (new # t # qs)) L L'"
    using pin by (auto simp: relinked_def L'_def)
  ultimately show ?thesis using run by blast
qed

lemma insert_level_after_ring:
  assumes r: "ring (nxL L) (pvL L) (t # qs)" and fresh: "new \<notin> set (t # qs)" and p: "p = last (t # qs)"
  shows "\<exists>L'. insert_level_after L new (Some p) = Inr L'
     \<and> ring (nxL L') (pvL L') (new # t # qs) \<and> relinked (set (new # t # qs)) L L'"
proof -
  have pv_t: "lv_prev (obj L t) = Some p" using ring_prev_hd[OF r] p by simp
  have nx_p: "lv_next (obj L p) = Some t" using ring_next_last[OF r] p by simp
  have pin: "p \<in> set (t # qs)" using p by (metis last_in_set list.distinct(1))
  have ne: "new \<noteq> t" "new \<noteq> p" using fresh pin by auto
  define L' where "L' = modify (modify (modify (modify L new (lv_prev_update (\<lambda>_. Some p)))
    t (lv_prev_update (\<lambda>_. Some new))) new (lv_next_update (\<lambda>_. Some t))) p (lv_next_update (\<lambda>_. Some new))"
  have run: "insert_level_after L new (Some p) = Inr L'"
    using nx_p ne by (auto simp: insert_level_after_def L'_def Let_def)
  have nx: "nxL L' = (nxL L)(new := Some t, p := Some new)"
    using ne by (auto simp: L'_def fun_eq_iff)
  have pv: "pvL L' = (pvL L)(new := Some p, t := Some new)"
    using ne by (auto simp: L'_def fun_eq_iff)
  have "ring (nxL L') (pvL L') (new # t # qs)"
    using ring_insert[OF r fresh _ nx pv] pv_t by simp
  moreover have "relinked (set (new # t # qs)) L L'"
    using pin by (auto simp: relinked_def L'_def)
  ultimately show ?thesis using run by blast
qed

section \<open>The search for the insertion point\<close>

lemma insertion_walk_stop [simp]: "insertion_walk fuel L n best target False = Inr (target, False)"
  by (simp add: insertion_walk.simps)

lemma insertion_walk_spec:
  assumes "links (nxL L) pv (D @ C @ [h])" and "h \<notin> set (D @ C)"
    and "\<And>d. d \<in> set D \<Longrightarrow> add_after n (obj L d)" and "\<And>c. c \<in> set C \<Longrightarrow> \<not> add_after n (obj L c)"
    and "length D < fuel"
  shows "insertion_walk fuel L n (Some h) (Some (hd (D @ C @ [h]))) True
           = Inr (if C = [] then (Some h, True) else (Some (hd C), False))"
  using assms
proof (induction D arbitrary: fuel)
  case Nil
  then show ?case
    by (cases C; cases fuel) (auto simp: insertion_walk.simps[of _ _ _ _ _ True])
next
  case (Cons d D)
  then obtain fuel' where fuel: "fuel = Suc fuel'" by (cases fuel) auto
  obtain y ys where y: "D @ C @ [h] = y # ys" by (cases "D @ C @ [h]") auto
  with Cons.prems(1) have next_d: "lv_next (obj L d) = Some (hd (D @ C @ [h]))" and "links (nxL L) pv (D @ C @ [h])"
    by auto
  then have "insertion_walk fuel' L n (Some h) (Some (hd (D @ C @ [h]))) True
      = Inr (if C = [] then (Some h, True) else (Some (hd C), False))"
    using Cons.prems fuel by (intro Cons.IH) auto
  moreover have "add_after n (obj L d)" "d \<noteq> h" using Cons.prems by auto
  ultimately show ?case using next_d fuel by (simp add: insertion_walk.simps[of "Suc fuel'"])
qed

lemma add_after_better:
  "lv_side n = side \<Longrightarrow> side = BUY \<or> side = SELL \<Longrightarrow> add_after n t \<longleftrightarrow> better side (lv_price t) (lv_price n)"
  by (auto simp: add_after_def better_def)

text \<open>A strictly sorted list of levels splits at the price of the new one.\<close>

lemma level_split:
  assumes "sorted_wrt (better side) (map f ls)" and "\<And>l. l \<in> set ls \<Longrightarrow> f l \<noteq> p"
  shows "\<exists>A C. ls = A @ C \<and> (\<forall>a \<in> set A. better side (f a) p) \<and> (\<forall>c \<in> set C. better side p (f c))"
  using assms
proof (induction ls)
  case (Cons x ls)
  show ?case
  proof (cases "better side (f x) p")
    case True
    obtain A C where "ls = A @ C" "\<forall>a \<in> set A. better side (f a) p" "\<forall>c \<in> set C. better side p (f c)"
      using Cons by auto
    with True show ?thesis by (intro exI[of _ "x # A"] exI[of _ C]) simp
  next
    case False
    then have px: "better side p (f x)" using better_total Cons.prems(2) by (metis list.set_intros(1))
    then have "\<forall>c \<in> set (x # ls). better side p (f c)"
      using Cons.prems(1) by (auto intro: better_trans)
    then show ?thesis by (intro exI[of _ "[]"] exI[of _ "x # ls"]) simp
  qed
qed simp

section \<open>addOrdersAtPrice\<close>

text \<open>The frame of the operation: all but the level links, one head and one entry of the price array.\<close>

definition level_added :: "('k, 'e) book \<Rightarrow> ('k, 'e) book \<Rightarrow> nat \<Rightarrow> nat set \<Rightarrow> bool" where
  "level_added b b' new S \<longleftrightarrow> bk_orders b' = bk_orders b \<and> bk_index b' = bk_index b
     \<and> bk_price_index b' = (bk_price_index b)(priceToIndex (lv_price (LV b new)) := Some new)
     \<and> (\<forall>s. (s = BUY) \<noteq> (lv_side (LV b new) = BUY) \<longrightarrow> best_of s b' = best_of s b)
     \<and> relinked S (bk_levels b) (bk_levels b')"

lemma best_of_set_best [simp]:
  "best_of s (set_best side p b) = (if (s = BUY) = (side = BUY) then p else best_of s b)"
  by (auto simp: best_of_def set_best_def)

lemma best_of_updates [simp]:
  "best_of s (b\<lparr> bk_levels := L \<rparr>) = best_of s b" "best_of s (b\<lparr> bk_orders := R \<rparr>) = best_of s b"
  "best_of s (b\<lparr> bk_index := I \<rparr>) = best_of s b" "best_of s (b\<lparr> bk_price_index := J \<rparr>) = best_of s b"
  "best_of s (set_price_index b price p) = best_of s b"
  by (simp_all add: best_of_def set_price_index_def)

lemma set_best_frame [simp]:
  "bk_levels (set_best side p b) = bk_levels b" "bk_orders (set_best side p b) = bk_orders b"
  "bk_index (set_best side p b) = bk_index b" "bk_price_index (set_best side p b) = bk_price_index b"
  by (simp_all add: set_best_def)

lemma set_price_index_frame [simp]:
  "bk_levels (set_price_index b price p) = bk_levels b" "bk_orders (set_price_index b price p) = bk_orders b"
  "bk_index (set_price_index b price p) = bk_index b"
  "bk_price_index (set_price_index b price p) = (bk_price_index b)(priceToIndex price := p)"
  by (simp_all add: set_price_index_def)

lemma getOrdersAtPrice_set_best [simp]: "getOrdersAtPrice (set_best side p b) q = getOrdersAtPrice b q"
  by (simp add: getOrdersAtPrice_def)

lemma addOrdersAtPrice_empty:
  assumes "best_of (lv_side (LV b new)) b = None"
  shows "\<exists>b'. addOrdersAtPrice b new = Inr b' \<and> best_of (lv_side (LV b new)) b' = Some new
     \<and> ring (lnx b') (lpv b') [new] \<and> level_added b b' new {new}"
  using assms
  by (auto simp: addOrdersAtPrice_def Let_def level_added_def relinked_def lnx_def lpv_def)

lemma addOrdersAtPrice_front:
  assumes side: "side = BUY \<or> side = SELL" and new_side: "lv_side (LV b new) = side"
    and head: "best_of side b = Some t" and r: "ring (lnx b) (lpv b) (t # qs)" and fresh: "new \<notin> set (t # qs)"
    and better_t: "better side (lv_price (LV b new)) (lv_price (LV b t))"
  shows "\<exists>b'. addOrdersAtPrice b new = Inr b' \<and> best_of side b' = Some new
     \<and> ring (lnx b') (lpv b') (new # t # qs) \<and> level_added b b' new (set (new # t # qs))"
proof -
  let ?L = "bk_levels b"
  have r': "ring (nxL ?L) (pvL ?L) (t # qs)" using r by (simp add: lnx_def lpv_def)
  obtain L1 where L1: "insert_level_before ?L new (Some t) = Inr L1"
      "ring (nxL L1) (pvL L1) (new # t # qs)" "relinked (set (new # t # qs)) ?L L1"
    using insert_level_before_ring[OF r' fresh] by blast
  have not_after: "\<not> add_after (LV b new) (LV b t)"
    using add_after_better[OF new_side side] better_asym[OF better_t] by simp
  have price_t: "lv_price (obj L1 t) = lv_price (LV b t)" using L1(3) by (simp add: relinked_def)
  have nx_t: "lv_next (obj L1 t) \<noteq> Some t"
    using ring_next_self[OF L1(2), of t] by auto
  define L2 where "L2 = modify L1 t (\<lambda>v. v\<lparr> lv_next := (if lv_next v = Some t then Some new else lv_next v) \<rparr>)"
  have "obj L2 l = obj L1 l" for l using nx_t by (simp add: L2_def)
  then have L2: "ring (nxL L2) (pvL L2) (new # t # qs)" "relinked (set (new # t # qs)) ?L L2"
    using L1(2,3) by (simp_all add: relinked_def L2_def)
  have "addOrdersAtPrice b new
      = Inr (set_best side (Some new) ((set_price_index b (lv_price (LV b new)) (Some new))\<lparr> bk_levels := L2 \<rparr>))"
    using head new_side not_after L1(1) price_t better_t side
    by (auto simp: addOrdersAtPrice_def Let_def L2_def better_def)
  then show ?thesis
    using L2 new_side by (auto simp: level_added_def lnx_def lpv_def)
qed

lemma addOrdersAtPrice_inner:
  assumes side: "side = BUY \<or> side = SELL" and new_side: "lv_side (LV b new) = side"
    and head: "best_of side b = Some h" and r: "ring (lnx b) (lpv b) (h # D @ C)"
    and fresh: "new \<notin> set (h # D @ C)"
    and worse: "\<And>a. a \<in> set (h # D) \<Longrightarrow> better side (lv_price (LV b a)) (lv_price (LV b new))"
    and rest: "\<And>c. c \<in> set C \<Longrightarrow> better side (lv_price (LV b new)) (lv_price (LV b c))"
    and fuel: "length D < pool_size (bk_levels b)"
  shows "\<exists>b'. addOrdersAtPrice b new = Inr b' \<and> best_of side b' = Some h
     \<and> ring (lnx b') (lpv b') (h # D @ new # C) \<and> level_added b b' new (set (h # D @ new # C))"
proof -
  let ?L = "bk_levels b" and ?n = "LV b new"
  let ?b1 = "set_price_index b (lv_price ?n) (Some new)"
  have r': "ring (nxL ?L) (pvL ?L) (h # D @ C)" using r by (simp add: lnx_def lpv_def)
  have aa: "add_after ?n (LV b a)" if "a \<in> set (h # D)" for a
    using add_after_better[OF new_side side] worse[OF that] by simp
  have nb: "\<not> add_after ?n (LV b c)" if "c \<in> set C" for c
    using add_after_better[OF new_side side] better_asym[OF rest[OF that]] by simp
  have links: "links (nxL ?L) (pvL ?L) (h # D @ C @ [h])" using r' by (simp add: ring_def)
  obtain y ys where y: "D @ C @ [h] = y # ys" by (cases "D @ C @ [h]") auto
  have next_h: "lv_next (LV b h) = Some (hd (D @ C @ [h]))"
    and links': "links (nxL ?L) (pvL ?L) (D @ C @ [h])" using links y by auto
  have h_notin: "h \<notin> set (D @ C)" using ring_distinct[OF r'] by simp
  have walk: "insertion_walk (pool_size ?L) ?L ?n (Some h) (Some (hd (D @ C @ [h])))
       (add_after ?n (LV b (hd (D @ C @ [h])))) = Inr (if C = [] then (Some h, True) else (Some (hd C), False))"
  proof (cases "add_after ?n (LV b (hd (D @ C @ [h])))")
    case True
    then show ?thesis
      using insertion_walk_spec[OF links' h_notin, of ?n "pool_size ?L"] aa nb fuel by simp
  next
    case False
    then have "D = []" "C \<noteq> []" using aa by (cases D; cases C; auto)+
    then show ?thesis using False by simp
  qed
  show ?thesis
  proof (cases C)
    case Nil
    have last: "lv_prev (LV b h) = Some (last (h # D))" using ring_prev_hd[OF r'] Nil by simp
    obtain L1 where L1: "insert_level_after ?L new (Some (last (h # D))) = Inr L1"
        "ring (nxL L1) (pvL L1) (new # h # D)" "relinked (set (new # h # D)) ?L L1"
      using insert_level_after_ring[of ?L h D new "last (h # D)"] r' fresh Nil by auto
    have "addOrdersAtPrice b new = Inr (?b1\<lparr> bk_levels := L1 \<rparr>)"
      using head new_side aa[of h] next_h walk L1(1) last Nil
      by (auto simp: addOrdersAtPrice_def Let_def)
    moreover have "ring (nxL L1) (pvL L1) (h # D @ [new])"
      using ring_rotate[of _ _ "[new]" "h # D"] L1(2) by simp
    ultimately show ?thesis
      using L1(3) new_side head Nil
      by (auto simp: level_added_def lnx_def lpv_def insert_commute)
  next
    case (Cons c C')
    have rc: "ring (nxL ?L) (pvL ?L) (c # C' @ h # D)"
      using ring_rotate[of _ _ "h # D" C] r' Cons by simp
    obtain L1 where L1: "insert_level_before ?L new (Some c) = Inr L1"
        "ring (nxL L1) (pvL L1) (new # c # C' @ h # D)" "relinked (set (new # c # C' @ h # D)) ?L L1"
      using insert_level_before_ring[OF rc, of new] fresh Cons by auto
    have "lv_price (obj L1 h) = lv_price (LV b h)" using L1(3) by (simp add: relinked_def)
    moreover have "\<not> ((side = BUY \<and> lv_price ?n > lv_price (LV b h)) \<or> (side = SELL \<and> lv_price ?n < lv_price (LV b h)))"
      using worse[of h] by (auto simp: better_def split: if_splits)
    ultimately have "addOrdersAtPrice b new = Inr (?b1\<lparr> bk_levels := L1 \<rparr>)"
      using head new_side aa[of h] next_h walk L1(1) Cons
      by (auto simp: addOrdersAtPrice_def Let_def)
    moreover have "ring (nxL L1) (pvL L1) (h # D @ new # c # C')"
      using ring_rotate[of _ _ "new # c # C'" "h # D"] L1(2) by simp
    ultimately show ?thesis
      using L1(3) new_side head Cons
      by (auto simp: level_added_def lnx_def lpv_def elim!: relinked_mono)
  qed
qed

section \<open>removeOrdersAtPrice\<close>

definition level_removed :: "('k, 'e) book \<Rightarrow> ('k, 'e) book \<Rightarrow> Side \<Rightarrow> Price \<Rightarrow> nat \<Rightarrow> nat set \<Rightarrow> bool" where
  "level_removed b b' side price l S \<longleftrightarrow> bk_orders b' = bk_orders b \<and> bk_index b' = bk_index b
     \<and> bk_price_index b' = (bk_price_index b)(priceToIndex price := None)
     \<and> (\<forall>s. (s = BUY) \<noteq> (side = BUY) \<longrightarrow> best_of s b' = best_of s b)
     \<and> pool_inv (bk_levels b') \<and> in_use (bk_levels b') = in_use (bk_levels b) - {l}
     \<and> pool_size (bk_levels b') = pool_size (bk_levels b)
     \<and> (\<forall>m. lv_side (LV b' m) = lv_side (LV b m) \<and> lv_price (LV b' m) = lv_price (LV b m)
           \<and> lv_first (LV b' m) = lv_first (LV b m))
     \<and> (\<forall>m. m \<notin> S \<longrightarrow> LV b' m = LV b m)"

lemma removeOrdersAtPrice_sole:
  assumes "getOrdersAtPrice b price = Some l" and "ring (lnx b) (lpv b) [l]"
    and "pool_inv (bk_levels b)" and "l \<in> in_use (bk_levels b)"
  shows "\<exists>b'. removeOrdersAtPrice b side price = Inr b' \<and> best_of side b' = None
     \<and> level_removed b b' side price l {l}"
proof -
  obtain L' where L': "deallocate (bk_levels b) l = Inr L'" "pool_inv L'"
      "pool_size L' = pool_size (bk_levels b)" "in_use L' = in_use (bk_levels b) - {l}"
      "\<forall>m. obj L' m = obj (bk_levels b) m"
    using mp.dealloc_ok[OF assms(3,4)] by blast
  then show ?thesis
    using assms(1,2)
    by (auto simp: removeOrdersAtPrice_def Let_def level_removed_def lnx_def)
qed

text \<open>The three assignments that unlink a level, on the pool of levels alone.\<close>

lemma unlink_level:
  assumes r: "ring (nxL L) (pvL L) (l # t # qs)" and p: "p = last (t # qs)"
  defines "L3 \<equiv> modify (modify (modify L p (lv_next_update (\<lambda>_. Some t))) t (lv_prev_update (\<lambda>_. Some p)))
                  l (\<lambda>v. v\<lparr> lv_prev := None, lv_next := None \<rparr>)"
  shows "ring (nxL L3) (pvL L3) (t # qs)" and "relinked (set (l # t # qs)) L L3"
proof -
  have pv: "pvL L l = Some p" using ring_prev_hd[OF r] p by simp
  have pin: "p \<in> set (t # qs)" using p by (metis last_in_set list.distinct(1))
  have d: "l \<notin> set (t # qs)" using ring_distinct[OF r] by simp
  have "ring ((nxL L)(p := Some t)) ((pvL L)(t := Some p)) (t # qs)"
    using ring_remove[OF r pv refl refl] .
  then show "ring (nxL L3) (pvL L3) (t # qs)"
    by (rule ring_cong) (use d pin in \<open>auto simp: L3_def\<close>)
  show "relinked (set (l # t # qs)) L L3"
    using pin by (auto simp: relinked_def L3_def)
qed

lemma removeOrdersAtPrice_multi:
  assumes r: "ring (lnx b) (lpv b) (A @ l # C)" and others: "A @ C \<noteq> []"
    and head: "best_of side b = Some (hd (A @ [l]))" and at: "getOrdersAtPrice b price = Some l"
    and pool: "pool_inv (bk_levels b)" "l \<in> in_use (bk_levels b)"
  shows "\<exists>b'. removeOrdersAtPrice b side price = Inr b' \<and> best_of side b' = Some (hd (A @ C))
     \<and> ring (lnx b') (lpv b') (A @ C) \<and> level_removed b b' side price l (set (A @ l # C))"
proof -
  let ?L = "bk_levels b"
  obtain t qs where tq: "C @ A = t # qs" using others by (cases "C @ A") auto
  have rl: "ring (nxL ?L) (pvL ?L) (l # t # qs)"
    using ring_rotate[of _ _ A "l # C"] r tq by (simp add: lnx_def lpv_def)
  define p where "p = last (t # qs)"
  have pv_l: "lv_prev (LV b l) = Some p" using ring_prev_hd[OF rl] by (simp add: p_def)
  have nx_l: "lv_next (LV b l) = Some t" using ring_next_hd[OF rl] by simp
  have pin: "p \<in> set (t # qs)" by (metis last_in_set list.distinct(1) p_def)
  have d: "l \<notin> set (t # qs)" using ring_distinct[OF rl] by simp
  then have ne: "p \<noteq> l" "t \<noteq> l" using pin by auto
  define L3 where "L3 = modify (modify (modify ?L p (lv_next_update (\<lambda>_. Some t))) t (lv_prev_update (\<lambda>_. Some p)))
                  l (\<lambda>v. v\<lparr> lv_prev := None, lv_next := None \<rparr>)"
  have L3: "ring (nxL L3) (pvL L3) (t # qs)" "relinked (set (l # t # qs)) ?L L3"
    using unlink_level[OF rl p_def] by (simp_all add: L3_def)
  have "pool_inv L3" "l \<in> in_use L3" using L3(2) pool by (auto simp: relinked_def)
  then obtain L4 where L4: "deallocate L3 l = Inr L4" "pool_inv L4" "pool_size L4 = pool_size L3"
      "in_use L4 = in_use L3 - {l}" "\<forall>m. obj L4 m = obj L3 m"
    using mp.dealloc_ok by blast
  define b1 where "b1 = (if Some l = best_of side b then set_best side (Some t) b else b)"
  have run: "removeOrdersAtPrice b side price = Inr ((set_price_index (b1\<lparr> bk_levels := L3 \<rparr>) price None)\<lparr> bk_levels := L4 \<rparr>)"
    using at pv_l nx_l ne L4(1) by (auto simp: removeOrdersAtPrice_def Let_def b1_def L3_def)
  have hd': "best_of side b1 = Some (hd (A @ C))"
  proof (cases A)
    case Nil
    then show ?thesis using head tq by (simp add: b1_def)
  next
    case (Cons a A')
    then have "a \<noteq> l" using ring_distinct[OF r] by auto
    then show ?thesis using head Cons by (simp add: b1_def)
  qed
  have "ring (nxL L4) (pvL L4) (C @ A)" using L3(1) L4(5) tq by simp
  then have "ring (nxL L4) (pvL L4) (A @ C)" by (rule ring_rotate)
  moreover have "set (A @ l # C) = set (l # t # qs)" using tq by (metis Un_commute list.simps(15) set_append Un_insert_right)
  ultimately show ?thesis
    using run hd' L3(2) L4 pool
    by (auto simp: level_removed_def lnx_def lpv_def relinked_def b1_def)
qed

end
