(* ===== verification/BookOps.thy ===== *)
theory BookOps
  imports BookLevels
begin

text \<open>
  Refinement of the book operations on orders. Both books rest an order by \<open>order_pool_.allocate\<close>
  followed by \<open>addOrder\<close> (\<open>place_order\<close> below); on the abstract value this appends to the queue of the order's
  price. \<open>removeOrder\<close> deletes an order, and with it its level when it was the last one. Changing a
  quantity in place changes nothing else. All three keep the representation, and none of them can stop
  the process or dereference a null pointer.

  The id array is abstract: the locale \<open>keyed_orders\<close> has the function \<open>slot\<close> from an order to its
  place in the array, with the law that neither links nor quantity matter for it. It is interpreted for
  the exchange's and for the client's orders in their theories.
\<close>

section \<open>Links of a pool of orders\<close>

abbreviation nxO :: "'e order_node_scheme MemPool \<Rightarrow> field" where "nxO R \<equiv> \<lambda>i. on_next (obj R i)"
abbreviation pvO :: "'e order_node_scheme MemPool \<Rightarrow> field" where "pvO R \<equiv> \<lambda>i. on_prev (obj R i)"

definition orders_relinked :: "nat set \<Rightarrow> 'e order_node_scheme MemPool \<Rightarrow> 'e order_node_scheme MemPool \<Rightarrow> bool" where
  "orders_relinked S R R' \<longleftrightarrow> pool_size R' = pool_size R \<and> pool_inv R' = pool_inv R \<and> in_use R' = in_use R
     \<and> (\<forall>i. unlinked (obj R' i) = unlinked (obj R i)) \<and> (\<forall>i. i \<notin> S \<longrightarrow> obj R' i = obj R i)"

lemma unlinked_eqD:
  assumes "unlinked m = unlinked n"
  shows "on_side m = on_side n" "on_price m = on_price n" "on_qty m = on_qty n" "on_priority m = on_priority n"
  using assms by (metis unlinked_frame(1), metis unlinked_frame(2), metis unlinked_frame(3), metis unlinked_frame(4))

text \<open>The four assignments that append the block \<open>i\<close> at the tail of a queue.\<close>

lemma append_order_links:
  assumes r: "ring (nxO R) (pvO R) (f # fs)" and fresh: "i \<notin> set (f # fs)" and p: "p = last (f # fs)"
  defines "R4 \<equiv> modify (modify (modify (modify R p (on_next_update (\<lambda>_. Some i)))
     i (on_prev_update (\<lambda>_. Some p))) i (on_next_update (\<lambda>_. Some f))) f (on_prev_update (\<lambda>_. Some i))"
  shows "ring (nxO R4) (pvO R4) (f # fs @ [i])" and "orders_relinked (set (i # f # fs)) R R4"
proof -
  have pv_f: "pvO R f = Some p" using ring_prev_hd[OF r] p by simp
  have pin: "p \<in> set (f # fs)" using p by (metis last_in_set list.distinct(1))
  have ne: "i \<noteq> f" "i \<noteq> p" using fresh pin by auto
  have nx: "nxO R4 = (nxO R)(i := Some f, p := Some i)" using ne by (auto simp: R4_def fun_eq_iff)
  have pv: "pvO R4 = (pvO R)(i := Some p, f := Some i)" using ne by (auto simp: R4_def fun_eq_iff)
  have "ring (nxO R4) (pvO R4) (i # f # fs)" using ring_insert[OF r fresh pv_f nx pv] .
  then show "ring (nxO R4) (pvO R4) (f # fs @ [i])" using ring_rotate[of _ _ "[i]" "f # fs"] by simp
  show "orders_relinked (set (i # f # fs)) R R4"
    using pin by (auto simp: orders_relinked_def R4_def)
qed

text \<open>The assignments that take the block \<open>i\<close> out of its queue.\<close>

lemma unlink_order:
  assumes r: "ring (nxO R) (pvO R) (i # t # qs)" and p: "p = last (t # qs)"
  defines "R3 \<equiv> modify (modify (modify R p (on_next_update (\<lambda>_. Some t))) t (on_prev_update (\<lambda>_. Some p)))
                  i (\<lambda>v. v\<lparr> on_prev := None, on_next := None \<rparr>)"
  shows "ring (nxO R3) (pvO R3) (t # qs)" and "orders_relinked (set (i # t # qs)) R R3"
proof -
  have pv: "pvO R i = Some p" using ring_prev_hd[OF r] p by simp
  have pin: "p \<in> set (t # qs)" using p by (metis last_in_set list.distinct(1))
  have d: "i \<notin> set (t # qs)" using ring_distinct[OF r] by simp
  have "ring ((nxO R)(p := Some t)) ((pvO R)(t := Some p)) (t # qs)"
    using ring_remove[OF r pv refl refl] .
  then show "ring (nxO R3) (pvO R3) (t # qs)"
    by (rule ring_cong) (use d pin in \<open>auto simp: R3_def\<close>)
  show "orders_relinked (set (i # t # qs)) R R3"
    using pin by (auto simp: orders_relinked_def R3_def unlinked_def)
qed

section \<open>Putting a new level in its place\<close>

lemma distinct_blocks_le:
  assumes "distinct xs" and "set xs \<subseteq> in_use p"
  shows "length xs \<le> pool_size p"
proof -
  have "in_use p \<subseteq> {..<pool_size p}" by (auto simp: in_use_def)
  then have "set xs \<subseteq> {..<pool_size p}" using assms(2) by blast
  then have "card (set xs) \<le> pool_size p" using card_mono[of "{..<pool_size p}"] by fastforce
  then show ?thesis using assms(1) by (simp add: distinct_card)
qed

text \<open>The three cases of \<open>addOrdersAtPrice\<close> as one: the first level of the side, a new best, an inner one.\<close>

lemma addOrdersAtPrice_ok:
  assumes side: "side = BUY \<or> side = SELL" and new_side: "lv_side (LV b new) = side"
    and head: "best_of side b = (if A @ C = [] then None else Some (hd (A @ C)))"
    and r: "A @ C \<noteq> [] \<Longrightarrow> ring (lnx b) (lpv b) (A @ C)" and fresh: "new \<notin> set (A @ C)"
    and worse: "\<And>a. a \<in> set A \<Longrightarrow> better side (lv_price (LV b a)) (lv_price (LV b new))"
    and rest: "\<And>c. c \<in> set C \<Longrightarrow> better side (lv_price (LV b new)) (lv_price (LV b c))"
    and used: "set (A @ C) \<subseteq> in_use (bk_levels b)"
  shows "\<exists>b'. addOrdersAtPrice b new = Inr b' \<and> best_of side b' = Some (hd (A @ [new]))
     \<and> ring (lnx b') (lpv b') (A @ new # C) \<and> level_added b b' new (set (A @ new # C))"
proof (cases A)
  case Nil
  show ?thesis
  proof (cases C)
    case Nil
    then show ?thesis using \<open>A = []\<close> addOrdersAtPrice_empty[of b new] head new_side by simp
  next
    case (Cons t qs)
    then show ?thesis
      using \<open>A = []\<close> addOrdersAtPrice_front[OF side new_side, of t qs] head r fresh rest by simp
  qed
next
  case (Cons h D)
  have "distinct (A @ C)" using r Cons ring_distinct by blast
  then have "length (A @ C) \<le> pool_size (bk_levels b)" using used by (rule distinct_blocks_le)
  then have "length D < pool_size (bk_levels b)" using Cons by simp
  then show ?thesis
    using Cons addOrdersAtPrice_inner[OF side new_side, of h D C] head r fresh worse rest by simp
qed

section \<open>Placing an order\<close>

text \<open>\<open>order_pool_.allocate(...)\<close> followed by \<open>addOrder\<close>, as both books do.\<close>

definition place_order ::
  "('e order_node_scheme \<Rightarrow> 'k result) \<Rightarrow> ('k, 'e) book \<Rightarrow> 'e order_node_scheme \<Rightarrow> ('k, 'e) book result" where
  "place_order slot b node =
     bindR (allocate (bk_orders b) node) (\<lambda>(i, R). addOrder slot (b\<lparr> bk_orders := R \<rparr>) i)"

text \<open>
  What opening a level leaves as it was, for the new level \<open>new\<close> with the sole order \<open>i\<close>.
\<close>

definition level_opened :: "('k, 'e) book \<Rightarrow> ('k, 'e) book \<Rightarrow> 'e order_node_scheme MemPool \<Rightarrow> nat \<Rightarrow> 'k \<Rightarrow>
    'e order_node_scheme \<Rightarrow> nat \<Rightarrow> nat set \<Rightarrow> bool" where
  "level_opened b b' R i k node new S \<longleftrightarrow>
     bk_orders b' = modify R i (\<lambda>v. v\<lparr> on_next := Some i, on_prev := Some i \<rparr>)
     \<and> bk_index b' = (bk_index b)(k := Some i)
     \<and> bk_price_index b' = (bk_price_index b)(priceToIndex (on_price node) := Some new)
     \<and> (\<forall>s. (s = BUY) \<noteq> (on_side node = BUY) \<longrightarrow> best_of s b' = best_of s b)
     \<and> pool_inv (bk_levels b') \<and> in_use (bk_levels b') = insert new (in_use (bk_levels b))
     \<and> pool_size (bk_levels b') = pool_size (bk_levels b)
     \<and> (\<forall>l. l \<noteq> new \<longrightarrow> lv_side (LV b' l) = lv_side (LV b l) \<and> lv_price (LV b' l) = lv_price (LV b l)
           \<and> lv_first (LV b' l) = lv_first (LV b l))
     \<and> (\<forall>l. l \<notin> S \<longrightarrow> LV b' l = LV b l)
     \<and> lv_side (LV b' new) = on_side node \<and> lv_price (LV b' new) = on_price node \<and> lv_first (LV b' new) = Some i"

locale keyed_orders =
  fixes slot :: "'e order_node_scheme \<Rightarrow> 'k result"
  assumes slot_unlinked: "slot (unlinked n) = slot n"
    and slot_qty: "slot (n\<lparr> on_qty := q \<rparr>) = slot n"
begin

lemma slot_cong: "unlinked m = unlinked n \<Longrightarrow> slot m = slot n"
  by (metis slot_unlinked)

text \<open>
  A change of one queue: the orders outside of it, the links of the levels and the heads stay, and then
  both sides keep their shape. Shared by the insertion into and the removal from a queue.
\<close>

lemma queue_changed:
  assumes rep: "half_rep slot b side (Xs @ (l, os) # Ys) Ms"
    and heads: "\<And>s. best_of s b' = best_of s b"
    and links: "\<And>m. lv_side (LV b' m) = lv_side (LV b m) \<and> lv_price (LV b' m) = lv_price (LV b m)
        \<and> lv_prev (LV b' m) = lv_prev (LV b m) \<and> lv_next (LV b' m) = lv_next (LV b m)"
    and others: "\<And>m. m \<noteq> l \<Longrightarrow> LV b' m = LV b m" "\<And>j. j \<notin> set os \<union> set os' \<Longrightarrow> ON b' j = ON b j"
    and fresh: "set os' \<inter> set (order_blocks (Xs @ Ys) @ order_blocks Ms) = {}"
    and new: "level_ok b' side (l, os')"
  shows "side_ok b' side (Xs @ (l, os') # Ys)" and "side_ok b' (opp side) Ms"
proof -
  note rep' = rep[unfolded half_rep_def]
  have disj: "set os \<inter> set (order_blocks (Xs @ Ys) @ order_blocks Ms) = {}" "l \<notin> set (level_blocks (Xs @ Ys))"
      "l \<notin> set (level_blocks Ms)" using rep' by (auto simp: shapes_disjoint_def)
  have keep: "ON b' j = ON b j" if "j \<in> set (order_blocks (Xs @ Ys) @ order_blocks Ms)" for j
    by (rule others(2)) (use disj(1) fresh that in blast)
  have "level_ok b' side x" if x: "x \<in> set (Xs @ (l, os') # Ys)" for x
  proof (cases "x = (l, os')")
    case False
    obtain m ms where m: "x = (m, ms)" by (cases x)
    with x False have in': "(m, ms) \<in> set (Xs @ Ys)" by auto
    then have "m \<noteq> l" using disj(2) level_blocksI[OF in'] by auto
    moreover have "ON b' j = ON b j" if "j \<in> set ms" for j
      by (rule keep) (use order_blocksI[OF in' that] in auto)
    ultimately show ?thesis
      using in' rep' others(1) unfolding m
      by (intro level_ok_cong[of b side m ms b']) (auto simp: side_ok_def)
  qed (use new in simp)
  moreover have "levels_linked b' side (Xs @ (l, os') # Ys)"
    using rep' links heads by (simp add: side_ok_def levels_linked_def lnx_def lpv_def)
  moreover have "sorted_wrt (better side) (map (\<lambda>l. lv_price (LV b' l)) (level_blocks (Xs @ (l, os') # Ys)))"
    using rep' links by (simp add: side_ok_def)
  ultimately show "side_ok b' side (Xs @ (l, os') # Ys)" by (simp add: side_ok_def)
  show "side_ok b' (opp side) Ms"
  proof (rule side_ok_cong)
    show "side_ok b (opp side) Ms" using rep' by simp
    show "LV b' m = LV b m" if "m \<in> set (level_blocks Ms)" for m
      using others(1) disj(3) that by metis
  qed (use heads keep in simp_all)
qed

text \<open>Appending to the queue of a level that exists.\<close>

lemma addOrder_existing:
  assumes rep: "half_rep slot b side (Xs @ (l, os) # Ys) Ms"
    and R: "pool_inv R" "in_use R = insert i (in_use (bk_orders b))" "i \<notin> in_use (bk_orders b)"
      "\<forall>j. j \<noteq> i \<longrightarrow> obj R j = ON b j" "obj R i = node"
    and node: "on_side node = side" "on_price node = lv_price (LV b l)" "slot node = Inr k" "bk_index b k = None"
  shows "\<exists>b'. addOrder slot (b\<lparr> bk_orders := R \<rparr>) i = Inr b'
     \<and> half_rep slot b' side (Xs @ (l, os @ [i]) # Ys) Ms
     \<and> (\<forall>j. j \<noteq> i \<longrightarrow> unlinked (ON b' j) = unlinked (ON b j)) \<and> unlinked (ON b' i) = unlinked node
     \<and> bk_levels b' = bk_levels b \<and> pool_size (bk_orders b') = pool_size R"
proof -
  let ?Ls = "Xs @ (l, os) # Ys" and ?Ls' = "Xs @ (l, os @ [i]) # Ys"
  note rep' = rep[unfolded half_rep_def]
  have lvl: "level_ok b side (l, os)" using rep' by (simp add: side_ok_def)
  have "os \<noteq> []" using lvl by (simp add: level_ok_def ring_def)
  then obtain f fs where os: "os = f # fs" by (cases os) auto
  have live: "i \<notin> live_orders ?Ls Ms" using R(3) rep' by (simp add: pools_ok_def)
  then have fresh: "i \<notin> set os" "i \<notin> set (order_blocks Xs)" "i \<notin> set (order_blocks Ys)" "i \<notin> set (order_blocks Ms)"
    by (simp_all add: live_orders_def)
  have disj: "distinct (order_blocks ?Ls @ order_blocks Ms)" using rep' by (simp add: shapes_disjoint_def)
  have r: "ring (nxO R) (pvO R) (f # fs)"
  proof (rule ring_cong)
    show "ring (onx b) (opv b) (f # fs)" using lvl os by (simp add: level_ok_def)
  qed (use R(4) fresh os in \<open>auto simp: onx_def opv_def\<close>)
  define p where "p = last (f # fs)"
  define R4 where "R4 = modify (modify (modify (modify R p (on_next_update (\<lambda>_. Some i)))
     i (on_prev_update (\<lambda>_. Some p))) i (on_next_update (\<lambda>_. Some f))) f (on_prev_update (\<lambda>_. Some i))"
  have R4: "ring (nxO R4) (pvO R4) (f # fs @ [i])" "orders_relinked (set (i # f # fs)) R R4"
    using append_order_links[OF r _ p_def] fresh(1) os by (simp_all add: R4_def)
  define b' where "b' = b\<lparr> bk_orders := R4, bk_index := (bk_index b)(k := Some i) \<rparr>"
  have ul: "unlinked (ON b' j) = unlinked (obj R j)" for j using R4(2) by (simp add: b'_def orders_relinked_def)
  have other: "ON b' j = ON b j" if "j \<notin> set (i # os)" for j
    using R4(2) R(4) that os by (simp add: b'_def orders_relinked_def)
  have pv_f: "on_prev (obj R f) = Some p" using ring_prev_hd[OF r] by (simp add: p_def)
  have pin: "p \<in> set os" using os by (metis last_in_set list.distinct(1) p_def)
  have ne: "i \<noteq> f" "i \<noteq> p" using fresh os pin by auto
  have gl: "getOrdersAtPrice b (lv_price (LV b l)) = Some l"
    using rep' getOrdersAtPrice_live[of b ?Ls Ms l] by (simp add: live_levels_def)
  have slot_i: "slot (obj R4 i) = Inr k"
    using slot_cong[of "obj R4 i" node] R4(2) R(5) node(3) by (simp add: orders_relinked_def)
  have first: "lv_first (LV b l) = Some f" using lvl os by (simp add: level_ok_def)
  have gl': "getOrdersAtPrice (b\<lparr> bk_orders := R \<rparr>) (on_price node) = Some l"
    using gl node(2) by (simp add: getOrdersAtPrice_def)
  have pv_f1: "on_prev (obj (modify R p (on_next_update (\<lambda>_. Some i))) f) = Some p"
    using pv_f by auto
  have run: "addOrder slot (b\<lparr> bk_orders := R \<rparr>) i = Inr b'"
    using gl' first pv_f pv_f1 ne R(5) slot_i
    by (simp add: addOrder_def Let_def b'_def R4_def[symmetric])
  have lv: "level_ok b' side (l, os @ [i])"
  proof -
    have "\<forall>j \<in> set (os @ [i]). on_side (ON b' j) = side \<and> on_price (ON b' j) = lv_price (LV b l)"
    proof
      fix j assume "j \<in> set (os @ [i])"
      then consider "j = i" | "j \<in> set os" "j \<noteq> i" by auto
      then show "on_side (ON b' j) = side \<and> on_price (ON b' j) = lv_price (LV b l)"
        using unlinked_eqD[OF ul, of j] R(4,5) node lvl by cases (auto simp: level_ok_def)
    qed
    then show ?thesis using lvl R4(1) os by (simp add: level_ok_def b'_def onx_def opv_def)
  qed
  have "half_rep slot b' side ?Ls' Ms"
    unfolding half_rep_def
  proof (intro conjI)
    show "side_ok b' side ?Ls'" "side_ok b' (opp side) Ms"
      using queue_changed[OF rep, of b' "os @ [i]"] lv other fresh disj by (auto simp: b'_def)
    show "shapes_disjoint ?Ls' Ms" using rep' fresh by (auto simp: shapes_disjoint_def)
    show "pools_ok b' ?Ls' Ms"
      using rep' R R4(2) by (auto simp: pools_ok_def orders_relinked_def live_defs b'_def)
    show "price_index_ok b' ?Ls' Ms"
      by (rule price_index_keep[of b ?Ls Ms]) (use rep' in \<open>auto simp: live_defs b'_def\<close>)
    show "id_index_ok slot b' ?Ls' Ms"
    proof (rule id_index_add[of slot b ?Ls Ms])
      show "id_index_ok slot b ?Ls Ms" using rep' by simp
      show "live_orders ?Ls' Ms = insert i (live_orders ?Ls Ms)" by (auto simp: live_defs)
      show "slot (ON b' j) = slot (ON b j)" if "j \<in> live_orders ?Ls Ms" for j
        using slot_cong[OF ul, of j] R(4) live that by auto
    qed (use live slot_i node in \<open>auto simp: b'_def\<close>)
  qed
  then show ?thesis
    using run ul R(4,5) R4(2) by (auto simp: b'_def orders_relinked_def)
qed

text \<open>
  The first order at a price opens a level. \<open>level_opened\<close> is the frame of this step: what the new
  level holds, and that other levels keep all but their links.
\<close>

lemma addOrder_opens_level:
  assumes side: "side = BUY \<or> side = SELL" and no_level: "getOrdersAtPrice b (on_price node) = None"
    and head: "best_of side b = (if A @ C = [] then None else Some (hd (A @ C)))"
    and r: "A @ C \<noteq> [] \<Longrightarrow> ring (lnx b) (lpv b) (A @ C)"
    and worse: "\<And>a. a \<in> set A \<Longrightarrow> better side (lv_price (LV b a)) (on_price node)"
    and rest: "\<And>c. c \<in> set C \<Longrightarrow> better side (on_price node) (lv_price (LV b c))"
    and used: "set (A @ C) \<subseteq> in_use (bk_levels b)" and pool: "pool_inv (bk_levels b)" "has_room (bk_levels b)"
    and node: "obj R i = node" "on_side node = side" "slot node = Inr k"
  shows "\<exists>b' new. addOrder slot (b\<lparr> bk_orders := R \<rparr>) i = Inr b' \<and> new \<notin> in_use (bk_levels b)
     \<and> best_of side b' = Some (hd (A @ [new])) \<and> ring (lnx b') (lpv b') (A @ new # C)
     \<and> level_opened b b' R i k node new (set (A @ new # C))"
proof -
  define R1 where "R1 = modify R i (\<lambda>v. v\<lparr> on_next := Some i, on_prev := Some i \<rparr>)"
  let ?lv = "\<lparr> lv_side = on_side node, lv_price = on_price node, lv_first = Some i, lv_prev = None, lv_next = None \<rparr>"
  obtain new L1 where L1: "allocate (bk_levels b) ?lv = Inr (new, L1)" "pool_inv L1"
      "pool_size L1 = pool_size (bk_levels b)" "new \<notin> in_use (bk_levels b)"
      "in_use L1 = insert new (in_use (bk_levels b))" "obj L1 new = ?lv"
      "\<forall>j. j \<noteq> new \<longrightarrow> obj L1 j = obj (bk_levels b) j"
    using mp.alloc_ok[OF pool, of ?lv] by blast
  define b2 where "b2 = b\<lparr> bk_orders := R1, bk_levels := L1 \<rparr>"
  have fresh: "new \<notin> set (A @ C)" using L1(4) used by blast
  have old: "LV b2 l = LV b l" if "l \<in> set (A @ C)" for l
    using L1(7) fresh that by (auto simp: b2_def)
  have ring2: "ring (lnx b2) (lpv b2) (A @ C)" if "A @ C \<noteq> []"
    by (rule ring_cong[OF r[OF that]]) (simp_all add: lnx_def lpv_def old)
  have "\<exists>b3. addOrdersAtPrice b2 new = Inr b3 \<and> best_of side b3 = Some (hd (A @ [new]))
     \<and> ring (lnx b3) (lpv b3) (A @ new # C) \<and> level_added b2 b3 new (set (A @ new # C))"
    by (rule addOrdersAtPrice_ok[OF side _ _ ring2])
       (use node L1 fresh worse rest old head used in \<open>auto simp: b2_def\<close>)
  then obtain b3 where b3: "addOrdersAtPrice b2 new = Inr b3" "best_of side b3 = Some (hd (A @ [new]))"
      "ring (lnx b3) (lpv b3) (A @ new # C)" "level_added b2 b3 new (set (A @ new # C))" by blast
  have "bk_orders b3 = R1" using b3(4) by (simp add: level_added_def b2_def)
  then have "slot (ON b3 i) = Inr k"
    using slot_cong[of "ON b3 i" node] node by (simp add: R1_def unlinked_def)
  then have "addOrder slot (b\<lparr> bk_orders := R \<rparr>) i = Inr (b3\<lparr> bk_index := (bk_index b3)(k := Some i) \<rparr>)"
    using no_level node(1) L1(1) b3(1)
    by (simp add: addOrder_def Let_def getOrdersAtPrice_def R1_def b2_def)
  moreover have "level_opened b (b3\<lparr> bk_index := (bk_index b3)(k := Some i) \<rparr>) R i k node new (set (A @ new # C))"
    using b3(4) L1 unfolding level_opened_def level_added_def relinked_def b2_def R1_def by auto
  ultimately show ?thesis using L1(4) b3(2,3) by (fastforce simp: lnx_def lpv_def)
qed

lemma level_opened_side:
  assumes rep: "half_rep slot b side (Xs @ Ys) Ms" and side: "side = BUY \<or> side = SELL"
    and op: "level_opened b b' R i k node new (set (level_blocks Xs @ new # level_blocks Ys))"
    and fresh: "i \<notin> live_orders (Xs @ Ys) Ms" "new \<notin> live_levels (Xs @ Ys) Ms"
    and R: "\<forall>j. j \<noteq> i \<longrightarrow> obj R j = ON b j" "obj R i = node" and node: "on_side node = side"
    and head: "best_of side b' = Some (hd (level_blocks Xs @ [new]))"
    and r: "ring (lnx b') (lpv b') (level_blocks Xs @ new # level_blocks Ys)"
    and worse: "\<And>a. a \<in> set (level_blocks Xs) \<Longrightarrow> better side (lv_price (LV b a)) (on_price node)"
    and rest: "\<And>c. c \<in> set (level_blocks Ys) \<Longrightarrow> better side (on_price node) (lv_price (LV b c))"
  shows "side_ok b' side (Xs @ (new, [i]) # Ys)" and "side_ok b' (opp side) Ms"
proof -
  let ?L' = "Xs @ (new, [i]) # Ys"
  note rep' = rep[unfolded half_rep_def]
  have ord: "ON b' j = ON b j" if "j \<noteq> i" for j using op R that by (simp add: level_opened_def)
  have lev: "lv_price (LV b' l) = lv_price (LV b l)" if "l \<in> set (level_blocks (Xs @ Ys))" for l
    using op fresh(2) that by (auto simp: level_opened_def live_levels_def)
  have "level_ok b' side x" if x: "x \<in> set ?L'" for x
  proof (cases "x = (new, [i])")
    case True
    then show ?thesis
      using op R node by (auto simp: level_opened_def level_ok_def ring_def onx_def opv_def)
  next
    case False
    obtain l os where lo: "x = (l, os)" by (cases x)
    with x False have in': "(l, os) \<in> set (Xs @ Ys)" by auto
    then have "l \<noteq> new" using fresh(2) level_blocksI[OF in'] by (auto simp: live_levels_def)
    moreover have "j \<noteq> i" if "j \<in> set os" for j
      using fresh(1) order_blocksI[OF in' that] by (auto simp: live_orders_def)
    ultimately show ?thesis
      using in' rep' op ord unfolding lo
      by (intro level_ok_cong[of b side l os b']) (auto simp: side_ok_def level_opened_def)
  qed
  moreover have "levels_linked b' side ?L'"
    using head r by (cases Xs) (auto simp: levels_linked_def)
  moreover have "sorted_wrt (better side) (map (\<lambda>l. lv_price (LV b' l)) (level_blocks ?L'))"
  proof -
    have "sorted_wrt (better side) (map (\<lambda>l. lv_price (LV b l)) (level_blocks Xs)
        @ on_price node # map (\<lambda>l. lv_price (LV b l)) (level_blocks Ys))"
      using rep' worse rest by (auto simp: side_ok_def sorted_wrt_append)
    moreover have "lv_price (LV b' new) = on_price node" using op by (simp add: level_opened_def)
    ultimately show ?thesis using lev by (simp cong: map_cong)
  qed
  ultimately show "side_ok b' side ?L'" by (simp add: side_ok_def)
  show "side_ok b' (opp side) Ms"
  proof (rule side_ok_cong)
    show "side_ok b (opp side) Ms" using rep' by simp
    show "best_of (opp side) b' = best_of (opp side) b"
      using op side node by (auto simp: level_opened_def)
    show "LV b' l = LV b l" if "l \<in> set (level_blocks Ms)" for l
      using op fresh(2) rep' that by (auto simp: level_opened_def shapes_disjoint_def live_levels_def)
    show "ON b' j = ON b j" if "j \<in> set (order_blocks Ms)" for j
      by (rule ord) (use fresh(1) that in \<open>auto simp: live_orders_def\<close>)
  qed
qed

lemma addOrder_new:
  assumes rep: "half_rep slot b side Ls Ms" and side: "side = BUY \<or> side = SELL"
    and R: "pool_inv R" "in_use R = insert i (in_use (bk_orders b))" "i \<notin> in_use (bk_orders b)"
      "\<forall>j. j \<noteq> i \<longrightarrow> obj R j = ON b j" "obj R i = node"
    and node: "on_side node = side" "slot node = Inr k" "bk_index b k = None"
    and price: "price_in_window (on_price node)" "getOrdersAtPrice b (on_price node) = None"
    and room: "has_room (bk_levels b)"
  shows "\<exists>b' new Xs Ys. addOrder slot (b\<lparr> bk_orders := R \<rparr>) i = Inr b' \<and> Ls = Xs @ Ys
     \<and> half_rep slot b' side (Xs @ (new, [i]) # Ys) Ms
     \<and> (\<forall>a \<in> set (level_blocks Xs). better side (lv_price (LV b a)) (on_price node))
     \<and> (\<forall>c \<in> set (level_blocks Ys). better side (on_price node) (lv_price (LV b c)))
     \<and> level_opened b b' R i k node new (set (level_blocks Xs @ new # level_blocks Ys))
     \<and> new \<notin> live_levels Ls Ms"
proof -
  note rep' = rep[unfolded half_rep_def]
  have ne: "lv_price (LV b l) \<noteq> on_price node" if "l \<in> set (level_blocks Ls)" for l
    using getOrdersAtPrice_live[of b Ls Ms l] rep' price(2) that by (auto simp: live_levels_def)
  obtain A C where AC: "level_blocks Ls = A @ C" "\<forall>a \<in> set A. better side (lv_price (LV b a)) (on_price node)"
      "\<forall>c \<in> set C. better side (on_price node) (lv_price (LV b c))"
    using level_split[of side "\<lambda>l. lv_price (LV b l)" "level_blocks Ls" "on_price node"] rep' ne
    by (auto simp: side_ok_def)
  define Xs Ys where "Xs = take (length A) Ls" and "Ys = drop (length A) Ls"
  have XY: "Ls = Xs @ Ys" "level_blocks Xs = A" "level_blocks Ys = C"
    using AC(1) by (simp_all add: Xs_def Ys_def level_blocks_def take_map[symmetric] drop_map[symmetric])
  have "\<exists>b' new. addOrder slot (b\<lparr> bk_orders := R \<rparr>) i = Inr b' \<and> new \<notin> in_use (bk_levels b)
     \<and> best_of side b' = Some (hd (A @ [new])) \<and> ring (lnx b') (lpv b') (A @ new # C)
     \<and> level_opened b b' R i k node new (set (A @ new # C))"
    by (rule addOrder_opens_level[OF side price(2)])
       (use rep' AC XY node R room in \<open>auto simp: side_ok_def levels_linked_def pools_ok_def live_levels_def\<close>)
  then obtain b' new where b': "addOrder slot (b\<lparr> bk_orders := R \<rparr>) i = Inr b'" "new \<notin> in_use (bk_levels b)"
     "best_of side b' = Some (hd (A @ [new]))" "ring (lnx b') (lpv b') (A @ new # C)"
     "level_opened b b' R i k node new (set (A @ new # C))" by blast
  have fresh: "i \<notin> live_orders Ls Ms" "new \<notin> live_levels Ls Ms"
    using R(3) b'(2) rep' by (simp_all add: pools_ok_def)
  note sides = level_opened_side[of b side Xs Ys Ms b' R i k node new]
  have "half_rep slot b' side (Xs @ (new, [i]) # Ys) Ms"
    unfolding half_rep_def
  proof (intro conjI)
    show "side_ok b' side (Xs @ (new, [i]) # Ys)" "side_ok b' (opp side) Ms"
      using sides rep side b' fresh R(4,5) node AC XY by simp_all
    show "shapes_disjoint (Xs @ (new, [i]) # Ys) Ms"
      using rep' fresh XY by (auto simp: shapes_disjoint_def live_defs)
    show "pools_ok b' (Xs @ (new, [i]) # Ys) Ms"
      using rep' R(1,2) b'(5) XY by (auto simp: pools_ok_def level_opened_def live_defs)
    show "price_index_ok b' (Xs @ (new, [i]) # Ys) Ms"
      by (rule price_index_add[of b Ls Ms _ _ new b' "on_price node"])
         (use rep' price b'(5) XY fresh in \<open>auto simp: level_opened_def live_defs getOrdersAtPrice_def\<close>)
    show "id_index_ok slot b' (Xs @ (new, [i]) # Ys) Ms"
    proof (rule id_index_add[of slot b Ls Ms _ _ i b' k])
      show "slot (ON b' i) = Inr k"
        using slot_cong[of "ON b' i" node] b'(5) R(5) node(2) by (simp add: level_opened_def unlinked_def)
      show "slot (ON b' j) = slot (ON b j)" if "j \<in> live_orders Ls Ms" for j
        using that fresh R(4) b'(5) by (auto simp: level_opened_def)
    qed (use rep' fresh node b'(5) XY in \<open>auto simp: level_opened_def live_defs\<close>)
  qed
  then show ?thesis using b' AC XY fresh by auto
qed

text \<open>Both cases together, on the abstract value.\<close>

lemma abs_side_prices:
  "(q, vs) \<in> set (abs_side b Ls) \<Longrightarrow> \<exists>l \<in> set (level_blocks Ls). q = lv_price (LV b l)"
  by (induction Ls) auto

lemma abs_side_keep:
  assumes "set Zs \<subseteq> set Ls \<union> set Ms"
    and "\<And>l. l \<in> live_levels Ls Ms \<Longrightarrow> lv_price (LV b' l) = lv_price (LV b l)"
    and "\<And>i. i \<in> live_orders Ls Ms \<Longrightarrow> unlinked (ON b' i) = unlinked (ON b i)"
  shows "abs_side b' Zs = abs_side b Zs"
proof (rule abs_side_cong)
  show "lv_price (LV b' l) = lv_price (LV b l)" if "l \<in> set (level_blocks Zs)" for l
    by (rule assms(2)) (use that assms(1) in \<open>fastforce simp: level_blocks_def live_levels_def\<close>)
  show "unlinked (ON b' i) = unlinked (ON b i)" if "i \<in> set (order_blocks Zs)" for i
    by (rule assms(3)) (use that assms(1) in \<open>fastforce simp: order_blocks_def live_orders_def\<close>)
qed

lemma view_insert_of_existing:
  assumes "side_ok b side (Xs @ (l, os) # Ys)" and "on_price node = lv_price (LV b l)"
  shows "view_insert side (on_price node) v (abs_side b (Xs @ (l, os) # Ys))
    = abs_side b Xs @ (on_price node, map (\<lambda>i. unlinked (ON b i)) os @ [v]) # abs_side b Ys"
proof -
  have "better side q (on_price node)" if "(q, vs) \<in> set (abs_side b Xs)" for q vs
    using abs_side_prices[OF that] assms by (auto simp: side_ok_def sorted_wrt_append)
  then show ?thesis using view_insert_existing[of "abs_side b Xs"] assms(2) by simp
qed

lemma place_order_ok:
  assumes rep: "half_rep slot b side Ls Ms" and side: "side = BUY \<or> side = SELL"
    and node: "on_side node = side" "slot node = Inr k" "bk_index b k = None"
    and price: "price_in_window (on_price node)"
    and other: "\<And>l. l \<in> set (level_blocks Ms) \<Longrightarrow> lv_price (LV b l) \<noteq> on_price node"
    and room: "has_room (bk_levels b)" "has_room (bk_orders b)"
  shows "\<exists>b' Ls'. place_order slot b node = Inr b' \<and> half_rep slot b' side Ls' Ms
     \<and> abs_side b' Ls' = view_insert side (on_price node) (unlinked node) (abs_side b Ls)
     \<and> abs_side b' Ms = abs_side b Ms
     \<and> pool_size (bk_levels b') = pool_size (bk_levels b) \<and> pool_size (bk_orders b') = pool_size (bk_orders b)"
proof -
  note rep' = rep[unfolded half_rep_def]
  obtain i R where R: "allocate (bk_orders b) node = Inr (i, R)" "pool_inv R"
      "pool_size R = pool_size (bk_orders b)" "i \<notin> in_use (bk_orders b)"
      "in_use R = insert i (in_use (bk_orders b))" "obj R i = node" "\<forall>j. j \<noteq> i \<longrightarrow> obj R j = ON b j"
    using mp.alloc_ok[OF _ room(2), of node] rep' by (auto simp: pools_ok_def)
  have run: "place_order slot b node = addOrder slot (b\<lparr> bk_orders := R \<rparr>) i"
    using R(1) by (simp add: place_order_def)
  have fresh: "i \<notin> live_orders Ls Ms" using R(4) rep' by (simp add: pools_ok_def)
  show ?thesis
  proof (cases "getOrdersAtPrice b (on_price node)")
    case (Some l)
    then have l: "l \<in> live_levels Ls Ms" "lv_price (LV b l) = on_price node"
      using getOrdersAtPrice_Some[OF _ price] rep' by auto
    then have "l \<in> set (level_blocks Ls)" using other by (auto simp: live_levels_def)
    then obtain os where "(l, os) \<in> set Ls" by (auto simp: level_blocks_def)
    then obtain Xs Ys where Ls: "Ls = Xs @ (l, os) # Ys" by (metis split_list)
    obtain b' where b': "addOrder slot (b\<lparr> bk_orders := R \<rparr>) i = Inr b'"
        "half_rep slot b' side (Xs @ (l, os @ [i]) # Ys) Ms"
        "\<forall>j. j \<noteq> i \<longrightarrow> unlinked (ON b' j) = unlinked (ON b j)" "unlinked (ON b' i) = unlinked node"
        "bk_levels b' = bk_levels b" "pool_size (bk_orders b') = pool_size R"
      using addOrder_existing[OF rep[unfolded Ls] R(2,5,4,7,6) node(1) l(2)[symmetric] node(2,3)] by blast
    have "abs_side b' Zs = abs_side b Zs" if "set Zs \<subseteq> set Ls \<union> set Ms" for Zs
      by (rule abs_side_keep[OF that]) (use b'(3,5) fresh in auto)
    then have keep: "abs_side b' Xs = abs_side b Xs" "abs_side b' Ys = abs_side b Ys" "abs_side b' Ms = abs_side b Ms"
      using Ls by auto
    have "map (\<lambda>i. unlinked (ON b' i)) os = map (\<lambda>i. unlinked (ON b i)) os"
      using b'(3) fresh Ls by (auto simp: live_orders_def)
    moreover have "view_insert side (on_price node) (unlinked node) (abs_side b Ls)
        = abs_side b Xs @ (on_price node, map (\<lambda>i. unlinked (ON b i)) os @ [unlinked node]) # abs_side b Ys"
      unfolding Ls by (rule view_insert_of_existing) (use rep' l(2) Ls in simp_all)
    ultimately have "abs_side b' (Xs @ (l, os @ [i]) # Ys)
        = view_insert side (on_price node) (unlinked node) (abs_side b Ls)" "abs_side b' Ms = abs_side b Ms"
      using b'(4,5) l(2) Ls keep by simp_all
    then show ?thesis using run b' R(3) by auto
  next
    case None
    obtain b' new Xs Ys where b': "addOrder slot (b\<lparr> bk_orders := R \<rparr>) i = Inr b'" "Ls = Xs @ Ys"
        "half_rep slot b' side (Xs @ (new, [i]) # Ys) Ms"
        "\<forall>a \<in> set (level_blocks Xs). better side (lv_price (LV b a)) (on_price node)"
        "\<forall>c \<in> set (level_blocks Ys). better side (on_price node) (lv_price (LV b c))"
        "level_opened b b' R i k node new (set (level_blocks Xs @ new # level_blocks Ys))" "new \<notin> live_levels Ls Ms"
      using addOrder_new[OF rep side R(2,5,4,7,6) node price None room(1)] by blast
    have "abs_side b' Zs = abs_side b Zs" if "set Zs \<subseteq> set Ls \<union> set Ms" for Zs
      by (rule abs_side_keep[OF that]) (use b'(6,7) fresh R(7) in \<open>auto simp: level_opened_def\<close>)
    then have keep: "abs_side b' Xs = abs_side b Xs" "abs_side b' Ys = abs_side b Ys" "abs_side b' Ms = abs_side b Ms"
      using b'(2) by auto
    have "abs_side b' (Xs @ (new, [i]) # Ys) = abs_side b Xs @ (on_price node, [unlinked node]) # abs_side b Ys"
      using keep b'(2,6) R(6) by (simp add: level_opened_def unlinked_def)
    also have "\<dots> = view_insert side (on_price node) (unlinked node) (abs_side b Ls)"
      unfolding b'(2) abs_side_simps(3)
      by (rule view_insert_new[symmetric]) (use b'(4,5) in \<open>auto dest!: abs_side_prices\<close>)
    finally show ?thesis using run b'(1,3,6) keep R(3) by (auto simp: level_opened_def)
  qed
qed

section \<open>Removing an order\<close>

text \<open>Facts about an order that is in the book, however it is removed.\<close>

lemma order_in_level:
  assumes rep: "half_rep slot b side (Xs @ (l, os1 @ i # os2) # Ys) Ms"
  shows "on_side (ON b i) = side" "on_price (ON b i) = lv_price (LV b l)"
    "getOrdersAtPrice b (on_price (ON b i)) = Some l" "\<exists>k. slot (ON b i) = Inr k"
    "i \<in> in_use (bk_orders b)" "l \<in> in_use (bk_levels b)" "ring (nxO (bk_orders b)) (pvO (bk_orders b)) (i # os2 @ os1)"
proof -
  note rep' = rep[unfolded half_rep_def]
  have lvl: "level_ok b side (l, os1 @ i # os2)" using rep' by (simp add: side_ok_def)
  show side: "on_side (ON b i) = side" and price: "on_price (ON b i) = lv_price (LV b l)"
    using lvl by (simp_all add: level_ok_def)
  show "getOrdersAtPrice b (on_price (ON b i)) = Some l"
    using getOrdersAtPrice_live[of b "Xs @ (l, os1 @ i # os2) # Ys" Ms l] rep' price by (simp add: live_levels_def)
  show "\<exists>k. slot (ON b i) = Inr k" "i \<in> in_use (bk_orders b)" "l \<in> in_use (bk_levels b)"
    using rep' by (simp_all add: id_index_ok_def pools_ok_def live_defs)
  show "ring (nxO (bk_orders b)) (pvO (bk_orders b)) (i # os2 @ os1)"
    using ring_rotate[of _ _ os1 "i # os2"] lvl by (simp add: level_ok_def onx_def opv_def)
qed

text \<open>The last order of a level goes together with its level.\<close>

lemma level_removed_side:
  assumes rep: "half_rep slot b side (Xs @ (l, [i]) # Ys) Ms" and side: "side = BUY \<or> side = SELL"
    and rem: "level_removed b b1 side price l (set (level_blocks (Xs @ (l, [i]) # Ys)))"
    and head: "levels_linked b1 side (Xs @ Ys)"
  shows "side_ok b1 side (Xs @ Ys)" and "side_ok b1 (opp side) Ms"
proof -
  note rep' = rep[unfolded half_rep_def]
  have same: "ON b1 = ON b" "\<And>m. lv_price (LV b1 m) = lv_price (LV b m)" "\<And>m. lv_side (LV b1 m) = lv_side (LV b m)"
      "\<And>m. lv_first (LV b1 m) = lv_first (LV b m)" using rem by (simp_all add: level_removed_def)
  have "level_ok b1 side x" if "x \<in> set (Xs @ Ys)" for x
    using rep' that same level_ok_cong[of b side "fst x" "snd x" b1] by (auto simp: side_ok_def)
  moreover have "sorted_wrt (better side) (map (\<lambda>l. lv_price (LV b1 l)) (level_blocks (Xs @ Ys)))"
    using rep' same by (auto simp: side_ok_def sorted_wrt_append)
  ultimately show "side_ok b1 side (Xs @ Ys)" using head by (simp add: side_ok_def)
  show "side_ok b1 (opp side) Ms"
  proof (rule side_ok_cong)
    show "side_ok b (opp side) Ms" using rep' by simp
    show "best_of (opp side) b1 = best_of (opp side) b" using rem side by (auto simp: level_removed_def)
    show "LV b1 m = LV b m" if "m \<in> set (level_blocks Ms)" for m
      using rem rep' that by (auto simp: level_removed_def shapes_disjoint_def)
  qed (simp add: same)
qed

lemma removeOrdersAtPrice_ok:
  assumes rep: "half_rep slot b side (Xs @ (l, [i]) # Ys) Ms"
  shows "\<exists>b1. removeOrdersAtPrice b side (lv_price (LV b l)) = Inr b1 \<and> levels_linked b1 side (Xs @ Ys)
     \<and> level_removed b b1 side (lv_price (LV b l)) l (set (level_blocks (Xs @ (l, [i]) # Ys)))"
proof -
  let ?A = "level_blocks Xs" and ?C = "level_blocks Ys"
  note rep' = rep[unfolded half_rep_def]
  have ll: "levels_linked b side (Xs @ (l, [i]) # Ys)" using rep' by (simp add: side_ok_def)
  have at: "getOrdersAtPrice b (lv_price (LV b l)) = Some l"
    using getOrdersAtPrice_live[of b "Xs @ (l, [i]) # Ys" Ms l] rep' by (simp add: live_levels_def)
  have pool: "pool_inv (bk_levels b)" "l \<in> in_use (bk_levels b)" using rep' by (simp_all add: pools_ok_def live_defs)
  show ?thesis
  proof (cases "Xs @ Ys = []")
    case True
    then show ?thesis
      using removeOrdersAtPrice_sole[OF at _ pool, of side] ll by (auto simp: levels_linked_def)
  next
    case False
    then have ne: "?A @ ?C \<noteq> []" by simp
    have "best_of side b = Some (hd (?A @ [l]))" "ring (lnx b) (lpv b) (?A @ l # ?C)"
      using ll by (cases Xs; auto simp: levels_linked_def)+
    then show ?thesis
      using removeOrdersAtPrice_multi[OF _ ne _ at pool] False by (auto simp: levels_linked_def)
  qed
qed

lemma removeOrder_sole:
  assumes rep: "half_rep slot b side (Xs @ (l, [i]) # Ys) Ms" and side: "side = BUY \<or> side = SELL"
  shows "\<exists>b'. removeOrder slot b (Some i) = Inr b' \<and> half_rep slot b' side (Xs @ Ys) Ms
     \<and> (\<forall>j. unlinked (ON b' j) = unlinked (ON b j)) \<and> (\<forall>m. lv_price (LV b' m) = lv_price (LV b m))
     \<and> pool_size (bk_levels b') = pool_size (bk_levels b) \<and> pool_size (bk_orders b') = pool_size (bk_orders b)"
proof -
  note rep' = rep[unfolded half_rep_def] and facts = order_in_level[of b side Xs l "[]" i "[]" Ys Ms, simplified, OF rep]
  obtain k where k: "slot (ON b i) = Inr k" using facts(4) by blast
  obtain b1 where b1: "removeOrdersAtPrice b side (lv_price (LV b l)) = Inr b1" "levels_linked b1 side (Xs @ Ys)"
      "level_removed b b1 side (lv_price (LV b l)) l (set (level_blocks (Xs @ (l, [i]) # Ys)))"
    using removeOrdersAtPrice_ok[OF rep] by blast
  have pool: "pool_inv (bk_orders b)" using rep' by (simp add: pools_ok_def)
  have R1: "bk_orders b1 = bk_orders b" using b1(3) by (simp add: level_removed_def)
  obtain R where R: "deallocate (bk_orders b) i = Inr R" "pool_inv R" "pool_size R = pool_size (bk_orders b)"
      "in_use R = in_use (bk_orders b) - {i}" "\<forall>j. obj R j = ON b j"
    using mp.dealloc_ok[OF pool facts(5)] by blast
  define b' where "b' = b1\<lparr> bk_index := (bk_index b1)(k := None), bk_orders := R \<rparr>"
  have "on_prev (ON b i) = Some i" using facts(7) by (simp add: ring_def)
  then have run: "removeOrder slot b (Some i) = Inr b'"
    using b1(1) facts(1,2) k R(1) R1 by (simp add: removeOrder_def Let_def b'_def)
  have ON': "ON b' = ON b" using R(5) by (auto simp: b'_def)
  have cong: "side_ok b' s Zs" if "side_ok b1 s Zs" for s Zs
    by (rule side_ok_cong[OF that]) (use R1 R(5) in \<open>simp_all add: b'_def\<close>)
  have "half_rep slot b' side (Xs @ Ys) Ms"
    unfolding half_rep_def
  proof (intro conjI)
    show "side_ok b' side (Xs @ Ys)" "side_ok b' (opp side) Ms"
      using cong level_removed_side[OF rep side b1(3,2)] by simp_all
    show "shapes_disjoint (Xs @ Ys) Ms" using rep' by (auto simp: shapes_disjoint_def)
    show "pools_ok b' (Xs @ Ys) Ms"
      using rep' R b1(3) by (auto simp: pools_ok_def b'_def level_removed_def live_defs shapes_disjoint_def)
    show "price_index_ok b' (Xs @ Ys) Ms"
      by (rule price_index_remove[of b "Xs @ (l, [i]) # Ys" Ms _ _ l])
         (use rep' b1(3) in \<open>auto simp: b'_def level_removed_def live_defs shapes_disjoint_def\<close>)
    show "id_index_ok slot b' (Xs @ Ys) Ms"
      by (rule id_index_remove[of slot b "Xs @ (l, [i]) # Ys" Ms _ _ i b' k])
         (use rep' k ON' b1(3) in \<open>auto simp: b'_def level_removed_def live_defs shapes_disjoint_def\<close>)
  qed
  then show ?thesis using run ON' R(3) b1(3) by (auto simp: b'_def level_removed_def)
qed

text \<open>An order that is not alone at its price.\<close>

lemma removeOrder_multi:
  assumes rep: "half_rep slot b side (Xs @ (l, os1 @ i # os2) # Ys) Ms" and more: "os1 @ os2 \<noteq> []"
  shows "\<exists>b'. removeOrder slot b (Some i) = Inr b' \<and> half_rep slot b' side (Xs @ (l, os1 @ os2) # Ys) Ms
     \<and> (\<forall>j. unlinked (ON b' j) = unlinked (ON b j)) \<and> (\<forall>m. lv_price (LV b' m) = lv_price (LV b m))
     \<and> pool_size (bk_levels b') = pool_size (bk_levels b) \<and> pool_size (bk_orders b') = pool_size (bk_orders b)"
proof -
  let ?Ls = "Xs @ (l, os1 @ i # os2) # Ys" and ?Ls' = "Xs @ (l, os1 @ os2) # Ys" and ?R = "bk_orders b"
  note rep' = rep[unfolded half_rep_def] and facts = order_in_level[OF rep]
  obtain t qs where tq: "os2 @ os1 = t # qs" using more by (cases "os2 @ os1") auto
  note r = facts(7)[unfolded tq]
  define p where "p = last (t # qs)"
  define R3 where "R3 = modify (modify (modify ?R p (on_next_update (\<lambda>_. Some t))) t (on_prev_update (\<lambda>_. Some p)))
                  i (\<lambda>v. v\<lparr> on_prev := None, on_next := None \<rparr>)"
  have R3: "ring (nxO R3) (pvO R3) (t # qs)" "orders_relinked (set (i # t # qs)) ?R R3"
    using unlink_order[OF r p_def] by (simp_all add: R3_def)
  have pv: "on_prev (ON b i) = Some p" and nx: "on_next (ON b i) = Some t"
    using ring_prev_hd[OF r] ring_next_hd[OF r] by (simp_all add: p_def)
  have d: "i \<notin> set (t # qs)" using ring_distinct[OF r] by simp
  moreover have "p \<in> set (t # qs)" by (metis last_in_set list.distinct(1) p_def)
  ultimately have ne: "p \<noteq> i" "t \<noteq> i" by auto
  have pool: "pool_inv R3" "i \<in> in_use R3" using R3(2) rep' facts(5) by (auto simp: orders_relinked_def pools_ok_def)
  obtain R4 where R4: "deallocate R3 i = Inr R4" "pool_inv R4" "pool_size R4 = pool_size R3"
      "in_use R4 = in_use R3 - {i}" "\<forall>j. obj R4 j = obj R3 j"
    using mp.dealloc_ok[OF pool] by blast
  obtain k where k: "slot (ON b i) = Inr k" using facts(4) by blast
  have first: "lv_first (LV b l) = Some (hd (os1 @ [i]))"
    using rep' by (cases os1) (auto simp: side_ok_def level_ok_def)
  define L1 where "L1 = (if os1 = [] then modify (bk_levels b) l (lv_first_update (\<lambda>_. Some t)) else bk_levels b)"
  define b' where "b' = b\<lparr> bk_orders := R4, bk_levels := L1, bk_index := (bk_index b)(k := None) \<rparr>"
  have hd_i: "hd (os1 @ [i]) = i \<longleftrightarrow> os1 = []" using d[folded tq] by (cases os1) auto
  have run: "removeOrder slot b (Some i) = Inr b'"
    using pv nx ne facts(3) first hd_i k R4(1)
    by (auto simp: removeOrder_def Let_def b'_def L1_def R3_def)
  have ul: "unlinked (ON b' j) = unlinked (ON b j)" for j
    using R3(2) R4(5) by (simp add: b'_def orders_relinked_def)
  have ring': "ring (onx b') (opv b') (os1 @ os2)"
    using ring_rotate[of _ _ os2 os1] R3(1) R4(5) tq by (simp add: b'_def onx_def opv_def)
  have first': "lv_first (LV b' l) = Some (hd (os1 @ os2))"
    using first tq by (cases os1) (auto simp: b'_def L1_def)
  have lv: "level_ok b' side (l, os1 @ os2)"
    using ring' first' rep' unlinked_eqD[OF ul]
    by (auto simp: level_ok_def side_ok_def b'_def L1_def)
  have set_tq: "set (i # t # qs) = set (os1 @ i # os2)" using tq by (metis Un_commute list.simps(15) set_append Un_insert_right)
  have out: "ON b' j = ON b j" if "j \<notin> set (os1 @ i # os2)" for j
    using R3(2) R4(5) that set_tq by (auto simp: b'_def orders_relinked_def)
  have "half_rep slot b' side ?Ls' Ms"
    unfolding half_rep_def
  proof (intro conjI)
    have *: "set (os1 @ os2) \<inter> set (order_blocks (Xs @ Ys) @ order_blocks Ms) = {}"
      using rep' by (auto simp: shapes_disjoint_def)
    show "side_ok b' side ?Ls'" "side_ok b' (opp side) Ms"
      by (rule queue_changed[OF rep _ _ _ _ * lv]; use out in \<open>simp add: b'_def L1_def\<close>)+
    show "shapes_disjoint ?Ls' Ms" using rep' by (auto simp: shapes_disjoint_def)
    show "pools_ok b' ?Ls' Ms"
      using rep' R3(2) R4 by (auto simp: pools_ok_def b'_def L1_def orders_relinked_def live_defs shapes_disjoint_def)
    show "price_index_ok b' ?Ls' Ms"
      by (rule price_index_keep[of b ?Ls Ms]) (use rep' in \<open>auto simp: live_defs b'_def L1_def\<close>)
    show "id_index_ok slot b' ?Ls' Ms"
      by (rule id_index_remove[of slot b ?Ls Ms _ _ i b' k])
         (use rep' k slot_cong[OF ul] in \<open>auto simp: b'_def live_defs shapes_disjoint_def\<close>)
  qed
  then show ?thesis using run ul R3(2) R4(3) by (auto simp: b'_def L1_def orders_relinked_def)
qed

end

end
