(* ===== verification/BookView.thy ===== *)
theory BookView
  imports BookOps
begin

text \<open>
  The book seen from outside. \<open>half_view slot b side V W\<close> says that the pointer structure \<open>b\<close> is well formed and
  holds the levels \<open>V\<close> on \<open>side\<close> and \<open>W\<close> on the other side. The lemmas of this theory are the whole
  interface through which the exchange's and the client's book are verified: how the best order, an
  order with a given id and a level are found, and what placing, removing and changing an order do to the two views.
\<close>

definition half_view :: "('e order_node_scheme \<Rightarrow> 'k result) \<Rightarrow> ('k, 'e) book \<Rightarrow> Side \<Rightarrow>
    'e order_node_scheme side_view \<Rightarrow> 'e order_node_scheme side_view \<Rightarrow> bool" where
  "half_view slot b side V W \<longleftrightarrow>
     (\<exists>Ls Ms. half_rep slot b side Ls Ms \<and> abs_side b Ls = V \<and> abs_side b Ms = W)"

lemma half_view_swap:
  assumes "side = BUY \<or> side = SELL"
  shows "half_view slot b side V W \<longleftrightarrow> half_view slot b (opp side) W V"
  unfolding half_view_def using half_rep_swap[OF assms] by blast

lemma unlinked_qty: "unlinked (on_qty_update f n) = on_qty_update f (unlinked n)"
  by (simp add: unlinked_def)

lemma fst_abs_side: "map fst (abs_side b Ls) = map (\<lambda>l. lv_price (LV b l)) (level_blocks Ls)"
  by (induction Ls) auto

lemma level_price_in_view: "l \<in> set (level_blocks Ls) \<Longrightarrow> lv_price (LV b l) \<in> set (map fst (abs_side b Ls))"
  unfolding fst_abs_side by simp

lemma abs_side_length [simp]: "length (abs_side b Ls) = length Ls"
  by (simp add: abs_side_def)

section \<open>What a view satisfies\<close>

text \<open>One side alone: prices strictly ordered, no empty level, orders under their own price and side.\<close>

definition side_view_ok :: "Side \<Rightarrow> 'e order_node_scheme side_view \<Rightarrow> bool" where
  "side_view_ok side V \<longleftrightarrow> sorted_wrt (better side) (map fst V)
     \<and> (\<forall>(q, vs) \<in> set V. vs \<noteq> [] \<and> price_in_window q
          \<and> (\<forall>v \<in> set vs. on_side v = side \<and> on_price v = q \<and> unlinked v = v))"

lemma side_ok_view:
  assumes "side_ok b side Ls" and "\<And>l. l \<in> set (level_blocks Ls) \<Longrightarrow> price_in_window (lv_price (LV b l))"
  shows "side_view_ok side (abs_side b Ls)"
proof -
  have "vs \<noteq> [] \<and> price_in_window q \<and> (\<forall>v \<in> set vs. on_side v = side \<and> on_price v = q \<and> unlinked v = v)"
    if x: "(q, vs) \<in> set (abs_side b Ls)" for q vs
  proof -
    obtain l os where lo: "(l, os) \<in> set Ls" "q = lv_price (LV b l)" "vs = map (\<lambda>i. unlinked (ON b i)) os"
      using x by (auto simp: abs_side_def)
    then have "level_ok b side (l, os)" using assms(1) by (auto simp: side_ok_def)
    then have "os \<noteq> []" "\<forall>i \<in> set os. on_side (ON b i) = side \<and> on_price (ON b i) = q"
      using lo(2) by (auto simp: level_ok_def ring_def)
    then show ?thesis using lo assms(2) level_blocksI by auto
  qed
  then show ?thesis using assms(1) by (auto simp: side_view_ok_def side_ok_def fst_abs_side)
qed

lemma half_view_sides:
  assumes "half_view slot b side V W"
  shows "side_view_ok side V" and "side_view_ok (opp side) W" and "set (map fst V) \<inter> set (map fst W) = {}"
proof -
  obtain Ls Ms where rep: "half_rep slot b side Ls Ms" and V: "abs_side b Ls = V" "abs_side b Ms = W"
    using assms by (auto simp: half_view_def)
  note rep' = rep[unfolded half_rep_def]
  have win: "price_in_window (lv_price (LV b l))" if "l \<in> set (level_blocks Ls) \<union> set (level_blocks Ms)" for l
    using rep' that by (auto simp: price_index_ok_def live_defs)
  show "side_view_ok side V" "side_view_ok (opp side) W"
    using side_ok_view rep' win V by auto
  have "l = m" if "l \<in> set (level_blocks Ls)" "m \<in> set (level_blocks Ms)" "lv_price (LV b l) = lv_price (LV b m)" for l m
  proof -
    have "getOrdersAtPrice b (lv_price (LV b n)) = Some n" if "n = l \<or> n = m" for n
      by (rule getOrdersAtPrice_live[of b Ls Ms]) (use rep' \<open>l \<in> _\<close> \<open>m \<in> _\<close> that in \<open>auto simp: live_levels_def\<close>)
    then show ?thesis using that(3) by (metis option.inject)
  qed
  then show "set (map fst V) \<inter> set (map fst W) = {}"
    using rep' unfolding V[symmetric] fst_abs_side shapes_disjoint_def by fastforce
qed

text \<open>The number of blocks taken from the two pools.\<close>

lemma half_view_counts:
  assumes "half_view slot b side V W"
  shows "card (in_use (bk_orders b)) = length (view_orders V) + length (view_orders W)"
    and "card (in_use (bk_levels b)) = length V + length W"
    and "pool_inv (bk_orders b)" and "pool_inv (bk_levels b)"
proof -
  obtain Ls Ms where rep: "half_rep slot b side Ls Ms" and V: "abs_side b Ls = V" "abs_side b Ms = W"
    using assms by (auto simp: half_view_def)
  note rep' = rep[unfolded half_rep_def]
  have "in_use (bk_orders b) = set (order_blocks Ls @ order_blocks Ms)"
    using rep' by (simp add: pools_ok_def live_orders_def)
  then show "card (in_use (bk_orders b)) = length (view_orders V) + length (view_orders W)"
    using rep' distinct_card[of "order_blocks Ls @ order_blocks Ms"]
    by (simp add: shapes_disjoint_def view_orders_abs flip: V)
  have "in_use (bk_levels b) = set (level_blocks Ls @ level_blocks Ms)"
    using rep' by (simp add: pools_ok_def live_levels_def)
  then show "card (in_use (bk_levels b)) = length V + length W"
    using rep' distinct_card[of "level_blocks Ls @ level_blocks Ms"]
    by (simp add: shapes_disjoint_def level_blocks_def flip: V)
  show "pool_inv (bk_orders b)" "pool_inv (bk_levels b)" using rep' by (simp_all add: pools_ok_def)
qed

section \<open>Finding orders\<close>

lemma half_view_empty: "half_view slot b side [] W \<Longrightarrow> best_of side b = None"
  by (auto simp: half_view_def half_rep_def side_ok_def levels_linked_def abs_side_def)

lemma half_view_best:
  assumes "half_view slot b side ((q, v # vs) # V) W"
  shows "\<exists>l i k. best_of side b = Some l \<and> lv_price (LV b l) = q \<and> lv_first (LV b l) = Some i
     \<and> unlinked (ON b i) = v \<and> slot (ON b i) = Inr k \<and> bk_index b k = Some i"
proof -
  obtain Ls Ms where rep: "half_rep slot b side Ls Ms" and V: "abs_side b Ls = (q, v # vs) # V"
    using assms by (auto simp: half_view_def)
  obtain l os Ls' where Ls: "Ls = (l, os) # Ls'" using V by (cases Ls) auto
  then obtain i os' where os: "os = i # os'" using V by (cases os) auto
  note rep' = rep[unfolded half_rep_def Ls os]
  have "best_of side b = Some l" "lv_first (LV b l) = Some i"
    using rep' by (auto simp: side_ok_def levels_linked_def level_ok_def)
  moreover obtain k where "slot (ON b i) = Inr k" "bk_index b k = Some i"
    using rep' by (auto simp: id_index_ok_def live_defs)
  ultimately show ?thesis using V Ls os by auto
qed

lemma half_view_no_best:
  assumes "half_view slot b side V W"
  shows "best_of side b = None \<longleftrightarrow> V = []"
  using assms by (auto simp: half_view_def half_rep_def side_ok_def levels_linked_def abs_side_def split: if_splits)

text \<open>A new book, its arrays filled with null pointers, is empty.\<close>

definition book_new :: "nat \<Rightarrow> nat \<Rightarrow> 'e order_node_scheme \<Rightarrow> ('k \<Rightarrow> ptr) \<Rightarrow> (nat \<Rightarrow> ptr) \<Rightarrow> ('k, 'e) book" where
  "book_new n_levels n_orders x ids levels =
     \<lparr> bk_index = ids, bk_levels = MemPool_new n_levels OrdersAtPrice_default, bk_orders = MemPool_new n_orders x,
       bk_bids = None, bk_asks = None, bk_price_index = levels \<rparr>"

lemma half_view_new:
  assumes "0 < n_levels" and "0 < n_orders"
  shows "half_view slot (book_new n_levels n_orders x (\<lambda>_. None) (\<lambda>_. None)) side [] []"
  unfolding half_view_def
  by (intro exI[of _ "[]"])
     (simp add: half_rep_def side_ok_def levels_linked_def shapes_disjoint_def pools_ok_def price_index_ok_def
       id_index_ok_def live_defs best_of_def book_new_def new_pool_inv assms)

context keyed_orders
begin

text \<open>The id array finds exactly the orders of the two views, each under its own slot.\<close>

lemma view_lookup:
  assumes "half_view slot b side V W" and "bk_index b k = Some i"
  shows "slot (ON b i) = Inr k" and "unlinked (ON b i) \<in> set (view_orders V) \<union> set (view_orders W)"
proof -
  obtain Ls Ms where rep: "half_rep slot b side Ls Ms" and V: "abs_side b Ls = V" "abs_side b Ms = W"
    using assms(1) by (auto simp: half_view_def)
  then show "slot (ON b i) = Inr k" "unlinked (ON b i) \<in> set (view_orders V) \<union> set (view_orders W)"
    using assms(2) unfolding half_rep_def id_index_ok_def live_orders_def
    by (auto simp: view_orders_abs simp flip: V)
qed

lemma view_key:
  assumes "half_view slot b side V W" and "v \<in> set (view_orders V) \<union> set (view_orders W)"
  shows "\<exists>k i. slot v = Inr k \<and> bk_index b k = Some i \<and> unlinked (ON b i) = v"
proof -
  obtain Ls Ms where rep: "half_rep slot b side Ls Ms" and V: "abs_side b Ls = V" "abs_side b Ms = W"
    using assms(1) by (auto simp: half_view_def)
  obtain i where i: "i \<in> live_orders Ls Ms" "v = unlinked (ON b i)"
    using assms(2) by (auto simp: view_orders_abs live_orders_def simp flip: V)
  then obtain k where "slot (ON b i) = Inr k" "bk_index b k = Some i"
    using rep by (auto simp: half_rep_def id_index_ok_def)
  then show ?thesis using i slot_unlinked by auto
qed

lemma view_no_key:
  assumes "half_view slot b side V W" and "bk_index b k = None"
    and "v \<in> set (view_orders V) \<union> set (view_orders W)"
  shows "slot v \<noteq> Inr k"
  using view_key[OF assms(1,3)] assms(2) by auto

lemma view_same_key:
  assumes "half_view slot b side V W" and "slot v = slot w"
    and "v \<in> set (view_orders V) \<union> set (view_orders W)" and "w \<in> set (view_orders V) \<union> set (view_orders W)"
  shows "v = w"
  using view_key[OF assms(1,3)] view_key[OF assms(1,4)] assms(2) by auto

lemma view_keys_distinct:
  assumes "half_view slot b side V W"
  shows "distinct (map slot (view_orders V @ view_orders W))"
proof -
  obtain Ls Ms where rep: "half_rep slot b side Ls Ms" and V: "V = abs_side b Ls" "W = abs_side b Ms"
    using assms by (auto simp: half_view_def)
  let ?is = "order_blocks Ls @ order_blocks Ms"
  have "inj_on (\<lambda>i. slot (ON b i)) (set ?is)"
  proof (rule inj_onI)
    fix i j assume ij: "i \<in> set ?is" "j \<in> set ?is" "slot (ON b i) = slot (ON b j)"
    then have "i \<in> live_orders Ls Ms" "j \<in> live_orders Ls Ms" by (simp_all add: live_orders_def)
    moreover have idx: "id_index_ok slot b Ls Ms" using rep by (simp add: half_rep_def)
    ultimately obtain k where "slot (ON b i) = Inr k" "bk_index b k = Some i" by (auto simp: id_index_ok_def)
    moreover have "bk_index b k = Some j"
      using idx \<open>j \<in> live_orders Ls Ms\<close> ij(3) calculation(1) by (simp add: id_index_ok_def)
    ultimately show "i = j" by simp
  qed
  moreover have "distinct ?is" using rep by (simp add: half_rep_def shapes_disjoint_def)
  ultimately have "distinct (map (\<lambda>i. slot (ON b i)) ?is)" by (simp only: distinct_map)
  then show ?thesis by (simp add: V view_orders_abs comp_def slot_unlinked)
qed

section \<open>Changing the views\<close>

lemma view_place:
  assumes view: "half_view slot b side V W" and side: "side = BUY \<or> side = SELL"
    and node: "on_side node = side" "slot node = Inr k" "bk_index b k = None"
    and price: "price_in_window (on_price node)" "on_price node \<notin> set (map fst W)"
    and room: "has_room (bk_levels b)" "has_room (bk_orders b)"
  shows "\<exists>b'. place_order slot b node = Inr b'
     \<and> half_view slot b' side (view_insert side (on_price node) (unlinked node) V) W
     \<and> pool_size (bk_levels b') = pool_size (bk_levels b) \<and> pool_size (bk_orders b') = pool_size (bk_orders b)"
proof -
  obtain Ls Ms where rep: "half_rep slot b side Ls Ms" and V: "abs_side b Ls = V" "abs_side b Ms = W"
    using view by (auto simp: half_view_def)
  have "lv_price (LV b l) \<noteq> on_price node" if "l \<in> set (level_blocks Ms)" for l
    using level_price_in_view[OF that, of b] price(2) V(2) by metis
  then show ?thesis
    using place_order_ok[OF rep side node price(1) _ room] V unfolding half_view_def by metis
qed

text \<open>The block of an order found through the id array, located in the shape of its side.\<close>

lemma locate_order:
  assumes rep: "half_rep slot b side Ls Ms" and side: "side = BUY \<or> side = SELL"
    and i: "bk_index b k = Some i" "on_side (ON b i) = side"
  shows "\<exists>Xs l os1 os2 Ys. Ls = Xs @ (l, os1 @ i # os2) # Ys"
    and "\<And>j. j \<in> live_orders Ls Ms \<Longrightarrow> slot (unlinked (ON b j)) = Inr k \<longleftrightarrow> j = i"
proof -
  note rep' = rep[unfolded half_rep_def]
  have live: "i \<in> live_orders Ls Ms" and key: "slot (ON b i) = Inr k" using rep' i(1) by (auto simp: id_index_ok_def)
  have "on_side (ON b j) = opp side" if "j \<in> set (order_blocks Ms)" for j
    using rep' that by (auto simp: side_ok_def level_ok_def order_blocks_def)
  then have "i \<in> set (order_blocks Ls)" using live i(2) side by (auto simp: live_orders_def)
  then obtain l os where lo: "(l, os) \<in> set Ls" "i \<in> set os" by (auto simp: order_blocks_def)
  then obtain Xs Ys where "Ls = Xs @ (l, os) # Ys" by (metis split_list)
  moreover obtain os1 os2 where "os = os1 @ i # os2" using lo(2) by (metis split_list)
  ultimately show "\<exists>Xs l os1 os2 Ys. Ls = Xs @ (l, os1 @ i # os2) # Ys" by blast
  show "slot (unlinked (ON b j)) = Inr k \<longleftrightarrow> j = i" if "j \<in> live_orders Ls Ms" for j
  proof
    assume "slot (unlinked (ON b j)) = Inr k"
    then have "bk_index b k = Some j" using rep' that by (simp add: id_index_ok_def slot_unlinked)
    then show "j = i" using i(1) by simp
  qed (simp add: key slot_unlinked)
qed

lemma view_remove:
  assumes view: "half_view slot b side V W" and side: "side = BUY \<or> side = SELL"
    and i: "bk_index b k = Some i" "on_side (ON b i) = side"
  shows "\<exists>b'. removeOrder slot b (Some i) = Inr b' \<and> half_view slot b' side (view_delete (\<lambda>v. slot v = Inr k) V) W
     \<and> pool_size (bk_levels b') = pool_size (bk_levels b) \<and> pool_size (bk_orders b') = pool_size (bk_orders b)"
proof -
  let ?P = "\<lambda>v. slot v = Inr k"
  obtain Ls Ms where rep: "half_rep slot b side Ls Ms" and V: "V = abs_side b Ls" "W = abs_side b Ms"
    using view by (auto simp: half_view_def)
  obtain Xs l os1 os2 Ys where Ls: "Ls = Xs @ (l, os1 @ i # os2) # Ys"
    using locate_order(1)[OF rep side i] by blast
  note key = locate_order(2)[OF rep side i]
  have dist: "i \<notin> set os1" "i \<notin> set os2" "i \<notin> set (order_blocks Xs)" "i \<notin> set (order_blocks Ys)"
    using rep Ls by (auto simp: half_rep_def shapes_disjoint_def)
  define Ls' where "Ls' = Xs @ (if os1 @ os2 = [] then [] else [(l, os1 @ os2)]) @ Ys"
  obtain b' where b': "removeOrder slot b (Some i) = Inr b'" "half_rep slot b' side Ls' Ms"
      "\<forall>j. unlinked (ON b' j) = unlinked (ON b j)" "\<forall>m. lv_price (LV b' m) = lv_price (LV b m)"
      "pool_size (bk_levels b') = pool_size (bk_levels b)" "pool_size (bk_orders b') = pool_size (bk_orders b)"
    using removeOrder_sole[of b side Xs l i Ys Ms, OF _ side] removeOrder_multi[of b side Xs l os1 i os2 Ys Ms]
      rep Ls by (cases "os1 @ os2 = []") (auto simp: Ls'_def)
  have same: "abs_side b' Zs = abs_side b Zs" for Zs using b'(3,4) by (intro abs_side_cong) auto
  have ne: "vs \<noteq> []" if "(q, vs) \<in> set V" for q vs
    using half_view_sides(1)[OF view] that by (auto simp: side_view_ok_def)
  have keep: "view_delete ?P (abs_side b Zs) = abs_side b Zs" if "Zs = Xs \<or> Zs = Ys" for Zs
  proof (rule view_delete_id)
    show "\<not> ?P v" if v: "v \<in> set (view_orders (abs_side b Zs))" for v
      using v \<open>Zs = Xs \<or> Zs = Ys\<close> dist key Ls by (auto simp: view_orders_abs live_orders_def)
  qed (use ne that V Ls in auto)
  have "filter (\<lambda>v. \<not> ?P v) (map (\<lambda>i. unlinked (ON b i)) zs) = map (\<lambda>i. unlinked (ON b i)) zs"
    if "zs = os1 \<or> zs = os2" for zs
    using that dist key Ls by (intro filter_True) (auto simp: live_orders_def)
  then have "view_delete ?P V = abs_side b Ls'"
    using keep key[of i] Ls by (auto simp: V Ls'_def Let_def live_orders_def)
  then have "half_view slot b' side (view_delete ?P V) W"
    unfolding half_view_def using b'(2) same V by metis
  then show ?thesis using b' by blast
qed

lemma view_set_qty:
  assumes view: "half_view slot b side V W" and side: "side = BUY \<or> side = SELL"
    and i: "bk_index b k = Some i" "on_side (ON b i) = side"
  shows "half_view slot (b\<lparr> bk_orders := modify (bk_orders b) i (on_qty_update f) \<rparr>) side
     (view_update (\<lambda>v. slot v = Inr k) (on_qty_update f) V) W"
proof -
  let ?P = "\<lambda>v. slot v = Inr k" and ?b = "b\<lparr> bk_orders := modify (bk_orders b) i (on_qty_update f) \<rparr>"
  obtain Ls Ms where rep: "half_rep slot b side Ls Ms" and V: "V = abs_side b Ls" "W = abs_side b Ms"
    using view by (auto simp: half_view_def)
  note key = locate_order(2)[OF rep side i]
  have i_in: "i \<in> set (order_blocks Ls)" using locate_order(1)[OF rep side i] by auto
  have slots: "slot (ON ?b j) = slot (ON b j)" for j
  proof (cases "j = i")
    case True
    have eq: "on_qty_update f (ON b i) = (ON b i)\<lparr> on_qty := f (on_qty (ON b i)) \<rparr>" by simp
    show ?thesis using True slot_qty[of "f (on_qty (ON b i))" "ON b i"] by (simp add: eq)
  qed simp
  have ringc: "onx ?b = onx b" "opv ?b = opv b" "lnx ?b = lnx b" "lpv ?b = lpv b"
    by (auto simp: onx_def opv_def lnx_def lpv_def)
  have "side_ok ?b s Zs = side_ok b s Zs" for s Zs
    by (auto simp: side_ok_def levels_linked_def level_ok_def ringc best_of_def)
  then have "half_rep slot ?b side Ls Ms"
    using rep slots by (simp add: half_rep_def pools_ok_def price_index_ok_def id_index_ok_def)
  moreover have "abs_side ?b Zs = view_update ?P (on_qty_update f) (abs_side b Zs)"
    if "set (order_blocks Zs) \<subseteq> live_orders Ls Ms" for Zs
    using that by (induction Zs) (auto simp: key subset_iff unlinked_qty)
  then have "abs_side ?b Ls = view_update ?P (on_qty_update f) V" by (simp add: V live_orders_def)
  moreover have "abs_side ?b Ms = W"
    unfolding V by (rule abs_side_cong)
      (use rep i_in in \<open>auto simp: half_rep_def shapes_disjoint_def\<close>)
  ultimately show ?thesis unfolding half_view_def by blast
qed

end

end
