(* ===== verification/Messages.thy ===== *)
theory Messages
  imports CommonTypes
begin

text \<open>
  The packed structs the threads exchange: \<^verbatim>\<open>exchange/order_server/client_request.h\<close>,
  \<^verbatim>\<open>exchange/order_server/client_response.h\<close> and \<^verbatim>\<open>exchange/market_data/market_update.h\<close>. An enumerator
  that occurs in several enums carries a prefix; record fields carry the prefix of
  their struct. The wire formats are the sequence number followed by the payload.
\<close>

section \<open>Client requests\<close>

datatype ClientRequestType = Req_INVALID | Req_NEW | Req_CANCEL

primrec clientRequestTypeToString :: "ClientRequestType \<Rightarrow> string" where
  "clientRequestTypeToString Req_NEW = ''NEW''"
| "clientRequestTypeToString Req_CANCEL = ''CANCEL''"
| "clientRequestTypeToString Req_INVALID = ''INVALID''"

record MEClientRequest =
  req_type :: ClientRequestType
  req_client_id :: ClientId
  req_ticker_id :: TickerId
  req_order_id :: OrderId
  req_side :: Side
  req_price :: Price
  req_qty :: Qty

definition MEClientRequest_default :: MEClientRequest where
  "MEClientRequest_default =
     \<lparr> req_type = Req_INVALID, req_client_id = ClientId_INVALID, req_ticker_id = TickerId_INVALID,
       req_order_id = OrderId_INVALID, req_side = Side_INVALID, req_price = Price_INVALID,
       req_qty = Qty_INVALID \<rparr>"

record OMClientRequest =
  omreq_seq_num :: nat
  omreq_request :: MEClientRequest

section \<open>Client responses\<close>

datatype ClientResponseType = Rsp_INVALID | ACCEPTED | CANCELED | FILLED | CANCEL_REJECTED

primrec clientResponseTypeToString :: "ClientResponseType \<Rightarrow> string" where
  "clientResponseTypeToString ACCEPTED = ''ACCEPTED''"
| "clientResponseTypeToString CANCELED = ''CANCELED''"
| "clientResponseTypeToString FILLED = ''FILLED''"
| "clientResponseTypeToString CANCEL_REJECTED = ''CANCEL_REJECTED''"
| "clientResponseTypeToString Rsp_INVALID = ''INVALID''"

record MEClientResponse =
  rsp_type :: ClientResponseType
  rsp_client_id :: ClientId
  rsp_ticker_id :: TickerId
  rsp_client_order_id :: OrderId
  rsp_market_order_id :: OrderId
  rsp_side :: Side
  rsp_price :: Price
  rsp_exec_qty :: Qty
  rsp_leaves_qty :: Qty

definition MEClientResponse_default :: MEClientResponse where
  "MEClientResponse_default =
     \<lparr> rsp_type = Rsp_INVALID, rsp_client_id = ClientId_INVALID, rsp_ticker_id = TickerId_INVALID,
       rsp_client_order_id = OrderId_INVALID, rsp_market_order_id = OrderId_INVALID,
       rsp_side = Side_INVALID, rsp_price = Price_INVALID, rsp_exec_qty = Qty_INVALID,
       rsp_leaves_qty = Qty_INVALID \<rparr>"

record OMClientResponse =
  omrsp_seq_num :: nat
  omrsp_response :: MEClientResponse

section \<open>Market updates\<close>

datatype MarketUpdateType =
    Upd_INVALID | CLEAR | ADD | MODIFY | Upd_CANCEL | TRADE | SNAPSHOT_START | SNAPSHOT_END

primrec marketUpdateTypeToString :: "MarketUpdateType \<Rightarrow> string" where
  "marketUpdateTypeToString CLEAR = ''CLEAR''"
| "marketUpdateTypeToString ADD = ''ADD''"
| "marketUpdateTypeToString MODIFY = ''MODIFY''"
| "marketUpdateTypeToString Upd_CANCEL = ''CANCEL''"
| "marketUpdateTypeToString TRADE = ''TRADE''"
| "marketUpdateTypeToString SNAPSHOT_START = ''SNAPSHOT_START''"
| "marketUpdateTypeToString SNAPSHOT_END = ''SNAPSHOT_END''"
| "marketUpdateTypeToString Upd_INVALID = ''INVALID''"

record MEMarketUpdate =
  mu_type :: MarketUpdateType
  mu_order_id :: OrderId
  mu_ticker_id :: TickerId
  mu_side :: Side
  mu_price :: Price
  mu_qty :: Qty
  mu_priority :: Priority

definition MEMarketUpdate_default :: MEMarketUpdate where
  "MEMarketUpdate_default =
     \<lparr> mu_type = Upd_INVALID, mu_order_id = OrderId_INVALID, mu_ticker_id = TickerId_INVALID,
       mu_side = Side_INVALID, mu_price = Price_INVALID, mu_qty = Qty_INVALID,
       mu_priority = Priority_INVALID \<rparr>"

record MDPMarketUpdate =
  mdp_seq_num :: nat
  mdp_update :: MEMarketUpdate

section \<open>Packed sizes\<close>

text \<open>
  Under \<open>#pragma pack(1)\<close> the size of a struct is the sum of the sizes of its fields: the enums are
  one byte, identifiers and quantities of 32 bits four, the others eight.
\<close>

definition sizeof_MEClientRequest :: nat where "sizeof_MEClientRequest = 1 + 4 + 4 + 8 + 1 + 8 + 4"
definition sizeof_OMClientRequest :: nat where "sizeof_OMClientRequest = 8 + sizeof_MEClientRequest"
definition sizeof_MEClientResponse :: nat where
  "sizeof_MEClientResponse = 1 + 4 + 4 + 8 + 8 + 1 + 8 + 4 + 4"
definition sizeof_OMClientResponse :: nat where
  "sizeof_OMClientResponse = 8 + sizeof_MEClientResponse"
definition sizeof_MEMarketUpdate :: nat where "sizeof_MEMarketUpdate = 1 + 8 + 4 + 1 + 8 + 4 + 8"
definition sizeof_MDPMarketUpdate :: nat where "sizeof_MDPMarketUpdate = 8 + sizeof_MEMarketUpdate"

lemmas sizeof_defs =
  sizeof_MEClientRequest_def sizeof_OMClientRequest_def sizeof_MEClientResponse_def
  sizeof_OMClientResponse_def sizeof_MEMarketUpdate_def sizeof_MDPMarketUpdate_def

end
