(* ===== verification/MEOrderBook.thy ===== *)
theory MEOrderBook
  imports BookView Messages
begin

text \<open>
  \<^verbatim>\<open>exchange/matcher/me_order.h\<close>, \<^verbatim>\<open>exchange/matcher/me_order_book.h\<close> and
  \<^verbatim>\<open>exchange/matcher/me_order_book.cpp\<close>: the limit order book of one ticker. The list operations are
  those of the theory BookCore at the place \<open>(client_id, client_order_id)\<close> of an order; this theory adds
  \<open>getNextPriority\<close>, \<open>match\<close>, \<open>checkForMatch\<close>, \<open>add\<close> and \<open>cancel\<close>.
  What the book sends to the matching engine is the list of events it returns.
\<close>

section \<open>Data\<close>

record MEOrder = order_node +
  mo_ticker_id :: TickerId
  mo_client_id :: ClientId
  mo_client_order_id :: OrderId
  mo_market_order_id :: OrderId

definition MEOrder_default :: MEOrder where
  "MEOrder_default =
     \<lparr> on_side = Side_INVALID, on_price = Price_INVALID, on_qty = Qty_INVALID, on_priority = Priority_INVALID,
       on_prev = None, on_next = None, mo_ticker_id = TickerId_INVALID, mo_client_id = ClientId_INVALID,
       mo_client_order_id = OrderId_INVALID, mo_market_order_id = OrderId_INVALID \<rparr>"

definition MEOrder_new :: "TickerId \<Rightarrow> ClientId \<Rightarrow> OrderId \<Rightarrow> OrderId \<Rightarrow> Side \<Rightarrow> Price \<Rightarrow> Qty \<Rightarrow> Priority \<Rightarrow>
    ptr \<Rightarrow> ptr \<Rightarrow> MEOrder" where
  "MEOrder_new ticker_id client_id client_order_id market_order_id side price qty priority prev next =
     \<lparr> on_side = side, on_price = price, on_qty = qty, on_priority = priority, on_prev = prev, on_next = next,
       mo_ticker_id = ticker_id, mo_client_id = client_id, mo_client_order_id = client_order_id,
       mo_market_order_id = market_order_id \<rparr>"

type_synonym me_key = "nat \<times> nat"
type_synonym me_book = "(me_key, unit MEOrder_ext) book"

text \<open>\<open>cid_oid_to_order_.at(client_id).at(client_order_id)\<close>: both lookups are checked.\<close>

definition me_slot :: "MEOrder \<Rightarrow> me_key result" where
  "me_slot order =
     bindR (at ME_MAX_NUM_CLIENTS (unat (mo_client_id order))) (\<lambda>c.
     bindR (at ME_MAX_ORDER_IDS (unat (mo_client_order_id order))) (\<lambda>i. Inr (c, i)))"

record MEOrderBook =
  ob_ticker_id :: TickerId
  ob_book :: me_book
  ob_next_market_order_id :: OrderId

text \<open>
  The constructor leaves the two arrays of pointers as it finds them: they have no initialiser. Their
  contents are a parameter.
\<close>

definition MEOrderBook_new :: "TickerId \<Rightarrow> (me_key \<Rightarrow> ptr) \<Rightarrow> (nat \<Rightarrow> ptr) \<Rightarrow> MEOrderBook" where
  "MEOrderBook_new ticker_id ids levels =
     \<lparr> ob_ticker_id = ticker_id,
       ob_book = book_new ME_MAX_PRICE_LEVELS ME_MAX_ORDER_IDS MEOrder_default ids levels,
       ob_next_market_order_id = 1 \<rparr>"

text \<open>What the book hands to \<open>sendClientResponse\<close> and \<open>sendMarketUpdate\<close>, in the order of the calls.\<close>

datatype event = Response MEClientResponse | Update MEMarketUpdate

section \<open>Operations\<close>

definition generateNewMarketOrderId :: "MEOrderBook \<Rightarrow> OrderId \<times> MEOrderBook" where
  "generateNewMarketOrderId m =
     (ob_next_market_order_id m, m\<lparr> ob_next_market_order_id := ob_next_market_order_id m + 1 \<rparr>)"

definition getNextPriority :: "me_book \<Rightarrow> Price \<Rightarrow> Priority result" where
  "getNextPriority b price =
     (case getOrdersAtPrice b price of
        None \<Rightarrow> Inr 1
      | Some l \<Rightarrow>
          bindR (deref (bk_orders b) (lv_first (LV b l))) (\<lambda>f.
          bindR (deref (bk_orders b) (on_prev f)) (\<lambda>t.
          Inr (on_priority t + 1))))"

text \<open>One fill of the aggressor against the passive order at block \<open>p\<close>.\<close>

definition match_order :: "TickerId \<Rightarrow> ClientId \<Rightarrow> Side \<Rightarrow> OrderId \<Rightarrow> OrderId \<Rightarrow> me_book \<Rightarrow> nat \<Rightarrow> Qty \<Rightarrow>
    (me_book \<times> Qty \<times> event list) result" where
  "match_order ticker_id client_id side client_order_id new_market_order_id b p leaves_qty =
     (let order_qty = on_qty (ON b p);
          fill_qty = min leaves_qty order_qty;
          leaves = leaves_qty - fill_qty;
          b1 = b\<lparr> bk_orders := modify (bk_orders b) p (on_qty_update (\<lambda>q. q - fill_qty)) \<rparr>;
          passive = ON b1 p;
          to_aggressor = Response
            \<lparr> rsp_type = FILLED, rsp_client_id = client_id, rsp_ticker_id = ticker_id,
              rsp_client_order_id = client_order_id, rsp_market_order_id = new_market_order_id, rsp_side = side,
              rsp_price = on_price passive, rsp_exec_qty = fill_qty, rsp_leaves_qty = leaves \<rparr>;
          to_passive = Response
            \<lparr> rsp_type = FILLED, rsp_client_id = mo_client_id passive, rsp_ticker_id = ticker_id,
              rsp_client_order_id = mo_client_order_id passive,
              rsp_market_order_id = mo_market_order_id passive, rsp_side = on_side passive,
              rsp_price = on_price passive, rsp_exec_qty = fill_qty, rsp_leaves_qty = on_qty passive \<rparr>;
          trade = Update
            \<lparr> mu_type = TRADE, mu_order_id = OrderId_INVALID, mu_ticker_id = ticker_id, mu_side = side,
              mu_price = on_price passive, mu_qty = fill_qty, mu_priority = Priority_INVALID \<rparr>
      in
      if on_qty passive = 0 then
        (let upd = Update
               \<lparr> mu_type = Upd_CANCEL, mu_order_id = mo_market_order_id passive, mu_ticker_id = ticker_id,
                 mu_side = on_side passive, mu_price = on_price passive, mu_qty = order_qty,
                 mu_priority = Priority_INVALID \<rparr>
         in bindR (removeOrder me_slot b1 (Some p)) (\<lambda>b2.
            Inr (b2, leaves, [to_aggressor, to_passive, trade, upd])))
      else
        (let upd = Update
               \<lparr> mu_type = MODIFY, mu_order_id = mo_market_order_id passive, mu_ticker_id = ticker_id,
                 mu_side = on_side passive, mu_price = on_price passive, mu_qty = on_qty passive,
                 mu_priority = on_priority passive \<rparr>
         in Inr (b1, leaves, [to_aggressor, to_passive, trade, upd])))"

text \<open>
  The two \<open>while\<close> loops of \<open>checkForMatch\<close>: against the asks for a buy, against the bids for a
  sell. \<open>no_more_crosses\<close> is the \<open>break\<close> condition.
\<close>

definition no_more_crosses :: "Side \<Rightarrow> Price \<Rightarrow> Price \<Rightarrow> bool" where
  "no_more_crosses side price best_price = (if side = BUY then price < best_price else price > best_price)"

fun match_loop :: "nat \<Rightarrow> TickerId \<Rightarrow> ClientId \<Rightarrow> Side \<Rightarrow> OrderId \<Rightarrow> OrderId \<Rightarrow> Price \<Rightarrow> me_book \<Rightarrow> Qty \<Rightarrow>
    (me_book \<times> Qty \<times> event list) result" where
  "match_loop fuel ticker_id client_id side client_order_id new_market_order_id price b leaves_qty =
     (case best_of (opp side) b of
        None \<Rightarrow> Inr (b, leaves_qty, [])
      | Some l \<Rightarrow>
          if leaves_qty = 0 then Inr (b, leaves_qty, [])
          else
            (case fuel of
               0 \<Rightarrow> Inl OutOfFuel
             | Suc fuel' \<Rightarrow>
                 bindR (deref (bk_orders b) (lv_first (LV b l))) (\<lambda>best.
                 if no_more_crosses side price (on_price best) then Inr (b, leaves_qty, [])
                 else
                   bindR (match_order ticker_id client_id side client_order_id new_market_order_id b
                            (the (lv_first (LV b l))) leaves_qty) (\<lambda>(b1, leaves, evs).
                   bindR (match_loop fuel' ticker_id client_id side client_order_id new_market_order_id
                            price b1 leaves) (\<lambda>(b2, leaves', evs').
                   Inr (b2, leaves', evs @ evs'))))))"

declare match_loop.simps [simp del]

text \<open>
  The parameter \<open>new_market_order_id\<close> of \<open>checkForMatch\<close> has the type \<open>Qty\<close>: the id loses its upper
  half on the way in. Each round of a loop removes an order or uses up the quantity, so the
  size of the order pool bounds the number of rounds.
\<close>

definition checkForMatch :: "MEOrderBook \<Rightarrow> ClientId \<Rightarrow> OrderId \<Rightarrow> TickerId \<Rightarrow> Side \<Rightarrow> Price \<Rightarrow> Qty \<Rightarrow> Qty \<Rightarrow>
    (MEOrderBook \<times> Qty \<times> event list) result" where
  "checkForMatch m client_id client_order_id ticker_id side price qty new_market_order_id =
     (if side = BUY \<or> side = SELL then
        bindR (match_loop (Suc (pool_size (bk_orders (ob_book m)))) ticker_id client_id side client_order_id
                 (ucast new_market_order_id) price (ob_book m) qty) (\<lambda>(b, leaves, evs).
        Inr (m\<lparr> ob_book := b \<rparr>, leaves, evs))
      else Inr (m, qty, []))"

definition ob_add :: "MEOrderBook \<Rightarrow> ClientId \<Rightarrow> OrderId \<Rightarrow> TickerId \<Rightarrow> Side \<Rightarrow> Price \<Rightarrow> Qty \<Rightarrow>
    (MEOrderBook \<times> event list) result" where
  "ob_add m client_id client_order_id ticker_id side price qty =
     (let (new_market_order_id, m1) = generateNewMarketOrderId m;
          accepted = Response
            \<lparr> rsp_type = ACCEPTED, rsp_client_id = client_id, rsp_ticker_id = ticker_id,
              rsp_client_order_id = client_order_id, rsp_market_order_id = new_market_order_id, rsp_side = side,
              rsp_price = price, rsp_exec_qty = 0, rsp_leaves_qty = qty \<rparr>
      in
      bindR (checkForMatch m1 client_id client_order_id ticker_id side price qty (ucast new_market_order_id))
        (\<lambda>(m2, leaves_qty, evs).
      if leaves_qty \<noteq> 0 then
        bindR (getNextPriority (ob_book m2) price) (\<lambda>priority.
        bindR (allocate (bk_orders (ob_book m2))
                 (MEOrder_new ticker_id client_id client_order_id new_market_order_id side price leaves_qty
                    priority None None)) (\<lambda>(order, R).
        bindR (addOrder me_slot ((ob_book m2)\<lparr> bk_orders := R \<rparr>) order) (\<lambda>b.
        Inr (m2\<lparr> ob_book := b \<rparr>,
             accepted # evs @
             [Update \<lparr> mu_type = ADD, mu_order_id = new_market_order_id, mu_ticker_id = ticker_id,
                mu_side = side, mu_price = price, mu_qty = leaves_qty, mu_priority = priority \<rparr>]))))
      else Inr (m2, accepted # evs)))"

definition ob_cancel :: "MEOrderBook \<Rightarrow> ClientId \<Rightarrow> OrderId \<Rightarrow> TickerId \<Rightarrow> (MEOrderBook \<times> event list) result" where
  "ob_cancel m client_id order_id ticker_id =
     bindR (if unat client_id < ME_MAX_NUM_CLIENTS
            then bindR (at ME_MAX_ORDER_IDS (unat order_id)) (\<lambda>i. Inr (bk_index (ob_book m) (unat client_id, i)))
            else Inr None) (\<lambda>exchange_order.
     case exchange_order of
       None \<Rightarrow>
         Inr (m, [Response
           \<lparr> rsp_type = CANCEL_REJECTED, rsp_client_id = client_id, rsp_ticker_id = ticker_id,
             rsp_client_order_id = order_id, rsp_market_order_id = OrderId_INVALID, rsp_side = Side_INVALID,
             rsp_price = Price_INVALID, rsp_exec_qty = Qty_INVALID, rsp_leaves_qty = Qty_INVALID \<rparr>])
     | Some p \<Rightarrow>
         (let order = ON (ob_book m) p;
              rsp = Response
                \<lparr> rsp_type = CANCELED, rsp_client_id = client_id, rsp_ticker_id = ticker_id,
                  rsp_client_order_id = order_id, rsp_market_order_id = mo_market_order_id order,
                  rsp_side = on_side order, rsp_price = on_price order, rsp_exec_qty = Qty_INVALID,
                  rsp_leaves_qty = on_qty order \<rparr>;
              upd = Update
                \<lparr> mu_type = Upd_CANCEL, mu_order_id = mo_market_order_id order, mu_ticker_id = ticker_id,
                  mu_side = on_side order, mu_price = on_price order, mu_qty = 0,
                  mu_priority = on_priority order \<rparr>
          in bindR (removeOrder me_slot (ob_book m) (Some p)) (\<lambda>b.
             Inr (m\<lparr> ob_book := b \<rparr>, [upd, rsp]))))"

end
