(* ===== verification/MEMatching.thy ===== *)
theory MEMatching
  imports MEOrderBook
begin

text \<open>
  Price-time matching. \<open>fill_side\<close> is the abstract matching algorithm on the levels of the opposite side: take
  the orders best price first and oldest first while the price crosses and quantity is left. The
  pointer-level loop \<open>match_loop\<close> computes exactly this, sends exactly the messages of its fills, and ends.
\<close>

interpretation me: keyed_orders me_slot
  by unfold_locales (simp_all add: me_slot_def unlinked_def)

lemma mo_unlinked [simp]:
  "mo_ticker_id (unlinked n) = mo_ticker_id n" "mo_client_id (unlinked n) = mo_client_id n"
  "mo_client_order_id (unlinked n) = mo_client_order_id n" "mo_market_order_id (unlinked n) = mo_market_order_id n"
  by (simp_all add: unlinked_def)

section \<open>The abstract algorithm\<close>

text \<open>A fill: the passive order as it was, the quantity, what is left of the aggressor afterwards.\<close>

type_synonym fill = "MEOrder \<times> Qty \<times> Qty"

fun fill_side :: "Side \<Rightarrow> Price \<Rightarrow> Qty \<Rightarrow> MEOrder side_view \<Rightarrow> fill list \<times> Qty \<times> MEOrder side_view" where
  "fill_side side price leaves [] = ([], leaves, [])"
| "fill_side side price leaves ((q, []) # W) = fill_side side price leaves W"
| "fill_side side price leaves ((q, v # vs) # W) =
     (if leaves = 0 \<or> no_more_crosses side price q then ([], leaves, (q, v # vs) # W)
      else
        (let f = min leaves (on_qty v) in
         if on_qty v - f = 0 then
           (let (fs, l, W') = fill_side side price (leaves - f) ((q, vs) # W) in ((v, f, leaves - f) # fs, l, W'))
         else ([(v, f, leaves - f)], leaves - f, (q, v\<lparr> on_qty := on_qty v - f \<rparr> # vs) # W)))"

text \<open>The four messages of a fill: private to both parties, public trade, public change of the book.\<close>

definition fill_events :: "TickerId \<Rightarrow> ClientId \<Rightarrow> Side \<Rightarrow> OrderId \<Rightarrow> OrderId \<Rightarrow> fill \<Rightarrow> event list" where
  "fill_events t c side co mo = (\<lambda>(v, f, leaves).
     [Response \<lparr> rsp_type = FILLED, rsp_client_id = c, rsp_ticker_id = t, rsp_client_order_id = co,
        rsp_market_order_id = mo, rsp_side = side, rsp_price = on_price v, rsp_exec_qty = f, rsp_leaves_qty = leaves \<rparr>,
      Response \<lparr> rsp_type = FILLED, rsp_client_id = mo_client_id v, rsp_ticker_id = t,
        rsp_client_order_id = mo_client_order_id v, rsp_market_order_id = mo_market_order_id v, rsp_side = on_side v,
        rsp_price = on_price v, rsp_exec_qty = f, rsp_leaves_qty = on_qty v - f \<rparr>,
      Update \<lparr> mu_type = TRADE, mu_order_id = OrderId_INVALID, mu_ticker_id = t, mu_side = side,
        mu_price = on_price v, mu_qty = f, mu_priority = Priority_INVALID \<rparr>,
      Update (if on_qty v - f = 0
        then \<lparr> mu_type = Upd_CANCEL, mu_order_id = mo_market_order_id v, mu_ticker_id = t, mu_side = on_side v,
               mu_price = on_price v, mu_qty = on_qty v, mu_priority = Priority_INVALID \<rparr>
        else \<lparr> mu_type = MODIFY, mu_order_id = mo_market_order_id v, mu_ticker_id = t, mu_side = on_side v,
               mu_price = on_price v, mu_qty = on_qty v - f, mu_priority = on_priority v \<rparr>)])"

section \<open>One fill\<close>

text \<open>Changing or deleting the first order of the best level.\<close>

lemma view_head_key:
  assumes "half_view me_slot b s ((q, v # vs) # W) V" and "me_slot v = Inr k"
  shows "\<And>w. w \<in> set vs \<union> set (view_orders W) \<Longrightarrow> me_slot w \<noteq> Inr k" and "\<And>w. w \<in> set (view_orders W) \<Longrightarrow> me_slot w \<noteq> Inr k"
  using me.view_keys_distinct[OF assms(1)] assms(2) by (fastforce simp: image_iff)+

lemma view_update_head:
  assumes "half_view me_slot b s ((q, v # vs) # W) V" and "me_slot v = Inr k"
  shows "view_update (\<lambda>w. me_slot w = Inr k) g ((q, v # vs) # W) = (q, g v # vs) # W"
proof -
  have "map (\<lambda>w. if me_slot w = Inr k then g w else w) vs = vs"
    using view_head_key(1)[OF assms] by (intro map_idI) auto
  moreover have "view_update (\<lambda>w. me_slot w = Inr k) g W = W"
    by (rule view_update_id) (use view_head_key(2)[OF assms] in blast)
  ultimately show ?thesis using assms(2) by simp
qed

lemma view_delete_head:
  assumes "half_view me_slot b s ((q, v # vs) # W) V" and "me_slot v = Inr k"
  shows "view_delete (\<lambda>w. me_slot w = Inr k) ((q, v # vs) # W) = (if vs = [] then W else (q, vs) # W)"
proof -
  have "filter (\<lambda>w. me_slot w \<noteq> Inr k) vs = vs"
    using view_head_key(1)[OF assms] by (intro filter_True) auto
  moreover have "view_delete (\<lambda>w. me_slot w = Inr k) W = W"
    by (rule view_delete_id)
       (use view_head_key(2)[OF assms] half_view_sides(1)[OF assms(1)] in \<open>auto simp: side_view_ok_def\<close>)
  ultimately show ?thesis using assms(2) by (simp add: Let_def)
qed

lemma match_order_ok:
  assumes view: "half_view me_slot b s ((q, v # vs) # W) V" and s: "s = BUY \<or> s = SELL"
    and i: "unlinked (ON b i) = v" "me_slot (ON b i) = Inr k" "bk_index b k = Some i"
    and f_def: "f = min leaves (on_qty v)"
  shows "\<exists>b'. match_order t c side co mo b i leaves = Inr (b', leaves - f, fill_events t c side co mo (v, f, leaves - f))
     \<and> half_view me_slot b' s
         (if on_qty v - f = 0 then (if vs = [] then W else (q, vs) # W)
          else (q, v\<lparr> on_qty := on_qty v - f \<rparr> # vs) # W) V
     \<and> pool_size (bk_levels b') = pool_size (bk_levels b) \<and> pool_size (bk_orders b') = pool_size (bk_orders b)"
proof -
  define b1 where "b1 = b\<lparr> bk_orders := modify (bk_orders b) i (on_qty_update (\<lambda>q. q - f)) \<rparr>"
  let ?v' = "on_qty_update (\<lambda>q. q - f) v"
  have v'_eq: "?v' = v\<lparr> on_qty := on_qty v - f \<rparr>" by simp
  have kv: "me_slot v = Inr k" and kv': "me_slot ?v' = Inr k"
    using i me.slot_unlinked[of "ON b i"] me.slot_qty[of "on_qty v - f" v] by (simp_all add: v'_eq)
  have sv: "on_side (ON b i) = s"
    using half_view_sides(1)[OF view] i(1) by (auto simp: side_view_ok_def)
  have view1: "half_view me_slot b1 s ((q, ?v' # vs) # W) V"
    using me.view_set_qty[OF view s i(3) sv, of "\<lambda>q. q - f"] view_update_head[OF view kv] by (simp add: b1_def)
  have i1: "bk_index b1 k = Some i" "on_side (ON b1 i) = s" using i(3) sv by (simp_all add: b1_def)
  obtain b2 where b2: "removeOrder me_slot b1 (Some i) = Inr b2"
      "half_view me_slot b2 s (if vs = [] then W else (q, vs) # W) V"
      "pool_size (bk_levels b2) = pool_size (bk_levels b1)" "pool_size (bk_orders b2) = pool_size (bk_orders b1)"
    using me.view_remove[OF view1 s i1] view_delete_head[OF view1 kv'] by auto
  have fields: "on_qty (ON b i) = on_qty v" "on_price (ON b i) = on_price v" "on_priority (ON b i) = on_priority v"
      "mo_client_id (ON b i) = mo_client_id v" "mo_client_order_id (ON b i) = mo_client_order_id v"
      "mo_market_order_id (ON b i) = mo_market_order_id v" "on_side (ON b i) = on_side v"
    by (simp_all flip: i(1))
  show ?thesis
  proof (cases "on_qty v - f = 0")
    case True
    then show ?thesis
      using b2 fields by (simp add: match_order_def Let_def f_def b1_def fill_events_def)
  next
    case False
    then show ?thesis
      using view1[unfolded v'_eq] fields by (simp add: match_order_def Let_def f_def b1_def fill_events_def)
  qed
qed

section \<open>The loop\<close>

lemma fill_side_drop: "fill_side side price leaves (if vs = [] then W else (q, vs) # W) = fill_side side price leaves ((q, vs) # W)"
  by simp

lemma opp_sides: "side = BUY \<or> side = SELL \<Longrightarrow> opp side = BUY \<or> opp side = SELL"
  by auto

lemma fill_side_full:
  assumes "\<not> (leaves = 0 \<or> no_more_crosses side price q)" and "f = min leaves (on_qty v)" and "on_qty v - f = 0"
  shows "fill_side side price leaves ((q, v # vs) # W)
    = (case fill_side side price (leaves - f) ((q, vs) # W) of (fs, l, W') \<Rightarrow> ((v, f, leaves - f) # fs, l, W'))"
  using assms by (auto simp: Let_def)

lemma fill_side_partial:
  assumes "\<not> (leaves = 0 \<or> no_more_crosses side price q)" and "f = min leaves (on_qty v)" and "on_qty v - f \<noteq> 0"
  shows "fill_side side price leaves ((q, v # vs) # W)
    = ([(v, f, leaves - f)], leaves - f, (q, v\<lparr> on_qty := on_qty v - f \<rparr> # vs) # W)"
  using assms by (auto simp: Let_def)

lemma match_loop_0: "match_loop fuel t c side co mo price b 0 = Inr (b, 0, [])"
  by (simp add: match_loop.simps split: option.splits)

text \<open>
  The refinement: enough fuel is one more than the number of orders on the opposite side.
\<close>

lemma match_loop_refines:
  assumes "half_view me_slot b (opp side) W V" and "side = BUY \<or> side = SELL"
    and "length (view_orders W) < fuel"
  shows "\<exists>b'. match_loop fuel t c side co mo price b leaves
       = Inr (b', fst (snd (fill_side side price leaves W)),
              concat (map (fill_events t c side co mo) (fst (fill_side side price leaves W))))
     \<and> half_view me_slot b' (opp side) (snd (snd (fill_side side price leaves W))) V
     \<and> pool_size (bk_levels b') = pool_size (bk_levels b) \<and> pool_size (bk_orders b') = pool_size (bk_orders b)"
  using assms
proof (induction fuel arbitrary: b leaves W)
  case (Suc fuel)
  note s = opp_sides[OF Suc.prems(2)]
  have ne: "vs \<noteq> []" if "(q, vs) \<in> set W" for q vs
    using half_view_sides(1)[OF Suc.prems(1)] that by (auto simp: side_view_ok_def)
  show ?case
  proof (cases W)
    case Nil
    then show ?thesis
      using half_view_empty[of me_slot b "opp side" V] Suc.prems(1) by (auto simp: match_loop.simps)
  next
    case (Cons x W1)
    obtain q v vs where x: "x = (q, v # vs)" using ne Cons by (metis list.set_intros(1) neq_Nil_conv surj_pair)
    note view = Suc.prems(1)[unfolded Cons x]
    obtain l i k where li: "best_of (opp side) b = Some l" "lv_price (LV b l) = q" "lv_first (LV b l) = Some i"
        "unlinked (ON b i) = v" "me_slot (ON b i) = Inr k" "bk_index b k = Some i"
      using half_view_best[OF view] by blast
    have price_v: "on_price (ON b i) = q"
      using half_view_sides(1)[OF view] li(4) unlinked_frame(2)[of "ON b i"] by (auto simp: side_view_ok_def)
    show ?thesis
    proof (cases "leaves = 0 \<or> no_more_crosses side price q")
      case True
      then have "match_loop (Suc fuel) t c side co mo price b leaves = Inr (b, leaves, [])"
        using li(1,3) price_v by (auto simp: match_loop.simps[of "Suc fuel"])
      then show ?thesis using True view by (auto simp: Cons x)
    next
      case False
      define f where "f = min leaves (on_qty v)"
      obtain b1 where b1: "match_order t c side co mo b i leaves
            = Inr (b1, leaves - f, fill_events t c side co mo (v, f, leaves - f))"
          "half_view me_slot b1 (opp side) (if on_qty v - f = 0 then (if vs = [] then W1 else (q, vs) # W1)
              else (q, v\<lparr> on_qty := on_qty v - f \<rparr> # vs) # W1) V"
          "pool_size (bk_levels b1) = pool_size (bk_levels b)" "pool_size (bk_orders b1) = pool_size (bk_orders b)"
        using match_order_ok[OF view s li(4,5,6) f_def] by blast
      have step: "match_loop (Suc fuel) t c side co mo price b leaves =
          bindR (match_loop fuel t c side co mo price b1 (leaves - f)) (\<lambda>(b2, l2, evs').
            Inr (b2, l2, fill_events t c side co mo (v, f, leaves - f) @ evs'))"
        using False li(1,3) price_v b1(1) by (simp add: match_loop.simps[of "Suc fuel"])
      show ?thesis
      proof (cases "on_qty v - f = 0")
        case True
        let ?W = "if vs = [] then W1 else (q, vs) # W1"
        have "length (view_orders ?W) < fuel" using Suc.prems(3) Cons x by auto
        then obtain b2 where "match_loop fuel t c side co mo price b1 (leaves - f)
             = Inr (b2, fst (snd (fill_side side price (leaves - f) ?W)),
                concat (map (fill_events t c side co mo) (fst (fill_side side price (leaves - f) ?W))))"
            "half_view me_slot b2 (opp side) (snd (snd (fill_side side price (leaves - f) ?W))) V"
            "pool_size (bk_levels b2) = pool_size (bk_levels b1)" "pool_size (bk_orders b2) = pool_size (bk_orders b1)"
          using Suc.IH[of b1 ?W "leaves - f"] b1(2) True Suc.prems(2) by auto
        then show ?thesis
          using step b1(3,4) unfolding fill_side_drop Cons x fill_side_full[OF False f_def True]
          by (simp add: split_beta)
      next
        case False2: False
        then have "leaves - f = 0" using f_def by (auto simp: min_def split: if_splits)
        then show ?thesis
          using step b1 False2 match_loop_0 unfolding Cons x fill_side_partial[OF False f_def False2]
          by simp
      qed
    qed
  qed
qed simp

end
