(* ===== verification/MEBookSpec.thy ===== *)
theory MEBookSpec
  imports MEMatching
begin

text \<open>
  What the exchange's book promises: \<open>spec_add\<close> and \<open>spec_cancel\<close> on the abstract book, and
  that \<open>ob_add\<close> and \<open>ob_cancel\<close> compute them. Laws of the abstract algorithm follow: quantity is conserved, fills
  happen in price-time order, only at crossing prices, and nothing crosses afterwards.
\<close>

section \<open>Laws of the abstract matching\<close>

abbreviation fills_of :: "fill list \<times> Qty \<times> MEOrder side_view \<Rightarrow> fill list" where
  "fills_of r \<equiv> fst r"
abbreviation left_of :: "fill list \<times> Qty \<times> MEOrder side_view \<Rightarrow> Qty" where
  "left_of r \<equiv> fst (snd r)"
abbreviation rest_of :: "fill list \<times> Qty \<times> MEOrder side_view \<Rightarrow> MEOrder side_view" where
  "rest_of r \<equiv> snd (snd r)"

definition fill_qty :: "fill \<Rightarrow> nat" where "fill_qty x = unat (fst (snd x))"
definition total_qty :: "MEOrder list \<Rightarrow> nat" where "total_qty vs = sum_list (map (\<lambda>v. unat (on_qty v)) vs)"

lemma fill_qty_simp [simp]: "fill_qty (v, f, l) = unat f"
  by (simp add: fill_qty_def)

lemma unat_minus_min:
  "unat (a - min a b) = unat a - min (unat a) (unat (b :: 'a::len word))"
  by (simp add: min_def unat_sub word_le_nat_alt)

lemma unat_minus_min2:
  "unat (b - min a b) = unat b - min (unat a) (unat (b :: 'a::len word))"
  by (auto simp: min_def unat_sub word_le_nat_alt)

lemma unat_min: "unat (min a b) = min (unat a) (unat (b :: 'a::len word))"
  by (auto simp: min_def word_le_nat_alt)

text \<open>What the aggressor gets and keeps adds up, and so does what the resting orders give and keep.\<close>

lemma fill_side_conserves:
  "unat qty = sum_list (map fill_qty (fills_of (fill_side side price qty W))) + unat (left_of (fill_side side price qty W))"
proof (induction side price qty W rule: fill_side.induct)
  case (3 side price leaves q v vs W)
  define f where "f = min leaves (on_qty v)"
  consider "leaves = 0 \<or> no_more_crosses side price q"
    | "\<not> (leaves = 0 \<or> no_more_crosses side price q)" "on_qty v - f = 0"
    | "\<not> (leaves = 0 \<or> no_more_crosses side price q)" "on_qty v - f \<noteq> 0" by blast
  then show ?case
  proof cases
    case 2
    with 3[OF 2(1) f_def] have "unat (leaves - f) = sum_list (map fill_qty (fills_of (fill_side side price (leaves - f) ((q, vs) # W))))
        + unat (left_of (fill_side side price (leaves - f) ((q, vs) # W)))" by simp
    moreover have "unat leaves = unat f + unat (leaves - f)"
      using unat_minus_min[of leaves "on_qty v"] unat_min[of leaves "on_qty v"] by (simp add: f_def)
    ultimately show ?thesis
      unfolding fill_side_full[OF 2(1) f_def 2(2)] by (simp add: split_beta)
  next
    case 3
    have "unat leaves = unat f + unat (leaves - f)"
      using unat_minus_min[of leaves "on_qty v"] unat_min[of leaves "on_qty v"] by (simp add: f_def)
    then show ?thesis unfolding fill_side_partial[OF 3(1) f_def 3(2)] by simp
  qed auto
qed simp_all

lemma fill_side_passive_conserves:
  "total_qty (view_orders W) = sum_list (map fill_qty (fills_of (fill_side side price qty W)))
     + total_qty (view_orders (rest_of (fill_side side price qty W)))"
proof (induction side price qty W rule: fill_side.induct)
  case (3 side price leaves q v vs W)
  define f where "f = min leaves (on_qty v)"
  have split: "unat (on_qty v) = unat f + unat (on_qty v - f)"
    using unat_minus_min2[of "on_qty v" leaves] unat_min[of leaves "on_qty v"] by (simp add: f_def)
  consider "leaves = 0 \<or> no_more_crosses side price q"
    | "\<not> (leaves = 0 \<or> no_more_crosses side price q)" "on_qty v - f = 0"
    | "\<not> (leaves = 0 \<or> no_more_crosses side price q)" "on_qty v - f \<noteq> 0" by blast
  then show ?case
  proof cases
    case 2
    then show ?thesis
      using 3[OF 2(1) f_def 2(2)] split unfolding fill_side_full[OF 2(1) f_def 2(2)]
      by (simp add: split_beta total_qty_def)
  next
    case 3
    then show ?thesis
      using split unfolding fill_side_partial[OF 3(1) f_def 3(2)] by (simp add: total_qty_def)
  qed auto
qed simp_all

text \<open>Price-time priority: the orders filled are the first ones of the side, in their order.\<close>

lemma fill_side_in_order:
  "map fst (fills_of (fill_side side price qty W)) = take (length (fills_of (fill_side side price qty W))) (view_orders W)"
proof (induction side price qty W rule: fill_side.induct)
  case (3 side price leaves q v vs W)
  then show ?case by (auto simp: Let_def split_beta)
qed simp_all

text \<open>Only crossing prices trade.\<close>

lemma fill_side_crosses:
  assumes "x \<in> set (fills_of (fill_side side price qty W))"
    and "\<And>q vs v. (q, vs) \<in> set W \<Longrightarrow> v \<in> set vs \<Longrightarrow> on_price v = q"
  shows "\<not> no_more_crosses side price (on_price (fst x))"
  using assms
proof (induction side price qty W rule: fill_side.induct)
  case (3 side price leaves q v vs W)
  define f where "f = min leaves (on_qty v)"
  have v: "on_price v = q" using 3(3)[of q "v # vs"] by simp
  consider "leaves = 0 \<or> no_more_crosses side price q"
    | "\<not> (leaves = 0 \<or> no_more_crosses side price q)" "on_qty v - f = 0"
    | "\<not> (leaves = 0 \<or> no_more_crosses side price q)" "on_qty v - f \<noteq> 0" by blast
  then show ?case
  proof cases
    case 2
    have "\<not> no_more_crosses side price (on_price (fst x))"
      if "x \<in> set (fills_of (fill_side side price (leaves - f) ((q, vs) # W)))"
      using 3(1)[OF 2(1) f_def 2(2) that] 3(3) by fastforce
    then show ?thesis
      using 3(2) v 2(1) unfolding fill_side_full[OF 2(1) f_def 2(2)] by (auto simp: split_beta)
  next
    case 3
    then show ?thesis
      using "3.prems"(1) v unfolding fill_side_partial[OF 3(1) f_def 3(2)] by auto
  qed (use "3.prems"(1) in auto)
qed auto

text \<open>
  The levels that remain satisfy whatever holds of the levels before and is kept when the first order
  of a level goes or loses quantity.
\<close>

lemma fill_side_levels:
  assumes "\<And>q vs. (q, vs) \<in> set W \<Longrightarrow> P q vs" and "\<And>q v vs. P q (v # vs) \<Longrightarrow> P q vs"
    and "\<And>q v vs n. P q (v # vs) \<Longrightarrow> n \<noteq> 0 \<Longrightarrow> n \<le> on_qty v \<Longrightarrow> P q (v\<lparr> on_qty := n \<rparr> # vs)"
    and "(q, vs) \<in> set (rest_of (fill_side side price qty W))"
  shows "P q vs"
  using assms
proof (induction side price qty W arbitrary: q vs rule: fill_side.induct)
  case (3 side price leaves q v vs W q' vs')
  define f where "f = min leaves (on_qty v)"
  consider "leaves = 0 \<or> no_more_crosses side price q"
    | "\<not> (leaves = 0 \<or> no_more_crosses side price q)" "on_qty v - f = 0"
    | "\<not> (leaves = 0 \<or> no_more_crosses side price q)" "on_qty v - f \<noteq> 0" by blast
  then show ?case
  proof cases
    case 2
    have "P p ws" if "(p, ws) \<in> set ((q, vs) # W)" for p ws
      using that "3.prems"(1)[of p ws] "3.prems"(1)[of q "v # vs"] "3.prems"(2)[of q v vs] by auto
    moreover have "(q', vs') \<in> set (rest_of (fill_side side price (leaves - f) ((q, vs) # W)))"
      using "3.prems"(4) unfolding fill_side_full[OF 2(1) f_def 2(2)] by (simp add: split_beta)
    ultimately show ?thesis using "3.IH"[OF 2(1) f_def 2(2)] "3.prems"(2,3) by blast
  next
    case 3
    have "on_qty v - f \<le> on_qty v" unfolding f_def by (simp add: word_le_nat_alt unat_minus_min2)
    then have "P q (v\<lparr> on_qty := on_qty v - f \<rparr> # vs)"
      using "3.prems"(1)[of q "v # vs"] "3.prems"(3) 3(2) by simp
    then show ?thesis
      using "3.prems"(1,4) unfolding fill_side_partial[OF 3(1) f_def 3(2)] by auto
  qed (use "3.prems"(1,4) in auto)
qed auto

text \<open>
  Up to quantity, the orders that remain are the last ones of the side: the fills took the first
  ones, and at most one order more was reduced.
\<close>

definition strip_qty :: "MEOrder \<Rightarrow> MEOrder" where "strip_qty v = v\<lparr> on_qty := 0 \<rparr>"

lemma strip_qty_frame [simp]:
  "me_slot (strip_qty v) = me_slot v" "mo_market_order_id (strip_qty v) = mo_market_order_id v"
  "on_priority (strip_qty v) = on_priority v" "strip_qty (v\<lparr> on_qty := n \<rparr>) = strip_qty v"
  by (simp_all add: strip_qty_def me_slot_def)

lemma fill_side_suffix:
  "\<exists>n. map strip_qty (view_orders (rest_of (fill_side side price qty W))) = drop n (map strip_qty (view_orders W))"
proof (induction side price qty W rule: fill_side.induct)
  case (3 side price leaves q v vs W)
  define f where "f = min leaves (on_qty v)"
  consider "leaves = 0 \<or> no_more_crosses side price q"
    | "\<not> (leaves = 0 \<or> no_more_crosses side price q)" "on_qty v - f = 0"
    | "\<not> (leaves = 0 \<or> no_more_crosses side price q)" "on_qty v - f \<noteq> 0" by blast
  then show ?case
  proof cases
    case 2
    obtain n where "map strip_qty (view_orders (rest_of (fill_side side price (leaves - f) ((q, vs) # W))))
        = drop n (map strip_qty (view_orders ((q, vs) # W)))" using 3[OF 2(1) f_def 2(2)] by blast
    then show ?thesis
      unfolding fill_side_full[OF 2(1) f_def 2(2)] by (intro exI[of _ "Suc n"]) (simp add: split_beta)
  next
    case 3
    then show ?thesis
      unfolding fill_side_partial[OF 3(1) f_def 3(2)] by (intro exI[of _ 0]) simp
  qed (auto intro: exI[of _ 0])
qed (auto intro: exI[of _ 0])

lemma fill_side_shrinks:
  "length (rest_of (fill_side side price qty W)) \<le> length W"
  "set (map fst (rest_of (fill_side side price qty W))) \<subseteq> set (map fst W)"
  by (induction side price qty W rule: fill_side.induct) (auto simp: Let_def split_beta split: if_splits)

text \<open>When quantity is left, the best remaining price no longer crosses.\<close>

lemma fill_side_head:
  assumes "left_of (fill_side side price qty W) \<noteq> 0" and "rest_of (fill_side side price qty W) = (q, vs) # W'"
  shows "no_more_crosses side price q"
  using assms
proof (induction side price qty W rule: fill_side.induct)
  case (3 side price leaves q v vs W)
  have "on_qty v \<noteq> min leaves (on_qty v) \<Longrightarrow> min leaves (on_qty v) = leaves" by (auto simp: min_def)
  then show ?case using 3 by (auto simp: Let_def split_beta split: if_splits)
qed auto

lemma fill_side_uncrossed:
  assumes "left_of (fill_side side price qty W) \<noteq> 0" and "side = BUY \<or> side = SELL"
    and "sorted_wrt (better (opp side)) (map fst (rest_of (fill_side side price qty W)))"
    and "q \<in> set (map fst (rest_of (fill_side side price qty W)))"
  shows "no_more_crosses side price q"
proof (cases "rest_of (fill_side side price qty W)")
  case (Cons x W')
  then have "no_more_crosses side price (fst x)" using fill_side_head assms(1) by (metis prod.collapse)
  moreover have "q = fst x \<or> better (opp side) (fst x) q" using assms(3,4) Cons by auto
  ultimately show ?thesis using assms(2) by (auto simp: no_more_crosses_def better_def)
qed (use assms(4) in simp)

section \<open>The next priority\<close>

definition next_priority :: "MEOrder side_view \<Rightarrow> Price \<Rightarrow> Priority" where
  "next_priority V price = (case map_of V price of None \<Rightarrow> 1 | Some vs \<Rightarrow> on_priority (last vs) + 1)"

lemma sorted_better_distinct: "sorted_wrt (better side) ps \<Longrightarrow> distinct ps"
  by (induction ps) auto

lemma getNextPriority_view:
  assumes view: "half_view me_slot b side V W" and price: "price_in_window price" "price \<notin> set (map fst W)"
  shows "getNextPriority b price = Inr (next_priority V price)"
proof -
  obtain Ls Ms where rep: "half_rep me_slot b side Ls Ms" and V: "V = abs_side b Ls" "W = abs_side b Ms"
    using view by (auto simp: half_view_def)
  note rep' = rep[unfolded half_rep_def]
  show ?thesis
  proof (cases "getOrdersAtPrice b price")
    case None
    then have "lv_price (LV b l) \<noteq> price" if "l \<in> set (level_blocks Ls)" for l
      using getOrdersAtPrice_live[of b Ls Ms l] rep' that by (auto simp: live_levels_def)
    then have "map_of V price = None" by (fastforce simp: map_of_eq_None_iff V dest!: me.abs_side_prices)
    then show ?thesis using None by (simp add: getNextPriority_def next_priority_def)
  next
    case (Some l)
    then have l: "l \<in> live_levels Ls Ms" "lv_price (LV b l) = price"
      using getOrdersAtPrice_Some[OF _ price(1)] rep' by auto
    have "l \<notin> set (level_blocks Ms)"
    proof
      assume "l \<in> set (level_blocks Ms)"
      then have "price \<in> set (map fst W)" using level_price_in_view[of l Ms b] l(2) V(2) by simp
      then show False using price(2) by simp
    qed
    then obtain os where os: "(l, os) \<in> set Ls" using l(1) by (auto simp: live_levels_def level_blocks_def)
    then have lv: "level_ok b side (l, os)" using rep' by (auto simp: side_ok_def)
    then have ne: "os \<noteq> []" by (simp add: level_ok_def ring_def)
    have "opv b (hd os) = Some (last os)"
      using ring_prev_hd[of "onx b" "opv b" "hd os" "tl os"] lv ne by (simp add: level_ok_def)
    then have "getNextPriority b price = Inr (on_priority (ON b (last os)) + 1)"
      using Some lv by (simp add: getNextPriority_def level_ok_def opv_def)
    moreover have "map_of V price = Some (map (\<lambda>i. unlinked (ON b i)) os)"
    proof (rule map_of_is_SomeI)
      show "distinct (map fst V)" using half_view_sides(1)[OF view] sorted_better_distinct by (auto simp: side_view_ok_def)
      show "(price, map (\<lambda>i. unlinked (ON b i)) os) \<in> set V" using os l(2) by (force simp: V abs_side_def)
    qed
    ultimately show ?thesis using ne by (simp add: next_priority_def last_map)
  qed
qed

section \<open>The specification of add\<close>

text \<open>\<open>V\<close> holds the levels of the order's own side, \<open>W\<close> those of the other.\<close>

definition spec_add :: "OrderId \<Rightarrow> ClientId \<Rightarrow> OrderId \<Rightarrow> TickerId \<Rightarrow> Side \<Rightarrow> Price \<Rightarrow> Qty \<Rightarrow> MEOrder side_view \<Rightarrow>
    MEOrder side_view \<Rightarrow> MEOrder side_view \<times> MEOrder side_view \<times> event list" where
  "spec_add moid c co t side price qty V W =
     (let r = fill_side side price qty W;
          order = MEOrder_new t c co moid side price (left_of r) (next_priority V price) None None;
          accepted = Response
            \<lparr> rsp_type = ACCEPTED, rsp_client_id = c, rsp_ticker_id = t, rsp_client_order_id = co,
              rsp_market_order_id = moid, rsp_side = side, rsp_price = price, rsp_exec_qty = 0, rsp_leaves_qty = qty \<rparr>;
          fills = concat (map (fill_events t c side co (ucast (ucast moid :: Qty))) (fills_of r))
      in
      if left_of r = 0 then (V, rest_of r, accepted # fills)
      else (view_insert side price order V, rest_of r,
            accepted # fills @
            [Update \<lparr> mu_type = ADD, mu_order_id = moid, mu_ticker_id = t, mu_side = side, mu_price = price,
               mu_qty = left_of r, mu_priority = next_priority V price \<rparr>]))"

lemma has_room_shrinks:
  "has_room p \<Longrightarrow> pool_size p' = pool_size p \<Longrightarrow> card (in_use p') \<le> card (in_use p) \<Longrightarrow> has_room p'"
  by (simp add: has_room_def)

lemma fill_side_count: "length (view_orders (rest_of (fill_side side price qty W))) \<le> length (view_orders W)"
  using fill_side_suffix[of side price qty W] by (metis diff_le_self length_drop length_map)

lemma fill_side_keys:
  assumes "v \<in> set (view_orders (rest_of (fill_side side price qty W)))"
  shows "\<exists>w \<in> set (view_orders W). me_slot v = me_slot w"
proof -
  obtain n where "map strip_qty (view_orders (rest_of (fill_side side price qty W))) = drop n (map strip_qty (view_orders W))"
    using fill_side_suffix by blast
  then have "strip_qty v \<in> strip_qty ` set (view_orders W)"
    using assms by (metis in_set_dropD image_eqI list.set_map)
  then show ?thesis by (metis imageE strip_qty_frame(1))
qed

lemma ob_add_refines:
  assumes view: "half_view me_slot (ob_book m) side V W" and side: "side = BUY \<or> side = SELL"
    and price: "price_in_window price"
    and key: "unat c < ME_MAX_NUM_CLIENTS" "unat co < ME_MAX_ORDER_IDS" "bk_index (ob_book m) (unat c, unat co) = None"
    and room: "has_room (bk_levels (ob_book m))" "has_room (bk_orders (ob_book m))"
    and spec: "spec_add (ob_next_market_order_id m) c co t side price qty V W = (V', W', evs)"
  shows "\<exists>m'. ob_add m c co t side price qty = Inr (m', evs)
     \<and> half_view me_slot (ob_book m') side V' W'
     \<and> ob_next_market_order_id m' = ob_next_market_order_id m + 1 \<and> ob_ticker_id m' = ob_ticker_id m
     \<and> pool_size (bk_levels (ob_book m')) = pool_size (bk_levels (ob_book m))
     \<and> pool_size (bk_orders (ob_book m')) = pool_size (bk_orders (ob_book m))"
proof -
  let ?moid = "ob_next_market_order_id m" and ?b = "ob_book m" and ?r = "fill_side side price qty W"
  let ?mo = "ucast (ucast ?moid :: Qty) :: OrderId"
  have swap: "half_view me_slot ?b (opp side) W V" using view half_view_swap[OF side] by blast
  have "length (view_orders W) < Suc (pool_size (bk_orders ?b))"
    using half_view_counts(1)[OF view] room(2) by (simp add: has_room_def)
  then obtain b1 where b1: "match_loop (Suc (pool_size (bk_orders ?b))) t c side co ?mo price ?b qty
       = Inr (b1, left_of ?r, concat (map (fill_events t c side co ?mo) (fills_of ?r)))"
      "half_view me_slot b1 (opp side) (rest_of ?r) V"
      "pool_size (bk_levels b1) = pool_size (bk_levels ?b)" "pool_size (bk_orders b1) = pool_size (bk_orders ?b)"
    using match_loop_refines[OF swap side, of "Suc (pool_size (bk_orders ?b))"] by blast
  have view1: "half_view me_slot b1 side V (rest_of ?r)" using b1(2) half_view_swap[OF side] by blast
  define m1 where "m1 = m\<lparr> ob_book := b1, ob_next_market_order_id := ?moid + 1 \<rparr>"
  have run: "checkForMatch (m\<lparr> ob_next_market_order_id := ?moid + 1 \<rparr>) c co t side price qty (ucast ?moid)
      = Inr (m1, left_of ?r, concat (map (fill_events t c side co ?mo) (fills_of ?r)))"
    using b1(1) side by (auto simp: checkForMatch_def m1_def)
  show ?thesis
  proof (cases "left_of ?r = 0")
    case True
    then show ?thesis
      using spec run view1 b1(3,4) by (auto simp: ob_add_def generateNewMarketOrderId_def spec_add_def Let_def m1_def)
  next
    case False
    have sorted: "sorted_wrt (better (opp side)) (map fst (rest_of ?r))"
      using half_view_sides(2)[OF view1] by (simp add: side_view_ok_def)
    have apart: "price \<notin> set (map fst (rest_of ?r))"
      using fill_side_uncrossed[OF False side sorted, of price] by (auto simp: no_more_crosses_def split: if_splits)
    let ?order = "MEOrder_new t c co ?moid side price (left_of ?r) (next_priority V price) None None"
    have slot: "me_slot ?order = Inr (unat c, unat co)" using key by (simp add: me_slot_def MEOrder_new_def)
    have free: "bk_index b1 (unat c, unat co) = None"
    proof (rule ccontr)
      assume "bk_index b1 (unat c, unat co) \<noteq> None"
      then obtain i where "bk_index b1 (unat c, unat co) = Some i" by blast
      then have "me_slot (unlinked (ON b1 i)) = Inr (unat c, unat co)"
          "unlinked (ON b1 i) \<in> set (view_orders V) \<union> set (view_orders (rest_of ?r))"
        using me.view_lookup[OF view1] me.slot_unlinked by auto
      then obtain w where "w \<in> set (view_orders V) \<union> set (view_orders W)" "me_slot w = Inr (unat c, unat co)"
        using fill_side_keys by fastforce
      then show False using me.view_no_key[OF view key(3)] by blast
    qed
    have room1: "has_room (bk_levels b1)" "has_room (bk_orders b1)"
      using has_room_shrinks[OF room(1) b1(3)] has_room_shrinks[OF room(2) b1(4)]
        half_view_counts(1,2)[OF view] half_view_counts(1,2)[OF view1] fill_side_count[of side price qty W]
        fill_side_shrinks(1)[of side price qty W] by simp_all
    have "unlinked ?order = ?order" by (simp add: unlinked_def MEOrder_new_def)
    then obtain b2 where b2: "place_order me_slot b1 ?order = Inr b2"
        "half_view me_slot b2 side (view_insert side price ?order V) (rest_of ?r)"
        "pool_size (bk_levels b2) = pool_size (bk_levels b1)" "pool_size (bk_orders b2) = pool_size (bk_orders b1)"
      using me.view_place[OF view1 side _ slot free _ _ room1] price apart by (auto simp: MEOrder_new_def)
    have prio: "getNextPriority b1 price = Inr (next_priority V price)"
      by (rule getNextPriority_view[OF view1 price apart])
    have "ob_add m c co t side price qty = Inr (m1\<lparr> ob_book := b2 \<rparr>, evs)"
      using run False prio b2(1) spec
      by (auto simp: ob_add_def generateNewMarketOrderId_def spec_add_def Let_def m1_def place_order_def
          bindR_eq_Inr split_beta)
    then show ?thesis using spec b2 b1(3,4) False by (auto simp: spec_add_def Let_def m1_def)
  qed
qed

end
