(* ===== verification/MEBookInvariant.thy ===== *)
theory MEBookInvariant
  imports MEBookSpec
begin

text \<open>
  Cancelling, and the invariant of the exchange's book: the two sides never cross, every resting
  order has quantity, priorities grow along each queue, market order ids are unique and below the next one. Every
  request keeps it, and none can stop the process while the pools have room.
\<close>

section \<open>Cancelling\<close>

definition cancel_events :: "ClientId \<Rightarrow> OrderId \<Rightarrow> TickerId \<Rightarrow> MEOrder \<Rightarrow> event list" where
  "cancel_events c oid t v =
     [Update \<lparr> mu_type = Upd_CANCEL, mu_order_id = mo_market_order_id v, mu_ticker_id = t, mu_side = on_side v,
        mu_price = on_price v, mu_qty = 0, mu_priority = on_priority v \<rparr>,
      Response \<lparr> rsp_type = CANCELED, rsp_client_id = c, rsp_ticker_id = t, rsp_client_order_id = oid,
        rsp_market_order_id = mo_market_order_id v, rsp_side = on_side v, rsp_price = on_price v,
        rsp_exec_qty = Qty_INVALID, rsp_leaves_qty = on_qty v \<rparr>]"

definition reject_events :: "ClientId \<Rightarrow> OrderId \<Rightarrow> TickerId \<Rightarrow> event list" where
  "reject_events c oid t =
     [Response \<lparr> rsp_type = CANCEL_REJECTED, rsp_client_id = c, rsp_ticker_id = t, rsp_client_order_id = oid,
        rsp_market_order_id = OrderId_INVALID, rsp_side = Side_INVALID, rsp_price = Price_INVALID,
        rsp_exec_qty = Qty_INVALID, rsp_leaves_qty = Qty_INVALID \<rparr>]"

lemma me_slot_Inr: "me_slot v = Inr (i, j) \<Longrightarrow> i < ME_MAX_NUM_CLIENTS \<and> j < ME_MAX_ORDER_IDS
    \<and> i = unat (mo_client_id v) \<and> j = unat (mo_client_order_id v)"
  by (auto simp: me_slot_def result_simps)

lemma ob_cancel_hit:
  assumes view: "half_view me_slot (ob_book m) side V W" and side: "side = BUY \<or> side = SELL"
    and v: "v \<in> set (view_orders V)" "me_slot v = Inr (unat c, unat oid)"
  shows "\<exists>m'. ob_cancel m c oid t = Inr (m', cancel_events c oid t v)
     \<and> half_view me_slot (ob_book m') side (view_delete (\<lambda>w. me_slot w = Inr (unat c, unat oid)) V) W
     \<and> ob_next_market_order_id m' = ob_next_market_order_id m \<and> ob_ticker_id m' = ob_ticker_id m
     \<and> pool_size (bk_levels (ob_book m')) = pool_size (bk_levels (ob_book m))
     \<and> pool_size (bk_orders (ob_book m')) = pool_size (bk_orders (ob_book m))"
proof -
  let ?b = "ob_book m"
  obtain i where i: "bk_index ?b (unat c, unat oid) = Some i" "unlinked (ON ?b i) = v"
    using me.view_key[OF view, of v] v by auto
  have "on_side v = side"
    using v(1) half_view_sides(1)[OF view] by (auto simp: side_view_ok_def view_orders_def)
  then have si: "on_side (ON ?b i) = side" using i(2) by auto
  obtain b' where b': "removeOrder me_slot ?b (Some i) = Inr b'"
      "half_view me_slot b' side (view_delete (\<lambda>w. me_slot w = Inr (unat c, unat oid)) V) W"
      "pool_size (bk_levels b') = pool_size (bk_levels ?b)" "pool_size (bk_orders b') = pool_size (bk_orders ?b)"
    using me.view_remove[OF view side i(1) si] by blast
  have fields: "on_qty (ON ?b i) = on_qty v" "on_price (ON ?b i) = on_price v" "on_priority (ON ?b i) = on_priority v"
      "mo_market_order_id (ON ?b i) = mo_market_order_id v" "on_side (ON ?b i) = on_side v"
    by (simp_all flip: i(2))
  have "ob_cancel m c oid t = Inr (m\<lparr> ob_book := b' \<rparr>, cancel_events c oid t v)"
    using me_slot_Inr[OF v(2)] i(1) b'(1) fields by (simp add: ob_cancel_def cancel_events_def)
  then show ?thesis using b' by auto
qed

lemma ob_cancel_miss:
  assumes "half_view me_slot (ob_book m) side V W"
    and "\<And>v. v \<in> set (view_orders V) \<union> set (view_orders W) \<Longrightarrow> me_slot v \<noteq> Inr (unat c, unat oid)"
    and "unat c < ME_MAX_NUM_CLIENTS \<Longrightarrow> unat oid < ME_MAX_ORDER_IDS"
  shows "ob_cancel m c oid t = Inr (m, reject_events c oid t)"
proof -
  have "bk_index (ob_book m) (unat c, unat oid) = None"
    using me.view_lookup[OF assms(1)] assms(2) me.slot_unlinked by (metis not_None_eq)
  then show ?thesis using assms(3) by (simp add: ob_cancel_def reject_events_def)
qed

text \<open>An order id outside the array makes \<open>row.at(order_id)\<close> throw in a \<open>noexcept\<close> function.\<close>

lemma ob_cancel_big_id:
  "unat c < ME_MAX_NUM_CLIENTS \<Longrightarrow> ME_MAX_ORDER_IDS \<le> unat oid \<Longrightarrow> ob_cancel m c oid t = Inl OutOfRange"
  by (simp add: ob_cancel_def at_def)

section \<open>The invariant\<close>

text \<open>A queue: quantity left in every order, oldest first by priority.\<close>

definition queue_ok :: "MEOrder list \<Rightarrow> bool" where
  "queue_ok vs \<longleftrightarrow> (\<forall>v \<in> set vs. on_qty v \<noteq> 0) \<and> sorted_wrt (\<lambda>v w. on_priority v < on_priority w) vs"

definition ids_ok :: "OrderId \<Rightarrow> MEOrder list \<Rightarrow> bool" where
  "ids_ok next vs \<longleftrightarrow> distinct (map mo_market_order_id vs)
     \<and> (\<forall>v \<in> set vs. mo_market_order_id v < next \<and> on_priority v < next)"

definition ob_inv :: "MEOrderBook \<Rightarrow> Side \<Rightarrow> MEOrder side_view \<Rightarrow> MEOrder side_view \<Rightarrow> bool" where
  "ob_inv m side V W \<longleftrightarrow> half_view me_slot (ob_book m) side V W
     \<and> pool_size (bk_levels (ob_book m)) = ME_MAX_PRICE_LEVELS \<and> pool_size (bk_orders (ob_book m)) = ME_MAX_ORDER_IDS
     \<and> (\<forall>p \<in> set (map fst V). \<forall>q \<in> set (map fst W). no_more_crosses side p q)
     \<and> (\<forall>(q, vs) \<in> set V \<union> set W. queue_ok vs)
     \<and> 0 < ob_next_market_order_id m \<and> ids_ok (ob_next_market_order_id m) (view_orders V @ view_orders W)"

lemma ob_inv_queue: "ob_inv m side V W \<Longrightarrow> (q, vs) \<in> set V \<union> set W \<Longrightarrow> queue_ok vs"
  by (auto simp: ob_inv_def)

lemma no_more_crosses_opp: "side = BUY \<or> side = SELL \<Longrightarrow> no_more_crosses (opp side) q p = no_more_crosses side p q"
  by (auto simp: no_more_crosses_def)

lemma ids_ok_commute: "ids_ok next (xs @ ys) = ids_ok next (ys @ xs)"
  by (auto simp: ids_ok_def)

lemma ob_inv_swap:
  assumes "side = BUY \<or> side = SELL"
  shows "ob_inv m side V W \<longleftrightarrow> ob_inv m (opp side) W V"
proof -
  have "(\<forall>p \<in> A. \<forall>q \<in> B. no_more_crosses side p q) \<longleftrightarrow> (\<forall>q \<in> B. \<forall>p \<in> A. no_more_crosses (opp side) q p)" for A B
    using no_more_crosses_opp[OF assms] by blast
  then show ?thesis
    unfolding ob_inv_def half_view_swap[OF assms, of _ _ V W] ids_ok_commute[of _ "view_orders V"] Un_commute[of "set V"]
    by blast
qed

text \<open>A new book is empty and satisfies it, provided its two arrays start out null.\<close>

lemma ob_inv_new: "ob_inv (MEOrderBook_new t (\<lambda>_. None) (\<lambda>_. None)) side [] []"
  using half_view_new[of ME_MAX_PRICE_LEVELS ME_MAX_ORDER_IDS me_slot MEOrder_default side]
  by (simp add: ob_inv_def MEOrderBook_new_def ids_ok_def book_new_def MemPool_new_def sizing_defs)

section \<open>Insertion into the views\<close>

lemma fst_view_insert: "set (map fst (view_insert side p v V)) = insert p (set (map fst V))"
  by (induction side p v V rule: view_insert.induct) auto

lemma view_insert_levels:
  assumes "(q, vs) \<in> set (view_insert side p v V)" and "distinct (map fst V)"
  shows "(q, vs) \<in> set V \<or> q = p \<and> vs = [v] \<or> q = p \<and> (\<exists>ws. map_of V p = Some ws \<and> vs = ws @ [v])"
  using assms by (induction side p v V rule: view_insert.induct) (auto split: if_splits)

text \<open>The queue of the price after a new order with the next priority and quantity joined it.\<close>

lemma queue_ok_append:
  assumes "queue_ok vs" and "vs \<noteq> []" and "on_priority v = on_priority (last vs) + 1" and "on_qty v \<noteq> 0"
    and "on_priority (last vs) < n"
  shows "queue_ok (vs @ [v])"
proof -
  have "on_priority (last vs) + 1 > on_priority (last vs)" using assms(5) by (rule less_add1)
  moreover have "on_priority w \<le> on_priority (last vs)" if "w \<in> set vs" for w
  proof -
    have "vs = butlast vs @ [last vs]" using assms(2) by simp
    then show ?thesis using assms(1) that unfolding queue_ok_def
      by (metis Un_iff append_self_conv2 in_set_conv_decomp less_imp_le order_refl set_append set_ConsD sorted_wrt_append list.set_intros(1) empty_iff empty_set)
  qed
  ultimately show ?thesis
    using assms by (force simp: queue_ok_def sorted_wrt_append)
qed

section \<open>Ids\<close>

lemma ids_ok_mset: "mset xs = mset ys \<Longrightarrow> ids_ok n xs = ids_ok n ys"
  unfolding ids_ok_def by (metis mset_eq_imp_distinct_iff mset_eq_setD mset_map)

lemma ids_ok_later:
  assumes "ids_ok n xs" and "n < n + 1"
  shows "ids_ok (n + 1) xs"
  using assms by (auto simp: ids_ok_def intro: less_trans)

lemma ids_ok_new:
  assumes "ids_ok n xs" and "n < n + 1" and "mo_market_order_id v = n" and "on_priority v \<le> n"
  shows "ids_ok (n + 1) (v # xs)"
proof -
  have "n \<notin> mo_market_order_id ` set xs" using assms(1) by (auto simp: ids_ok_def)
  then show ?thesis using ids_ok_later[OF assms(1,2)] assms by (auto simp: ids_ok_def)
qed

lemma ids_ok_rest:
  assumes "ids_ok n (xs @ view_orders W)"
  shows "ids_ok n (xs @ view_orders (rest_of (fill_side side price qty W)))"
proof -
  let ?R = "view_orders (rest_of (fill_side side price qty W))"
  obtain k where k: "map strip_qty ?R = drop k (map strip_qty (view_orders W))" using fill_side_suffix by blast
  have "map (mo_market_order_id \<circ> strip_qty) ?R = drop k (map (mo_market_order_id \<circ> strip_qty) (view_orders W))"
    unfolding map_map[symmetric] k drop_map ..
  then have m: "map mo_market_order_id ?R = drop k (map mo_market_order_id (view_orders W))" by (simp add: comp_def)
  have "map (on_priority \<circ> strip_qty) ?R = drop k (map (on_priority \<circ> strip_qty) (view_orders W))"
    unfolding map_map[symmetric] k drop_map ..
  then have p: "map on_priority ?R = drop k (map on_priority (view_orders W))" by (simp add: comp_def)
  have sub: "f ` set ?R \<subseteq> f ` set (view_orders W)" if "map f ?R = drop k (map f (view_orders W))" for f :: "MEOrder \<Rightarrow> 64 word"
    using set_drop_subset[of k "map f (view_orders W)"] arg_cong[OF that, of set] by simp
  have "distinct (map mo_market_order_id (view_orders W))" using assms by (simp add: ids_ok_def)
  then have "distinct (map mo_market_order_id ?R)" unfolding m by (rule distinct_drop)
  then show ?thesis using assms sub[OF m] sub[OF p] unfolding ids_ok_def by (fastforce simp: image_subset_iff)
qed

section \<open>Every request keeps the invariant\<close>

lemma next_priority_bound:
  assumes "\<And>q vs v. (q, vs) \<in> set V \<Longrightarrow> v \<in> set vs \<Longrightarrow> on_priority v < n" and "0 < n"
    and "\<And>q vs. (q, vs) \<in> set V \<Longrightarrow> vs \<noteq> []"
  shows "next_priority V price \<le> n"
proof (cases "map_of V price")
  case None
  then show ?thesis using assms(2) by (simp add: next_priority_def word_le_nat_alt word_less_nat_alt)
next
  case (Some vs)
  then have "(price, vs) \<in> set V" by (rule map_of_SomeD)
  then have "on_priority (last vs) < n" using assms(1,3) by (metis last_in_set)
  then show ?thesis using Some add1_le by (simp add: next_priority_def)
qed

lemma view_orders_level: "(q, vs) \<in> set V \<Longrightarrow> v \<in> set vs \<Longrightarrow> v \<in> set (view_orders V)"
  by (force simp: view_orders_def)

lemma spec_add_keeps:
  assumes inv: "ob_inv m side V W" and side: "side = BUY \<or> side = SELL"
    and more: "n < n + 1" and n: "n = ob_next_market_order_id m"
    and sorted: "sorted_wrt (better (opp side)) (map fst W')"
    and spec: "spec_add n c co t side price qty V W = (V', W', evs)"
  shows "\<forall>p \<in> set (map fst V'). \<forall>q \<in> set (map fst W'). no_more_crosses side p q"
    and "\<forall>(q, vs) \<in> set V' \<union> set W'. queue_ok vs"
    and "ids_ok (n + 1) (view_orders V' @ view_orders W')"
proof -
  note inv' = inv[unfolded ob_inv_def, folded n]
  let ?r = "fill_side side price qty W"
  let ?o = "MEOrder_new t c co n side price (left_of ?r) (next_priority V price) None None"
  have W': "W' = rest_of ?r" and V': "V' = (if left_of ?r = 0 then V else view_insert side price ?o V)"
    using spec by (auto simp: spec_add_def Let_def split: if_splits)
  have V_ok: "sorted_wrt (better side) (map fst V)" "\<And>q vs. (q, vs) \<in> set V \<Longrightarrow> vs \<noteq> []"
    using half_view_sides(1) inv' by (fastforce simp: side_view_ok_def)+
  have dist: "distinct (map fst V)" using V_ok(1) by (rule sorted_better_distinct)
  have cross: "no_more_crosses side price q" if "left_of ?r \<noteq> 0" "q \<in> set (map fst W')" for q
    using fill_side_uncrossed[OF that(1) side] sorted that(2) by (simp add: W')
  show "\<forall>p \<in> set (map fst V'). \<forall>q \<in> set (map fst W'). no_more_crosses side p q"
  proof (intro ballI)
    fix p q assume p: "p \<in> set (map fst V')" and q: "q \<in> set (map fst W')"
    have "q \<in> set (map fst W)" using q fill_side_shrinks(2) unfolding W' by blast
    moreover have "p \<in> set (map fst V) \<or> left_of ?r \<noteq> 0 \<and> p = price"
      using p fst_view_insert[of side price ?o V] unfolding V' by (auto split: if_splits)
    ultimately show "no_more_crosses side p q" using inv' cross[OF _ q] by blast
  qed
  have prio: "on_priority v < n" if "(q, vs) \<in> set V" "v \<in> set vs" for q vs v
    using inv' view_orders_level[OF that] by (auto simp: ids_ok_def)
  have "queue_ok vs" if "(q, vs) \<in> set W'" for q vs
  proof (rule fill_side_levels[of W "\<lambda>q vs. queue_ok vs"])
    show "\<And>q vs. (q, vs) \<in> set W \<Longrightarrow> queue_ok vs" using ob_inv_queue[OF inv] by blast
    show "(q, vs) \<in> set (rest_of ?r)" using that by (simp add: W')
  qed (auto simp: queue_ok_def)
  moreover have "queue_ok vs" if vs: "(q, vs) \<in> set V'" for q vs
  proof (cases "left_of ?r = 0")
    case True
    then show ?thesis using vs inv' by (auto simp: V')
  next
    case False
    then have "(q, vs) \<in> set (view_insert side price ?o V)" using vs by (simp add: V')
    then consider "(q, vs) \<in> set V" | "vs = [?o]" | ws where "map_of V price = Some ws" "vs = ws @ [?o]"
      using view_insert_levels[OF _ dist] by blast
    then show ?thesis
    proof cases
      case 1
      then show ?thesis using ob_inv_queue[OF inv] by blast
    next
      case 3
      then have "(price, ws) \<in> set V" by (auto dest: map_of_SomeD)
      moreover have "queue_ok ws" by (rule ob_inv_queue[OF inv, of price]) (simp add: calculation)
      ultimately show ?thesis
        using 3 False V_ok(2) prio[of price ws "last ws"]
        by (auto simp: MEOrder_new_def next_priority_def intro!: queue_ok_append[where n = n])
    qed (use False in \<open>simp add: queue_ok_def MEOrder_new_def\<close>)
  qed
  ultimately show "\<forall>(q, vs) \<in> set V' \<union> set W'. queue_ok vs" by blast
  have rest: "ids_ok n (view_orders V @ view_orders W')" using ids_ok_rest inv' unfolding W' by blast
  show "ids_ok (n + 1) (view_orders V' @ view_orders W')"
  proof (cases "left_of ?r = 0")
    case True
    then show ?thesis using ids_ok_later[OF rest more] by (simp add: V')
  next
    case False
    have "on_priority ?o \<le> n" using next_priority_bound[of V n price] prio V_ok(2) inv' by (simp add: MEOrder_new_def)
    then have "ids_ok (n + 1) (?o # view_orders V @ view_orders W')"
      using ids_ok_new[OF rest more] by (simp add: MEOrder_new_def)
    moreover have "mset (?o # view_orders V @ view_orders W') = mset (view_orders V' @ view_orders W')"
      using False by (simp add: V' view_orders_insert)
    ultimately show ?thesis using ids_ok_mset by blast
  qed
qed

text \<open>\<open>add\<close>: it returns, does what the specification says, and the result satisfies the invariant.\<close>

lemma ob_add_ok:
  assumes inv: "ob_inv m side V W" and side: "side = BUY \<or> side = SELL" and price: "price_in_window price"
    and key: "unat c < ME_MAX_NUM_CLIENTS" "unat co < ME_MAX_ORDER_IDS"
      "\<And>v. v \<in> set (view_orders V @ view_orders W) \<Longrightarrow> me_slot v \<noteq> Inr (unat c, unat co)"
    and room: "length V + length W + 1 < ME_MAX_PRICE_LEVELS"
      "length (view_orders V) + length (view_orders W) + 1 < ME_MAX_ORDER_IDS"
    and more: "ob_next_market_order_id m < - 1"
    and spec: "spec_add (ob_next_market_order_id m) c co t side price qty V W = (V', W', evs)"
  shows "\<exists>m'. ob_add m c co t side price qty = Inr (m', evs) \<and> ob_inv m' side V' W'
     \<and> ob_ticker_id m' = ob_ticker_id m"
proof -
  note inv' = inv[unfolded ob_inv_def]
  have view: "half_view me_slot (ob_book m) side V W" using inv' by blast
  have free: "bk_index (ob_book m) (unat c, unat co) = None"
    using me.view_lookup[OF view] key(3) me.slot_unlinked by (metis not_None_eq set_append)
  have rooms: "has_room (bk_levels (ob_book m))" "has_room (bk_orders (ob_book m))"
    using inv' half_view_counts(1,2)[OF view] room by (simp_all add: has_room_def)
  obtain m' where m': "ob_add m c co t side price qty = Inr (m', evs)" "half_view me_slot (ob_book m') side V' W'"
      "ob_next_market_order_id m' = ob_next_market_order_id m + 1" "ob_ticker_id m' = ob_ticker_id m"
      "pool_size (bk_levels (ob_book m')) = pool_size (bk_levels (ob_book m))"
      "pool_size (bk_orders (ob_book m')) = pool_size (bk_orders (ob_book m))"
    using ob_add_refines[OF view side price key(1,2) free rooms spec] by blast
  have up: "ob_next_market_order_id m < ob_next_market_order_id m + 1" using more by (rule less_add1)
  have sorted: "sorted_wrt (better (opp side)) (map fst W')"
    using half_view_sides(2)[OF m'(2)] by (simp add: side_view_ok_def)
  have "0 < ob_next_market_order_id m + 1"
    using up inv' by (metis less_trans)
  then have "ob_inv m' side V' W'"
    using spec_add_keeps[OF inv side up refl sorted spec] m' inv' by (simp add: ob_inv_def)
  then show ?thesis using m' by blast
qed

lemma view_delete_levels:
  assumes "(q, ws) \<in> set (view_delete P V)"
  shows "\<exists>vs. (q, vs) \<in> set V \<and> ws = filter (\<lambda>v. \<not> P v) vs"
  using assms by (auto simp: view_delete_def)

lemma ids_ok_filter: "ids_ok n (xs @ ys) \<Longrightarrow> ids_ok n (filter P xs @ ys)"
  by (auto simp: ids_ok_def distinct_map_filter)

text \<open>\<open>cancel\<close> of a resting order.\<close>

lemma ob_cancel_ok:
  assumes inv: "ob_inv m side V W" and side: "side = BUY \<or> side = SELL"
    and v: "v \<in> set (view_orders V)" "me_slot v = Inr (unat c, unat oid)"
  shows "\<exists>m'. ob_cancel m c oid t = Inr (m', cancel_events c oid t v)
     \<and> ob_inv m' side (view_delete (\<lambda>w. me_slot w = Inr (unat c, unat oid)) V) W \<and> ob_ticker_id m' = ob_ticker_id m"
proof -
  let ?V = "view_delete (\<lambda>w. me_slot w = Inr (unat c, unat oid)) V"
  note inv' = inv[unfolded ob_inv_def]
  have "set (map fst ?V) \<subseteq> set (map fst V)" by (force dest: view_delete_levels)
  moreover have "queue_ok vs" if "(q, vs) \<in> set ?V" for q vs
  proof -
    obtain ws where ws: "(q, ws) \<in> set V" "vs = filter (\<lambda>v. me_slot v \<noteq> Inr (unat c, unat oid)) ws"
      using view_delete_levels[of q vs _ V] \<open>(q, vs) \<in> set ?V\<close> by blast
    have "queue_ok ws" by (rule ob_inv_queue[OF inv, of q]) (simp add: ws)
    then show ?thesis by (simp add: queue_ok_def ws sorted_wrt_filter)
  qed
  moreover have "ids_ok (ob_next_market_order_id m) (view_orders ?V @ view_orders W)"
    unfolding view_orders_delete by (rule ids_ok_filter) (use inv' in blast)
  moreover have "queue_ok vs" if "(q, vs) \<in> set W" for q vs
    by (rule ob_inv_queue[OF inv, of q]) (simp add: that)
  moreover have view: "half_view me_slot (ob_book m) side V W" using inv' by blast
  obtain m' where m': "ob_cancel m c oid t = Inr (m', cancel_events c oid t v)" "half_view me_slot (ob_book m') side ?V W"
      "ob_next_market_order_id m' = ob_next_market_order_id m" "ob_ticker_id m' = ob_ticker_id m"
      "pool_size (bk_levels (ob_book m')) = pool_size (bk_levels (ob_book m))"
      "pool_size (bk_orders (ob_book m')) = pool_size (bk_orders (ob_book m))"
    using ob_cancel_hit[OF view side v] by blast
  ultimately have "ob_inv m' side ?V W"
    unfolding ob_inv_def m'(3,5,6) using m'(2) inv' by blast
  then show ?thesis using m' by blast
qed

end
