(* ===== verification/MatchingEngine.thy ===== *)
theory MatchingEngine
  imports MEBookInvariant LFQueue
begin

text \<open>
  \<^verbatim>\<open>exchange/matcher/matching_engine.h\<close> and \<^verbatim>\<open>exchange/matcher/matching_engine.cpp\<close>: one book per ticker, the
  queue of requests it reads and the two queues it writes. \<open>engine_poll\<close> is one round of the loop
  of \<open>run\<close>. The books' events go to the two queues in the order they were sent.
\<close>

section \<open>State and operations\<close>

record MatchingEngine =
  eng_books :: "nat \<Rightarrow> MEOrderBook"
  eng_requests :: "MEClientRequest LFQueue"
  eng_responses :: "MEClientResponse LFQueue"
  eng_updates :: "MEMarketUpdate LFQueue"

text \<open>The constructor makes a book for each of the \<open>ME_MAX_TICKERS\<close> tickers; \<open>mem\<close> is what their arrays hold.\<close>

definition MatchingEngine_new :: "(nat \<Rightarrow> (me_key \<Rightarrow> ptr) \<times> (nat \<Rightarrow> ptr)) \<Rightarrow> MEClientRequest LFQueue \<Rightarrow>
    MEClientResponse LFQueue \<Rightarrow> MEMarketUpdate LFQueue \<Rightarrow> MatchingEngine" where
  "MatchingEngine_new mem reqs rsps upds =
     \<lparr> eng_books = (\<lambda>i. MEOrderBook_new (of_nat i) (fst (mem i)) (snd (mem i))),
       eng_requests = reqs, eng_responses = rsps, eng_updates = upds \<rparr>"

definition sendClientResponse :: "MEClientResponse \<Rightarrow> MatchingEngine \<Rightarrow> MatchingEngine" where
  "sendClientResponse r e = e\<lparr> eng_responses := lf_push (eng_responses e) r \<rparr>"

definition sendMarketUpdate :: "MEMarketUpdate \<Rightarrow> MatchingEngine \<Rightarrow> MatchingEngine" where
  "sendMarketUpdate u e = e\<lparr> eng_updates := lf_push (eng_updates e) u \<rparr>"

primrec send_event :: "event \<Rightarrow> MatchingEngine \<Rightarrow> MatchingEngine" where
  "send_event (Response r) e = sendClientResponse r e"
| "send_event (Update u) e = sendMarketUpdate u e"

definition processClientRequest :: "MatchingEngine \<Rightarrow> MEClientRequest \<Rightarrow> MatchingEngine result" where
  "processClientRequest e req =
     bindR (index ME_MAX_TICKERS (unat (req_ticker_id req))) (\<lambda>t.
     bindR (case req_type req of
              Req_NEW \<Rightarrow> ob_add (eng_books e t) (req_client_id req) (req_order_id req) (req_ticker_id req)
                          (req_side req) (req_price req) (req_qty req)
            | Req_CANCEL \<Rightarrow> ob_cancel (eng_books e t) (req_client_id req) (req_order_id req) (req_ticker_id req)
            | Req_INVALID \<Rightarrow> FATAL (''Received invalid client-request-type:'' @ clientRequestTypeToString (req_type req)))
       (\<lambda>(m, evs). Inr (fold send_event evs (e\<lparr> eng_books := (eng_books e)(t := m) \<rparr>))))"

definition engine_poll :: "MatchingEngine \<Rightarrow> MatchingEngine result" where
  "engine_poll e =
     (case getNextToRead (eng_requests e) of
        None \<Rightarrow> Inr e
      | Some req \<Rightarrow>
          bindR (processClientRequest e req) (\<lambda>e1.
          bindR (updateReadIndex (eng_requests e1)) (\<lambda>q.
          Inr (e1\<lparr> eng_requests := q \<rparr>))))"

section \<open>Where the events go\<close>

fun responses_of :: "event list \<Rightarrow> MEClientResponse list" where
  "responses_of [] = []"
| "responses_of (Response r # evs) = r # responses_of evs"
| "responses_of (Update u # evs) = responses_of evs"

fun updates_of :: "event list \<Rightarrow> MEMarketUpdate list" where
  "updates_of [] = []"
| "updates_of (Response r # evs) = updates_of evs"
| "updates_of (Update u # evs) = u # updates_of evs"

lemma of_append [simp]:
  "responses_of (xs @ ys) = responses_of xs @ responses_of ys"
  "updates_of (xs @ ys) = updates_of xs @ updates_of ys"
  by (induction xs rule: responses_of.induct) simp_all

lemma send_events:
  "fold send_event evs e = e\<lparr> eng_responses := foldl lf_push (eng_responses e) (responses_of evs),
     eng_updates := foldl lf_push (eng_updates e) (updates_of evs) \<rparr>"
proof (induction evs arbitrary: e)
  case (Cons ev evs)
  then show ?case by (cases ev) (simp_all add: sendClientResponse_def sendMarketUpdate_def)
qed simp

section \<open>The invariant of the engine\<close>

definition books_ok :: "MatchingEngine \<Rightarrow> bool" where
  "books_ok e \<longleftrightarrow> (\<forall>t < ME_MAX_TICKERS. \<exists>V W. ob_inv (eng_books e t) BUY V W)"

text \<open>The requests the engine is sized for, read off the book they are for.\<close>

definition admissible_new :: "MEOrderBook \<Rightarrow> MEClientRequest \<Rightarrow> bool" where
  "admissible_new m req \<longleftrightarrow> (req_side req = BUY \<or> req_side req = SELL) \<and> price_in_window (req_price req)
     \<and> unat (req_client_id req) < ME_MAX_NUM_CLIENTS \<and> unat (req_order_id req) < ME_MAX_ORDER_IDS
     \<and> bk_index (ob_book m) (unat (req_client_id req), unat (req_order_id req)) = None
     \<and> has_room (bk_levels (ob_book m)) \<and> has_room (bk_orders (ob_book m)) \<and> ob_next_market_order_id m < - 1"

definition admissible :: "MatchingEngine \<Rightarrow> MEClientRequest \<Rightarrow> bool" where
  "admissible e req \<longleftrightarrow> unat (req_ticker_id req) < ME_MAX_TICKERS
     \<and> (case req_type req of
          Req_NEW \<Rightarrow> admissible_new (eng_books e (unat (req_ticker_id req))) req
        | Req_CANCEL \<Rightarrow> unat (req_client_id req) < ME_MAX_NUM_CLIENTS \<longrightarrow> unat (req_order_id req) < ME_MAX_ORDER_IDS
        | Req_INVALID \<Rightarrow> False)"

lemma ob_add_spec:
  assumes inv: "ob_inv m (req_side req) V W" and adm: "admissible_new m req"
    and spec: "spec_add (ob_next_market_order_id m) (req_client_id req) (req_order_id req) t (req_side req)
      (req_price req) (req_qty req) V W = (V', W', evs)"
  shows "\<exists>m'. ob_add m (req_client_id req) (req_order_id req) t (req_side req) (req_price req) (req_qty req) = Inr (m', evs)
     \<and> ob_inv m' (req_side req) V' W' \<and> ob_ticker_id m' = ob_ticker_id m"
proof -
  have side: "req_side req = BUY \<or> req_side req = SELL" using adm by (simp add: admissible_new_def)
  have view: "half_view me_slot (ob_book m) (req_side req) V W" using inv by (simp add: ob_inv_def)
  have key: "me_slot v \<noteq> Inr (unat (req_client_id req), unat (req_order_id req))"
    if "v \<in> set (view_orders V @ view_orders W)" for v
    using me.view_no_key[OF view] adm that by (simp add: admissible_new_def)
  have room: "length V + length W + 1 < ME_MAX_PRICE_LEVELS"
      "length (view_orders V) + length (view_orders W) + 1 < ME_MAX_ORDER_IDS"
    using half_view_counts(1,2)[OF view] adm inv by (simp_all add: admissible_new_def has_room_def ob_inv_def)
  show ?thesis
    using ob_add_ok[OF inv side _ _ _ key room _ spec] adm by (auto simp: admissible_new_def)
qed

lemma ob_add_admissible:
  assumes inv: "ob_inv m BUY V W" and adm: "admissible_new m req"
  shows "\<exists>m' evs V' W'. ob_add m (req_client_id req) (req_order_id req) t (req_side req) (req_price req) (req_qty req)
           = Inr (m', evs) \<and> ob_inv m' BUY V' W' \<and> ob_ticker_id m' = ob_ticker_id m"
proof -
  have side: "req_side req = BUY \<or> req_side req = SELL" using adm by (simp add: admissible_new_def)
  obtain V1 W1 where inv1: "ob_inv m (req_side req) V1 W1"
    using inv ob_inv_swap[of BUY m V W] side by (metis opp_simps(1))
  obtain V' W' evs where "spec_add (ob_next_market_order_id m) (req_client_id req) (req_order_id req) t (req_side req)
      (req_price req) (req_qty req) V1 W1 = (V', W', evs)" by (metis prod_cases3)
  then obtain m' where m': "ob_add m (req_client_id req) (req_order_id req) t (req_side req) (req_price req) (req_qty req)
      = Inr (m', evs)" "ob_inv m' (req_side req) V' W'" "ob_ticker_id m' = ob_ticker_id m"
    using ob_add_spec[OF inv1 adm] by blast
  moreover have "\<exists>V W. ob_inv m' BUY V W" using m'(2) ob_inv_swap[OF side, of m' V' W'] side by (metis opp_simps(2))
  ultimately show ?thesis by blast
qed

lemma ob_cancel_total:
  assumes inv: "ob_inv m BUY V W" and ids: "unat c < ME_MAX_NUM_CLIENTS \<Longrightarrow> unat oid < ME_MAX_ORDER_IDS"
  shows "\<exists>m' evs V' W'. ob_cancel m c oid t = Inr (m', evs) \<and> ob_inv m' BUY V' W' \<and> ob_ticker_id m' = ob_ticker_id m"
proof -
  consider v where "v \<in> set (view_orders V)" "me_slot v = Inr (unat c, unat oid)"
    | v where "v \<in> set (view_orders W)" "me_slot v = Inr (unat c, unat oid)"
    | "\<And>v. v \<in> set (view_orders V) \<union> set (view_orders W) \<Longrightarrow> me_slot v \<noteq> Inr (unat c, unat oid)" by blast
  then show ?thesis
  proof cases
    case 1
    then show ?thesis using ob_cancel_ok[OF inv] by blast
  next
    case 2
    have inv': "ob_inv m SELL W V" using inv ob_inv_swap[of BUY] by simp
    then show ?thesis using ob_cancel_ok[OF inv' _ 2] ob_inv_swap[of SELL] by (metis opp_simps(2))
  next
    case 3
    have "half_view me_slot (ob_book m) BUY V W" using inv by (simp add: ob_inv_def)
    then show ?thesis using ob_cancel_miss[OF _ 3 ids] inv by blast
  qed
qed

lemma processClientRequest_ok:
  assumes inv: "books_ok e" and adm: "admissible e req"
  shows "\<exists>m evs. processClientRequest e req
       = Inr (fold send_event evs (e\<lparr> eng_books := (eng_books e)(unat (req_ticker_id req) := m) \<rparr>))
     \<and> books_ok (fold send_event evs (e\<lparr> eng_books := (eng_books e)(unat (req_ticker_id req) := m) \<rparr>))"
proof -
  let ?t = "unat (req_ticker_id req)"
  have t: "?t < ME_MAX_TICKERS" using adm by (simp add: admissible_def)
  obtain V W where V: "ob_inv (eng_books e ?t) BUY V W" using inv t by (auto simp: books_ok_def)
  obtain m evs V' W' where m: "(case req_type req of
              Req_NEW \<Rightarrow> ob_add (eng_books e ?t) (req_client_id req) (req_order_id req) (req_ticker_id req)
                          (req_side req) (req_price req) (req_qty req)
            | Req_CANCEL \<Rightarrow> ob_cancel (eng_books e ?t) (req_client_id req) (req_order_id req) (req_ticker_id req)
            | Req_INVALID \<Rightarrow> FATAL (''Received invalid client-request-type:'' @ clientRequestTypeToString (req_type req)))
       = Inr (m, evs)" "ob_inv m BUY V' W'"
  proof (cases "req_type req")
    case Req_NEW
    then show ?thesis
      using ob_add_admissible[OF V, of req "req_ticker_id req"] adm that by (auto simp: admissible_def)
  next
    case Req_CANCEL
    then show ?thesis
      using ob_cancel_total[OF V, of "req_client_id req" "req_order_id req" "req_ticker_id req"] adm that
      by (auto simp: admissible_def)
  qed (use adm in \<open>simp add: admissible_def\<close>)
  let ?e' = "fold send_event evs (e\<lparr> eng_books := (eng_books e)(?t := m) \<rparr>)"
  have "processClientRequest e req = Inr ?e'" using m(1) t by (simp add: processClientRequest_def)
  moreover have "books_ok ?e'"
    using m(2) inv by (auto simp: send_events books_ok_def)
  ultimately show ?thesis by blast
qed

end
