(* ===== verification/MatchingTheorems.thy ===== *)
theory MatchingTheorems
  imports MatchingEngine
begin

text \<open>
  The properties of the exchange's matching: the specification met by \<open>add\<close> and \<open>cancel\<close>, soundness
  of every reachable engine state, and what the messages of a request say about quantities, prices and order.
\<close>

section \<open>Reachable engine states\<close>

text \<open>
  The engine starts with empty books, handles admissible requests, and between any two of its steps
  other threads may do whatever they do to the three queues.
\<close>

inductive engine_reachable :: "MatchingEngine \<Rightarrow> bool" where
  start: "engine_reachable (MatchingEngine_new (\<lambda>_. (\<lambda>_. None, \<lambda>_. None)) q1 q2 q3)"
| request: "engine_reachable e \<Longrightarrow> admissible e req \<Longrightarrow> processClientRequest e req = Inr e' \<Longrightarrow> engine_reachable e'"
| queues: "engine_reachable e \<Longrightarrow>
    engine_reachable (e\<lparr> eng_requests := q1, eng_responses := q2, eng_updates := q3 \<rparr>)"

lemma engine_reachable_books: "engine_reachable e \<Longrightarrow> books_ok e"
proof (induction rule: engine_reachable.induct)
  case (start q1 q2 q3)
  then show ?case using ob_inv_new by (auto simp: books_ok_def MatchingEngine_new_def)
next
  case (request e req e')
  then show ?case using processClientRequest_ok by fastforce
qed (simp add: books_ok_def)

lemma best_price_view:
  assumes view: "half_view slot b side V W" and l: "best_of side b = Some l"
  shows "lv_price (LV b l) \<in> set (map fst V)"
proof -
  obtain q vs V' where V: "V = (q, vs) # V'" using half_view_no_best[OF view] l by (cases V) auto
  moreover have "vs \<noteq> []" using half_view_sides(1)[OF view] V by (simp add: side_view_ok_def)
  ultimately obtain v vs' where "V = (q, v # vs') # V'" by (cases vs) auto
  then show ?thesis using half_view_best[of slot b side q v vs' V' W] view l by auto
qed

section \<open>What the messages of a request say\<close>

definition trade_qty :: "event list \<Rightarrow> nat" where
  "trade_qty evs = sum_list (map (\<lambda>u. unat (mu_qty u)) (filter (\<lambda>u. mu_type u = TRADE) (updates_of evs)))"

definition add_qty :: "event list \<Rightarrow> nat" where
  "add_qty evs = sum_list (map (\<lambda>u. unat (mu_qty u)) (filter (\<lambda>u. mu_type u = ADD) (updates_of evs)))"

text \<open>The ids of the resting orders that the public feed reports as filled, in the order of the reports.\<close>

definition filled_ids :: "event list \<Rightarrow> OrderId list" where
  "filled_ids evs = map mu_order_id (filter (\<lambda>u. mu_type u = Upd_CANCEL \<or> mu_type u = MODIFY) (updates_of evs))"

lemma qty_append [simp]:
  "trade_qty (xs @ ys) = trade_qty xs + trade_qty ys" "add_qty (xs @ ys) = add_qty xs + add_qty ys"
  "filled_ids (xs @ ys) = filled_ids xs @ filled_ids ys"
  by (simp_all add: trade_qty_def add_qty_def filled_ids_def)

lemma fill_events_summary:
  "trade_qty (concat (map (fill_events t c side co mo) fs)) = sum_list (map fill_qty fs)"
  "add_qty (concat (map (fill_events t c side co mo) fs)) = 0"
  "filled_ids (concat (map (fill_events t c side co mo) fs)) = map (\<lambda>x. mo_market_order_id (fst x)) fs"
  by (induction fs) (auto simp: trade_qty_def add_qty_def filled_ids_def fill_events_def fill_qty_def split_beta)

lemma Response_summary [simp]:
  "trade_qty (Response r # evs) = trade_qty evs" "add_qty (Response r # evs) = add_qty evs"
  "filled_ids (Response r # evs) = filled_ids evs"
  by (simp_all add: trade_qty_def add_qty_def filled_ids_def)

text \<open>The run of \<open>add\<close> on an admissible request, and the events of its specification.\<close>

lemma ob_add_events:
  assumes inv: "ob_inv m (req_side req) V W" and adm: "admissible_new m req"
    and run: "ob_add m (req_client_id req) (req_order_id req) t (req_side req) (req_price req) (req_qty req) = Inr (m', evs)"
  shows "\<exists>V' W'. spec_add (ob_next_market_order_id m) (req_client_id req) (req_order_id req) t (req_side req)
      (req_price req) (req_qty req) V W = (V', W', evs)"
proof -
  obtain V' W' evs' where spec: "spec_add (ob_next_market_order_id m) (req_client_id req) (req_order_id req) t (req_side req)
      (req_price req) (req_qty req) V W = (V', W', evs')" by (metis prod_cases3)
  then have "evs' = evs" using ob_add_spec[OF inv adm spec] run by auto
  then show ?thesis using spec by blast
qed

lemma spec_add_summary:
  assumes "spec_add n c co t side price qty V W = (V', W', evs)"
  shows "unat qty = trade_qty evs + add_qty evs"
    and "filled_ids evs = take (length (filled_ids evs)) (map mo_market_order_id (view_orders W))"
proof -
  let ?r = "fill_side side price qty W"
  have "trade_qty evs = sum_list (map fill_qty (fills_of ?r))" "add_qty evs = unat (left_of ?r)"
      "filled_ids evs = map (\<lambda>x. mo_market_order_id (fst x)) (fills_of ?r)"
    using assms
    by (auto simp: spec_add_def Let_def fill_events_summary split: if_splits)
       (simp_all add: trade_qty_def add_qty_def filled_ids_def)
  then show "unat qty = trade_qty evs + add_qty evs"
    and "filled_ids evs = take (length (filled_ids evs)) (map mo_market_order_id (view_orders W))"
    using fill_side_conserves[of qty side price W] arg_cong[OF fill_side_in_order[of side price qty W], of "map mo_market_order_id"]
    by (simp_all add: take_map comp_def min_def)
qed

lemma spec_add_prices:
  assumes spec: "spec_add n c co t side price qty V W = (V', W', evs)" and ok: "side_view_ok (opp side) W"
    and u: "u \<in> set (updates_of evs)" "mu_type u = TRADE" and side: "side = BUY \<or> side = SELL"
  shows "if side = BUY then mu_price u \<le> price else price \<le> mu_price u"
proof -
  let ?r = "fill_side side price qty W"
  have "\<exists>x \<in> set (fills_of ?r). u \<in> set (updates_of (fill_events t c side co (ucast (ucast n :: Qty)) x))"
  proof -
    have *: "u \<in> set (updates_of (concat (map f xs))) \<longleftrightarrow> (\<exists>x \<in> set xs. u \<in> set (updates_of (f x)))" for f and xs :: "fill list"
      by (induction xs) auto
    show ?thesis using spec u by (auto simp: spec_add_def Let_def * split: if_splits)
  qed
  then obtain v f l where x: "(v, f, l) \<in> set (fills_of ?r)" "mu_price u = on_price v"
    using u(2) by (auto simp: fill_events_def split: if_splits)
  have "on_price w = q" if "(q, vs) \<in> set W" "w \<in> set vs" for q vs w using ok that by (auto simp: side_view_ok_def)
  then have "\<not> no_more_crosses side price (on_price v)" using fill_side_crosses[OF x(1)] by fastforce
  then show ?thesis using side x(2) by (auto simp: no_more_crosses_def)
qed

section \<open>Properties\<close>

text \<open>C1: \<open>MEOrderBook::add\<close>. On any well-formed book and any request the book is sized for, \<open>add\<close> returns
  (every loop ends, no assertion, null pointer or array bound is hit), sends exactly the messages of the abstract
  price-time matching of the theory MEMatching in its order, and leaves a well-formed book with exactly the specified
  levels and queues on both sides.\<close>

theorem add_follows_specification:
  assumes "ob_inv m (req_side req) V W" and "admissible_new m req"
    and "spec_add (ob_next_market_order_id m) (req_client_id req) (req_order_id req) t (req_side req)
      (req_price req) (req_qty req) V W = (V', W', evs)"
  shows "\<exists>m'. ob_add m (req_client_id req) (req_order_id req) t (req_side req) (req_price req) (req_qty req)
      = Inr (m', evs) \<and> ob_inv m' (req_side req) V' W'"
  using ob_add_spec[OF assms] by blast

text \<open>
  The requests of the witnesses: client 1 offers 10 at 100 on a new book, then client 2 buys 4 at 105.
\<close>

definition sample_sell :: MEClientRequest where
  "sample_sell = \<lparr> req_type = Req_NEW, req_client_id = 1, req_ticker_id = 0, req_order_id = 5, req_side = SELL,
     req_price = 100, req_qty = 10 \<rparr>"

definition sample_buy :: MEClientRequest where
  "sample_buy = \<lparr> req_type = Req_NEW, req_client_id = 2, req_ticker_id = 0, req_order_id = 6, req_side = BUY,
     req_price = 105, req_qty = 4 \<rparr>"

definition sample_book :: MEOrderBook where
  "sample_book = MEOrderBook_new 0 (\<lambda>_. None) (\<lambda>_. None)"

definition sample_resting :: MEOrder where
  "sample_resting = MEOrder_new 0 1 5 1 SELL 100 10 1 None None"

lemmas sample_defs = sample_sell_def sample_buy_def sample_book_def sample_resting_def

lemma small_words: "(1 :: 64 word) < - 1" "(2 :: 64 word) < - 1" "(10 :: 32 word) \<noteq> 0"
  by code_simp+

lemma sample_admissible: "admissible_new sample_book sample_sell"
  by (simp add: admissible_new_def sample_defs MEOrderBook_new_def book_new_def has_room_def
      price_in_window_def sizing_defs MemPool_new_def in_use_def small_words)

lemma sample_inv: "ob_inv sample_book (req_side sample_sell) [] []"
  unfolding sample_book_def by (rule ob_inv_new)

lemma sample_first:
  "\<exists>m. ob_add sample_book 1 5 0 SELL 100 10 = Inr (m, snd (snd (spec_add 1 1 5 0 SELL 100 10 [] [])))
     \<and> ob_inv m BUY [] [(100, [sample_resting])] \<and> ob_next_market_order_id m = 2"
proof -
  have "spec_add (ob_next_market_order_id sample_book) (req_client_id sample_sell) (req_order_id sample_sell) 0
      (req_side sample_sell) (req_price sample_sell) (req_qty sample_sell) [] []
      = ([(100, [sample_resting])], [], snd (snd (spec_add 1 1 5 0 SELL 100 10 [] [])))"
    by (simp add: sample_defs MEOrderBook_new_def spec_add_def Let_def next_priority_def)
  from ob_add_spec[OF sample_inv sample_admissible this] obtain m where
    m: "ob_add sample_book 1 5 0 SELL 100 10 = Inr (m, snd (snd (spec_add 1 1 5 0 SELL 100 10 [] [])))"
      "ob_inv m SELL [(100, [sample_resting])] []"
    by (auto simp: sample_sell_def)
  moreover have "ob_next_market_order_id m = 2"
    using m(1) by (auto simp: ob_add_def generateNewMarketOrderId_def sample_book_def MEOrderBook_new_def checkForMatch_def
        Let_def result_simps split: if_splits)
  ultimately show ?thesis using ob_inv_swap[of SELL] by auto
qed

text \<open>The book after the first request, and what the second one finds there.\<close>

lemma sample_second:
  assumes inv: "ob_inv m BUY [] [(100, [sample_resting])]" and n: "ob_next_market_order_id m = 2"
  shows "admissible_new m sample_buy"
proof -
  have view: "half_view me_slot (ob_book m) BUY [] [(100, [sample_resting])]" using inv by (simp add: ob_inv_def)
  have "bk_index (ob_book m) (2, 6) = None"
  proof (rule ccontr)
    assume "bk_index (ob_book m) (2, 6) \<noteq> None"
    then obtain i where "bk_index (ob_book m) (2, 6) = Some i" by blast
    from me.view_lookup[OF view this] have "me_slot sample_resting = Inr (2, 6)"
      using me.slot_unlinked[of "ON (ob_book m) i"] by auto
    then show False by (simp add: sample_resting_def MEOrder_new_def me_slot_def sizing_defs)
  qed
  then show ?thesis
    using half_view_counts(1,2)[OF view] inv n
    by (simp add: admissible_new_def sample_buy_def price_in_window_def has_room_def ob_inv_def sizing_defs small_words)
qed

lemma sample_run:
  "\<exists>m1 evs1 m2 evs. ob_add sample_book 1 5 0 SELL 100 10 = Inr (m1, evs1)
     \<and> ob_inv m1 (req_side sample_buy) [] [(100, [sample_resting])] \<and> admissible_new m1 sample_buy
     \<and> ob_add m1 (req_client_id sample_buy) (req_order_id sample_buy) 0 (req_side sample_buy) (req_price sample_buy)
         (req_qty sample_buy) = Inr (m2, evs)"
proof -
  obtain m1 evs1 where m1: "ob_add sample_book 1 5 0 SELL 100 10 = Inr (m1, evs1)"
      "ob_inv m1 BUY [] [(100, [sample_resting])]" "ob_next_market_order_id m1 = 2"
    using sample_first by blast
  from ob_add_admissible[OF m1(2) sample_second[OF m1(2,3)], of 0] m1(1,2) sample_second[OF m1(2,3)]
  show ?thesis unfolding sample_buy_def by fastforce
qed

theorem add_follows_specification_witness:
  "\<exists>m1 evs1 m2. ob_add sample_book 1 5 0 SELL 100 10 = Inr (m1, evs1)
     \<and> ob_add m1 2 6 0 BUY 105 4 = Inr (m2, snd (snd (spec_add 2 2 6 0 BUY 105 4 [] [(100, [sample_resting])])))
     \<and> ob_inv m2 BUY [] [(100, [sample_resting\<lparr> on_qty := 6 \<rparr>])]"
proof -
  obtain m1 where m1: "ob_add sample_book 1 5 0 SELL 100 10 = Inr (m1, snd (snd (spec_add 1 1 5 0 SELL 100 10 [] [])))"
      "ob_inv m1 BUY [] [(100, [sample_resting])]" "ob_next_market_order_id m1 = 2"
    using sample_first by blast
  have "spec_add (ob_next_market_order_id m1) (req_client_id sample_buy) (req_order_id sample_buy) 0 (req_side sample_buy)
      (req_price sample_buy) (req_qty sample_buy) [] [(100, [sample_resting])]
      = ([], [(100, [sample_resting\<lparr> on_qty := 6 \<rparr>])], snd (snd (spec_add 2 2 6 0 BUY 105 4 [] [(100, [sample_resting])])))"
    using m1(3) by (simp add: sample_buy_def sample_resting_def MEOrder_new_def spec_add_def Let_def no_more_crosses_def)
  from add_follows_specification[OF _ sample_second this] m1 show ?thesis by (auto simp: sample_buy_def)
qed

text \<open>C9: quantity is conserved by \<open>add\<close>: the quantities of the public trades and of the resting remainder
  add up to the quantity of the request.\<close>

theorem add_conserves_quantity:
  assumes "ob_inv m (req_side req) V W" and "admissible_new m req"
    and "ob_add m (req_client_id req) (req_order_id req) t (req_side req) (req_price req) (req_qty req) = Inr (m', evs)"
  shows "unat (req_qty req) = trade_qty evs + add_qty evs"
  using ob_add_events[OF assms] spec_add_summary(1) by blast

theorem add_conserves_quantity_witness:
  "\<exists>m1 evs1 m2 evs. ob_add sample_book 1 5 0 SELL 100 10 = Inr (m1, evs1) \<and> ob_add m1 2 6 0 BUY 105 4 = Inr (m2, evs)
     \<and> 4 = trade_qty evs + add_qty evs"
  using sample_run add_conserves_quantity[of _ sample_buy "[]" "[(100, [sample_resting])]" 0]
  unfolding sample_buy_def by fastforce

text \<open>C8: price-time priority. The resting orders that an incoming order fills are the first ones of the
  opposite side, best price first and oldest first within a price, and the feed reports them in this order.\<close>

theorem add_price_time_priority:
  assumes "ob_inv m (req_side req) V W" and "admissible_new m req"
    and "ob_add m (req_client_id req) (req_order_id req) t (req_side req) (req_price req) (req_qty req) = Inr (m', evs)"
  shows "filled_ids evs = take (length (filled_ids evs)) (map mo_market_order_id (view_orders W))
     \<and> sorted_wrt (better (opp (req_side req))) (map fst W)
     \<and> (\<forall>(q, vs) \<in> set W. sorted_wrt (\<lambda>v w. on_priority v < on_priority w) vs)"
proof -
  have "half_view me_slot (ob_book m) (req_side req) V W" using assms(1) by (simp add: ob_inv_def)
  from half_view_sides(2)[OF this] have "sorted_wrt (better (opp (req_side req))) (map fst W)"
    by (simp add: side_view_ok_def)
  moreover have "sorted_wrt (\<lambda>v w. on_priority v < on_priority w) vs" if "(q, vs) \<in> set W" for q vs
    using ob_inv_queue[OF assms(1), of q vs] that by (simp add: queue_ok_def)
  ultimately show ?thesis using ob_add_events[OF assms] spec_add_summary(2) by blast
qed

theorem add_price_time_priority_witness:
  "\<exists>m1 evs1 m2 evs. ob_add sample_book 1 5 0 SELL 100 10 = Inr (m1, evs1) \<and> ob_add m1 2 6 0 BUY 105 4 = Inr (m2, evs)
     \<and> filled_ids evs = take (length (filled_ids evs)) [1]"
  using sample_run add_price_time_priority[of _ sample_buy "[]" "[(100, [sample_resting])]" 0]
  unfolding sample_buy_def sample_resting_def MEOrder_new_def by fastforce

text \<open>C10: limit prices are respected: a buy never trades above its limit, a sell never below.\<close>

theorem add_trades_within_limit:
  assumes "ob_inv m (req_side req) V W" and "admissible_new m req"
    and "ob_add m (req_client_id req) (req_order_id req) t (req_side req) (req_price req) (req_qty req) = Inr (m', evs)"
    and "u \<in> set (updates_of evs)" and "mu_type u = TRADE"
  shows "if req_side req = BUY then mu_price u \<le> req_price req else req_price req \<le> mu_price u"
proof -
  have "half_view me_slot (ob_book m) (req_side req) V W" using assms(1) by (simp add: ob_inv_def)
  then have "side_view_ok (opp (req_side req)) W" by (rule half_view_sides(2))
  moreover have "req_side req = BUY \<or> req_side req = SELL" using assms(2) by (simp add: admissible_new_def)
  ultimately show ?thesis using ob_add_events[OF assms(1-3)] spec_add_prices assms(4,5) by blast
qed

theorem add_trades_within_limit_witness:
  "\<exists>m1 evs1 m2 evs. ob_add sample_book 1 5 0 SELL 100 10 = Inr (m1, evs1) \<and> ob_add m1 2 6 0 BUY 105 4 = Inr (m2, evs)
     \<and> filter (\<lambda>u. mu_type u = TRADE \<and> 105 < mu_price u) (updates_of evs) = []"
  using sample_run add_trades_within_limit[of _ sample_buy "[]" "[(100, [sample_resting])]" 0]
  unfolding sample_buy_def filter_empty_conv by fastforce

text \<open>C7: \<open>MEOrderBook::cancel\<close> of a resting order returns, takes exactly that order out of the book (and its level
  if it was alone there), reports it on the feed and then confirms it to the client, and keeps the book well formed.\<close>

theorem cancel_removes_order:
  assumes "ob_inv m side V W" and "side = BUY \<or> side = SELL"
    and "v \<in> set (view_orders V)" and "me_slot v = Inr (unat c, unat oid)"
  shows "\<exists>m'. ob_cancel m c oid t = Inr (m', cancel_events c oid t v)
     \<and> ob_inv m' side (view_delete (\<lambda>w. me_slot w = Inr (unat c, unat oid)) V) W"
  using ob_cancel_ok[OF assms] by blast

theorem cancel_removes_order_witness:
  "\<exists>m1 evs1 m2. ob_add sample_book 1 5 0 SELL 100 10 = Inr (m1, evs1)
     \<and> ob_cancel m1 1 5 0 = Inr (m2, cancel_events 1 5 0 sample_resting) \<and> ob_inv m2 SELL [] []"
proof -
  obtain m1 evs1 where m1: "ob_add sample_book 1 5 0 SELL 100 10 = Inr (m1, evs1)" "ob_inv m1 SELL [(100, [sample_resting])] []"
    using sample_first ob_inv_swap[of BUY] by fastforce
  have slot: "me_slot sample_resting = Inr (unat (1 :: ClientId), unat (5 :: OrderId))"
    by (simp add: sample_resting_def MEOrder_new_def me_slot_def sizing_defs)
  show ?thesis
    using cancel_removes_order[OF m1(2) _ _ slot, of 0] m1(1) slot by auto
qed

text \<open>C27: a cancel for an order that is not in the book, or by a client id out of range, is rejected and changes nothing.\<close>

theorem cancel_unknown_rejected:
  assumes "ob_inv m side V W"
    and "\<And>v. v \<in> set (view_orders V) \<union> set (view_orders W) \<Longrightarrow> me_slot v \<noteq> Inr (unat c, unat oid)"
    and "unat c < ME_MAX_NUM_CLIENTS \<Longrightarrow> unat oid < ME_MAX_ORDER_IDS"
  shows "ob_cancel m c oid t = Inr (m, reject_events c oid t)"
  by (rule ob_cancel_miss[of m side V W, OF _ assms(2,3)]) (use assms(1) in \<open>simp_all add: ob_inv_def\<close>)

theorem cancel_unknown_rejected_witness:
  "ob_cancel sample_book 3 9 0 = Inr (sample_book, reject_events 3 9 0)"
  by (rule cancel_unknown_rejected[OF sample_inv]) (simp_all add: sizing_defs)

text \<open>an order id beyond the id array makes \<open>cancel\<close> end the process: \<open>row.at(order_id)\<close> throws inside a
  \<open>noexcept\<close> function.\<close>

theorem cancel_large_id_terminates:
  assumes "unat c < ME_MAX_NUM_CLIENTS" and "ME_MAX_ORDER_IDS \<le> unat oid"
  shows "ob_cancel m c oid t = Inl OutOfRange"
  using ob_cancel_big_id[OF assms] .

theorem cancel_large_id_terminates_witness: "ob_cancel sample_book 3 1048576 0 = Inl OutOfRange"
  by (rule cancel_large_id_terminates) (simp_all add: sizing_defs)

text \<open>C2: soundness of the running engine. In every state reachable by admissible requests, whatever the other threads
  do to the queues, each admissible request is processed to the end and leads to such a state again, and in each book
  the best bid is below the best ask.\<close>

theorem engine_sound:
  assumes "engine_reachable e" and "t < ME_MAX_TICKERS"
  shows "(\<forall>req. admissible e req \<longrightarrow> (\<exists>e'. processClientRequest e req = Inr e' \<and> engine_reachable e'))
     \<and> (\<forall>l k. bk_bids (ob_book (eng_books e t)) = Some l \<longrightarrow> bk_asks (ob_book (eng_books e t)) = Some k
          \<longrightarrow> lv_price (LV (ob_book (eng_books e t)) l) < lv_price (LV (ob_book (eng_books e t)) k))"
proof (intro conjI allI impI)
  fix req assume "admissible e req"
  then show "\<exists>e'. processClientRequest e req = Inr e' \<and> engine_reachable e'"
    using processClientRequest_ok[OF engine_reachable_books[OF assms(1)]] engine_reachable.request[OF assms(1)] by metis
next
  let ?b = "ob_book (eng_books e t)"
  fix l k assume lk: "bk_bids ?b = Some l" "bk_asks ?b = Some k"
  obtain V W where inv: "ob_inv (eng_books e t) BUY V W"
    using engine_reachable_books[OF assms(1)] assms(2) by (auto simp: books_ok_def)
  then have view: "half_view me_slot ?b BUY V W" by (simp add: ob_inv_def)
  then have "half_view me_slot ?b SELL W V" using half_view_swap[of BUY me_slot ?b V W] by simp
  then have "lv_price (LV ?b l) \<in> set (map fst V)" "lv_price (LV ?b k) \<in> set (map fst W)"
    using best_price_view[OF view, of l] best_price_view[of me_slot ?b SELL W V k] lk by (simp_all add: best_of_def)
  then show "lv_price (LV ?b l) < lv_price (LV ?b k)"
    using inv by (fastforce simp: ob_inv_def no_more_crosses_def)
qed

definition sample_engine :: MatchingEngine where
  "sample_engine = MatchingEngine_new (\<lambda>_. (\<lambda>_. None, \<lambda>_. None)) (LFQueue_new 4 MEClientRequest_default)
     (LFQueue_new 4 MEClientResponse_default) (LFQueue_new 4 MEMarketUpdate_default)"

theorem engine_sound_witness:
  "\<exists>e'. processClientRequest sample_engine sample_sell = Inr e' \<and> engine_reachable e'"
proof -
  have "engine_reachable sample_engine" unfolding sample_engine_def by (rule engine_reachable.start)
  moreover have "admissible sample_engine sample_sell"
    using sample_admissible
    by (simp add: admissible_def sample_engine_def MatchingEngine_new_def sample_sell_def sample_book_def sizing_defs)
  ultimately show ?thesis using engine_sound[of sample_engine 0] by (simp add: sizing_defs)
qed

text \<open>the messages of a request arrive in the two outgoing queues in the order the book sent them, as long as the
  queues have room, and no other book changes.\<close>

theorem engine_queues_messages:
  assumes "unat (req_ticker_id req) < ME_MAX_TICKERS" and "req_type req = Req_NEW"
    and "ob_add (eng_books e (unat (req_ticker_id req))) (req_client_id req) (req_order_id req) (req_ticker_id req)
        (req_side req) (req_price req) (req_qty req) = Inr (m, evs)"
    and "lf_inv (eng_responses e)" and "num_elements (eng_responses e) + length (responses_of evs) \<le> lf_capacity (eng_responses e)"
    and "lf_inv (eng_updates e)" and "num_elements (eng_updates e) + length (updates_of evs) \<le> lf_capacity (eng_updates e)"
  shows "\<exists>e'. processClientRequest e req = Inr e'
     \<and> lf_contents (eng_responses e') = lf_contents (eng_responses e) @ responses_of evs
     \<and> lf_contents (eng_updates e') = lf_contents (eng_updates e) @ updates_of evs
     \<and> eng_books e' = (eng_books e)(unat (req_ticker_id req) := m)"
  using assms lq.push_all[of "eng_responses e" "responses_of evs"] lq.push_all[of "eng_updates e" "updates_of evs"]
  by (simp add: processClientRequest_def send_events)

theorem engine_queues_messages_witness:
  "\<exists>e'. processClientRequest sample_engine sample_sell = Inr e'
     \<and> length (lf_contents (eng_responses e')) = 1 \<and> length (lf_contents (eng_updates e')) = 1"
proof -
  obtain m where m: "ob_add sample_book 1 5 0 SELL 100 10 = Inr (m, snd (snd (spec_add 1 1 5 0 SELL 100 10 [] [])))"
    using sample_first by blast
  have len: "length (responses_of (snd (snd (spec_add 1 1 5 0 SELL 100 10 [] [])))) = 1"
      "length (updates_of (snd (snd (spec_add 1 1 5 0 SELL 100 10 [] [])))) = 1"
    by (simp_all add: spec_add_def Let_def)
  have "\<exists>e'. processClientRequest sample_engine sample_sell = Inr e'
     \<and> lf_contents (eng_responses e') = lf_contents (eng_responses sample_engine)
         @ responses_of (snd (snd (spec_add 1 1 5 0 SELL 100 10 [] [])))
     \<and> lf_contents (eng_updates e') = lf_contents (eng_updates sample_engine)
         @ updates_of (snd (snd (spec_add 1 1 5 0 SELL 100 10 [] [])))
     \<and> eng_books e' = (eng_books sample_engine)(unat (req_ticker_id sample_sell) := m)"
    by (rule engine_queues_messages)
       (use m len in \<open>simp_all add: sample_engine_def MatchingEngine_new_def sample_sell_def sample_book_def sizing_defs
          lf_inv_def LFQueue_new_def\<close>)
  moreover have "lf_contents (eng_responses sample_engine) = []" "lf_contents (eng_updates sample_engine) = []"
    by (simp_all add: sample_engine_def MatchingEngine_new_def lf_contents_def LFQueue_new_def)
  ultimately show ?thesis using len by (auto simp del: length_lf_contents)
qed

end
