(* ===== verification/MarketOrderBook.thy ===== *)
theory MarketOrderBook
  imports BookView Messages
begin

text \<open>
  \<^verbatim>\<open>trading/strategy/market_order.h\<close>, \<^verbatim>\<open>trading/strategy/market_order_book.h\<close> and
  \<^verbatim>\<open>trading/strategy/market_order_book.cpp\<close>: the client's copy of the book of one ticker. The four list operations
  are those of the theory BookCore at the place \<open>order_id\<close> of an order; this theory adds the best bid and offer
  and \<open>onMarketUpdate\<close>. What the book calls in the trade engine is the list of callbacks it returns.
\<close>

section \<open>Data\<close>

record MarketOrder = order_node +
  mk_order_id :: OrderId

definition MarketOrder_default :: MarketOrder where
  "MarketOrder_default =
     \<lparr> on_side = Side_INVALID, on_price = Price_INVALID, on_qty = Qty_INVALID, on_priority = Priority_INVALID,
       on_prev = None, on_next = None, mk_order_id = OrderId_INVALID \<rparr>"

definition MarketOrder_new :: "OrderId \<Rightarrow> Side \<Rightarrow> Price \<Rightarrow> Qty \<Rightarrow> Priority \<Rightarrow> ptr \<Rightarrow> ptr \<Rightarrow> MarketOrder" where
  "MarketOrder_new order_id side price qty priority prev next =
     \<lparr> on_side = side, on_price = price, on_qty = qty, on_priority = priority, on_prev = prev, on_next = next,
       mk_order_id = order_id \<rparr>"

type_synonym mk_book = "(nat, unit MarketOrder_ext) book"

text \<open>\<open>oid_to_order_.at(order_id)\<close>.\<close>

definition mk_slot :: "MarketOrder \<Rightarrow> nat result" where
  "mk_slot order = at ME_MAX_ORDER_IDS (unat (mk_order_id order))"

record BBO =
  bid_price :: Price
  ask_price :: Price
  bid_qty :: Qty
  ask_qty :: Qty

definition BBO_default :: BBO where
  "BBO_default = \<lparr> bid_price = Price_INVALID, ask_price = Price_INVALID, bid_qty = Qty_INVALID, ask_qty = Qty_INVALID \<rparr>"

record MarketOrderBook =
  mb_ticker_id :: TickerId
  mb_book :: mk_book
  mb_bbo :: BBO

text \<open>As on the exchange, the constructor does not initialise the two arrays of pointers.\<close>

definition MarketOrderBook_new :: "TickerId \<Rightarrow> (nat \<Rightarrow> ptr) \<Rightarrow> (nat \<Rightarrow> ptr) \<Rightarrow> MarketOrderBook" where
  "MarketOrderBook_new ticker_id ids levels =
     \<lparr> mb_ticker_id = ticker_id,
       mb_book = book_new ME_MAX_PRICE_LEVELS ME_MAX_ORDER_IDS MarketOrder_default ids levels,
       mb_bbo = BBO_default \<rparr>"

datatype callback = OnTradeUpdate MEMarketUpdate | OnOrderBookUpdate TickerId Price Side

section \<open>The list operations of this book\<close>

definition mk_addOrdersAtPrice :: "mk_book \<Rightarrow> nat \<Rightarrow> mk_book result" where
  "mk_addOrdersAtPrice = addOrdersAtPrice"

definition mk_removeOrdersAtPrice :: "mk_book \<Rightarrow> Side \<Rightarrow> Price \<Rightarrow> mk_book result" where
  "mk_removeOrdersAtPrice = removeOrdersAtPrice"

definition mk_removeOrder :: "mk_book \<Rightarrow> ptr \<Rightarrow> mk_book result" where
  "mk_removeOrder = removeOrder mk_slot"

definition mk_addOrder :: "mk_book \<Rightarrow> nat \<Rightarrow> mk_book result" where
  "mk_addOrder = addOrder mk_slot"

section \<open>Best bid and offer\<close>

text \<open>
  The loop that adds up a level: from the order after the first until the first comes round again. The
  queue is shorter than the pool, which bounds the number of rounds.
\<close>

fun sum_level :: "nat \<Rightarrow> MarketOrder MemPool \<Rightarrow> ptr \<Rightarrow> ptr \<Rightarrow> Qty \<Rightarrow> Qty result" where
  "sum_level fuel R first p qty =
     (if p = first then Inr qty
      else
        (case fuel of
           0 \<Rightarrow> Inl OutOfFuel
         | Suc fuel' \<Rightarrow> bindR (deref R p) (\<lambda>order. sum_level fuel' R first (on_next order) (qty + on_qty order))))"

declare sum_level.simps [simp del]

definition best_summary :: "mk_book \<Rightarrow> ptr \<Rightarrow> (Price \<times> Qty) result" where
  "best_summary b best =
     (case best of
        None \<Rightarrow> Inr (Price_INVALID, Qty_INVALID)
      | Some l \<Rightarrow>
          bindR (deref (bk_orders b) (lv_first (LV b l))) (\<lambda>f.
          bindR (sum_level (pool_size (bk_orders b)) (bk_orders b) (lv_first (LV b l)) (on_next f) (on_qty f)) (\<lambda>qty.
          Inr (lv_price (LV b l), qty))))"

definition updateBBO :: "bool \<Rightarrow> bool \<Rightarrow> MarketOrderBook \<Rightarrow> MarketOrderBook result" where
  "updateBBO update_bid update_ask m =
     bindR (if update_bid
            then bindR (best_summary (mb_book m) (bk_bids (mb_book m))) (\<lambda>(p, q).
                 Inr (m\<lparr> mb_bbo := (mb_bbo m)\<lparr> bid_price := p, bid_qty := q \<rparr> \<rparr>))
            else Inr m) (\<lambda>m1.
     if update_ask
     then bindR (best_summary (mb_book m1) (bk_asks (mb_book m1))) (\<lambda>(p, q).
          Inr (m1\<lparr> mb_bbo := (mb_bbo m1)\<lparr> ask_price := p, ask_qty := q \<rparr> \<rparr>))
     else Inr m1)"

section \<open>Market updates\<close>

text \<open>
  \<open>CLEAR\<close>: every order of the id array and every level of both lists is given back to its pool, and
  the id array and the two heads are reset. The loop over a list of levels visits the levels after the head, then
  the head.
\<close>

definition clear_orders :: "(nat \<Rightarrow> ptr) \<Rightarrow> MarketOrder MemPool \<Rightarrow> MarketOrder MemPool result" where
  "clear_orders ids = foldR (\<lambda>k R. case ids k of None \<Rightarrow> Inr R | Some i \<Rightarrow> deallocate R i) [0..<ME_MAX_ORDER_IDS]"

fun clear_walk :: "nat \<Rightarrow> ptr \<Rightarrow> ptr \<Rightarrow> OrdersAtPrice MemPool \<Rightarrow> OrdersAtPrice MemPool result" where
  "clear_walk fuel head p L =
     (if p = head then Inr L
      else
        (case fuel of
           0 \<Rightarrow> Inl OutOfFuel
         | Suc fuel' \<Rightarrow>
             (case p of
                None \<Rightarrow> Inl NullDeref
              | Some l \<Rightarrow> bindR (deallocate L l) (\<lambda>L'. clear_walk fuel' head (lv_next (obj L' l)) L'))))"

declare clear_walk.simps [simp del]

definition clear_levels :: "ptr \<Rightarrow> OrdersAtPrice MemPool \<Rightarrow> OrdersAtPrice MemPool result" where
  "clear_levels head L =
     (case head of
        None \<Rightarrow> Inr L
      | Some h \<Rightarrow> bindR (clear_walk (pool_size L) head (lv_next (obj L h)) L) (\<lambda>L'. deallocate L' h))"

definition clear_book :: "mk_book \<Rightarrow> mk_book result" where
  "clear_book b =
     bindR (clear_orders (bk_index b) (bk_orders b)) (\<lambda>R.
     bindR (clear_levels (bk_bids b) (bk_levels b)) (\<lambda>L1.
     bindR (clear_levels (bk_asks b) L1) (\<lambda>L2.
     Inr (b\<lparr> bk_orders := R, bk_index := (\<lambda>_. None), bk_levels := L2, bk_bids := None, bk_asks := None \<rparr>))))"

definition find_order :: "mk_book \<Rightarrow> OrderId \<Rightarrow> ptr result" where
  "find_order b order_id = bindR (at ME_MAX_ORDER_IDS (unat order_id)) (\<lambda>k. Inr (bk_index b k))"

text \<open>The part of \<open>onMarketUpdate\<close> that changes the book: its \<open>switch\<close>, but for \<open>TRADE\<close>, which returns early.\<close>

definition apply_update :: "mk_book \<Rightarrow> MEMarketUpdate \<Rightarrow> mk_book result" where
  "apply_update b u =
     (case mu_type u of
        ADD \<Rightarrow>
          bindR (allocate (bk_orders b)
                   (MarketOrder_new (mu_order_id u) (mu_side u) (mu_price u) (mu_qty u) (mu_priority u) None None))
            (\<lambda>(order, R). mk_addOrder (b\<lparr> bk_orders := R \<rparr>) order)
      | MODIFY \<Rightarrow>
          bindR (find_order b (mu_order_id u)) (\<lambda>order.
          bindR (assign (bk_orders b) order (on_qty_update (\<lambda>_. mu_qty u))) (\<lambda>R. Inr (b\<lparr> bk_orders := R \<rparr>)))
      | Upd_CANCEL \<Rightarrow> bindR (find_order b (mu_order_id u)) (mk_removeOrder b)
      | CLEAR \<Rightarrow> clear_book b
      | _ \<Rightarrow> Inr b)"

definition onMarketUpdate :: "MarketOrderBook \<Rightarrow> MEMarketUpdate \<Rightarrow> (MarketOrderBook \<times> callback list) result" where
  "onMarketUpdate m u =
     (let b = mb_book m;
          bid_updated = (mu_side u = BUY
            \<and> (case bk_bids b of None \<Rightarrow> True | Some l \<Rightarrow> mu_price u \<ge> lv_price (LV b l)));
          ask_updated = (mu_side u = SELL
            \<and> (case bk_asks b of None \<Rightarrow> True | Some l \<Rightarrow> mu_price u \<le> lv_price (LV b l)))
      in
      if mu_type u = TRADE then Inr (m, [OnTradeUpdate u])
      else
        bindR (apply_update b u) (\<lambda>b'.
        bindR (updateBBO bid_updated ask_updated (m\<lparr> mb_book := b' \<rparr>)) (\<lambda>m'.
        Inr (m', [OnOrderBookUpdate (mu_ticker_id u) (mu_price u) (mu_side u)]))))"

section \<open>Refinement of the updates\<close>

interpretation mk: keyed_orders mk_slot
  by unfold_locales (simp_all add: mk_slot_def unlinked_def)

lemma mk_unlinked [simp]: "mk_order_id (unlinked n) = mk_order_id n"
  by (simp add: unlinked_def)

lemma apply_ADD:
  assumes view: "half_view mk_slot b side V W" and side: "side = BUY \<or> side = SELL"
    and u: "mu_type u = ADD" "mu_side u = side" "price_in_window (mu_price u)" "mu_price u \<notin> set (map fst W)"
    and key: "unat (mu_order_id u) < ME_MAX_ORDER_IDS" "bk_index b (unat (mu_order_id u)) = None"
    and room: "has_room (bk_levels b)" "has_room (bk_orders b)"
  shows "\<exists>b'. apply_update b u = Inr b'
     \<and> half_view mk_slot b' side (view_insert side (mu_price u)
          (MarketOrder_new (mu_order_id u) side (mu_price u) (mu_qty u) (mu_priority u) None None) V) W
     \<and> pool_size (bk_levels b') = pool_size (bk_levels b) \<and> pool_size (bk_orders b') = pool_size (bk_orders b)"
proof -
  let ?o = "MarketOrder_new (mu_order_id u) side (mu_price u) (mu_qty u) (mu_priority u) None None"
  have o: "on_side ?o = side" "mk_slot ?o = Inr (unat (mu_order_id u))" "on_price ?o = mu_price u" "unlinked ?o = ?o"
    using key(1) by (simp_all add: MarketOrder_new_def mk_slot_def unlinked_def)
  show ?thesis
    using mk.view_place[OF view side o(1,2) key(2) _ _ room] o u
    by (simp add: apply_update_def mk_addOrder_def place_order_def)
qed

lemma mk_slot_id: "unat oid < ME_MAX_ORDER_IDS \<Longrightarrow> (\<lambda>w. mk_slot w = Inr (unat oid)) = (\<lambda>w. mk_order_id w = oid)"
  by (auto simp: mk_slot_def at_def fun_eq_iff dest: unsigned_word_eqI)

lemma find_order_view:
  assumes view: "half_view mk_slot b side V W" and v: "v \<in> set (view_orders V)" "mk_order_id v = oid"
  shows "\<exists>i. find_order b oid = Inr (Some i) \<and> bk_index b (unat oid) = Some i \<and> unlinked (ON b i) = v
     \<and> on_side (ON b i) = side \<and> unat oid < ME_MAX_ORDER_IDS"
proof -
  obtain k i where ki: "mk_slot v = Inr k" "bk_index b k = Some i" "unlinked (ON b i) = v"
    using mk.view_key[OF view, of v] v(1) by auto
  have k: "k = unat oid" "unat oid < ME_MAX_ORDER_IDS" using ki(1) v(2) by (auto simp: mk_slot_def result_simps)
  have "on_side v = side" using v(1) half_view_sides(1)[OF view] by (auto simp: side_view_ok_def view_orders_def)
  then have "on_side (ON b i) = side" using ki(3) by auto
  then show ?thesis using ki k by (simp add: find_order_def)
qed

lemma apply_MODIFY:
  assumes view: "half_view mk_slot b side V W" and side: "side = BUY \<or> side = SELL"
    and u: "mu_type u = MODIFY" and v: "v \<in> set (view_orders V)" "mk_order_id v = mu_order_id u"
  shows "\<exists>b'. apply_update b u = Inr b'
     \<and> half_view mk_slot b' side (view_update (\<lambda>w. mk_order_id w = mu_order_id u) (on_qty_update (\<lambda>_. mu_qty u)) V) W
     \<and> pool_size (bk_levels b') = pool_size (bk_levels b) \<and> pool_size (bk_orders b') = pool_size (bk_orders b)"
proof -
  obtain i where i: "find_order b (mu_order_id u) = Inr (Some i)" "bk_index b (unat (mu_order_id u)) = Some i"
      "on_side (ON b i) = side" "unat (mu_order_id u) < ME_MAX_ORDER_IDS"
    using find_order_view[OF view v] by blast
  show ?thesis
    using mk.view_set_qty[OF view side i(2,3), of "\<lambda>_. mu_qty u"] i(1) u mk_slot_id[OF i(4)]
    by (simp add: apply_update_def)
qed

lemma apply_CANCEL:
  assumes view: "half_view mk_slot b side V W" and side: "side = BUY \<or> side = SELL"
    and u: "mu_type u = Upd_CANCEL" and v: "v \<in> set (view_orders V)" "mk_order_id v = mu_order_id u"
  shows "\<exists>b'. apply_update b u = Inr b'
     \<and> half_view mk_slot b' side (view_delete (\<lambda>w. mk_order_id w = mu_order_id u) V) W
     \<and> pool_size (bk_levels b') = pool_size (bk_levels b) \<and> pool_size (bk_orders b') = pool_size (bk_orders b)"
proof -
  obtain i where i: "find_order b (mu_order_id u) = Inr (Some i)" "bk_index b (unat (mu_order_id u)) = Some i"
      "on_side (ON b i) = side" "unat (mu_order_id u) < ME_MAX_ORDER_IDS"
    using find_order_view[OF view v] by blast
  show ?thesis
    using mk.view_remove[OF view side i(2,3)] i(1) u mk_slot_id[OF i(4)]
    by (simp add: apply_update_def mk_removeOrder_def)
qed

text \<open>An update for an order that is not in the book goes through a null pointer.\<close>

lemma apply_unknown:
  assumes "mu_type u = MODIFY \<or> mu_type u = Upd_CANCEL" and "unat (mu_order_id u) < ME_MAX_ORDER_IDS"
    and "bk_index b (unat (mu_order_id u)) = None"
  shows "apply_update b u = Inl NullDeref"
  using assms by (auto simp: apply_update_def find_order_def mk_removeOrder_def removeOrder_def)

section \<open>The best bid and offer\<close>

definition view_summary :: "MarketOrder side_view \<Rightarrow> Price \<times> Qty" where
  "view_summary V = (case V of [] \<Rightarrow> (Price_INVALID, Qty_INVALID) | (p, vs) # _ \<Rightarrow> (p, sum_list (map on_qty vs)))"

lemma sum_level_links:
  assumes "links (\<lambda>i. on_next (obj R i)) pv (os @ [f])" and "f \<notin> set os" and "length os < fuel"
  shows "sum_level fuel R (Some f) (Some (hd (os @ [f]))) qty = Inr (qty + sum_list (map (\<lambda>i. on_qty (obj R i)) os))"
  using assms
proof (induction os arbitrary: fuel qty)
  case Nil
  then show ?case by (simp add: sum_level.simps)
next
  case (Cons i os)
  obtain fuel' where fuel: "fuel = Suc fuel'" using Cons.prems(3) by (cases fuel) auto
  obtain y ys where y: "os @ [f] = y # ys" by (cases "os @ [f]") auto
  have "on_next (obj R i) = Some (hd (os @ [f]))" "links (\<lambda>i. on_next (obj R i)) pv (os @ [f])"
    using Cons.prems(1) y by auto
  then show ?case
    using Cons.IH[of fuel' "qty + on_qty (obj R i)"] Cons.prems fuel
    by (auto simp: sum_level.simps[of "Suc fuel'"] add.assoc)
qed

lemma best_summary_view:
  assumes view: "half_view mk_slot b side V W"
  shows "best_summary b (best_of side b) = Inr (view_summary V)"
proof -
  obtain Ls Ms where rep: "half_rep mk_slot b side Ls Ms" and V: "V = abs_side b Ls"
    using view by (auto simp: half_view_def)
  note rep' = rep[unfolded half_rep_def]
  show ?thesis
  proof (cases Ls)
    case Nil
    then show ?thesis using rep' V by (simp add: side_ok_def levels_linked_def best_summary_def view_summary_def)
  next
    case (Cons x Ls')
    obtain l os where x: "x = (l, os)" by (cases x)
    have lv: "level_ok b side (l, os)" and head: "best_of side b = Some l"
      using rep' Cons x by (simp_all add: side_ok_def levels_linked_def)
    then obtain f fs where os: "os = f # fs" by (cases os) (auto simp: level_ok_def ring_def)
    have r: "ring (onx b) (opv b) (f # fs)" and first: "lv_first (LV b l) = Some f" using lv os by (simp_all add: level_ok_def)
    then have links: "links (\<lambda>i. on_next (ON b i)) (opv b) (fs @ [f])" "on_next (ON b f) = Some (hd (fs @ [f]))"
      by (cases fs; simp add: ring_def onx_def)+
    have "set os \<subseteq> in_use (bk_orders b)" using rep' Cons x by (auto simp: pools_ok_def live_orders_def)
    moreover have "distinct os" using ring_distinct[OF r] os by simp
    ultimately have "length fs < pool_size (bk_orders b)" using distinct_blocks_le[of os] os by fastforce
    moreover have "f \<notin> set fs" using \<open>distinct os\<close> os by simp
    ultimately show ?thesis
      using sum_level_links[OF links(1)] links(2) head first
      by (simp add: best_summary_def view_summary_def V Cons x os comp_def)
  qed
qed

section \<open>The invariant of the client's book\<close>

definition bbo_of :: "Side \<Rightarrow> MarketOrderBook \<Rightarrow> Price \<times> Qty" where
  "bbo_of side m = (if side = BUY then (bid_price (mb_bbo m), bid_qty (mb_bbo m)) else (ask_price (mb_bbo m), ask_qty (mb_bbo m)))"

text \<open>The book is well formed, and the summary is that of the two sides.\<close>

definition mb_inv :: "MarketOrderBook \<Rightarrow> Side \<Rightarrow> MarketOrder side_view \<Rightarrow> MarketOrder side_view \<Rightarrow> bool" where
  "mb_inv m side V W \<longleftrightarrow> half_view mk_slot (mb_book m) side V W
     \<and> bbo_of side m = view_summary V \<and> bbo_of (opp side) m = view_summary W
     \<and> pool_size (bk_levels (mb_book m)) = ME_MAX_PRICE_LEVELS \<and> pool_size (bk_orders (mb_book m)) = ME_MAX_ORDER_IDS"

lemma mb_inv_swap: "side = BUY \<or> side = SELL \<Longrightarrow> mb_inv m side V W \<longleftrightarrow> mb_inv m (opp side) W V"
  using half_view_swap[of side mk_slot "mb_book m" V W] by (auto simp: mb_inv_def)

lemma mb_inv_new: "mb_inv (MarketOrderBook_new t (\<lambda>_. None) (\<lambda>_. None)) side [] []"
  using half_view_new[of ME_MAX_PRICE_LEVELS ME_MAX_ORDER_IDS mk_slot MarketOrder_default side]
  by (simp add: mb_inv_def MarketOrderBook_new_def book_new_def MemPool_new_def sizing_defs bbo_of_def BBO_default_def
      view_summary_def)

text \<open>The condition under which the code refreshes the summary of a side.\<close>

definition touches :: "Side \<Rightarrow> MarketOrder side_view \<Rightarrow> Price \<Rightarrow> bool" where
  "touches side V price = (case V of [] \<Rightarrow> True | (q, _) # _ \<Rightarrow> \<not> better side q price)"

lemma touches_best:
  assumes view: "half_view mk_slot b side V W" and side: "side = BUY \<or> side = SELL"
  shows "(case best_of side b of None \<Rightarrow> True | Some l \<Rightarrow> \<not> better side (lv_price (LV b l)) price) = touches side V price"
proof (cases V)
  case Nil
  then show ?thesis using half_view_no_best[OF view] by (simp add: touches_def)
next
  case (Cons x V')
  obtain q vs where x: "x = (q, vs)" by (cases x)
  then have "vs \<noteq> []" using half_view_sides(1)[OF view] Cons by (auto simp: side_view_ok_def)
  then obtain v vs' where "vs = v # vs'" by (cases vs) auto
  then show ?thesis using half_view_best[of mk_slot b side q v vs' V' W] view Cons x by (auto simp: touches_def)
qed

lemma onMarketUpdate_step:
  assumes inv: "mb_inv m side V W" and side: "side = BUY \<or> side = SELL" and u: "mu_side u = side" "mu_type u \<noteq> TRADE"
    and app: "apply_update (mb_book m) u = Inr b'" "half_view mk_slot b' side V' W"
      "pool_size (bk_levels b') = pool_size (bk_levels (mb_book m))" "pool_size (bk_orders b') = pool_size (bk_orders (mb_book m))"
    and same: "\<not> touches side V (mu_price u) \<Longrightarrow> view_summary V' = view_summary V"
  shows "\<exists>m'. onMarketUpdate m u = Inr (m', [OnOrderBookUpdate (mu_ticker_id u) (mu_price u) side]) \<and> mb_inv m' side V' W
     \<and> mb_ticker_id m' = mb_ticker_id m"
proof -
  let ?b = "mb_book m"
  note inv' = inv[unfolded mb_inv_def]
  have view: "half_view mk_slot ?b side V W" using inv' by blast
  have sum: "best_summary b' (best_of side b') = Inr (view_summary V')" by (rule best_summary_view[OF app(2)])
  let ?t = "touches side V (mu_price u)"
  obtain p q where pq: "view_summary V' = (p, q)" by (cases "view_summary V'")
  define m' where "m' = (if \<not> ?t then m\<lparr> mb_book := b' \<rparr>
     else if side = BUY then m\<lparr> mb_book := b', mb_bbo := (mb_bbo m)\<lparr> bid_price := p, bid_qty := q \<rparr> \<rparr>
     else m\<lparr> mb_book := b', mb_bbo := (mb_bbo m)\<lparr> ask_price := p, ask_qty := q \<rparr> \<rparr>)"
  have upd: "updateBBO (side = BUY \<and> ?t) (side = SELL \<and> ?t) (m\<lparr> mb_book := b' \<rparr>) = Inr m'"
    using side sum pq by (auto simp: updateBBO_def m'_def best_of_def)
  have flags: "(mu_side u = BUY \<and> (case bk_bids ?b of None \<Rightarrow> True | Some l \<Rightarrow> mu_price u \<ge> lv_price (LV ?b l))) = (side = BUY \<and> ?t)"
      "(mu_side u = SELL \<and> (case bk_asks ?b of None \<Rightarrow> True | Some l \<Rightarrow> mu_price u \<le> lv_price (LV ?b l))) = (side = SELL \<and> ?t)"
    using touches_best[OF view side, of "mu_price u"] u(1)
    by (auto simp: best_of_def better_def not_less split: option.splits)
  have "onMarketUpdate m u = Inr (m', [OnOrderBookUpdate (mu_ticker_id u) (mu_price u) side])"
    using u app(1) upd unfolding onMarketUpdate_def Let_def flags by simp
  moreover have "bbo_of side m' = (if ?t then (p, q) else bbo_of side m)" "bbo_of (opp side) m' = bbo_of (opp side) m"
    using side by (auto simp: m'_def bbo_of_def)
  then have "bbo_of side m' = view_summary V'" "bbo_of (opp side) m' = view_summary W"
    using inv' same pq by (cases ?t; simp)+
  moreover have "mb_book m' = b'" "mb_ticker_id m' = mb_ticker_id m" by (simp_all add: m'_def)
  ultimately show ?thesis using inv' app by (auto simp: mb_inv_def)
qed

lemma insert_below_best:
  assumes "\<not> touches side V price"
  shows "view_summary (view_insert side price v V) = view_summary V"
proof (cases V)
  case (Cons x V')
  obtain q vs where x: "x = (q, vs)" by (cases x)
  then have "better side q price" using assms Cons by (simp add: touches_def)
  then have "q \<noteq> price" "\<not> better side price q" using better_asym by auto
  then show ?thesis by (simp add: Cons x view_summary_def)
qed (use assms in \<open>simp add: touches_def\<close>)

lemma other_level_head:
  assumes view: "half_view mk_slot b side V W" and v: "v \<in> set (view_orders V)" and t: "\<not> touches side V (on_price v)"
  shows "\<exists>q vs V'. V = (q, vs) # V' \<and> vs \<noteq> [] \<and> (\<forall>w \<in> set vs. mk_order_id w \<noteq> mk_order_id v)"
proof -
  obtain q vs V' where V: "V = (q, vs) # V'" and bet: "better side q (on_price v)" using t by (cases V) (auto simp: touches_def)
  have ok: "side_view_ok side V" by (rule half_view_sides(1)[OF view])
  have "mk_order_id w \<noteq> mk_order_id v" if w: "w \<in> set vs" for w
  proof
    assume "mk_order_id w = mk_order_id v"
    then have "w = v" using mk.view_same_key[OF view, of w v] w v V by (auto simp: mk_slot_def)
    moreover have "on_price w = q" using ok w V by (auto simp: side_view_ok_def)
    ultimately show False using bet by simp
  qed
  then show ?thesis using V ok by (auto simp: side_view_ok_def)
qed

text \<open>The three updates of an order.\<close>

lemma onMarketUpdate_ADD:
  assumes inv: "mb_inv m side V W" and side: "side = BUY \<or> side = SELL"
    and u: "mu_type u = ADD" "mu_side u = side" "price_in_window (mu_price u)" "mu_price u \<notin> set (map fst W)"
    and key: "unat (mu_order_id u) < ME_MAX_ORDER_IDS"
      "\<And>v. v \<in> set (view_orders V @ view_orders W) \<Longrightarrow> mk_order_id v \<noteq> mu_order_id u"
    and room: "length V + length W + 1 < ME_MAX_PRICE_LEVELS"
      "length (view_orders V) + length (view_orders W) + 1 < ME_MAX_ORDER_IDS"
  shows "\<exists>m'. onMarketUpdate m u = Inr (m', [OnOrderBookUpdate (mu_ticker_id u) (mu_price u) side])
     \<and> mb_inv m' side (view_insert side (mu_price u)
          (MarketOrder_new (mu_order_id u) side (mu_price u) (mu_qty u) (mu_priority u) None None) V) W
     \<and> mb_ticker_id m' = mb_ticker_id m"
proof -
  have view: "half_view mk_slot (mb_book m) side V W" using inv by (simp add: mb_inv_def)
  have free: "bk_index (mb_book m) (unat (mu_order_id u)) = None"
  proof (rule ccontr)
    assume "bk_index (mb_book m) (unat (mu_order_id u)) \<noteq> None"
    then obtain i where i: "bk_index (mb_book m) (unat (mu_order_id u)) = Some i" by blast
    have "mk_order_id (ON (mb_book m) i) = mu_order_id u"
      using mk.view_lookup(1)[OF view i] by (auto simp: mk_slot_def result_simps dest: unsigned_word_eqI)
    then show False using mk.view_lookup(2)[OF view i] key(2)[of "unlinked (ON (mb_book m) i)"] by simp
  qed
  have rooms: "has_room (bk_levels (mb_book m))" "has_room (bk_orders (mb_book m))"
    using inv half_view_counts(1,2)[OF view] room by (simp_all add: has_room_def mb_inv_def)
  show ?thesis
    using apply_ADD[OF view side u key(1) free rooms] onMarketUpdate_step[OF inv side u(2)] u(1) insert_below_best by auto
qed

lemma onMarketUpdate_MODIFY:
  assumes inv: "mb_inv m side V W" and side: "side = BUY \<or> side = SELL" and u: "mu_type u = MODIFY" "mu_side u = side"
    and v: "v \<in> set (view_orders V)" "mk_order_id v = mu_order_id u" "mu_price u = on_price v"
  shows "\<exists>m'. onMarketUpdate m u = Inr (m', [OnOrderBookUpdate (mu_ticker_id u) (mu_price u) side])
     \<and> mb_inv m' side (view_update (\<lambda>w. mk_order_id w = mu_order_id u) (on_qty_update (\<lambda>_. mu_qty u)) V) W
     \<and> mb_ticker_id m' = mb_ticker_id m"
proof -
  have view: "half_view mk_slot (mb_book m) side V W" using inv by (simp add: mb_inv_def)
  let ?V = "view_update (\<lambda>w. mk_order_id w = mu_order_id u) (on_qty_update (\<lambda>_. mu_qty u)) V"
  have "view_summary ?V = view_summary V" if "\<not> touches side V (mu_price u)"
    using other_level_head[OF view v(1)] that v(2,3) by (auto simp: view_summary_def cong: map_cong)
  then show ?thesis
    using apply_MODIFY[OF view side u(1) v(1,2)] onMarketUpdate_step[OF inv side u(2)] u(1) by auto
qed

lemma onMarketUpdate_CANCEL:
  assumes inv: "mb_inv m side V W" and side: "side = BUY \<or> side = SELL" and u: "mu_type u = Upd_CANCEL" "mu_side u = side"
    and v: "v \<in> set (view_orders V)" "mk_order_id v = mu_order_id u" "mu_price u = on_price v"
  shows "\<exists>m'. onMarketUpdate m u = Inr (m', [OnOrderBookUpdate (mu_ticker_id u) (mu_price u) side])
     \<and> mb_inv m' side (view_delete (\<lambda>w. mk_order_id w = mu_order_id u) V) W
     \<and> mb_ticker_id m' = mb_ticker_id m"
proof -
  have view: "half_view mk_slot (mb_book m) side V W" using inv by (simp add: mb_inv_def)
  let ?V = "view_delete (\<lambda>w. mk_order_id w = mu_order_id u) V"
  have "view_summary ?V = view_summary V" if t: "\<not> touches side V (mu_price u)"
  proof -
    obtain q vs V' where V: "V = (q, vs) # V'" "vs \<noteq> []" "\<forall>w \<in> set vs. mk_order_id w \<noteq> mk_order_id v"
      using other_level_head[OF view v(1)] t v(3) by auto
    then have "filter (\<lambda>w. mk_order_id w \<noteq> mu_order_id u) vs = vs" using v(2) by (intro filter_True) auto
    then show ?thesis using V(1,2) by (simp add: view_summary_def Let_def)
  qed
  then show ?thesis
    using apply_CANCEL[OF view side u(1) v(1,2)] onMarketUpdate_step[OF inv side u(2)] u(1) by auto
qed

end
