(* ===== verification/MarketBookClear.thy ===== *)
theory MarketBookClear
  imports MarketOrderBook
begin

text \<open>
  What \<open>CLEAR\<close> does to the client's book: it always returns, empties both pools, the id array and the
  two lists, but leaves the array from prices to levels as it was. Where the book was not empty, that
  array keeps pointers to levels given back to their pool, and the next order at such a price is not put on the list.
\<close>

section \<open>Giving back the orders\<close>

lemma clear_orders_filter:
  "foldR (\<lambda>k R. case ids k of None \<Rightarrow> Inr R | Some i \<Rightarrow> deallocate R i) ks R
     = foldR (\<lambda>i R. deallocate R i) (List.map_filter ids ks) R"
proof (induction ks arbitrary: R)
  case (Cons k ks)
  then show ?case by (cases "ids k"; cases "deallocate R (the (ids k))") (simp_all add: List.map_filter_def)
qed (simp add: List.map_filter_def)

lemma distinct_map_filter:
  assumes "distinct ks" and "\<And>j k i. ids j = Some i \<Longrightarrow> ids k = Some i \<Longrightarrow> j = k"
  shows "distinct (List.map_filter ids ks)"
  using assms(1)
proof (induction ks)
  case (Cons k ks)
  have "ids j \<noteq> Some i" if "ids k = Some i" "j \<in> set ks" for i j
    using assms(2)[OF that(1), of j] Cons.prems that(2) by auto
  then show ?case using Cons by (cases "ids k") (auto simp: List.map_filter_def)
qed (simp add: List.map_filter_def)

lemma set_map_filter: "set (List.map_filter ids ks) = {i. \<exists>k \<in> set ks. ids k = Some i}"
  by (force simp: List.map_filter_def)

lemma clear_orders_ok:
  assumes view: "half_view mk_slot b side V W"
  shows "\<exists>R. clear_orders (bk_index b) (bk_orders b) = Inr R \<and> pool_inv R \<and> in_use R = {}
     \<and> pool_size R = pool_size (bk_orders b) \<and> (\<forall>i. obj R i = ON b i)"
proof -
  obtain Ls Ms where rep: "half_rep mk_slot b side Ls Ms" using view by (auto simp: half_view_def)
  note rep' = rep[unfolded half_rep_def]
  let ?is = "List.map_filter (bk_index b) [0..<ME_MAX_ORDER_IDS]"
  have key: "mk_slot (ON b i) = Inr k" if "bk_index b k = Some i" for k i
    using rep' that by (simp add: id_index_ok_def)
  have "k < ME_MAX_ORDER_IDS" if "bk_index b k = Some i" for k i
    using key[OF that] by (auto simp: mk_slot_def result_simps)
  then have "set ?is = {i. \<exists>k. bk_index b k = Some i}" by (auto simp: set_map_filter)
  also have "\<dots> = live_orders Ls Ms" using rep' by (auto simp: id_index_ok_def)
  finally have set: "set ?is = in_use (bk_orders b)" using rep' by (simp add: pools_ok_def)
  have "j = k" if "bk_index b j = Some i" "bk_index b k = Some i" for j k i
    using key[OF that(1)] key[OF that(2)] by simp
  then have "distinct ?is" by (intro distinct_map_filter) simp_all
  then show ?thesis
    using mp.dealloc_list[of "bk_orders b" ?is] set rep'
    unfolding clear_orders_def clear_orders_filter by (auto simp: pools_ok_def)
qed

section \<open>Giving back the levels\<close>

lemma clear_walk_links:
  assumes "links (\<lambda>l. lv_next (obj L l)) pv (D @ [h])" and "h \<notin> set D" and "distinct D" and "set D \<subseteq> in_use L"
    and "pool_inv L" and "length D \<le> fuel"
  shows "\<exists>L'. clear_walk fuel (Some h) (Some (hd (D @ [h]))) L = Inr L' \<and> pool_inv L' \<and> in_use L' = in_use L - set D
     \<and> pool_size L' = pool_size L \<and> (\<forall>l. obj L' l = obj L l)"
  using assms
proof (induction D arbitrary: fuel L)
  case Nil
  then show ?case by (simp add: clear_walk.simps)
next
  case (Cons d D)
  obtain fuel' where fuel: "fuel = Suc fuel'" using Cons.prems(6) by (cases fuel) auto
  obtain L1 where L1: "deallocate L d = Inr L1" "pool_inv L1" "pool_size L1 = pool_size L" "in_use L1 = in_use L - {d}"
      "\<forall>l. obj L1 l = obj L l"
    using mp.dealloc_ok[of L d] Cons.prems(4,5) by auto
  obtain y ys where y: "D @ [h] = y # ys" by (cases "D @ [h]") auto
  have next_d: "lv_next (obj L d) = Some (hd (D @ [h]))" and ln: "links (\<lambda>l. lv_next (obj L1 l)) pv (D @ [h])"
    using Cons.prems(1) y L1(5) by auto
  have "\<exists>L'. clear_walk fuel' (Some h) (Some (hd (D @ [h]))) L1 = Inr L' \<and> pool_inv L' \<and> in_use L' = in_use L1 - set D
     \<and> pool_size L' = pool_size L1 \<and> (\<forall>l. obj L' l = obj L1 l)"
    by (rule Cons.IH[OF ln]) (use Cons.prems fuel L1 in auto)
  then show ?case
    using Cons.prems(2) L1 next_d fuel by (auto simp: clear_walk.simps[of "Suc fuel'"])
qed

lemma clear_levels_ok:
  assumes head: "head = (if ls = [] then None else Some (hd ls))"
    and r: "ls \<noteq> [] \<Longrightarrow> ring (\<lambda>l. lv_next (obj L l)) (\<lambda>l. lv_prev (obj L l)) ls"
    and used: "set ls \<subseteq> in_use L" and pool: "pool_inv L"
  shows "\<exists>L'. clear_levels head L = Inr L' \<and> pool_inv L' \<and> in_use L' = in_use L - set ls
     \<and> pool_size L' = pool_size L \<and> (\<forall>l. obj L' l = obj L l)"
proof (cases ls)
  case Nil
  then show ?thesis using head pool by (simp add: clear_levels_def)
next
  case (Cons h D)
  have ring: "ring (\<lambda>l. lv_next (obj L l)) (\<lambda>l. lv_prev (obj L l)) (h # D)" using r Cons by simp
  then have d: "distinct (h # D)" by (rule ring_distinct)
  obtain y ys where y: "D @ [h] = y # ys" by (cases "D @ [h]") auto
  have ln: "links (\<lambda>l. lv_next (obj L l)) (\<lambda>l. lv_prev (obj L l)) (D @ [h])" and nx: "lv_next (obj L h) = Some (hd (D @ [h]))"
    using ring y by (simp_all add: ring_def)
  have "length D \<le> pool_size L" using distinct_blocks_le[of D L] d used Cons by simp
  then obtain L1 where L1: "clear_walk (pool_size L) (Some h) (Some (hd (D @ [h]))) L = Inr L1" "pool_inv L1"
      "in_use L1 = in_use L - set D" "pool_size L1 = pool_size L" "\<forall>l. obj L1 l = obj L l"
    using clear_walk_links[OF ln, of "pool_size L"] d used Cons pool by auto
  have "h \<in> in_use L1" using used d Cons L1(3) by auto
  then obtain L2 where "deallocate L1 h = Inr L2" "pool_inv L2" "pool_size L2 = pool_size L1" "in_use L2 = in_use L1 - {h}"
      "\<forall>l. obj L2 l = obj L1 l"
    using mp.dealloc_ok[OF L1(2)] by blast
  then show ?thesis using L1 head Cons nx by (auto simp: clear_levels_def)
qed

section \<open>The whole operation\<close>

lemma clear_book_ok:
  assumes view: "half_view mk_slot b BUY V W"
  shows "\<exists>b'. clear_book b = Inr b' \<and> bk_bids b' = None \<and> bk_asks b' = None \<and> bk_index b' = (\<lambda>_. None)
     \<and> bk_price_index b' = bk_price_index b \<and> pool_inv (bk_orders b') \<and> pool_inv (bk_levels b')
     \<and> in_use (bk_orders b') = {} \<and> in_use (bk_levels b') = {}
     \<and> pool_size (bk_orders b') = pool_size (bk_orders b) \<and> pool_size (bk_levels b') = pool_size (bk_levels b)
     \<and> (\<forall>i. ON b' i = ON b i) \<and> (\<forall>l. LV b' l = LV b l)"
proof -
  obtain Ls Ms where rep: "half_rep mk_slot b BUY Ls Ms" using view by (auto simp: half_view_def)
  note rep' = rep[unfolded half_rep_def]
  obtain R where R: "clear_orders (bk_index b) (bk_orders b) = Inr R" "pool_inv R" "in_use R = {}"
      "pool_size R = pool_size (bk_orders b)" "\<forall>i. obj R i = ON b i"
    using clear_orders_ok[OF view] by blast
  have heads: "bk_bids b = (if level_blocks Ls = [] then None else Some (hd (level_blocks Ls)))"
      "bk_asks b = (if level_blocks Ms = [] then None else Some (hd (level_blocks Ms)))"
    using rep' by (auto simp: side_ok_def levels_linked_def best_of_def)
  have used: "in_use (bk_levels b) = set (level_blocks Ls) \<union> set (level_blocks Ms)" "pool_inv (bk_levels b)"
    using rep' by (simp_all add: pools_ok_def live_levels_def)
  have rings: "level_blocks Ls \<noteq> [] \<Longrightarrow> ring (\<lambda>l. lv_next (LV b l)) (\<lambda>l. lv_prev (LV b l)) (level_blocks Ls)"
      "level_blocks Ms \<noteq> [] \<Longrightarrow> ring (\<lambda>l. lv_next (LV b l)) (\<lambda>l. lv_prev (LV b l)) (level_blocks Ms)"
    using rep' by (simp_all add: side_ok_def levels_linked_def lnx_def lpv_def)
  obtain L1 where L1: "clear_levels (bk_bids b) (bk_levels b) = Inr L1" "pool_inv L1"
      "in_use L1 = in_use (bk_levels b) - set (level_blocks Ls)" "pool_size L1 = pool_size (bk_levels b)"
      "\<forall>l. obj L1 l = LV b l"
    using clear_levels_ok[OF heads(1) rings(1)] used by auto
  have "\<exists>L2. clear_levels (bk_asks b) L1 = Inr L2 \<and> pool_inv L2 \<and> in_use L2 = in_use L1 - set (level_blocks Ms)
     \<and> pool_size L2 = pool_size L1 \<and> (\<forall>l. obj L2 l = obj L1 l)"
    by (rule clear_levels_ok[OF heads(2)])
       (use rings(2) L1 used rep' in \<open>auto simp: shapes_disjoint_def\<close>)
  then obtain L2 where L2: "clear_levels (bk_asks b) L1 = Inr L2" "pool_inv L2" "in_use L2 = in_use L1 - set (level_blocks Ms)"
      "pool_size L2 = pool_size L1" "\<forall>l. obj L2 l = obj L1 l" by blast
  show ?thesis
    using R L1 L2 used(1) by (auto simp: clear_book_def)
qed

text \<open>On a book with no levels the result is an empty well-formed book.\<close>

lemma clear_book_empty:
  assumes "half_view mk_slot b BUY [] []"
  shows "\<exists>b'. clear_book b = Inr b' \<and> half_view mk_slot b' BUY [] []"
proof -
  obtain b' where b': "clear_book b = Inr b'" "bk_bids b' = None" "bk_asks b' = None" "bk_index b' = (\<lambda>_. None)"
      "bk_price_index b' = bk_price_index b" "pool_inv (bk_orders b')" "pool_inv (bk_levels b')"
      "in_use (bk_orders b') = {}" "in_use (bk_levels b') = {}"
    using clear_book_ok[OF assms] by blast
  obtain Ls Ms where "half_rep mk_slot b BUY Ls Ms" "abs_side b Ls = []" "abs_side b Ms = []"
    using assms by (auto simp: half_view_def)
  then have "price_index_ok b [] []" by (simp add: half_rep_def abs_side_def)
  then have "bk_price_index b = (\<lambda>_. None)" by (auto simp: price_index_ok_def live_levels_def fun_eq_iff)
  then have "half_rep mk_slot b' BUY [] []"
    using b' by (simp add: half_rep_def side_ok_def levels_linked_def shapes_disjoint_def pools_ok_def price_index_ok_def
        id_index_ok_def live_defs best_of_def)
  then show ?thesis using b'(1) by (auto simp: half_view_def abs_side_def)
qed

section \<open>After a clear\<close>

text \<open>
  An \<open>ADD\<close> at a price that had a level before finds the level of the time before the clear. Either
  the order lands on the block of the first order of that level and the code goes through its null
  pointer, or the order is appended to the level, which is not on any list.
\<close>

lemma addOrder_stale:
  assumes l: "getOrdersAtPrice b (on_price (ON b i)) = Some l" and f: "lv_first (LV b l) = Some f"
    and slot: "slot (ON b i) = Inr k" and cong: "\<And>m n. unlinked m = unlinked n \<Longrightarrow> slot m = slot n"
  shows "addOrder slot b i = Inl NullDeref
     \<or> (\<exists>b'. addOrder slot b i = Inr b' \<and> bk_bids b' = bk_bids b \<and> bk_asks b' = bk_asks b \<and> bk_levels b' = bk_levels b)"
proof (cases "on_prev (ON b f)")
  case None
  then show ?thesis using l f by (simp add: addOrder_def Let_def)
next
  case (Some p)
  let ?O1 = "modify (bk_orders b) p (on_next_update (\<lambda>_. Some i))"
  let ?O4 = "modify (modify (modify ?O1 i (on_prev_update (\<lambda>_. on_prev (obj ?O1 f)))) i (on_next_update (\<lambda>_. Some f)))
     f (on_prev_update (\<lambda>_. Some i))"
  have "unlinked (obj ?O4 i) = unlinked (ON b i)" by simp
  then have "slot (obj ?O4 i) = Inr k" using cong slot by metis
  then have "addOrder slot b i = Inr (b\<lparr> bk_orders := ?O4, bk_index := (bk_index b)(k := Some i) \<rparr>)"
    using l f Some by (simp add: addOrder_def Let_def del: obj_modify)
  then show ?thesis by simp
qed

lemma clear_then_add:
  assumes view: "half_view mk_slot b BUY V W" and p: "mu_price u \<in> set (map fst V) \<union> set (map fst W)"
    and cl: "clear_book b = Inr b1" and u: "mu_type u = ADD" "unat (mu_order_id u) < ME_MAX_ORDER_IDS"
    and room: "1 < pool_size (bk_orders b)"
  shows "apply_update b1 u = Inl NullDeref
     \<or> (\<exists>b2. apply_update b1 u = Inr b2 \<and> bk_bids b2 = None \<and> bk_asks b2 = None)"
proof -
  let ?o = "MarketOrder_new (mu_order_id u) (mu_side u) (mu_price u) (mu_qty u) (mu_priority u) None None"
  have b1: "bk_bids b1 = None" "bk_asks b1 = None" "bk_price_index b1 = bk_price_index b" "pool_inv (bk_orders b1)"
      "in_use (bk_orders b1) = {}" "pool_size (bk_orders b1) = pool_size (bk_orders b)" "\<forall>l. LV b1 l = LV b l"
    using clear_book_ok[OF view] cl by auto
  obtain Ls Ms where rep: "half_rep mk_slot b BUY Ls Ms" and V: "V = abs_side b Ls" "W = abs_side b Ms"
    using view by (auto simp: half_view_def)
  note rep' = rep[unfolded half_rep_def]
  have "\<exists>l \<in> live_levels Ls Ms. mu_price u = lv_price (LV b l)"
    using p unfolding V fst_abs_side by (auto simp: live_levels_def)
  then obtain l where l: "l \<in> live_levels Ls Ms" "lv_price (LV b l) = mu_price u" by metis
  then have "\<exists>os. (l, os) \<in> set Ls \<or> (l, os) \<in> set Ms" by (auto simp: live_levels_def level_blocks_def)
  then obtain os s where os: "(l, os) \<in> set Ls \<and> s = BUY \<or> (l, os) \<in> set Ms \<and> s = SELL" by blast
  then have "level_ok b s (l, os)" using rep' by (auto simp: side_ok_def)
  then have first: "lv_first (LV b l) = Some (hd os)" by (simp add: level_ok_def)
  have at: "getOrdersAtPrice b1 (mu_price u) = Some l"
    using getOrdersAtPrice_live[of b Ls Ms l] rep' l b1(3) by (simp add: getOrdersAtPrice_def)
  have "has_room (bk_orders b1)" using b1(5,6) room by (simp add: has_room_def)
  then obtain i R where R: "allocate (bk_orders b1) ?o = Inr (i, R)" "obj R i = ?o"
    using mp.alloc_ok[OF b1(4), of ?o] by blast
  have "addOrder mk_slot (b1\<lparr> bk_orders := R \<rparr>) i = Inl NullDeref
     \<or> (\<exists>b'. addOrder mk_slot (b1\<lparr> bk_orders := R \<rparr>) i = Inr b' \<and> bk_bids b' = bk_bids (b1\<lparr> bk_orders := R \<rparr>)
        \<and> bk_asks b' = bk_asks (b1\<lparr> bk_orders := R \<rparr>) \<and> bk_levels b' = bk_levels (b1\<lparr> bk_orders := R \<rparr>))"
  proof (rule addOrder_stale)
    show "getOrdersAtPrice (b1\<lparr> bk_orders := R \<rparr>) (on_price (ON (b1\<lparr> bk_orders := R \<rparr>) i)) = Some l"
      using at R(2) by (simp add: getOrdersAtPrice_def MarketOrder_new_def)
    show "lv_first (LV (b1\<lparr> bk_orders := R \<rparr>) l) = Some (hd os)" using first b1(7) by simp
    show "mk_slot (ON (b1\<lparr> bk_orders := R \<rparr>) i) = Inr (unat (mu_order_id u))"
      using u(2) R(2) by (simp add: mk_slot_def MarketOrder_new_def)
  qed (rule mk.slot_cong)
  then show ?thesis using u(1) R(1) b1(1,2) by (auto simp: apply_update_def mk_addOrder_def)
qed

end
