(* ===== verification/BookMirror.thy ===== *)
theory BookMirror
  imports MatchingTheorems MarketBookClear
begin

text \<open>
  The client's book follows the exchange's. \<open>mirror\<close> is what a client may know of a side of the
  exchange's book: for each order its market id, side, price, quantity and priority. Feeding the market
  updates of one request to a book that mirrors the exchange before the request yields a book that
  mirrors it afterwards, whatever the request fills, rests or cancels.
\<close>

definition to_market :: "MEOrder \<Rightarrow> MarketOrder" where
  "to_market v = MarketOrder_new (mo_market_order_id v) (on_side v) (on_price v) (on_qty v) (on_priority v) None None"

definition mirror :: "MEOrder side_view \<Rightarrow> MarketOrder side_view" where
  "mirror V = map (\<lambda>(q, vs). (q, map to_market vs)) V"

text \<open>A run of updates through the client's book.\<close>

definition feed :: "MEMarketUpdate list \<Rightarrow> MarketOrderBook \<Rightarrow> MarketOrderBook result" where
  "feed = foldR (\<lambda>u m. bindR (onMarketUpdate m u) (\<lambda>(m', cbs). Inr m'))"

lemma feed_Nil [simp]: "feed [] m = Inr m"
  by (simp add: feed_def)

lemma feed_Cons [simp]: "feed (u # us) m = bindR (onMarketUpdate m u) (\<lambda>(m', cbs). feed us m')"
  by (cases "onMarketUpdate m u") (auto simp: feed_def)

lemma feed_append: "feed (us @ vs) m = bindR (feed us m) (feed vs)"
  by (simp add: feed_def foldR_append)

lemma to_market_fields [simp]:
  "mk_order_id (to_market v) = mo_market_order_id v" "on_side (to_market v) = on_side v"
  "on_price (to_market v) = on_price v" "on_qty (to_market v) = on_qty v" "on_priority (to_market v) = on_priority v"
  "to_market (v\<lparr> on_qty := q \<rparr>) = (to_market v)\<lparr> on_qty := q \<rparr>"
  by (simp_all add: to_market_def MarketOrder_new_def)

lemma mirror_simps [simp]:
  "mirror [] = []" "mirror ((q, vs) # V) = (q, map to_market vs) # mirror V" "mirror (V @ W) = mirror V @ mirror W"
  "map fst (mirror V) = map fst V" "length (mirror V) = length V"
  "view_orders (mirror V) = map to_market (view_orders V)"
  by (simp_all add: mirror_def view_orders_def comp_def split_beta map_concat)

lemma mirror_insert: "mirror (view_insert side p v V) = view_insert side p (to_market v) (mirror V)"
  by (induction side p v V rule: view_insert.induct) auto

lemma mirror_delete: "mirror (view_delete (\<lambda>v. mo_market_order_id v = oid) V) = view_delete (\<lambda>w. mk_order_id w = oid) (mirror V)"
  by (induction V) (auto simp: Let_def filter_map comp_def)

section \<open>The updates of fills\<close>

lemma mirror_ids:
  assumes "mb_inv m side VV (mirror W)"
  shows "distinct (map mo_market_order_id (view_orders W))"
proof -
  have "half_view mk_slot (mb_book m) side VV (mirror W)" using assms by (simp add: mb_inv_def)
  then have "distinct (map mk_slot (map to_market (view_orders W)))" using mk.view_keys_distinct by fastforce
  moreover have "map mk_slot (map to_market (view_orders W)) = map (\<lambda>i. at ME_MAX_ORDER_IDS (unat i)) (map mo_market_order_id (view_orders W))"
    by (simp add: mk_slot_def)
  ultimately show ?thesis by (metis distinct_map)
qed

lemma mirror_sides:
  assumes "mb_inv m side VV (mirror W)"
  shows "\<And>q vs. (q, vs) \<in> set W \<Longrightarrow> vs \<noteq> []" and "\<And>q vs v. (q, vs) \<in> set W \<Longrightarrow> v \<in> set vs \<Longrightarrow> on_side v = opp side \<and> on_price v = q"
    and "sorted_wrt (better (opp side)) (map fst W)"
proof -
  have "side_view_ok (opp side) (mirror W)" using assms half_view_sides(2) by (auto simp: mb_inv_def)
  then have *: "sorted_wrt (better (opp side)) (map fst W)"
      "\<And>q vs. (q, vs) \<in> set W \<Longrightarrow> vs \<noteq> [] \<and> (\<forall>v \<in> set vs. on_side v = opp side \<and> on_price v = q)"
    unfolding side_view_ok_def mirror_simps(4) by (auto simp: mirror_def)
  show "sorted_wrt (better (opp side)) (map fst W)" by (rule *(1))
  show "vs \<noteq> []" if "(q, vs) \<in> set W" for q vs using *(2)[OF that] by blast
  show "on_side v = opp side \<and> on_price v = q" if "(q, vs) \<in> set W" "v \<in> set vs" for q vs v using *(2)[OF that(1)] that(2) by blast
qed

lemma mirror_delete_head:
  assumes "mb_inv m side VV (mirror ((q, v # vs) # W))"
  shows "view_delete (\<lambda>w. mk_order_id w = mo_market_order_id v) (mirror ((q, v # vs) # W))
    = mirror (if vs = [] then W else (q, vs) # W)"
proof -
  have d: "mo_market_order_id w \<noteq> mo_market_order_id v" if "w \<in> set vs \<union> set (view_orders W)" for w
    using mirror_ids[OF assms] that by (auto simp: image_iff)
  have "filter (\<lambda>w. mo_market_order_id w \<noteq> mo_market_order_id v) vs = vs" using d by (intro filter_True) auto
  moreover have "view_delete (\<lambda>w. mo_market_order_id w = mo_market_order_id v) W = W"
    by (rule view_delete_id) (use d mirror_sides(1)[OF assms] in auto)
  ultimately show ?thesis unfolding mirror_delete[symmetric] by (simp add: Let_def)
qed

lemma mirror_update_head:
  assumes "mb_inv m side VV (mirror ((q, v # vs) # W))"
  shows "view_update (\<lambda>w. mk_order_id w = mo_market_order_id v) (on_qty_update (\<lambda>_. n)) (mirror ((q, v # vs) # W))
    = mirror ((q, v\<lparr> on_qty := n \<rparr> # vs) # W)"
proof -
  have d: "mo_market_order_id w \<noteq> mo_market_order_id v" if "w \<in> set vs \<union> set (view_orders W)" for w
    using mirror_ids[OF assms] that by (auto simp: image_iff)
  have "view_update (\<lambda>w. mk_order_id w = mo_market_order_id v) (on_qty_update (\<lambda>_. n)) (mirror W) = mirror W"
    by (rule view_update_id) (use d in auto)
  moreover have "map (\<lambda>w. if mk_order_id w = mo_market_order_id v then on_qty_update (\<lambda>_. n) w else w) (map to_market vs) = map to_market vs"
    using d by (intro map_idI) auto
  ultimately show ?thesis by simp
qed

text \<open>The trade print of a fill does not touch the book; the second update does what the fill did.\<close>

lemma feed_one_fill:
  assumes inv: "mb_inv m side VV (mirror ((q, v # vs) # W))" and side: "side = BUY \<or> side = SELL"
  shows "\<exists>m'. feed (updates_of (fill_events t c side co mo (v, f, l))) m = Inr m' \<and> mb_ticker_id m' = mb_ticker_id m
     \<and> mb_inv m' side VV (mirror (if on_qty v - f = 0 then (if vs = [] then W else (q, vs) # W)
          else (q, v\<lparr> on_qty := on_qty v - f \<rparr> # vs) # W))"
proof -
  have inv': "mb_inv m (opp side) (mirror ((q, v # vs) # W)) VV" using inv mb_inv_swap[OF side] by blast
  have v: "on_side v = opp side" "on_price v = q" using mirror_sides(2)[OF inv, of q "v # vs" v] by simp_all
  have vin: "to_market v \<in> set (view_orders (mirror ((q, v # vs) # W)))" by simp
  note s = opp_sides[OF side]
  have swap_back: "mb_inv m' side VV X" if "mb_inv m' (opp side) X VV" for m' X using that mb_inv_swap[OF s] side by auto
  have trade: "onMarketUpdate m u = Inr (m, [OnTradeUpdate u])" if "mu_type u = TRADE" for u
    using that by (simp add: onMarketUpdate_def Let_def)
  show ?thesis
  proof (cases "on_qty v - f = 0")
    case True
    define u where "u = \<lparr> mu_type = Upd_CANCEL, mu_order_id = mo_market_order_id v, mu_ticker_id = t, mu_side = on_side v,
               mu_price = on_price v, mu_qty = on_qty v, mu_priority = Priority_INVALID \<rparr>"
    obtain m' where m': "onMarketUpdate m u = Inr (m', [OnOrderBookUpdate (mu_ticker_id u) (mu_price u) (opp side)])"
        "mb_inv m' (opp side) (view_delete (\<lambda>w. mk_order_id w = mu_order_id u) (mirror ((q, v # vs) # W))) VV"
        "mb_ticker_id m' = mb_ticker_id m"
      using onMarketUpdate_CANCEL[OF inv' s _ _ vin, of u] v by (auto simp: u_def)
    have "mb_inv m' side VV (mirror (if vs = [] then W else (q, vs) # W))"
      using swap_back[OF m'(2)] unfolding u_def MEMarketUpdate.simps mirror_delete_head[OF inv] .
    then show ?thesis using True m' trade by (simp add: fill_events_def u_def)
  next
    case False
    define u where "u = \<lparr> mu_type = MODIFY, mu_order_id = mo_market_order_id v, mu_ticker_id = t, mu_side = on_side v,
               mu_price = on_price v, mu_qty = on_qty v - f, mu_priority = on_priority v \<rparr>"
    obtain m' where m': "onMarketUpdate m u = Inr (m', [OnOrderBookUpdate (mu_ticker_id u) (mu_price u) (opp side)])"
        "mb_inv m' (opp side) (view_update (\<lambda>w. mk_order_id w = mu_order_id u) (on_qty_update (\<lambda>_. mu_qty u)) (mirror ((q, v # vs) # W))) VV"
        "mb_ticker_id m' = mb_ticker_id m"
      using onMarketUpdate_MODIFY[OF inv' s _ _ vin, of u] v by (auto simp: u_def)
    have "mb_inv m' side VV (mirror ((q, v\<lparr> on_qty := on_qty v - f \<rparr> # vs) # W))"
      using swap_back[OF m'(2)] unfolding u_def MEMarketUpdate.simps mirror_update_head[OF inv] .
    then show ?thesis using False m' trade by (simp add: fill_events_def u_def)
  qed
qed

lemma feed_fills:
  assumes "mb_inv m side VV (mirror W)" and "side = BUY \<or> side = SELL"
  shows "\<exists>m'. feed (updates_of (concat (map (fill_events t c side co mo) (fills_of (fill_side side price qty W))))) m = Inr m'
     \<and> mb_inv m' side VV (mirror (rest_of (fill_side side price qty W))) \<and> mb_ticker_id m' = mb_ticker_id m"
  using assms
proof (induction "length (view_orders W)" arbitrary: W m qty rule: less_induct)
  case less
  show ?case
  proof (cases W)
    case Nil
    then show ?thesis using less.prems by simp
  next
    case (Cons x W1)
    obtain q vs0 where x: "x = (q, vs0)" by (cases x)
    then obtain v vs where vs: "vs0 = v # vs" using mirror_sides(1)[OF less.prems(1), of q vs0] Cons by (cases vs0) auto
    note inv = less.prems(1)[unfolded Cons x vs]
    show ?thesis
    proof (cases "qty = 0 \<or> no_more_crosses side price q")
      case True
      then show ?thesis using inv by (simp add: Cons x vs)
    next
      case False
      define f where "f = min qty (on_qty v)"
      obtain m1 where m1: "feed (updates_of (fill_events t c side co mo (v, f, qty - f))) m = Inr m1"
          "mb_ticker_id m1 = mb_ticker_id m"
          "mb_inv m1 side VV (mirror (if on_qty v - f = 0 then (if vs = [] then W1 else (q, vs) # W1)
             else (q, v\<lparr> on_qty := on_qty v - f \<rparr> # vs) # W1))"
        using feed_one_fill[OF inv less.prems(2)] by blast
      show ?thesis
      proof (cases "on_qty v - f = 0")
        case True
        let ?W = "if vs = [] then W1 else (q, vs) # W1"
        have "length (view_orders ?W) < length (view_orders W)" by (simp add: Cons x vs)
        from less.hyps[OF this _ less.prems(2)] m1(3) True
        obtain m' where "feed (updates_of (concat (map (fill_events t c side co mo) (fills_of (fill_side side price (qty - f) ?W))))) m1 = Inr m'"
            "mb_inv m' side VV (mirror (rest_of (fill_side side price (qty - f) ?W)))" "mb_ticker_id m' = mb_ticker_id m1"
          by fastforce
        then show ?thesis
          using m1 unfolding Cons x vs fill_side_full[OF False f_def True] fill_side_drop
          by (simp add: split_beta feed_append)
      next
        case False2: False
        then show ?thesis
          using m1 unfolding Cons x vs fill_side_partial[OF False f_def False2] by simp
      qed
    qed
  qed
qed

section \<open>The updates of a request\<close>

lemma add_mirrored:
  assumes ex: "ob_inv m (req_side req) V W" and adm: "admissible_new m req"
    and ids: "unat (ob_next_market_order_id m) < ME_MAX_ORDER_IDS"
    and cl: "mb_inv c (req_side req) (mirror V) (mirror W)"
    and spec: "spec_add (ob_next_market_order_id m) (req_client_id req) (req_order_id req) t (req_side req)
      (req_price req) (req_qty req) V W = (V', W', evs)"
  shows "\<exists>c'. feed (updates_of evs) c = Inr c' \<and> mb_inv c' (req_side req) (mirror V') (mirror W')
     \<and> mb_ticker_id c' = mb_ticker_id c"
proof -
  let ?side = "req_side req" and ?n = "ob_next_market_order_id m" and ?price = "req_price req"
  let ?r = "fill_side ?side ?price (req_qty req) W"
  let ?F = "concat (map (fill_events t (req_client_id req) ?side (req_order_id req) (ucast (ucast ?n :: Qty))) (fills_of ?r))"
  have side: "?side = BUY \<or> ?side = SELL" using adm by (simp add: admissible_new_def)
  obtain c1 where c1: "feed (updates_of ?F) c = Inr c1" "mb_inv c1 ?side (mirror V) (mirror (rest_of ?r))"
      "mb_ticker_id c1 = mb_ticker_id c"
    using feed_fills[OF cl side] by blast
  show ?thesis
  proof (cases "left_of ?r = 0")
    case True
    then show ?thesis using spec c1 by (auto simp: spec_add_def Let_def)
  next
    case False
    define u where "u = \<lparr> mu_type = ADD, mu_order_id = ?n, mu_ticker_id = t, mu_side = ?side, mu_price = ?price,
        mu_qty = left_of ?r, mu_priority = next_priority V ?price \<rparr>"
    have apart: "?price \<notin> set (map fst (mirror (rest_of ?r)))"
      using fill_side_uncrossed[OF False side mirror_sides(3)[OF c1(2)], of ?price]
      by (auto simp: no_more_crosses_def split: if_splits simp del: set_map)
    have view: "half_view me_slot (ob_book m) ?side V W" using ex by (simp add: ob_inv_def)
    have "ids_ok ?n (view_orders V @ view_orders (rest_of ?r))" using ids_ok_rest ex by (auto simp: ob_inv_def)
    then have "mo_market_order_id x \<noteq> ?n" if "x \<in> set (view_orders V @ view_orders (rest_of ?r))" for x
      using that unfolding ids_ok_def by (metis less_irrefl)
    then have key: "mk_order_id w \<noteq> mu_order_id u" if "w \<in> set (view_orders (mirror V) @ view_orders (mirror (rest_of ?r)))" for w
      using that by (auto simp: u_def)
    have room: "length (mirror V) + length (mirror (rest_of ?r)) + 1 < ME_MAX_PRICE_LEVELS"
        "length (view_orders (mirror V)) + length (view_orders (mirror (rest_of ?r))) + 1 < ME_MAX_ORDER_IDS"
      using half_view_counts(1,2)[OF view] adm ex fill_side_count[of ?side ?price "req_qty req" W]
        fill_side_shrinks(1)[of ?side ?price "req_qty req" W]
      by (simp_all add: admissible_new_def has_room_def ob_inv_def)
    obtain c2 where c2: "onMarketUpdate c1 u = Inr (c2, [OnOrderBookUpdate (mu_ticker_id u) (mu_price u) ?side])"
        "mb_inv c2 ?side (view_insert ?side (mu_price u) (MarketOrder_new (mu_order_id u) ?side (mu_price u) (mu_qty u)
           (mu_priority u) None None) (mirror V)) (mirror (rest_of ?r))" "mb_ticker_id c2 = mb_ticker_id c1"
      using onMarketUpdate_ADD[OF c1(2) side, of u] key room apart adm ids by (auto simp: u_def admissible_new_def)
    let ?o = "MEOrder_new t (req_client_id req) (req_order_id req) ?n ?side ?price (left_of ?r) (next_priority V ?price) None None"
    have "MarketOrder_new (mu_order_id u) ?side (mu_price u) (mu_qty u) (mu_priority u) None None = to_market ?o"
      by (simp add: u_def to_market_def MEOrder_new_def)
    then have "mb_inv c2 ?side (mirror (view_insert ?side ?price ?o V)) (mirror (rest_of ?r))"
      using c2(2) by (simp add: mirror_insert u_def)
    moreover have "V' = view_insert ?side ?price ?o V" "W' = rest_of ?r" "updates_of evs = updates_of ?F @ [u]"
      using spec False by (auto simp: spec_add_def Let_def u_def)
    ultimately show ?thesis using c1 c2 by (simp add: feed_append)
  qed
qed

lemma cancel_mirrored:
  assumes ex: "ob_inv m side V W" and side: "side = BUY \<or> side = SELL"
    and v: "v \<in> set (view_orders V)" "me_slot v = Inr (unat c, unat oid)"
    and cl: "mb_inv k side (mirror V) (mirror W)"
  shows "\<exists>k'. feed (updates_of (cancel_events c oid t v)) k = Inr k'
     \<and> mb_inv k' side (mirror (view_delete (\<lambda>w. me_slot w = Inr (unat c, unat oid)) V)) (mirror W)
     \<and> mb_ticker_id k' = mb_ticker_id k"
proof -
  have view: "half_view me_slot (ob_book m) side V W" using ex by (simp add: ob_inv_def)
  have vs: "on_side v = side" using half_view_sides(1)[OF view] v(1) by (auto simp: side_view_ok_def view_orders_def)
  have same: "me_slot w = Inr (unat c, unat oid) \<longleftrightarrow> mo_market_order_id w = mo_market_order_id v" if "w \<in> set (view_orders V)" for w
  proof
    assume "me_slot w = Inr (unat c, unat oid)"
    then show "mo_market_order_id w = mo_market_order_id v" using me.view_same_key[OF view, of w v] that v by auto
  next
    assume eq: "mo_market_order_id w = mo_market_order_id v"
    have "distinct (map mo_market_order_id (view_orders V))" using ex by (simp add: ob_inv_def ids_ok_def)
    then show "me_slot w = Inr (unat c, unat oid)" using eq that v by (metis distinct_map inj_onD)
  qed
  have del: "view_delete (\<lambda>w. me_slot w = Inr (unat c, unat oid)) V = view_delete (\<lambda>w. mo_market_order_id w = mo_market_order_id v) V"
  proof -
    have "filter (\<lambda>w. me_slot w \<noteq> Inr (unat c, unat oid)) vs = filter (\<lambda>w. mo_market_order_id w \<noteq> mo_market_order_id v) vs"
      if "(q, vs) \<in> set V" for q vs
      using same view_orders_level[OF that] by (intro filter_cong) auto
    then show ?thesis unfolding view_delete_def by (intro arg_cong[where f = "filter _"] map_cong) auto
  qed
  define u where "u = \<lparr> mu_type = Upd_CANCEL, mu_order_id = mo_market_order_id v, mu_ticker_id = t, mu_side = on_side v,
        mu_price = on_price v, mu_qty = 0, mu_priority = on_priority v \<rparr>"
  have "to_market v \<in> set (view_orders (mirror V))" using v(1) by simp
  then obtain k' where k': "onMarketUpdate k u = Inr (k', [OnOrderBookUpdate (mu_ticker_id u) (mu_price u) side])"
      "mb_inv k' side (view_delete (\<lambda>w. mk_order_id w = mu_order_id u) (mirror V)) (mirror W)" "mb_ticker_id k' = mb_ticker_id k"
    using onMarketUpdate_CANCEL[OF cl side, of u "to_market v"] vs by (auto simp: u_def)
  have "mb_inv k' side (mirror (view_delete (\<lambda>w. me_slot w = Inr (unat c, unat oid)) V)) (mirror W)"
    using k'(2) unfolding del by (simp add: mirror_delete u_def)
  moreover have "updates_of (cancel_events c oid t v) = [u]" by (simp add: cancel_events_def u_def)
  ultimately show ?thesis using k' by simp
qed

section \<open>A whole session\<close>

text \<open>
  The book of a ticker and the updates it sent so far, over any sequence of admissible new orders and
  cancels.
\<close>

inductive session :: "TickerId \<Rightarrow> MEOrderBook \<Rightarrow> MEMarketUpdate list \<Rightarrow> bool" for t where
  session_start: "session t (MEOrderBook_new t (\<lambda>_. None) (\<lambda>_. None)) []"
| session_new: "session t m us \<Longrightarrow> admissible_new m req \<Longrightarrow> unat (ob_next_market_order_id m) < ME_MAX_ORDER_IDS \<Longrightarrow>
    ob_add m (req_client_id req) (req_order_id req) t (req_side req) (req_price req) (req_qty req) = Inr (m', evs) \<Longrightarrow>
    session t m' (us @ updates_of evs)"
| session_cancel: "session t m us \<Longrightarrow> (unat c < ME_MAX_NUM_CLIENTS \<longrightarrow> unat oid < ME_MAX_ORDER_IDS) \<Longrightarrow>
    ob_cancel m c oid t = Inr (m', evs) \<Longrightarrow> session t m' (us @ updates_of evs)"

definition mirrored :: "MEOrderBook \<Rightarrow> MarketOrderBook \<Rightarrow> bool" where
  "mirrored m c \<longleftrightarrow> (\<exists>V W. ob_inv m BUY V W \<and> mb_inv c BUY (mirror V) (mirror W))"

lemma mirrored_side:
  assumes "side = BUY \<or> side = SELL"
  shows "mirrored m c \<longleftrightarrow> (\<exists>V W. ob_inv m side V W \<and> mb_inv c side (mirror V) (mirror W))"
proof (cases "side = BUY")
  case False
  then have "side = SELL" using assms by simp
  then show ?thesis
    using ob_inv_swap[of SELL m] mb_inv_swap[of SELL c] ob_inv_swap[of BUY m] mb_inv_swap[of BUY c]
    unfolding mirrored_def by (metis opp_simps)
qed (simp add: mirrored_def)

lemma session_mirrored: "session t m us \<Longrightarrow> \<exists>c. feed us (MarketOrderBook_new t (\<lambda>_. None) (\<lambda>_. None)) = Inr c \<and> mirrored m c"
proof (induction rule: session.induct)
  case session_start
  then show ?case using ob_inv_new mb_inv_new unfolding mirrored_def by (metis feed_Nil mirror_simps(1))
next
  case (session_new m us req m' evs)
  then obtain c where c: "feed us (MarketOrderBook_new t (\<lambda>_. None) (\<lambda>_. None)) = Inr c" "mirrored m c" by blast
  have side: "req_side req = BUY \<or> req_side req = SELL" using session_new.hyps(2) by (simp add: admissible_new_def)
  obtain V W where VW: "ob_inv m (req_side req) V W" "mb_inv c (req_side req) (mirror V) (mirror W)"
    using c(2) mirrored_side[OF side] by blast
  obtain V' W' where spec: "spec_add (ob_next_market_order_id m) (req_client_id req) (req_order_id req) t (req_side req)
      (req_price req) (req_qty req) V W = (V', W', evs)"
    using ob_add_events[OF VW(1) session_new.hyps(2,4)] by blast
  have "ob_inv m' (req_side req) V' W'" using ob_add_spec[OF VW(1) session_new.hyps(2) spec] session_new.hyps(4) by auto
  then show ?case
    using add_mirrored[OF VW(1) session_new.hyps(2,3) VW(2) spec] c(1) mirrored_side[OF side] by (auto simp: feed_append)
next
  case (session_cancel m us cid oid m' evs)
  then obtain c where c: "feed us (MarketOrderBook_new t (\<lambda>_. None) (\<lambda>_. None)) = Inr c" "mirrored m c" by blast
  show ?case
  proof (cases "\<exists>side V W v. (side = BUY \<or> side = SELL) \<and> ob_inv m side V W \<and> mb_inv c side (mirror V) (mirror W)
      \<and> v \<in> set (view_orders V) \<and> me_slot v = Inr (unat cid, unat oid)")
    case True
    then obtain side V W v where s: "side = BUY \<or> side = SELL" "ob_inv m side V W" "mb_inv c side (mirror V) (mirror W)"
        "v \<in> set (view_orders V)" "me_slot v = Inr (unat cid, unat oid)" by blast
    then show ?thesis
      using ob_cancel_ok[OF s(2,1,4,5), of t] cancel_mirrored[OF s(2,1,4,5,3), of t] session_cancel.hyps(3) c(1)
        mirrored_side[OF s(1)] by (auto simp: feed_append)
  next
    case False
    obtain V W where VW: "ob_inv m BUY V W" "mb_inv c BUY (mirror V) (mirror W)" using c(2) by (auto simp: mirrored_def)
    then have "ob_inv m SELL W V" "mb_inv c SELL (mirror W) (mirror V)" using ob_inv_swap[of BUY] mb_inv_swap[of BUY] by auto
    then have "me_slot v \<noteq> Inr (unat cid, unat oid)" if "v \<in> set (view_orders V) \<union> set (view_orders W)" for v
      using False VW that by blast
    then have "ob_cancel m cid oid t = Inr (m, reject_events cid oid t)"
      using ob_cancel_miss[of m BUY V W] VW(1) session_cancel.hyps(2) by (auto simp: ob_inv_def)
    then show ?thesis using session_cancel.hyps(3) c by (auto simp: reject_events_def feed_append)
  qed
qed

end
