(* ===== verification/MirrorTheorems.thy ===== *)
theory MirrorTheorems
  imports BookMirror
begin

text \<open>The properties of the client's book: it follows the exchange, its summary is right, and where it fails.\<close>

text \<open>C3: the client's book follows the exchange's book. After any sequence of admissible new orders and cancels on the
  exchange, feeding all market updates of the ticker to a new client book succeeds, and the client holds exactly the
  exchange's levels and queues on both sides (ids, sides, prices, quantities and priorities, in the same order).\<close>

theorem client_book_follows_exchange:
  assumes "session t m us"
  shows "\<exists>c V W. feed us (MarketOrderBook_new t (\<lambda>_. None) (\<lambda>_. None)) = Inr c
     \<and> ob_inv m BUY V W \<and> mb_inv c BUY (mirror V) (mirror W)"
  using session_mirrored[OF assms] by (auto simp: mirrored_def)

lemma sample_session: "\<exists>m us. session 0 m us \<and> us \<noteq> [] \<and> ob_inv m BUY [] [(100, [sample_resting])]"
proof -
  obtain m where m: "ob_add sample_book 1 5 0 SELL 100 10 = Inr (m, snd (snd (spec_add 1 1 5 0 SELL 100 10 [] [])))"
      "ob_inv m BUY [] [(100, [sample_resting])]"
    using sample_first by blast
  have "session 0 sample_book []" unfolding sample_book_def by (rule session_start)
  then have "session 0 m ([] @ updates_of (snd (snd (spec_add 1 1 5 0 SELL 100 10 [] []))))"
    by (rule session_new[OF _ sample_admissible])
       (use m(1) in \<open>simp_all add: sample_sell_def sample_book_def MEOrderBook_new_def sizing_defs\<close>)
  then show ?thesis using m(2) by (fastforce simp: spec_add_def Let_def)
qed

theorem client_book_follows_exchange_witness:
  "\<exists>m us c V W. session 0 m us \<and> us \<noteq> [] \<and> feed us (MarketOrderBook_new 0 (\<lambda>_. None) (\<lambda>_. None)) = Inr c
     \<and> ob_inv m BUY V W \<and> mb_inv c BUY (mirror V) (mirror W)"
  using sample_session client_book_follows_exchange by blast

text \<open>the best bid and offer a client computes are those of the exchange: after any such sequence the price
  of either side in the summary is the price at the head of the exchange's list, or \<open>Price_INVALID\<close> if the side is empty.\<close>

theorem client_bbo_matches_exchange:
  assumes "session t m us" and "feed us (MarketOrderBook_new t (\<lambda>_. None) (\<lambda>_. None)) = Inr c"
  shows "bid_price (mb_bbo c) = (case bk_bids (ob_book m) of None \<Rightarrow> Price_INVALID | Some l \<Rightarrow> lv_price (LV (ob_book m) l))
     \<and> ask_price (mb_bbo c) = (case bk_asks (ob_book m) of None \<Rightarrow> Price_INVALID | Some l \<Rightarrow> lv_price (LV (ob_book m) l))"
proof -
  obtain V W where inv: "ob_inv m BUY V W" "mb_inv c BUY (mirror V) (mirror W)"
    using session_mirrored[OF assms(1)] assms(2) by (auto simp: mirrored_def)
  have head: "fst (view_summary (mirror X)) = (case best_of s (ob_book m) of None \<Rightarrow> Price_INVALID | Some l \<Rightarrow> lv_price (LV (ob_book m) l))"
    if view: "half_view me_slot (ob_book m) s X Y" for s X Y
  proof (cases X)
    case Nil
    then show ?thesis using half_view_no_best[OF view] by (simp add: view_summary_def)
  next
    case (Cons x X')
    obtain q vs where x: "x = (q, vs)" by (cases x)
    then have "vs \<noteq> []" using half_view_sides(1)[OF view] Cons by (auto simp: side_view_ok_def)
    then obtain v vs' where "vs = v # vs'" by (cases vs) auto
    then show ?thesis using half_view_best[of me_slot "ob_book m" s q v vs' X' Y] view Cons x by (auto simp: view_summary_def)
  qed
  have view: "half_view me_slot (ob_book m) BUY V W" using inv(1) by (simp add: ob_inv_def)
  then have view': "half_view me_slot (ob_book m) SELL W V" using half_view_swap[of BUY me_slot "ob_book m" V W] by simp
  have "bid_price (mb_bbo c) = fst (view_summary (mirror V))" "ask_price (mb_bbo c) = fst (view_summary (mirror W))"
    using inv(2) unfolding mb_inv_def bbo_of_def by (metis Side.distinct(7) fst_conv opp_simps(1))+
  then show ?thesis using head[OF view] head[OF view'] by (simp add: best_of_def)
qed

theorem client_bbo_matches_exchange_witness:
  "\<exists>m us c. session 0 m us \<and> feed us (MarketOrderBook_new 0 (\<lambda>_. None) (\<lambda>_. None)) = Inr c
     \<and> bid_price (mb_bbo c) = (case bk_bids (ob_book m) of None \<Rightarrow> Price_INVALID | Some l \<Rightarrow> lv_price (LV (ob_book m) l))"
  using sample_session session_mirrored client_bbo_matches_exchange by meson

text \<open>C29: the client's book after a \<open>CLEAR\<close>. The array from prices to levels is not reset: the next \<open>ADD\<close> at a
  price that had a level before the clear either dereferences a null pointer or is lost, both lists of levels
  staying empty although an order was added.\<close>

theorem clear_keeps_stale_levels:
  assumes "mb_inv c BUY V W" and "mu_price u \<in> set (map fst V) \<union> set (map fst W)"
    and "mu_type u = ADD" and "unat (mu_order_id u) < ME_MAX_ORDER_IDS"
  shows "\<exists>b1. clear_book (mb_book c) = Inr b1
     \<and> (apply_update b1 u = Inl NullDeref
        \<or> (\<exists>b2. apply_update b1 u = Inr b2 \<and> bk_bids b2 = None \<and> bk_asks b2 = None))"
proof -
  have view: "half_view mk_slot (mb_book c) BUY V W" and "1 < pool_size (bk_orders (mb_book c))"
    using assms(1) by (simp_all add: mb_inv_def sizing_defs)
  then show ?thesis using clear_book_ok[OF view] clear_then_add[OF view assms(2) _ assms(3,4)] by blast
qed

definition sample_update :: MEMarketUpdate where
  "sample_update = \<lparr> mu_type = ADD, mu_order_id = 7, mu_ticker_id = 0, mu_side = BUY, mu_price = 100, mu_qty = 10, mu_priority = 1 \<rparr>"

lemma sample_client:
  "\<exists>c. onMarketUpdate (MarketOrderBook_new 0 (\<lambda>_. None) (\<lambda>_. None)) sample_update
       = Inr (c, [OnOrderBookUpdate 0 100 BUY])
     \<and> mb_inv c BUY [(100, [MarketOrder_new 7 BUY 100 10 1 None None])] []"
  using onMarketUpdate_ADD[OF mb_inv_new, of BUY sample_update 0]
  by (auto simp: sample_update_def price_in_window_def sizing_defs)

theorem clear_keeps_stale_levels_witness:
  "\<exists>c b1. onMarketUpdate (MarketOrderBook_new 0 (\<lambda>_. None) (\<lambda>_. None)) sample_update = Inr (c, [OnOrderBookUpdate 0 100 BUY])
     \<and> clear_book (mb_book c) = Inr b1
     \<and> (apply_update b1 sample_update = Inl NullDeref
        \<or> (\<exists>b2. apply_update b1 sample_update = Inr b2 \<and> bk_bids b2 = None \<and> bk_asks b2 = None))"
proof -
  obtain c where c: "onMarketUpdate (MarketOrderBook_new 0 (\<lambda>_. None) (\<lambda>_. None)) sample_update = Inr (c, [OnOrderBookUpdate 0 100 BUY])"
      "mb_inv c BUY [(100, [MarketOrder_new 7 BUY 100 10 1 None None])] []"
    using sample_client by blast
  show ?thesis
    using clear_keeps_stale_levels[OF c(2), of sample_update] c(1) by (simp add: sample_update_def sizing_defs)
qed

text \<open>an update for an order the client does not hold, which a lost or reordered packet can cause, goes through a
  null pointer: \<open>onMarketUpdate\<close> does not check what \<open>oid_to_order_\<close> returns.\<close>

theorem unknown_order_update_null_deref:
  assumes "mu_type u = MODIFY \<or> mu_type u = Upd_CANCEL" and "unat (mu_order_id u) < ME_MAX_ORDER_IDS"
    and "bk_index (mb_book c) (unat (mu_order_id u)) = None"
  shows "onMarketUpdate c u = Inl NullDeref"
  using apply_unknown[OF assms] assms(1) by (auto simp: onMarketUpdate_def Let_def)

theorem unknown_order_update_null_deref_witness:
  "onMarketUpdate (MarketOrderBook_new 0 (\<lambda>_. None) (\<lambda>_. None)) (sample_update\<lparr> mu_type := Upd_CANCEL \<rparr>) = Inl NullDeref"
  by (rule unknown_order_update_null_deref)
     (simp_all add: sample_update_def MarketOrderBook_new_def book_new_def sizing_defs)

end
