(* ===== verification/LFQueueSPSC.thy ===== *)
theory LFQueueSPSC
  imports LFQueue
begin

text \<open>
  \<^verbatim>\<open>common/lf_queue.h\<close> under concurrency. One producer thread and one consumer thread share the ring;
  each step below is one access to a shared variable, as the sequentially consistent atomics of the
  source order them, and the two threads interleave freely:
  \<^item> the producer fills the slot at \<open>next_write_index_\<close>, stores the advanced index, then increments
    \<open>num_elements_\<close>;
  \<^item> the consumer sees a non-zero \<open>num_elements_\<close> and takes the address of the slot at
    \<open>next_read_index_\<close>, handles the element through that address, stores the advanced index, then
    checks and decrements \<open>num_elements_\<close>.
  The code never checks for a full ring, and neither does the rule \<open>p_fill\<close>. A flag of the model, \<open>sp_overrun\<close>, remembers whether
  the producer has ever begun to write while the counter was at the capacity; what the sizing constants of \<^verbatim>\<open>common/types.h\<close> are chosen
  for is that this does not happen. Two histories, the elements written and the elements handled, state the
  properties: the counter and the assertion are right in every run, and without an overrun the
  handled elements are at any moment a prefix of the written ones. An overrun overwrites elements that were not handled yet.
\<close>

section \<open>Threads, steps and reachable states\<close>

datatype 'a producer = P_Idle | P_Filled 'a | P_Indexed 'a
datatype consumer = C_Idle | C_Holding nat | C_Handled | C_Advanced

record 'a spsc =
  sp_queue :: "'a LFQueue"
  sp_producer :: "'a producer"
  sp_consumer :: consumer
  sp_written :: "'a list"
  sp_handled :: "'a list"
  sp_assert_failed :: bool
  sp_overrun :: bool

definition spsc_init :: "nat \<Rightarrow> 'a \<Rightarrow> 'a spsc" where
  "spsc_init n dflt =
     \<lparr> sp_queue = LFQueue_new n dflt, sp_producer = P_Idle, sp_consumer = C_Idle,
       sp_written = [], sp_handled = [], sp_assert_failed = False, sp_overrun = False \<rparr>"

inductive spsc_step :: "'a spsc \<Rightarrow> 'a spsc \<Rightarrow> bool" where
  p_fill: "sp_producer s = P_Idle \<Longrightarrow>
    spsc_step s (s\<lparr> sp_queue := write_slot (sp_queue s) (getNextToWriteTo (sp_queue s)) x,
                   sp_producer := P_Filled x, sp_written := sp_written s @ [x],
                   sp_overrun := (sp_overrun s \<or> lf_capacity (sp_queue s) \<le> num_elements (sp_queue s)) \<rparr>)"
| p_index: "sp_producer s = P_Filled x \<Longrightarrow>
    spsc_step s (s\<lparr> sp_queue := (sp_queue s)\<lparr> next_write_index :=
                      (next_write_index (sp_queue s) + 1) mod lf_capacity (sp_queue s) \<rparr>,
                   sp_producer := P_Indexed x \<rparr>)"
| p_count: "sp_producer s = P_Indexed x \<Longrightarrow>
    spsc_step s (s\<lparr> sp_queue := (sp_queue s)\<lparr> num_elements := num_elements (sp_queue s) + 1 \<rparr>,
                   sp_producer := P_Idle \<rparr>)"
| c_peek: "sp_consumer s = C_Idle \<Longrightarrow> lf_size (sp_queue s) \<noteq> 0 \<Longrightarrow>
    spsc_step s (s\<lparr> sp_consumer := C_Holding (next_read_index (sp_queue s)) \<rparr>)"
| c_handle: "sp_consumer s = C_Holding i \<Longrightarrow>
    spsc_step s (s\<lparr> sp_consumer := C_Handled, sp_handled := sp_handled s @ [lf_store (sp_queue s) i] \<rparr>)"
| c_advance: "sp_consumer s = C_Handled \<Longrightarrow>
    spsc_step s (s\<lparr> sp_queue := (sp_queue s)\<lparr> next_read_index :=
                      (next_read_index (sp_queue s) + 1) mod lf_capacity (sp_queue s) \<rparr>,
                   sp_consumer := C_Advanced \<rparr>)"
| c_release: "sp_consumer s = C_Advanced \<Longrightarrow> num_elements (sp_queue s) \<noteq> 0 \<Longrightarrow>
    spsc_step s (s\<lparr> sp_queue := (sp_queue s)\<lparr> num_elements := num_elements (sp_queue s) - 1 \<rparr>,
                   sp_consumer := C_Idle \<rparr>)"
| c_assert: "sp_consumer s = C_Advanced \<Longrightarrow> num_elements (sp_queue s) = 0 \<Longrightarrow>
    spsc_step s (s\<lparr> sp_assert_failed := True \<rparr>)"

inductive spsc_reachable :: "nat \<Rightarrow> 'a spsc \<Rightarrow> bool" for n where
  init: "spsc_reachable n (spsc_init n dflt)"
| step: "spsc_reachable n s \<Longrightarrow> spsc_step s t \<Longrightarrow> spsc_reachable n t"

section \<open>Invariant\<close>

text \<open>
  \<open>released s\<close> elements have left the ring and \<open>counted s\<close> have entered it, as \<open>num_elements_\<close> sees
  them; the element \<open>k\<close> of the history lives in slot \<open>k mod n\<close> in between.
\<close>

definition released :: "'a spsc \<Rightarrow> nat" where
  "released s = length (sp_handled s)
     - (if sp_consumer s = C_Handled \<or> sp_consumer s = C_Advanced then 1 else 0)"

definition counted :: "'a spsc \<Rightarrow> nat" where
  "counted s = length (sp_written s) - (if sp_producer s = P_Idle then 0 else 1)"

definition spsc_counts :: "nat \<Rightarrow> 'a spsc \<Rightarrow> bool" where
  "spsc_counts n s \<longleftrightarrow> 0 < n \<and> lf_capacity (sp_queue s) = n
     \<and> released s \<le> counted s \<and> num_elements (sp_queue s) = counted s - released s
     \<and> (sp_consumer s \<noteq> C_Idle \<longrightarrow> released s < counted s)
     \<and> ((sp_consumer s = C_Handled \<or> sp_consumer s = C_Advanced) \<longrightarrow> sp_handled s \<noteq> [])
     \<and> (sp_producer s \<noteq> P_Idle \<longrightarrow> sp_written s \<noteq> []) \<and> \<not> sp_assert_failed s"

text \<open>As long as there was no overrun, there is room for what the producer writes.\<close>

definition spsc_room :: "nat \<Rightarrow> 'a spsc \<Rightarrow> bool" where
  "spsc_room n s \<longleftrightarrow> counted s \<le> released s + n \<and> (sp_producer s \<noteq> P_Idle \<longrightarrow> counted s < released s + n)"

definition spsc_indices :: "'a spsc \<Rightarrow> bool" where
  "spsc_indices s \<longleftrightarrow>
     next_read_index (sp_queue s)
       = (released s + (if sp_consumer s = C_Advanced then 1 else 0)) mod lf_capacity (sp_queue s)
     \<and> next_write_index (sp_queue s)
       = (counted s + (case sp_producer s of P_Indexed x \<Rightarrow> 1 | _ \<Rightarrow> 0)) mod lf_capacity (sp_queue s)
     \<and> (\<forall>i. sp_consumer s = C_Holding i \<longrightarrow> i = released s mod lf_capacity (sp_queue s))"

definition spsc_slots :: "'a spsc \<Rightarrow> bool" where
  "spsc_slots s \<longleftrightarrow>
     (\<forall>k. released s \<le> k \<and> k < length (sp_written s) \<longrightarrow>
        lf_store (sp_queue s) (k mod lf_capacity (sp_queue s)) = sp_written s ! k)
     \<and> sp_handled s = take (length (sp_handled s)) (sp_written s)"

lemmas spsc_defs = spsc_counts_def spsc_indices_def spsc_room_def spsc_slots_def released_def counted_def

definition spsc_inv :: "nat \<Rightarrow> 'a spsc \<Rightarrow> bool" where
  "spsc_inv n s \<longleftrightarrow> spsc_counts n s \<and> spsc_indices s \<and> (\<not> sp_overrun s \<longrightarrow> spsc_room n s \<and> spsc_slots s)"

lemma spsc_inv_init: "0 < n \<Longrightarrow> spsc_inv n (spsc_init n x)"
  by (simp add: spsc_inv_def spsc_defs spsc_init_def LFQueue_new_def)

lemma slots_apart:
  fixes r k w n :: nat
  assumes "r \<le> k" and "k < w" and "w < r + n"
  shows "k mod n \<noteq> w mod n"
proof
  assume "k mod n = w mod n"
  moreover have "k - r < n" "w - r < n" "k - r \<noteq> w - r" using assms by linarith+
  ultimately show False using mod_add_inj[of r "k - r" n "w - r"] assms by simp
qed

definition fill_slot :: "'a \<Rightarrow> 'a spsc \<Rightarrow> 'a spsc" where
  "fill_slot x s = s\<lparr> sp_queue := write_slot (sp_queue s) (getNextToWriteTo (sp_queue s)) x, sp_producer := P_Filled x, sp_written := sp_written s @ [x],
     sp_overrun := (sp_overrun s \<or> lf_capacity (sp_queue s) \<le> num_elements (sp_queue s)) \<rparr>"

lemma fill_slot_frame:
  assumes "sp_producer s = P_Idle"
  shows "released (fill_slot x s) = released s" and "counted (fill_slot x s) = counted s"
    and "spsc_counts n s \<Longrightarrow> spsc_counts n (fill_slot x s)" and "spsc_indices s \<Longrightarrow> spsc_indices (fill_slot x s)"
  using assms by (auto simp: fill_slot_def spsc_defs)

lemma fill_slot_slots:
  assumes counts: "spsc_counts n s" and indices: "spsc_indices s" and slots: "spsc_slots s" and idle: "sp_producer s = P_Idle"
    and full: "length (sp_written s) < released s + n"
  shows "spsc_slots (fill_slot x s)"
proof -
  let ?w = "length (sp_written s)"
  have w: "counted s = ?w" using idle by (simp add: counted_def)
  have store: "lf_store (sp_queue (fill_slot x s)) = (lf_store (sp_queue s))(?w mod n := x)"
    and cap: "lf_capacity (sp_queue (fill_slot x s)) = n" "lf_capacity (sp_queue s) = n"
    using indices idle w counts by (auto simp: fill_slot_def spsc_indices_def spsc_counts_def getNextToWriteTo_def)
  have "lf_store (sp_queue (fill_slot x s)) (k mod n) = (sp_written s @ [x]) ! k" if "released s \<le> k" "k < Suc ?w" for k
  proof (cases "k = ?w")
    case False
    then have "k mod n \<noteq> ?w mod n" using slots_apart[of "released s" k ?w n] that full by simp
    then show ?thesis using store slots that False cap by (simp add: spsc_slots_def nth_append)
  qed (use store in simp)
  moreover have "length (sp_handled s) \<le> ?w"
    using slots by (metis length_take min.absorb_iff2 min.commute spsc_slots_def)
  moreover have "sp_handled (fill_slot x s) = sp_handled s" "sp_written (fill_slot x s) = sp_written s @ [x]" by (simp_all add: fill_slot_def)
  ultimately show ?thesis using slots cap by (simp add: spsc_slots_def fill_slot_frame[OF idle])
qed

lemma spsc_fill:
  assumes inv: "spsc_inv n s" and idle: "sp_producer s = P_Idle"
  shows "spsc_inv n (fill_slot x s)"
proof -
  have counts: "spsc_counts n s" and indices: "spsc_indices s" using inv by (auto simp: spsc_inv_def)
  have "spsc_room n (fill_slot x s) \<and> spsc_slots (fill_slot x s)" if "\<not> sp_overrun (fill_slot x s)"
  proof -
    have no: "\<not> sp_overrun s" "num_elements (sp_queue s) < n" using that counts by (auto simp: fill_slot_def spsc_counts_def)
    then have full: "counted s < released s + n" using counts by (auto simp: spsc_counts_def)
    then have "spsc_slots (fill_slot x s)"
      using fill_slot_slots[OF counts indices _ idle] inv no(1) idle by (simp add: spsc_inv_def counted_def)
    then show ?thesis using full by (simp add: spsc_room_def fill_slot_frame[OF idle])
  qed
  then show ?thesis using fill_slot_frame(3,4)[OF idle] counts indices by (simp add: spsc_inv_def)
qed

lemma spsc_handle:
  assumes inv: "spsc_inv n s" and hold: "sp_consumer s = C_Holding i"
  shows "spsc_inv n (s\<lparr> sp_consumer := C_Handled,
                       sp_handled := sp_handled s @ [lf_store (sp_queue s) i] \<rparr>)"
proof -
  let ?t = "s\<lparr> sp_consumer := C_Handled, sp_handled := sp_handled s @ [lf_store (sp_queue s) i] \<rparr>"
  let ?r = "length (sp_handled s)"
  have counts: "spsc_counts n s" and indices: "spsc_indices s" using inv by (auto simp: spsc_inv_def)
  have r: "released s = ?r" using hold by (simp add: released_def)
  have lt: "?r < length (sp_written s)"
    using counts hold r by (auto simp: spsc_counts_def counted_def split: if_splits)
  have "spsc_room n ?t \<and> spsc_slots ?t" if "\<not> sp_overrun s"
  proof -
    have slots: "spsc_slots s" "spsc_room n s" using inv that by (simp_all add: spsc_inv_def)
    have "lf_store (sp_queue s) i = sp_written s ! ?r"
      using indices slots hold r lt by (auto simp: spsc_indices_def spsc_slots_def)
    then have "sp_handled s @ [lf_store (sp_queue s) i] = take (Suc ?r) (sp_written s)"
      using slots lt by (simp add: spsc_slots_def take_Suc_conv_app_nth)
    moreover have "released ?t = released s" "counted ?t = counted s" using hold by (simp_all add: released_def counted_def)
    ultimately show ?thesis using slots lt by (simp add: spsc_room_def spsc_slots_def min_def)
  qed
  then show ?thesis using counts indices hold by (auto simp: spsc_inv_def spsc_counts_def spsc_indices_def released_def counted_def)
qed

lemma spsc_step_inv: "spsc_step s t \<Longrightarrow> spsc_inv n s \<Longrightarrow> spsc_inv n t"
proof (induction rule: spsc_step.induct)
  case (p_fill s x)
  then show ?case using spsc_fill[of n s x] by (simp add: fill_slot_def)
next
  case (p_index s x)
  then show ?case by (auto simp: spsc_inv_def spsc_defs mod_Suc_eq)
next
  case (p_count s x)
  then show ?case
    by (cases "sp_written s") (auto simp: spsc_inv_def spsc_defs)
next
  case (c_peek s)
  then show ?case by (auto simp: spsc_inv_def spsc_defs lf_size_def)
next
  case (c_handle s i)
  then show ?case by (blast intro: spsc_handle)
next
  case (c_advance s)
  then show ?case by (auto simp: spsc_inv_def spsc_defs mod_Suc_eq)
next
  case (c_release s)
  then show ?case
    by (cases "sp_handled s") (auto simp: spsc_inv_def spsc_defs)
next
  case (c_assert s)
  then show ?case by (auto simp: spsc_inv_def spsc_defs)
qed

lemma spsc_reachable_inv: "spsc_reachable n s \<Longrightarrow> 0 < n \<Longrightarrow> spsc_inv n s"
  by (induction rule: spsc_reachable.induct) (auto intro: spsc_inv_init spsc_step_inv)

section \<open>FIFO under every interleaving\<close>

text \<open>C32: In every reachable state of the ring under the free interleaving of one producer and one consumer, access by access, full or not, the assertion of
  \<open>updateReadIndex\<close> has not failed and the counter is exact: it is the number of elements that have entered the ring less those that have left it. As long as the producer has
  never begun to write with the counter at the capacity, which the code does not check, the elements handled so far are a prefix of
  the elements written, in order, the counter is at most the capacity, and when both
  threads are idle and the counter is zero, nothing was lost: everything written was handled.\<close>

theorem queue_is_fifo_under_concurrency:
  assumes "spsc_reachable n s" and "0 < n"
  shows "\<not> sp_assert_failed s \<and> released s + num_elements (sp_queue s) = counted s
    \<and> (\<not> sp_overrun s \<longrightarrow> sp_handled s = take (length (sp_handled s)) (sp_written s) \<and> num_elements (sp_queue s) \<le> n
         \<and> (sp_producer s = P_Idle \<and> sp_consumer s = C_Idle \<and> lf_size (sp_queue s) = 0 \<longrightarrow> sp_handled s = sp_written s))"
proof -
  have I: "spsc_counts n s" "\<not> sp_overrun s \<longrightarrow> spsc_room n s \<and> spsc_slots s" using spsc_reachable_inv[OF assms] by (simp_all add: spsc_inv_def)
  have "sp_handled s = sp_written s"
    if "\<not> sp_overrun s" "sp_producer s = P_Idle" "sp_consumer s = C_Idle" "lf_size (sp_queue s) = 0"
  proof -
    have "length (sp_written s) \<le> length (sp_handled s)" using I(1) that by (simp add: spsc_counts_def released_def counted_def lf_size_def)
    moreover have "sp_handled s = take (length (sp_handled s)) (sp_written s)" using I(2) that(1) by (simp add: spsc_slots_def)
    ultimately show ?thesis by simp
  qed
  then show ?thesis using I by (auto simp: spsc_counts_def spsc_room_def spsc_slots_def)
qed

text \<open>The producer writes 7; the consumer takes it while the producer already fills the next slot with 8.\<close>

definition index_slot :: "'a \<Rightarrow> 'a spsc \<Rightarrow> 'a spsc" where
  "index_slot x s = s\<lparr> sp_queue := (sp_queue s)\<lparr> next_write_index := (next_write_index (sp_queue s) + 1) mod lf_capacity (sp_queue s) \<rparr>, sp_producer := P_Indexed x \<rparr>"

definition count_slot :: "'a spsc \<Rightarrow> 'a spsc" where
  "count_slot s = s\<lparr> sp_queue := (sp_queue s)\<lparr> num_elements := num_elements (sp_queue s) + 1 \<rparr>, sp_producer := P_Idle \<rparr>"

definition sample_written :: "nat \<Rightarrow> int spsc" where
  "sample_written n = count_slot (index_slot 7 (fill_slot 7 (spsc_init n 0)))"

lemmas sample_spsc = sample_written_def count_slot_def index_slot_def fill_slot_def spsc_init_def LFQueue_new_def getNextToWriteTo_def lf_size_def

lemma sample_written_reachable: "spsc_reachable n (sample_written n)"
proof -
  let ?s1 = "fill_slot 7 (spsc_init n (0 :: int))"
  have "spsc_reachable n ?s1" by (rule spsc_reachable.step[OF spsc_reachable.init], unfold fill_slot_def, rule p_fill) (simp add: spsc_init_def)
  then have "spsc_reachable n (index_slot 7 ?s1)" by (rule spsc_reachable.step, unfold index_slot_def, intro p_index) (simp add: fill_slot_def)
  then show ?thesis unfolding sample_written_def by (rule spsc_reachable.step, unfold count_slot_def, intro p_count) (simp add: index_slot_def)
qed

text \<open>Then the consumer takes the address of the first slot, the producer fills its next slot, and the consumer handles what is at the address.\<close>

definition sample_handled :: "nat \<Rightarrow> int spsc" where
  "sample_handled n = (let s = fill_slot 8 ((sample_written n)\<lparr> sp_consumer := C_Holding (next_read_index (sp_queue (sample_written n))) \<rparr>)
     in s\<lparr> sp_consumer := C_Handled, sp_handled := sp_handled s @ [lf_store (sp_queue s) 0] \<rparr>)"

lemma sample_handled_reachable: "spsc_reachable n (sample_handled n)"
proof -
  let ?s4 = "(sample_written n)\<lparr> sp_consumer := C_Holding (next_read_index (sp_queue (sample_written n))) \<rparr>"
  have "spsc_reachable n ?s4" by (rule spsc_reachable.step[OF sample_written_reachable], rule c_peek) (simp_all add: sample_spsc)
  then have "spsc_reachable n (fill_slot 8 ?s4)" by (rule spsc_reachable.step, unfold fill_slot_def, intro p_fill) (simp add: sample_spsc)
  then show ?thesis unfolding sample_handled_def Let_def by (rule spsc_reachable.step, intro c_handle) (simp add: sample_spsc)
qed

lemma queue_is_fifo_under_concurrency_witness:
  "\<exists>s :: int spsc. spsc_reachable 4 s \<and> \<not> sp_overrun s \<and> sp_written s = [7, 8] \<and> sp_handled s = [7] \<and> num_elements (sp_queue s) \<le> 4"
proof -
  have "sp_written (sample_handled 4) = [7, 8]" "sp_handled (sample_handled 4) = [7]" "\<not> sp_overrun (sample_handled 4)"
    by (simp_all add: sample_handled_def sample_spsc)
  then show ?thesis using queue_is_fifo_under_concurrency[OF sample_handled_reachable[of 4]] sample_handled_reachable[of 4] by auto
qed

text \<open>In a ring of one slot the same run overwrites the element the consumer has the address of: 7 is lost, 8 is handled in its place, and will be handled again.\<close>

theorem overrun_loses_element:
  "\<exists>s :: int spsc. spsc_reachable 1 s \<and> sp_overrun s \<and> sp_written s = [7, 8] \<and> sp_handled s = [8]"
proof -
  have "sp_written (sample_handled 1) = [7, 8]" "sp_handled (sample_handled 1) = [8]" "sp_overrun (sample_handled 1)"
    by (simp_all add: sample_handled_def sample_spsc)
  then show ?thesis using sample_handled_reachable[of 1] by auto
qed

end
