(* ===== verification/WireFormat.thy ===== *)
theory WireFormat
  imports Messages
begin

text \<open>
  The bytes of the packed structs of \<^verbatim>\<open>client_request.h\<close>, \<^verbatim>\<open>client_response.h\<close> and
  \<^verbatim>\<open>market_update.h\<close>. The programs on both ends copy the structs to the wire and cast the received
  bytes back; under \<open>#pragma pack(push, 1)\<close> the fields follow each other without gaps, and on the little-endian
  machines the programs run on each number is stored least significant byte first. Reading an enum from a byte that
  is none of its enumerators gives \<open>INVALID\<close> here; no encoder below produces such a byte.
\<close>

type_synonym byte = "8 word"

section \<open>Numbers\<close>

fun le_bytes :: "nat \<Rightarrow> nat \<Rightarrow> byte list" where
  "le_bytes 0 x = []"
| "le_bytes (Suc n) x = of_nat (x mod 256) # le_bytes n (x div 256)"

fun le_nat :: "byte list \<Rightarrow> nat" where
  "le_nat [] = 0"
| "le_nat (b # bs) = unat b + 256 * le_nat bs"

lemma length_le_bytes [simp]: "length (le_bytes n x) = n"
  by (induction n x rule: le_bytes.induct) simp_all

lemma le_roundtrip: "le_nat (le_bytes n x) = x mod 256 ^ n"
proof (induction n x rule: le_bytes.induct)
  case (2 n x)
  have "unat (of_nat (x mod 256) :: byte) = x mod 256" by (simp add: unat_of_nat)
  then show ?case using 2 by (simp add: mod_mult2_eq)
qed simp

lemma le_roundtrip_small: "x < 256 ^ n \<Longrightarrow> le_nat (le_bytes n x) = x"
  by (simp add: le_roundtrip)

text \<open>\<open>int64_t\<close> in two's complement.\<close>

definition price_bytes :: "Price \<Rightarrow> byte list" where
  "price_bytes p = le_bytes 8 (nat (p mod 2 ^ 64))"

definition bytes_price :: "byte list \<Rightarrow> Price" where
  "bytes_price bs = (let x = int (le_nat bs) in if x < 2 ^ 63 then x else x - 2 ^ 64)"

lemma length_price_bytes [simp]: "length (price_bytes p) = 8"
  by (simp add: price_bytes_def)

lemma price_roundtrip:
  assumes "price_ok p"
  shows "bytes_price (price_bytes p) = p"
proof -
  have "nat (p mod 2 ^ 64) < 256 ^ 8" by (simp add: nat_less_iff)
  then have le: "int (le_nat (price_bytes p)) = p mod 2 ^ 64"
    by (simp add: price_bytes_def le_roundtrip_small)
  show ?thesis
  proof (cases "0 \<le> p")
    case True
    then have "p mod 2 ^ 64 = p" using assms by (simp add: price_ok_def mod_pos_pos_trivial)
    then show ?thesis using le assms by (simp add: bytes_price_def price_ok_def Let_def)
  next
    case False
    then have "p mod 2 ^ 64 = p + 2 ^ 64"
      using assms mod_pos_pos_trivial[of "p + 2 ^ 64" "2 ^ 64"] by (simp add: price_ok_def)
    then show ?thesis using le assms False by (simp add: bytes_price_def price_ok_def Let_def)
  qed
qed

definition u32_bytes :: "32 word \<Rightarrow> byte list" where "u32_bytes w = le_bytes 4 (unat w)"
definition bytes_u32 :: "byte list \<Rightarrow> 32 word" where "bytes_u32 bs = of_nat (le_nat bs)"
definition u64_bytes :: "64 word \<Rightarrow> byte list" where "u64_bytes w = le_bytes 8 (unat w)"
definition bytes_u64 :: "byte list \<Rightarrow> 64 word" where "bytes_u64 bs = of_nat (le_nat bs)"

lemma length_word_bytes [simp]: "length (u32_bytes w) = 4" "length (u64_bytes x) = 8"
  by (simp_all add: u32_bytes_def u64_bytes_def)

lemma u32_roundtrip [simp]: "bytes_u32 (u32_bytes w) = w"
proof -
  have "unat w < 256 ^ 4" using unsigned_less[of w] by simp
  then show ?thesis by (simp add: bytes_u32_def u32_bytes_def le_roundtrip_small)
qed

lemma u64_roundtrip [simp]: "bytes_u64 (u64_bytes w) = w"
proof -
  have "unat w < 256 ^ 8" using unsigned_less[of w] by simp
  then show ?thesis by (simp add: bytes_u64_def u64_bytes_def le_roundtrip_small)
qed

section \<open>Enums\<close>

primrec side_byte :: "Side \<Rightarrow> byte" where
  "side_byte Side_INVALID = 0" | "side_byte BUY = 1" | "side_byte SELL = - 1" | "side_byte Side_MAX = 2"

definition byte_side :: "byte \<Rightarrow> Side" where
  "byte_side b = (if b = 1 then BUY else if b = - 1 then SELL else if b = 2 then Side_MAX else Side_INVALID)"

primrec request_type_byte :: "ClientRequestType \<Rightarrow> byte" where
  "request_type_byte Req_INVALID = 0" | "request_type_byte Req_NEW = 1" | "request_type_byte Req_CANCEL = 2"

definition byte_request_type :: "byte \<Rightarrow> ClientRequestType" where
  "byte_request_type b = (if b = 1 then Req_NEW else if b = 2 then Req_CANCEL else Req_INVALID)"

primrec response_type_byte :: "ClientResponseType \<Rightarrow> byte" where
  "response_type_byte Rsp_INVALID = 0" | "response_type_byte ACCEPTED = 1" | "response_type_byte CANCELED = 2"
| "response_type_byte FILLED = 3" | "response_type_byte CANCEL_REJECTED = 4"

definition byte_response_type :: "byte \<Rightarrow> ClientResponseType" where
  "byte_response_type b = (if b = 1 then ACCEPTED else if b = 2 then CANCELED else if b = 3 then FILLED
     else if b = 4 then CANCEL_REJECTED else Rsp_INVALID)"

primrec update_type_byte :: "MarketUpdateType \<Rightarrow> byte" where
  "update_type_byte Upd_INVALID = 0" | "update_type_byte CLEAR = 1" | "update_type_byte ADD = 2"
| "update_type_byte MODIFY = 3" | "update_type_byte Upd_CANCEL = 4" | "update_type_byte TRADE = 5"
| "update_type_byte SNAPSHOT_START = 6" | "update_type_byte SNAPSHOT_END = 7"

definition byte_update_type :: "byte \<Rightarrow> MarketUpdateType" where
  "byte_update_type b = (if b = 1 then CLEAR else if b = 2 then ADD else if b = 3 then MODIFY else if b = 4 then Upd_CANCEL
     else if b = 5 then TRADE else if b = 6 then SNAPSHOT_START else if b = 7 then SNAPSHOT_END else Upd_INVALID)"

lemma side_roundtrip [simp]: "byte_side (side_byte s) = s"
  by (cases s) (simp_all add: byte_side_def)

lemma request_type_roundtrip [simp]: "byte_request_type (request_type_byte r) = r"
  by (cases r) (simp_all add: byte_request_type_def)

lemma response_type_roundtrip [simp]: "byte_response_type (response_type_byte p) = p"
  by (cases p) (simp_all add: byte_response_type_def)

lemma update_type_roundtrip [simp]: "byte_update_type (update_type_byte u) = u"
  by (cases u) (simp_all add: byte_update_type_def)

section \<open>Structs\<close>

text \<open>\<open>slice k n bs\<close>: the \<open>n\<close> bytes from offset \<open>k\<close>.\<close>

definition slice :: "nat \<Rightarrow> nat \<Rightarrow> 'a list \<Rightarrow> 'a list" where "slice k n bs = take n (drop k bs)"

definition encode_MEClientRequest :: "MEClientRequest \<Rightarrow> byte list" where
  "encode_MEClientRequest r = [request_type_byte (req_type r)] @ u32_bytes (req_client_id r) @ u32_bytes (req_ticker_id r)
     @ u64_bytes (req_order_id r) @ [side_byte (req_side r)] @ price_bytes (req_price r) @ u32_bytes (req_qty r)"

definition decode_MEClientRequest :: "byte list \<Rightarrow> MEClientRequest" where
  "decode_MEClientRequest bs =
     \<lparr> req_type = byte_request_type (bs ! 0), req_client_id = bytes_u32 (slice 1 4 bs), req_ticker_id = bytes_u32 (slice 5 4 bs),
       req_order_id = bytes_u64 (slice 9 8 bs), req_side = byte_side (bs ! 17), req_price = bytes_price (slice 18 8 bs),
       req_qty = bytes_u32 (slice 26 4 bs) \<rparr>"

definition encode_OMClientRequest :: "OMClientRequest \<Rightarrow> byte list" where
  "encode_OMClientRequest r = le_bytes 8 (omreq_seq_num r) @ encode_MEClientRequest (omreq_request r)"

definition decode_OMClientRequest :: "byte list \<Rightarrow> OMClientRequest" where
  "decode_OMClientRequest bs =
     \<lparr> omreq_seq_num = le_nat (slice 0 8 bs), omreq_request = decode_MEClientRequest (drop 8 bs) \<rparr>"

definition encode_MEClientResponse :: "MEClientResponse \<Rightarrow> byte list" where
  "encode_MEClientResponse r = [response_type_byte (rsp_type r)] @ u32_bytes (rsp_client_id r) @ u32_bytes (rsp_ticker_id r)
     @ u64_bytes (rsp_client_order_id r) @ u64_bytes (rsp_market_order_id r) @ [side_byte (rsp_side r)]
     @ price_bytes (rsp_price r) @ u32_bytes (rsp_exec_qty r) @ u32_bytes (rsp_leaves_qty r)"

definition decode_MEClientResponse :: "byte list \<Rightarrow> MEClientResponse" where
  "decode_MEClientResponse bs =
     \<lparr> rsp_type = byte_response_type (bs ! 0), rsp_client_id = bytes_u32 (slice 1 4 bs), rsp_ticker_id = bytes_u32 (slice 5 4 bs),
       rsp_client_order_id = bytes_u64 (slice 9 8 bs), rsp_market_order_id = bytes_u64 (slice 17 8 bs),
       rsp_side = byte_side (bs ! 25), rsp_price = bytes_price (slice 26 8 bs), rsp_exec_qty = bytes_u32 (slice 34 4 bs),
       rsp_leaves_qty = bytes_u32 (slice 38 4 bs) \<rparr>"

definition encode_OMClientResponse :: "OMClientResponse \<Rightarrow> byte list" where
  "encode_OMClientResponse r = le_bytes 8 (omrsp_seq_num r) @ encode_MEClientResponse (omrsp_response r)"

definition decode_OMClientResponse :: "byte list \<Rightarrow> OMClientResponse" where
  "decode_OMClientResponse bs =
     \<lparr> omrsp_seq_num = le_nat (slice 0 8 bs), omrsp_response = decode_MEClientResponse (drop 8 bs) \<rparr>"

definition encode_MEMarketUpdate :: "MEMarketUpdate \<Rightarrow> byte list" where
  "encode_MEMarketUpdate u = [update_type_byte (mu_type u)] @ u64_bytes (mu_order_id u) @ u32_bytes (mu_ticker_id u)
     @ [side_byte (mu_side u)] @ price_bytes (mu_price u) @ u32_bytes (mu_qty u) @ u64_bytes (mu_priority u)"

definition decode_MEMarketUpdate :: "byte list \<Rightarrow> MEMarketUpdate" where
  "decode_MEMarketUpdate bs =
     \<lparr> mu_type = byte_update_type (bs ! 0), mu_order_id = bytes_u64 (slice 1 8 bs), mu_ticker_id = bytes_u32 (slice 9 4 bs),
       mu_side = byte_side (bs ! 13), mu_price = bytes_price (slice 14 8 bs), mu_qty = bytes_u32 (slice 22 4 bs),
       mu_priority = bytes_u64 (slice 26 8 bs) \<rparr>"

definition encode_MDPMarketUpdate :: "MDPMarketUpdate \<Rightarrow> byte list" where
  "encode_MDPMarketUpdate r = le_bytes 8 (mdp_seq_num r) @ encode_MEMarketUpdate (mdp_update r)"

definition decode_MDPMarketUpdate :: "byte list \<Rightarrow> MDPMarketUpdate" where
  "decode_MDPMarketUpdate bs =
     \<lparr> mdp_seq_num = le_nat (slice 0 8 bs), mdp_update = decode_MEMarketUpdate (drop 8 bs) \<rparr>"

lemma encoded_lengths [simp]:
  "length (encode_MEClientRequest r) = sizeof_MEClientRequest"
  "length (encode_OMClientRequest r') = sizeof_OMClientRequest"
  "length (encode_MEClientResponse p) = sizeof_MEClientResponse"
  "length (encode_OMClientResponse p') = sizeof_OMClientResponse"
  "length (encode_MEMarketUpdate u) = sizeof_MEMarketUpdate"
  "length (encode_MDPMarketUpdate u') = sizeof_MDPMarketUpdate"
  by (simp_all add: encode_MEClientRequest_def encode_OMClientRequest_def encode_MEClientResponse_def
      encode_OMClientResponse_def encode_MEMarketUpdate_def encode_MDPMarketUpdate_def sizeof_defs)

lemma request_roundtrip: "price_ok (req_price r) \<Longrightarrow> decode_MEClientRequest (encode_MEClientRequest r) = r"
  by (simp add: decode_MEClientRequest_def encode_MEClientRequest_def slice_def nth_append price_roundtrip)

lemma response_roundtrip: "price_ok (rsp_price r) \<Longrightarrow> decode_MEClientResponse (encode_MEClientResponse r) = r"
  by (simp add: decode_MEClientResponse_def encode_MEClientResponse_def slice_def nth_append price_roundtrip)

lemma update_roundtrip: "price_ok (mu_price u) \<Longrightarrow> decode_MEMarketUpdate (encode_MEMarketUpdate u) = u"
  by (simp add: decode_MEMarketUpdate_def encode_MEMarketUpdate_def slice_def nth_append price_roundtrip)

lemma om_request_roundtrip:
  "omreq_seq_num r < 2 ^ 64 \<Longrightarrow> price_ok (req_price (omreq_request r)) \<Longrightarrow> decode_OMClientRequest (encode_OMClientRequest r) = r"
  by (simp add: decode_OMClientRequest_def encode_OMClientRequest_def slice_def request_roundtrip le_roundtrip_small)

lemma om_response_roundtrip:
  "omrsp_seq_num r < 2 ^ 64 \<Longrightarrow> price_ok (rsp_price (omrsp_response r)) \<Longrightarrow> decode_OMClientResponse (encode_OMClientResponse r) = r"
  by (simp add: decode_OMClientResponse_def encode_OMClientResponse_def slice_def response_roundtrip le_roundtrip_small)

lemma mdp_update_roundtrip:
  "mdp_seq_num u < 2 ^ 64 \<Longrightarrow> price_ok (mu_price (mdp_update u)) \<Longrightarrow> decode_MDPMarketUpdate (encode_MDPMarketUpdate u) = u"
  by (simp add: decode_MDPMarketUpdate_def encode_MDPMarketUpdate_def slice_def update_roundtrip le_roundtrip_small)

end
