(* ===== verification/Sockets.thy ===== *)
theory Sockets
  imports WireFormat
begin

text \<open>
  \<^verbatim>\<open>common/tcp_socket.h\<close>, \<^verbatim>\<open>common/tcp_socket.cpp\<close>, \<^verbatim>\<open>common/mcast_socket.h\<close> and
  \<^verbatim>\<open>common/mcast_socket.cpp\<close>: the buffered sockets. A buffer and its \<open>valid_index\<close> are the list of the
  valid bytes; compaction with \<open>memmove\<close> is \<open>drop\<close>. What the kernel does in a round is a
  parameter: the bytes \<open>::recv\<close> has and the number of bytes \<open>::send\<close> takes.
\<close>

definition TCPBufferSize :: nat where "TCPBufferSize = 64 * 1024 * 1024"
definition McastBufferSize :: nat where "McastBufferSize = 64 * 1024 * 1024"

section \<open>TCP\<close>

record TCPSocket =
  sock_fd :: int
  sock_out :: "byte list"
  sock_in :: "byte list"

definition TCPSocket_new :: "int \<Rightarrow> TCPSocket" where
  "TCPSocket_new fd = \<lparr> sock_fd = fd, sock_out = [], sock_in = [] \<rparr>"

definition tcp_send :: "TCPSocket \<Rightarrow> byte list \<Rightarrow> TCPSocket result" where
  "tcp_send s data =
     (if length (sock_out s) + length data > TCPBufferSize then FATAL ''TCPSocket outbound buffer overflow''
      else Inr (s\<lparr> sock_out := sock_out s @ data \<rparr>))"

text \<open>What the kernel has for a socket in one round: the bytes it received, the bytes it takes, the time.\<close>

record io =
  io_recv :: "byte list"
  io_sent :: nat
  io_time :: int

definition tcp_recv :: "TCPSocket \<Rightarrow> io \<Rightarrow> byte list" where
  "tcp_recv s k = take (TCPBufferSize - length (sock_in s)) (io_recv k)"

text \<open>
  One round: read, call back if bytes arrived, then write. The callback works on the socket and on the state of its owner.
\<close>

definition tcp_sendAndRecv :: "(TCPSocket \<Rightarrow> int \<Rightarrow> 's \<Rightarrow> (TCPSocket \<times> 's) result) \<Rightarrow> io \<Rightarrow> TCPSocket \<Rightarrow> 's \<Rightarrow>
    (TCPSocket \<times> 's \<times> bool) result" where
  "tcp_sendAndRecv recv_callback k s st =
     (let n_rcv = tcp_recv s k in
      bindR (if n_rcv \<noteq> [] then recv_callback (s\<lparr> sock_in := sock_in s @ n_rcv \<rparr>) (io_time k) st else Inr (s, st))
        (\<lambda>(s1, st1). Inr (s1\<lparr> sock_out := drop (io_sent k) (sock_out s1) \<rparr>, st1, n_rcv \<noteq> [])))"

section \<open>Multicast\<close>

record McastSocket =
  mc_fd :: int
  mc_out :: "byte list"
  mc_in :: "byte list"

definition McastSocket_new :: McastSocket where
  "McastSocket_new = \<lparr> mc_fd = - 1, mc_out = [], mc_in = [] \<rparr>"

definition mcast_init :: "int \<Rightarrow> McastSocket \<Rightarrow> McastSocket" where
  "mcast_init fd s = s\<lparr> mc_fd := fd \<rparr>"

text \<open>\<open>leave\<close> closes the socket and empties both buffers.\<close>

definition mcast_leave :: "McastSocket \<Rightarrow> McastSocket" where
  "mcast_leave s = (if mc_fd s < 0 then s else s\<lparr> mc_fd := - 1, mc_in := [], mc_out := [] \<rparr>)"

definition mcast_send :: "McastSocket \<Rightarrow> byte list \<Rightarrow> McastSocket result" where
  "mcast_send s data =
     (if length (mc_out s) + length data > McastBufferSize then FATAL ''McastSocket outbound buffer overflow''
      else Inr (s\<lparr> mc_out := mc_out s @ data \<rparr>))"

text \<open>
  The receive loop takes datagrams until there is none; \<open>io_recv\<close> is their concatenation. On the way out everything is
  pushed at once, and dropped when \<open>::send\<close> fails, which is \<open>io_sent = 0\<close>. The result also has the bytes sent.
\<close>

definition mcast_sendAndRecv :: "(McastSocket \<Rightarrow> 's \<Rightarrow> (McastSocket \<times> 's) result) \<Rightarrow> io \<Rightarrow> McastSocket \<Rightarrow> 's \<Rightarrow>
    (McastSocket \<times> 's \<times> byte list) result" where
  "mcast_sendAndRecv recv_callback k s st =
     (let got = take (McastBufferSize - length (mc_in s)) (io_recv k) in
      bindR (if got \<noteq> [] then recv_callback (s\<lparr> mc_in := mc_in s @ got \<rparr>) st else Inr (s, st)) (\<lambda>(s1, st1).
      if mc_out s1 = [] then Inr (s1, st1, [])
      else if io_sent k = 0 then Inr (s1\<lparr> mc_out := [] \<rparr>, st1, [])
      else Inr (s1\<lparr> mc_out := drop (io_sent k) (mc_out s1) \<rparr>, st1, take (io_sent k) (mc_out s1))))"

text \<open>A flush that the network takes whole, on a socket whose input nobody reads.\<close>

lemma mcast_flush_all:
  assumes "length (mc_out s) \<le> io_sent k" and "io_sent k \<noteq> 0"
  shows "\<exists>s'. mcast_sendAndRecv (\<lambda>s st. Inr (s, st)) k s st = Inr (s', st, mc_out s) \<and> mc_out s' = []"
  using assms by (auto simp: mcast_sendAndRecv_def Let_def)

section \<open>Framing\<close>

text \<open>
  The loop of every receiver: as long as a whole message of \<open>n\<close> bytes is in the buffer, decode and
  handle it; the rest stays for the next round.
\<close>

function consume :: "nat \<Rightarrow> (byte list \<Rightarrow> 's \<Rightarrow> 's result) \<Rightarrow> byte list \<Rightarrow> 's \<Rightarrow> (byte list \<times> 's) result" where
  "consume n handle buf s =
     (if 0 < n \<and> n \<le> length buf
      then bindR (handle (take n buf) s) (consume n handle (drop n buf))
      else Inr (buf, s))"
  by pat_completeness auto
termination
  by (relation "measure (\<lambda>(n, handle, buf, s). length buf)") auto

declare consume.simps [simp del]

lemma consume_short: "length buf < n \<Longrightarrow> consume n h buf s = Inr (buf, s)"
  by (simp add: consume.simps)

lemma consume_Cons: "0 < n \<Longrightarrow> length m = n \<Longrightarrow> consume n h (m @ buf) s = bindR (h m s) (consume n h buf)"
  by (simp add: consume.simps[of n h "m @ buf"])

text \<open>How the bytes are cut into rounds does not matter.\<close>

lemma consume_append:
  assumes "0 < n"
  shows "consume n h (xs @ ys) s = bindR (consume n h xs s) (\<lambda>(rest, s'). consume n h (rest @ ys) s')"
proof (induction "length xs" arbitrary: xs s rule: less_induct)
  case less
  show ?case
  proof (cases "n \<le> length xs")
    case True
    define m where "m = take n xs"
    define zs where "zs = drop n xs"
    have xs: "xs = m @ zs" "length m = n" using True by (simp_all add: m_def zs_def)
    then have "length zs < length xs" using assms by simp
    then show ?thesis
      using less[of zs] assms xs by (cases "h m s") (simp_all add: consume_Cons)
  qed (simp add: consume_short)
qed

text \<open>A stream of whole messages and a partial one.\<close>

lemma consume_messages:
  assumes "0 < n" and "\<And>m. m \<in> set ms \<Longrightarrow> length (enc m) = n" and "length rest < n"
  shows "consume n h (concat (map enc ms) @ rest) s
     = bindR (foldR (\<lambda>m. h (enc m)) ms s) (\<lambda>s'. Inr (rest, s'))"
  using assms(2)
proof (induction ms arbitrary: s)
  case Nil
  then show ?case using assms(3) by (simp add: consume_short)
next
  case (Cons m ms)
  then show ?case using assms(1) by (cases "h (enc m) s") (simp_all add: consume_Cons)
qed

end
