(* ===== verification/SnapshotSynthesizer.thy ===== *)
theory SnapshotSynthesizer
  imports Sockets LFQueue MemPool
begin

text \<open>
  \<^verbatim>\<open>exchange/market_data/snapshot_synthesizer.h\<close> and \<^verbatim>\<open>exchange/market_data/snapshot_synthesizer.cpp\<close>: the thread
  that keeps every live order of every ticker and sends them all on the snapshot stream once a minute.
  The orders live in a pool, and an array per ticker has the pointer of each order id. What leaves the
  socket is the byte list the operations return besides the state; \<open>net n\<close> is what the kernel does at the flush
  after \<open>n\<close> messages.

  The theory shows that the orders held are the effect of the incremental updates on a map from tickers and
  ids to orders, and that a published snapshot is the encoding of exactly those orders, numbered from zero, between a
  start and an end message that carry the sequence number of the last update applied.
\<close>

section \<open>State\<close>

record SnapshotSynthesizer =
  ss_updates :: "MDPMarketUpdate LFQueue"
  ss_socket :: McastSocket
  ss_ticker_orders :: "nat \<Rightarrow> nat \<Rightarrow> ptr"
  ss_last_inc_seq_num :: nat
  ss_last_snapshot_time :: int
  ss_order_pool :: "MEMarketUpdate MemPool"

definition SnapshotSynthesizer_new :: "MDPMarketUpdate LFQueue \<Rightarrow> int \<Rightarrow> SnapshotSynthesizer result" where
  "SnapshotSynthesizer_new q fd =
     bindR (ASSERT (mc_fd (mcast_init fd McastSocket_new) \<ge> 0) ''Unable to create snapshot mcast socket. error:'') (\<lambda>_.
     Inr \<lparr> ss_updates = q, ss_socket = mcast_init fd McastSocket_new, ss_ticker_orders = (\<lambda>_ _. None),
           ss_last_inc_seq_num = 0, ss_last_snapshot_time = 0,
           ss_order_pool = MemPool_new ME_MAX_ORDER_IDS MEMarketUpdate_default \<rparr>)"

section \<open>Applying an update\<close>

definition snap_set :: "nat \<Rightarrow> nat \<Rightarrow> ptr \<Rightarrow> SnapshotSynthesizer \<Rightarrow> SnapshotSynthesizer" where
  "snap_set t k p s = s\<lparr> ss_ticker_orders := (ss_ticker_orders s)(t := (ss_ticker_orders s t)(k := p)) \<rparr>"

text \<open>The \<open>switch\<close> of \<open>addToSnapshot\<close> on the array of the ticker.\<close>

definition snap_apply :: "nat \<Rightarrow> MEMarketUpdate \<Rightarrow> SnapshotSynthesizer \<Rightarrow> SnapshotSynthesizer result" where
  "snap_apply t me s =
     (case mu_type me of
        ADD \<Rightarrow>
          bindR (at ME_MAX_ORDER_IDS (unat (mu_order_id me))) (\<lambda>k.
          bindR (ASSERT (ss_ticker_orders s t k = None) ''Received ADD for an existing order:'') (\<lambda>_.
          bindR (allocate (ss_order_pool s) me) (\<lambda>(i, p).
          Inr (snap_set t k (Some i) (s\<lparr> ss_order_pool := p \<rparr>)))))
      | MODIFY \<Rightarrow>
          bindR (at ME_MAX_ORDER_IDS (unat (mu_order_id me))) (\<lambda>k.
          bindR (ASSERT (ss_ticker_orders s t k \<noteq> None) ''Received MODIFY for missing order:'') (\<lambda>_.
          let i = the (ss_ticker_orders s t k) in
          bindR (ASSERT (mu_order_id (obj (ss_order_pool s) i) = mu_order_id me) ''OrderId mismatch on MODIFY:'') (\<lambda>_.
          Inr (s\<lparr> ss_order_pool := modify (ss_order_pool s) i (\<lambda>order. order\<lparr> mu_qty := mu_qty me, mu_price := mu_price me \<rparr>) \<rparr>))))
      | Upd_CANCEL \<Rightarrow>
          bindR (at ME_MAX_ORDER_IDS (unat (mu_order_id me))) (\<lambda>k.
          bindR (ASSERT (ss_ticker_orders s t k \<noteq> None) ''Received CANCEL for missing order:'') (\<lambda>_.
          bindR (deallocate (ss_order_pool s) (the (ss_ticker_orders s t k))) (\<lambda>p.
          Inr (snap_set t k None (s\<lparr> ss_order_pool := p \<rparr>)))))
      | _ \<Rightarrow> Inr s)"

definition addToSnapshot :: "MDPMarketUpdate \<Rightarrow> SnapshotSynthesizer \<Rightarrow> SnapshotSynthesizer result" where
  "addToSnapshot market_update s =
     (let me = mdp_update market_update in
      bindR (at ME_MAX_TICKERS (unat (mu_ticker_id me))) (\<lambda>t.
      bindR (snap_apply t me s) (\<lambda>s1.
      bindR (ASSERT (mdp_seq_num market_update = ss_last_inc_seq_num s1 + 1)
               ''Expected incremental seq_nums to increase by 1. Got:'') (\<lambda>_.
      Inr (s1\<lparr> ss_last_inc_seq_num := mdp_seq_num market_update \<rparr>)))))"

section \<open>Publishing\<close>

text \<open>The number of messages so far, the socket, and the bytes that left it.\<close>

type_synonym publishing = "nat \<times> McastSocket \<times> byte list"

definition snap_send :: "MEMarketUpdate \<Rightarrow> publishing \<Rightarrow> publishing result" where
  "snap_send u = (\<lambda>(snapshot_size, sock, wire).
     bindR (mcast_send sock (encode_MDPMarketUpdate \<lparr> mdp_seq_num = snapshot_size, mdp_update = u \<rparr>)) (\<lambda>sock'.
     Inr (snapshot_size + 1, sock', wire)))"

definition snap_flush :: "(nat \<Rightarrow> io) \<Rightarrow> publishing \<Rightarrow> publishing result" where
  "snap_flush net = (\<lambda>(snapshot_size, sock, wire).
     bindR (mcast_sendAndRecv (\<lambda>s st. Inr (s, st)) (net snapshot_size) sock ()) (\<lambda>(sock', _, sent).
     Inr (snapshot_size, sock', wire @ sent)))"

definition snapshot_start :: "nat \<Rightarrow> MEMarketUpdate" where
  "snapshot_start seq = \<lparr> mu_type = SNAPSHOT_START, mu_order_id = of_nat seq, mu_ticker_id = TickerId_INVALID,
     mu_side = Side_INVALID, mu_price = Price_INVALID, mu_qty = Qty_INVALID, mu_priority = Priority_INVALID \<rparr>"

definition snapshot_end :: "nat \<Rightarrow> MEMarketUpdate" where
  "snapshot_end seq = \<lparr> mu_type = SNAPSHOT_END, mu_order_id = of_nat seq, mu_ticker_id = TickerId_INVALID,
     mu_side = Side_INVALID, mu_price = Price_INVALID, mu_qty = Qty_INVALID, mu_priority = Priority_INVALID \<rparr>"

definition snapshot_clear :: "nat \<Rightarrow> MEMarketUpdate" where
  "snapshot_clear t = MEMarketUpdate_default\<lparr> mu_type := CLEAR, mu_ticker_id := of_nat t \<rparr>"

definition publish_order :: "(nat \<Rightarrow> io) \<Rightarrow> SnapshotSynthesizer \<Rightarrow> nat \<Rightarrow> nat \<Rightarrow> publishing \<Rightarrow> publishing result" where
  "publish_order net s t k st =
     (case ss_ticker_orders s t k of
        None \<Rightarrow> Inr st
      | Some i \<Rightarrow> bindR (snap_send (obj (ss_order_pool s) i) st) (snap_flush net))"

definition publish_ticker :: "(nat \<Rightarrow> io) \<Rightarrow> SnapshotSynthesizer \<Rightarrow> nat \<Rightarrow> publishing \<Rightarrow> publishing result" where
  "publish_ticker net s t st =
     bindR (snap_send (snapshot_clear t) st) (foldR (publish_order net s t) [0..<ME_MAX_ORDER_IDS])"

definition publishSnapshot :: "(nat \<Rightarrow> io) \<Rightarrow> SnapshotSynthesizer \<Rightarrow> (SnapshotSynthesizer \<times> byte list) result" where
  "publishSnapshot net s =
     bindR (snap_send (snapshot_start (ss_last_inc_seq_num s)) (0, ss_socket s, [])) (\<lambda>st1.
     bindR (foldR (publish_ticker net s) [0..<ME_MAX_TICKERS] st1) (\<lambda>st2.
     bindR (snap_send (snapshot_end (ss_last_inc_seq_num s)) st2) (\<lambda>st3.
     bindR (snap_flush net st3) (\<lambda>(_, sock, wire).
     Inr (s\<lparr> ss_socket := sock \<rparr>, wire)))))"

text \<open>One round of \<open>run\<close>: the queued updates, then a snapshot if the last one is more than a minute old.\<close>

definition synthesizer_round :: "int \<Rightarrow> int \<Rightarrow> (nat \<Rightarrow> io) \<Rightarrow> SnapshotSynthesizer \<Rightarrow> (SnapshotSynthesizer \<times> byte list) result" where
  "synthesizer_round now now2 net s =
     bindR (lf_drain (lf_size (ss_updates s)) addToSnapshot (ss_updates s) s) (\<lambda>(q, s1).
     let s2 = s1\<lparr> ss_updates := q \<rparr> in
     if now - ss_last_snapshot_time s2 > 60 * 1000000000
     then publishSnapshot net (s2\<lparr> ss_last_snapshot_time := now2 \<rparr>)
     else Inr (s2, []))"

section \<open>The orders held\<close>

text \<open>What the updates mean: a map from tickers and ids to live orders.\<close>

type_synonym order_map = "nat \<Rightarrow> OrderId \<rightharpoonup> MEMarketUpdate"

definition map_apply :: "MEMarketUpdate \<Rightarrow> order_map \<Rightarrow> order_map" where
  "map_apply me M =
     (let t = unat (mu_ticker_id me); k = mu_order_id me in
      case mu_type me of
        ADD \<Rightarrow> M(t := (M t)(k \<mapsto> me))
      | MODIFY \<Rightarrow> M(t := (M t)(k := map_option (\<lambda>order. order\<lparr> mu_qty := mu_qty me, mu_price := mu_price me \<rparr>) (M t k)))
      | Upd_CANCEL \<Rightarrow> M(t := (M t)(k := None))
      | _ \<Rightarrow> M)"

text \<open>The updates the synthesizer accepts: ids in range, new orders new, others known.\<close>

definition map_accepts :: "MEMarketUpdate \<Rightarrow> order_map \<Rightarrow> bool" where
  "map_accepts me M \<longleftrightarrow> unat (mu_ticker_id me) < ME_MAX_TICKERS \<and>
     (case mu_type me of
        ADD \<Rightarrow> unat (mu_order_id me) < ME_MAX_ORDER_IDS \<and> M (unat (mu_ticker_id me)) (mu_order_id me) = None
      | MODIFY \<Rightarrow> M (unat (mu_ticker_id me)) (mu_order_id me) \<noteq> None
      | Upd_CANCEL \<Rightarrow> M (unat (mu_ticker_id me)) (mu_order_id me) \<noteq> None
      | _ \<Rightarrow> True)"

definition orders_held :: "SnapshotSynthesizer \<Rightarrow> order_map" where
  "orders_held s t k = map_option (obj (ss_order_pool s)) (ss_ticker_orders s t (unat k))"

definition snap_ptrs :: "SnapshotSynthesizer \<Rightarrow> nat set" where
  "snap_ptrs s = {i. \<exists>t k. ss_ticker_orders s t k = Some i}"

definition snap_inv :: "SnapshotSynthesizer \<Rightarrow> bool" where
  "snap_inv s \<longleftrightarrow> pool_inv (ss_order_pool s) \<and> pool_size (ss_order_pool s) = ME_MAX_ORDER_IDS
     \<and> in_use (ss_order_pool s) = snap_ptrs s
     \<and> (\<forall>t k t' k' i. ss_ticker_orders s t k = Some i \<longrightarrow> ss_ticker_orders s t' k' = Some i \<longrightarrow> t' = t \<and> k' = k)
     \<and> (\<forall>t k i. ss_ticker_orders s t k = Some i \<longrightarrow>
          t < ME_MAX_TICKERS \<and> k < ME_MAX_ORDER_IDS \<and> unat (mu_order_id (obj (ss_order_pool s) i)) = k)"

lemma snap_set_orders [simp]:
  "ss_ticker_orders (snap_set t k p s) t' k' = (if t' = t \<and> k' = k then p else ss_ticker_orders s t' k')"
  "ss_order_pool (snap_set t k p s) = ss_order_pool s" "ss_last_inc_seq_num (snap_set t k p s) = ss_last_inc_seq_num s"
  by (simp_all add: snap_set_def)

lemma snap_ptrs_ran: "snap_ptrs s = ran (\<lambda>x. ss_ticker_orders s (fst x) (snd x))"
  by (auto simp: snap_ptrs_def ran_def)

lemma snap_ptrs_set:
  "snap_ptrs (snap_set t k q (s\<lparr> ss_order_pool := p \<rparr>)) = ran ((\<lambda>x. ss_ticker_orders s (fst x) (snd x))((t, k) := q))"
  unfolding snap_ptrs_ran by (intro arg_cong[where f = ran]) (auto simp: fun_eq_iff)

lemma snap_ptrs_add:
  "ss_ticker_orders s t k = None \<Longrightarrow> snap_ptrs (snap_set t k (Some i) (s\<lparr> ss_order_pool := p \<rparr>)) = insert i (snap_ptrs s)"
  unfolding snap_ptrs_set snap_ptrs_ran[of s] by (subst ran_map_upd) simp_all

lemma ran_upd_None:
  assumes "\<And>c. m c = Some i \<longleftrightarrow> c = a"
  shows "ran (m(a := None)) = ran m - {i}"
proof
  show "ran (m(a := None)) \<subseteq> ran m - {i}" using assms by (auto simp: ran_def split: if_splits)
  show "ran m - {i} \<subseteq> ran (m(a := None))"
  proof
    fix x
    assume "x \<in> ran m - {i}"
    then obtain c where "m c = Some x" "x \<noteq> i" by (auto simp: ran_def)
    then have "(m(a := None)) c = Some x" using assms[of c] assms[of a] by auto
    then show "x \<in> ran (m(a := None))" by (rule ranI)
  qed
qed

lemma snap_ptrs_remove:
  assumes "\<And>t' k'. ss_ticker_orders s t' k' = Some i \<longleftrightarrow> t' = t \<and> k' = k"
  shows "snap_ptrs (snap_set t k None (s\<lparr> ss_order_pool := p \<rparr>)) = snap_ptrs s - {i}"
  unfolding snap_ptrs_set snap_ptrs_ran[of s] by (rule ran_upd_None) (use assms in auto)

lemma unat_eq_conv: "unat a = unat b \<longleftrightarrow> a = (b :: 'a::len word)"
  by (auto dest: unsigned_word_eqI)

lemma snap_apply_ADD:
  assumes inv: "snap_inv s" and room: "has_room (ss_order_pool s)" and u: "mu_type me = ADD" "map_accepts me (orders_held s)"
    and t: "t = unat (mu_ticker_id me)"
  shows "\<exists>s'. snap_apply t me s = Inr s' \<and> snap_inv s' \<and> orders_held s' = map_apply me (orders_held s)
     \<and> ss_last_inc_seq_num s' = ss_last_inc_seq_num s"
proof -
  let ?k = "unat (mu_order_id me)"
  have k: "?k < ME_MAX_ORDER_IDS" "ss_ticker_orders s t ?k = None" "t < ME_MAX_TICKERS"
    using u t by (simp_all add: map_accepts_def orders_held_def)
  obtain i p where p: "allocate (ss_order_pool s) me = Inr (i, p)" "pool_inv p" "pool_size p = pool_size (ss_order_pool s)"
      "i \<notin> in_use (ss_order_pool s)" "in_use p = insert i (in_use (ss_order_pool s))" "obj p i = me"
      "\<forall>j. j \<noteq> i \<longrightarrow> obj p j = obj (ss_order_pool s) j"
    using mp.alloc_ok[of "ss_order_pool s" me] inv room by (auto simp: snap_inv_def)
  define s' where "s' = snap_set t ?k (Some i) (s\<lparr> ss_order_pool := p \<rparr>)"
  have fresh: "ss_ticker_orders s t' k' \<noteq> Some i" for t' k' using p(4) inv by (auto simp: snap_inv_def snap_ptrs_def)
  then have old: "ss_ticker_orders s t' k' = Some j \<Longrightarrow> obj p j = obj (ss_order_pool s) j" for t' k' j using p(7) by metis
  have "in_use p = snap_ptrs s'" using p(5) inv snap_ptrs_add[OF k(2), of i p] by (simp add: snap_inv_def s'_def)
  then have "snap_inv s'"
    using inv p k fresh old by (auto simp: snap_inv_def s'_def)
  moreover have "orders_held s' = map_apply me (orders_held s)"
  proof (rule ext, rule ext)
    show "orders_held s' t' k' = map_apply me (orders_held s) t' k'" for t' k'
      using p(6) old[of t' "unat k'"] u(1) t
      by (cases "ss_ticker_orders s t' (unat k')") (auto simp: orders_held_def map_apply_def s'_def unat_eq_conv Let_def)
  qed
  moreover have "snap_apply t me s = Inr s'" using u(1) k p(1) by (simp add: snap_apply_def s'_def)
  ultimately show ?thesis by (auto simp: s'_def)
qed

lemma snap_apply_MODIFY:
  assumes inv: "snap_inv s" and u: "mu_type me = MODIFY" "map_accepts me (orders_held s)" and t: "t = unat (mu_ticker_id me)"
  shows "\<exists>s'. snap_apply t me s = Inr s' \<and> snap_inv s' \<and> orders_held s' = map_apply me (orders_held s)
     \<and> ss_last_inc_seq_num s' = ss_last_inc_seq_num s"
proof -
  let ?k = "unat (mu_order_id me)"
  obtain i where i: "ss_ticker_orders s t ?k = Some i" using u t by (auto simp: map_accepts_def orders_held_def)
  then have k: "?k < ME_MAX_ORDER_IDS" "unat (mu_order_id (obj (ss_order_pool s) i)) = ?k" using inv by (auto simp: snap_inv_def)
  then have same: "mu_order_id (obj (ss_order_pool s) i) = mu_order_id me" by (simp only: unat_eq_conv)
  let ?f = "\<lambda>order. order\<lparr> mu_qty := mu_qty me, mu_price := mu_price me \<rparr>"
  define s' where "s' = s\<lparr> ss_order_pool := modify (ss_order_pool s) i ?f \<rparr>"
  have "snap_apply t me s = Inr s'" using u(1) i k(1) same by (simp add: snap_apply_def s'_def Let_def)
  moreover have "snap_inv s'" using inv by (auto simp: snap_inv_def snap_ptrs_def s'_def)
  moreover have "orders_held s' = map_apply me (orders_held s)"
  proof (rule ext, rule ext)
    fix t' k'
    have "ss_ticker_orders s t' (unat k') = Some i \<longleftrightarrow> t' = t \<and> k' = mu_order_id me"
      using inv i unfolding snap_inv_def by (metis unat_eq_conv)
    then show "orders_held s' t' k' = map_apply me (orders_held s) t' k'"
      using u(1) t i by (cases "ss_ticker_orders s t' (unat k')") (auto simp: orders_held_def map_apply_def s'_def Let_def)
  qed
  ultimately show ?thesis by (auto simp: s'_def)
qed

lemma snap_apply_CANCEL:
  assumes inv: "snap_inv s" and u: "mu_type me = Upd_CANCEL" "map_accepts me (orders_held s)" and t: "t = unat (mu_ticker_id me)"
  shows "\<exists>s'. snap_apply t me s = Inr s' \<and> snap_inv s' \<and> orders_held s' = map_apply me (orders_held s)
     \<and> ss_last_inc_seq_num s' = ss_last_inc_seq_num s"
proof -
  let ?k = "unat (mu_order_id me)"
  obtain i where i: "ss_ticker_orders s t ?k = Some i" using u t by (auto simp: map_accepts_def orders_held_def)
  then have k: "?k < ME_MAX_ORDER_IDS" and used: "i \<in> in_use (ss_order_pool s)" using inv by (auto simp: snap_inv_def snap_ptrs_def)
  obtain p where p: "deallocate (ss_order_pool s) i = Inr p" "pool_inv p" "pool_size p = pool_size (ss_order_pool s)"
      "in_use p = in_use (ss_order_pool s) - {i}" "\<forall>j. obj p j = obj (ss_order_pool s) j"
    using mp.dealloc_ok[OF _ used] inv by (auto simp: snap_inv_def)
  define s' where "s' = snap_set t ?k None (s\<lparr> ss_order_pool := p \<rparr>)"
  have only: "ss_ticker_orders s t' k' = Some i \<longleftrightarrow> t' = t \<and> k' = ?k" for t' k'
    using inv i unfolding snap_inv_def by metis
  have "in_use p = snap_ptrs s'"
    using p(4) inv snap_ptrs_remove[OF only] by (simp add: snap_inv_def s'_def)
  then have "snap_inv s'" using inv p by (auto simp: snap_inv_def s'_def split: if_splits)
  moreover have "snap_apply t me s = Inr s'" using u(1) i k p(1) by (simp add: snap_apply_def s'_def)
  moreover have "orders_held s' = map_apply me (orders_held s)"
  proof -
    have "obj p = obj (ss_order_pool s)" using p(5) by auto
    then show ?thesis using u(1) t by (intro ext) (auto simp: orders_held_def map_apply_def s'_def Let_def unat_eq_conv)
  qed
  ultimately show ?thesis by (auto simp: s'_def)
qed

text \<open>An accepted update with the next sequence number has its effect on the map.\<close>

lemma addToSnapshot_ok:
  assumes inv: "snap_inv s" and room: "has_room (ss_order_pool s)" and acc: "map_accepts (mdp_update u) (orders_held s)"
    and seq: "mdp_seq_num u = ss_last_inc_seq_num s + 1"
  shows "\<exists>s'. addToSnapshot u s = Inr s' \<and> snap_inv s' \<and> orders_held s' = map_apply (mdp_update u) (orders_held s)
     \<and> ss_last_inc_seq_num s' = mdp_seq_num u"
proof -
  let ?me = "mdp_update u" and ?t = "unat (mu_ticker_id (mdp_update u))"
  have t: "?t < ME_MAX_TICKERS" using acc by (simp add: map_accepts_def)
  have "\<exists>s'. snap_apply ?t ?me s = Inr s' \<and> snap_inv s' \<and> orders_held s' = map_apply ?me (orders_held s)
     \<and> ss_last_inc_seq_num s' = ss_last_inc_seq_num s"
  proof (cases "mu_type ?me \<in> {ADD, MODIFY, Upd_CANCEL}")
    case True
    then show ?thesis using snap_apply_ADD[OF inv room] snap_apply_MODIFY[OF inv] snap_apply_CANCEL[OF inv] acc by auto
  next
    case False
    then show ?thesis using inv by (cases "mu_type ?me") (simp_all add: snap_apply_def map_apply_def)
  qed
  then obtain s1 where s1: "snap_apply ?t ?me s = Inr s1" "snap_inv s1" "orders_held s1 = map_apply ?me (orders_held s)"
      "ss_last_inc_seq_num s1 = ss_last_inc_seq_num s" by blast
  let ?s' = "s1\<lparr> ss_last_inc_seq_num := mdp_seq_num u \<rparr>"
  have "addToSnapshot u s = Inr ?s'" using t s1(1,4) seq by (simp add: addToSnapshot_def Let_def)
  moreover have "snap_inv ?s'" "orders_held ?s' = orders_held s1" using s1(2) by (simp_all add: snap_inv_def snap_ptrs_def orders_held_def fun_eq_iff)
  ultimately show ?thesis using s1(3) by simp
qed

lemma snap_inv_new: "SnapshotSynthesizer_new q fd = Inr s \<Longrightarrow> snap_inv s \<and> orders_held s = (\<lambda>_ _. None) \<and> ss_last_inc_seq_num s = 0"
  by (auto simp: SnapshotSynthesizer_new_def result_simps snap_inv_def snap_ptrs_def orders_held_def fun_eq_iff new_pool_inv sizing_defs)
     (simp_all add: MemPool_new_def)

end
