(* ===== verification/SnapshotPublish.thy ===== *)
theory SnapshotPublish
  imports SnapshotSynthesizer
begin

text \<open>
  What a snapshot contains: the orders held, ticker by ticker and in the order of their ids, each ticker behind a
  \<open>CLEAR\<close>, all between the start and the end message, and numbered from zero.
\<close>

fun mdp_number :: "nat \<Rightarrow> MEMarketUpdate list \<Rightarrow> MDPMarketUpdate list" where
  "mdp_number n [] = []"
| "mdp_number n (u # us) = \<lparr> mdp_seq_num = n, mdp_update = u \<rparr> # mdp_number (n + 1) us"

definition ticker_orders :: "SnapshotSynthesizer \<Rightarrow> nat \<Rightarrow> MEMarketUpdate list" where
  "ticker_orders s t = List.map_filter (\<lambda>k. map_option (obj (ss_order_pool s)) (ss_ticker_orders s t k)) [0..<ME_MAX_ORDER_IDS]"

definition snapshot_updates :: "SnapshotSynthesizer \<Rightarrow> MEMarketUpdate list" where
  "snapshot_updates s = snapshot_start (ss_last_inc_seq_num s)
     # concat (map (\<lambda>t. snapshot_clear t # ticker_orders s t) [0..<ME_MAX_TICKERS]) @ [snapshot_end (ss_last_inc_seq_num s)]"

definition snapshot_bytes :: "MEMarketUpdate list \<Rightarrow> byte list" where
  "snapshot_bytes us = concat (map encode_MDPMarketUpdate (mdp_number 0 us))"

lemma mdp_number_append: "mdp_number n (us @ vs) = mdp_number n us @ mdp_number (n + length us) vs"
  by (induction us arbitrary: n) simp_all

lemma length_mdp_number [simp]: "length (mdp_number n us) = length us"
  by (induction us arbitrary: n) simp_all

lemma mdp_number_updates [simp]: "map mdp_update (mdp_number n us) = us"
  by (induction us arbitrary: n) simp_all

text \<open>After the messages \<open>us\<close>: what is on the wire and what the socket still holds, at most \<open>n\<close> messages.\<close>

definition published :: "nat \<Rightarrow> MEMarketUpdate list \<Rightarrow> publishing \<Rightarrow> bool" where
  "published n us st \<longleftrightarrow> (\<exists>sock wire. st = (length us, sock, wire) \<and> wire @ mc_out sock = snapshot_bytes us
     \<and> length (mc_out sock) \<le> n * sizeof_MDPMarketUpdate)"

lemma snap_send_ok:
  assumes "published n us st" and "n \<le> 100"
  shows "\<exists>st'. snap_send u st = Inr st' \<and> published (Suc n) (us @ [u]) st'"
proof -
  obtain sock wire where st: "st = (length us, sock, wire)" "wire @ mc_out sock = snapshot_bytes us"
      "length (mc_out sock) \<le> n * sizeof_MDPMarketUpdate"
    using assms(1) by (auto simp: published_def)
  let ?m = "encode_MDPMarketUpdate \<lparr> mdp_seq_num = length us, mdp_update = u \<rparr>"
  have "length (mc_out sock) \<le> 100 * sizeof_MDPMarketUpdate" using st(3) assms(2) by (meson le_trans mult_le_mono1)
  then have "snap_send u st = Inr (length us + 1, sock\<lparr> mc_out := mc_out sock @ ?m \<rparr>, wire)"
    using st(1) by (simp add: snap_send_def mcast_send_def McastBufferSize_def sizeof_defs)
  moreover have "(wire @ mc_out sock) @ ?m = snapshot_bytes (us @ [u])"
    unfolding st(2) by (simp add: snapshot_bytes_def mdp_number_append)
  ultimately show ?thesis using st(3) by (auto simp: published_def)
qed

text \<open>A network that takes all there is at each flush.\<close>

definition takes_all :: "(nat \<Rightarrow> io) \<Rightarrow> bool" where
  "takes_all net \<longleftrightarrow> (\<forall>n. McastBufferSize \<le> io_sent (net n))"

lemma snap_flush_ok:
  assumes "published n us st" and "n \<le> 101" and "takes_all net"
  shows "\<exists>sock. snap_flush net st = Inr (length us, sock, snapshot_bytes us) \<and> mc_out sock = []"
proof -
  obtain sock wire where st: "st = (length us, sock, wire)" "wire @ mc_out sock = snapshot_bytes us"
      "length (mc_out sock) \<le> n * sizeof_MDPMarketUpdate"
    using assms(1) by (auto simp: published_def)
  have "length (mc_out sock) \<le> 101 * sizeof_MDPMarketUpdate" using st(3) assms(2) by (meson le_trans mult_le_mono1)
  also have "\<dots> \<le> McastBufferSize" by (simp add: McastBufferSize_def sizeof_defs)
  also have "\<dots> \<le> io_sent (net (length us))" using assms(3) by (simp add: takes_all_def)
  finally have "length (mc_out sock) \<le> io_sent (net (length us))" .
  moreover have "McastBufferSize \<noteq> 0" by (simp add: McastBufferSize_def)
  then have "io_sent (net (length us)) \<noteq> 0" using assms(3) unfolding takes_all_def by (metis le_zero_eq)
  ultimately obtain s' where "mcast_sendAndRecv (\<lambda>s st. Inr (s, st)) (net (length us)) sock () = Inr (s', (), mc_out sock)"
      "mc_out s' = []" using mcast_flush_all[of sock "net (length us)" "()"] by auto
  then show ?thesis using st by (simp add: snap_flush_def)
qed

lemma publish_order_ok:
  assumes "published n us st" and "n \<le> 100" and "takes_all net"
  shows "\<exists>st'. publish_order net s t k st = Inr st'
     \<and> published n (us @ List.map_filter (\<lambda>k. map_option (obj (ss_order_pool s)) (ss_ticker_orders s t k)) [k]) st'"
proof (cases "ss_ticker_orders s t k")
  case None
  then show ?thesis using assms by (simp add: publish_order_def List.map_filter_def)
next
  case (Some i)
  let ?us = "us @ [obj (ss_order_pool s) i]"
  obtain st1 where st1: "snap_send (obj (ss_order_pool s) i) st = Inr st1" "published (Suc n) ?us st1"
    using snap_send_ok[OF assms(1,2)] by blast
  then obtain sock where "snap_flush net st1 = Inr (length ?us, sock, snapshot_bytes ?us)" "mc_out sock = []"
    using snap_flush_ok[OF st1(2) _ assms(3)] assms(2) by auto
  then show ?thesis using Some st1(1) by (auto simp: publish_order_def List.map_filter_def published_def)
qed

lemma publish_orders_ok:
  assumes "published n us st" and "n \<le> 100" and "takes_all net"
  shows "\<exists>st'. foldR (publish_order net s t) ks st = Inr st'
     \<and> published n (us @ List.map_filter (\<lambda>k. map_option (obj (ss_order_pool s)) (ss_ticker_orders s t k)) ks) st'"
  using assms(1)
proof (induction ks arbitrary: us st)
  case Nil
  then show ?case by (simp add: List.map_filter_def)
next
  case (Cons k ks)
  obtain st1 where "publish_order net s t k st = Inr st1"
      "published n (us @ List.map_filter (\<lambda>k. map_option (obj (ss_order_pool s)) (ss_ticker_orders s t k)) [k]) st1"
    using publish_order_ok[OF Cons.prems assms(2,3)] by blast
  with Cons.IH[OF this(2)] show ?case by (auto simp: List.map_filter_def split: if_splits)
qed

lemma publish_tickers_ok:
  assumes "published n us st" and "n + length ts \<le> 100" and "takes_all net"
  shows "\<exists>st'. foldR (publish_ticker net s) ts st = Inr st'
     \<and> published (n + length ts) (us @ concat (map (\<lambda>t. snapshot_clear t # ticker_orders s t) ts)) st'"
  using assms(1,2)
proof (induction ts arbitrary: n us st)
  case (Cons t ts)
  obtain st1 where st1: "snap_send (snapshot_clear t) st = Inr st1" "published (Suc n) (us @ [snapshot_clear t]) st1"
    using snap_send_ok[OF Cons.prems(1), of "snapshot_clear t"] Cons.prems(2) by auto
  obtain st2 where st2: "foldR (publish_order net s t) [0..<ME_MAX_ORDER_IDS] st1 = Inr st2"
      "published (Suc n) ((us @ [snapshot_clear t]) @ ticker_orders s t) st2"
    using publish_orders_ok[OF st1(2) _ assms(3), of s t "[0..<ME_MAX_ORDER_IDS]"] Cons.prems(2)
    unfolding ticker_orders_def by auto
  have "publish_ticker net s t st = Inr st2" using st1(1) st2(1) by (simp add: publish_ticker_def)
  with Cons.IH[OF st2(2)] Cons.prems(2) show ?case by auto
qed simp

lemma publishSnapshot_ok:
  assumes "mc_out (ss_socket s) = []" and "takes_all net"
  shows "\<exists>sock. publishSnapshot net s = Inr (s\<lparr> ss_socket := sock \<rparr>, snapshot_bytes (snapshot_updates s)) \<and> mc_out sock = []"
proof -
  let ?n = "ss_last_inc_seq_num s" and ?mid = "concat (map (\<lambda>t. snapshot_clear t # ticker_orders s t) [0..<ME_MAX_TICKERS])"
  have "published 0 [] (0, ss_socket s, [])" using assms(1) by (simp add: published_def snapshot_bytes_def)
  from snap_send_ok[OF this, of "snapshot_start ?n"] obtain st1 where st1: "snap_send (snapshot_start ?n) (0, ss_socket s, []) = Inr st1"
      "published (Suc 0) [snapshot_start ?n] st1" by auto
  from publish_tickers_ok[OF this(2) _ assms(2), of "[0..<ME_MAX_TICKERS]" s]
  obtain st2 where st2: "foldR (publish_ticker net s) [0..<ME_MAX_TICKERS] st1 = Inr st2"
      "published 9 (snapshot_start ?n # ?mid) st2" by (auto simp: ME_MAX_TICKERS_def)
  from snap_send_ok[OF this(2), of "snapshot_end ?n"] obtain st3 where st3: "snap_send (snapshot_end ?n) st2 = Inr st3"
      "published (Suc 9) (snapshot_updates s) st3" by (auto simp: snapshot_updates_def)
  from snap_flush_ok[OF this(2) _ assms(2)] show ?thesis
    using st1(1) st2(1) st3(1) by (auto simp: publishSnapshot_def)
qed

lemma ticker_orders_held:
  assumes "snap_inv s"
  shows "set (ticker_orders s t) = ran (orders_held s t)"
    and "sorted_wrt (<) (map mu_order_id (ticker_orders s t))"
proof -
  let ?f = "\<lambda>k. map_option (obj (ss_order_pool s)) (ss_ticker_orders s t k)"
  have id: "unat (mu_order_id x) = k \<and> k < ME_MAX_ORDER_IDS" if "?f k = Some x" for k x
    using that assms by (auto simp: snap_inv_def)
  show "set (ticker_orders s t) = ran (orders_held s t)"
  proof (intro equalityI subsetI)
    fix x
    assume "x \<in> set (ticker_orders s t)"
    then obtain k where k: "?f k = Some x" by (force simp: ticker_orders_def List.map_filter_def)
    then have "orders_held s t (mu_order_id x) = Some x" using id by (simp add: orders_held_def)
    then show "x \<in> ran (orders_held s t)" by (rule ranI)
  next
    fix x
    assume "x \<in> ran (orders_held s t)"
    then obtain k where "?f (unat (k :: OrderId)) = Some x" by (auto simp: ran_def orders_held_def)
    then show "x \<in> set (ticker_orders s t)" using id by (force simp: ticker_orders_def List.map_filter_def)
  qed
  have "sorted_wrt (<) (map mu_order_id (List.map_filter ?f ks))" if "sorted_wrt (<) ks" for ks
    using that
  proof (induction ks)
    case (Cons k ks)
    have "mu_order_id x < mu_order_id y" if x: "?f k = Some x" and y: "y \<in> set (List.map_filter ?f ks)" for x y
    proof -
      obtain j where "j \<in> set ks" "?f j = Some y" using y by (force simp: List.map_filter_def)
      then have "unat (mu_order_id x) < unat (mu_order_id y)" using id[OF x] id[of j y] Cons.prems by auto
      then show ?thesis by (simp add: word_less_nat_alt)
    qed
    then show ?case using Cons by (cases "?f k") (auto simp: map_filter_simps)
  qed (simp add: List.map_filter_def)
  then show "sorted_wrt (<) (map mu_order_id (ticker_orders s t))" unfolding ticker_orders_def by simp
qed

end
