(* ===== verification/MarketDataPublisher.thy ===== *)
theory MarketDataPublisher
  imports SnapshotPublish
begin

text \<open>
  \<^verbatim>\<open>exchange/market_data/market_data_publisher.h\<close> and \<^verbatim>\<open>exchange/market_data/market_data_publisher.cpp\<close>: the thread that
  numbers the updates of the matching engine, multicasts them and forwards them to the synthesizer.
\<close>

record MarketDataPublisher =
  pub_next_inc_seq_num :: nat
  pub_outgoing_md_updates :: "MEMarketUpdate LFQueue"
  pub_snapshot_md_updates :: "MDPMarketUpdate LFQueue"
  pub_incremental_socket :: McastSocket

definition MarketDataPublisher_new :: "MEMarketUpdate LFQueue \<Rightarrow> int \<Rightarrow> MarketDataPublisher result" where
  "MarketDataPublisher_new market_updates fd =
     bindR (ASSERT (mc_fd (mcast_init fd McastSocket_new) \<ge> 0) ''Unable to create incremental mcast socket. error:'') (\<lambda>_.
     Inr \<lparr> pub_next_inc_seq_num = 1, pub_outgoing_md_updates = market_updates,
           pub_snapshot_md_updates = LFQueue_new ME_MAX_MARKET_UPDATES \<lparr> mdp_seq_num = 0, mdp_update = MEMarketUpdate_default \<rparr>,
           pub_incremental_socket = mcast_init fd McastSocket_new \<rparr>)"

text \<open>
  The body of the inner loop of \<open>run\<close>: two staged sends, then the same number and update to the synthesizer's queue.
  The source advances the read index before it copies the update for the synthesizer; here the slot is read
  once, which is the same as long as the engine does not lap the publisher.
\<close>

definition publish_update :: "MEMarketUpdate \<Rightarrow> MarketDataPublisher \<Rightarrow> MarketDataPublisher result" where
  "publish_update market_update p =
     bindR (mcast_send (pub_incremental_socket p) (le_bytes 8 (pub_next_inc_seq_num p))) (\<lambda>sock1.
     bindR (mcast_send sock1 (encode_MEMarketUpdate market_update)) (\<lambda>sock2.
     Inr (p\<lparr> pub_incremental_socket := sock2,
            pub_snapshot_md_updates := lf_push (pub_snapshot_md_updates p)
               \<lparr> mdp_seq_num = pub_next_inc_seq_num p, mdp_update = market_update \<rparr>,
            pub_next_inc_seq_num := pub_next_inc_seq_num p + 1 \<rparr>)))"

text \<open>One round of \<open>run\<close>: all queued updates, then one flush. The bytes sent are returned.\<close>

definition publisher_round :: "io \<Rightarrow> MarketDataPublisher \<Rightarrow> (MarketDataPublisher \<times> byte list) result" where
  "publisher_round net p =
     bindR (lf_drain (lf_size (pub_outgoing_md_updates p)) publish_update (pub_outgoing_md_updates p) p) (\<lambda>(q, p1).
     bindR (mcast_sendAndRecv (\<lambda>s st. Inr (s, st)) net (pub_incremental_socket p1) ()) (\<lambda>(sock, _, sent).
     Inr (p1\<lparr> pub_outgoing_md_updates := q, pub_incremental_socket := sock \<rparr>, sent)))"

lemma publish_updates:
  assumes "length (mc_out (pub_incremental_socket p)) + sizeof_MDPMarketUpdate * length us \<le> McastBufferSize"
  shows "\<exists>p'. foldR publish_update us p = Inr p'
     \<and> mc_out (pub_incremental_socket p') = mc_out (pub_incremental_socket p)
         @ concat (map encode_MDPMarketUpdate (mdp_number (pub_next_inc_seq_num p) us))
     \<and> pub_snapshot_md_updates p' = foldl lf_push (pub_snapshot_md_updates p) (mdp_number (pub_next_inc_seq_num p) us)
     \<and> pub_next_inc_seq_num p' = pub_next_inc_seq_num p + length us
     \<and> pub_outgoing_md_updates p' = pub_outgoing_md_updates p"
  using assms
proof (induction us arbitrary: p)
  case (Cons u us)
  let ?n = "pub_next_inc_seq_num p" and ?s = "pub_incremental_socket p"
  let ?m = "\<lparr> mdp_seq_num = ?n, mdp_update = u \<rparr>"
  define p1 where "p1 = p\<lparr> pub_incremental_socket := ?s\<lparr> mc_out := mc_out ?s @ encode_MDPMarketUpdate ?m \<rparr>,
     pub_snapshot_md_updates := lf_push (pub_snapshot_md_updates p) ?m, pub_next_inc_seq_num := ?n + 1 \<rparr>"
  have room: "length (mc_out ?s) + 8 + sizeof_MEMarketUpdate \<le> McastBufferSize"
    using Cons.prems by (simp add: sizeof_MDPMarketUpdate_def)
  then have "publish_update u p = Inr p1"
    by (simp add: publish_update_def mcast_send_def p1_def encode_MDPMarketUpdate_def)
  moreover have "length (mc_out (pub_incremental_socket p1)) + sizeof_MDPMarketUpdate * length us \<le> McastBufferSize"
    using Cons.prems by (simp add: p1_def)
  from Cons.IH[OF this] obtain p' where "foldR publish_update us p1 = Inr p'"
     "mc_out (pub_incremental_socket p') = mc_out (pub_incremental_socket p1)
         @ concat (map encode_MDPMarketUpdate (mdp_number (pub_next_inc_seq_num p1) us))"
     "pub_snapshot_md_updates p' = foldl lf_push (pub_snapshot_md_updates p1) (mdp_number (pub_next_inc_seq_num p1) us)"
     "pub_next_inc_seq_num p' = pub_next_inc_seq_num p1 + length us"
     "pub_outgoing_md_updates p' = pub_outgoing_md_updates p1" by blast
  ultimately show ?case by (intro exI[of _ p']) (simp add: p1_def)
qed simp

text \<open>
  A round with room in the buffers: the updates leave on the wire with consecutive numbers, and the synthesizer gets the
  same updates with the same numbers.
\<close>

lemma publisher_round_ok:
  assumes "lf_inv (pub_outgoing_md_updates p)" and "mc_out (pub_incremental_socket p) = []"
    and us: "us = lf_contents (pub_outgoing_md_updates p)"
    and "sizeof_MDPMarketUpdate * length us \<le> McastBufferSize" and "McastBufferSize \<le> io_sent net"
    and "lf_inv (pub_snapshot_md_updates p)"
    and "length (lf_contents (pub_snapshot_md_updates p)) + length us \<le> lf_capacity (pub_snapshot_md_updates p)"
  shows "\<exists>p'. publisher_round net p = Inr (p', concat (map encode_MDPMarketUpdate (mdp_number (pub_next_inc_seq_num p) us)))
     \<and> lf_contents (pub_outgoing_md_updates p') = []
     \<and> lf_contents (pub_snapshot_md_updates p') = lf_contents (pub_snapshot_md_updates p) @ mdp_number (pub_next_inc_seq_num p) us
     \<and> pub_next_inc_seq_num p' = pub_next_inc_seq_num p + length us \<and> mc_out (pub_incremental_socket p') = []"
proof -
  let ?ms = "mdp_number (pub_next_inc_seq_num p) us"
  obtain q where q: "lf_contents q = []" "\<forall>t. lf_drain (lf_size (pub_outgoing_md_updates p)) publish_update (pub_outgoing_md_updates p) t
      = bindR (foldR publish_update us t) (\<lambda>s'. Inr (q, s'))"
    using lf_drain_contents[OF assms(1), of "lf_size (pub_outgoing_md_updates p)" publish_update] us by (auto simp: lf_size_def)
  obtain p1 where p1: "foldR publish_update us p = Inr p1"
     "mc_out (pub_incremental_socket p1) = concat (map encode_MDPMarketUpdate ?ms)"
     "pub_snapshot_md_updates p1 = foldl lf_push (pub_snapshot_md_updates p) ?ms"
     "pub_next_inc_seq_num p1 = pub_next_inc_seq_num p + length us"
    using publish_updates[of p us] assms(2,4) by auto
  have "length (concat (map encode_MDPMarketUpdate ?ms)) = sizeof_MDPMarketUpdate * length us"
    by (simp add: length_concat comp_def sum_list_triv)
  then have fits: "length (mc_out (pub_incremental_socket p1)) \<le> io_sent net" using p1(2) assms(4,5) by simp
  have "io_sent net \<noteq> 0" using assms(5) by (auto simp: McastBufferSize_def)
  then obtain sock where "mcast_sendAndRecv (\<lambda>s st. Inr (s, st)) net (pub_incremental_socket p1) ()
      = Inr (sock, (), concat (map encode_MDPMarketUpdate ?ms))" "mc_out sock = []"
    using mcast_flush_all[OF fits, of "()"] p1(2) by auto
  moreover have "lf_contents (pub_snapshot_md_updates p1) = lf_contents (pub_snapshot_md_updates p) @ ?ms"
    using lq.push_all[OF assms(6), of ?ms] assms(7) p1(3) by simp
  ultimately show ?thesis using q p1(1,4) by (simp add: publisher_round_def)
qed

end
