(* ===== verification/MarketDataConsumer.thy ===== *)
theory MarketDataConsumer
  imports MarketDataPublisher
begin

text \<open>
  \<^verbatim>\<open>trading/market_data/market_data_consumer.h\<close> and \<^verbatim>\<open>trading/market_data/market_data_consumer.cpp\<close>: the client's
  receiver of market data. In sequence, updates go straight to the queue of the trade engine. A gap starts recovery: the snapshot
  stream is joined, messages of both streams are kept by sequence number, and when a whole snapshot and the
  incremental updates after it are there, they are forwarded and recovery ends.

  A \<open>std::map\<close> is the list of its entries in the order of the keys. Whether the snapshot socket can be opened and joined is the
  parameter \<open>sync\<close>: the file descriptor and the result of \<open>join\<close>. The index into a receive buffer while its messages are
  handled is explicit, because leaving the group empties the buffer of the snapshot socket in the middle of that loop.
\<close>

section \<open>Ordered maps\<close>

type_synonym QueuedMarketUpdates = "(nat \<times> MEMarketUpdate) list"

fun queued_insert :: "nat \<Rightarrow> MEMarketUpdate \<Rightarrow> QueuedMarketUpdates \<Rightarrow> QueuedMarketUpdates" where
  "queued_insert k u [] = [(k, u)]"
| "queued_insert k u ((j, v) # q) =
     (if k < j then (k, u) # (j, v) # q else if k = j then (k, u) # q else (j, v) # queued_insert k u q)"

lemma queued_insert_map: "map_of (queued_insert k u q) = (map_of q)(k \<mapsto> u)"
  by (induction q rule: queued_insert.induct) (auto simp: fun_eq_iff)

lemma queued_insert_keys [simp]: "set (map fst (queued_insert k u q)) = insert k (set (map fst q))"
  by (induction q rule: queued_insert.induct) auto

lemma queued_insert_sorted: "sorted_wrt (<) (map fst q) \<Longrightarrow> sorted_wrt (<) (map fst (queued_insert k u q))"
proof (induction q rule: queued_insert.induct)
  case (2 k u j v q)
  have "\<forall>x \<in> insert k (set (map fst q)). j < x" if "\<not> k < j" "k \<noteq> j" using 2 that by auto
  then show ?case using 2 queued_insert_keys[of k u q] by (auto simp del: set_map)
qed simp

lemma queued_insert_last: "\<forall>j \<in> set (map fst q). j < k \<Longrightarrow> queued_insert k u q = q @ [(k, u)]"
  by (induction q rule: queued_insert.induct) auto

section \<open>State\<close>

record MarketDataConsumer =
  con_next_exp_inc_seq_num :: nat
  con_incoming_md_updates :: "MEMarketUpdate LFQueue"
  con_incremental_socket :: McastSocket
  con_snapshot_socket :: McastSocket
  con_in_recovery :: bool
  con_snapshot_queued_msgs :: QueuedMarketUpdates
  con_incremental_queued_msgs :: QueuedMarketUpdates

definition MarketDataConsumer_new :: "MEMarketUpdate LFQueue \<Rightarrow> int \<Rightarrow> bool \<Rightarrow> MarketDataConsumer result" where
  "MarketDataConsumer_new market_updates fd joined =
     bindR (ASSERT (fd \<ge> 0) ''Unable to create incremental mcast socket. error:'') (\<lambda>_.
     bindR (ASSERT joined ''Join failed on:'') (\<lambda>_.
     Inr \<lparr> con_next_exp_inc_seq_num = 1, con_incoming_md_updates = market_updates,
           con_incremental_socket = mcast_init fd McastSocket_new, con_snapshot_socket = McastSocket_new,
           con_in_recovery = False, con_snapshot_queued_msgs = [], con_incremental_queued_msgs = [] \<rparr>))"

text \<open>The two sockets, told apart by a flag.\<close>

definition con_socket :: "bool \<Rightarrow> MarketDataConsumer \<Rightarrow> McastSocket" where
  "con_socket snapshot c = (if snapshot then con_snapshot_socket c else con_incremental_socket c)"

definition con_set_socket :: "bool \<Rightarrow> McastSocket \<Rightarrow> MarketDataConsumer \<Rightarrow> MarketDataConsumer" where
  "con_set_socket snapshot s c = (if snapshot then c\<lparr> con_snapshot_socket := s \<rparr> else c\<lparr> con_incremental_socket := s \<rparr>)"

section \<open>Recovery\<close>

definition startSnapshotSync :: "int \<times> bool \<Rightarrow> MarketDataConsumer \<Rightarrow> MarketDataConsumer result" where
  "startSnapshotSync sync c =
     bindR (ASSERT (fst sync \<ge> 0) ''Unable to create snapshot mcast socket. error:'') (\<lambda>_.
     bindR (ASSERT (snd sync) ''Join failed on:'') (\<lambda>_.
     Inr (c\<lparr> con_snapshot_queued_msgs := [], con_incremental_queued_msgs := [],
            con_snapshot_socket := mcast_init (fst sync) (con_snapshot_socket c) \<rparr>)))"

definition forwardable :: "MEMarketUpdate \<Rightarrow> bool" where
  "forwardable u \<longleftrightarrow> mu_type u \<noteq> SNAPSHOT_START \<and> mu_type u \<noteq> SNAPSHOT_END"

text \<open>Phase A: the snapshot must be numbered from zero without a gap; \<open>None\<close> is \<open>have_complete_snapshot = false\<close>.\<close>

fun collect_snapshot :: "nat \<Rightarrow> QueuedMarketUpdates \<Rightarrow> MEMarketUpdate list option" where
  "collect_snapshot n [] = Some []"
| "collect_snapshot n ((k, u) # q) =
     (if k \<noteq> n then None
      else map_option (\<lambda>us. if forwardable u then u # us else us) (collect_snapshot (n + 1) q))"

text \<open>Phase B: skip what the snapshot covers, then no gap; with the next expected number.\<close>

fun collect_incrementals :: "nat \<Rightarrow> QueuedMarketUpdates \<Rightarrow> nat \<times> MEMarketUpdate list option" where
  "collect_incrementals n [] = (n, Some [])"
| "collect_incrementals n ((k, u) # q) =
     (if k < n then collect_incrementals n q
      else if k \<noteq> n then (n, None)
      else let (n', us) = collect_incrementals (n + 1) q
           in (n', map_option (\<lambda>us. if forwardable u then u # us else us) us))"

definition checkSnapshotSync :: "MarketDataConsumer \<Rightarrow> MarketDataConsumer" where
  "checkSnapshotSync c =
     (let q = con_snapshot_queued_msgs c in
      if q = [] then c
      else if mu_type (snd (hd q)) \<noteq> SNAPSHOT_START then c\<lparr> con_snapshot_queued_msgs := [] \<rparr>
      else
        (case collect_snapshot 0 q of
           None \<Rightarrow> c\<lparr> con_snapshot_queued_msgs := [] \<rparr>
         | Some snap \<Rightarrow>
             let last_snapshot_msg = snd (last q) in
             if mu_type last_snapshot_msg \<noteq> SNAPSHOT_END then c
             else
               (case collect_incrementals (unat (mu_order_id last_snapshot_msg + 1)) (con_incremental_queued_msgs c) of
                  (n, None) \<Rightarrow> c\<lparr> con_next_exp_inc_seq_num := n, con_snapshot_queued_msgs := [] \<rparr>
                | (n, Some incs) \<Rightarrow>
                    c\<lparr> con_next_exp_inc_seq_num := n,
                       con_incoming_md_updates := foldl lf_push (con_incoming_md_updates c) (snap @ incs),
                       con_snapshot_queued_msgs := [], con_incremental_queued_msgs := [], con_in_recovery := False,
                       con_snapshot_socket := mcast_leave (con_snapshot_socket c) \<rparr>)))"

definition queueMessage :: "bool \<Rightarrow> MDPMarketUpdate \<Rightarrow> MarketDataConsumer \<Rightarrow> MarketDataConsumer" where
  "queueMessage is_snapshot request c =
     (let k = mdp_seq_num request; u = mdp_update request in
      if is_snapshot
      then let q = (if k \<in> set (map fst (con_snapshot_queued_msgs c)) then [] else con_snapshot_queued_msgs c)
           in checkSnapshotSync (c\<lparr> con_snapshot_queued_msgs := queued_insert k u q \<rparr>)
      else checkSnapshotSync (c\<lparr> con_incremental_queued_msgs := queued_insert k u (con_incremental_queued_msgs c) \<rparr>))"

section \<open>Receiving\<close>

text \<open>The body of the loop of \<open>recvCallback\<close>.\<close>

definition con_message :: "int \<times> bool \<Rightarrow> bool \<Rightarrow> MDPMarketUpdate \<Rightarrow> MarketDataConsumer \<Rightarrow> MarketDataConsumer result" where
  "con_message sync is_snapshot request c =
     (let already_in_recovery = con_in_recovery c;
          c1 = c\<lparr> con_in_recovery := (already_in_recovery \<or> mdp_seq_num request \<noteq> con_next_exp_inc_seq_num c) \<rparr> in
      if con_in_recovery c1
      then bindR (if \<not> already_in_recovery then startSnapshotSync sync c1 else Inr c1) (\<lambda>c2.
           Inr (queueMessage is_snapshot request c2))
      else if \<not> is_snapshot
      then Inr (c1\<lparr> con_next_exp_inc_seq_num := con_next_exp_inc_seq_num c1 + 1,
                   con_incoming_md_updates := lf_push (con_incoming_md_updates c1) (mdp_update request) \<rparr>)
      else Inr c1)"

text \<open>
  The loop reads the messages that were in the buffer when it started, as long as the valid index, which it looks up
  again each time, covers them. The result has the offset reached.
\<close>

fun whole_messages :: "nat \<Rightarrow> byte list \<Rightarrow> byte list list" where
  "whole_messages 0 buf = []"
| "whole_messages (Suc k) buf = take sizeof_MDPMarketUpdate buf # whole_messages k (drop sizeof_MDPMarketUpdate buf)"

fun con_loop :: "int \<times> bool \<Rightarrow> bool \<Rightarrow> bool \<Rightarrow> byte list list \<Rightarrow> nat \<Rightarrow> MarketDataConsumer \<Rightarrow>
    (nat \<times> MarketDataConsumer) result" where
  "con_loop sync snapshot is_snapshot [] i c = Inr (i, c)"
| "con_loop sync snapshot is_snapshot (m # ms) i c =
     (if i + sizeof_MDPMarketUpdate \<le> length (mc_in (con_socket snapshot c))
      then bindR (con_message sync is_snapshot (decode_MDPMarketUpdate m) c)
             (con_loop sync snapshot is_snapshot ms (i + sizeof_MDPMarketUpdate))
      else Inr (i, c))"

text \<open>
  \<open>recvCallback\<close>. The final \<open>memcpy\<close> is given \<open>next_rcv_valid_index_ - i\<close> bytes, an unsigned difference: where
  the index was reset below the offset, it wraps around and the copy runs out of bounds.
\<close>

definition con_recvCallback :: "int \<times> bool \<Rightarrow> bool \<Rightarrow> MarketDataConsumer \<Rightarrow> MarketDataConsumer result" where
  "con_recvCallback sync snapshot c =
     (let sock = con_socket snapshot c;
          is_snapshot = (mc_fd sock = mc_fd (con_snapshot_socket c)) in
      if is_snapshot \<and> \<not> con_in_recovery c then Inr (con_set_socket snapshot (sock\<lparr> mc_in := [] \<rparr>) c)
      else if length (mc_in sock) \<ge> sizeof_MDPMarketUpdate
      then bindR (con_loop sync snapshot is_snapshot
                    (whole_messages (length (mc_in sock) div sizeof_MDPMarketUpdate) (mc_in sock)) 0 c) (\<lambda>(i, c1).
           let sock1 = con_socket snapshot c1 in
           if length (mc_in sock1) < i then Inl BadIndex
           else Inr (con_set_socket snapshot (sock1\<lparr> mc_in := drop i (mc_in sock1) \<rparr>) c1))
      else Inr c)"

definition con_sendAndRecv :: "int \<times> bool \<Rightarrow> bool \<Rightarrow> io \<Rightarrow> MarketDataConsumer \<Rightarrow> MarketDataConsumer result" where
  "con_sendAndRecv sync snapshot k c =
     bindR (mcast_sendAndRecv
              (\<lambda>s st. bindR (con_recvCallback sync snapshot (con_set_socket snapshot s st)) (\<lambda>st'.
                      Inr (con_socket snapshot st', st')))
              (if mc_fd (con_socket snapshot c) < 0 then k\<lparr> io_recv := [] \<rparr> else k) (con_socket snapshot c) c)
       (\<lambda>(s, st, _). Inr (con_set_socket snapshot s st))"

text \<open>One round of \<open>run\<close>.\<close>

definition consumer_round :: "int \<times> bool \<Rightarrow> io \<Rightarrow> io \<Rightarrow> MarketDataConsumer \<Rightarrow> MarketDataConsumer result" where
  "consumer_round sync k1 k2 c = bindR (con_sendAndRecv sync False k1 c) (con_sendAndRecv sync True k2)"

end
