(* ===== verification/MarketDataTheorems.thy ===== *)
theory MarketDataTheorems
  imports MarketDataConsumer
begin

text \<open>
  The properties of the market data path: numbering and forwarding on the exchange, the orders a snapshot has, forwarding in
  sequence on the client, what a gap does, and how recovery ends.
\<close>

section \<open>The loop over a buffer\<close>

definition mdp_wire_ok :: "MEMarketUpdate list \<Rightarrow> nat \<Rightarrow> bool" where
  "mdp_wire_ok us n \<longleftrightarrow> (\<forall>u \<in> set us. price_ok (mu_price u)) \<and> n + length us \<le> 2 ^ 64"

lemma whole_messages_encoded:
  "whole_messages (length ms) (concat (map encode_MDPMarketUpdate ms) @ rest) = map encode_MDPMarketUpdate ms"
  by (induction ms) simp_all

lemma length_encoded: "length (concat (map encode_MDPMarketUpdate ms)) = sizeof_MDPMarketUpdate * length ms"
  by (simp add: length_concat comp_def sum_list_triv)

lemma buffer_messages:
  assumes "length rest < sizeof_MDPMarketUpdate" and "buf = concat (map encode_MDPMarketUpdate ms) @ rest"
  shows "whole_messages (length buf div sizeof_MDPMarketUpdate) buf = map encode_MDPMarketUpdate ms"
proof -
  have "length buf div sizeof_MDPMarketUpdate = length ms"
    unfolding assms(2) length_append length_encoded using assms(1) by (simp add: sizeof_defs)
  then show ?thesis using whole_messages_encoded assms(2) by simp
qed

lemma con_socket_simps [simp]:
  "con_socket b (con_set_socket b s c) = s"
  "con_in_recovery (con_set_socket b s c) = con_in_recovery c"
  "con_incoming_md_updates (con_set_socket b s c) = con_incoming_md_updates c"
  "con_next_exp_inc_seq_num (con_set_socket b s c) = con_next_exp_inc_seq_num c"
  "con_snapshot_queued_msgs (con_set_socket b s c) = con_snapshot_queued_msgs c"
  "con_incremental_queued_msgs (con_set_socket b s c) = con_incremental_queued_msgs c"
  by (simp_all add: con_socket_def con_set_socket_def)

text \<open>Messages in sequence outside of recovery: each is pushed, and the buffers stay.\<close>

lemma con_loop_in_sequence:
  assumes "\<not> con_in_recovery c" and "mdp_wire_ok us (con_next_exp_inc_seq_num c)"
    and "i + sizeof_MDPMarketUpdate * length us \<le> length (mc_in (con_incremental_socket c))"
  shows "con_loop sync False False (map encode_MDPMarketUpdate (mdp_number (con_next_exp_inc_seq_num c) us)) i c
     = Inr (i + sizeof_MDPMarketUpdate * length us,
            c\<lparr> con_next_exp_inc_seq_num := con_next_exp_inc_seq_num c + length us,
               con_incoming_md_updates := foldl lf_push (con_incoming_md_updates c) us \<rparr>)"
  using assms
proof (induction us arbitrary: i c)
  case (Cons u us)
  let ?n = "con_next_exp_inc_seq_num c" and ?m = "\<lparr> mdp_seq_num = con_next_exp_inc_seq_num c, mdp_update = u \<rparr>"
  let ?c1 = "c\<lparr> con_next_exp_inc_seq_num := ?n + 1, con_incoming_md_updates := lf_push (con_incoming_md_updates c) u \<rparr>"
  have "decode_MDPMarketUpdate (encode_MDPMarketUpdate ?m) = ?m"
    using Cons.prems(2) by (intro mdp_update_roundtrip) (simp_all add: mdp_wire_ok_def)
  moreover have "c\<lparr> con_in_recovery := False \<rparr> = c" using Cons.prems(1) by simp
  ultimately have step: "con_message sync False (decode_MDPMarketUpdate (encode_MDPMarketUpdate ?m)) c = Inr ?c1"
    using Cons.prems(1) by (simp add: con_message_def Let_def)
  have "con_loop sync False False (map encode_MDPMarketUpdate (mdp_number (con_next_exp_inc_seq_num ?c1) us))
      (i + sizeof_MDPMarketUpdate) ?c1
     = Inr (i + sizeof_MDPMarketUpdate + sizeof_MDPMarketUpdate * length us,
            ?c1\<lparr> con_next_exp_inc_seq_num := con_next_exp_inc_seq_num ?c1 + length us,
               con_incoming_md_updates := foldl lf_push (con_incoming_md_updates ?c1) us \<rparr>)"
    by (rule Cons.IH) (use Cons.prems in \<open>simp_all add: mdp_wire_ok_def\<close>)
  then show ?case using step Cons.prems(3) by (simp add: con_socket_def)
qed simp

lemma recvCallback_in_sequence:
  assumes "\<not> con_in_recovery c" and "mc_fd (con_incremental_socket c) \<noteq> mc_fd (con_snapshot_socket c)"
    and "mdp_wire_ok us n" and "n = con_next_exp_inc_seq_num c"
    and "mc_in (con_incremental_socket c) = concat (map encode_MDPMarketUpdate (mdp_number n us)) @ rest"
    and "length rest < sizeof_MDPMarketUpdate"
  shows "con_recvCallback sync False c = Inr (c\<lparr>
       con_incremental_socket := (con_incremental_socket c)\<lparr> mc_in := rest \<rparr>,
       con_next_exp_inc_seq_num := n + length us,
       con_incoming_md_updates := foldl lf_push (con_incoming_md_updates c) us \<rparr>)"
proof (cases "us = []")
  case True
  have "con_incremental_socket c = (con_incremental_socket c)\<lparr> mc_in := rest \<rparr>" using assms(5) True by simp
  then have "c = c\<lparr> con_incremental_socket := (con_incremental_socket c)\<lparr> mc_in := rest \<rparr> \<rparr>" by simp
  then show ?thesis using True assms by (simp add: con_recvCallback_def con_socket_def Let_def)
next
  case False
  let ?ms = "mdp_number n us" and ?b = "mc_in (con_incremental_socket c)"
  have len: "length ?b = sizeof_MDPMarketUpdate * length us + length rest"
    unfolding assms(5) length_append length_encoded by simp
  then have big: "sizeof_MDPMarketUpdate \<le> length ?b" using False by (cases us) simp_all
  have "con_loop sync False False (map encode_MDPMarketUpdate ?ms) 0 c
     = Inr (sizeof_MDPMarketUpdate * length us, c\<lparr> con_next_exp_inc_seq_num := n + length us,
               con_incoming_md_updates := foldl lf_push (con_incoming_md_updates c) us \<rparr>)"
    using con_loop_in_sequence[of c us 0 sync] assms(1,3,4) len by simp
  moreover have "drop (sizeof_MDPMarketUpdate * length us) ?b = rest"
    unfolding assms(5) using length_encoded[of ?ms] by simp
  ultimately show ?thesis
    using buffer_messages[OF assms(6,5)] big len assms(1,2)
    by (simp add: con_recvCallback_def con_socket_def con_set_socket_def Let_def)
qed

section \<open>From the matching engine to the client\<close>

lemma sendAndRecv_in_sequence:
  assumes "\<not> con_in_recovery c" and "mc_fd (con_incremental_socket c) \<noteq> mc_fd (con_snapshot_socket c)"
    and "0 \<le> mc_fd (con_incremental_socket c)" and "mc_in (con_incremental_socket c) = []" and "mc_out (con_incremental_socket c) = []"
    and "mdp_wire_ok us n" and "n = con_next_exp_inc_seq_num c"
    and "io_recv k = concat (map encode_MDPMarketUpdate (mdp_number n us))"
    and "sizeof_MDPMarketUpdate * length us \<le> McastBufferSize"
  shows "con_sendAndRecv sync False k c = Inr (c\<lparr> con_next_exp_inc_seq_num := n + length us,
       con_incoming_md_updates := foldl lf_push (con_incoming_md_updates c) us \<rparr>)"
proof -
  let ?s = "con_incremental_socket c" and ?wire = "concat (map encode_MDPMarketUpdate (mdp_number n us))"
  have wire: "take McastBufferSize ?wire = ?wire" using assms(9) length_encoded[of "mdp_number n us"] by simp
  have same: "?s\<lparr> mc_in := [] \<rparr> = ?s" using assms(4) by simp
  show ?thesis
  proof (cases "us = []")
    case True
    then have "c = c\<lparr> con_next_exp_inc_seq_num := n + length us,
        con_incoming_md_updates := foldl lf_push (con_incoming_md_updates c) us \<rparr>" using assms(7) by simp
    then show ?thesis
      using True assms by (simp add: con_sendAndRecv_def mcast_sendAndRecv_def con_socket_def con_set_socket_def Let_def)
  next
    case False
    define c1 where "c1 = con_set_socket False (?s\<lparr> mc_in := ?wire \<rparr>) c"
    have "con_recvCallback sync False c1 = Inr (c1\<lparr>
       con_incremental_socket := (con_incremental_socket c1)\<lparr> mc_in := [] \<rparr>,
       con_next_exp_inc_seq_num := n + length us,
       con_incoming_md_updates := foldl lf_push (con_incoming_md_updates c1) us \<rparr>)"
      by (rule recvCallback_in_sequence)
         (use assms in \<open>simp_all add: c1_def con_set_socket_def sizeof_defs\<close>)
    also have "c1\<lparr> con_incremental_socket := (con_incremental_socket c1)\<lparr> mc_in := [] \<rparr>,
       con_next_exp_inc_seq_num := n + length us,
       con_incoming_md_updates := foldl lf_push (con_incoming_md_updates c1) us \<rparr>
     = c\<lparr> con_next_exp_inc_seq_num := n + length us, con_incoming_md_updates := foldl lf_push (con_incoming_md_updates c) us \<rparr>"
      using same by (simp add: c1_def con_set_socket_def)
    finally have cb: "con_recvCallback sync False c1 = Inr \<dots>" .
    have "0 < length ?wire" unfolding length_encoded using False by (simp add: sizeof_defs)
    then have "?wire \<noteq> []" by (rule length_greater_0_conv[THEN iffD1])
    then show ?thesis
      using cb assms(3,4,5,8) wire
      by (simp add: con_sendAndRecv_def mcast_sendAndRecv_def con_socket_def con_set_socket_def Let_def c1_def)
  qed
qed

text \<open>market data in sequence, end to end: one round of the publisher drains the updates of the matching engine, and a
  consumer that has seen everything so far and receives exactly the bytes sent queues the same updates in the same order for its
  trade engine; both ends agree on the next sequence number again.\<close>

theorem updates_travel_in_sequence:
  assumes "lf_inv (pub_outgoing_md_updates p)" and "mc_out (pub_incremental_socket p) = []"
    and "us = lf_contents (pub_outgoing_md_updates p)"
    and "sizeof_MDPMarketUpdate * length us \<le> McastBufferSize" and "McastBufferSize \<le> io_sent net"
    and "lf_inv (pub_snapshot_md_updates p)"
    and "length (lf_contents (pub_snapshot_md_updates p)) + length us \<le> lf_capacity (pub_snapshot_md_updates p)"
    and "\<not> con_in_recovery c" and "mc_fd (con_incremental_socket c) \<noteq> mc_fd (con_snapshot_socket c)"
    and "0 \<le> mc_fd (con_incremental_socket c)" and "mc_in (con_incremental_socket c) = []" and "mc_out (con_incremental_socket c) = []"
    and "con_next_exp_inc_seq_num c = pub_next_inc_seq_num p" and "mdp_wire_ok us (pub_next_inc_seq_num p)"
    and "lf_inv (con_incoming_md_updates c)"
    and "length (lf_contents (con_incoming_md_updates c)) + length us \<le> lf_capacity (con_incoming_md_updates c)"
  shows "\<exists>p' wire c'. publisher_round net p = Inr (p', wire)
     \<and> con_sendAndRecv sync False \<lparr> io_recv = wire, io_sent = 0, io_time = 0 \<rparr> c = Inr c'
     \<and> lf_contents (pub_outgoing_md_updates p') = []
     \<and> lf_contents (con_incoming_md_updates c') = lf_contents (con_incoming_md_updates c) @ us
     \<and> con_next_exp_inc_seq_num c' = pub_next_inc_seq_num p' \<and> \<not> con_in_recovery c'"
proof -
  let ?n = "pub_next_inc_seq_num p" and ?wire = "concat (map encode_MDPMarketUpdate (mdp_number (pub_next_inc_seq_num p) us))"
  obtain p' where p': "publisher_round net p = Inr (p', ?wire)" "lf_contents (pub_outgoing_md_updates p') = []"
      "pub_next_inc_seq_num p' = ?n + length us"
    using publisher_round_ok[OF assms(1-7)] by blast
  have "con_sendAndRecv sync False \<lparr> io_recv = ?wire, io_sent = 0, io_time = 0 \<rparr> c
     = Inr (c\<lparr> con_next_exp_inc_seq_num := ?n + length us,
       con_incoming_md_updates := foldl lf_push (con_incoming_md_updates c) us \<rparr>)"
    by (rule sendAndRecv_in_sequence[OF assms(8-12) assms(14)]) (use assms in simp_all)
  moreover have "lf_contents (foldl lf_push (con_incoming_md_updates c) us) = lf_contents (con_incoming_md_updates c) @ us"
    using lq.push_all[OF assms(15,16)] by simp
  ultimately show ?thesis using p' assms(8) by (intro exI[of _ p'] exI[of _ ?wire]) simp
qed

definition sample_md_update :: MEMarketUpdate where
  "sample_md_update = \<lparr> mu_type = ADD, mu_order_id = 7, mu_ticker_id = 0, mu_side = BUY, mu_price = 100, mu_qty = 10, mu_priority = 1 \<rparr>"

definition sample_md_queue :: "nat \<Rightarrow> MEMarketUpdate LFQueue" where
  "sample_md_queue n = LFQueue_new n MEMarketUpdate_default"

definition sample_publisher :: MarketDataPublisher where
  "sample_publisher = \<lparr> pub_next_inc_seq_num = 5, pub_outgoing_md_updates = lf_push (sample_md_queue 8) sample_md_update,
     pub_snapshot_md_updates = LFQueue_new 8 \<lparr> mdp_seq_num = 0, mdp_update = MEMarketUpdate_default \<rparr>,
     pub_incremental_socket = mcast_init 3 McastSocket_new \<rparr>"

definition sample_consumer :: MarketDataConsumer where
  "sample_consumer = \<lparr> con_next_exp_inc_seq_num = 5, con_incoming_md_updates = sample_md_queue 8,
     con_incremental_socket = mcast_init 4 McastSocket_new, con_snapshot_socket = McastSocket_new,
     con_in_recovery = False, con_snapshot_queued_msgs = [], con_incremental_queued_msgs = [] \<rparr>"

lemma lf_new_capacity: "lf_capacity (LFQueue_new n x) = n"
  by (simp add: LFQueue_new_def)

lemma sample_md_queues:
  "price_ok (mu_price sample_md_update)"
  "lf_inv (sample_md_queue 8)" "lf_contents (sample_md_queue 8) = []" "lf_capacity (sample_md_queue 8) = 8"
  "lf_inv (lf_push (sample_md_queue 8) sample_md_update)" "lf_contents (lf_push (sample_md_queue 8) sample_md_update) = [sample_md_update]"
proof -
  show "price_ok (mu_price sample_md_update)" by (simp add: sample_md_update_def price_ok_def)
  show q: "lf_inv (sample_md_queue 8)" "lf_contents (sample_md_queue 8) = []" "lf_capacity (sample_md_queue 8) = 8"
    by (simp_all add: sample_md_queue_def lf_new_inv lf_new_capacity)
  have "num_elements (sample_md_queue 8) = 0" by (simp add: sample_md_queue_def LFQueue_new_def)
  then show "lf_inv (lf_push (sample_md_queue 8) sample_md_update)"
      "lf_contents (lf_push (sample_md_queue 8) sample_md_update) = [sample_md_update]"
    using lf_push_ok[OF q(1), of sample_md_update] q by simp_all
qed

theorem updates_travel_in_sequence_witness:
  "\<exists>p' wire c'. publisher_round \<lparr> io_recv = [], io_sent = McastBufferSize, io_time = 0 \<rparr> sample_publisher = Inr (p', wire)
     \<and> con_sendAndRecv (9, True) False \<lparr> io_recv = wire, io_sent = 0, io_time = 0 \<rparr> sample_consumer = Inr c'
     \<and> lf_contents (con_incoming_md_updates c') = [sample_md_update] \<and> con_next_exp_inc_seq_num c' = pub_next_inc_seq_num p'"
proof -
  have "\<exists>p' wire c'. publisher_round \<lparr> io_recv = [], io_sent = McastBufferSize, io_time = 0 \<rparr> sample_publisher = Inr (p', wire)
     \<and> con_sendAndRecv (9, True) False \<lparr> io_recv = wire, io_sent = 0, io_time = 0 \<rparr> sample_consumer = Inr c'
     \<and> lf_contents (pub_outgoing_md_updates p') = []
     \<and> lf_contents (con_incoming_md_updates c') = lf_contents (con_incoming_md_updates sample_consumer) @ [sample_md_update]
     \<and> con_next_exp_inc_seq_num c' = pub_next_inc_seq_num p' \<and> \<not> con_in_recovery c'"
    by (rule updates_travel_in_sequence)
       (simp_all add: sample_publisher_def sample_consumer_def sample_md_queues mcast_init_def McastSocket_new_def lf_new_inv
          McastBufferSize_def sizeof_defs mdp_wire_ok_def lf_new_capacity)
  then show ?thesis by (auto simp: sample_consumer_def sample_md_queues)
qed

end
