(* ===== verification/RecoveryTheorems.thy ===== *)
theory RecoveryTheorems
  imports MarketDataTheorems
begin

text \<open>
  Recovery of the market data consumer. While the consumer waits in recovery its snapshot queue never holds a complete snapshot:
  one is either committed or thrown away by the message that completes it. That message comes from the
  snapshot socket, whose buffer is emptied by leaving the group while the loop over that buffer is still running.
\<close>

definition con_waiting :: "MarketDataConsumer \<Rightarrow> bool" where
  "con_waiting c \<longleftrightarrow> con_in_recovery c \<and> 0 \<le> mc_fd (con_snapshot_socket c)
     \<and> (con_snapshot_queued_msgs c = [] \<or> mu_type (snd (last (con_snapshot_queued_msgs c))) \<noteq> SNAPSHOT_END)"

text \<open>What a handler leaves alone.\<close>

definition con_frame :: "MarketDataConsumer \<Rightarrow> MarketDataConsumer \<Rightarrow> bool" where
  "con_frame c c' \<longleftrightarrow> con_incoming_md_updates c' = con_incoming_md_updates c
     \<and> con_snapshot_socket c' = con_snapshot_socket c \<and> con_incremental_socket c' = con_incremental_socket c"

lemma con_frame_refl [simp]: "con_frame c c"
  by (simp add: con_frame_def)

lemma con_frame_trans: "con_frame a b \<Longrightarrow> con_frame b c \<Longrightarrow> con_frame a c"
  by (simp add: con_frame_def)

lemma checkSnapshotSync_cases:
  assumes "con_in_recovery c" and "0 \<le> mc_fd (con_snapshot_socket c)"
  shows "con_waiting (checkSnapshotSync c) \<and> con_frame c (checkSnapshotSync c)
     \<or> \<not> con_in_recovery (checkSnapshotSync c) \<and> con_snapshot_queued_msgs c \<noteq> []
       \<and> mu_type (snd (last (con_snapshot_queued_msgs c))) = SNAPSHOT_END
       \<and> mc_in (con_snapshot_socket (checkSnapshotSync c)) = []"
  using assms
  by (auto simp: checkSnapshotSync_def con_waiting_def con_frame_def mcast_leave_def Let_def split: option.splits prod.splits)

lemma message_recovering:
  assumes "con_in_recovery c"
  shows "con_message sync b m c = Inr (queueMessage b m c)"
  using assms by (cases c) (simp add: con_message_def Let_def)

lemma message_incremental_waiting:
  assumes "con_waiting c"
  shows "\<exists>c'. con_message sync False m c = Inr c' \<and> con_waiting c' \<and> con_frame c c'"
proof -
  let ?c1 = "c\<lparr> con_incremental_queued_msgs := queued_insert (mdp_seq_num m) (mdp_update m) (con_incremental_queued_msgs c) \<rparr>"
  have r: "con_in_recovery c" using assms by (simp add: con_waiting_def)
  have "con_waiting (checkSnapshotSync ?c1) \<and> con_frame ?c1 (checkSnapshotSync ?c1)"
    using checkSnapshotSync_cases[of ?c1] assms by (auto simp: con_waiting_def)
  moreover have "con_frame c ?c1" by (simp add: con_frame_def)
  ultimately show ?thesis
    using message_recovering[OF r] by (auto simp: queueMessage_def Let_def intro: con_frame_trans)
qed

lemma message_snapshot_waiting:
  assumes "con_waiting c"
  shows "\<exists>c'. con_message sync True m c = Inr c'
     \<and> (con_waiting c' \<and> con_frame c c' \<or> mc_in (con_snapshot_socket c') = [])"
proof -
  let ?q = "if mdp_seq_num m \<in> set (map fst (con_snapshot_queued_msgs c)) then [] else con_snapshot_queued_msgs c"
  let ?c1 = "c\<lparr> con_snapshot_queued_msgs := queued_insert (mdp_seq_num m) (mdp_update m) ?q \<rparr>"
  have r: "con_in_recovery c" using assms by (simp add: con_waiting_def)
  have "con_waiting (checkSnapshotSync ?c1) \<and> con_frame ?c1 (checkSnapshotSync ?c1)
      \<or> mc_in (con_snapshot_socket (checkSnapshotSync ?c1)) = []"
  proof -
    have "con_in_recovery ?c1" "0 \<le> mc_fd (con_snapshot_socket ?c1)" using assms by (simp_all add: con_waiting_def)
    from checkSnapshotSync_cases[OF this] show ?thesis by blast
  qed
  moreover have "con_frame c ?c1" by (simp add: con_frame_def)
  ultimately have *: "con_waiting (checkSnapshotSync ?c1) \<and> con_frame c (checkSnapshotSync ?c1)
      \<or> mc_in (con_snapshot_socket (checkSnapshotSync ?c1)) = []"
    using con_frame_trans by blast
  have "con_message sync True m c = Inr (checkSnapshotSync ?c1)"
    using message_recovering[OF r] by (simp add: queueMessage_def Let_def)
  then show ?thesis using * by blast
qed

lemma loop_incremental_waiting:
  "con_waiting c \<Longrightarrow> \<exists>i' c'. con_loop sync False False ms i c = Inr (i', c') \<and> con_waiting c' \<and> con_frame c c'
     \<and> (i \<le> length (mc_in (con_incremental_socket c)) \<longrightarrow> i' \<le> length (mc_in (con_incremental_socket c)))"
proof (induction ms arbitrary: i c)
  case (Cons m ms)
  obtain c1 where c1: "con_message sync False (decode_MDPMarketUpdate m) c = Inr c1" "con_waiting c1" "con_frame c c1"
    using message_incremental_waiting[OF Cons.prems] by blast
  with Cons.IH[OF c1(2), of "i + sizeof_MDPMarketUpdate"] show ?case
    using Cons.prems con_frame_trans[OF c1(3)] by (auto simp: con_socket_def con_frame_def)
qed simp

lemma loop_incremental_offset:
  "con_waiting c \<Longrightarrow> con_loop sync False False ms i c = Inr (i', c') \<Longrightarrow>
     i + sizeof_MDPMarketUpdate * length ms \<le> length (mc_in (con_incremental_socket c)) \<Longrightarrow>
     i' = i + sizeof_MDPMarketUpdate * length ms"
proof (induction ms arbitrary: i c)
  case (Cons m ms)
  obtain c1 where c1: "con_message sync False (decode_MDPMarketUpdate m) c = Inr c1" "con_waiting c1" "con_frame c c1"
    using message_incremental_waiting[OF Cons.prems(1)] by blast
  then show ?case
    using Cons.IH[OF c1(2), of "i + sizeof_MDPMarketUpdate"] Cons.prems by (simp add: con_socket_def con_frame_def)
qed simp

lemma loop_snapshot_waiting:
  "con_waiting c \<Longrightarrow> \<exists>i' c'. con_loop sync True True ms i c = Inr (i', c')
     \<and> (con_waiting c' \<and> con_frame c c' \<and> (i \<le> length (mc_in (con_snapshot_socket c)) \<longrightarrow> i' \<le> length (mc_in (con_snapshot_socket c)))
        \<or> mc_in (con_snapshot_socket c') = [] \<and> 0 < i')"
proof (induction ms arbitrary: i c)
  case (Cons m ms)
  obtain c1 where c1: "con_message sync True (decode_MDPMarketUpdate m) c = Inr c1"
      "con_waiting c1 \<and> con_frame c c1 \<or> mc_in (con_snapshot_socket c1) = []"
    using message_snapshot_waiting[OF Cons.prems] by blast
  show ?case
  proof (cases "i + sizeof_MDPMarketUpdate \<le> length (mc_in (con_socket True c))")
    case False
    then show ?thesis using Cons.prems by auto
  next
    case True
    show ?thesis
    proof (cases "con_waiting c1 \<and> con_frame c c1")
      case w: True
      obtain i' c' where "con_loop sync True True ms (i + sizeof_MDPMarketUpdate) c1 = Inr (i', c')"
          "con_waiting c' \<and> con_frame c1 c' \<and> (i + sizeof_MDPMarketUpdate \<le> length (mc_in (con_snapshot_socket c1)) \<longrightarrow>
             i' \<le> length (mc_in (con_snapshot_socket c1))) \<or> mc_in (con_snapshot_socket c') = [] \<and> 0 < i'"
        using Cons.IH w by blast
      then show ?thesis using c1(1) True w con_frame_trans by (auto simp: con_socket_def con_frame_def)
    next
      case False
      then have empty: "mc_in (con_snapshot_socket c1) = []" using c1(2) by blast
      then have "con_loop sync True True ms (i + sizeof_MDPMarketUpdate) c1 = Inr (i + sizeof_MDPMarketUpdate, c1)"
        by (cases ms) (simp_all add: con_socket_def sizeof_defs)
      then show ?thesis using c1(1) True empty by (simp add: sizeof_defs)
    qed
  qed
qed auto

lemma con_waiting_socket [simp]:
  "mc_fd s = mc_fd (con_socket b c) \<Longrightarrow> con_waiting (con_set_socket b s c) = con_waiting c"
  by (auto simp: con_waiting_def con_set_socket_def con_socket_def)

text \<open>One call of the receiver in recovery: still waiting and nothing forwarded, or the copy at the end overruns.\<close>

lemma recvCallback_waiting:
  assumes w: "con_waiting c" and fd: "mc_fd (con_incremental_socket c) \<noteq> mc_fd (con_snapshot_socket c)"
  shows "con_recvCallback sync b c = Inl BadIndex
     \<or> (\<exists>c'. con_recvCallback sync b c = Inr c' \<and> con_waiting c' \<and> con_incoming_md_updates c' = con_incoming_md_updates c
          \<and> mc_fd (con_incremental_socket c') = mc_fd (con_incremental_socket c)
          \<and> mc_fd (con_snapshot_socket c') = mc_fd (con_snapshot_socket c))"
proof -
  let ?s = "con_socket b c" and ?ms = "whole_messages (length (mc_in (con_socket b c)) div sizeof_MDPMarketUpdate) (mc_in (con_socket b c))"
  have isb: "(mc_fd ?s = mc_fd (con_snapshot_socket c)) = b" using fd by (simp add: con_socket_def)
  have r: "con_in_recovery c" using w by (simp add: con_waiting_def)
  show ?thesis
  proof (cases "sizeof_MDPMarketUpdate \<le> length (mc_in ?s)")
    case False
    then show ?thesis using w r isb by (simp add: con_recvCallback_def Let_def)
  next
    case True
    have "\<exists>i c1. con_loop sync b b ?ms 0 c = Inr (i, c1)
       \<and> (con_waiting c1 \<and> con_frame c c1 \<and> i \<le> length (mc_in ?s) \<or> mc_in (con_socket b c1) = [] \<and> 0 < i)"
      using loop_snapshot_waiting[OF w, of sync ?ms 0] loop_incremental_waiting[OF w, of sync ?ms 0]
      by (cases b) (auto simp: con_socket_def)
    then obtain i c1 where l: "con_loop sync b b ?ms 0 c = Inr (i, c1)"
        "con_waiting c1 \<and> con_frame c c1 \<and> i \<le> length (mc_in ?s) \<or> mc_in (con_socket b c1) = [] \<and> 0 < i" by blast
    show ?thesis
    proof (cases "con_waiting c1 \<and> con_frame c c1 \<and> i \<le> length (mc_in ?s)")
      case ok: True
      then have same: "con_socket b c1 = ?s" by (simp add: con_frame_def con_socket_def)
      let ?c' = "con_set_socket b (?s\<lparr> mc_in := drop i (mc_in ?s) \<rparr>) c1"
      have "con_recvCallback sync b c = Inr ?c'"
        using True isb r l(1) ok same by (simp add: con_recvCallback_def Let_def)
      moreover have "con_waiting ?c'" using ok same by simp
      moreover have "mc_fd (con_incremental_socket ?c') = mc_fd (con_incremental_socket c)"
          "mc_fd (con_snapshot_socket ?c') = mc_fd (con_snapshot_socket c)"
        using ok by (auto simp: con_set_socket_def con_frame_def con_socket_def)
      ultimately show ?thesis using ok by (simp add: con_frame_def)
    next
      case False
      then have "mc_in (con_socket b c1) = []" "0 < i" using l(2) by blast+
      then show ?thesis using True isb r l(1) by (simp add: con_recvCallback_def Let_def)
    qed
  qed
qed

section \<open>Gaps\<close>

text \<open>Messages of the incremental stream from any state: numbers in sequence are forwarded until the first gap.\<close>

fun in_order :: "nat \<Rightarrow> MDPMarketUpdate list \<Rightarrow> MEMarketUpdate list" where
  "in_order n [] = []"
| "in_order n (m # ms) = (if mdp_seq_num m = n then mdp_update m # in_order (n + 1) ms else [])"

lemma con_loop_incremental:
  assumes "\<not> con_in_recovery c" and "0 \<le> fst sync" and "snd sync"
    and "\<forall>m \<in> set ms. decode_MDPMarketUpdate (encode_MDPMarketUpdate m) = m"
    and "i + sizeof_MDPMarketUpdate * length ms \<le> length (mc_in (con_incremental_socket c))"
  shows "\<exists>c'. con_loop sync False False (map encode_MDPMarketUpdate ms) i c = Inr (i + sizeof_MDPMarketUpdate * length ms, c')
     \<and> con_incoming_md_updates c' = foldl lf_push (con_incoming_md_updates c) (in_order (con_next_exp_inc_seq_num c) ms)
     \<and> con_incremental_socket c' = con_incremental_socket c
     \<and> (if length (in_order (con_next_exp_inc_seq_num c) ms) = length ms then \<not> con_in_recovery c' else con_waiting c')"
  using assms
proof (induction ms arbitrary: i c)
  case (Cons m ms)
  let ?n = "con_next_exp_inc_seq_num c" and ?e = "sizeof_MDPMarketUpdate"
  have dec: "decode_MDPMarketUpdate (encode_MDPMarketUpdate m) = m" using Cons.prems(4) by simp
  have fits: "i + ?e \<le> length (mc_in (con_socket False c))" using Cons.prems(5) by (simp add: con_socket_def)
  show ?case
  proof (cases "mdp_seq_num m = ?n")
    case True
    define c1 where "c1 = c\<lparr> con_next_exp_inc_seq_num := ?n + 1, con_incoming_md_updates := lf_push (con_incoming_md_updates c) (mdp_update m) \<rparr>"
    have "con_message sync False m c = Inr c1"
      using True Cons.prems(1) by (cases c) (simp add: con_message_def Let_def c1_def)
    moreover obtain c' where "con_loop sync False False (map encode_MDPMarketUpdate ms) (i + ?e) c1 = Inr (i + ?e + ?e * length ms, c')"
        "con_incoming_md_updates c' = foldl lf_push (con_incoming_md_updates c1) (in_order (con_next_exp_inc_seq_num c1) ms)"
        "con_incremental_socket c' = con_incremental_socket c1"
        "if length (in_order (con_next_exp_inc_seq_num c1) ms) = length ms then \<not> con_in_recovery c' else con_waiting c'"
      using Cons.IH[of c1 "i + ?e"] Cons.prems by (auto simp: c1_def)
    ultimately show ?thesis using True dec fits by (simp add: c1_def split: if_splits)
  next
    case False
    define c0 where "c0 = c\<lparr> con_in_recovery := True, con_snapshot_queued_msgs := [], con_incremental_queued_msgs := [],
        con_snapshot_socket := mcast_init (fst sync) (con_snapshot_socket c) \<rparr>"
    have "con_message sync False m c = con_message sync False m c0"
      using False Cons.prems(1-3) by (cases c) (simp add: con_message_def startSnapshotSync_def c0_def Let_def)
    moreover have "con_waiting c0" using Cons.prems(2) by (simp add: con_waiting_def c0_def mcast_init_def)
    then obtain c1 where c1: "con_message sync False m c0 = Inr c1" "con_waiting c1" "con_frame c0 c1"
      using message_incremental_waiting by blast
    moreover obtain i' c' where l: "con_loop sync False False (map encode_MDPMarketUpdate ms) (i + ?e) c1 = Inr (i', c')"
        "con_waiting c'" "con_frame c1 c'"
      using loop_incremental_waiting[OF c1(2)] by blast
    moreover have "i' = i + ?e + ?e * length ms"
    proof -
      have "i + ?e + ?e * length (map encode_MDPMarketUpdate ms) \<le> length (mc_in (con_incremental_socket c1))"
        using Cons.prems(5) c1(3) by (simp add: con_frame_def c0_def)
      then show ?thesis using loop_incremental_offset[OF c1(2) l(1)] by simp
    qed
    ultimately show ?thesis using False dec fits by (simp add: con_frame_def c0_def)
  qed
qed simp

text \<open>C19: gap detection: from the messages that arrive on the incremental stream the consumer forwards exactly those before the
  first one whose number is not the expected one, in order; if there is such a message it enters
  recovery, and no later update, in sequence or not, is forwarded.\<close>

theorem gap_stops_forwarding:
  assumes "\<not> con_in_recovery c" and "mc_fd (con_incremental_socket c) \<noteq> mc_fd (con_snapshot_socket c)"
    and "0 \<le> fst sync" and "snd sync"
    and "\<forall>m \<in> set ms. decode_MDPMarketUpdate (encode_MDPMarketUpdate m) = m"
    and "mc_in (con_incremental_socket c) = concat (map encode_MDPMarketUpdate ms) @ rest"
    and "length rest < sizeof_MDPMarketUpdate" and "ms \<noteq> []"
    and "lf_inv (con_incoming_md_updates c)"
    and "length (lf_contents (con_incoming_md_updates c)) + length ms \<le> lf_capacity (con_incoming_md_updates c)"
  shows "\<exists>c'. con_recvCallback sync False c = Inr c'
     \<and> lf_contents (con_incoming_md_updates c') = lf_contents (con_incoming_md_updates c) @ in_order (con_next_exp_inc_seq_num c) ms
     \<and> (con_in_recovery c' \<longleftrightarrow> length (in_order (con_next_exp_inc_seq_num c) ms) < length ms)
     \<and> mc_in (con_incremental_socket c') = rest"
proof -
  let ?us = "in_order (con_next_exp_inc_seq_num c) ms" and ?b = "mc_in (con_incremental_socket c)"
  have len: "length ?b = sizeof_MDPMarketUpdate * length ms + length rest"
    unfolding assms(6) length_append length_encoded by simp
  then have big: "sizeof_MDPMarketUpdate \<le> length ?b" using assms(8) by (cases ms) simp_all
  obtain c1 where c1: "con_loop sync False False (map encode_MDPMarketUpdate ms) 0 c = Inr (sizeof_MDPMarketUpdate * length ms, c1)"
      "con_incoming_md_updates c1 = foldl lf_push (con_incoming_md_updates c) ?us"
      "con_incremental_socket c1 = con_incremental_socket c"
      "if length ?us = length ms then \<not> con_in_recovery c1 else con_waiting c1"
    using con_loop_incremental[OF assms(1,3,4,5), of 0] len by auto
  have short: "length (in_order n ms) \<le> length ms" for n
    by (induction n ms rule: in_order.induct) simp_all
  have "con_in_recovery c1 \<longleftrightarrow> length ?us < length ms"
    using c1(4) short[of "con_next_exp_inc_seq_num c"] by (auto simp: con_waiting_def split: if_splits)
  moreover have "drop (sizeof_MDPMarketUpdate * length ms) ?b = rest"
    unfolding assms(6) using length_encoded[of ms] by simp
  moreover have "lf_contents (foldl lf_push (con_incoming_md_updates c) ?us) = lf_contents (con_incoming_md_updates c) @ ?us"
    using lq.push_all[OF assms(9), of ?us] assms(10) short[of "con_next_exp_inc_seq_num c"] by simp
  ultimately show ?thesis
    using buffer_messages[OF assms(7,6)] big len assms(1,2) c1
    by (auto simp: con_recvCallback_def con_socket_def con_set_socket_def Let_def)
qed

definition sample_mdp :: "nat \<Rightarrow> MEMarketUpdate \<Rightarrow> MDPMarketUpdate" where
  "sample_mdp n u = \<lparr> mdp_seq_num = n, mdp_update = u \<rparr>"

definition sample_receiving :: MarketDataConsumer where
  "sample_receiving = sample_consumer\<lparr> con_incremental_socket := (con_incremental_socket sample_consumer)\<lparr>
     mc_in := concat (map encode_MDPMarketUpdate [sample_mdp 5 sample_md_update, sample_mdp 7 sample_md_update]) \<rparr> \<rparr>"

theorem gap_stops_forwarding_witness:
  "\<exists>c'. con_recvCallback (9, True) False sample_receiving = Inr c'
     \<and> lf_contents (con_incoming_md_updates c') = [sample_md_update] \<and> con_in_recovery c'"
proof -
  let ?ms = "[sample_mdp 5 sample_md_update, sample_mdp 7 sample_md_update]"
  have f: "con_next_exp_inc_seq_num sample_receiving = 5" "con_incoming_md_updates sample_receiving = sample_md_queue 8"
      "\<not> con_in_recovery sample_receiving" "mc_fd (con_incremental_socket sample_receiving) = 4"
      "mc_fd (con_snapshot_socket sample_receiving) = - 1"
      "mc_in (con_incremental_socket sample_receiving) = concat (map encode_MDPMarketUpdate ?ms) @ []"
    by (simp_all add: sample_receiving_def sample_consumer_def mcast_init_def McastSocket_new_def)
  have "\<forall>m \<in> set ?ms. decode_MDPMarketUpdate (encode_MDPMarketUpdate m) = m"
    by (auto intro!: mdp_update_roundtrip simp: sample_mdp_def sample_md_queues)
  then have "\<exists>c'. con_recvCallback (9, True) False sample_receiving = Inr c'
     \<and> lf_contents (con_incoming_md_updates c')
         = lf_contents (con_incoming_md_updates sample_receiving) @ in_order (con_next_exp_inc_seq_num sample_receiving) ?ms
     \<and> (con_in_recovery c' \<longleftrightarrow> length (in_order (con_next_exp_inc_seq_num sample_receiving) ?ms) < length ?ms)
     \<and> mc_in (con_incremental_socket c') = []"
    by (intro gap_stops_forwarding) (simp_all add: f sample_md_queues sizeof_defs)
  then show ?thesis by (auto simp: f sample_md_queues sample_mdp_def)
qed

section \<open>How recovery ends\<close>

text \<open>C20: what recovery forwards: when the snapshot queue holds the messages of a whole snapshot taken at sequence number \<open>n\<close>,
  and the incremental queue holds older updates and then all from \<open>n + 1\<close> on without a gap, the check commits the body of the
  snapshot followed by exactly the updates after it, in order, and expects the update after the last of them.\<close>

theorem recovery_commits_snapshot_and_rest:
  assumes "con_snapshot_queued_msgs c = map (\<lambda>m. (mdp_seq_num m, mdp_update m)) (mdp_number 0 (snapshot_start n # body @ [snapshot_end n]))"
    and "\<forall>u \<in> set body \<union> set incs. forwardable u" and "n + 1 < 2 ^ 64"
    and "con_incremental_queued_msgs c = old @ map (\<lambda>m. (mdp_seq_num m, mdp_update m)) (mdp_number (n + 1) incs)"
    and "\<forall>(k, u) \<in> set old. k \<le> n"
    and "lf_inv (con_incoming_md_updates c)"
    and "length (lf_contents (con_incoming_md_updates c)) + length body + length incs \<le> lf_capacity (con_incoming_md_updates c)"
  shows "lf_contents (con_incoming_md_updates (checkSnapshotSync c)) = lf_contents (con_incoming_md_updates c) @ body @ incs
     \<and> con_next_exp_inc_seq_num (checkSnapshotSync c) = n + 1 + length incs
     \<and> \<not> con_in_recovery (checkSnapshotSync c)"
proof -
  let ?p = "map (\<lambda>m. (mdp_seq_num m, mdp_update m))"
  have A: "collect_snapshot k (?p (mdp_number k us)) = Some (filter forwardable us)" for k us
    by (induction us arbitrary: k) simp_all
  have B: "collect_incrementals k (?p (mdp_number k us)) = (k + length us, Some (filter forwardable us))" for k us
    by (induction us arbitrary: k) simp_all
  have O: "collect_incrementals (n + 1) (old @ q) = collect_incrementals (n + 1) q" for q
    using assms(5) by (induction old) (auto simp: less_Suc_eq_le)
  have last: "last (?p (mdp_number k (us @ [u]))) = (k + length us, u)" for k us u
    by (simp add: mdp_number_append)
  have n: "unat ((of_nat n :: 64 word) + 1) = n + 1"
  proof -
    have "unat (of_nat (n + 1) :: 64 word) = n + 1" using assms(3) by (subst unat_of_nat) simp
    then show ?thesis by (simp add: add.commute)
  qed
  have fw: "filter forwardable (snapshot_start n # body @ [snapshot_end n]) = body" "filter forwardable incs = incs"
    using assms(2) by (auto simp: forwardable_def snapshot_start_def snapshot_end_def)
  let ?q = "con_snapshot_queued_msgs c"
  have q: "?q \<noteq> []" "snd (hd ?q) = snapshot_start n" "snd (last ?q) = snapshot_end n" "collect_snapshot 0 ?q = Some body"
    unfolding assms(1) using A[of 0 "snapshot_start n # body @ [snapshot_end n]"] fw(1) last[of 0 "snapshot_start n # body" "snapshot_end n"]
    by simp_all
  have inc: "collect_incrementals (n + 1) (con_incremental_queued_msgs c) = (n + 1 + length incs, Some incs)"
    unfolding assms(4) O B fw(2) by simp
  have "lf_contents (foldl lf_push (con_incoming_md_updates c) (body @ incs)) = lf_contents (con_incoming_md_updates c) @ body @ incs"
    using lq.push_all[OF assms(6), of "body @ incs"] assms(7) by simp
  moreover have "mu_type (snapshot_start n) = SNAPSHOT_START" "mu_type (snapshot_end n) = SNAPSHOT_END"
      "mu_order_id (snapshot_end n) = of_nat n" by (simp_all add: snapshot_start_def snapshot_end_def)
  ultimately show ?thesis using q inc n by (simp add: checkSnapshotSync_def Let_def)
qed

definition sample_recovering :: MarketDataConsumer where
  "sample_recovering = sample_consumer\<lparr> con_in_recovery := True,
     con_snapshot_queued_msgs := [(0, snapshot_start 8), (1, snapshot_clear 0), (2, snapshot_end 8)],
     con_incremental_queued_msgs := [(7, sample_md_update), (9, sample_md_update)] \<rparr>"

theorem recovery_commits_snapshot_and_rest_witness:
  "lf_contents (con_incoming_md_updates (checkSnapshotSync sample_recovering)) = [snapshot_clear 0, sample_md_update]
     \<and> con_next_exp_inc_seq_num (checkSnapshotSync sample_recovering) = 10 \<and> \<not> con_in_recovery (checkSnapshotSync sample_recovering)"
proof -
  have "lf_contents (con_incoming_md_updates (checkSnapshotSync sample_recovering))
       = lf_contents (con_incoming_md_updates sample_recovering) @ [snapshot_clear 0] @ [sample_md_update]
     \<and> con_next_exp_inc_seq_num (checkSnapshotSync sample_recovering) = 8 + 1 + length [sample_md_update]
     \<and> \<not> con_in_recovery (checkSnapshotSync sample_recovering)"
    by (rule recovery_commits_snapshot_and_rest[where old = "[(7, sample_md_update)]"])
       (simp_all add: sample_recovering_def sample_consumer_def sample_md_queues forwardable_def snapshot_clear_def, simp add: sample_md_update_def)
  then show ?thesis by (simp add: sample_recovering_def sample_consumer_def sample_md_queues)
qed

section \<open>Recovery is never left\<close>

text \<open>A consumer from its construction on, over any rounds of the network; a new socket never has the descriptor of an open one.\<close>

inductive consumer_runs :: "MarketDataConsumer \<Rightarrow> bool" where
  consumer_start: "MarketDataConsumer_new q fd joined = Inr c \<Longrightarrow> consumer_runs c"
| consumer_step: "consumer_runs c \<Longrightarrow> fst sync \<noteq> mc_fd (con_incremental_socket c) \<Longrightarrow>
    consumer_round sync k1 k2 c = Inr c' \<Longrightarrow> consumer_runs c'"

definition con_ok :: "MarketDataConsumer \<Rightarrow> bool" where
  "con_ok c \<longleftrightarrow> 0 \<le> mc_fd (con_incremental_socket c) \<and> mc_fd (con_incremental_socket c) \<noteq> mc_fd (con_snapshot_socket c)
     \<and> (con_in_recovery c \<longrightarrow> con_waiting c)"

text \<open>What a step of a well-formed consumer preserves.\<close>

definition con_keeps :: "MarketDataConsumer \<Rightarrow> MarketDataConsumer \<Rightarrow> bool" where
  "con_keeps c c' \<longleftrightarrow> con_ok c' \<and> mc_fd (con_incremental_socket c') = mc_fd (con_incremental_socket c)
     \<and> (con_in_recovery c \<longrightarrow> con_in_recovery c' \<and> con_incoming_md_updates c' = con_incoming_md_updates c)"

lemma con_keeps_refl: "con_ok c \<Longrightarrow> con_keeps c c"
  by (simp add: con_keeps_def)

lemma con_keeps_trans: "con_keeps a b \<Longrightarrow> con_keeps b c \<Longrightarrow> con_keeps a c"
  by (auto simp: con_keeps_def)

lemma con_ok_socket: "con_ok c \<Longrightarrow> mc_fd s = mc_fd (con_socket b c) \<Longrightarrow> con_keeps c (con_set_socket b s c)"
  by (auto simp: con_ok_def con_keeps_def con_set_socket_def con_socket_def con_waiting_def)

lemma con_message_keeps:
  assumes ok: "con_ok c" and fd: "fst sync \<noteq> mc_fd (con_incremental_socket c)" and m: "con_message sync False m c = Inr c'"
  shows "con_keeps c c'"
proof (cases "con_in_recovery c")
  case True
  then have "con_waiting c" using ok by (simp add: con_ok_def)
  then obtain c1 where "con_message sync False m c = Inr c1" "con_waiting c1" "con_frame c c1"
    using message_incremental_waiting by blast
  then show ?thesis using m ok by (auto simp: con_keeps_def con_ok_def con_frame_def con_waiting_def)
next
  case False
  show ?thesis
  proof (cases "mdp_seq_num m = con_next_exp_inc_seq_num c")
    case True
    then show ?thesis using False m ok by (auto simp: con_message_def Let_def con_keeps_def con_ok_def)
  next
    case gap: False
    define c0 where "c0 = c\<lparr> con_in_recovery := True, con_snapshot_queued_msgs := [], con_incremental_queued_msgs := [],
        con_snapshot_socket := mcast_init (fst sync) (con_snapshot_socket c) \<rparr>"
    have s: "0 \<le> fst sync" "snd sync"
      using m False gap by (auto simp: con_message_def startSnapshotSync_def Let_def result_simps)
    then have "con_message sync False m c = con_message sync False m c0"
      using gap False by (cases c) (simp add: con_message_def startSnapshotSync_def c0_def Let_def)
    moreover have "con_waiting c0" using s(1) by (simp add: con_waiting_def c0_def mcast_init_def)
    then obtain c1 where "con_message sync False m c0 = Inr c1" "con_waiting c1" "con_frame c0 c1"
      using message_incremental_waiting by blast
    ultimately show ?thesis
      using m ok fd False by (auto simp: con_keeps_def con_ok_def con_frame_def c0_def mcast_init_def)
  qed
qed

lemma con_loop_keeps:
  assumes "con_ok c" and "fst sync \<noteq> mc_fd (con_incremental_socket c)" and "con_loop sync False False ms i c = Inr (i', c')"
  shows "con_keeps c c'"
  using assms
proof (induction ms arbitrary: i c)
  case (Cons m ms)
  show ?case
  proof (cases "i + sizeof_MDPMarketUpdate \<le> length (mc_in (con_socket False c))")
    case True
    then obtain c1 where c1: "con_message sync False (decode_MDPMarketUpdate m) c = Inr c1"
        "con_loop sync False False ms (i + sizeof_MDPMarketUpdate) c1 = Inr (i', c')"
      using Cons.prems(3) by (auto simp: result_simps)
    have k: "con_keeps c c1" using con_message_keeps[OF Cons.prems(1,2) c1(1)] .
    then have "con_keeps c1 c'" using Cons.IH[OF _ _ c1(2)] Cons.prems(2) by (simp add: con_keeps_def)
    then show ?thesis using con_keeps_trans[OF k] by blast
  next
    case False
    then show ?thesis using Cons.prems by (simp add: con_keeps_refl)
  qed
qed (simp add: con_keeps_refl)

lemma recvCallback_keeps:
  assumes ok: "con_ok c" and fd: "fst sync \<noteq> mc_fd (con_incremental_socket c)" and r: "con_recvCallback sync b c = Inr c'"
  shows "con_keeps c c'"
proof (cases "con_in_recovery c")
  case True
  then have w: "con_waiting c" "mc_fd (con_incremental_socket c) \<noteq> mc_fd (con_snapshot_socket c)" using ok by (simp_all add: con_ok_def)
  show ?thesis using recvCallback_waiting[OF w, of sync b] r ok by (auto simp: con_keeps_def con_ok_def con_waiting_def)
next
  case False
  let ?s = "con_socket b c" and ?ms = "whole_messages (length (mc_in (con_socket b c)) div sizeof_MDPMarketUpdate) (mc_in (con_socket b c))"
  have isb: "(mc_fd ?s = mc_fd (con_snapshot_socket c)) = b" using ok by (simp add: con_ok_def con_socket_def)
  show ?thesis
  proof (cases "b \<or> length (mc_in ?s) < sizeof_MDPMarketUpdate")
    case True
    then have "c' = c \<or> c' = con_set_socket b (?s\<lparr> mc_in := [] \<rparr>) c"
      using r isb False by (auto simp: con_recvCallback_def Let_def split: if_splits)
    then show ?thesis using con_ok_socket[OF ok, of _ b] con_keeps_refl[OF ok] by auto
  next
    case long: False
    then obtain i c1 where l: "con_loop sync False False ?ms 0 c = Inr (i, c1)"
        "c' = con_set_socket False ((con_socket False c1)\<lparr> mc_in := drop i (mc_in (con_socket False c1)) \<rparr>) c1"
      using r isb False by (auto simp: con_recvCallback_def Let_def result_simps split: if_splits prod.splits)
    have k: "con_keeps c c1" by (rule con_loop_keeps[OF ok fd l(1)])
    then have "con_keeps c1 c'" using con_ok_socket[of c1 _ False] l(2) by (simp add: con_keeps_def)
    then show ?thesis using con_keeps_trans[OF k] by blast
  qed
qed

lemma mcast_sendAndRecv_result:
  assumes "mcast_sendAndRecv cb k s st = Inr (s', st', w)"
  shows "\<exists>got s1. (if got \<noteq> [] then cb (s\<lparr> mc_in := mc_in s @ got \<rparr>) st else Inr (s, st)) = Inr (s1, st') \<and> mc_fd s' = mc_fd s1"
proof -
  let ?got = "take (McastBufferSize - length (mc_in s)) (io_recv k)"
  obtain s1 where "(if ?got \<noteq> [] then cb (s\<lparr> mc_in := mc_in s @ ?got \<rparr>) st else Inr (s, st)) = Inr (s1, st')" "mc_fd s' = mc_fd s1"
    using assms by (force simp: mcast_sendAndRecv_def Let_def bindR_eq_Inr split: if_splits)
  then show ?thesis by blast
qed

lemma sendAndRecv_keeps:
  assumes ok: "con_ok c" and fd: "fst sync \<noteq> mc_fd (con_incremental_socket c)" and r: "con_sendAndRecv sync b k c = Inr c'"
  shows "con_keeps c c'"
proof -
  let ?s = "con_socket b c"
  let ?cb = "\<lambda>s st. bindR (con_recvCallback sync b (con_set_socket b s st)) (\<lambda>st'. Inr (con_socket b st', st'))"
  obtain s' st w where "mcast_sendAndRecv ?cb (if mc_fd ?s < 0 then k\<lparr> io_recv := [] \<rparr> else k) ?s c = Inr (s', st, w)"
      and c': "c' = con_set_socket b s' st"
    using r unfolding con_sendAndRecv_def bindR_eq_Inr by auto
  from mcast_sendAndRecv_result[OF this(1)] obtain got s1 where
    g: "(if got \<noteq> [] then ?cb (?s\<lparr> mc_in := mc_in ?s @ got \<rparr>) c else Inr (?s, c)) = Inr (s1, st)" "mc_fd s' = mc_fd s1" by blast
  have "con_keeps c st \<and> mc_fd s' = mc_fd (con_socket b st)"
  proof (cases "got = []")
    case True
    then show ?thesis using g con_keeps_refl[OF ok] by auto
  next
    case False
    let ?c0 = "con_set_socket b (?s\<lparr> mc_in := mc_in ?s @ got \<rparr>) c"
    have k0: "con_keeps c ?c0" by (rule con_ok_socket[OF ok]) simp
    have "con_recvCallback sync b ?c0 = Inr st" "s1 = con_socket b st" using g(1) False by (auto simp: bindR_eq_Inr)
    moreover have "con_ok ?c0" "fst sync \<noteq> mc_fd (con_incremental_socket ?c0)" using k0 fd by (simp_all add: con_keeps_def)
    ultimately show ?thesis using con_keeps_trans[OF k0 recvCallback_keeps] g(2) by blast
  qed
  then show ?thesis using con_ok_socket[of st s' b] con_keeps_trans c' by (auto simp: con_keeps_def)
qed

lemma consumer_runs_ok: "consumer_runs c \<Longrightarrow> con_ok c"
proof (induction rule: consumer_runs.induct)
  case (consumer_start q fd joined c)
  then show ?case
    by (auto simp: MarketDataConsumer_new_def result_simps con_ok_def mcast_init_def McastSocket_new_def)
next
  case (consumer_step c sync k1 k2 c')
  then obtain c1 where c1: "con_sendAndRecv sync False k1 c = Inr c1" "con_sendAndRecv sync True k2 c1 = Inr c'"
    by (auto simp: consumer_round_def result_simps)
  have "con_keeps c c1" using sendAndRecv_keeps[OF consumer_step.IH consumer_step.hyps(2) c1(1)] .
  then show ?case using sendAndRecv_keeps[OF _ _ c1(2)] consumer_step.hyps(2) by (simp add: con_keeps_def)
qed

text \<open>C28: a consumer that entered recovery never leaves it: whatever the two streams deliver, a round either ends in the
  out-of-bounds copy (or another failure) or leaves the consumer in recovery with nothing new forwarded. The message that would
  complete recovery always comes from the snapshot socket, and leaving the group resets the
  index that the length of the final copy is computed from.\<close>

theorem recovery_never_completes:
  assumes "consumer_runs c" and "con_in_recovery c" and "fst sync \<noteq> mc_fd (con_incremental_socket c)"
    and "consumer_round sync k1 k2 c = Inr c'"
  shows "con_in_recovery c' \<and> con_incoming_md_updates c' = con_incoming_md_updates c"
proof -
  have ok: "con_ok c" by (rule consumer_runs_ok[OF assms(1)])
  obtain c1 where c1: "con_sendAndRecv sync False k1 c = Inr c1" "con_sendAndRecv sync True k2 c1 = Inr c'"
    using assms(4) by (auto simp: consumer_round_def result_simps)
  have k: "con_keeps c c1" by (rule sendAndRecv_keeps[OF ok assms(3) c1(1)])
  then have "con_keeps c1 c'" using sendAndRecv_keeps[OF _ _ c1(2)] assms(3) by (simp add: con_keeps_def)
  then have "con_keeps c c'" using con_keeps_trans[OF k] by blast
  then show ?thesis using assms(2) by (simp add: con_keeps_def)
qed

lemma sample_recovery_run:
  "\<exists>c c'. consumer_runs c \<and> con_in_recovery c \<and> mc_fd (con_incremental_socket c) = 4
     \<and> consumer_round (9, True) \<lparr> io_recv = [], io_sent = 0, io_time = 0 \<rparr> \<lparr> io_recv = [], io_sent = 0, io_time = 0 \<rparr> c = Inr c'"
proof -
  let ?idle = "\<lparr> io_recv = [], io_sent = 0, io_time = 0 \<rparr>"
  let ?m = "sample_mdp 7 sample_md_update"
  let ?k = "\<lparr> io_recv = encode_MDPMarketUpdate ?m, io_sent = 0, io_time = 0 \<rparr>"
  have idle: "con_sendAndRecv (9, True) b ?idle c = Inr c"
    if "mc_out (con_socket b c) = []" for b c
    using that by (cases c) (auto simp: con_sendAndRecv_def mcast_sendAndRecv_def con_socket_def con_set_socket_def Let_def split: if_splits)
  define c0 where "c0 = sample_consumer\<lparr> con_next_exp_inc_seq_num := 1 \<rparr>"
  have run0: "consumer_runs c0"
    by (rule consumer_start[of "sample_md_queue 8" 4 True]) (simp add: MarketDataConsumer_new_def c0_def sample_consumer_def)
  define c1 where "c1 = con_set_socket False ((con_incremental_socket c0)\<lparr> mc_in := encode_MDPMarketUpdate ?m \<rparr>) c0"
  have dec: "decode_MDPMarketUpdate (encode_MDPMarketUpdate ?m) = ?m"
    by (rule mdp_update_roundtrip) (simp_all add: sample_mdp_def sample_md_queues)
  define c2 where "c2 = c0\<lparr> con_in_recovery := True, con_incremental_queued_msgs := [(7, sample_md_update)],
     con_snapshot_socket := mcast_init 9 McastSocket_new \<rparr>"
  have "con_recvCallback (9, True) False c1 = Inr c2"
    using dec
    by (simp add: con_recvCallback_def c1_def c2_def c0_def con_socket_def con_set_socket_def sample_consumer_def Let_def
        mcast_init_def McastSocket_new_def con_message_def startSnapshotSync_def queueMessage_def checkSnapshotSync_def sizeof_defs)
       (simp add: sample_mdp_def)
  moreover have "encode_MDPMarketUpdate ?m \<noteq> []"
    using encoded_lengths(6)[of ?m] by (metis list.size(3) sizeof_MDPMarketUpdate_def add_is_0 zero_neq_numeral)
  ultimately have "con_sendAndRecv (9, True) False ?k c0 = Inr c2"
    by (simp add: con_sendAndRecv_def mcast_sendAndRecv_def con_socket_def con_set_socket_def Let_def c0_def c1_def c2_def sample_consumer_def
        mcast_init_def McastSocket_new_def McastBufferSize_def sizeof_defs)
  moreover have out: "mc_out (con_socket b c2) = []" for b
    by (simp add: c2_def c0_def sample_consumer_def con_socket_def mcast_init_def McastSocket_new_def)
  ultimately have "consumer_round (9, True) ?k ?idle c0 = Inr c2" using idle[of True c2] by (simp add: consumer_round_def)
  then have "consumer_runs c2"
    by (rule consumer_step[OF run0, rotated]) (simp add: c0_def sample_consumer_def mcast_init_def)
  moreover have "consumer_round (9, True) ?idle ?idle c2 = Inr c2" using idle[of _ c2] out by (simp add: consumer_round_def)
  moreover have "con_in_recovery c2" "mc_fd (con_incremental_socket c2) = 4"
    by (simp_all add: c2_def c0_def sample_consumer_def mcast_init_def)
  ultimately show ?thesis by blast
qed

theorem recovery_never_completes_witness:
  "\<exists>c c'. consumer_runs c \<and> con_in_recovery c
     \<and> consumer_round (9, True) \<lparr> io_recv = [], io_sent = 0, io_time = 0 \<rparr> \<lparr> io_recv = [], io_sent = 0, io_time = 0 \<rparr> c = Inr c'
     \<and> con_in_recovery c' \<and> con_incoming_md_updates c' = con_incoming_md_updates c"
proof -
  obtain c c' where c: "consumer_runs c" "con_in_recovery c" "mc_fd (con_incremental_socket c) = 4"
     "consumer_round (9, True) \<lparr> io_recv = [], io_sent = 0, io_time = 0 \<rparr> \<lparr> io_recv = [], io_sent = 0, io_time = 0 \<rparr> c = Inr c'"
    using sample_recovery_run by blast
  then show ?thesis using recovery_never_completes[OF c(1,2) _ c(4)] by auto
qed

text \<open>completing recovery overruns the buffer: when the first message in the buffer of the snapshot socket is the one that
  completes the snapshot, the callback ends in the out-of-bounds copy.\<close>

theorem recovery_completion_overruns:
  assumes "con_waiting c" and "mc_in (con_snapshot_socket c) = encode_MDPMarketUpdate m @ rest"
    and "decode_MDPMarketUpdate (encode_MDPMarketUpdate m) = m"
    and "\<not> con_in_recovery (queueMessage True m c)"
  shows "con_recvCallback sync True c = Inl BadIndex"
proof -
  let ?c1 = "queueMessage True m c"
  have r: "con_in_recovery c" using assms(1) by (simp add: con_waiting_def)
  have step: "con_message sync True m c = Inr ?c1" by (rule message_recovering[OF r])
  then have empty: "mc_in (con_snapshot_socket ?c1) = []"
    using message_snapshot_waiting[OF assms(1), of sync m] assms(4) by (auto simp: con_waiting_def)
  let ?b = "mc_in (con_snapshot_socket c)"
  have "sizeof_MDPMarketUpdate \<le> length ?b" using assms(2) by simp
  moreover from this obtain k where "length ?b div sizeof_MDPMarketUpdate = Suc k"
    by (metis add_is_0 assms(2) div_greater_zero_iff encoded_lengths(6) gr0_implies_Suc length_append less_le_trans sizeof_MDPMarketUpdate_def zero_less_numeral add_gr_0)
  moreover have "con_loop sync True True ms sizeof_MDPMarketUpdate ?c1 = Inr (sizeof_MDPMarketUpdate, ?c1)" for ms
    using empty by (cases ms) (simp_all add: con_socket_def sizeof_defs)
  ultimately show ?thesis
    using assms(2,3) r step empty by (simp add: con_recvCallback_def con_socket_def Let_def sizeof_defs)
qed

definition sample_last_message :: MarketDataConsumer where
  "sample_last_message = sample_consumer\<lparr> con_in_recovery := True,
     con_snapshot_queued_msgs := [(0, snapshot_start 8), (1, snapshot_clear 0)],
     con_snapshot_socket := (mcast_init 9 McastSocket_new)\<lparr> mc_in := encode_MDPMarketUpdate (sample_mdp 2 (snapshot_end 8)) \<rparr> \<rparr>"

theorem recovery_completion_overruns_witness:
  "con_recvCallback (9, True) True sample_last_message = Inl BadIndex"
proof (rule recovery_completion_overruns[where m = "sample_mdp 2 (snapshot_end 8)" and rest = "[]"])
  show "con_waiting sample_last_message"
    by (simp add: con_waiting_def sample_last_message_def mcast_init_def snapshot_clear_def)
  show "decode_MDPMarketUpdate (encode_MDPMarketUpdate (sample_mdp 2 (snapshot_end 8))) = sample_mdp 2 (snapshot_end 8)"
    by (rule mdp_update_roundtrip) (simp_all add: sample_mdp_def snapshot_end_def price_ok_def Price_INVALID_def)
  show "\<not> con_in_recovery (queueMessage True (sample_mdp 2 (snapshot_end 8)) sample_last_message)"
    by (simp add: queueMessage_def checkSnapshotSync_def sample_last_message_def sample_consumer_def sample_mdp_def Let_def
        snapshot_start_def snapshot_clear_def snapshot_end_def)
qed (simp add: sample_last_message_def)

end
