(* ===== verification/Doubles.thy ===== *)
theory Doubles
  imports Complex_Main Prelude
begin

text \<open>
  The \<open>double\<close> arithmetic of the trading strategies. A value is a real number, one of the infinities or not a number;
  zero has no sign here. Every operation computes the exact real result and rounds it: the rounding, and \<open>log1p\<close> and \<open>log\<close> of
  the mathematical library, are the parameter \<open>fpenv\<close> of the definitions, so that the theorems hold for whatever rounding the
  machine does, within the stated hypotheses. Comparisons with a value that is not a number are false, and so
  \<open>x != x\<close> holds for it.
\<close>

datatype double = NaN | PInf | NInf | Fin real

record fpenv =
  fp_rnd :: "real \<Rightarrow> double"
  fp_log1p :: "double \<Rightarrow> double"
  fp_log :: "double \<Rightarrow> double"

section \<open>Operations\<close>

primrec fneg :: "double \<Rightarrow> double" where
  "fneg NaN = NaN" | "fneg PInf = NInf" | "fneg NInf = PInf" | "fneg (Fin x) = Fin (- x)"

fun fadd :: "fpenv \<Rightarrow> double \<Rightarrow> double \<Rightarrow> double" where
  "fadd e (Fin x) (Fin y) = fp_rnd e (x + y)"
| "fadd e NaN _ = NaN"
| "fadd e _ NaN = NaN"
| "fadd e PInf NInf = NaN"
| "fadd e NInf PInf = NaN"
| "fadd e PInf _ = PInf"
| "fadd e _ PInf = PInf"
| "fadd e NInf _ = NInf"
| "fadd e _ NInf = NInf"

definition fsub :: "fpenv \<Rightarrow> double \<Rightarrow> double \<Rightarrow> double" where
  "fsub e a b = fadd e a (fneg b)"

text \<open>The sign of an operand, for products and quotients with an infinity.\<close>

fun fsgn :: "double \<Rightarrow> real" where
  "fsgn NaN = 0" | "fsgn PInf = 1" | "fsgn NInf = - 1" | "fsgn (Fin x) = sgn x"

definition finf :: "real \<Rightarrow> double" where
  "finf s = (if s > 0 then PInf else if s < 0 then NInf else NaN)"

fun fmul :: "fpenv \<Rightarrow> double \<Rightarrow> double \<Rightarrow> double" where
  "fmul e (Fin x) (Fin y) = fp_rnd e (x * y)"
| "fmul e a b = finf (fsgn a * fsgn b)"

fun fdiv :: "fpenv \<Rightarrow> double \<Rightarrow> double \<Rightarrow> double" where
  "fdiv e (Fin x) (Fin y) = (if y = 0 then finf (sgn x) else fp_rnd e (x / y))"
| "fdiv e NaN _ = NaN"
| "fdiv e _ NaN = NaN"
| "fdiv e (Fin x) _ = Fin 0"
| "fdiv e a (Fin y) = finf (fsgn a * (if y < 0 then - 1 else 1))"
| "fdiv e _ _ = NaN"

fun flt :: "double \<Rightarrow> double \<Rightarrow> bool" where
  "flt (Fin x) (Fin y) \<longleftrightarrow> x < y"
| "flt NaN _ \<longleftrightarrow> False"
| "flt _ NaN \<longleftrightarrow> False"
| "flt NInf b \<longleftrightarrow> b \<noteq> NInf"
| "flt a PInf \<longleftrightarrow> a \<noteq> PInf"
| "flt _ _ \<longleftrightarrow> False"

definition feq :: "double \<Rightarrow> double \<Rightarrow> bool" where
  "feq a b \<longleftrightarrow> a \<noteq> NaN \<and> a = b"

definition fle :: "double \<Rightarrow> double \<Rightarrow> bool" where
  "fle a b \<longleftrightarrow> flt a b \<or> feq a b"

definition isnan :: "double \<Rightarrow> bool" where "isnan a \<longleftrightarrow> a = NaN"

text \<open>\<open>std::abs\<close>, \<open>std::max\<close>, \<open>std::min\<close> and \<open>std::clamp\<close>, with the argument each returns when a comparison fails.\<close>

primrec fabs :: "double \<Rightarrow> double" where
  "fabs NaN = NaN" | "fabs PInf = PInf" | "fabs NInf = PInf" | "fabs (Fin x) = Fin \<bar>x\<bar>"

definition fmax :: "double \<Rightarrow> double \<Rightarrow> double" where "fmax a b = (if flt a b then b else a)"
definition fmin :: "double \<Rightarrow> double \<Rightarrow> double" where "fmin a b = (if flt b a then b else a)"
definition fclamp :: "double \<Rightarrow> double \<Rightarrow> double \<Rightarrow> double" where
  "fclamp v lo hi = (if flt v lo then lo else if flt hi v then hi else v)"

definition fsqrt :: "fpenv \<Rightarrow> double \<Rightarrow> double" where
  "fsqrt e a = (case a of Fin x \<Rightarrow> (if x < 0 then NaN else fp_rnd e (sqrt x)) | PInf \<Rightarrow> PInf | _ \<Rightarrow> NaN)"

definition ffloor :: "double \<Rightarrow> double" where
  "ffloor a = (case a of Fin x \<Rightarrow> Fin (real_of_int \<lfloor>x\<rfloor>) | _ \<Rightarrow> a)"

definition fceil :: "double \<Rightarrow> double" where
  "fceil a = (case a of Fin x \<Rightarrow> Fin (real_of_int \<lceil>x\<rceil>) | _ \<Rightarrow> a)"

text \<open>\<open>std::round\<close>: halves away from zero.\<close>

definition fround :: "double \<Rightarrow> double" where
  "fround a = (case a of
     Fin x \<Rightarrow> Fin (if x < 0 then real_of_int (- \<lfloor>- x + 1 / 2\<rfloor>) else real_of_int \<lfloor>x + 1 / 2\<rfloor>) | _ \<Rightarrow> a)"

section \<open>Conversions\<close>

definition d_of_int :: "fpenv \<Rightarrow> int \<Rightarrow> double" where
  "d_of_int e i = fp_rnd e (real_of_int i)"

text \<open>A conversion to an integer type truncates; outside of the range of the type it is undefined.\<close>

definition trunc :: "real \<Rightarrow> int" where
  "trunc x = (if x < 0 then - \<lfloor>- x\<rfloor> else \<lfloor>x\<rfloor>)"

definition d_to_int64 :: "double \<Rightarrow> int result" where
  "d_to_int64 a = (case a of Fin x \<Rightarrow> int64 (trunc x) | _ \<Rightarrow> Inl ArithmeticUB)"

definition d_to_u32 :: "double \<Rightarrow> 32 word result" where
  "d_to_u32 a = (case a of
     Fin x \<Rightarrow> (if 0 \<le> trunc x \<and> trunc x < 2 ^ 32 then Inr (of_int (trunc x)) else Inl ArithmeticUB)
   | _ \<Rightarrow> Inl ArithmeticUB)"

text \<open>\<open>std::llround\<close>: the nearest integer, halves away from zero; outside of 64 bits the result is unspecified.\<close>

definition d_llround :: "double \<Rightarrow> int result" where
  "d_llround a = d_to_int64 (fround a)"

section \<open>Laws of the rounding\<close>

text \<open>
  What IEEE 754 promises of the rounding to nearest: integers of up to 53 bits are exact, the order is kept, and no result is not a number.
\<close>

definition rounds_well :: "fpenv \<Rightarrow> bool" where
  "rounds_well e \<longleftrightarrow> (\<forall>i. \<bar>i\<bar> \<le> 2 ^ 53 \<longrightarrow> fp_rnd e (real_of_int i) = Fin (real_of_int i))
     \<and> (\<forall>x y. x \<le> y \<longrightarrow> fle (fp_rnd e x) (fp_rnd e y)) \<and> (\<forall>x. fp_rnd e x \<noteq> NaN)"

definition exact_env :: fpenv where
  "exact_env = \<lparr> fp_rnd = Fin, fp_log1p = (\<lambda>a. case a of Fin x \<Rightarrow> Fin (ln (1 + x)) | _ \<Rightarrow> a),
     fp_log = (\<lambda>a. case a of Fin x \<Rightarrow> Fin (ln x) | _ \<Rightarrow> a) \<rparr>"

lemma exact_rnd [simp]: "fp_rnd exact_env = Fin"
  by (simp add: exact_env_def)

lemma exact_rounds_well: "rounds_well exact_env"
  by (auto simp: rounds_well_def fle_def feq_def)

lemma flt_irrefl [simp]: "\<not> flt a a"
  by (cases a) simp_all

lemma fle_Fin [simp]: "fle (Fin x) (Fin y) \<longleftrightarrow> x \<le> y"
  by (auto simp: fle_def feq_def)

lemma nan_never_equal: "\<not> feq NaN b" "\<not> feq a NaN"
  by (auto simp: feq_def)

lemma fle_nan [simp]: "\<not> fle NaN b" "\<not> fle a NaN"
  by (cases a; simp add: fle_def feq_def)+

text \<open>What is between two integers is rounded to a value between them.\<close>

lemma fle_Fin_between: "fle (Fin a) d \<Longrightarrow> fle d (Fin b) \<Longrightarrow> \<exists>y. d = Fin y \<and> a \<le> y \<and> y \<le> b"
  by (cases d) (auto simp: fle_def feq_def)

lemma rnd_between:
  assumes "rounds_well e" and "real_of_int a \<le> x" and "x \<le> real_of_int b" and "\<bar>a\<bar> \<le> 2 ^ 53" and "\<bar>b\<bar> \<le> 2 ^ 53"
  shows "\<exists>y. fp_rnd e x = Fin y \<and> real_of_int a \<le> y \<and> y \<le> real_of_int b"
proof -
  have "fp_rnd e (real_of_int a) = Fin (real_of_int a)" "fp_rnd e (real_of_int b) = Fin (real_of_int b)"
    using assms unfolding rounds_well_def by blast+
  moreover have "fle (fp_rnd e (real_of_int a)) (fp_rnd e x)" "fle (fp_rnd e x) (fp_rnd e (real_of_int b))"
    using assms unfolding rounds_well_def by blast+
  ultimately show ?thesis using fle_Fin_between by simp
qed

lemma rnd_int: "rounds_well e \<Longrightarrow> \<bar>i\<bar> \<le> 2 ^ 53 \<Longrightarrow> fp_rnd e (real_of_int i) = Fin (real_of_int i)"
  by (simp add: rounds_well_def)

lemma rnd_nat: "rounds_well e \<Longrightarrow> k \<le> 2 ^ 53 \<Longrightarrow> fp_rnd e (real k) = Fin (real k)"
  using rnd_int[of e "int k"] by simp

lemma rnd_unit: "rounds_well e \<Longrightarrow> 0 \<le> x \<Longrightarrow> x \<le> 1 \<Longrightarrow> \<exists>y. fp_rnd e x = Fin y \<and> 0 \<le> y \<and> y \<le> 1"
  using rnd_between[of e 0 x 1] by simp

lemma d_to_int64_floor: "d_to_int64 (ffloor (Fin x)) = int64 \<lfloor>x\<rfloor>"
proof -
  have "trunc (real_of_int i) = i" for i by (simp add: trunc_def floor_minus)
  then show ?thesis by (simp add: d_to_int64_def ffloor_def)
qed

end
