(* ===== verification/Vpin.thy ===== *)
theory Vpin
  imports Doubles
begin

text \<open>
  \<^verbatim>\<open>trading/strategy/vpin.h\<close>: trades are poured into buckets of equal volume, and the value is the mean imbalance of
  the last \<open>kVpinWindow\<close> buckets. The loop of \<open>onTrade\<close> need not end in rounded arithmetic, so it is a partial
  function: \<open>None\<close> is a call that never returns.
\<close>

definition kVpinWindow :: nat where "kVpinWindow = 50"

record Vpin =
  bucket_size :: double
  cur_buy :: double
  cur_sell :: double
  cur_filled :: double
  imbalances :: "nat \<Rightarrow> double"
  vp_head :: nat
  buckets_seen :: nat

definition Vpin_new :: Vpin where
  "Vpin_new = \<lparr> bucket_size = Fin 0, cur_buy = Fin 0, cur_sell = Fin 0, cur_filled = Fin 0, imbalances = (\<lambda>_. Fin 0),
     vp_head = 0, buckets_seen = 0 \<rparr>"

definition setBucketSize :: "double \<Rightarrow> Vpin \<Rightarrow> Vpin" where
  "setBucketSize sz v = v\<lparr> bucket_size := sz \<rparr>"

definition closeBucket :: "fpenv \<Rightarrow> Vpin \<Rightarrow> Vpin" where
  "closeBucket e v =
     (let imb = (if flt (Fin 0) (bucket_size v) then fdiv e (fabs (fsub e (cur_buy v) (cur_sell v))) (bucket_size v) else Fin 0) in
      v\<lparr> imbalances := (imbalances v)(vp_head v := imb),
         vp_head := (vp_head v + 1) mod kVpinWindow,
         buckets_seen := (if buckets_seen v < kVpinWindow * 2 then buckets_seen v + 1 else buckets_seen v),
         cur_buy := Fin 0, cur_sell := Fin 0, cur_filled := Fin 0 \<rparr>)"

text \<open>One round of the loop: what is left to pour, and the buckets.\<close>

definition vpin_pour :: "fpenv \<Rightarrow> bool \<Rightarrow> double \<Rightarrow> Vpin \<Rightarrow> double \<times> Vpin" where
  "vpin_pour e is_buyer_initiated remaining v =
     (let room = fsub e (bucket_size v) (cur_filled v);
          amount = fmin room remaining;
          v1 = (if is_buyer_initiated then v\<lparr> cur_buy := fadd e (cur_buy v) amount \<rparr>
                else v\<lparr> cur_sell := fadd e (cur_sell v) amount \<rparr>);
          v2 = v1\<lparr> cur_filled := fadd e (cur_filled v1) amount \<rparr>;
          v3 = (if fle (bucket_size v2) (cur_filled v2) then closeBucket e v2 else v2) in
      (fsub e remaining amount, v3))"

partial_function (option) vpin_loop :: "fpenv \<Rightarrow> bool \<Rightarrow> double \<Rightarrow> Vpin \<Rightarrow> Vpin option" where
  "vpin_loop e is_buyer_initiated remaining v =
     (if flt (Fin 0) remaining
      then let (remaining', v') = vpin_pour e is_buyer_initiated remaining v in vpin_loop e is_buyer_initiated remaining' v'
      else Some v)"

definition vpin_onTrade :: "fpenv \<Rightarrow> double \<Rightarrow> bool \<Rightarrow> Vpin \<Rightarrow> Vpin option" where
  "vpin_onTrade e qty is_buyer_initiated v =
     (if fle (bucket_size v) (Fin 0) then Some v else vpin_loop e is_buyer_initiated qty v)"

definition vpin_value :: "fpenv \<Rightarrow> Vpin \<Rightarrow> double" where
  "vpin_value e v =
     (if buckets_seen v < kVpinWindow then NaN
      else fdiv e (foldl (fadd e) (Fin 0) (map (imbalances v) [0..<kVpinWindow])) (d_of_int e (int kVpinWindow)))"

section \<open>Whole bucket sizes\<close>

text \<open>
  With a bucket size that is a whole number of at most 53 bits, whole quantities are poured without an error, however the machine rounds: the bucket
  being filled holds what was bought and sold, less than the size of a bucket, and every recorded imbalance is a fraction.
\<close>

definition unit_double :: "double \<Rightarrow> bool" where
  "unit_double d \<longleftrightarrow> (\<exists>x. d = Fin x \<and> 0 \<le> x \<and> x \<le> 1)"

definition vpin_ok :: "nat \<Rightarrow> Vpin \<Rightarrow> bool" where
  "vpin_ok n v \<longleftrightarrow> bucket_size v = Fin (real n) \<and> 0 < n \<and> n \<le> 2 ^ 53 \<and> vp_head v < kVpinWindow
     \<and> (\<exists>b s. cur_buy v = Fin (real b) \<and> cur_sell v = Fin (real s) \<and> cur_filled v = Fin (real (b + s)) \<and> b + s < n)
     \<and> (\<forall>i. unit_double (imbalances v i))"

lemma vpin_ok_new: "0 < n \<Longrightarrow> n \<le> 2 ^ 53 \<Longrightarrow> vpin_ok n (setBucketSize (Fin (real n)) Vpin_new)"
  by (simp add: vpin_ok_def setBucketSize_def Vpin_new_def unit_double_def kVpinWindow_def)

text \<open>A full bucket is closed: its imbalance is recorded and the next one is empty.\<close>

lemma closeBucket_ok:
  assumes e: "rounds_well e" and v: "bucket_size v = Fin (real n)" "0 < n" "n \<le> 2 ^ 53"
    "vp_head v < kVpinWindow" "cur_buy v = Fin (real b)" "cur_sell v = Fin (real s)" "b + s = n" "\<forall>i. unit_double (imbalances v i)"
  shows "vpin_ok n (closeBucket e v)"
proof -
  have "fsub e (cur_buy v) (cur_sell v) = Fin (real_of_int (int b - int s))"
    using rnd_int[OF e, of "int b - int s"] v by (simp add: fsub_def)
  then have d: "fabs (fsub e (cur_buy v) (cur_sell v)) = Fin \<bar>real b - real s\<bar>" by simp
  have "\<bar>real b - real s\<bar> / real n \<le> 1" using v(2,7) by (simp add: field_simps flip: of_nat_add)
  then have "unit_double (fdiv e (fabs (fsub e (cur_buy v) (cur_sell v))) (bucket_size v))"
    using rnd_unit[OF e] v(1,2) d by (simp add: unit_double_def)
  then show ?thesis using v by (simp add: closeBucket_def vpin_ok_def Let_def kVpinWindow_def)
qed

text \<open>Each round pours all that is left or fills the bucket, and so at least one.\<close>

lemma vpin_pour_ok:
  assumes e: "rounds_well e" and ok: "vpin_ok n v" and r: "0 < r" "r \<le> 2 ^ 53"
  shows "\<exists>v' r'. vpin_pour e buy (Fin (real r)) v = (Fin (real r'), v') \<and> vpin_ok n v' \<and> r' < r"
proof -
  obtain b s where v: "bucket_size v = Fin (real n)" "0 < n" "n \<le> 2 ^ 53" "cur_buy v = Fin (real b)" "cur_sell v = Fin (real s)"
      "vp_head v < kVpinWindow" "cur_filled v = Fin (real (b + s))" "b + s < n" "\<forall>i. unit_double (imbalances v i)"
    using ok by (auto simp: vpin_ok_def)
  define t where "t = min (n - (b + s)) r"
  define b' where "b' = (if buy then b + t else b)"
  define s' where "s' = (if buy then s else s + t)"
  let ?v = "v\<lparr> cur_buy := Fin (real b'), cur_sell := Fin (real s'), cur_filled := Fin (real (b' + s')) \<rparr>"
  have t: "0 < t" "t \<le> r" "b + s + t \<le> n" "b + t \<le> 2 ^ 53" "s + t \<le> 2 ^ 53" "b + s + t \<le> 2 ^ 53" "b' + s' = b + s + t"
    using r v(3,8) by (auto simp: t_def b'_def s'_def)
  have add: "fadd e (Fin (real x)) (Fin (real t)) = Fin (real (x + t))" if "x + t \<le> 2 ^ 53" for x
    using rnd_nat[OF e that] by simp
  have sub: "fsub e (Fin (real x)) (Fin (real y)) = Fin (real (x - y))" if "y \<le> x" "x \<le> 2 ^ 53" for x y
    using rnd_nat[OF e, of "x - y"] that by (simp add: fsub_def of_nat_diff)
  have take: "fmin (Fin (real (n - (b + s)))) (Fin (real r)) = Fin (real t)" unfolding fmin_def t_def min_def by simp
  have pour: "vpin_pour e buy (Fin (real r)) v = (Fin (real (r - t)), if n \<le> b' + s' then closeBucket e ?v else ?v)"
    unfolding vpin_pour_def v(1,7) sub[OF less_imp_le[OF v(8)] v(3)] take Let_def sub[OF t(2) r(2)]
    using v(1,4,5) t(7) add[OF t(4)] add[OF t(5)] add[OF t(6)] v(7)
    by (cases buy; cases v) (simp_all add: b'_def s'_def add_ac del: of_nat_add fadd.simps)
  have "vpin_ok n (if n \<le> b' + s' then closeBucket e ?v else ?v)"
  proof (cases "n \<le> b' + s'")
    case True
    then show ?thesis using closeBucket_ok[OF e, of ?v n b' s'] v t(3,7) by simp
  next
    case False
    then show ?thesis using v by (auto simp: vpin_ok_def)
  qed
  then show ?thesis using pour t(1) r(1) by auto
qed

lemma vpin_loop_ok:
  assumes "rounds_well e" and "vpin_ok n v" and "r \<le> 2 ^ 53"
  shows "\<exists>v'. vpin_loop e buy (Fin (real r)) v = Some v' \<and> vpin_ok n v'"
  using assms(2,3)
proof (induction r arbitrary: v rule: less_induct)
  case (less r)
  show ?case
  proof (cases "0 < r")
    case True
    then obtain v' r' where p: "vpin_pour e buy (Fin (real r)) v = (Fin (real r'), v')" "vpin_ok n v'" "r' < r"
      using vpin_pour_ok[OF assms(1) less.prems(1) True less.prems(2)] by blast
    have "r' \<le> 2 ^ 53" using p(3) less.prems(2) by linarith
    from less.IH[OF p(3,2) this] show ?thesis using True p(1) by (subst vpin_loop.simps) simp
  next
    case False
    then show ?thesis using less.prems(1) by (subst vpin_loop.simps) simp
  qed
qed

lemma vpin_onTrade_ok:
  assumes "rounds_well e" and "vpin_ok n v" and "r \<le> 2 ^ 53"
  shows "\<exists>v'. vpin_onTrade e (Fin (real r)) buy v = Some v' \<and> vpin_ok n v'"
  using vpin_loop_ok[OF assms] assms(2) by (simp add: vpin_onTrade_def vpin_ok_def)

lemma foldl_fadd_units:
  assumes "rounds_well e" and "\<And>d. d \<in> set ds \<Longrightarrow> unit_double d" and "k + length ds \<le> 2 ^ 53" and "0 \<le> a" and "a \<le> real k"
  shows "\<exists>y. foldl (fadd e) (Fin a) ds = Fin y \<and> 0 \<le> y \<and> y \<le> real (k + length ds)"
  using assms(2-)
proof (induction ds arbitrary: a k)
  case (Cons d ds)
  obtain x where x: "d = Fin x" "0 \<le> x" "x \<le> 1" using Cons.prems(1)[of d] by (auto simp: unit_double_def)
  obtain y where "fp_rnd e (a + x) = Fin y" "0 \<le> y" "y \<le> real (Suc k)"
    using rnd_between[OF assms(1), of 0 "a + x" "int (Suc k)"] Cons.prems x by auto
  then show ?case using Cons.IH[of "Suc k" y] Cons.prems(1,2) x(1) by simp
qed auto

lemma vpin_value_ok:
  assumes "rounds_well e" and "vpin_ok n v"
  shows "if buckets_seen v < kVpinWindow then vpin_value e v = NaN else unit_double (vpin_value e v)"
proof -
  let ?ds = "map (imbalances v) [0..<kVpinWindow]"
  have "unit_double d" if "d \<in> set ?ds" for d using assms(2) that by (auto simp: vpin_ok_def)
  from foldl_fadd_units[OF assms(1), of ?ds 0 0, OF this]
  obtain y where y: "foldl (fadd e) (Fin 0) ?ds = Fin y" "0 \<le> y" "y \<le> 50" by (auto simp: kVpinWindow_def)
  have "d_of_int e (int kVpinWindow) = Fin 50" using rnd_int[OF assms(1), of 50] by (simp add: d_of_int_def kVpinWindow_def)
  then have "vpin_value e v = (if buckets_seen v < kVpinWindow then NaN else fp_rnd e (y / 50))" using y by (simp add: vpin_value_def)
  then show ?thesis using rnd_unit[OF assms(1), of "y / 50"] y by (auto simp: unit_double_def)
qed

end
