(* ===== verification/Positions.thy ===== *)
theory Positions
  imports Doubles MarketOrderBook
begin

text \<open>
  \<^verbatim>\<open>trading/strategy/position_keeper.h\<close>: position, volume and profit of each ticker, and the configuration structs of
  \<^verbatim>\<open>common/types.h\<close>. Signed arithmetic on \<open>int32_t\<close> and \<open>int64_t\<close> is checked: where the source would overflow, which
  is undefined behaviour, the model returns \<open>ArithmeticUB\<close>. Amounts of money are \<open>double\<close>s.
\<close>

section \<open>Configuration\<close>

record RiskCfg =
  max_order_size :: Qty
  max_position :: Qty
  max_loss :: double

record TradeEngineCfg =
  cfg_clip :: Qty
  cfg_threshold :: double
  cfg_risk :: RiskCfg
  cfg_use_as :: bool
  cfg_gamma :: double
  cfg_kappa :: double
  cfg_session_hours :: double
  cfg_use_ofi :: bool
  cfg_beta_ofi :: double
  cfg_hysteresis_ticks :: Price
  cfg_use_adaptive_clip :: bool
  cfg_sigma_ref :: double
  cfg_ewma_decay :: double
  cfg_ofi_decay :: double
  cfg_ewma_decay_long :: double
  cfg_vol_bootstrap :: nat
  cfg_maker_rebate_bps :: double
  cfg_spread_widen_ofi :: double
  cfg_use_killswitch :: bool
  cfg_killswitch_ofi :: double
  cfg_killswitch_micro_ticks :: double
  cfg_use_regime_gamma :: bool
  cfg_regime_gamma_scale :: double
  cfg_use_stoikov_micro :: bool
  cfg_use_vpin :: bool
  cfg_vpin_bucket_size :: double
  cfg_vpin_threshold :: double
  cfg_vpin_widen_mult :: double
  cfg_vpin_kill_scale :: double

text \<open>The values of the default member initialisers; a decimal literal is the rounded decimal.\<close>

definition TradeEngineCfg_default :: "fpenv \<Rightarrow> TradeEngineCfg" where
  "TradeEngineCfg_default e =
     \<lparr> cfg_clip = 0, cfg_threshold = Fin 0,
       cfg_risk = \<lparr> max_order_size = 0, max_position = 0, max_loss = Fin 0 \<rparr>,
       cfg_use_as = False, cfg_gamma = fp_rnd e (1 / 10), cfg_kappa = fp_rnd e (15 / 10), cfg_session_hours = fp_rnd e (65 / 10),
       cfg_use_ofi = False, cfg_beta_ofi = Fin 0, cfg_hysteresis_ticks = 0, cfg_use_adaptive_clip = False, cfg_sigma_ref = Fin 1,
       cfg_ewma_decay = fp_rnd e (94 / 100), cfg_ofi_decay = fp_rnd e (9 / 10), cfg_ewma_decay_long = fp_rnd e (985 / 1000),
       cfg_vol_bootstrap = 50, cfg_maker_rebate_bps = Fin 0, cfg_spread_widen_ofi = Fin 0, cfg_use_killswitch = False,
       cfg_killswitch_ofi = Fin 0, cfg_killswitch_micro_ticks = Fin 0, cfg_use_regime_gamma = False, cfg_regime_gamma_scale = Fin 1,
       cfg_use_stoikov_micro = False, cfg_use_vpin = False, cfg_vpin_bucket_size = Fin 0, cfg_vpin_threshold = fp_rnd e (46 / 100),
       cfg_vpin_widen_mult = Fin 2, cfg_vpin_kill_scale = fp_rnd e (1 / 2) \<rparr>"

section \<open>A position\<close>

record PositionInfo =
  pi_position :: int
  pi_real_pnl :: double
  pi_unreal_pnl :: double
  pi_total_pnl :: double
  pi_open_vwap :: "nat \<Rightarrow> double"
  pi_volume :: Qty
  pi_bbo :: "BBO option"

text \<open>\<open>open_vwap_\<close> has no initialiser: what it holds at first is the parameter.\<close>

definition PositionInfo_new :: "(nat \<Rightarrow> double) \<Rightarrow> PositionInfo" where
  "PositionInfo_new vwap = \<lparr> pi_position = 0, pi_real_pnl = Fin 0, pi_unreal_pnl = Fin 0, pi_total_pnl = Fin 0,
     pi_open_vwap = vwap, pi_volume = 0, pi_bbo = None \<rparr>"

text \<open>The executed quantity as a number.\<close>

definition filled :: "MEClientResponse \<Rightarrow> int" where
  "filled r = int (unat (rsp_exec_qty r))"

text \<open>
  The two branches of \<open>addFill\<close> on the open notional and the realised profit: a fill that adds to the position, and one that
  reduces or turns it. The argument \<open>pos\<close> is the position after the fill.
\<close>

definition fill_adds :: "fpenv \<Rightarrow> MEClientResponse \<Rightarrow> PositionInfo \<Rightarrow> PositionInfo result" where
  "fill_adds e r p =
     (let si = sideToIndex (rsp_side r) in
      bindR (int64 (rsp_price r * filled r)) (\<lambda>notional.
      Inr (p\<lparr> pi_open_vwap := (pi_open_vwap p)(si := fadd e (pi_open_vwap p si) (d_of_int e notional)) \<rparr>)))"

definition fill_reduces :: "fpenv \<Rightarrow> MEClientResponse \<Rightarrow> int \<Rightarrow> int \<Rightarrow> PositionInfo \<Rightarrow> PositionInfo result" where
  "fill_reduces e r old pos p =
     (let si = sideToIndex (rsp_side r);
          oi = sideToIndex (if rsp_side r = BUY then SELL else BUY) in
      bindR (int32 \<bar>old\<bar>) (\<lambda>abs_old.
      bindR (int32 \<bar>pos\<bar>) (\<lambda>abs_pos.
      let opp_side_vwap = fdiv e (pi_open_vwap p oi) (d_of_int e abs_old);
          vwap1 = (pi_open_vwap p)(oi := fmul e opp_side_vwap (d_of_int e abs_pos));
          gain = fmul e (fmul e (d_of_int e (min (to_int32 (rsp_exec_qty r)) abs_old))
                           (fsub e opp_side_vwap (d_of_int e (rsp_price r))))
                   (d_of_int e (sideToValue (rsp_side r))) in
      bindR (int32 (pos * old)) (\<lambda>turn.
      bindR (if turn < 0 then bindR (int64 (rsp_price r * abs_pos)) (\<lambda>n. Inr (vwap1(si := d_of_int e n, oi := Fin 0))) else Inr vwap1) (\<lambda>vwap2.
      Inr (p\<lparr> pi_open_vwap := vwap2, pi_real_pnl := fadd e (pi_real_pnl p) gain \<rparr>))))))"

text \<open>The profit of the open position at a price.\<close>

definition open_profit :: "fpenv \<Rightarrow> double \<Rightarrow> PositionInfo \<Rightarrow> double result" where
  "open_profit e price p =
     bindR (int32 \<bar>pi_position p\<bar>) (\<lambda>n.
     let abs_pos = d_of_int e n in
     Inr (if pi_position p > 0
          then fmul e (fsub e price (fdiv e (pi_open_vwap p (sideToIndex BUY)) abs_pos)) abs_pos
          else fmul e (fsub e (fdiv e (pi_open_vwap p (sideToIndex SELL)) abs_pos) price) abs_pos))"

definition fill_marks :: "fpenv \<Rightarrow> MEClientResponse \<Rightarrow> PositionInfo \<Rightarrow> PositionInfo result" where
  "fill_marks e r p =
     bindR (if pi_position p = 0
            then Inr (p\<lparr> pi_open_vwap := (pi_open_vwap p)(sideToIndex BUY := Fin 0, sideToIndex SELL := Fin 0), pi_unreal_pnl := Fin 0 \<rparr>)
            else bindR (open_profit e (d_of_int e (rsp_price r)) p) (\<lambda>u. Inr (p\<lparr> pi_unreal_pnl := u \<rparr>))) (\<lambda>p1.
     Inr (p1\<lparr> pi_total_pnl := fadd e (pi_unreal_pnl p1) (pi_real_pnl p1) \<rparr>))"

definition fill_rebate :: "fpenv \<Rightarrow> double \<Rightarrow> MEClientResponse \<Rightarrow> PositionInfo \<Rightarrow> PositionInfo" where
  "fill_rebate e bps r p =
     (if feq bps (Fin 0) then p
      else
        let notional = fmul e (d_of_int e (rsp_price r)) (d_of_int e (filled r));
            rebate = fmul e (fmul e notional bps) (fp_rnd e (1 / 10000)) in
        p\<lparr> pi_real_pnl := fadd e (pi_real_pnl p) rebate, pi_total_pnl := fadd e (pi_total_pnl p) rebate \<rparr>)"

definition addFill :: "fpenv \<Rightarrow> double \<Rightarrow> MEClientResponse \<Rightarrow> PositionInfo \<Rightarrow> PositionInfo result" where
  "addFill e bps r p =
     (let old = pi_position p; sv = sideToValue (rsp_side r) in
      bindR (int32 (to_int32 (rsp_exec_qty r) * sv)) (\<lambda>d.
      bindR (int32 (old + d)) (\<lambda>pos.
      let p1 = p\<lparr> pi_position := pos, pi_volume := pi_volume p + rsp_exec_qty r \<rparr> in
      bindR (int32 (old * sv)) (\<lambda>dir.
      bindR (if dir \<ge> 0 then fill_adds e r p1 else fill_reduces e r old pos p1) (\<lambda>p2.
      bindR (fill_marks e r p2) (\<lambda>p3.
      Inr (fill_rebate e bps r p3)))))))"

definition pi_updateBBO :: "fpenv \<Rightarrow> BBO \<Rightarrow> PositionInfo \<Rightarrow> PositionInfo result" where
  "pi_updateBBO e bbo p =
     (let p1 = p\<lparr> pi_bbo := Some bbo \<rparr> in
      if pi_position p1 \<noteq> 0 \<and> bid_price bbo \<noteq> Price_INVALID \<and> ask_price bbo \<noteq> Price_INVALID
      then
        bindR (int64 (bid_price bbo + ask_price bbo)) (\<lambda>sum.
        bindR (open_profit e (fmul e (d_of_int e sum) (Fin (1 / 2))) p1) (\<lambda>u.
        let p2 = p1\<lparr> pi_unreal_pnl := u \<rparr> in
        Inr (p2\<lparr> pi_total_pnl := fadd e (pi_unreal_pnl p2) (pi_real_pnl p2) \<rparr>)))
      else Inr p1)"

section \<open>All positions\<close>

record PositionKeeper =
  pk_rebate_bps :: "nat \<Rightarrow> double"
  pk_ticker_position :: "nat \<Rightarrow> PositionInfo"

definition PositionKeeper_new :: "(nat \<Rightarrow> TradeEngineCfg) option \<Rightarrow> (nat \<Rightarrow> nat \<Rightarrow> double) \<Rightarrow> PositionKeeper" where
  "PositionKeeper_new ticker_cfg vwaps =
     \<lparr> pk_rebate_bps = (\<lambda>i. case ticker_cfg of None \<Rightarrow> Fin 0 | Some cfg \<Rightarrow> cfg_maker_rebate_bps (cfg i)),
       pk_ticker_position = (\<lambda>i. PositionInfo_new (vwaps i)) \<rparr>"

definition pk_addFill :: "fpenv \<Rightarrow> MEClientResponse \<Rightarrow> PositionKeeper \<Rightarrow> PositionKeeper result" where
  "pk_addFill e r k =
     bindR (Prelude.at ME_MAX_TICKERS (unat (rsp_ticker_id r))) (\<lambda>t.
     bindR (addFill e (pk_rebate_bps k t) r (pk_ticker_position k t)) (\<lambda>p.
     Inr (k\<lparr> pk_ticker_position := (pk_ticker_position k)(t := p) \<rparr>)))"

definition pk_updateBBO :: "fpenv \<Rightarrow> TickerId \<Rightarrow> BBO \<Rightarrow> PositionKeeper \<Rightarrow> PositionKeeper result" where
  "pk_updateBBO e ticker_id bbo k =
     bindR (Prelude.at ME_MAX_TICKERS (unat ticker_id)) (\<lambda>t.
     bindR (pi_updateBBO e bbo (pk_ticker_position k t)) (\<lambda>p.
     Inr (k\<lparr> pk_ticker_position := (pk_ticker_position k)(t := p) \<rparr>)))"

definition getPositionInfo :: "PositionKeeper \<Rightarrow> TickerId \<Rightarrow> PositionInfo result" where
  "getPositionInfo k ticker_id = bindR (Prelude.at ME_MAX_TICKERS (unat ticker_id)) (\<lambda>t. Inr (pk_ticker_position k t))"

section \<open>The accounting identity\<close>

text \<open>
  The books of a position in exact arithmetic: \<open>cash\<close> is what all fills paid and received. A long position has its cost in the
  open notional of the buys, a short one its proceeds in that of the sells, and what is realised makes up the difference. The open notional of the other side
  does not matter, and may be what the constructor left there.
\<close>

definition fill_sign :: "MEClientResponse \<Rightarrow> int" where
  "fill_sign r = sideToValue (rsp_side r) * filled r"

definition books_balance :: "real \<Rightarrow> PositionInfo \<Rightarrow> bool" where
  "books_balance cash p \<longleftrightarrow> (\<exists>b s g. pi_open_vwap p 2 = Fin b \<and> pi_open_vwap p 0 = Fin s \<and> pi_real_pnl p = Fin g
     \<and> cash = g - (if 0 < pi_position p then b else 0) + (if pi_position p < 0 then s else 0) \<and> (pi_position p = 0 \<longrightarrow> b = 0 \<and> s = 0))"

text \<open>The amount a fill moves.\<close>

definition fill_cash :: "MEClientResponse \<Rightarrow> real" where
  "fill_cash r = - real_of_int (fill_sign r * rsp_price r)"

text \<open>The rebate of a fill, in basis points of its value, and the cash of a list of fills.\<close>

definition rebate_of :: "real \<Rightarrow> MEClientResponse \<Rightarrow> real" where
  "rebate_of x r = real_of_int (rsp_price r * filled r) * x / 10000"

primrec cash_of :: "real \<Rightarrow> MEClientResponse list \<Rightarrow> real" where
  "cash_of x [] = 0"
| "cash_of x (r # rs) = fill_cash r + rebate_of x r + cash_of x rs"

definition is_fill :: "MEClientResponse \<Rightarrow> bool" where
  "is_fill r \<longleftrightarrow> (rsp_side r = BUY \<or> rsp_side r = SELL) \<and> filled r < 2 ^ 31"

lemma filled_nonneg [simp]: "0 \<le> filled r"
  by (simp add: filled_def)

lemma to_int32_small: "filled r < 2 ^ 31 \<Longrightarrow> to_int32 (rsp_exec_qty r) = filled r"
proof -
  assume "filled r < 2 ^ 31"
  then have u: "0 \<le> uint (rsp_exec_qty r)" "uint (rsp_exec_qty r) < 2 ^ 31" by (simp_all add: filled_def)
  have "- (2 ^ 31) \<le> (0 :: int)" by simp
  then have "- (2 ^ 31) \<le> uint (rsp_exec_qty r)" using u(1) by (rule order_trans)
  then have "signed_take_bit 31 (uint (rsp_exec_qty r)) = uint (rsp_exec_qty r)" using u(2) by (rule signed_take_bit_int_eq_self)
  then show ?thesis by (simp add: to_int32_def sint_uint filled_def)
qed

text \<open>After a fill the position is on one side; when it is closed, all cash is realised.\<close>

definition fill_ok :: "real \<Rightarrow> MEClientResponse \<Rightarrow> PositionInfo \<Rightarrow> Qty \<Rightarrow> PositionInfo \<Rightarrow> bool" where
  "fill_ok cash r p v p' \<longleftrightarrow> pi_position p' = pi_position p + fill_sign r \<and> pi_volume p' = v
     \<and> (\<exists>b s g. pi_open_vwap p' 2 = Fin b \<and> pi_open_vwap p' 0 = Fin s \<and> pi_real_pnl p' = Fin g
          \<and> cash + fill_cash r = g - (if 0 < pi_position p' then b else 0) + (if pi_position p' < 0 then s else 0))"

lemma fill_okI:
  assumes "pi_open_vwap p' 2 = Fin b" and "pi_open_vwap p' 0 = Fin s" and "pi_real_pnl p' = Fin g" and "pi_position p' = pi_position p + fill_sign r" and "pi_volume p' = v"
    and "cash + fill_cash r = g - (if 0 < pi_position p' then b else 0) + (if pi_position p' < 0 then s else 0)"
  shows "fill_ok cash r p v p'"
  using assms unfolding fill_ok_def by blast

text \<open>
  A fill on the side of the position, or the first one. What the open notional of its side holds at first, \<open>over\<close>, is nothing if the position was closed before, and
  whatever the memory contained if it is new.
\<close>

lemma fill_adds_ok:
  assumes f: "is_fill r" and side: "rsp_side r = BUY \<and> 0 \<le> pi_position p \<or> rsp_side r = SELL \<and> pi_position p \<le> 0"
    and v: "pi_open_vwap p 2 = Fin b" "pi_open_vwap p 0 = Fin s" "pi_real_pnl p = Fin g"
    and cash: "cash = g - (if rsp_side r = BUY then b else 0) + (if rsp_side r = SELL then s else 0)"
    and some: "pi_position p = 0 \<Longrightarrow> filled r = 0 \<Longrightarrow> b = 0 \<and> s = 0"
    and q: "fill_adds exact_env r (p\<lparr> pi_position := pi_position p + fill_sign r, pi_volume := vol \<rparr>) = Inr p'"
  shows "fill_ok cash r p vol p'"
  using side
proof
  let ?n = "filled r"
  assume 1: "rsp_side r = BUY \<and> 0 \<le> pi_position p"
  then have "pi_open_vwap p' 2 = Fin (b + real_of_int (rsp_price r) * real_of_int ?n)" "pi_open_vwap p' 0 = Fin s"
      "pi_real_pnl p' = Fin g" "pi_position p' = pi_position p + fill_sign r" "pi_volume p' = vol"
    using q v by (auto simp: fill_adds_def fill_sign_def Let_def result_simps d_of_int_def)
  moreover have "0 < pi_position p' \<or> pi_position p = 0 \<and> ?n = 0" using calculation(4) conjunct2[OF 1] filled_nonneg[of r] 1 by (simp add: fill_sign_def del: filled_nonneg) linarith
  ultimately show ?thesis using 1 cash some by (intro fill_okI) (auto simp: fill_cash_def fill_sign_def algebra_simps)
next
  let ?n = "filled r"
  assume 2: "rsp_side r = SELL \<and> pi_position p \<le> 0"
  then have "pi_open_vwap p' 2 = Fin b" "pi_open_vwap p' 0 = Fin (s + real_of_int (rsp_price r) * real_of_int ?n)"
      "pi_real_pnl p' = Fin g" "pi_position p' = pi_position p + fill_sign r" "pi_volume p' = vol"
    using q v by (auto simp: fill_adds_def fill_sign_def Let_def result_simps d_of_int_def)
  moreover have "pi_position p' < 0 \<or> pi_position p = 0 \<and> ?n = 0" using calculation(4) conjunct2[OF 2] filled_nonneg[of r] 2 by (simp add: fill_sign_def del: filled_nonneg) linarith
  ultimately show ?thesis using 2 cash some by (intro fill_okI) (auto simp: fill_cash_def fill_sign_def algebra_simps)
qed

lemma fill_reduces_long:
  assumes b: "books_balance cash p" and f: "is_fill r" and sd: "rsp_side r = SELL" "0 < pi_position p"
    and q: "fill_reduces exact_env r (pi_position p) (pi_position p + fill_sign r)
        (p\<lparr> pi_position := pi_position p + fill_sign r, pi_volume := v \<rparr>) = Inr p'"
  shows "fill_ok cash r p v p'"
proof -
  let ?old = "pi_position p" and ?n = "filled r" and ?x = "real_of_int (rsp_price r)"
  obtain b s g where v: "pi_open_vwap p 2 = Fin b" "pi_open_vwap p 0 = Fin s" "pi_real_pnl p = Fin g" "cash = g - b"
    using b sd by (auto simp: books_balance_def)
  have e: "to_int32 (rsp_exec_qty r) = ?n" using f to_int32_small by (simp add: is_fill_def)
  define w where "w = b / real_of_int ?old"
  have w: "w * real_of_int ?old = b" using sd by (simp add: w_def)
  show ?thesis
  proof (cases "?n \<le> ?old")
    case True
    have p': "pi_open_vwap p' 2 = Fin (w * real_of_int (?old - ?n))" "pi_open_vwap p' 0 = Fin s"
        "pi_real_pnl p' = Fin (g - real_of_int ?n * (w - ?x))" "pi_position p' = pi_position p + fill_sign r" "pi_volume p' = v"
      using q v e sd True
      by (auto simp: w_def fill_reduces_def fill_sign_def Let_def result_simps d_of_int_def fsub_def mult_less_0_iff split: if_splits)
    show ?thesis using p'(4) sd True v w by (intro fill_okI[OF p']) (auto simp: fill_cash_def fill_sign_def algebra_simps)
  next
    case False
    have "(?old - ?n) * ?old < 0" using sd False by (simp add: mult_less_0_iff)
    then have p': "pi_open_vwap p' 2 = Fin 0" "pi_open_vwap p' 0 = Fin (?x * real_of_int (?n - ?old))"
        "pi_real_pnl p' = Fin (g - real_of_int ?old * (w - ?x))" "pi_position p' = pi_position p + fill_sign r" "pi_volume p' = v"
      using q v e sd False
      by (auto simp: w_def fill_reduces_def fill_sign_def Let_def result_simps d_of_int_def fsub_def split: if_splits)
    show ?thesis using p'(4) sd False v w by (intro fill_okI[OF p']) (auto simp: fill_cash_def fill_sign_def algebra_simps)
  qed
qed

lemma fill_reduces_short:
  assumes b: "books_balance cash p" and f: "is_fill r" and sd: "rsp_side r = BUY" "pi_position p < 0"
    and q: "fill_reduces exact_env r (pi_position p) (pi_position p + fill_sign r)
        (p\<lparr> pi_position := pi_position p + fill_sign r, pi_volume := v \<rparr>) = Inr p'"
  shows "fill_ok cash r p v p'"
proof -
  let ?old = "pi_position p" and ?n = "filled r" and ?x = "real_of_int (rsp_price r)"
  obtain b s g where v: "pi_open_vwap p 2 = Fin b" "pi_open_vwap p 0 = Fin s" "pi_real_pnl p = Fin g" "cash = g + s"
    using b sd by (auto simp: books_balance_def)
  have e: "to_int32 (rsp_exec_qty r) = ?n" using f to_int32_small by (simp add: is_fill_def)
  define w where "w = s / real_of_int (- ?old)"
  have w: "w * real_of_int (- ?old) = s" using sd by (simp add: w_def)
  show ?thesis
  proof (cases "?n \<le> - ?old")
    case True
    have p': "pi_open_vwap p' 2 = Fin b" "pi_open_vwap p' 0 = Fin (w * real_of_int (- ?old - ?n))"
        "pi_real_pnl p' = Fin (g + real_of_int ?n * (w - ?x))" "pi_position p' = pi_position p + fill_sign r" "pi_volume p' = v"
      using q v e sd True
      by (auto simp: w_def fill_reduces_def fill_sign_def Let_def result_simps d_of_int_def fsub_def mult_less_0_iff split: if_splits)
    show ?thesis using p'(4) sd True v w by (intro fill_okI[OF p'], cases "?n = - ?old") (auto simp: fill_cash_def fill_sign_def algebra_simps)
  next
    case False
    have "(?old + ?n) * ?old < 0" using sd False by (simp add: mult_less_0_iff)
    then have p': "pi_open_vwap p' 2 = Fin (?x * real_of_int (?n + ?old))" "pi_open_vwap p' 0 = Fin 0"
        "pi_real_pnl p' = Fin (g + real_of_int (- ?old) * (w - ?x))" "pi_position p' = pi_position p + fill_sign r" "pi_volume p' = v"
      using q v e sd False
      by (auto simp: w_def fill_reduces_def fill_sign_def Let_def result_simps d_of_int_def fsub_def split: if_splits)
    show ?thesis using p'(4) sd False v w by (intro fill_okI[OF p']) (auto simp: fill_cash_def fill_sign_def algebra_simps)
  qed
qed

section \<open>A whole fill\<close>

lemma fill_marks_exact:
  assumes q: "fill_marks exact_env r p1 = Inr p'" and ok: "fill_ok cash r p v p1"
  shows "books_balance (cash + fill_cash r) p' \<and> pi_position p' = pi_position p + fill_sign r \<and> pi_volume p' = v
     \<and> pi_total_pnl p' = Fin (cash + fill_cash r + real_of_int (pi_position p' * rsp_price r))"
proof -
  obtain b s g where v: "pi_open_vwap p1 2 = Fin b" "pi_open_vwap p1 0 = Fin s" "pi_real_pnl p1 = Fin g"
      "cash + fill_cash r = g - (if 0 < pi_position p1 then b else 0) + (if pi_position p1 < 0 then s else 0)"
      "pi_position p1 = pi_position p + fill_sign r" "pi_volume p1 = v"
    using ok by (auto simp: fill_ok_def)
  show ?thesis
  proof (cases "pi_position p1 = 0")
    case True
    then show ?thesis using q v by (auto simp: fill_marks_def books_balance_def)
  next
    case False
    have p': "pi_open_vwap p' = pi_open_vwap p1" "pi_real_pnl p' = pi_real_pnl p1" "pi_position p' = pi_position p1" "pi_volume p' = pi_volume p1"
      using q False by (auto simp: fill_marks_def open_profit_def Let_def result_simps)
    have "pi_total_pnl p' = Fin (cash + fill_cash r + real_of_int (pi_position p1 * rsp_price r))"
      unfolding v(4) using q False v(1-3)
      by (cases "pi_position p1 > 0")
        (auto simp: fill_marks_def open_profit_def Let_def result_simps d_of_int_def fsub_def field_simps)
    then show ?thesis using p' v False by (auto simp: books_balance_def)
  qed
qed

lemma fill_rebate_exact:
  assumes "books_balance cash p" and "pi_total_pnl p = Fin t"
  shows "books_balance (cash + rebate_of x r) (fill_rebate exact_env (Fin x) r p)
     \<and> pi_position (fill_rebate exact_env (Fin x) r p) = pi_position p \<and> pi_volume (fill_rebate exact_env (Fin x) r p) = pi_volume p
     \<and> pi_total_pnl (fill_rebate exact_env (Fin x) r p) = Fin (t + rebate_of x r)"
proof -
  let ?p = "fill_rebate exact_env (Fin x) r p"
  obtain b s g where v: "pi_open_vwap p 2 = Fin b" "pi_open_vwap p 0 = Fin s" "pi_real_pnl p = Fin g"
      "cash = g - (if 0 < pi_position p then b else 0) + (if pi_position p < 0 then s else 0)" "pi_position p = 0 \<longrightarrow> b = 0 \<and> s = 0"
    using assms(1) by (auto simp: books_balance_def)
  have p: "pi_open_vwap ?p = pi_open_vwap p" "pi_real_pnl ?p = Fin (g + rebate_of x r)" "pi_position ?p = pi_position p"
      "pi_volume ?p = pi_volume p" "pi_total_pnl ?p = Fin (t + rebate_of x r)"
    using v(3) assms(2) by (simp_all add: fill_rebate_def rebate_of_def feq_def d_of_int_def Let_def)
  show ?thesis unfolding books_balance_def p using v by auto
qed

text \<open>The steps of \<open>addFill\<close>.\<close>

lemma addFill_steps:
  assumes "is_fill r" and "addFill exact_env (Fin x) r p = Inr p'"
  obtains p1 p2 where "fill_marks exact_env r p1 = Inr p2" and "p' = fill_rebate exact_env (Fin x) r p2"
    and "(if pi_position p * sideToValue (rsp_side r) \<ge> 0
          then fill_adds exact_env r (p\<lparr> pi_position := pi_position p + fill_sign r, pi_volume := pi_volume p + rsp_exec_qty r \<rparr>)
          else fill_reduces exact_env r (pi_position p) (pi_position p + fill_sign r)
            (p\<lparr> pi_position := pi_position p + fill_sign r, pi_volume := pi_volume p + rsp_exec_qty r \<rparr>)) = Inr p1"
proof -
  have d: "to_int32 (rsp_exec_qty r) * sideToValue (rsp_side r) = fill_sign r"
    using assms(1) to_int32_small by (simp add: is_fill_def fill_sign_def)
  show ?thesis using assms(2) that unfolding addFill_def Let_def d by (auto simp: result_simps)
qed

text \<open>The books after a fill: \<open>cash\<close> is what the position is worth before it.\<close>

lemma addFill_books:
  assumes "fill_ok cash r p v p1" and "fill_marks exact_env r p1 = Inr p2"
  shows "books_balance (cash + fill_cash r + rebate_of x r) (fill_rebate exact_env (Fin x) r p2)
     \<and> pi_position (fill_rebate exact_env (Fin x) r p2) = pi_position p + fill_sign r \<and> pi_volume (fill_rebate exact_env (Fin x) r p2) = v
     \<and> pi_total_pnl (fill_rebate exact_env (Fin x) r p2)
         = Fin (cash + fill_cash r + rebate_of x r + real_of_int ((pi_position p + fill_sign r) * rsp_price r))"
proof -
  note m = fill_marks_exact[OF assms(2,1)]
  have "pi_total_pnl p2 = Fin (cash + fill_cash r + real_of_int ((pi_position p + fill_sign r) * rsp_price r))" using m by simp
  from fill_rebate_exact[OF conjunct1[OF m] this, of x r] show ?thesis using m by (simp add: algebra_simps)
qed

text \<open>The first fill of a position, with whatever the constructor left in the open notionals.\<close>

lemma addFill_first:
  assumes "is_fill r" and "0 < filled r" and "addFill exact_env (Fin x) r (PositionInfo_new vwap) = Inr p'"
    and "vwap 2 = Fin b" and "vwap 0 = Fin s" and "cash = (if rsp_side r = BUY then - b else s)"
  shows "books_balance (cash + fill_cash r + rebate_of x r) p' \<and> pi_position p' = fill_sign r \<and> pi_volume p' = rsp_exec_qty r
     \<and> pi_total_pnl p' = Fin (cash + fill_cash r + rebate_of x r + real_of_int (pi_position p' * rsp_price r))"
proof -
  let ?p = "PositionInfo_new vwap"
  obtain p1 p2 where p1: "fill_marks exact_env r p1 = Inr p2" "p' = fill_rebate exact_env (Fin x) r p2"
      "fill_adds exact_env r (?p\<lparr> pi_position := pi_position ?p + fill_sign r, pi_volume := pi_volume ?p + rsp_exec_qty r \<rparr>) = Inr p1"
    by (rule addFill_steps[OF assms(1,3)]) (simp add: PositionInfo_new_def)
  have "fill_ok cash r ?p (pi_volume ?p + rsp_exec_qty r) p1"
    by (rule fill_adds_ok[OF assms(1) _ _ _ _ _ _ p1(3), where b = b and s = s and g = 0])
      (use assms in \<open>auto simp: PositionInfo_new_def is_fill_def\<close>)
  from addFill_books[OF this p1(1), of x] show ?thesis by (simp add: p1(2) PositionInfo_new_def)
qed

lemma addFill_exact:
  assumes b: "books_balance cash p" and f: "is_fill r" and q: "addFill exact_env (Fin x) r p = Inr p'"
  shows "books_balance (cash + fill_cash r + rebate_of x r) p' \<and> pi_position p' = pi_position p + fill_sign r
     \<and> pi_volume p' = pi_volume p + rsp_exec_qty r
     \<and> pi_total_pnl p' = Fin (cash + fill_cash r + rebate_of x r + real_of_int (pi_position p' * rsp_price r))"
proof -
  let ?p1 = "p\<lparr> pi_position := pi_position p + fill_sign r, pi_volume := pi_volume p + rsp_exec_qty r \<rparr>"
  obtain p2 p3 where p2: "fill_marks exact_env r p2 = Inr p3" "p' = fill_rebate exact_env (Fin x) r p3"
      "(if pi_position p * sideToValue (rsp_side r) \<ge> 0 then fill_adds exact_env r ?p1
        else fill_reduces exact_env r (pi_position p) (pi_position p + fill_sign r) ?p1) = Inr p2"
    by (rule addFill_steps[OF f q])
  have "fill_ok cash r p (pi_volume p + rsp_exec_qty r) p2"
  proof (cases "pi_position p * sideToValue (rsp_side r) \<ge> 0")
    case True
    then have side: "rsp_side r = BUY \<and> 0 \<le> pi_position p \<or> rsp_side r = SELL \<and> pi_position p \<le> 0" using f by (auto simp: is_fill_def)
    obtain b s g where "pi_open_vwap p 2 = Fin b" "pi_open_vwap p 0 = Fin s" "pi_real_pnl p = Fin g"
        "cash = g - (if 0 < pi_position p then b else 0) + (if pi_position p < 0 then s else 0)" "pi_position p = 0 \<longrightarrow> b = 0 \<and> s = 0"
      using b by (auto simp: books_balance_def)
    then show ?thesis using True p2(3) side by (intro fill_adds_ok[OF f side]) auto
  next
    case False
    then have side: "rsp_side r = SELL \<and> 0 < pi_position p \<or> rsp_side r = BUY \<and> pi_position p < 0"
      using f by (auto simp: is_fill_def)
    have "fill_reduces exact_env r (pi_position p) (pi_position p + fill_sign r) ?p1 = Inr p2" using False p2(3) by simp
    then show ?thesis using side fill_reduces_long[OF b f] fill_reduces_short[OF b f] by blast
  qed
  from addFill_books[OF this p2(1), of x] show ?thesis by (simp add: p2(2))
qed

lemma addFills_exact:
  assumes "books_balance cash p" and "\<forall>r \<in> set rs. is_fill r" and "foldR (addFill exact_env (Fin x)) rs p = Inr p'"
  shows "books_balance (cash + cash_of x rs) p' \<and> pi_position p' = pi_position p + sum_list (map fill_sign rs)
     \<and> pi_volume p' = pi_volume p + sum_list (map rsp_exec_qty rs)
     \<and> (rs \<noteq> [] \<longrightarrow> pi_total_pnl p' = Fin (cash + cash_of x rs + real_of_int (pi_position p' * rsp_price (last rs))))"
  using assms
proof (induction rs arbitrary: cash p)
  case (Cons r rs)
  obtain p1 where p1: "addFill exact_env (Fin x) r p = Inr p1" "foldR (addFill exact_env (Fin x)) rs p1 = Inr p'"
    using Cons.prems(3) by (auto simp: result_simps)
  note a = addFill_exact[OF Cons.prems(1) _ p1(1)]
  have f: "is_fill r" "\<forall>r \<in> set rs. is_fill r" using Cons.prems(2) by simp_all
  show ?case
    using Cons.IH[OF a[OF f(1), THEN conjunct1] f(2) p1(2)] a[OF f(1)] p1(2)
    by (cases "rs = []") (simp_all add: add.assoc)
qed simp

text \<open>All fills of a position, from the start.\<close>

lemma addFills_from_start:
  assumes "\<forall>r \<in> set (r # rs). is_fill r" and "0 < filled r" and "vwap 2 = Fin b" and "vwap 0 = Fin s"
    and "foldR (addFill exact_env (Fin x)) (r # rs) (PositionInfo_new vwap) = Inr p" and "c = cash_of x (r # rs) + (if rsp_side r = BUY then - b else s)"
  shows "books_balance c p \<and> pi_position p = sum_list (map fill_sign (r # rs)) \<and> pi_volume p = sum_list (map rsp_exec_qty (r # rs))
     \<and> pi_total_pnl p = Fin (c + real_of_int (pi_position p * rsp_price (last (r # rs))))"
proof -
  obtain p1 where p1: "addFill exact_env (Fin x) r (PositionInfo_new vwap) = Inr p1" "foldR (addFill exact_env (Fin x)) rs p1 = Inr p"
    using assms(5) by (auto simp: result_simps)
  have f: "is_fill r" "\<forall>r \<in> set rs. is_fill r" using assms(1) by simp_all
  note a = addFill_first[OF f(1) assms(2) p1(1) assms(3,4) refl]
  show ?thesis
    using addFills_exact[OF a[THEN conjunct1] f(2) p1(2)] a p1(2) assms(6)
    by (cases "rs = []") (simp_all add: add.assoc add.commute add.left_commute)
qed

end
