(* ===== verification/FeatureEngine.thy ===== *)
theory FeatureEngine
  imports Vpin Positions
begin

text \<open>
  \<^verbatim>\<open>trading/strategy/feature_engine.h\<close>: the signals that the strategies read. The integer expressions are evaluated
  in the types of the source before they are converted: the sum of the two best quantities wraps at 32 bits, and the products of
  a price and a quantity are signed 64-bit values.
\<close>

record FeatureEngine =
  fe_mkt_price :: double
  fe_agg_trade_qty_ratio :: double
  fe_prev_mid :: double
  fe_ewma_variance :: double
  fe_ewma_variance_long :: double
  fe_volatility :: double
  fe_volatility_long :: double
  fe_vol_samples :: nat
  fe_ewma_decay :: double
  fe_ewma_decay_long :: double
  fe_vol_bootstrap :: nat
  fe_use_stoikov_micro :: bool
  fe_prev_bid_price :: Price
  fe_prev_bid_qty :: Qty
  fe_prev_ask_price :: Price
  fe_prev_ask_qty :: Qty
  fe_ofi :: double
  fe_ofi_decay :: double
  fe_vpin :: Vpin
  fe_use_vpin :: bool

definition Feature_INVALID :: double where "Feature_INVALID = NaN"

definition FeatureEngine_new :: "TradeEngineCfg \<Rightarrow> FeatureEngine" where
  "FeatureEngine_new cfg =
     \<lparr> fe_mkt_price = Feature_INVALID, fe_agg_trade_qty_ratio = Feature_INVALID, fe_prev_mid = Feature_INVALID,
       fe_ewma_variance = Fin 0, fe_ewma_variance_long = Fin 0, fe_volatility = Feature_INVALID,
       fe_volatility_long = Feature_INVALID, fe_vol_samples = 0, fe_ewma_decay = cfg_ewma_decay cfg,
       fe_ewma_decay_long = cfg_ewma_decay_long cfg, fe_vol_bootstrap = cfg_vol_bootstrap cfg,
       fe_use_stoikov_micro = cfg_use_stoikov_micro cfg, fe_prev_bid_price = Price_INVALID, fe_prev_bid_qty = Qty_INVALID,
       fe_prev_ask_price = Price_INVALID, fe_prev_ask_qty = Qty_INVALID, fe_ofi = Fin 0, fe_ofi_decay = cfg_ofi_decay cfg,
       fe_vpin = (if cfg_use_vpin cfg \<and> flt (Fin 0) (cfg_vpin_bucket_size cfg)
                  then setBucketSize (cfg_vpin_bucket_size cfg) Vpin_new else Vpin_new),
       fe_use_vpin = cfg_use_vpin cfg \<rparr>"

text \<open>\<open>static_cast<double>\<close> of a quantity, and the mid price \<open>0.5 * (bid + ask)\<close>.\<close>

definition d_of_qty :: "fpenv \<Rightarrow> Qty \<Rightarrow> double" where
  "d_of_qty e q = d_of_int e (int (unat q))"

definition half :: double where "half = Fin (1 / 2)"

definition mid_price :: "fpenv \<Rightarrow> BBO \<Rightarrow> double result" where
  "mid_price e bbo = bindR (int64 (bid_price bbo + ask_price bbo)) (\<lambda>sum. Inr (fmul e half (d_of_int e sum)))"

text \<open>The micro-price, in both variants.\<close>

definition stoikov_price :: "fpenv \<Rightarrow> BBO \<Rightarrow> double result" where
  "stoikov_price e bbo =
     (let total_q = d_of_qty e (bid_qty bbo + ask_qty bbo) in
      bindR (mid_price e bbo) (\<lambda>mid_now.
      bindR (int64 (ask_price bbo - bid_price bbo)) (\<lambda>gap.
      let spread = d_of_int e gap;
          imb = (if flt (Fin 0) total_q then fdiv e (fsub e (d_of_qty e (bid_qty bbo)) (d_of_qty e (ask_qty bbo))) total_q
                 else Fin 0) in
      Inr (fadd e mid_now (fmul e (fmul e half spread) imb)))))"

definition vwap_price :: "fpenv \<Rightarrow> BBO \<Rightarrow> double result" where
  "vwap_price e bbo =
     (let total_q = d_of_qty e (bid_qty bbo + ask_qty bbo) in
      bindR (int64 (bid_price bbo * int (unat (ask_qty bbo)))) (\<lambda>b.
      bindR (int64 (ask_price bbo * int (unat (bid_qty bbo)))) (\<lambda>a.
      bindR (int64 (b + a)) (\<lambda>s.
      Inr (fdiv e (d_of_int e s) total_q)))))"

text \<open>The exponentially weighted variances of the mid price, and the volatilities once there are enough samples.\<close>

definition ewma :: "fpenv \<Rightarrow> double \<Rightarrow> double \<Rightarrow> double \<Rightarrow> double" where
  "ewma e decay old ret = fadd e (fmul e decay old) (fmul e (fmul e (fsub e (Fin 1) decay) ret) ret)"

definition update_volatility :: "fpenv \<Rightarrow> double \<Rightarrow> FeatureEngine \<Rightarrow> FeatureEngine" where
  "update_volatility e mid fe =
     (let fe1 =
        (if \<not> isnan (fe_prev_mid fe)
         then
           let ret = fsub e mid (fe_prev_mid fe);
               v = ewma e (fe_ewma_decay fe) (fe_ewma_variance fe) ret;
               vl = ewma e (fe_ewma_decay_long fe) (fe_ewma_variance_long fe) ret;
               n = fe_vol_samples fe + 1;
               fe0 = fe\<lparr> fe_ewma_variance := v, fe_ewma_variance_long := vl, fe_vol_samples := n \<rparr> in
           (if n \<ge> fe_vol_bootstrap fe
            then fe0\<lparr> fe_volatility := fsqrt e v, fe_volatility_long := fsqrt e vl \<rparr> else fe0)
         else fe) in
      fe1\<lparr> fe_prev_mid := mid \<rparr>)"

text \<open>Order flow imbalance: what each side contributes, and the smoothed difference.\<close>

definition ofi_bid :: "fpenv \<Rightarrow> BBO \<Rightarrow> FeatureEngine \<Rightarrow> double" where
  "ofi_bid e bbo fe =
     (if bid_price bbo > fe_prev_bid_price fe then d_of_qty e (bid_qty bbo)
      else if bid_price bbo = fe_prev_bid_price fe then fsub e (d_of_qty e (bid_qty bbo)) (d_of_qty e (fe_prev_bid_qty fe))
      else fneg (d_of_qty e (fe_prev_bid_qty fe)))"

definition ofi_ask :: "fpenv \<Rightarrow> BBO \<Rightarrow> FeatureEngine \<Rightarrow> double" where
  "ofi_ask e bbo fe =
     (if ask_price bbo < fe_prev_ask_price fe then d_of_qty e (ask_qty bbo)
      else if ask_price bbo = fe_prev_ask_price fe then fsub e (d_of_qty e (ask_qty bbo)) (d_of_qty e (fe_prev_ask_qty fe))
      else fneg (d_of_qty e (fe_prev_ask_qty fe)))"

definition update_ofi :: "fpenv \<Rightarrow> BBO \<Rightarrow> FeatureEngine \<Rightarrow> FeatureEngine" where
  "update_ofi e bbo fe =
     (let fe1 =
        (if fe_prev_bid_price fe \<noteq> Price_INVALID \<and> fe_prev_ask_price fe \<noteq> Price_INVALID
         then
           let e_n = fsub e (ofi_bid e bbo fe) (ofi_ask e bbo fe) in
           fe\<lparr> fe_ofi := fadd e (fmul e (fe_ofi_decay fe) (fe_ofi fe)) (fmul e (fsub e (Fin 1) (fe_ofi_decay fe)) e_n) \<rparr>
         else fe) in
      fe1\<lparr> fe_prev_bid_price := bid_price bbo, fe_prev_bid_qty := bid_qty bbo,
           fe_prev_ask_price := ask_price bbo, fe_prev_ask_qty := ask_qty bbo \<rparr>)"

definition two_sided :: "BBO \<Rightarrow> bool" where
  "two_sided bbo \<longleftrightarrow> bid_price bbo \<noteq> Price_INVALID \<and> ask_price bbo \<noteq> Price_INVALID"

definition fe_onOrderBookUpdate :: "fpenv \<Rightarrow> BBO \<Rightarrow> FeatureEngine \<Rightarrow> FeatureEngine result" where
  "fe_onOrderBookUpdate e bbo fe =
     (if two_sided bbo
      then
        bindR (if fe_use_stoikov_micro fe then stoikov_price e bbo else vwap_price e bbo) (\<lambda>price.
        bindR (mid_price e bbo) (\<lambda>mid.
        Inr (update_ofi e bbo (update_volatility e mid (fe\<lparr> fe_mkt_price := price \<rparr>)))))
      else Inr fe)"

definition fe_onTradeUpdate :: "fpenv \<Rightarrow> MEMarketUpdate \<Rightarrow> BBO \<Rightarrow> FeatureEngine \<Rightarrow> FeatureEngine result" where
  "fe_onTradeUpdate e u bbo fe =
     (let fe1 =
        (if two_sided bbo
         then fe\<lparr> fe_agg_trade_qty_ratio :=
                fdiv e (d_of_qty e (mu_qty u)) (d_of_qty e (if mu_side u = BUY then ask_qty bbo else bid_qty bbo)) \<rparr>
         else fe) in
      if fe_use_vpin fe1
      then
        (case vpin_onTrade e (d_of_qty e (mu_qty u)) (mu_side u = BUY) (fe_vpin fe1) of
           None \<Rightarrow> Inl Diverges
         | Some v \<Rightarrow> Inr (fe1\<lparr> fe_vpin := v \<rparr>))
      else Inr fe1)"

definition getVPIN :: "fpenv \<Rightarrow> FeatureEngine \<Rightarrow> double" where
  "getVPIN e fe = vpin_value e (fe_vpin fe)"

section \<open>The micro-price in rounded arithmetic\<close>

text \<open>
  The micro-price of a two-sided book lies between the best prices when the quantities do not wrap and the integers stay in the range that doubles
  hold exactly: the prices times the quantities for the average weighted by volume, the prices alone for the other variant, which also takes halves of integers.
\<close>

definition qtys_ok :: "BBO \<Rightarrow> bool" where
  "qtys_ok bbo \<longleftrightarrow> 0 < unat (bid_qty bbo) + unat (ask_qty bbo) \<and> unat (bid_qty bbo) + unat (ask_qty bbo) < 2 ^ 32"

definition rounds_halves :: "fpenv \<Rightarrow> bool" where
  "rounds_halves e \<longleftrightarrow> rounds_well e \<and> (\<forall>i. \<bar>i\<bar> \<le> 2 ^ 53 \<longrightarrow> fp_rnd e (real_of_int i / 2) = Fin (real_of_int i / 2))"

definition micro_in_range :: "bool \<Rightarrow> BBO \<Rightarrow> bool" where
  "micro_in_range stoikov bbo \<longleftrightarrow>
     (let scale = (if stoikov then 2 else int (unat (bid_qty bbo) + unat (ask_qty bbo))) in
      \<bar>bid_price bbo\<bar> * scale \<le> 2 ^ 53 \<and> \<bar>ask_price bbo\<bar> * scale \<le> 2 ^ 53)"

lemma d_of_qty_rounds:
  assumes "rounds_well e"
  shows "d_of_qty e q = Fin (real (unat q))"
proof -
  have "unat q < 2 ^ 32" using unsigned_less[of q] by simp
  then show ?thesis using rnd_nat[OF assms, of "unat q"] by (simp add: d_of_qty_def d_of_int_def)
qed

lemma d_of_qty_exact [simp]: "d_of_qty exact_env q = Fin (real (unat q))"
  by (rule d_of_qty_rounds[OF exact_rounds_well])

lemma total_qty_exact:
  assumes "rounds_well e" and "qtys_ok bbo"
  shows "d_of_qty e (bid_qty bbo + ask_qty bbo) = Fin (real (unat (bid_qty bbo)) + real (unat (ask_qty bbo)))"
proof -
  have "unat (bid_qty bbo + ask_qty bbo) = unat (bid_qty bbo) + unat (ask_qty bbo)"
    using assms(2) by (simp add: qtys_ok_def unat_add_lem[symmetric])
  then show ?thesis unfolding d_of_qty_rounds[OF assms(1)] by (simp only: of_nat_add)
qed

text \<open>A weighted sum is between the bounds times the weights.\<close>

lemma weighted_sum_between:
  fixes a b x y :: int
  assumes "a \<le> b" "0 \<le> x" "0 \<le> y"
  shows "a * (x + y) \<le> a * y + b * x \<and> a * y + b * x \<le> b * (x + y)"
proof -
  have "a * x \<le> b * x" "a * y \<le> b * y" using assms by (simp_all add: mult_right_mono)
  then show ?thesis by (simp add: algebra_simps)
qed

lemma int64_small: "\<bar>i\<bar> \<le> 2 ^ 60 \<Longrightarrow> int64 i = Inr i"
  by (simp add: int64_def abs_le_iff)

lemma abs_mult_le: "\<bar>p\<bar> * t \<le> (c :: int) \<Longrightarrow> 0 \<le> k \<Longrightarrow> k \<le> t \<Longrightarrow> \<bar>p * k\<bar> \<le> c"
  by (simp add: abs_mult) (meson abs_ge_zero mult_left_mono order_trans)

lemma vwap_between:
  assumes e: "rounds_well e" and q: "qtys_ok bbo" and p: "bid_price bbo \<le> ask_price bbo" and r: "micro_in_range False bbo"
  shows "\<exists>m. vwap_price e bbo = Inr (Fin m) \<and> real_of_int (bid_price bbo) \<le> m \<and> m \<le> real_of_int (ask_price bbo)"
proof -
  define x where "x = int (unat (bid_qty bbo))"
  define y where "y = int (unat (ask_qty bbo))"
  let ?b = "bid_price bbo" and ?a = "ask_price bbo"
  have xy: "0 \<le> x" "0 \<le> y" "0 < x + y" using q unfolding x_def y_def qtys_ok_def by linarith+
  have rb: "\<bar>?b\<bar> * (x + y) \<le> 2 ^ 53" "\<bar>?a\<bar> * (x + y) \<le> 2 ^ 53" using r by (simp_all add: micro_in_range_def Let_def x_def y_def)
  have abs: "\<bar>?b * y\<bar> \<le> 2 ^ 53" "\<bar>?a * x\<bar> \<le> 2 ^ 53" "\<bar>?b * (x + y)\<bar> \<le> 2 ^ 53" "\<bar>?a * (x + y)\<bar> \<le> 2 ^ 53" "\<bar>?b\<bar> \<le> 2 ^ 53" "\<bar>?a\<bar> \<le> 2 ^ 53"
    using abs_mult_le[OF rb(1), of y] abs_mult_le[OF rb(2), of x] abs_mult_le[OF rb(1), of "x + y"] abs_mult_le[OF rb(2), of "x + y"]
      abs_mult_le[OF rb(1), of 1] abs_mult_le[OF rb(2), of 1] xy by simp_all
  have s: "?b * (x + y) \<le> ?b * y + ?a * x" "?b * y + ?a * x \<le> ?a * (x + y)" using weighted_sum_between[OF p xy(1,2)] by simp_all
  then obtain m where m: "fp_rnd e (real_of_int (?b * y + ?a * x)) = Fin m"
      "real_of_int (?b * (x + y)) \<le> m" "m \<le> real_of_int (?a * (x + y))"
    using rnd_between[OF e, of "?b * (x + y)" "real_of_int (?b * y + ?a * x)" "?a * (x + y)"] abs(3,4) unfolding of_int_le_iff by blast
  have T: "d_of_qty e (bid_qty bbo + ask_qty bbo) = Fin (real_of_int (x + y))"
    unfolding total_qty_exact[OF e q] x_def y_def by simp
  have "vwap_price e bbo = Inr (fp_rnd e (m / real_of_int (x + y)))"
    unfolding vwap_price_def T Let_def x_def[symmetric] y_def[symmetric]
    using int64_small[of "?b * y"] int64_small[of "?a * x"] int64_small[of "?b * y + ?a * x"] abs(1,2) xy m(1)
    by (simp add: d_of_int_def abs_le_iff)
  moreover have "real_of_int ?b \<le> m / real_of_int (x + y)" "m / real_of_int (x + y) \<le> real_of_int ?a"
    using m(2,3) xy(3) by (simp_all add: pos_le_divide_eq pos_divide_le_eq flip: of_int_mult of_int_add)
  ultimately show ?thesis using rnd_between[OF e _ _ abs(5,6)] by simp
qed

lemma rnd_between_halves:
  assumes "rounds_halves e" and "real_of_int a / 2 \<le> x" and "x \<le> real_of_int b / 2" and "\<bar>a\<bar> \<le> 2 ^ 53" and "\<bar>b\<bar> \<le> 2 ^ 53"
  shows "\<exists>y. fp_rnd e x = Fin y \<and> real_of_int a / 2 \<le> y \<and> y \<le> real_of_int b / 2"
proof -
  have "fp_rnd e (real_of_int a / 2) = Fin (real_of_int a / 2)" "fp_rnd e (real_of_int b / 2) = Fin (real_of_int b / 2)"
    using assms unfolding rounds_halves_def by blast+
  moreover have "fle (fp_rnd e (real_of_int a / 2)) (fp_rnd e x)" "fle (fp_rnd e x) (fp_rnd e (real_of_int b / 2))"
    using assms unfolding rounds_halves_def rounds_well_def by blast+
  ultimately show ?thesis using fle_Fin_between by metis
qed

lemma stoikov_between:
  assumes h: "rounds_halves e" and q: "qtys_ok bbo" and p: "bid_price bbo \<le> ask_price bbo" and r: "micro_in_range True bbo"
  shows "\<exists>m. stoikov_price e bbo = Inr (Fin m) \<and> real_of_int (bid_price bbo) \<le> m \<and> m \<le> real_of_int (ask_price bbo)"
proof -
  let ?b = "bid_price bbo" and ?a = "ask_price bbo"
  define x where "x = real (unat (bid_qty bbo))"
  define y where "y = real (unat (ask_qty bbo))"
  have e: "rounds_well e" using h by (simp add: rounds_halves_def)
  have abs: "\<bar>?b\<bar> \<le> 2 ^ 52" "\<bar>?a\<bar> \<le> 2 ^ 52" "\<bar>?b + ?a\<bar> \<le> 2 ^ 53" "\<bar>?a - ?b\<bar> \<le> 2 ^ 53" "\<bar>?b\<bar> \<le> 2 ^ 53" "\<bar>?a\<bar> \<le> 2 ^ 53"
    using r unfolding micro_in_range_def Let_def if_True by (simp; linarith)+
  have exact: "fmul e half (d_of_int e i) = Fin (real_of_int i / 2)" if "\<bar>i\<bar> \<le> 2 ^ 53" for i
    using h that rnd_int[OF e that] by (simp add: rounds_halves_def d_of_int_def half_def)
  have qt: "d_of_qty e (bid_qty bbo + ask_qty bbo) = Fin (x + y)" "d_of_qty e (bid_qty bbo) = Fin x" "d_of_qty e (ask_qty bbo) = Fin y"
    unfolding x_def y_def by (fact total_qty_exact[OF e q] d_of_qty_rounds[OF e])+
  have pos: "0 < x + y" using q unfolding qtys_ok_def x_def y_def by (metis of_nat_0_less_iff of_nat_add)
  have nonneg: "0 \<le> x" "0 \<le> y" unfolding x_def y_def by (rule of_nat_0_le_iff)+
  have "\<bar>int (unat (bid_qty bbo)) - int (unat (ask_qty bbo))\<bar> \<le> 2 ^ 53"
  proof -
    have "unat (bid_qty bbo) + unat (ask_qty bbo) < 4294967296" "(2 :: int) ^ 53 = 9007199254740992" using q by (simp_all add: qtys_ok_def)
    then show ?thesis by linarith
  qed
  from rnd_int[OF e this] have "fsub e (Fin x) (Fin y) = Fin (x - y)" by (simp add: fsub_def x_def y_def)
  moreover obtain i where i: "fp_rnd e ((x - y) / (x + y)) = Fin i" "- 1 \<le> i" "i \<le> 1"
    using rnd_between[OF e, of "- 1" "(x - y) / (x + y)" 1] pos nonneg by (auto simp: field_simps)
  moreover obtain w where w: "fp_rnd e (real_of_int (?a - ?b) / 2 * i) = Fin w" "real_of_int (?b - ?a) / 2 \<le> w" "w \<le> real_of_int (?a - ?b) / 2"
  proof -
    have g: "0 \<le> real_of_int (?a - ?b) / 2" using p by simp
    have "real_of_int (?a - ?b) / 2 * i \<le> real_of_int (?a - ?b) / 2" using mult_left_mono[OF i(3) g] by simp
    moreover have "real_of_int (?b - ?a) / 2 \<le> real_of_int (?a - ?b) / 2 * i" using mult_left_mono[OF i(2) g] by (simp add: field_simps)
    ultimately show ?thesis using that rnd_between_halves[OF h] abs(4) by (metis abs_minus_commute)
  qed
  ultimately have "stoikov_price e bbo = Inr (fp_rnd e (real_of_int (?b + ?a) / 2 + w))"
    unfolding stoikov_price_def mid_price_def Let_def qt using pos int64_small[of "?b + ?a"] int64_small[of "?a - ?b"] abs(3,4)
    by (simp add: exact[OF abs(3)] exact[OF abs(4)] del: fmul.simps of_int_add of_int_diff) (simp del: of_int_add of_int_diff)
  moreover have "real_of_int ?b \<le> real_of_int (?b + ?a) / 2 + w" "real_of_int (?b + ?a) / 2 + w \<le> real_of_int ?a"
    using w(2,3) by (simp_all add: field_simps)
  ultimately show ?thesis using rnd_between[OF e _ _ abs(5,6)] by simp
qed

text \<open>Neither of the two overflows there, nor does the mid price.\<close>

lemma mid_price_defined: "qtys_ok bbo \<Longrightarrow> micro_in_range st bbo \<Longrightarrow> \<exists>mid. mid_price e bbo = Inr mid"
proof -
  assume q: "qtys_ok bbo" and r: "micro_in_range st bbo"
  define t where "t = (if st then 2 else int (unat (bid_qty bbo) + unat (ask_qty bbo)))"
  have "1 \<le> t" using q unfolding t_def qtys_ok_def by (cases st) (simp, simp only: if_False, linarith)
  then have "\<bar>bid_price bbo * 1\<bar> \<le> 2 ^ 53" "\<bar>ask_price bbo * 1\<bar> \<le> 2 ^ 53"
    using r by (intro abs_mult_le[of _ t]; simp add: micro_in_range_def t_def Let_def)+
  then show ?thesis using int64_small[of "bid_price bbo + ask_price bbo"] by (simp add: mid_price_def abs_le_iff)
qed

text \<open>In exact arithmetic a decay in the unit interval keeps the variances at or above zero, so that the volatility is a number.\<close>

lemma ewma_nonneg:
  assumes "0 \<le> d" "d \<le> 1" "0 \<le> v"
  shows "\<exists>w. ewma exact_env (Fin d) (Fin v) (Fin r) = Fin w \<and> 0 \<le> w"
  using assms by (simp add: ewma_def fsub_def mult.assoc)

end
