(* ===== verification/OrderManager.thy ===== *)
theory OrderManager
  imports Positions LFQueue
begin

text \<open>
  \<^verbatim>\<open>trading/strategy/risk_manager.h\<close>, \<^verbatim>\<open>risk_manager.cpp\<close>, \<^verbatim>\<open>om_order.h\<close>, \<^verbatim>\<open>order_manager.h\<close> and \<^verbatim>\<open>order_manager.cpp\<close>: the
  pre-trade checks and the one order per ticker and side that the strategies work. A pointer to an \<open>OMOrder\<close> is
  the place of the order in the two-dimensional array. The order manager holds a reference to the trade engine only for its client id
  and for \<open>sendClientRequest\<close>, so its operations take the id and thread the queue of outgoing requests.
\<close>

section \<open>Risk checks\<close>

datatype RiskCheckResult = Risk_INVALID | ORDER_TOO_LARGE | POSITION_TOO_LARGE | LOSS_TOO_LARGE | ALLOWED

primrec riskCheckResultToString :: "RiskCheckResult \<Rightarrow> string" where
  "riskCheckResultToString Risk_INVALID = ''INVALID''"
| "riskCheckResultToString ORDER_TOO_LARGE = ''ORDER_TOO_LARGE''"
| "riskCheckResultToString POSITION_TOO_LARGE = ''POSITION_TOO_LARGE''"
| "riskCheckResultToString LOSS_TOO_LARGE = ''LOSS_TOO_LARGE''"
| "riskCheckResultToString ALLOWED = ''ALLOWED''"

text \<open>\<open>position_info_\<close> points into the position keeper: the check reads the position of the moment.\<close>

definition ri_checkPreTradeRisk :: "RiskCfg \<Rightarrow> PositionInfo \<Rightarrow> Side \<Rightarrow> Qty \<Rightarrow> RiskCheckResult result" where
  "ri_checkPreTradeRisk cfg p side qty =
     (if qty > max_order_size cfg then Inr ORDER_TOO_LARGE
      else
        bindR (int32 (sideToValue side * to_int32 qty)) (\<lambda>d.
        bindR (int32 (pi_position p + d)) (\<lambda>after.
        bindR (int32 \<bar>after\<bar>) (\<lambda>size.
        Inr (if size > to_int32 (max_position cfg) then POSITION_TOO_LARGE
             else if flt (pi_total_pnl p) (max_loss cfg) then LOSS_TOO_LARGE
             else ALLOWED)))))"

record RiskManager =
  rm_risk_cfg :: "nat \<Rightarrow> RiskCfg"

definition RiskManager_new :: "(nat \<Rightarrow> TradeEngineCfg) \<Rightarrow> RiskManager" where
  "RiskManager_new ticker_cfg = \<lparr> rm_risk_cfg = (\<lambda>i. cfg_risk (ticker_cfg i)) \<rparr>"

definition checkPreTradeRisk :: "RiskManager \<Rightarrow> PositionKeeper \<Rightarrow> TickerId \<Rightarrow> Side \<Rightarrow> Qty \<Rightarrow> RiskCheckResult result" where
  "checkPreTradeRisk rm k ticker_id side qty =
     bindR (Prelude.at ME_MAX_TICKERS (unat ticker_id)) (\<lambda>t.
     ri_checkPreTradeRisk (rm_risk_cfg rm t) (pk_ticker_position k t) side qty)"

section \<open>Orders\<close>

datatype OMOrderState = OM_INVALID | PENDING_NEW | LIVE | PENDING_CANCEL | DEAD

primrec OMOrderStateToString :: "OMOrderState \<Rightarrow> string" where
  "OMOrderStateToString PENDING_NEW = ''PENDING_NEW''"
| "OMOrderStateToString LIVE = ''LIVE''"
| "OMOrderStateToString PENDING_CANCEL = ''PENDING_CANCEL''"
| "OMOrderStateToString DEAD = ''DEAD''"
| "OMOrderStateToString OM_INVALID = ''INVALID''"

record OMOrder =
  oo_ticker_id :: TickerId
  oo_order_id :: OrderId
  oo_side :: Side
  oo_price :: Price
  oo_qty :: Qty
  oo_state :: OMOrderState

definition OMOrder_default :: OMOrder where
  "OMOrder_default = \<lparr> oo_ticker_id = TickerId_INVALID, oo_order_id = OrderId_INVALID, oo_side = Side_INVALID,
     oo_price = Price_INVALID, oo_qty = Qty_INVALID, oo_state = OM_INVALID \<rparr>"

type_synonym om_ptr = "nat \<times> nat"

record OrderManager =
  om_orders :: "om_ptr \<Rightarrow> OMOrder"
  om_next_order_id :: OrderId
  om_hysteresis_ticks :: "nat \<Rightarrow> Price"

definition OrderManager_new :: OrderManager where
  "OrderManager_new = \<lparr> om_orders = (\<lambda>_. OMOrder_default), om_next_order_id = 1, om_hysteresis_ticks = (\<lambda>_. 0) \<rparr>"

definition om_store :: "om_ptr \<Rightarrow> OMOrder \<Rightarrow> OrderManager \<Rightarrow> OrderManager" where
  "om_store p order om = om\<lparr> om_orders := (om_orders om)(p := order) \<rparr>"

text \<open>\<open>ticker_side_order_.at(ticker_id).at(sideToIndex(side))\<close>.\<close>

definition om_at :: "TickerId \<Rightarrow> Side \<Rightarrow> om_ptr result" where
  "om_at ticker_id side =
     bindR (Prelude.at ME_MAX_TICKERS (unat ticker_id)) (\<lambda>t.
     bindR (Prelude.at (sideToIndex Side_MAX + 1) (sideToIndex side)) (\<lambda>s. Inr (t, s)))"

section \<open>Operations\<close>

text \<open>\<open>TradeEngine::sendClientRequest\<close>.\<close>

definition sendClientRequest :: "MEClientRequest \<Rightarrow> MEClientRequest LFQueue \<Rightarrow> MEClientRequest LFQueue" where
  "sendClientRequest client_request outgoing = lf_push outgoing client_request"

type_synonym om_state = "OrderManager \<times> MEClientRequest LFQueue"

definition om_onOrderUpdate :: "MEClientResponse \<Rightarrow> OrderManager \<Rightarrow> OrderManager result" where
  "om_onOrderUpdate r om =
     bindR (om_at (rsp_ticker_id r) (rsp_side r)) (\<lambda>p.
     let order = om_orders om p in
     Inr (case rsp_type r of
            ACCEPTED \<Rightarrow> om_store p (order\<lparr> oo_state := LIVE \<rparr>) om
          | CANCELED \<Rightarrow> om_store p (order\<lparr> oo_state := DEAD \<rparr>) om
          | FILLED \<Rightarrow>
              (let order1 = order\<lparr> oo_qty := rsp_leaves_qty r \<rparr> in
               om_store p (if oo_qty order1 = 0 then order1\<lparr> oo_state := DEAD \<rparr> else order1) om)
          | CANCEL_REJECTED \<Rightarrow> om
          | Rsp_INVALID \<Rightarrow> om))"

definition newOrder :: "ClientId \<Rightarrow> om_ptr \<Rightarrow> TickerId \<Rightarrow> Price \<Rightarrow> Side \<Rightarrow> Qty \<Rightarrow> om_state \<Rightarrow> om_state" where
  "newOrder client_id p ticker_id price side qty = (\<lambda>(om, out).
     (let new_request = \<lparr> req_type = Req_NEW, req_client_id = client_id, req_ticker_id = ticker_id,
            req_order_id = om_next_order_id om, req_side = side, req_price = price, req_qty = qty \<rparr>;
          out1 = sendClientRequest new_request out;
          om1 = om_store p \<lparr> oo_ticker_id = ticker_id, oo_order_id = om_next_order_id om, oo_side = side,
            oo_price = price, oo_qty = qty, oo_state = PENDING_NEW \<rparr> om in
      (om1\<lparr> om_next_order_id := om_next_order_id om1 + 1 \<rparr>, out1)))"

definition cancelOrder :: "ClientId \<Rightarrow> om_ptr \<Rightarrow> om_state \<Rightarrow> om_state" where
  "cancelOrder client_id p = (\<lambda>(om, out).
     (let order = om_orders om p;
          cancel_request = \<lparr> req_type = Req_CANCEL, req_client_id = client_id, req_ticker_id = oo_ticker_id order,
            req_order_id = oo_order_id order, req_side = oo_side order, req_price = oo_price order, req_qty = oo_qty order \<rparr>;
          out1 = sendClientRequest cancel_request out in
      (om_store p (order\<lparr> oo_state := PENDING_CANCEL \<rparr>) om, out1)))"

definition setHysteresisTicks :: "TickerId \<Rightarrow> Price \<Rightarrow> OrderManager \<Rightarrow> OrderManager result" where
  "setHysteresisTicks ticker_id ticks om =
     bindR (Prelude.at ME_MAX_TICKERS (unat ticker_id)) (\<lambda>t.
     Inr (om\<lparr> om_hysteresis_ticks := (om_hysteresis_ticks om)(t := ticks) \<rparr>))"

text \<open>How far a working order is from the price asked for.\<close>

definition requote_delta :: "Price \<Rightarrow> Price \<Rightarrow> Price result" where
  "requote_delta working price =
     (if price = Price_INVALID then Inr Price_INVALID else bindR (int64 (working - price)) (\<lambda>d. int64 \<bar>d\<bar>))"

definition moveOrder :: "ClientId \<Rightarrow> RiskManager \<Rightarrow> PositionKeeper \<Rightarrow> om_ptr \<Rightarrow> TickerId \<Rightarrow> Price \<Rightarrow> Side \<Rightarrow> Qty
    \<Rightarrow> om_state \<Rightarrow> om_state result" where
  "moveOrder client_id rm k p ticker_id price side qty = (\<lambda>(om, out).
     (let order = om_orders om p in
      case oo_state order of
        LIVE \<Rightarrow>
          bindR (requote_delta (oo_price order) price) (\<lambda>delta.
          bindR (Prelude.at ME_MAX_TICKERS (unat ticker_id)) (\<lambda>t.
          Inr (if delta > om_hysteresis_ticks om t then cancelOrder client_id p (om, out) else (om, out))))
      | PENDING_NEW \<Rightarrow> Inr (om, out)
      | PENDING_CANCEL \<Rightarrow> Inr (om, out)
      | _ \<Rightarrow>
          if price \<noteq> Price_INVALID
          then
            bindR (checkPreTradeRisk rm k ticker_id side qty) (\<lambda>risk_result.
            Inr (if risk_result = ALLOWED then newOrder client_id p ticker_id price side qty (om, out) else (om, out)))
          else Inr (om, out)))"

definition moveOrders :: "ClientId \<Rightarrow> RiskManager \<Rightarrow> PositionKeeper \<Rightarrow> TickerId \<Rightarrow> Price \<Rightarrow> Price \<Rightarrow> Qty
    \<Rightarrow> om_state \<Rightarrow> om_state result" where
  "moveOrders client_id rm k ticker_id bid ask clip s =
     bindR (om_at ticker_id BUY) (\<lambda>bid_order.
     bindR (moveOrder client_id rm k bid_order ticker_id bid BUY clip s) (\<lambda>s1.
     bindR (om_at ticker_id SELL) (\<lambda>ask_order.
     moveOrder client_id rm k ask_order ticker_id ask SELL clip s1)))"

definition cancel_if_live :: "ClientId \<Rightarrow> om_ptr \<Rightarrow> om_state \<Rightarrow> om_state" where
  "cancel_if_live client_id p s = (if oo_state (om_orders (fst s) p) = LIVE then cancelOrder client_id p s else s)"

definition cancelOrders :: "ClientId \<Rightarrow> TickerId \<Rightarrow> om_state \<Rightarrow> om_state result" where
  "cancelOrders client_id ticker_id =
     foldR (\<lambda>side s. bindR (om_at ticker_id side) (\<lambda>p. Inr (cancel_if_live client_id p s))) [BUY, SELL]"

definition getOMOrderSideHashMap :: "OrderManager \<Rightarrow> TickerId \<Rightarrow> (nat \<Rightarrow> OMOrder) result" where
  "getOMOrderSideHashMap om ticker_id =
     bindR (Prelude.at ME_MAX_TICKERS (unat ticker_id)) (\<lambda>t. Inr (\<lambda>s. om_orders om (t, s)))"

end
