(* ===== verification/Strategies.thy ===== *)
theory Strategies
  imports FeatureEngine OrderManager
begin

text \<open>
  \<^verbatim>\<open>trading/strategy/market_maker.h\<close>, \<^verbatim>\<open>market_maker.cpp\<close>, \<^verbatim>\<open>liquidity_taker.h\<close> and \<^verbatim>\<open>liquidity_taker.cpp\<close>: the two strategies. Both hold
  a copy of the configuration and pointers to the other parts of the engine, which are arguments here: the best bid and offer of the book, the feature
  engine, the position keeper with the risk manager, and the order manager with its queue, which they
  change. The time of \<open>getCurrentNanos\<close> is an argument too.
\<close>

record MarketMaker =
  mm_ticker_cfg :: "nat \<Rightarrow> TradeEngineCfg"
  mm_session_start_ns :: int

record LiquidityTaker =
  lt_ticker_cfg :: "nat \<Rightarrow> TradeEngineCfg"

definition MarketMaker_new :: "(nat \<Rightarrow> TradeEngineCfg) \<Rightarrow> int \<Rightarrow> MarketMaker" where
  "MarketMaker_new ticker_cfg now = \<lparr> mm_ticker_cfg = ticker_cfg, mm_session_start_ns = now \<rparr>"

definition LiquidityTaker_new :: "(nat \<Rightarrow> TradeEngineCfg) \<Rightarrow> LiquidityTaker" where
  "LiquidityTaker_new ticker_cfg = \<lparr> lt_ticker_cfg = ticker_cfg \<rparr>"

section \<open>The market maker\<close>

text \<open>\<open>x != Feature_INVALID\<close>: the comparison of the source, which holds for every value.\<close>

definition not_invalid :: "double \<Rightarrow> bool" where
  "not_invalid x \<longleftrightarrow> \<not> feq x Feature_INVALID"

definition vpin_toxic :: "fpenv \<Rightarrow> TradeEngineCfg \<Rightarrow> FeatureEngine \<Rightarrow> bool" where
  "vpin_toxic e cfg fe =
     (let vpin_now = (if cfg_use_vpin cfg then getVPIN e fe else NaN) in
      cfg_use_vpin cfg \<and> \<not> isnan vpin_now \<and> flt (cfg_vpin_threshold cfg) vpin_now)"

text \<open>The killswitch: too much order flow imbalance, or the micro-price too far from the mid price.\<close>

definition mm_kill :: "fpenv \<Rightarrow> TradeEngineCfg \<Rightarrow> FeatureEngine \<Rightarrow> BBO \<Rightarrow> bool result" where
  "mm_kill e cfg fe bbo =
     (if cfg_use_killswitch cfg
      then
        bindR (mid_price e bbo) (\<lambda>mid.
        let ofi_mag = fabs (fe_ofi fe);
            micro_gap = fabs (fsub e (fe_mkt_price fe) mid);
            scale = (\<lambda>x. if vpin_toxic e cfg fe then fmul e x (cfg_vpin_kill_scale cfg) else x) in
        Inr (flt (scale (cfg_killswitch_ofi cfg)) ofi_mag \<or> flt (scale (cfg_killswitch_micro_ticks cfg)) micro_gap))
      else Inr False)"

text \<open>Risk aversion, the remaining fraction of the session, and the Avellaneda-Stoikov reservation price and spread.\<close>

definition mm_gamma :: "fpenv \<Rightarrow> TradeEngineCfg \<Rightarrow> FeatureEngine \<Rightarrow> double" where
  "mm_gamma e cfg fe =
     (let sigma_long = fe_volatility_long fe in
      if cfg_use_regime_gamma cfg \<and> flt (Fin 1) (cfg_regime_gamma_scale cfg) \<and> not_invalid sigma_long \<and> flt (Fin 0) sigma_long
      then fmul e (cfg_gamma cfg)
             (fclamp (fdiv e (fe_volatility fe) sigma_long) (fdiv e (Fin 1) (cfg_regime_gamma_scale cfg)) (cfg_regime_gamma_scale cfg))
      else cfg_gamma cfg)"

definition mm_tau :: "fpenv \<Rightarrow> TradeEngineCfg \<Rightarrow> int \<Rightarrow> int \<Rightarrow> double result" where
  "mm_tau e cfg start now =
     bindR (int64 (now - start)) (\<lambda>elapsed_ns.
     let session_ns = fmul e (fmul e (cfg_session_hours cfg) (Fin 3600)) (Fin 1000000000) in
     Inr (fmax (fp_rnd e (1 / 1000)) (fdiv e (fsub e session_ns (d_of_int e elapsed_ns)) session_ns)))"

definition mm_variance :: "fpenv \<Rightarrow> double \<Rightarrow> double \<Rightarrow> double \<Rightarrow> double" where
  "mm_variance e x sigma tau = fmul e (fmul e (fmul e x sigma) sigma) tau"

definition mm_reservation :: "fpenv \<Rightarrow> TradeEngineCfg \<Rightarrow> FeatureEngine \<Rightarrow> double \<Rightarrow> double \<Rightarrow> double \<Rightarrow> double" where
  "mm_reservation e cfg fe q gamma tau =
     (let r = fsub e (fe_mkt_price fe) (mm_variance e (fmul e q gamma) (fe_volatility fe) tau) in
      if cfg_use_ofi cfg then fadd e r (fmul e (cfg_beta_ofi cfg) (fe_ofi fe)) else r)"

definition mm_spread :: "fpenv \<Rightarrow> TradeEngineCfg \<Rightarrow> FeatureEngine \<Rightarrow> double \<Rightarrow> double \<Rightarrow> double" where
  "mm_spread e cfg fe gamma tau =
     (let kappa = fmax (fp_rnd e (1 / 1000000)) (cfg_kappa cfg) in
      fadd e (mm_variance e gamma (fe_volatility fe) tau)
        (fmul e (fdiv e (Fin 2) gamma) (fp_log1p e (fdiv e gamma kappa))))"

text \<open>Widening of the two quotes by the order flow against them.\<close>

definition mm_widen :: "fpenv \<Rightarrow> TradeEngineCfg \<Rightarrow> FeatureEngine \<Rightarrow> double \<times> double" where
  "mm_widen e cfg fe =
     (let ofi_now = (if cfg_use_ofi cfg then fe_ofi fe else Fin 0);
          widen_k = (if vpin_toxic e cfg fe then fmul e (cfg_spread_widen_ofi cfg) (cfg_vpin_widen_mult cfg) else cfg_spread_widen_ofi cfg) in
      (fmul e widen_k (fmax (fneg ofi_now) (Fin 0)), fmul e widen_k (fmax ofi_now (Fin 0))))"

text \<open>Quotes that would cross the book are pulled back by one tick.\<close>

definition mm_uncross :: "BBO \<Rightarrow> Price \<Rightarrow> Price \<Rightarrow> (Price \<times> Price) result" where
  "mm_uncross bbo bid ask =
     bindR (if bid \<ge> ask_price bbo then int64 (ask_price bbo - 1) else Inr bid) (\<lambda>bid'.
     bindR (if ask \<le> bid_price bbo then int64 (bid_price bbo + 1) else Inr ask) (\<lambda>ask'.
     Inr (bid', ask')))"

definition mm_clip :: "fpenv \<Rightarrow> TradeEngineCfg \<Rightarrow> FeatureEngine \<Rightarrow> double \<Rightarrow> Qty result" where
  "mm_clip e cfg fe q =
     (if cfg_use_adaptive_clip cfg \<and> max_position (cfg_risk cfg) > 0
      then
        let inv_room = fmax (Fin 0) (fsub e (Fin 1) (fdiv e (fabs q) (d_of_qty e (max_position (cfg_risk cfg)))));
            sigma_scale = fclamp (fdiv e (cfg_sigma_ref cfg) (fe_volatility fe)) half (Fin (3 / 2));
            scaled = fround (fmul e (fmul e (d_of_qty e (cfg_clip cfg)) inv_room) sigma_scale) in
        d_to_u32 (fmax (Fin 1) scaled)
      else Inr (cfg_clip cfg))"

definition mm_as_quotes :: "fpenv \<Rightarrow> TradeEngineCfg \<Rightarrow> FeatureEngine \<Rightarrow> PositionInfo \<Rightarrow> int \<Rightarrow> int \<Rightarrow> BBO
    \<Rightarrow> (Price \<times> Price \<times> Qty) result" where
  "mm_as_quotes e cfg fe p start now bbo =
     (let q = d_of_int e (pi_position p);
          gamma = mm_gamma e cfg fe in
      bindR (mm_tau e cfg start now) (\<lambda>tau.
      let reservation = mm_reservation e cfg fe q gamma tau;
          spread = mm_spread e cfg fe gamma tau;
          (bid_widen, ask_widen) = mm_widen e cfg fe in
      bindR (d_to_int64 (ffloor (fsub e (fsub e reservation (fmul e half spread)) bid_widen))) (\<lambda>bid.
      bindR (d_to_int64 (fceil (fadd e (fadd e reservation (fmul e half spread)) ask_widen))) (\<lambda>ask.
      bindR (mm_uncross bbo bid ask) (\<lambda>(bid', ask').
      bindR (mm_clip e cfg fe q) (\<lambda>clip. Inr (bid', ask', clip)))))))"

text \<open>The quotes while the volatility is unknown, or when the model is not in use.\<close>

definition mm_threshold_quotes :: "fpenv \<Rightarrow> TradeEngineCfg \<Rightarrow> FeatureEngine \<Rightarrow> BBO \<Rightarrow> (Price \<times> Price \<times> Qty) result" where
  "mm_threshold_quotes e cfg fe bbo =
     (let bid_off = (if fle (cfg_threshold cfg) (fsub e (fe_mkt_price fe) (d_of_int e (bid_price bbo))) then 0 else 1);
          ask_off = (if fle (cfg_threshold cfg) (fsub e (d_of_int e (ask_price bbo)) (fe_mkt_price fe)) then 0 else 1) in
      bindR (int64 (bid_price bbo - bid_off)) (\<lambda>bid.
      bindR (int64 (ask_price bbo + ask_off)) (\<lambda>ask.
      Inr (bid, ask, cfg_clip cfg))))"

definition as_ready :: "TradeEngineCfg \<Rightarrow> FeatureEngine \<Rightarrow> bool" where
  "as_ready cfg fe \<longleftrightarrow> cfg_use_as cfg \<and> not_invalid (fe_volatility fe) \<and> flt (Fin 0) (fe_volatility fe)"

definition mm_quotes :: "fpenv \<Rightarrow> TradeEngineCfg \<Rightarrow> FeatureEngine \<Rightarrow> PositionInfo \<Rightarrow> int \<Rightarrow> int \<Rightarrow> BBO
    \<Rightarrow> (Price \<times> Price \<times> Qty) result" where
  "mm_quotes e cfg fe p start now bbo =
     (if as_ready cfg fe then mm_as_quotes e cfg fe p start now bbo else mm_threshold_quotes e cfg fe bbo)"

definition mm_onOrderBookUpdate :: "fpenv \<Rightarrow> MarketMaker \<Rightarrow> ClientId \<Rightarrow> RiskManager \<Rightarrow> FeatureEngine \<Rightarrow> PositionKeeper \<Rightarrow> int
    \<Rightarrow> TickerId \<Rightarrow> BBO \<Rightarrow> om_state \<Rightarrow> om_state result" where
  "mm_onOrderBookUpdate e mm client_id rm fe k now ticker_id bbo s =
     (if two_sided bbo \<and> not_invalid (fe_mkt_price fe)
      then
        bindR (Prelude.at ME_MAX_TICKERS (unat ticker_id)) (\<lambda>t.
        let cfg = mm_ticker_cfg mm t in
        bindR (mm_kill e cfg fe bbo) (\<lambda>kill.
        if kill then cancelOrders client_id ticker_id s
        else
          bindR (mm_quotes e cfg fe (pk_ticker_position k t) (mm_session_start_ns mm) now bbo) (\<lambda>(bid, ask, clip).
          moveOrders client_id rm k ticker_id bid ask clip s)))
      else Inr s)"

definition mm_onTradeUpdate :: "MEMarketUpdate \<Rightarrow> om_state \<Rightarrow> om_state result" where
  "mm_onTradeUpdate u s = Inr s"

definition mm_onOrderUpdate :: "MEClientResponse \<Rightarrow> om_state \<Rightarrow> om_state result" where
  "mm_onOrderUpdate r = (\<lambda>(om, out). bindR (om_onOrderUpdate r om) (\<lambda>om'. Inr (om', out)))"

section \<open>The liquidity taker\<close>

definition lt_onTradeUpdate :: "LiquidityTaker \<Rightarrow> ClientId \<Rightarrow> RiskManager \<Rightarrow> FeatureEngine \<Rightarrow> PositionKeeper
    \<Rightarrow> MEMarketUpdate \<Rightarrow> BBO \<Rightarrow> om_state \<Rightarrow> om_state result" where
  "lt_onTradeUpdate lt client_id rm fe k u bbo s =
     (if two_sided bbo \<and> not_invalid (fe_agg_trade_qty_ratio fe)
      then
        bindR (Prelude.at ME_MAX_TICKERS (unat (mu_ticker_id u))) (\<lambda>t.
        let cfg = lt_ticker_cfg lt t in
        if fle (cfg_threshold cfg) (fe_agg_trade_qty_ratio fe)
        then
          (if mu_side u = BUY
           then moveOrders client_id rm k (mu_ticker_id u) (ask_price bbo) Price_INVALID (cfg_clip cfg) s
           else moveOrders client_id rm k (mu_ticker_id u) Price_INVALID (bid_price bbo) (cfg_clip cfg) s)
        else Inr s)
      else Inr s)"

definition lt_onOrderBookUpdate :: "om_state \<Rightarrow> om_state result" where
  "lt_onOrderBookUpdate s = Inr s"

definition lt_onOrderUpdate :: "MEClientResponse \<Rightarrow> om_state \<Rightarrow> om_state result" where
  "lt_onOrderUpdate r = (\<lambda>(om, out). bindR (om_onOrderUpdate r om) (\<lambda>om'. Inr (om', out)))"

section \<open>Quotes do not cross the book\<close>

lemma not_invalid_always [simp]: "not_invalid x"
  by (simp add: not_invalid_def Feature_INVALID_def nan_never_equal)

lemma mm_uncross_passive:
  "mm_uncross bbo bid ask = Inr (bid', ask') \<Longrightarrow> bid' < ask_price bbo \<and> bid_price bbo < ask'"
  by (auto simp: mm_uncross_def result_simps split: if_splits)

lemma mm_quotes_passive:
  assumes "mm_quotes e cfg fe p start now bbo = Inr (bid, ask, clip)" and "bid_price bbo < ask_price bbo"
  shows "bid < ask_price bbo \<and> bid_price bbo < ask"
proof (cases "as_ready cfg fe")
  case True
  then obtain b a where "mm_uncross bbo b a = Inr (bid, ask)"
    using assms(1) by (cases "mm_widen e cfg fe") (auto simp: mm_quotes_def mm_as_quotes_def Let_def result_simps)
  then show ?thesis by (rule mm_uncross_passive)
next
  case False
  then show ?thesis
    using assms by (auto simp: mm_quotes_def mm_threshold_quotes_def Let_def result_simps split: if_splits)
qed

end
