(* ===== verification/TradeEngine.thy ===== *)
theory TradeEngine
  imports Strategies
begin

text \<open>
  \<^verbatim>\<open>trading/strategy/trade_engine.h\<close> and \<^verbatim>\<open>trade_engine.cpp\<close>: the thread that turns market updates and responses into requests. The
  two strategy pointers, of which at most one is set, are a value of \<open>algo\<close>. The clock is the parameter \<open>clock\<close>, the sequence of what
  \<open>getCurrentNanos\<close> returns; each event of the main loop takes two readings, one for the strategy and one for \<open>last_event_time_\<close>,
  and \<open>te_events\<close> counts the events so far.
\<close>

datatype algo = NoAlgo | Maker MarketMaker | Taker LiquidityTaker

record TradeEngine =
  te_client_id :: ClientId
  te_outgoing_ogw_requests :: "MEClientRequest LFQueue"
  te_incoming_ogw_responses :: "MEClientResponse LFQueue"
  te_incoming_md_updates :: "MEMarketUpdate LFQueue"
  te_last_event_time :: int
  te_run :: bool
  te_ticker_order_book :: "nat \<Rightarrow> MarketOrderBook"
  te_feature_engine :: FeatureEngine
  te_position_keeper :: PositionKeeper
  te_risk_manager :: RiskManager
  te_order_manager :: OrderManager
  te_algo :: algo
  te_events :: nat

text \<open>
  The constructor, with the storage it leaves uninitialised as arguments: the open notionals of the positions and the
  pointer arrays of the books.
\<close>

definition TradeEngine_new :: "(nat \<Rightarrow> nat \<Rightarrow> double) \<Rightarrow> (nat \<Rightarrow> nat \<Rightarrow> ptr) \<Rightarrow> (nat \<Rightarrow> nat \<Rightarrow> ptr) \<Rightarrow> int \<Rightarrow> ClientId \<Rightarrow> AlgoType
    \<Rightarrow> (nat \<Rightarrow> TradeEngineCfg) \<Rightarrow> MEClientRequest LFQueue \<Rightarrow> MEClientResponse LFQueue \<Rightarrow> MEMarketUpdate LFQueue
    \<Rightarrow> TradeEngine result" where
  "TradeEngine_new vwaps ids levels now client_id algo_type ticker_cfg client_requests client_responses market_updates =
     bindR (foldR (\<lambda>i. setHysteresisTicks (of_nat i) (cfg_hysteresis_ticks (ticker_cfg i))) [0..<ME_MAX_TICKERS] OrderManager_new) (\<lambda>om.
     Inr \<lparr> te_client_id = client_id, te_outgoing_ogw_requests = client_requests, te_incoming_ogw_responses = client_responses,
       te_incoming_md_updates = market_updates, te_last_event_time = 0, te_run = False,
       te_ticker_order_book = (\<lambda>i. MarketOrderBook_new (of_nat i) (ids i) (levels i)),
       te_feature_engine = FeatureEngine_new (ticker_cfg 0),
       te_position_keeper = PositionKeeper_new (Some ticker_cfg) vwaps,
       te_risk_manager = RiskManager_new ticker_cfg, te_order_manager = om,
       te_algo = (if algo_type = Algo_MAKER then Maker (MarketMaker_new ticker_cfg now)
                  else if algo_type = Algo_TAKER then Taker (LiquidityTaker_new ticker_cfg) else NoAlgo),
       te_events = 0 \<rparr>)"

definition te_start :: "TradeEngine \<Rightarrow> TradeEngine" where
  "te_start te = te\<lparr> te_run := True \<rparr>"

text \<open>\<open>stop\<close> returns once both incoming queues are empty; until then it sleeps and looks again.\<close>

definition te_stop :: "TradeEngine \<Rightarrow> TradeEngine option" where
  "te_stop te =
     (if lf_size (te_incoming_ogw_responses te) \<noteq> 0 \<or> lf_size (te_incoming_md_updates te) \<noteq> 0 then None
      else Some (te\<lparr> te_run := False \<rparr>))"

definition initLastEventTime :: "int \<Rightarrow> TradeEngine \<Rightarrow> TradeEngine" where
  "initLastEventTime now te = te\<lparr> te_last_event_time := now \<rparr>"

text \<open>\<open>NANOS_TO_SECS\<close> is \<open>10 ^ 9\<close>; the quotient of \<open>int64_t\<close> values truncates.\<close>

definition silentSeconds :: "int \<Rightarrow> TradeEngine \<Rightarrow> int result" where
  "silentSeconds now te =
     bindR (int64 (now - te_last_event_time te)) (\<lambda>d. Inr (if d < 0 then - ((- d) div 10 ^ 9) else d div 10 ^ 9))"

section \<open>Dispatch to the strategy\<close>

text \<open>A call that changes only the order manager and the requests it sends.\<close>

definition with_orders :: "(om_state \<Rightarrow> om_state result) \<Rightarrow> TradeEngine \<Rightarrow> TradeEngine result" where
  "with_orders f te =
     bindR (f (te_order_manager te, te_outgoing_ogw_requests te)) (\<lambda>(om, out).
     Inr (te\<lparr> te_order_manager := om, te_outgoing_ogw_requests := out \<rparr>))"

definition dispatchOnOrderBookUpdate :: "fpenv \<Rightarrow> int \<Rightarrow> TickerId \<Rightarrow> BBO \<Rightarrow> TradeEngine \<Rightarrow> TradeEngine result" where
  "dispatchOnOrderBookUpdate e now ticker_id bbo te =
     with_orders
       (case te_algo te of
          Maker mm \<Rightarrow> mm_onOrderBookUpdate e mm (te_client_id te) (te_risk_manager te) (te_feature_engine te)
                        (te_position_keeper te) now ticker_id bbo
        | Taker lt \<Rightarrow> lt_onOrderBookUpdate
        | NoAlgo \<Rightarrow> Inr) te"

definition dispatchOnTradeUpdate :: "MEMarketUpdate \<Rightarrow> BBO \<Rightarrow> TradeEngine \<Rightarrow> TradeEngine result" where
  "dispatchOnTradeUpdate u bbo te =
     with_orders
       (case te_algo te of
          Maker mm \<Rightarrow> mm_onTradeUpdate u
        | Taker lt \<Rightarrow> lt_onTradeUpdate lt (te_client_id te) (te_risk_manager te) (te_feature_engine te) (te_position_keeper te) u bbo
        | NoAlgo \<Rightarrow> Inr) te"

definition dispatchOnOrderUpdate :: "MEClientResponse \<Rightarrow> TradeEngine \<Rightarrow> TradeEngine result" where
  "dispatchOnOrderUpdate r te =
     with_orders (case te_algo te of Maker mm \<Rightarrow> mm_onOrderUpdate r | Taker lt \<Rightarrow> lt_onOrderUpdate r | NoAlgo \<Rightarrow> Inr) te"

section \<open>Events\<close>

definition te_onOrderBookUpdate :: "fpenv \<Rightarrow> int \<Rightarrow> TickerId \<Rightarrow> BBO \<Rightarrow> TradeEngine \<Rightarrow> TradeEngine result" where
  "te_onOrderBookUpdate e now ticker_id bbo te =
     bindR (pk_updateBBO e ticker_id bbo (te_position_keeper te)) (\<lambda>k.
     bindR (fe_onOrderBookUpdate e bbo (te_feature_engine te)) (\<lambda>fe.
     dispatchOnOrderBookUpdate e now ticker_id bbo (te\<lparr> te_position_keeper := k, te_feature_engine := fe \<rparr>)))"

definition te_onTradeUpdate :: "fpenv \<Rightarrow> MEMarketUpdate \<Rightarrow> BBO \<Rightarrow> TradeEngine \<Rightarrow> TradeEngine result" where
  "te_onTradeUpdate e u bbo te =
     bindR (fe_onTradeUpdate e u bbo (te_feature_engine te)) (\<lambda>fe.
     dispatchOnTradeUpdate u bbo (te\<lparr> te_feature_engine := fe \<rparr>))"

definition te_onOrderUpdate :: "fpenv \<Rightarrow> MEClientResponse \<Rightarrow> TradeEngine \<Rightarrow> TradeEngine result" where
  "te_onOrderUpdate e r te =
     bindR (if rsp_type r = FILLED
            then bindR (pk_addFill e r (te_position_keeper te)) (\<lambda>k. Inr (te\<lparr> te_position_keeper := k \<rparr>)) else Inr te) (\<lambda>te1.
     dispatchOnOrderUpdate r te1)"

text \<open>An update of the book of its ticker, and what the book calls, with the best bid and offer of that moment.\<close>

fun te_callback :: "fpenv \<Rightarrow> int \<Rightarrow> BBO \<Rightarrow> callback \<Rightarrow> TradeEngine \<Rightarrow> TradeEngine result" where
  "te_callback e now bbo (OnTradeUpdate u) te = te_onTradeUpdate e u bbo te"
| "te_callback e now bbo (OnOrderBookUpdate ticker_id price side) te = te_onOrderBookUpdate e now ticker_id bbo te"

definition te_deliver :: "fpenv \<Rightarrow> int \<Rightarrow> MEMarketUpdate \<Rightarrow> TradeEngine \<Rightarrow> TradeEngine result" where
  "te_deliver e now u te =
     (let t = unat (mu_ticker_id u) in
      bindR (onMarketUpdate (te_ticker_order_book te t) u) (\<lambda>(book, calls).
      foldR (te_callback e now (mb_bbo book)) calls (te\<lparr> te_ticker_order_book := (te_ticker_order_book te)(t := book) \<rparr>)))"

definition te_market_update :: "fpenv \<Rightarrow> int \<Rightarrow> MEMarketUpdate \<Rightarrow> TradeEngine \<Rightarrow> TradeEngine result" where
  "te_market_update e now u te =
     bindR (ASSERT (unat (mu_ticker_id u) < ME_MAX_TICKERS) ''Unknown ticker-id on update:'') (\<lambda>_. te_deliver e now u te)"

definition te_tick :: "(nat \<Rightarrow> int) \<Rightarrow> TradeEngine \<Rightarrow> TradeEngine" where
  "te_tick clock te = te\<lparr> te_last_event_time := clock (2 * te_events te + 1), te_events := te_events te + 1 \<rparr>"

text \<open>
  One round of \<open>run\<close>: all responses, then all market updates. The read index moves after the event is handled.
  The fuel bounds the number of elements a round takes; what is in the queues is enough when nothing arrives meanwhile.
\<close>

fun te_responses :: "nat \<Rightarrow> fpenv \<Rightarrow> (nat \<Rightarrow> int) \<Rightarrow> TradeEngine \<Rightarrow> TradeEngine result" where
  "te_responses fuel e clock te =
     (case getNextToRead (te_incoming_ogw_responses te) of
        None \<Rightarrow> Inr te
      | Some r \<Rightarrow>
          (case fuel of
             0 \<Rightarrow> Inl OutOfFuel
           | Suc fuel' \<Rightarrow>
               bindR (te_onOrderUpdate e r te) (\<lambda>te1.
               bindR (updateReadIndex (te_incoming_ogw_responses te1)) (\<lambda>q.
               te_responses fuel' e clock (te_tick clock (te1\<lparr> te_incoming_ogw_responses := q \<rparr>))))))"

declare te_responses.simps [simp del]

fun te_updates :: "nat \<Rightarrow> fpenv \<Rightarrow> (nat \<Rightarrow> int) \<Rightarrow> TradeEngine \<Rightarrow> TradeEngine result" where
  "te_updates fuel e clock te =
     (case getNextToRead (te_incoming_md_updates te) of
        None \<Rightarrow> Inr te
      | Some u \<Rightarrow>
          (case fuel of
             0 \<Rightarrow> Inl OutOfFuel
           | Suc fuel' \<Rightarrow>
               bindR (te_market_update e (clock (2 * te_events te)) u te) (\<lambda>te1.
               bindR (updateReadIndex (te_incoming_md_updates te1)) (\<lambda>q.
               te_updates fuel' e clock (te_tick clock (te1\<lparr> te_incoming_md_updates := q \<rparr>))))))"

declare te_updates.simps [simp del]

definition te_round :: "fpenv \<Rightarrow> (nat \<Rightarrow> int) \<Rightarrow> TradeEngine \<Rightarrow> TradeEngine result" where
  "te_round e clock te =
     bindR (te_responses (lf_size (te_incoming_ogw_responses te)) e clock te) (\<lambda>te1.
     te_updates (lf_size (te_incoming_md_updates te1)) e clock te1)"

end
