(* ===== verification/OrderActions.thy ===== *)
theory OrderActions
  imports TradeEngine
begin

text \<open>
  What the strategies may do to the order manager, as a step relation: cancel an order that is live, or, at a place that holds no working
  order, send a new order that the risk manager allows. Every operation of the order manager and every event of
  the trade engine is a sequence of such actions; invariants of the working orders are shown for the actions.
\<close>

section \<open>Actions\<close>

definition new_request :: "ClientId \<Rightarrow> OrderManager \<Rightarrow> TickerId \<Rightarrow> Price \<Rightarrow> Side \<Rightarrow> Qty \<Rightarrow> MEClientRequest" where
  "new_request client_id om ticker_id price side qty =
     \<lparr> req_type = Req_NEW, req_client_id = client_id, req_ticker_id = ticker_id, req_order_id = om_next_order_id om,
       req_side = side, req_price = price, req_qty = qty \<rparr>"

definition cancel_request :: "ClientId \<Rightarrow> OMOrder \<Rightarrow> MEClientRequest" where
  "cancel_request client_id order =
     \<lparr> req_type = Req_CANCEL, req_client_id = client_id, req_ticker_id = oo_ticker_id order, req_order_id = oo_order_id order,
       req_side = oo_side order, req_price = oo_price order, req_qty = oo_qty order \<rparr>"

definition working :: "OMOrder \<Rightarrow> bool" where
  "working order \<longleftrightarrow> oo_state order = PENDING_NEW \<or> oo_state order = LIVE \<or> oo_state order = PENDING_CANCEL"

lemma not_working: "\<not> working order \<longleftrightarrow> oo_state order = OM_INVALID \<or> oo_state order = DEAD"
  by (cases "oo_state order") (simp_all add: working_def)

text \<open>The actions of one call; the last argument of the relation but one is what was sent.\<close>

inductive om_acts :: "ClientId \<Rightarrow> RiskManager \<Rightarrow> PositionKeeper \<Rightarrow> om_state \<Rightarrow> MEClientRequest list \<Rightarrow> om_state \<Rightarrow> bool"
  for client_id rm k s where
    none: "om_acts client_id rm k s [] s"
  | cancel: "om_acts client_id rm k s rs (om, out) \<Longrightarrow> oo_state (om_orders om p) = LIVE \<Longrightarrow>
      om_acts client_id rm k s (rs @ [cancel_request client_id (om_orders om p)]) (cancelOrder client_id p (om, out))"
  | new: "om_acts client_id rm k s rs (om, out) \<Longrightarrow> om_at ticker_id side = Inr p \<Longrightarrow> side = BUY \<or> side = SELL \<Longrightarrow>
      \<not> working (om_orders om p) \<Longrightarrow> price \<noteq> Price_INVALID \<Longrightarrow>
      checkPreTradeRisk rm k ticker_id side qty = Inr ALLOWED \<Longrightarrow>
      om_acts client_id rm k s (rs @ [new_request client_id om ticker_id price side qty])
        (newOrder client_id p ticker_id price side qty (om, out))"

lemma om_acts_trans:
  "om_acts client_id rm k s2 rs' s3 \<Longrightarrow> om_acts client_id rm k s1 rs s2 \<Longrightarrow> om_acts client_id rm k s1 (rs @ rs') s3"
proof (induction rule: om_acts.induct)
  case (cancel rs om out p)
  then show ?case using om_acts.cancel[OF cancel.IH[OF cancel.prems]] by simp
next
  case (new rs om out ticker_id side p price qty)
  then show ?case using om_acts.new[OF new.IH[OF new.prems]] by simp
qed simp

lemma newOrder_simps [simp]:
  "fst (newOrder client_id p ticker_id price side qty (om, out)) =
     om\<lparr> om_orders := (om_orders om)(p := \<lparr> oo_ticker_id = ticker_id, oo_order_id = om_next_order_id om, oo_side = side,
            oo_price = price, oo_qty = qty, oo_state = PENDING_NEW \<rparr>),
         om_next_order_id := om_next_order_id om + 1 \<rparr>"
  "snd (newOrder client_id p ticker_id price side qty (om, out)) = lf_push out (new_request client_id om ticker_id price side qty)"
  by (simp_all add: newOrder_def om_store_def sendClientRequest_def new_request_def Let_def)

lemma cancelOrder_simps [simp]:
  "fst (cancelOrder client_id p (om, out)) =
     om\<lparr> om_orders := (om_orders om)(p := (om_orders om p)\<lparr> oo_state := PENDING_CANCEL \<rparr>) \<rparr>"
  "snd (cancelOrder client_id p (om, out)) = lf_push out (cancel_request client_id (om_orders om p))"
  by (simp_all add: cancelOrder_def om_store_def sendClientRequest_def cancel_request_def Let_def)

text \<open>What was sent is on the queue, in order.\<close>

lemma om_acts_queue: "om_acts client_id rm k s rs s' \<Longrightarrow> snd s' = foldl lf_push (snd s) rs"
  by (induction rule: om_acts.induct) simp_all

section \<open>The operations are actions\<close>

lemma moveOrder_acts:
  assumes "moveOrder client_id rm k p ticker_id price side qty s = Inr s'" and "om_at ticker_id side = Inr p"
    and "side = BUY \<or> side = SELL"
  shows "\<exists>rs. om_acts client_id rm k s rs s' \<and> length rs \<le> 1
     \<and> (\<forall>r \<in> set rs. req_type r = Req_NEW \<longrightarrow> req_ticker_id r = ticker_id \<and> req_side r = side \<and> req_price r = price \<and> req_qty r = qty)"
proof -
  obtain om out where s: "s = (om, out)" by (cases s)
  have none: "om_acts client_id rm k s [] s" by (rule om_acts.none)
  consider "s' = s" | "oo_state (om_orders om p) = LIVE" "s' = cancelOrder client_id p (om, out)"
    | "\<not> working (om_orders om p)" "price \<noteq> Price_INVALID" "checkPreTradeRisk rm k ticker_id side qty = Inr ALLOWED"
      "s' = newOrder client_id p ticker_id price side qty (om, out)"
    using assms(1) s by (cases "oo_state (om_orders om p)") (auto simp: moveOrder_def working_def Let_def result_simps split: if_splits)
  then show ?thesis
  proof cases
    case 1
    then show ?thesis using none by (intro exI[of _ "[]"]) simp
  next
    case 2
    then show ?thesis using om_acts.cancel[OF none[unfolded s] 2(1)] s
      by (intro exI[of _ "[cancel_request client_id (om_orders om p)]"]) (simp add: cancel_request_def)
  next
    case 3
    then show ?thesis using om_acts.new[OF none[unfolded s] assms(2,3) 3(1-3)] s
      by (intro exI[of _ "[new_request client_id om ticker_id price side qty]"]) (simp add: new_request_def)
  qed
qed

lemma moveOrders_acts:
  assumes "moveOrders client_id rm k ticker_id bid ask clip s = Inr s'"
  shows "\<exists>rs. om_acts client_id rm k s rs s' \<and> length rs \<le> 2
     \<and> (\<forall>r \<in> set rs. req_type r = Req_NEW \<longrightarrow> req_ticker_id r = ticker_id \<and> req_qty r = clip
          \<and> (req_side r = BUY \<and> req_price r = bid \<or> req_side r = SELL \<and> req_price r = ask))"
proof -
  obtain p1 s1 p2 where m: "om_at ticker_id BUY = Inr p1" "moveOrder client_id rm k p1 ticker_id bid BUY clip s = Inr s1"
      "om_at ticker_id SELL = Inr p2" "moveOrder client_id rm k p2 ticker_id ask SELL clip s1 = Inr s'"
    using assms by (auto simp: moveOrders_def result_simps)
  obtain rs1 where rs1: "om_acts client_id rm k s rs1 s1" "length rs1 \<le> 1"
      "\<forall>r \<in> set rs1. req_type r = Req_NEW \<longrightarrow> req_ticker_id r = ticker_id \<and> req_side r = BUY \<and> req_price r = bid \<and> req_qty r = clip"
    using moveOrder_acts[OF m(2,1)] by blast
  obtain rs2 where rs2: "om_acts client_id rm k s1 rs2 s'" "length rs2 \<le> 1"
      "\<forall>r \<in> set rs2. req_type r = Req_NEW \<longrightarrow> req_ticker_id r = ticker_id \<and> req_side r = SELL \<and> req_price r = ask \<and> req_qty r = clip"
    using moveOrder_acts[OF m(4,3)] by blast
  show ?thesis using om_acts_trans[OF rs2(1) rs1(1)] rs1(2,3) rs2(2,3) by (intro exI[of _ "rs1 @ rs2"]) auto
qed

text \<open>\<open>cancelOrders\<close> sends cancels only, and leaves no live order of the ticker.\<close>

definition pulled :: "om_state \<Rightarrow> om_ptr \<Rightarrow> om_state \<Rightarrow> bool" where
  "pulled s p s' \<longleftrightarrow> oo_state (om_orders (fst s') p) \<noteq> LIVE \<and> (\<forall>q. q \<noteq> p \<longrightarrow> om_orders (fst s') q = om_orders (fst s) q)"

lemma cancel_if_live_acts:
  "\<exists>rs. om_acts client_id rm k s rs (cancel_if_live client_id p s) \<and> length rs \<le> 1 \<and> (\<forall>r \<in> set rs. req_type r = Req_CANCEL)
     \<and> pulled s p (cancel_if_live client_id p s)"
proof -
  obtain om out where s: "s = (om, out)" by (cases s)
  show ?thesis
  proof (cases "oo_state (om_orders om p) = LIVE")
    case True
    then show ?thesis using om_acts.cancel[OF om_acts.none True, of client_id rm k out] s
      by (intro exI[of _ "[cancel_request client_id (om_orders om p)]"]) (simp add: cancel_if_live_def cancel_request_def pulled_def)
  next
    case False
    then show ?thesis using s om_acts.none by (intro exI[of _ "[]"]) (simp add: cancel_if_live_def pulled_def)
  qed
qed

lemma cancelOrders_acts:
  assumes "cancelOrders client_id ticker_id s = Inr s'"
  shows "\<exists>rs. om_acts client_id rm k s rs s' \<and> length rs \<le> 2 \<and> (\<forall>r \<in> set rs. req_type r = Req_CANCEL)
     \<and> oo_state (om_orders (fst s') (unat ticker_id, 2)) \<noteq> LIVE \<and> oo_state (om_orders (fst s') (unat ticker_id, 0)) \<noteq> LIVE"
proof -
  let ?b = "(unat ticker_id, 2)" and ?a = "(unat ticker_id, 0)"
  define s1 where "s1 = cancel_if_live client_id ?b s"
  have s': "s' = cancel_if_live client_id ?a s1" using assms by (auto simp: cancelOrders_def om_at_def s1_def result_simps)
  obtain rs1 where rs1: "om_acts client_id rm k s rs1 s1" "length rs1 \<le> 1" "\<forall>r \<in> set rs1. req_type r = Req_CANCEL" "pulled s ?b s1"
    unfolding s1_def using cancel_if_live_acts by blast
  obtain rs2 where rs2: "om_acts client_id rm k s1 rs2 s'" "length rs2 \<le> 1" "\<forall>r \<in> set rs2. req_type r = Req_CANCEL" "pulled s1 ?a s'"
    unfolding s' using cancel_if_live_acts by blast
  show ?thesis
    using om_acts_trans[OF rs2(1) rs1(1)] rs1(2,3,4) rs2(2,3,4) by (intro exI[of _ "rs1 @ rs2"]) (auto simp: pulled_def)
qed

lemma mm_onOrderBookUpdate_acts:
  assumes "mm_onOrderBookUpdate e mm client_id rm fe k now ticker_id bbo s = Inr s'"
  shows "\<exists>rs. om_acts client_id rm k s rs s' \<and> length rs \<le> 2
     \<and> (bid_price bbo < ask_price bbo \<longrightarrow> (\<forall>r \<in> set rs. req_type r = Req_NEW \<longrightarrow>
          req_side r = BUY \<and> req_price r < ask_price bbo \<or> req_side r = SELL \<and> bid_price bbo < req_price r))"
proof (cases "two_sided bbo")
  case True
  let ?cfg = "mm_ticker_cfg mm (unat ticker_id)"
  obtain kill where kill: "mm_kill e ?cfg fe bbo = Inr kill"
    and rest: "(if kill then cancelOrders client_id ticker_id s
          else bindR (mm_quotes e ?cfg fe (pk_ticker_position k (unat ticker_id)) (mm_session_start_ns mm) now bbo) (\<lambda>(bid, ask, clip).
            moveOrders client_id rm k ticker_id bid ask clip s)) = Inr s'"
    using assms True by (auto simp: mm_onOrderBookUpdate_def Let_def result_simps simp del: if_split split del: if_split)
  show ?thesis
  proof (cases kill)
    case True
    then have "cancelOrders client_id ticker_id s = Inr s'" using rest by simp
    then obtain rs where "om_acts client_id rm k s rs s'" "length rs \<le> 2" "\<forall>r \<in> set rs. req_type r = Req_CANCEL"
      using cancelOrders_acts by blast
    then show ?thesis by (intro exI[of _ rs]) auto
  next
    case False
    then obtain bid ask clip where
      q: "mm_quotes e ?cfg fe (pk_ticker_position k (unat ticker_id)) (mm_session_start_ns mm) now bbo = Inr (bid, ask, clip)"
      and m: "moveOrders client_id rm k ticker_id bid ask clip s = Inr s'"
      using rest by (auto simp: result_simps)
    obtain rs where rs: "om_acts client_id rm k s rs s'" "length rs \<le> 2" "\<forall>r \<in> set rs. req_type r = Req_NEW \<longrightarrow> req_ticker_id r = ticker_id \<and> req_qty r = clip
          \<and> (req_side r = BUY \<and> req_price r = bid \<or> req_side r = SELL \<and> req_price r = ask)"
      using moveOrders_acts[OF m] by blast
    show ?thesis using rs mm_quotes_passive[OF q] by (intro exI[of _ rs]) auto
  qed
next
  case False
  then show ?thesis using assms om_acts.none by (intro exI[of _ "[]"]) (auto simp: mm_onOrderBookUpdate_def)
qed

lemma lt_onTradeUpdate_acts:
  assumes "lt_onTradeUpdate lt client_id rm fe k u bbo s = Inr s'"
  shows "\<exists>rs. om_acts client_id rm k s rs s' \<and> length rs \<le> 2"
proof -
  have "s' = s \<or> (\<exists>bid ask clip. moveOrders client_id rm k (mu_ticker_id u) bid ask clip s = Inr s')"
  proof (cases "two_sided bbo")
    case True
    then obtain t where "Prelude.at ME_MAX_TICKERS (unat (mu_ticker_id u)) = Inr t"
      using assms by (auto simp: lt_onTradeUpdate_def bindR_eq_Inr simp del: if_split split del: if_split)
    then show ?thesis using assms True by (auto simp: lt_onTradeUpdate_def Let_def split: if_split_asm)
  next
    case False
    then show ?thesis using assms by (simp add: lt_onTradeUpdate_def)
  qed
  then show ?thesis
  proof
    assume "s' = s"
    then show ?thesis using om_acts.none by (intro exI[of _ "[]"]) simp
  next
    assume "\<exists>bid ask clip. moveOrders client_id rm k (mu_ticker_id u) bid ask clip s = Inr s'"
    then show ?thesis using moveOrders_acts by blast
  qed
qed

end
