(* ===== verification/TradingRuns.thy ===== *)
theory TradingRuns
  imports OrderActions
begin

text \<open>
  Runs of the trade engine: any interleaving of responses, market updates and reads of the outgoing queue by the gateway, with the
  log of all requests that were sent. The events are shown to be actions on the order manager, and the
  properties of the log and of the position are invariants of the runs.
\<close>

section \<open>What a call put on the queue\<close>

definition sent :: "'a LFQueue \<Rightarrow> 'a LFQueue \<Rightarrow> 'a list" where
  "sent q q' = map (\<lambda>i. lf_store q' ((next_write_index q + i) mod lf_capacity q)) [0..<num_elements q' - num_elements q]"

lemma lf_push_fields:
  "num_elements (lf_push q x) = num_elements q + 1"
  "next_write_index (lf_push q x) = (next_write_index q + 1) mod lf_capacity q"
  "lf_store (lf_push q x) = (lf_store q)(next_write_index q := x)"
  by (simp_all add: lf_push_def updateWriteIndex_def getNextToWriteTo_def)

lemma pushes_fields:
  "num_elements (foldl lf_push q xs) = num_elements q + length xs \<and> lf_capacity (foldl lf_push q xs) = lf_capacity q
   \<and> (next_write_index q < lf_capacity q \<longrightarrow>
        next_write_index (foldl lf_push q xs) = (next_write_index q + length xs) mod lf_capacity q)"
  by (induction xs rule: rev_induct) (simp_all add: lf_push_fields mod_Suc_eq)

lemma sent_pushes:
  assumes "next_write_index q < lf_capacity q" and "length xs \<le> lf_capacity q"
  shows "sent q (foldl lf_push q xs) = xs"
  using assms(2)
proof (induction xs rule: rev_induct)
  case (snoc x xs)
  let ?q = "foldl lf_push q xs" and ?n = "lf_capacity q" and ?w = "next_write_index q"
  have n: "num_elements ?q = num_elements q + length xs" "lf_capacity ?q = ?n" "next_write_index ?q = (?w + length xs) mod ?n"
    using pushes_fields[of q xs] assms(1) by simp_all
  have other: "(?w + i) mod ?n \<noteq> (?w + length xs) mod ?n" if "i < length xs" for i
    using mod_add_inj[of ?w i ?n "length xs"] that snoc.prems by auto
  have "map (\<lambda>i. lf_store (lf_push ?q x) ((?w + i) mod ?n)) [0..<length xs] = map (\<lambda>i. lf_store ?q ((?w + i) mod ?n)) [0..<length xs]"
    using other by (simp add: lf_push_fields n)
  also have "\<dots> = xs" using snoc n by (simp add: sent_def)
  finally show ?case by (simp add: sent_def lf_push_fields n)
qed (simp add: sent_def)

section \<open>Events are actions\<close>

text \<open>The parts of the engine that events other than fills leave alone.\<close>

definition same_frame :: "TradeEngine \<Rightarrow> TradeEngine \<Rightarrow> bool" where
  "same_frame te te' \<longleftrightarrow> te_client_id te' = te_client_id te \<and> te_risk_manager te' = te_risk_manager te \<and> te_algo te' = te_algo te
     \<and> te_incoming_ogw_responses te' = te_incoming_ogw_responses te"

definition same_positions :: "PositionKeeper \<Rightarrow> PositionKeeper \<Rightarrow> bool" where
  "same_positions k k' \<longleftrightarrow> (\<forall>t. pi_position (pk_ticker_position k' t) = pi_position (pk_ticker_position k t))"

lemma pk_updateBBO_positions: "pk_updateBBO e ticker_id bbo k = Inr k' \<Longrightarrow> same_positions k k'"
  by (auto simp: pk_updateBBO_def pi_updateBBO_def same_positions_def Let_def result_simps split: if_splits)

definition te_acts :: "TradeEngine \<Rightarrow> MEClientRequest list \<Rightarrow> TradeEngine \<Rightarrow> bool" where
  "te_acts te rs te' \<longleftrightarrow> same_frame te te' \<and> length rs \<le> 2 \<and> same_positions (te_position_keeper te) (te_position_keeper te')
     \<and> om_acts (te_client_id te) (te_risk_manager te) (te_position_keeper te') (te_order_manager te, te_outgoing_ogw_requests te) rs
         (te_order_manager te', te_outgoing_ogw_requests te')
     \<and> (te_algo te = NoAlgo \<longrightarrow> rs = [])"

lemma with_orders_eq:
  "with_orders f te = Inr te' \<longleftrightarrow> (\<exists>om out. f (te_order_manager te, te_outgoing_ogw_requests te) = Inr (om, out)
     \<and> te' = te\<lparr> te_order_manager := om, te_outgoing_ogw_requests := out \<rparr>)"
  by (auto simp: with_orders_def result_simps)

lemma book_update_acts:
  assumes "te_onOrderBookUpdate e now ticker_id bbo te = Inr te'"
  shows "\<exists>rs. te_acts te rs te' \<and> (\<forall>mm. te_algo te = Maker mm \<longrightarrow> bid_price bbo < ask_price bbo \<longrightarrow>
     (\<forall>r \<in> set rs. req_type r = Req_NEW \<longrightarrow>
        req_side r = BUY \<and> req_price r < ask_price bbo \<or> req_side r = SELL \<and> bid_price bbo < req_price r))"
proof -
  obtain k fe where k: "pk_updateBBO e ticker_id bbo (te_position_keeper te) = Inr k"
    and d: "dispatchOnOrderBookUpdate e now ticker_id bbo (te\<lparr> te_position_keeper := k, te_feature_engine := fe \<rparr>) = Inr te'"
    using assms by (auto simp: te_onOrderBookUpdate_def result_simps)
  note pos = pk_updateBBO_positions[OF k]
  show ?thesis
  proof (cases "te_algo te")
    case (Maker mm)
    let ?s = "(te_order_manager te, te_outgoing_ogw_requests te)"
    obtain om out where o: "mm_onOrderBookUpdate e mm (te_client_id te) (te_risk_manager te) fe k now ticker_id bbo ?s = Inr (om, out)"
      and te': "te' = te\<lparr> te_position_keeper := k, te_feature_engine := fe, te_order_manager := om, te_outgoing_ogw_requests := out \<rparr>"
      using d Maker by (auto simp: dispatchOnOrderBookUpdate_def with_orders_eq)
    from mm_onOrderBookUpdate_acts[OF o] obtain rs where
      rs: "om_acts (te_client_id te) (te_risk_manager te) k ?s rs (om, out)" "length rs \<le> 2"
        "bid_price bbo < ask_price bbo \<longrightarrow> (\<forall>r \<in> set rs. req_type r = Req_NEW \<longrightarrow>
          req_side r = BUY \<and> req_price r < ask_price bbo \<or> req_side r = SELL \<and> bid_price bbo < req_price r)"
      by blast
    have "te_acts te rs te'" using rs(1,2) te' pos Maker by (simp add: te_acts_def same_frame_def)
    then show ?thesis using rs(3) by blast
  qed (use d pos in \<open>auto simp: dispatchOnOrderBookUpdate_def with_orders_eq lt_onOrderBookUpdate_def te_acts_def same_frame_def
      intro!: exI[of _ "[]"] om_acts.none\<close>)
qed

lemma trade_update_acts:
  assumes "te_onTradeUpdate e u bbo te = Inr te'"
  shows "\<exists>rs. te_acts te rs te'"
proof -
  obtain fe where d: "dispatchOnTradeUpdate u bbo (te\<lparr> te_feature_engine := fe \<rparr>) = Inr te'"
    using assms by (auto simp: te_onTradeUpdate_def result_simps)
  have pos: "same_positions (te_position_keeper te) (te_position_keeper te)" by (simp add: same_positions_def)
  show ?thesis
  proof (cases "te_algo te")
    case (Taker lt)
    let ?s = "(te_order_manager te, te_outgoing_ogw_requests te)" and ?k = "te_position_keeper te"
    obtain om out where o: "lt_onTradeUpdate lt (te_client_id te) (te_risk_manager te) fe ?k u bbo ?s = Inr (om, out)"
      and te': "te' = te\<lparr> te_feature_engine := fe, te_order_manager := om, te_outgoing_ogw_requests := out \<rparr>"
      using d Taker by (auto simp: dispatchOnTradeUpdate_def with_orders_eq)
    from lt_onTradeUpdate_acts[OF o] obtain rs where
      "om_acts (te_client_id te) (te_risk_manager te) ?k ?s rs (om, out)" "length rs \<le> 2" by blast
    then have "te_acts te rs te'" using te' pos Taker by (simp add: te_acts_def same_frame_def)
    then show ?thesis by blast
  qed (use d pos in \<open>auto simp: dispatchOnTradeUpdate_def with_orders_eq mm_onTradeUpdate_def te_acts_def same_frame_def
      intro!: exI[of _ "[]"] om_acts.none\<close>)
qed

lemma deliver_acts:
  assumes "te_deliver e now u te = Inr te'"
  shows "\<exists>rs. te_acts te rs te'"
proof -
  let ?t = "unat (mu_ticker_id u)"
  obtain book calls where c: "onMarketUpdate (te_ticker_order_book te ?t) u = Inr (book, calls)"
    and f: "foldR (te_callback e now (mb_bbo book)) calls (te\<lparr> te_ticker_order_book := (te_ticker_order_book te)(?t := book) \<rparr>) = Inr te'"
    using assms by (auto simp: te_deliver_def Let_def result_simps)
  let ?te = "te\<lparr> te_ticker_order_book := (te_ticker_order_book te)(?t := book) \<rparr>"
  have frame: "te_acts (te\<lparr> te_ticker_order_book := bs \<rparr>) rs te' = te_acts te rs te'" for bs rs
    by (simp add: te_acts_def same_frame_def)
  have "calls = [OnTradeUpdate u] \<or> calls = [OnOrderBookUpdate (mu_ticker_id u) (mu_price u) (mu_side u)]"
    using c by (auto simp: onMarketUpdate_def Let_def result_simps split: if_splits)
  then show ?thesis
  proof
    assume "calls = [OnTradeUpdate u]"
    then have "te_onTradeUpdate e u (mb_bbo book) ?te = Inr te'" using f by (auto simp: result_simps)
    from trade_update_acts[OF this] show ?thesis by (simp add: frame)
  next
    assume "calls = [OnOrderBookUpdate (mu_ticker_id u) (mu_price u) (mu_side u)]"
    then have "te_onOrderBookUpdate e now (mu_ticker_id u) (mb_bbo book) ?te = Inr te'" using f by (auto simp: result_simps)
    from book_update_acts[OF this] show ?thesis by (auto simp: frame)
  qed
qed

lemma market_update_acts: "te_market_update e now u te = Inr te' \<Longrightarrow> \<exists>rs. te_acts te rs te'"
  using deliver_acts by (auto simp: te_market_update_def result_simps)

section \<open>Runs\<close>

text \<open>
  What the exchange promises of its responses to this client: it accepts an order that was sent, and the quantity
  of a fill and what it leaves add up to what the order had.
\<close>

definition response_ok :: "OrderManager \<Rightarrow> MEClientResponse \<Rightarrow> bool" where
  "response_ok om r \<longleftrightarrow>
     (case om_at (rsp_ticker_id r) (rsp_side r) of
        Inl _ \<Rightarrow> True
      | Inr p \<Rightarrow>
          (rsp_type r = ACCEPTED \<longrightarrow> working (om_orders om p))
          \<and> (rsp_type r = FILLED \<longrightarrow> working (om_orders om p) \<and> (rsp_side r = BUY \<or> rsp_side r = SELL)
               \<and> unat (rsp_exec_qty r) + unat (rsp_leaves_qty r) = unat (oo_qty (om_orders om p))))"

inductive te_runs :: "fpenv \<Rightarrow> TradeEngine \<Rightarrow> MEClientRequest list \<Rightarrow> TradeEngine \<Rightarrow> bool" for e te0 where
  start: "te_runs e te0 [] te0"
| response: "te_runs e te0 tape te \<Longrightarrow> response_ok (te_order_manager te) r \<Longrightarrow> te_onOrderUpdate e r te = Inr te' \<Longrightarrow>
    te_runs e te0 tape te'"
| update: "te_runs e te0 tape te \<Longrightarrow> te_market_update e now u te = Inr te' \<Longrightarrow>
    te_runs e te0 (tape @ sent (te_outgoing_ogw_requests te) (te_outgoing_ogw_requests te')) te'"
| gateway: "te_runs e te0 tape te \<Longrightarrow> updateReadIndex (te_outgoing_ogw_requests te) = Inr q \<Longrightarrow>
    te_runs e te0 tape (te\<lparr> te_outgoing_ogw_requests := q \<rparr>)"

text \<open>The queue that the requests go to can take those of one event.\<close>

definition out_ok :: "TradeEngine \<Rightarrow> bool" where
  "out_ok te \<longleftrightarrow> next_write_index (te_outgoing_ogw_requests te) < lf_capacity (te_outgoing_ogw_requests te)
     \<and> 2 \<le> lf_capacity (te_outgoing_ogw_requests te)"

lemma te_acts_sent:
  assumes "te_acts te rs te'" and "out_ok te"
  shows "sent (te_outgoing_ogw_requests te) (te_outgoing_ogw_requests te') = rs \<and> out_ok te'"
proof -
  let ?q = "te_outgoing_ogw_requests te"
  have q: "te_outgoing_ogw_requests te' = foldl lf_push ?q rs" "length rs \<le> 2"
    using assms(1) om_acts_queue by (fastforce simp: te_acts_def)+
  have "next_write_index (foldl lf_push ?q rs) < lf_capacity ?q" "lf_capacity (foldl lf_push ?q rs) = lf_capacity ?q"
    using pushes_fields[of ?q rs] assms(2) by (auto simp: out_ok_def)
  then show ?thesis using sent_pushes[of ?q rs] q assms(2) by (simp add: out_ok_def)
qed

text \<open>The effect of a response on the engine.\<close>

lemma order_update_effect:
  assumes "te_onOrderUpdate e r te = Inr te'"
  shows "same_frame te te' \<and> te_outgoing_ogw_requests te' = te_outgoing_ogw_requests te
    \<and> (if rsp_type r = FILLED then pk_addFill e r (te_position_keeper te) = Inr (te_position_keeper te')
       else te_position_keeper te' = te_position_keeper te)
    \<and> (if te_algo te = NoAlgo then te_order_manager te' = te_order_manager te
       else om_onOrderUpdate r (te_order_manager te) = Inr (te_order_manager te'))"
  using assms
  by (cases "te_algo te"; cases "rsp_type r = FILLED")
    (auto simp: te_onOrderUpdate_def dispatchOnOrderUpdate_def with_orders_eq mm_onOrderUpdate_def lt_onOrderUpdate_def
      same_frame_def result_simps)

text \<open>
  An invariant of the order manager and the positions that the actions and the responses keep, whatever the log is,
  holds in every run.
\<close>

locale run_invariant =
  fixes I :: "TradeEngine \<Rightarrow> MEClientRequest list \<Rightarrow> bool"
  assumes acts: "I te tape \<Longrightarrow> te_acts te rs te' \<Longrightarrow> I te' (tape @ rs)"
    and answered: "I te tape \<Longrightarrow> response_ok (te_order_manager te) r \<Longrightarrow> te_onOrderUpdate e r te = Inr te' \<Longrightarrow> I te' tape"
    and queue: "I te tape \<Longrightarrow> I (te\<lparr> te_outgoing_ogw_requests := q \<rparr>) tape"
begin

lemma run:
  assumes "te_runs e te0 tape te" and "I te0 []" and "out_ok te0"
  shows "I te tape \<and> out_ok te"
  using assms
proof (induction rule: te_runs.induct)
  case (response tape te r te')
  then have "I te' tape" using answered by blast
  then show ?case using order_update_effect[OF response(3)] response by (simp add: out_ok_def)
next
  case (update tape te now u te')
  obtain rs where rs: "te_acts te rs te'" using market_update_acts[OF update(2)] by blast
  have "I te tape" "out_ok te" using update by blast+
  then show ?case using te_acts_sent[OF rs] acts[OF _ rs] by simp
next
  case (gateway tape te q)
  then have "next_write_index q = next_write_index (te_outgoing_ogw_requests te)" "lf_capacity q = lf_capacity (te_outgoing_ogw_requests te)"
    by (auto simp: updateReadIndex_def Let_def result_simps)
  then show ?case using gateway queue by (simp add: out_ok_def)
qed simp

end

end
