(* ===== verification/TradingSafety.thy ===== *)
theory TradingSafety
  imports TradingRuns
begin

text \<open>
  Two invariants of every run of the trade engine: the position with all orders that still work stays within the
  limit of the risk configuration, and the log of the requests is well-formed.
\<close>

section \<open>The position limit\<close>

definition exposure :: "OMOrder \<Rightarrow> nat" where
  "exposure order = (if working order then unat (oo_qty order) else 0)"

definition limit :: "RiskManager \<Rightarrow> nat \<Rightarrow> int" where
  "limit rm t = to_int32 (max_position (rm_risk_cfg rm t))"

definition position_of :: "PositionKeeper \<Rightarrow> nat \<Rightarrow> int" where
  "position_of k t = pi_position (pk_ticker_position k t)"

definition exposed :: "RiskManager \<Rightarrow> OrderManager \<Rightarrow> PositionKeeper \<Rightarrow> nat \<Rightarrow> bool" where
  "exposed rm om k t \<longleftrightarrow> position_of k t + int (exposure (om_orders om (t, 2))) \<le> limit rm t
     \<and> - limit rm t \<le> position_of k t - int (exposure (om_orders om (t, 0)))"

text \<open>The limits on the size of an order leave room for its sign.\<close>

definition small_orders :: "RiskManager \<Rightarrow> bool" where
  "small_orders rm \<longleftrightarrow> (\<forall>t < ME_MAX_TICKERS. unat (max_order_size (rm_risk_cfg rm t)) < 2 ^ 31)"

definition working_small :: "OrderManager \<Rightarrow> bool" where
  "working_small om \<longleftrightarrow> (\<forall>p. working (om_orders om p) \<longrightarrow> unat (oo_qty (om_orders om p)) < 2 ^ 31)"

definition risk_inv :: "RiskManager \<Rightarrow> OrderManager \<Rightarrow> PositionKeeper \<Rightarrow> bool" where
  "risk_inv rm om k \<longleftrightarrow> working_small om \<and> (\<forall>t < ME_MAX_TICKERS. exposed rm om k t)"

lemma to_int32_small_word:
  assumes "unat w < 2 ^ 31"
  shows "to_int32 w = int (unat w)"
proof -
  have "int (unat w) < int (2 ^ 31)" using assms by (simp only: of_nat_less_iff)
  then show ?thesis using to_int32_small[of "MEClientResponse_default\<lparr> rsp_exec_qty := w \<rparr>"] by (simp add: filled_def)
qed

lemma allowed_bounds:
  assumes a: "checkPreTradeRisk rm k ticker_id side qty = Inr ALLOWED" and sm: "small_orders rm"
  shows "unat ticker_id < ME_MAX_TICKERS \<and> unat qty < 2 ^ 31
    \<and> \<bar>position_of k (unat ticker_id) + sideToValue side * int (unat qty)\<bar> \<le> limit rm (unat ticker_id)"
proof -
  let ?t = "unat ticker_id"
  have t: "?t < ME_MAX_TICKERS" using a by (auto simp: checkPreTradeRisk_def result_simps)
  have r: "ri_checkPreTradeRisk (rm_risk_cfg rm ?t) (pk_ticker_position k ?t) side qty = Inr ALLOWED"
    using a t by (simp add: checkPreTradeRisk_def)
  have "\<not> max_order_size (rm_risk_cfg rm ?t) < qty" using r by (auto simp: ri_checkPreTradeRisk_def)
  then have q: "unat qty < 2 ^ 31" using sm t by (auto simp: small_orders_def word_less_nat_alt not_less intro: le_less_trans)
  then show ?thesis
    using r t to_int32_small_word[OF q]
    by (auto simp: ri_checkPreTradeRisk_def position_of_def limit_def result_simps split: if_splits)
qed

lemma om_at_eq: "om_at ticker_id side = Inr p \<longleftrightarrow> unat ticker_id < ME_MAX_TICKERS \<and> p = (unat ticker_id, sideToIndex side)"
  using sideToIndex_bound[of side] by (auto simp: om_at_def result_simps)

lemma exposure_cancel [simp]: "oo_state o' = LIVE \<Longrightarrow> exposure (o'\<lparr> oo_state := PENDING_CANCEL \<rparr>) = exposure o'"
  by (simp add: exposure_def working_def)

lemma exposure_new [simp]:
  "exposure \<lparr> oo_ticker_id = t, oo_order_id = oid, oo_side = sd, oo_price = pr, oo_qty = q, oo_state = PENDING_NEW \<rparr> = unat q"
  by (simp add: exposure_def working_def)

text \<open>The actions keep the invariant.\<close>

lemma acts_risk_inv:
  "om_acts client_id rm k s rs s' \<Longrightarrow> small_orders rm \<Longrightarrow> risk_inv rm (fst s) k \<Longrightarrow> risk_inv rm (fst s') k"
proof (induction rule: om_acts.induct)
  case (cancel rs om out p)
  then have I: "risk_inv rm om k" by simp
  let ?om = "fst (cancelOrder client_id p (om, out))"
  have same: "exposure (om_orders ?om q) = exposure (om_orders om q)" for q using cancel.hyps(2) by simp
  have "working_small ?om" using I cancel.hyps(2) by (auto simp: risk_inv_def working_small_def working_def)
  moreover have "exposed rm ?om k t" if "exposed rm om k t" for t using that by (simp only: exposed_def same)
  ultimately show ?case using I by (auto simp: risk_inv_def simp del: cancelOrder_simps)
next
  case (new rs om out ticker_id side p price qty)
  then have I: "risk_inv rm om k" by simp
  let ?om = "fst (newOrder client_id p ticker_id price side qty (om, out))"
  note b = allowed_bounds[OF new.hyps(6) new.prems(1)]
  have p: "p = (unat ticker_id, sideToIndex side)" using new.hyps(2) by (simp add: om_at_eq)
  have 1: "working_small ?om" using I b by (auto simp: risk_inv_def working_small_def)
  have "exposed rm ?om k t" if "exposed rm om k t" for t
    using that b new.hyps(3) unfolding exposed_def p by (auto split: if_splits)
  then show ?case using I 1 by (auto simp: risk_inv_def)
qed simp

text \<open>A fill moves the position by what was executed, whatever the amounts of money are.\<close>

lemma fill_adds_position: "fill_adds e r p = Inr p' \<Longrightarrow> pi_position p' = pi_position p"
  by (auto simp: fill_adds_def Let_def result_simps)

lemma fill_reduces_position: "fill_reduces e r old pos p = Inr p' \<Longrightarrow> pi_position p' = pi_position p"
  by (auto simp: fill_reduces_def Let_def result_simps)

lemma fill_marks_position: "fill_marks e r p = Inr p' \<Longrightarrow> pi_position p' = pi_position p"
  by (auto simp: fill_marks_def Let_def result_simps split: if_splits)

lemma fill_rebate_position [simp]: "pi_position (fill_rebate e bps r p) = pi_position p"
  by (simp add: fill_rebate_def Let_def)

lemma addFill_position:
  assumes "addFill e bps r p = Inr p'"
  shows "pi_position p' = pi_position p + to_int32 (rsp_exec_qty r) * sideToValue (rsp_side r)"
proof -
  let ?pos = "pi_position p + to_int32 (rsp_exec_qty r) * sideToValue (rsp_side r)"
  let ?p1 = "p\<lparr> pi_position := ?pos, pi_volume := pi_volume p + rsp_exec_qty r \<rparr>"
  obtain p2 p3 where p2: "fill_adds e r ?p1 = Inr p2 \<or> fill_reduces e r (pi_position p) ?pos ?p1 = Inr p2"
      and p3: "fill_marks e r p2 = Inr p3" "p' = fill_rebate e bps r p3"
    using assms by (auto simp: addFill_def Let_def result_simps split: if_splits)
  then show ?thesis using fill_adds_position fill_reduces_position fill_marks_position by fastforce
qed

lemma pk_addFill_position:
  assumes "pk_addFill e r k = Inr k'"
  shows "unat (rsp_ticker_id r) < ME_MAX_TICKERS \<and> position_of k' t =
    position_of k t + (if t = unat (rsp_ticker_id r) then to_int32 (rsp_exec_qty r) * sideToValue (rsp_side r) else 0)"
  using assms by (auto simp: pk_addFill_def position_of_def result_simps dest: addFill_position)

text \<open>The responses keep the invariant.\<close>

definition order_after :: "MEClientResponse \<Rightarrow> OMOrder \<Rightarrow> OMOrder" where
  "order_after r order =
     (case rsp_type r of
        ACCEPTED \<Rightarrow> order\<lparr> oo_state := LIVE \<rparr>
      | CANCELED \<Rightarrow> order\<lparr> oo_state := DEAD \<rparr>
      | FILLED \<Rightarrow> (if rsp_leaves_qty r = 0 then order\<lparr> oo_qty := 0, oo_state := DEAD \<rparr> else order\<lparr> oo_qty := rsp_leaves_qty r \<rparr>)
      | _ \<Rightarrow> order)"

lemma om_onOrderUpdate_eq:
  assumes "om_onOrderUpdate r om = Inr om'"
  shows "unat (rsp_ticker_id r) < ME_MAX_TICKERS \<and> om_next_order_id om' = om_next_order_id om
    \<and> om_orders om' = (om_orders om)((unat (rsp_ticker_id r), sideToIndex (rsp_side r))
        := order_after r (om_orders om (unat (rsp_ticker_id r), sideToIndex (rsp_side r))))"
proof -
  let ?p = "(unat (rsp_ticker_id r), sideToIndex (rsp_side r))"
  have "om_at (rsp_ticker_id r) (rsp_side r) = Inr ?p" "unat (rsp_ticker_id r) < ME_MAX_TICKERS"
    using assms by (auto simp: om_onOrderUpdate_def om_at_eq result_simps)
  then show ?thesis
    using assms by (cases "rsp_type r") (auto simp: om_onOrderUpdate_def om_store_def order_after_def Let_def)
qed

lemma response_okD:
  assumes "response_ok om r" and "unat (rsp_ticker_id r) < ME_MAX_TICKERS"
  defines "order \<equiv> om_orders om (unat (rsp_ticker_id r), sideToIndex (rsp_side r))"
  shows "rsp_type r = ACCEPTED \<Longrightarrow> working order"
    and "rsp_type r = FILLED \<Longrightarrow> working order \<and> (rsp_side r = BUY \<or> rsp_side r = SELL)
           \<and> unat (rsp_exec_qty r) + unat (rsp_leaves_qty r) = unat (oo_qty order)"
proof -
  have "om_at (rsp_ticker_id r) (rsp_side r) = Inr (unat (rsp_ticker_id r), sideToIndex (rsp_side r))"
    using assms(2) by (simp add: om_at_eq)
  then show "rsp_type r = ACCEPTED \<Longrightarrow> working order" "rsp_type r = FILLED \<Longrightarrow> working order \<and> (rsp_side r = BUY \<or> rsp_side r = SELL)
           \<and> unat (rsp_exec_qty r) + unat (rsp_leaves_qty r) = unat (oo_qty order)"
    using assms(1) by (simp_all add: response_ok_def order_def)
qed

lemma order_after_working:
  assumes "response_ok om r" and "unat (rsp_ticker_id r) < ME_MAX_TICKERS"
  defines "order \<equiv> om_orders om (unat (rsp_ticker_id r), sideToIndex (rsp_side r))"
  shows "working (order_after r order) \<Longrightarrow> working order"
    and "exposure (order_after r order) \<le> exposure order"
    and "rsp_type r = FILLED \<Longrightarrow> exposure order = exposure (order_after r order) + unat (rsp_exec_qty r)"
  using response_okD[OF assms(1,2), folded order_def]
  by (auto simp: order_after_def exposure_def working_def split: ClientResponseType.splits if_splits)

lemma response_risk_inv:
  assumes I: "risk_inv rm om k" and r: "response_ok om r" and om': "om_onOrderUpdate r om = Inr om'"
    and k': "if rsp_type r = FILLED then pk_addFill e r k = Inr k' else k' = k"
  shows "risk_inv rm om' k'"
proof -
  let ?t = "unat (rsp_ticker_id r)"
  let ?p = "(?t, sideToIndex (rsp_side r))"
  let ?o = "om_orders om ?p"
  note om = om_onOrderUpdate_eq[OF om']
  note after = order_after_working[OF r conjunct1[OF om]]
  have o': "om_orders om' q = (if q = ?p then order_after r ?o else om_orders om q)" for q using om by simp
  have small: "unat (oo_qty q) < 2 ^ 31 \<longleftrightarrow> exposure q < 2 ^ 31" if "working q" for q using that by (simp add: exposure_def)
  have ws: "working_small om" using I by (simp add: risk_inv_def)
  have "exposure ?o < 2 ^ 31" using ws by (auto simp: working_small_def exposure_def)
  then have "working_small om'"
    using ws after(2) small unfolding working_small_def o' by (auto intro: le_less_trans)
  moreover have "exposed rm om' k' t" if t: "t < ME_MAX_TICKERS" for t
  proof -
    have x: "exposed rm om k t" using I t by (simp add: risk_inv_def)
    have less: "exposure (om_orders om' q) \<le> exposure (om_orders om q)" for q using after(2) by (simp add: o')
    show ?thesis
    proof (cases "rsp_type r = FILLED \<and> t = ?t")
      case True
      then have f: "rsp_side r = BUY \<or> rsp_side r = SELL" "exposure ?o = exposure (order_after r ?o) + unat (rsp_exec_qty r)"
        using response_okD(2)[OF r conjunct1[OF om]] after(3) by blast+
      then have "to_int32 (rsp_exec_qty r) = int (unat (rsp_exec_qty r))" using \<open>exposure ?o < 2 ^ 31\<close> by (intro to_int32_small_word) simp
      then have "position_of k' t = position_of k t + int (unat (rsp_exec_qty r)) * sideToValue (rsp_side r)"
        using k' True pk_addFill_position[of e r k k' t] by simp
      with f(2) obtain n where "position_of k' t = position_of k t + int n * sideToValue (rsp_side r)"
          "exposure ?o = exposure (order_after r ?o) + n"
        by blast
      then show ?thesis using x f(1) True unfolding exposed_def o' by auto
    next
      case False
      then have "position_of k' t = position_of k t" using k' pk_addFill_position[of e r k k' t] by (auto split: if_splits)
      then show ?thesis using x less[of "(t, 2)"] less[of "(t, 0)"] by (simp add: exposed_def)
    qed
  qed
  ultimately show ?thesis by (simp add: risk_inv_def)
qed

definition te_risk_inv :: "TradeEngine \<Rightarrow> MEClientRequest list \<Rightarrow> bool" where
  "te_risk_inv te tape \<longleftrightarrow> small_orders (te_risk_manager te) \<and> risk_inv (te_risk_manager te) (te_order_manager te) (te_position_keeper te)
     \<and> (te_algo te = NoAlgo \<longrightarrow> (\<forall>p. \<not> working (om_orders (te_order_manager te) p)))"

lemma same_positions_inv: "same_positions k k' \<Longrightarrow> risk_inv rm om k \<Longrightarrow> risk_inv rm om k'"
  by (simp add: risk_inv_def exposed_def position_of_def same_positions_def)

lemma no_acts: "om_acts client_id rm k s [] s' \<Longrightarrow> s' = s"
  by (cases rule: om_acts.cases) auto

interpretation risk: run_invariant te_risk_inv
proof
  fix te te' :: TradeEngine and rs tape
  assume I: "te_risk_inv te tape" and a: "te_acts te rs te'"
  have "risk_inv (te_risk_manager te) (te_order_manager te) (te_position_keeper te')"
    using same_positions_inv I a by (auto simp: te_risk_inv_def te_acts_def)
  then have "risk_inv (te_risk_manager te) (te_order_manager te') (te_position_keeper te')"
    using a I acts_risk_inv by (fastforce simp: te_acts_def te_risk_inv_def)
  moreover have "te_algo te = NoAlgo \<Longrightarrow> te_order_manager te' = te_order_manager te" using a no_acts by (auto simp: te_acts_def)
  ultimately show "te_risk_inv te' (tape @ rs)" using I a by (auto simp: te_risk_inv_def te_acts_def same_frame_def)
next
  fix te te' :: TradeEngine and tape r e
  assume I: "te_risk_inv te tape" and r: "response_ok (te_order_manager te) r" and u: "te_onOrderUpdate e r te = Inr te'"
  note f = order_update_effect[OF u]
  show "te_risk_inv te' tape"
  proof (cases "te_algo te = NoAlgo")
    case True
    then have "rsp_type r \<noteq> FILLED \<or> \<not> unat (rsp_ticker_id r) < ME_MAX_TICKERS" using I response_okD(2)[OF r] by (auto simp: te_risk_inv_def)
    then have "rsp_type r \<noteq> FILLED" using f pk_addFill_position by (auto split: if_splits)
    then show ?thesis using I f True by (simp add: te_risk_inv_def same_frame_def)
  next
    case False
    have "risk_inv (te_risk_manager te) (te_order_manager te') (te_position_keeper te')"
      by (rule response_risk_inv[OF _ r, where k = "te_position_keeper te" and e = e]) (use I f False in \<open>simp_all add: te_risk_inv_def\<close>)
    then show ?thesis using I f False by (simp add: te_risk_inv_def same_frame_def)
  qed
qed (simp add: te_risk_inv_def)

section \<open>The log of requests\<close>

definition is_new :: "MEClientRequest \<Rightarrow> bool" where "is_new r \<longleftrightarrow> req_type r = Req_NEW"

text \<open>An order, or a cancel, that belongs to a new order sent before.\<close>

definition announced :: "MEClientRequest list \<Rightarrow> ClientId \<Rightarrow> TickerId \<Rightarrow> OrderId \<Rightarrow> Side \<Rightarrow> bool" where
  "announced tape client_id ticker_id order_id side \<longleftrightarrow> (\<exists>n \<in> set tape. is_new n \<and> req_client_id n = client_id
     \<and> req_ticker_id n = ticker_id \<and> req_order_id n = order_id \<and> req_side n = side)"

fun tape_ok_from :: "MEClientRequest list \<Rightarrow> MEClientRequest list \<Rightarrow> bool" where
  "tape_ok_from before [] \<longleftrightarrow> True"
| "tape_ok_from before (r # rs) \<longleftrightarrow>
     (is_new r \<or> req_type r = Req_CANCEL \<and> announced before (req_client_id r) (req_ticker_id r) (req_order_id r) (req_side r))
     \<and> tape_ok_from (before @ [r]) rs"

definition tape_ok :: "MEClientRequest list \<Rightarrow> bool" where
  "tape_ok = tape_ok_from []"

definition consecutive_ids :: "OrderId \<Rightarrow> MEClientRequest list \<Rightarrow> bool" where
  "consecutive_ids next tape \<longleftrightarrow> (let n = length (filter is_new tape) in
     next = of_nat (n + 1) \<and> map req_order_id (filter is_new tape) = map of_nat [1..<n + 1])"

definition tape_inv :: "ClientId \<Rightarrow> OrderManager \<Rightarrow> MEClientRequest list \<Rightarrow> bool" where
  "tape_inv client_id om tape \<longleftrightarrow> tape_ok tape \<and> consecutive_ids (om_next_order_id om) tape \<and> (\<forall>r \<in> set tape. req_client_id r = client_id)
     \<and> (\<forall>p. working (om_orders om p) \<longrightarrow>
          announced tape client_id (oo_ticker_id (om_orders om p)) (oo_order_id (om_orders om p)) (oo_side (om_orders om p)))"

lemma tape_ok_snoc:
  "tape_ok (tape @ [r]) \<longleftrightarrow> tape_ok tape \<and> (is_new r \<or> req_type r = Req_CANCEL
     \<and> announced tape (req_client_id r) (req_ticker_id r) (req_order_id r) (req_side r))"
proof -
  have "tape_ok_from before (tape @ [r]) \<longleftrightarrow> tape_ok_from before tape \<and> (is_new r \<or> req_type r = Req_CANCEL
     \<and> announced (before @ tape) (req_client_id r) (req_ticker_id r) (req_order_id r) (req_side r))" for before
    by (induction tape arbitrary: before) auto
  then show ?thesis by (simp add: tape_ok_def)
qed

lemma announced_append: "announced tape c t i s \<Longrightarrow> announced (tape @ rs) c t i s"
  by (auto simp: announced_def)

lemma acts_tape_inv:
  "om_acts client_id rm k s rs s' \<Longrightarrow> tape_inv client_id (fst s) tape \<Longrightarrow> tape_inv client_id (fst s') (tape @ rs)"
proof (induction rule: om_acts.induct)
  case (cancel rs om out p)
  let ?o = "om_orders om p"
  let ?r = "cancel_request client_id ?o"
  have I: "tape_inv client_id om (tape @ rs)" using cancel by simp
  have r: "\<not> is_new ?r" "req_type ?r = Req_CANCEL" "req_client_id ?r = client_id" "req_ticker_id ?r = oo_ticker_id ?o"
      "req_order_id ?r = oo_order_id ?o" "req_side ?r = oo_side ?o"
    by (simp_all add: cancel_request_def is_new_def)
  have "working ?o" using cancel.hyps(2) by (simp add: working_def)
  then have "announced (tape @ rs) client_id (oo_ticker_id ?o) (oo_order_id ?o) (oo_side ?o)"
    using I unfolding tape_inv_def by blast
  then have "tape_ok ((tape @ rs) @ [?r])" using I r by (simp only: tape_ok_snoc) (simp add: tape_inv_def)
  then show ?case
    using I r cancel.hyps(2) announced_append[of "tape @ rs" _ _ _ _ "[?r]"]
    by (auto simp: tape_inv_def consecutive_ids_def working_def)
next
  case (new rs om out ticker_id side p price qty)
  let ?r = "new_request client_id om ticker_id price side qty"
  have I: "tape_inv client_id om (tape @ rs)" using new by simp
  have r: "is_new ?r" "req_client_id ?r = client_id" "req_ticker_id ?r = ticker_id" "req_order_id ?r = om_next_order_id om" "req_side ?r = side"
    by (simp_all add: new_request_def is_new_def)
  have ok: "tape_ok ((tape @ rs) @ [?r])" using I r(1) by (simp only: tape_ok_snoc) (simp add: tape_inv_def)
  have "consecutive_ids (om_next_order_id om + 1) ((tape @ rs) @ [?r])"
    using I r by (auto simp: tape_inv_def consecutive_ids_def Let_def)
  moreover have "announced ((tape @ rs) @ [?r]) client_id ticker_id (om_next_order_id om) side" using r by (auto simp: announced_def)
  ultimately show ?case
    using I ok r(2) announced_append[of "tape @ rs" _ _ _ _ "[?r]"] by (auto simp: tape_inv_def)
qed simp

definition te_tape_inv :: "TradeEngine \<Rightarrow> MEClientRequest list \<Rightarrow> bool" where
  "te_tape_inv te tape \<longleftrightarrow> tape_inv (te_client_id te) (te_order_manager te) tape"

lemma order_after_frame [simp]:
  "oo_ticker_id (order_after r x) = oo_ticker_id x" "oo_order_id (order_after r x) = oo_order_id x" "oo_side (order_after r x) = oo_side x"
  by (simp_all add: order_after_def split: ClientResponseType.splits)

interpretation request_log: run_invariant te_tape_inv
proof
  fix te te' :: TradeEngine and rs tape
  assume "te_tape_inv te tape" and "te_acts te rs te'"
  then show "te_tape_inv te' (tape @ rs)" using acts_tape_inv by (fastforce simp: te_tape_inv_def te_acts_def same_frame_def)
next
  fix te te' :: TradeEngine and tape r e
  assume I: "te_tape_inv te tape" and r: "response_ok (te_order_manager te) r" and u: "te_onOrderUpdate e r te = Inr te'"
  note f = order_update_effect[OF u]
  show "te_tape_inv te' tape"
  proof (cases "te_algo te = NoAlgo")
    case True
    then show ?thesis using I f by (simp add: te_tape_inv_def same_frame_def)
  next
    case False
    then have "om_onOrderUpdate r (te_order_manager te) = Inr (te_order_manager te')" using f by simp
    note om = om_onOrderUpdate_eq[OF this]
    show ?thesis using I f order_after_working(1)[OF r conjunct1[OF om]] conjunct2[OF om]
      by (auto simp: te_tape_inv_def tape_inv_def same_frame_def)
  qed
qed (simp add: te_tape_inv_def)

section \<open>The start of a run\<close>

lemma setHysteresis_frame:
  "foldR (\<lambda>i. setHysteresisTicks (f i) (g i)) is' om = Inr om' \<Longrightarrow>
   om_orders om' = om_orders om \<and> om_next_order_id om' = om_next_order_id om"
proof (induction is' arbitrary: om)
  case (Cons i is')
  then obtain om1 where "setHysteresisTicks (f i) (g i) om = Inr om1" "foldR (\<lambda>i. setHysteresisTicks (f i) (g i)) is' om1 = Inr om'"
    by (auto simp: result_simps)
  moreover have "om_orders om1 = om_orders om \<and> om_next_order_id om1 = om_next_order_id om"
    using calculation(1) by (auto simp: setHysteresisTicks_def result_simps)
  ultimately show ?case using Cons.IH[of om1] by simp
qed simp

lemma TradeEngine_new_fields:
  assumes "TradeEngine_new vwaps ids levels now client_id algo_type ticker_cfg requests responses updates = Inr te"
  shows "te_client_id te = client_id" "te_risk_manager te = RiskManager_new ticker_cfg"
    "\<forall>p. \<not> working (om_orders (te_order_manager te) p)" "om_next_order_id (te_order_manager te) = 1"
    "te_position_keeper te = PositionKeeper_new (Some ticker_cfg) vwaps" "te_outgoing_ogw_requests te = requests"
  using assms by (auto simp: TradeEngine_new_def result_simps OrderManager_new_def OMOrder_default_def working_def dest!: setHysteresis_frame)

lemma te_risk_inv_new:
  assumes "TradeEngine_new vwaps ids levels now client_id algo_type ticker_cfg requests responses updates = Inr te"
    and "\<forall>t < ME_MAX_TICKERS. unat (max_order_size (cfg_risk (ticker_cfg t))) < 2 ^ 31
        \<and> 0 \<le> to_int32 (max_position (cfg_risk (ticker_cfg t)))"
  shows "te_risk_inv te []"
  using TradeEngine_new_fields[OF assms(1)] assms(2)
  by (auto simp: te_risk_inv_def risk_inv_def small_orders_def working_small_def exposed_def exposure_def limit_def position_of_def
      RiskManager_new_def PositionKeeper_new_def PositionInfo_new_def)

lemma runs_frame: "te_runs e te0 tape te \<Longrightarrow> same_frame te0 te"
proof (induction rule: te_runs.induct)
  case (response tape te r te')
  then show ?case using order_update_effect by (auto simp: same_frame_def)
next
  case (update tape te now u te')
  then show ?case using market_update_acts by (fastforce simp: same_frame_def te_acts_def)
qed (simp_all add: same_frame_def)

lemma runs_risk_manager: "te_runs e te0 tape te \<Longrightarrow> te_risk_manager te = te_risk_manager te0"
  using runs_frame by (auto simp: same_frame_def)

end
