(* ===== verification/TradingTheorems.thy ===== *)
theory TradingTheorems
  imports TradingSafety
begin

text \<open>
  The properties of the trade engine, each for every run from its constructor, and a sample run in which the market maker sees
  a bid and an offer, quotes both sides, and is filled on the bid.
\<close>

section \<open>A sample run\<close>

definition sample_cfg :: "nat \<Rightarrow> TradeEngineCfg" where
  "sample_cfg i = (TradeEngineCfg_default exact_env)\<lparr> cfg_clip := 10,
     cfg_risk := \<lparr> max_order_size = 100, max_position = 50, max_loss = Fin (- 1000) \<rparr> \<rparr>"

definition sample_add :: "Side \<Rightarrow> OrderId \<Rightarrow> Price \<Rightarrow> MEMarketUpdate" where
  "sample_add side oid price = \<lparr> mu_type = ADD, mu_order_id = oid, mu_ticker_id = 0, mu_side = side, mu_price = price,
     mu_qty = 20, mu_priority = 1 \<rparr>"

definition sample_answer :: "ClientResponseType \<Rightarrow> Qty \<Rightarrow> Qty \<Rightarrow> MEClientResponse" where
  "sample_answer ty ex lv = \<lparr> rsp_type = ty, rsp_client_id = 1, rsp_ticker_id = 0, rsp_client_order_id = 1,
     rsp_market_order_id = 3, rsp_side = BUY, rsp_price = 99, rsp_exec_qty = ex, rsp_leaves_qty = lv \<rparr>"

definition result_or :: "'a \<Rightarrow> 'a result \<Rightarrow> 'a" where
  "result_or d r = (case r of Inl _ \<Rightarrow> d | Inr x \<Rightarrow> x)"

definition sample_construct :: "TradeEngine result" where
  "sample_construct = TradeEngine_new (\<lambda>_ _. Fin 0) (\<lambda>_ _. None) (\<lambda>_ _. None) 0 1 Algo_MAKER sample_cfg
     (LFQueue_new 8 MEClientRequest_default) (LFQueue_new 8 MEClientResponse_default) (LFQueue_new 8 MEMarketUpdate_default)"

definition sample_engine :: TradeEngine where "sample_engine = (case sample_construct of Inr te \<Rightarrow> te)"
definition sample_te1 :: TradeEngine where
  "sample_te1 = result_or sample_engine (te_market_update exact_env 0 (sample_add BUY 1 99) sample_engine)"
definition sample_te2 :: TradeEngine where
  "sample_te2 = result_or sample_engine (te_market_update exact_env 0 (sample_add SELL 2 101) sample_te1)"
definition sample_te3 :: TradeEngine where
  "sample_te3 = result_or sample_engine (te_onOrderUpdate exact_env (sample_answer ACCEPTED 0 10) sample_te2)"
definition sample_te4 :: TradeEngine where
  "sample_te4 = result_or sample_engine (te_onOrderUpdate exact_env (sample_answer FILLED 4 6) sample_te3)"

lemma scan_next:
  "\<not> block_free (pool_store p i) \<Longrightarrow> block_free (pool_store p (Suc i)) \<Longrightarrow> Suc i < pool_size p \<Longrightarrow> 0 < fuel \<Longrightarrow>
   scan_free fuel p i i = Inr (Suc i)"
  by (cases fuel) (cases "fuel - 1", auto simp: Let_def)+

lemma sum_level_same: "sum_level fuel R p p q = Inr q"
  by (subst sum_level.simps) simp

lemma upt_tickers: "[0..<8] = [0, 1, 2, 3, 4, 5, 6, 7]"
  by (simp add: upt_rec)

lemmas book_eval = onMarketUpdate_def MarketOrderBook_new_def sample_add_def book_new_def apply_update_def Let_def
  allocate_def updateNextFreeIndex_def scan_next MemPool_new_def ME_MAX_ORDER_IDS_def ME_MAX_PRICE_LEVELS_def mk_addOrder_def
  addOrder_def obj_def getOrdersAtPrice_def modify_def MarketOrder_new_def priceToIndex_def addOrdersAtPrice_def
  set_price_index_def best_of_def set_best_def mk_slot_def updateBBO_def best_summary_def deref_def sum_level_same

lemmas engine_eval = te_market_update_def te_deliver_def te_onOrderBookUpdate_def pk_updateBBO_def pi_updateBBO_def fe_onOrderBookUpdate_def
  two_sided_def dispatchOnOrderBookUpdate_def with_orders_def mm_onOrderBookUpdate_def BBO_default_def PositionKeeper_new_def
  PositionInfo_new_def ME_MAX_TICKERS_def MarketMaker_new_def TradeEngineCfg_default_def sample_cfg_def mm_kill_def mm_quotes_def
  as_ready_def mm_threshold_quotes_def FeatureEngine_new_def Feature_INVALID_def vwap_price_def mid_price_def update_ofi_def
  update_volatility_def d_of_int_def half_def isnan_def moveOrders_def moveOrder_def om_at_def checkPreTradeRisk_def
  ri_checkPreTradeRisk_def RiskManager_new_def newOrder_def om_store_def sendClientRequest_def OrderManager_new_def
  OMOrder_default_def Price_INVALID_def fsub_def setHysteresisTicks_def TradeEngine_new_def upt_tickers to_int32_def
  lf_push_def updateWriteIndex_def write_slot_def getNextToWriteTo_def LFQueue_new_def

lemmas fill_eval = te_onOrderUpdate_def dispatchOnOrderUpdate_def mm_onOrderUpdate_def om_onOrderUpdate_def sample_answer_def
  pk_addFill_def addFill_def fill_adds_def fill_marks_def open_profit_def fill_rebate_def filled_def feq_def

lemmas sample_defs = sample_construct_def sample_engine_def sample_te1_def sample_te2_def result_or_def

lemma sample_construct_eq: "sample_construct = Inr sample_engine"
  by (simp add: sample_defs TradeEngine_new_def ME_MAX_TICKERS_def upt_tickers setHysteresisTicks_def)

lemma sample_step1: "te_market_update exact_env 0 (sample_add BUY 1 99) sample_engine = Inr sample_te1"
  by (simp add: sample_defs engine_eval book_eval)

lemma sample_step2: "te_market_update exact_env 0 (sample_add SELL 2 101) sample_te1 = Inr sample_te2"
  by (simp add: sample_defs engine_eval book_eval)

lemma sample_sent:
  "sent (te_outgoing_ogw_requests sample_engine) (te_outgoing_ogw_requests sample_te1) = []"
  "map (\<lambda>r. (req_type r, req_side r, req_order_id r, req_price r, req_qty r))
     (sent (te_outgoing_ogw_requests sample_te1) (te_outgoing_ogw_requests sample_te2))
   = [(Req_NEW, BUY, 1, 99, 10), (Req_NEW, SELL, 2, 101, 10)]"
  by (simp_all add: sample_defs engine_eval book_eval sent_def)

text \<open>What the engine knows after both updates: an order of ten on each side, and no position.\<close>

lemma sample_te2_orders:
  "om_orders (te_order_manager sample_te2) (0, 2)
     = \<lparr> oo_ticker_id = 0, oo_order_id = 1, oo_side = BUY, oo_price = 99, oo_qty = 10, oo_state = PENDING_NEW \<rparr>"
  "\<exists>mm. te_algo sample_te2 = Maker mm"
  "pi_position (pk_ticker_position (te_position_keeper sample_te2) 0) = 0"
  "pi_open_vwap (pk_ticker_position (te_position_keeper sample_te2) 0) = (\<lambda>_. Fin 0)"
  "pi_real_pnl (pk_ticker_position (te_position_keeper sample_te2) 0) = Fin 0"
  "pk_rebate_bps (te_position_keeper sample_te2) 0 = Fin 0"
  by (simp_all add: sample_defs engine_eval book_eval)

lemma sample_step3: "te_onOrderUpdate exact_env (sample_answer ACCEPTED 0 10) sample_te2 = Inr sample_te3"
  using sample_te2_orders(2)
  by (auto simp: sample_te3_def result_or_def fill_eval with_orders_def om_at_def ME_MAX_TICKERS_def om_store_def)

lemma sample_te3_orders:
  "om_orders (te_order_manager sample_te3) (0, 2)
     = \<lparr> oo_ticker_id = 0, oo_order_id = 1, oo_side = BUY, oo_price = 99, oo_qty = 10, oo_state = LIVE \<rparr>"
  "te_algo sample_te3 = te_algo sample_te2" "te_position_keeper sample_te3 = te_position_keeper sample_te2"
  using sample_te2_orders(2) sample_te2_orders(1)
  by (auto simp: sample_te3_def result_or_def fill_eval with_orders_def om_at_def ME_MAX_TICKERS_def om_store_def Let_def)

lemma sample_step4: "te_onOrderUpdate exact_env (sample_answer FILLED 4 6) sample_te3 = Inr sample_te4"
  using sample_te2_orders sample_te3_orders
  by (auto simp: sample_te4_def result_or_def fill_eval with_orders_def om_at_def ME_MAX_TICKERS_def om_store_def Let_def to_int32_def d_of_int_def)

lemma sample_position: "pi_position (pk_ticker_position (te_position_keeper sample_te4) 0) = 4"
  using sample_te2_orders sample_te3_orders
  by (auto simp: sample_te4_def result_or_def fill_eval with_orders_def om_at_def ME_MAX_TICKERS_def om_store_def Let_def to_int32_def d_of_int_def)

lemma sample_trading_run:
  "te_runs exact_env sample_engine (sent (te_outgoing_ogw_requests sample_te1) (te_outgoing_ogw_requests sample_te2)) sample_te4"
proof -
  have "te_runs exact_env sample_engine ([] @ sent (te_outgoing_ogw_requests sample_engine) (te_outgoing_ogw_requests sample_te1)) sample_te1"
    by (rule te_runs.update[OF te_runs.start sample_step1])
  from te_runs.update[OF this sample_step2]
  have r2: "te_runs exact_env sample_engine (sent (te_outgoing_ogw_requests sample_te1) (te_outgoing_ogw_requests sample_te2)) sample_te2"
    by (simp add: sample_sent(1))
  have "response_ok (te_order_manager sample_te2) (sample_answer ACCEPTED 0 10)"
      "response_ok (te_order_manager sample_te3) (sample_answer FILLED 4 6)"
    using sample_te2_orders(1) sample_te3_orders(1)
    by (simp_all add: response_ok_def sample_answer_def om_at_def ME_MAX_TICKERS_def working_def)
  from te_runs.response[OF te_runs.response[OF r2 this(1) sample_step3] this(2) sample_step4] show ?thesis .
qed

section \<open>Position limit\<close>

lemma runs_within_limit:
  assumes new: "TradeEngine_new vwaps ids levels now client_id algo_type ticker_cfg requests responses updates = Inr te0"
    and queue: "next_write_index requests < lf_capacity requests" "2 \<le> lf_capacity requests"
    and cfg: "\<forall>t < ME_MAX_TICKERS. unat (max_order_size (cfg_risk (ticker_cfg t))) < 2 ^ 31
        \<and> 0 \<le> to_int32 (max_position (cfg_risk (ticker_cfg t)))"
    and run: "te_runs e te0 tape te" and t: "t < ME_MAX_TICKERS"
  shows "\<bar>position_of (te_position_keeper te) t\<bar> \<le> to_int32 (max_position (cfg_risk (ticker_cfg t)))
    \<and> position_of (te_position_keeper te) t + int (exposure (om_orders (te_order_manager te) (t, sideToIndex BUY)))
        \<le> to_int32 (max_position (cfg_risk (ticker_cfg t)))
    \<and> - to_int32 (max_position (cfg_risk (ticker_cfg t)))
        \<le> position_of (te_position_keeper te) t - int (exposure (om_orders (te_order_manager te) (t, sideToIndex SELL)))"
proof -
  have te0: "te_risk_manager te0 = RiskManager_new ticker_cfg" "out_ok te0" using TradeEngine_new_fields[OF new] queue by (simp_all add: out_ok_def)
  have "te_risk_inv te0 []" using te_risk_inv_new[OF new cfg] .
  from risk.run[OF run this te0(2)] have I: "te_risk_inv te tape" by blast
  have "limit (te_risk_manager te) t = to_int32 (max_position (cfg_risk (ticker_cfg t)))"
    using runs_risk_manager[OF run] te0(1) by (simp add: limit_def RiskManager_new_def)
  then show ?thesis using I t by (force simp: te_risk_inv_def risk_inv_def exposed_def)
qed

text \<open>C5: In every run of the trade engine from its constructor, with any interleaving of market updates, responses and reads of the outgoing queue,
  the position of each ticker stays within the configured maximum, and so does the position that the orders still working would lead
  to if they were all filled: \<open>checkPreTradeRisk\<close> on every new order is enough. The responses are those of an exchange that
  fills no more than what the order had left, and the maximum order size is below \<open>2 ^ 31\<close> (the check converts it to \<open>int32_t\<close>).\<close>

theorem position_stays_within_limit:
  assumes new: "TradeEngine_new vwaps ids levels now client_id algo_type ticker_cfg requests responses updates = Inr te0"
    and queue: "next_write_index requests < lf_capacity requests" "2 \<le> lf_capacity requests"
    and cfg: "\<forall>t < ME_MAX_TICKERS. unat (max_order_size (cfg_risk (ticker_cfg t))) < 2 ^ 31
        \<and> 0 \<le> to_int32 (max_position (cfg_risk (ticker_cfg t)))"
    and run: "te_runs e te0 tape te" and t: "t < ME_MAX_TICKERS"
  shows "\<bar>position_of (te_position_keeper te) t\<bar> \<le> to_int32 (max_position (cfg_risk (ticker_cfg t)))
    \<and> position_of (te_position_keeper te) t + int (exposure (om_orders (te_order_manager te) (t, sideToIndex BUY)))
        \<le> to_int32 (max_position (cfg_risk (ticker_cfg t)))
    \<and> - to_int32 (max_position (cfg_risk (ticker_cfg t)))
        \<le> position_of (te_position_keeper te) t - int (exposure (om_orders (te_order_manager te) (t, sideToIndex SELL)))"
  using runs_within_limit[OF assms] .

lemma sample_cfg_limits: "cfg_risk (sample_cfg t) = \<lparr> max_order_size = 100, max_position = 50, max_loss = Fin (- 1000) \<rparr>"
  by (simp add: sample_cfg_def)

lemma position_stays_within_limit_witness:
  "position_of (te_position_keeper sample_te4) 0 = 4 \<and> \<bar>position_of (te_position_keeper sample_te4) 0\<bar> \<le> 50"
proof -
  have cfg: "\<forall>t < ME_MAX_TICKERS. unat (max_order_size (cfg_risk (sample_cfg t))) < 2 ^ 31
        \<and> 0 \<le> to_int32 (max_position (cfg_risk (sample_cfg t)))"
    by (simp add: sample_cfg_limits to_int32_def)
  have "next_write_index (LFQueue_new 8 MEClientRequest_default) < lf_capacity (LFQueue_new 8 MEClientRequest_default)"
      "2 \<le> lf_capacity (LFQueue_new 8 MEClientRequest_default)"
    by (simp_all add: LFQueue_new_def)
  from position_stays_within_limit[OF sample_construct_eq[unfolded sample_construct_def] this cfg sample_trading_run, of 0]
  show ?thesis by (simp add: sample_position position_of_def sample_cfg_limits to_int32_def ME_MAX_TICKERS_def)
qed

section \<open>Requests\<close>

text \<open>C21: The requests that a trade engine ever sends are well-formed: the new orders carry the ids 1, 2, 3 and so on, all requests the client id
  of the engine, and every cancel names the ticker, the id and the side of a new order that was sent before it.\<close>

theorem requests_are_well_formed:
  assumes new: "TradeEngine_new vwaps ids levels now client_id algo_type ticker_cfg requests responses updates = Inr te0"
    and queue: "next_write_index requests < lf_capacity requests" "2 \<le> lf_capacity requests"
    and run: "te_runs e te0 tape te"
  shows "tape_ok tape \<and> map req_order_id (filter is_new tape) = map of_nat [1..<length (filter is_new tape) + 1]
    \<and> (\<forall>r \<in> set tape. req_client_id r = client_id)"
proof -
  have te0: "te_client_id te0 = client_id" "\<forall>p. \<not> working (om_orders (te_order_manager te0) p)"
      "om_next_order_id (te_order_manager te0) = 1" "out_ok te0"
    using TradeEngine_new_fields[OF new] queue by (simp_all add: out_ok_def)
  then have "te_tape_inv te0 []" by (simp add: te_tape_inv_def tape_inv_def tape_ok_def consecutive_ids_def)
  from request_log.run[OF run this te0(4)] have "te_tape_inv te tape" by blast
  then show ?thesis using runs_frame[OF run] te0(1) by (simp add: te_tape_inv_def tape_inv_def consecutive_ids_def same_frame_def Let_def)
qed

lemma requests_are_well_formed_witness:
  "map (\<lambda>r. (req_type r, req_side r, req_order_id r, req_price r, req_qty r))
     (sent (te_outgoing_ogw_requests sample_te1) (te_outgoing_ogw_requests sample_te2))
   = [(Req_NEW, BUY, 1, 99, 10), (Req_NEW, SELL, 2, 101, 10)]
   \<and> tape_ok (sent (te_outgoing_ogw_requests sample_te1) (te_outgoing_ogw_requests sample_te2))"
proof -
  have "next_write_index (LFQueue_new 8 MEClientRequest_default) < lf_capacity (LFQueue_new 8 MEClientRequest_default)"
      "2 \<le> lf_capacity (LFQueue_new 8 MEClientRequest_default)"
    by (simp_all add: LFQueue_new_def)
  from requests_are_well_formed[OF sample_construct_eq[unfolded sample_construct_def] this sample_trading_run] show ?thesis
    using sample_sent(2) by simp
qed

section \<open>Quotes\<close>

text \<open>C22: The market maker does not take liquidity: when the book it sees is not crossed, every new buy order it sends on a book update is
  priced below the best offer and every new sell order above the best bid.\<close>

theorem maker_quotes_are_passive:
  assumes "te_onOrderBookUpdate e now ticker_id bbo te = Inr te'" and "te_algo te = Maker mm"
    and "bid_price bbo < ask_price bbo" and "out_ok te"
    and "r \<in> set (sent (te_outgoing_ogw_requests te) (te_outgoing_ogw_requests te'))" and "req_type r = Req_NEW"
  shows "req_side r = BUY \<and> req_price r < ask_price bbo \<or> req_side r = SELL \<and> bid_price bbo < req_price r"
proof -
  obtain rs where rs: "te_acts te rs te'" "\<forall>r \<in> set rs. req_type r = Req_NEW \<longrightarrow>
      req_side r = BUY \<and> req_price r < ask_price bbo \<or> req_side r = SELL \<and> bid_price bbo < req_price r"
    using book_update_acts[OF assms(1)] assms(2,3) by blast
  then show ?thesis using te_acts_sent[OF rs(1) assms(4)] assms(5,6) by blast
qed

definition sample_bbo :: BBO where
  "sample_bbo = \<lparr> bid_price = 99, ask_price = 101, bid_qty = 20, ask_qty = 20 \<rparr>"

definition sample_quoted :: TradeEngine where
  "sample_quoted = result_or sample_engine (te_onOrderBookUpdate exact_env 0 0 sample_bbo sample_engine)"

lemma sample_quoted_eq: "te_onOrderBookUpdate exact_env 0 0 sample_bbo sample_engine = Inr sample_quoted"
  by (simp add: sample_quoted_def sample_defs engine_eval sample_bbo_def Let_def)

lemma sample_quoted_sent:
  "sent (te_outgoing_ogw_requests sample_engine) (te_outgoing_ogw_requests sample_quoted)
   = [\<lparr> req_type = Req_NEW, req_client_id = 1, req_ticker_id = 0, req_order_id = 1, req_side = BUY, req_price = 99, req_qty = 10 \<rparr>,
      \<lparr> req_type = Req_NEW, req_client_id = 1, req_ticker_id = 0, req_order_id = 2, req_side = SELL, req_price = 101, req_qty = 10 \<rparr>]"
  by (simp add: sample_quoted_def sample_defs engine_eval sample_bbo_def sent_def Let_def)

lemma sample_engine_fields: "\<exists>mm. te_algo sample_engine = Maker mm" "out_ok sample_engine"
  by (simp_all add: sample_defs TradeEngine_new_def ME_MAX_TICKERS_def upt_tickers setHysteresisTicks_def out_ok_def LFQueue_new_def)

lemma maker_quotes_are_passive_witness:
  "\<exists>r. r \<in> set (sent (te_outgoing_ogw_requests sample_engine) (te_outgoing_ogw_requests sample_quoted))
     \<and> req_type r = Req_NEW \<and> req_side r = BUY \<and> req_price r < ask_price sample_bbo"
proof -
  let ?r = "\<lparr> req_type = Req_NEW, req_client_id = 1, req_ticker_id = 0, req_order_id = 1, req_side = BUY, req_price = 99, req_qty = 10 \<rparr>"
  obtain mm where mm: "te_algo sample_engine = Maker mm" using sample_engine_fields by blast
  have r: "?r \<in> set (sent (te_outgoing_ogw_requests sample_engine) (te_outgoing_ogw_requests sample_quoted))"
    by (simp add: sample_quoted_sent)
  have "req_side ?r = BUY \<and> req_price ?r < ask_price sample_bbo \<or> req_side ?r = SELL \<and> bid_price sample_bbo < req_price ?r"
    by (rule maker_quotes_are_passive[OF sample_quoted_eq mm _ sample_engine_fields(2) r]) (simp_all add: sample_bbo_def)
  then show ?thesis using r by auto
qed

text \<open>The requests that pull an order, and the order afterwards.\<close>

definition pull_requests :: "ClientId \<Rightarrow> OMOrder \<Rightarrow> MEClientRequest list" where
  "pull_requests client_id order = (if oo_state order = LIVE then [cancel_request client_id order] else [])"

definition pulled_order :: "OMOrder \<Rightarrow> OMOrder" where
  "pulled_order order = (if oo_state order = LIVE then order\<lparr> oo_state := PENDING_CANCEL \<rparr> else order)"

lemma cancel_if_live_pulls:
  "cancel_if_live client_id p (om, out) =
     (om\<lparr> om_orders := (om_orders om)(p := pulled_order (om_orders om p)) \<rparr>, foldl lf_push out (pull_requests client_id (om_orders om p)))"
  by (simp add: cancel_if_live_def pull_requests_def pulled_order_def prod_eq_iff)

lemma cancelOrders_pulls:
  assumes "cancelOrders client_id ticker_id (om, out) = Inr (om', out')"
  shows "out' = foldl lf_push out (pull_requests client_id (om_orders om (unat ticker_id, sideToIndex BUY)) @ pull_requests client_id (om_orders om (unat ticker_id, sideToIndex SELL)))
    \<and> om_orders om' = (om_orders om)((unat ticker_id, sideToIndex BUY) := pulled_order (om_orders om (unat ticker_id, sideToIndex BUY)),
         (unat ticker_id, sideToIndex SELL) := pulled_order (om_orders om (unat ticker_id, sideToIndex SELL)))"
  using assms by (auto simp: cancelOrders_def om_at_def result_simps cancel_if_live_pulls)

text \<open>C23: When the killswitch of the market maker trips, exactly one cancel goes out for each live order of the ticker, the bid first, with the id, side, price and quantity of that order,
  and nothing else is sent; the cancelled orders wait for the confirmation, and all other orders are as they were.\<close>

theorem killswitch_pulls_the_quotes:
  assumes "te_algo te = Maker mm" and "unat ticker_id < ME_MAX_TICKERS" and "two_sided bbo" and "out_ok te"
    and "fe_onOrderBookUpdate e bbo (te_feature_engine te) = Inr fe"
    and "mm_kill e (mm_ticker_cfg mm (unat ticker_id)) fe bbo = Inr True"
    and "te_onOrderBookUpdate e now ticker_id bbo te = Inr te'"
    and "orders = om_orders (te_order_manager te)"
  shows "sent (te_outgoing_ogw_requests te) (te_outgoing_ogw_requests te')
      = pull_requests (te_client_id te) (orders (unat ticker_id, sideToIndex BUY)) @ pull_requests (te_client_id te) (orders (unat ticker_id, sideToIndex SELL))
    \<and> om_orders (te_order_manager te') = orders((unat ticker_id, sideToIndex BUY) := pulled_order (orders (unat ticker_id, sideToIndex BUY)),
         (unat ticker_id, sideToIndex SELL) := pulled_order (orders (unat ticker_id, sideToIndex SELL)))"
proof -
  let ?s = "(te_order_manager te, te_outgoing_ogw_requests te)"
  let ?rs = "pull_requests (te_client_id te) (orders (unat ticker_id, sideToIndex BUY)) @ pull_requests (te_client_id te) (orders (unat ticker_id, sideToIndex SELL))"
  obtain k om out where o: "cancelOrders (te_client_id te) ticker_id ?s = Inr (om, out)"
    and te': "te' = te\<lparr> te_position_keeper := k, te_feature_engine := fe, te_order_manager := om, te_outgoing_ogw_requests := out \<rparr>"
    using assms(1-7) by (auto simp: te_onOrderBookUpdate_def dispatchOnOrderBookUpdate_def with_orders_eq mm_onOrderBookUpdate_def bindR_eq_Inr)
  have "length ?rs \<le> 2" by (simp add: pull_requests_def)
  then have "sent (te_outgoing_ogw_requests te) (foldl lf_push (te_outgoing_ogw_requests te) ?rs) = ?rs"
    using assms(4) by (intro sent_pushes) (auto simp: out_ok_def)
  then show ?thesis using cancelOrders_pulls[OF o] assms(8) te' by simp
qed

text \<open>A live bid, and a book whose micro-price is half a tick from its mid price.\<close>

definition kill_maker :: MarketMaker where
  "kill_maker = \<lparr> mm_ticker_cfg = (\<lambda>i. (sample_cfg i)\<lparr> cfg_use_killswitch := True, cfg_killswitch_ofi := Fin 10,
     cfg_killswitch_micro_ticks := Fin (1 / 4) \<rparr>), mm_session_start_ns = 0 \<rparr>"

definition kill_bbo :: BBO where
  "kill_bbo = \<lparr> bid_price = 99, ask_price = 101, bid_qty = 20, ask_qty = 60 \<rparr>"

definition kill_engine :: TradeEngine where
  "kill_engine = sample_engine\<lparr> te_algo := Maker kill_maker, te_order_manager := OrderManager_new\<lparr> om_orders := (om_orders OrderManager_new)
     ((0, 2) := \<lparr> oo_ticker_id = 0, oo_order_id = 1, oo_side = BUY, oo_price = 99, oo_qty = 10, oo_state = LIVE \<rparr>) \<rparr> \<rparr>"

definition killed_engine :: TradeEngine where
  "killed_engine = result_or kill_engine (te_onOrderBookUpdate exact_env 0 0 kill_bbo kill_engine)"

lemmas kill_eval = kill_engine_def kill_maker_def kill_bbo_def sample_defs engine_eval cancelOrders_def cancel_if_live_def
  cancelOrder_def Let_def

lemma killswitch_pulls_the_quotes_witness:
  "sent (te_outgoing_ogw_requests kill_engine) (te_outgoing_ogw_requests killed_engine)
     = [\<lparr> req_type = Req_CANCEL, req_client_id = te_client_id kill_engine, req_ticker_id = 0, req_order_id = 1, req_side = BUY, req_price = 99, req_qty = 10 \<rparr>]
   \<and> oo_state (om_orders (te_order_manager killed_engine) (0, 2)) = PENDING_CANCEL"
proof -
  have upd: "te_onOrderBookUpdate exact_env 0 0 kill_bbo kill_engine = Inr killed_engine"
    by (simp add: killed_engine_def kill_eval)
  have fe: "\<exists>fe. fe_onOrderBookUpdate exact_env kill_bbo (te_feature_engine kill_engine) = Inr fe
      \<and> mm_kill exact_env (mm_ticker_cfg kill_maker (unat (0 :: TickerId))) fe kill_bbo = Inr True"
    by (simp add: kill_eval)
  then obtain fe where "fe_onOrderBookUpdate exact_env kill_bbo (te_feature_engine kill_engine) = Inr fe"
      "mm_kill exact_env (mm_ticker_cfg kill_maker (unat (0 :: TickerId))) fe kill_bbo = Inr True"
    by blast
  note pulls = killswitch_pulls_the_quotes[OF _ _ _ _ this upd refl]
  have o: "om_orders (te_order_manager kill_engine) (0, 2) = \<lparr> oo_ticker_id = 0, oo_order_id = 1, oo_side = BUY, oo_price = 99, oo_qty = 10, oo_state = LIVE \<rparr>"
      "oo_state (om_orders (te_order_manager kill_engine) (0, 0)) = OM_INVALID"
    by (simp_all add: kill_engine_def OrderManager_new_def OMOrder_default_def)
  have "te_algo kill_engine = Maker kill_maker" "two_sided kill_bbo" "out_ok kill_engine" "unat (0 :: TickerId) < ME_MAX_TICKERS"
    by (simp_all add: kill_eval out_ok_def)
  from pulls[OF this(1,4,2,3)] o show ?thesis by (simp add: pull_requests_def pulled_order_def cancel_request_def)
qed

end
