(* ===== verification/SignalTheorems.thy ===== *)
theory SignalTheorems
  imports FeatureEngine
begin

text \<open>Properties of the position keeper and of the signals: accounting, the micro-price, and VPIN.\<close>

section \<open>Profit and loss\<close>

text \<open>C24: What a position earned is accounted for, in exact arithmetic: after fills in any order, through zero or not, with any rebate, the position
  is the sum of the signed quantities, the volume the sum of the quantities, the total profit is the cash of the fills plus the value of the position at the
  price of the last one, and the realised profit is the cash plus the cost of what is open, or minus its proceeds when it is short. The cash is that of the
  fills and rebates, off by what the constructor left uninitialised in \<open>open_vwap_\<close> of the side of the first fill, to which that fill adds: it stays in the
  profit for good.\<close>

theorem profit_accounts_for_cash:
  assumes "\<forall>r \<in> set rs. is_fill r" and "rs \<noteq> []" and "0 < filled (hd rs)"
    and "vwap (sideToIndex BUY) = Fin b0" and "vwap (sideToIndex SELL) = Fin s0"
    and "foldR (addFill exact_env (Fin bps)) rs (PositionInfo_new vwap) = Inr p"
    and "cash = cash_of bps rs - (if rsp_side (hd rs) = BUY then b0 else - s0)"
  shows "pi_position p = sum_list (map fill_sign rs) \<and> pi_volume p = sum_list (map rsp_exec_qty rs)
    \<and> pi_total_pnl p = Fin (cash + real_of_int (pi_position p * rsp_price (last rs)))
    \<and> (\<exists>cost. pi_open_vwap p (sideToIndex (if 0 < pi_position p then BUY else SELL)) = Fin cost
         \<and> pi_real_pnl p = Fin (if 0 < pi_position p then cash + cost else cash - cost)
         \<and> (pi_position p = 0 \<longrightarrow> cost = 0))"
proof -
  obtain r rs' where rs: "rs = r # rs'" using assms(2) by (cases rs) simp_all
  have v: "vwap 2 = Fin b0" "vwap 0 = Fin s0" and "cash = cash_of bps (r # rs') + (if rsp_side r = BUY then - b0 else s0)"
    using assms(4,5,7) rs by simp_all
  note b = addFills_from_start[OF assms(1)[unfolded rs] _ v assms(6)[unfolded rs] this(3)]
  have hd: "0 < filled r" using assms(3) rs by simp
  obtain b s g where g: "pi_open_vwap p 2 = Fin b" "pi_open_vwap p 0 = Fin s" "pi_real_pnl p = Fin g"
      "cash = g - (if 0 < pi_position p then b else 0) + (if pi_position p < 0 then s else 0)" "pi_position p = 0 \<longrightarrow> b = 0 \<and> s = 0"
    using b[OF hd] unfolding books_balance_def by blast
  have "\<exists>cost. pi_open_vwap p (sideToIndex (if 0 < pi_position p then BUY else SELL)) = Fin cost
      \<and> pi_real_pnl p = Fin (if 0 < pi_position p then cash + cost else cash - cost) \<and> (pi_position p = 0 \<longrightarrow> cost = 0)"
    by (rule exI[of _ "if 0 < pi_position p then b else s"]) (use g in auto)
  then show ?thesis using b[OF hd] unfolding rs by blast
qed

definition sample_fill :: "Side \<Rightarrow> Qty \<Rightarrow> Price \<Rightarrow> MEClientResponse" where
  "sample_fill side qty price = MEClientResponse_default\<lparr> rsp_type := FILLED, rsp_side := side, rsp_exec_qty := qty, rsp_price := price \<rparr>"

text \<open>Buy ten at 100, sell fifteen at 104: a profit of 40 on ten, and five are short at 104. With a 7 in the memory of \<open>open_vwap_\<close> the profit is 33.\<close>

lemma profit_accounts_for_cash_witness:
  "\<exists>p. foldR (addFill exact_env (Fin 0)) [sample_fill BUY 10 100, sample_fill SELL 15 104] (PositionInfo_new (\<lambda>_. Fin 7)) = Inr p
     \<and> pi_position p = - 5 \<and> pi_volume p = 25 \<and> pi_total_pnl p = Fin 33"
proof -
  let ?rs = "[sample_fill BUY 10 100, sample_fill SELL 15 104]"
  obtain p where run: "foldR (addFill exact_env (Fin 0)) ?rs (PositionInfo_new (\<lambda>_. Fin 7)) = Inr p"
    by (simp add: sample_fill_def PositionInfo_new_def addFill_def fill_adds_def fill_reduces_def fill_marks_def open_profit_def
        fill_rebate_def filled_def feq_def Let_def to_int32_def)
  have f: "filled (sample_fill side 10 100) = 10" "filled (sample_fill side 15 104) = 15" for side
    by (simp_all add: filled_def sample_fill_def)
  have s: "rsp_side (sample_fill side q x) = side" "rsp_price (sample_fill side q x) = x" "rsp_exec_qty (sample_fill side q x) = q" for side q x
    by (simp_all add: sample_fill_def)
  have "\<forall>r \<in> set ?rs. is_fill r" by (simp add: is_fill_def f s)
  from profit_accounts_for_cash[OF this _ _ refl refl run refl] show ?thesis
    using run by (auto simp: fill_cash_def rebate_of_def fill_sign_def f s)
qed

text \<open>Reducing a large position is undefined: \<open>addFill\<close> multiplies the position before and after the fill as 32-bit integers to see whether the
  sign turned, and a product of \<open>2 ^ 31\<close> or more overflows, from positions of 46341 on.\<close>

theorem reducing_a_large_position_overflows:
  assumes "rsp_side r = SELL" and "0 < filled r" and "filled r \<le> pi_position p" and "pi_position p < 2 ^ 31"
    and "2 ^ 31 \<le> (pi_position p - filled r) * pi_position p"
  shows "addFill e bps r p = Inl ArithmeticUB"
proof -
  have e: "to_int32 (rsp_exec_qty r) = filled r" using assms(3,4) by (intro to_int32_small) simp
  have "int32 ((pi_position p - filled r) * pi_position p) = Inl ArithmeticUB" using assms(5) by (simp add: int32_def)
  then show ?thesis using assms(1-4) e by (simp add: addFill_def fill_reduces_def Let_def)
qed

lemma reducing_a_large_position_overflows_witness:
  "addFill exact_env (Fin 0) (sample_fill SELL 1 100) ((PositionInfo_new (\<lambda>_. Fin 0))\<lparr> pi_position := 50000 \<rparr>) = Inl ArithmeticUB"
proof -
  have "filled (sample_fill SELL 1 100) = 1" by (simp add: filled_def sample_fill_def)
  then show ?thesis by (intro reducing_a_large_position_overflows) (simp_all add: sample_fill_def)
qed

section \<open>Micro-price\<close>

text \<open>C25: For a two-sided book that is not crossed, whose two quantities add up to less than \<open>2 ^ 32\<close> and whose prices, times these quantities in the
  variant weighted by volume and times two in the other, are at most \<open>2 ^ 53\<close>, the update of the features returns and the micro-price lies between the
  best bid and the best offer, in both variants and for every rounding that keeps the order and is exact on integers and halves of up to 53 bits.\<close>

theorem micro_price_within_the_spread:
  assumes "rounds_halves e" and "two_sided bbo" and "qtys_ok bbo" and "bid_price bbo \<le> ask_price bbo"
    and "micro_in_range (fe_use_stoikov_micro fe) bbo"
  shows "\<exists>fe' m. fe_onOrderBookUpdate e bbo fe = Inr fe' \<and> fe_mkt_price fe' = Fin m
    \<and> real_of_int (bid_price bbo) \<le> m \<and> m \<le> real_of_int (ask_price bbo)"
proof -
  have e: "rounds_well e" using assms(1) by (simp add: rounds_halves_def)
  obtain m where m: "(if fe_use_stoikov_micro fe then stoikov_price e bbo else vwap_price e bbo) = Inr (Fin m)"
      "real_of_int (bid_price bbo) \<le> m" "m \<le> real_of_int (ask_price bbo)"
    using stoikov_between[OF assms(1,3,4)] vwap_between[OF e assms(3,4)] assms(5) by (cases "fe_use_stoikov_micro fe") auto
  obtain mid where "mid_price e bbo = Inr mid" using mid_price_defined[OF assms(3,5)] by blast
  then have "fe_onOrderBookUpdate e bbo fe = Inr (update_ofi e bbo (update_volatility e mid (fe\<lparr> fe_mkt_price := Fin m \<rparr>)))"
    unfolding fe_onOrderBookUpdate_def m(1) using assms(2) by simp
  moreover have "fe_mkt_price (update_ofi e bbo (update_volatility e mid (fe\<lparr> fe_mkt_price := Fin m \<rparr>))) = Fin m"
    by (simp add: update_ofi_def update_volatility_def Let_def)
  ultimately show ?thesis using m(2,3) by blast
qed

definition wide_bbo :: BBO where
  "wide_bbo = \<lparr> bid_price = 100, ask_price = 104, bid_qty = 30, ask_qty = 10 \<rparr>"

text \<open>A coarse rounding that keeps the laws: down to multiples of one half.\<close>

definition half_env :: fpenv where
  "half_env = \<lparr> fp_rnd = (\<lambda>x. Fin (real_of_int \<lfloor>x * 2\<rfloor> / 2)), fp_log1p = (\<lambda>_. NaN), fp_log = (\<lambda>_. NaN) \<rparr>"

lemma half_env_rounds: "rounds_halves half_env"
proof -
  have "fp_rnd half_env (real_of_int i) = Fin (real_of_int i)" for i
  proof -
    have "\<lfloor>real_of_int i * 2\<rfloor> = i * 2" by (metis floor_of_int of_int_mult of_int_numeral)
    then show ?thesis by (simp add: half_env_def)
  qed
  moreover have "fp_rnd half_env (real_of_int i / 2) = Fin (real_of_int i / 2)" for i by (simp add: half_env_def)
  moreover have "x \<le> y \<Longrightarrow> fle (fp_rnd half_env x) (fp_rnd half_env y)" for x y by (simp add: half_env_def floor_mono)
  moreover have "fp_rnd half_env x \<noteq> NaN" for x by (simp add: half_env_def)
  ultimately show ?thesis unfolding rounds_halves_def rounds_well_def by blast
qed

lemma micro_price_within_the_spread_witness:
  "\<exists>fe' m. fe_onOrderBookUpdate half_env wide_bbo (FeatureEngine_new (TradeEngineCfg_default half_env)) = Inr fe'
     \<and> fe_mkt_price fe' = Fin m \<and> 100 \<le> m \<and> m \<le> 104"
proof -
  let ?fe = "FeatureEngine_new (TradeEngineCfg_default half_env)"
  have w: "two_sided wide_bbo" "qtys_ok wide_bbo" "bid_price wide_bbo \<le> ask_price wide_bbo" "bid_price wide_bbo = 100" "ask_price wide_bbo = 104"
    "micro_in_range (fe_use_stoikov_micro ?fe) wide_bbo"
    by (simp_all add: two_sided_def wide_bbo_def qtys_ok_def Price_INVALID_def micro_in_range_def)
  from micro_price_within_the_spread[OF half_env_rounds w(1-3,6)] show ?thesis using w(4,5) by simp
qed

section \<open>VPIN\<close>

text \<open>What the trade engine feeds to the features: updates of the book and trades, in any order.\<close>

datatype fe_event = Book_event BBO | Trade_event MEMarketUpdate BBO

primrec fe_handle :: "fpenv \<Rightarrow> fe_event \<Rightarrow> FeatureEngine \<Rightarrow> FeatureEngine result" where
  "fe_handle e (Book_event bbo) fe = fe_onOrderBookUpdate e bbo fe"
| "fe_handle e (Trade_event u bbo) fe = fe_onTradeUpdate e u bbo fe"

lemma fe_onTradeUpdate_ok:
  assumes "rounds_well e" and "vpin_ok n (fe_vpin fe)"
  shows "\<exists>fe'. fe_onTradeUpdate e u bbo fe = Inr fe' \<and> vpin_ok n (fe_vpin fe')"
proof -
  have "unat (mu_qty u) < 2 ^ 32" using unsigned_less[of "mu_qty u"] by simp
  then have "unat (mu_qty u) \<le> 2 ^ 53" by simp
  from vpin_onTrade_ok[OF assms this, of "mu_side u = BUY"] show ?thesis
    using assms(2) unfolding fe_onTradeUpdate_def d_of_qty_rounds[OF assms(1)] by (auto simp: Let_def)
qed

lemma updates_keep_vpin: "fe_vpin (update_ofi e bbo fe) = fe_vpin fe" "fe_vpin (update_volatility e mid fe) = fe_vpin fe"
  by (simp_all add: update_ofi_def update_volatility_def Let_def)

lemma fe_handle_ok:
  assumes "rounds_well e" and "vpin_ok n (fe_vpin fe)" and "fe_handle e ev fe = Inr fe'"
  shows "vpin_ok n (fe_vpin fe')"
proof (cases ev)
  case (Book_event bbo)
  have "fe_vpin fe' = fe_vpin fe"
    using assms(3) Book_event
    by (cases "two_sided bbo") (auto simp: fe_onOrderBookUpdate_def result_simps updates_keep_vpin split del: if_split)
  then show ?thesis using assms(2) by simp
next
  case (Trade_event u bbo)
  then show ?thesis using fe_onTradeUpdate_ok[OF assms(1,2), of u bbo] assms(3) by auto
qed

lemma fe_events_ok:
  "rounds_well e \<Longrightarrow> vpin_ok n (fe_vpin fe) \<Longrightarrow> foldR (fe_handle e) evs fe = Inr fe' \<Longrightarrow> vpin_ok n (fe_vpin fe')"
proof (induction evs arbitrary: fe)
  case (Cons ev evs)
  obtain fe1 where "fe_handle e ev fe = Inr fe1" "foldR (fe_handle e) evs fe1 = Inr fe'" using Cons.prems(3) by (auto simp: result_simps)
  then show ?case using Cons.IH[OF Cons.prems(1)] fe_handle_ok[OF Cons.prems(1,2)] by blast
qed simp

text \<open>C26: With a bucket size that is a whole number from 1 to \<open>2 ^ 53\<close>, and a rounding that keeps the order and is exact on integers of up to
  53 bits, the loop of \<open>Vpin::onTrade\<close> ends for every trade, in each state that the feature engine comes to by updates of the book and
  trades in any order, and \<open>getVPIN\<close> there is a fraction between zero and one once the window is full, and not a number before.\<close>

theorem vpin_ends_and_is_a_fraction:
  assumes "rounds_well e" and "cfg_use_vpin cfg" and "cfg_vpin_bucket_size cfg = Fin (real n)" and "0 < n" and "n \<le> 2 ^ 53"
    and "foldR (fe_handle e) evs (FeatureEngine_new cfg) = Inr fe"
  shows "(\<exists>fe'. fe_onTradeUpdate e u bbo fe = Inr fe')
    \<and> (if buckets_seen (fe_vpin fe) < kVpinWindow then getVPIN e fe = NaN
       else \<exists>x. getVPIN e fe = Fin x \<and> 0 \<le> x \<and> x \<le> 1)"
proof -
  have "vpin_ok n (fe_vpin (FeatureEngine_new cfg))" using vpin_ok_new[OF assms(4,5)] assms(2-4) by (simp add: FeatureEngine_new_def)
  note ok = fe_events_ok[OF assms(1) this assms(6)]
  have "\<exists>fe'. fe_onTradeUpdate e u bbo fe = Inr fe'" using fe_onTradeUpdate_ok[OF assms(1) ok] by blast
  moreover have "if buckets_seen (fe_vpin fe) < kVpinWindow then getVPIN e fe = NaN
       else \<exists>x. getVPIN e fe = Fin x \<and> 0 \<le> x \<and> x \<le> 1"
    using vpin_value_ok[OF assms(1) ok] unfolding getVPIN_def unit_double_def .
  ultimately show ?thesis by blast
qed

text \<open>Buckets of ten: after 25 bought, two are closed and one is half full.\<close>

definition vpin_cfg :: TradeEngineCfg where
  "vpin_cfg = (TradeEngineCfg_default exact_env)\<lparr> cfg_use_vpin := True, cfg_vpin_bucket_size := Fin 10 \<rparr>"

definition bought :: "Qty \<Rightarrow> MEMarketUpdate" where
  "bought q = MEMarketUpdate_default\<lparr> mu_type := TRADE, mu_side := BUY, mu_qty := q \<rparr>"

lemma vpin_ends_and_is_a_fraction_witness:
  "\<exists>fe fe'. foldR (fe_handle exact_env) [Trade_event (bought 25) wide_bbo, Book_event wide_bbo] (FeatureEngine_new vpin_cfg) = Inr fe
    \<and> fe_onTradeUpdate exact_env (bought 600) wide_bbo fe = Inr fe'
    \<and> (if buckets_seen (fe_vpin fe) < kVpinWindow then getVPIN exact_env fe = NaN
       else \<exists>x. getVPIN exact_env fe = Fin x \<and> 0 \<le> x \<and> x \<le> 1)"
proof -
  have c: "cfg_use_vpin vpin_cfg" "cfg_vpin_bucket_size vpin_cfg = Fin (real 10)" by (simp_all add: vpin_cfg_def)
  have ok: "vpin_ok 10 (fe_vpin (FeatureEngine_new vpin_cfg))" using vpin_ok_new[of 10] c by (simp add: FeatureEngine_new_def)
  obtain fe0 where fe0: "fe_onTradeUpdate exact_env (bought 25) wide_bbo (FeatureEngine_new vpin_cfg) = Inr fe0"
    using fe_onTradeUpdate_ok[OF exact_rounds_well ok] by blast
  obtain fe where fe: "fe_onOrderBookUpdate exact_env wide_bbo fe0 = Inr fe"
    by (cases "fe_use_stoikov_micro fe0")
      (simp_all add: fe_onOrderBookUpdate_def wide_bbo_def two_sided_def Price_INVALID_def stoikov_price_def vwap_price_def mid_price_def Let_def)
  have "foldR (fe_handle exact_env) [Trade_event (bought 25) wide_bbo, Book_event wide_bbo] (FeatureEngine_new vpin_cfg) = Inr fe"
    using fe0 fe by simp
  from this vpin_ends_and_is_a_fraction[OF exact_rounds_well c _ _ this] show ?thesis by force
qed

text \<open>A state in which a round changes nothing that matters to the next one.\<close>

definition vpin_stuck :: "fpenv \<Rightarrow> real \<Rightarrow> real \<Rightarrow> Vpin \<Rightarrow> bool" where
  "vpin_stuck e sz qty v \<longleftrightarrow> bucket_size v = Fin sz \<and> cur_filled v = Fin 0 \<and> 0 < sz \<and> sz < qty
     \<and> fp_rnd e sz = Fin sz \<and> fp_rnd e (qty - sz) = Fin qty"

lemma vpin_pour_stuck:
  assumes "vpin_stuck e sz qty v"
  shows "\<exists>v'. vpin_pour e buy (Fin qty) v = (Fin qty, v') \<and> vpin_stuck e sz qty v'"
  using assms by (auto simp: vpin_stuck_def vpin_pour_def closeBucket_def fsub_def fmin_def Let_def)

lemma vpin_loop_stuck:
  assumes "vpin_loop e buy r v = Some v'"
  shows "r = Fin qty \<longrightarrow> \<not> vpin_stuck e sz qty v"
proof (induction rule: vpin_loop.raw_induct[OF _ assms])
  case (1 loop e b r w y)
  show ?case
  proof (intro impI notI)
    assume r: "r = Fin qty" and a: "vpin_stuck e sz qty w"
    then obtain w' where w': "vpin_pour e b (Fin qty) w = (Fin qty, w')" "vpin_stuck e sz qty w'" using vpin_pour_stuck by blast
    have "0 < qty" using a by (simp add: vpin_stuck_def)
    then have "loop e b (Fin qty) w' = Some y" using 1(2) r w'(1) by simp
    then show False using 1(1) w'(2) by blast
  qed
qed

text \<open>In rounded arithmetic the loop can run forever: when the bucket is so small that taking it from the quantity rounds back
  to the quantity, every round closes a bucket and leaves the rest as it was.\<close>

theorem vpin_tiny_bucket_never_ends:
  assumes "bucket_size v = Fin sz" and "cur_filled v = Fin 0" and "0 < sz" and "sz < qty"
    and "fp_rnd e sz = Fin sz" and "fp_rnd e (qty - sz) = Fin qty"
  shows "vpin_onTrade e (Fin qty) buy v = None"
  using vpin_loop_stuck[of e buy "Fin qty" v _ qty sz] assms by (cases "vpin_loop e buy (Fin qty) v") (simp_all add: vpin_onTrade_def vpin_stuck_def)

text \<open>Above \<open>2 ^ 31\<close> a double has 21 fractional bits: a bucket of \<open>2 ^ - 23\<close> is lost in the largest quantity.\<close>

definition coarse_env :: fpenv where
  "coarse_env = \<lparr> fp_rnd = (\<lambda>x. if 2 ^ 31 \<le> x then Fin (real_of_int \<lfloor>x * 2 ^ 21 + 1 / 2\<rfloor> / 2 ^ 21) else Fin x), fp_log1p = (\<lambda>_. NaN), fp_log = (\<lambda>_. NaN) \<rparr>"

lemma vpin_tiny_bucket_never_ends_witness:
  "vpin_onTrade coarse_env (Fin (2 ^ 32 - 1)) True (setBucketSize (Fin (1 / 2 ^ 23)) Vpin_new) = None"
proof (rule vpin_tiny_bucket_never_ends)
  have "\<lfloor>(2 ^ 32 - 1 - 1 / 2 ^ 23) * 2 ^ 21 + 1 / 2 :: real\<rfloor> = (2 ^ 32 - 1) * 2 ^ 21"
    by (rule floor_unique) simp_all
  then show "fp_rnd coarse_env (2 ^ 32 - 1 - 1 / 2 ^ 23) = Fin (2 ^ 32 - 1)" by (simp add: coarse_env_def)
qed (simp_all add: setBucketSize_def Vpin_new_def coarse_env_def)

end
