(* ===== verification/OrderServer.thy ===== *)
theory OrderServer
  imports Sockets LFQueue
begin

text \<open>
  \<^verbatim>\<open>exchange/order_server/fifo_sequencer.h\<close>, \<^verbatim>\<open>exchange/order_server/order_server.h\<close>,
  \<^verbatim>\<open>exchange/order_server/order_server.cpp\<close> and \<^verbatim>\<open>common/tcp_server.cpp\<close>: the exchange's order gateway.
  Connections are numbered in the order they were accepted. \<open>std::sort\<close> is the parameter
  \<open>sort_pending\<close>; it is only known to return a permutation ordered by receive time.
\<close>

section \<open>FIFOSequencer\<close>

definition ME_MAX_PENDING_REQUESTS :: nat where "ME_MAX_PENDING_REQUESTS = 1024"

type_synonym Nanos = int
type_synonym pending = "(Nanos \<times> MEClientRequest) list"

definition addClientRequest :: "Nanos \<Rightarrow> MEClientRequest \<Rightarrow> pending \<Rightarrow> pending result" where
  "addClientRequest rx_time request pending =
     (if length pending \<ge> ME_MAX_PENDING_REQUESTS then FATAL ''Too many pending requests''
      else Inr (pending @ [(rx_time, request)]))"

definition sequenceAndPublish :: "(pending \<Rightarrow> pending) \<Rightarrow> pending \<Rightarrow> MEClientRequest LFQueue \<Rightarrow>
    pending \<times> MEClientRequest LFQueue" where
  "sequenceAndPublish sort_pending pending q =
     (if pending = [] then (pending, q)
      else ([], foldl lf_push q (map snd (sort_pending pending))))"

text \<open>What \<open>std::sort\<close> guarantees: nothing about the order of equal elements.\<close>

definition sorts_by_time :: "(pending \<Rightarrow> pending) \<Rightarrow> bool" where
  "sorts_by_time f \<longleftrightarrow> (\<forall>xs. mset (f xs) = mset xs \<and> sorted (map fst (f xs)))"

section \<open>State of the server\<close>

record OrderServer =
  os_sockets :: "TCPSocket list"
  os_cid_tcp_socket :: "nat \<Rightarrow> nat option"
  os_cid_next_exp_seq_num :: "nat \<Rightarrow> nat"
  os_cid_next_outgoing_seq_num :: "nat \<Rightarrow> nat"
  os_pending :: pending
  os_requests :: "MEClientRequest LFQueue"
  os_responses :: "MEClientResponse LFQueue"

definition OrderServer_new :: "MEClientRequest LFQueue \<Rightarrow> MEClientResponse LFQueue \<Rightarrow> OrderServer" where
  "OrderServer_new reqs rsps =
     \<lparr> os_sockets = [], os_cid_tcp_socket = (\<lambda>_. None), os_cid_next_exp_seq_num = (\<lambda>_. 1),
       os_cid_next_outgoing_seq_num = (\<lambda>_. 1), os_pending = [], os_requests = reqs, os_responses = rsps \<rparr>"

text \<open>\<open>TCPServer::poll\<close>: accept what is waiting, given by the file descriptors.\<close>

definition server_poll :: "int list \<Rightarrow> OrderServer \<Rightarrow> OrderServer" where
  "server_poll fds s = s\<lparr> os_sockets := os_sockets s @ map TCPSocket_new fds \<rparr>"

section \<open>Requests\<close>

text \<open>The body of the loop of \<open>recvCallback\<close> for one message on connection \<open>k\<close>; \<open>continue\<close> returns the state.\<close>

definition handle_request :: "nat \<Rightarrow> Nanos \<Rightarrow> OMClientRequest \<Rightarrow> OrderServer \<Rightarrow> OrderServer result" where
  "handle_request k rx_time request s =
     bindR (index ME_MAX_NUM_CLIENTS (unat (req_client_id (omreq_request request)))) (\<lambda>c.
     let s1 = (if os_cid_tcp_socket s c = None
               then s\<lparr> os_cid_tcp_socket := (os_cid_tcp_socket s)(c := Some k) \<rparr> else s) in
     if os_cid_tcp_socket s1 c \<noteq> Some k then Inr s1
     else if omreq_seq_num request \<noteq> os_cid_next_exp_seq_num s1 c then Inr s1
     else
       let s2 = s1\<lparr> os_cid_next_exp_seq_num := (os_cid_next_exp_seq_num s1)(c := os_cid_next_exp_seq_num s1 c + 1) \<rparr> in
       bindR (addClientRequest rx_time (omreq_request request) (os_pending s2)) (\<lambda>p. Inr (s2\<lparr> os_pending := p \<rparr>)))"

definition server_recvCallback :: "nat \<Rightarrow> TCPSocket \<Rightarrow> Nanos \<Rightarrow> OrderServer \<Rightarrow> (TCPSocket \<times> OrderServer) result" where
  "server_recvCallback k socket rx_time s =
     bindR (consume sizeof_OMClientRequest (\<lambda>m. handle_request k rx_time (decode_OMClientRequest m)) (sock_in socket) s)
       (\<lambda>(rest, s'). Inr (socket\<lparr> sock_in := rest \<rparr>, s'))"

definition recvFinishedCallback :: "(pending \<Rightarrow> pending) \<Rightarrow> OrderServer \<Rightarrow> OrderServer" where
  "recvFinishedCallback sort_pending s =
     (let (p, q) = sequenceAndPublish sort_pending (os_pending s) (os_requests s)
      in s\<lparr> os_pending := p, os_requests := q \<rparr>)"

text \<open>
  \<open>TCPServer::sendAndRecv\<close>: every connection in turn, with \<open>net k\<close> what the kernel has for
  connection \<open>k\<close>, and the callback at the end if any of them received.
\<close>

definition server_socket_round :: "(nat \<Rightarrow> io) \<Rightarrow> nat \<Rightarrow> OrderServer \<times> bool \<Rightarrow> (OrderServer \<times> bool) result" where
  "server_socket_round net k = (\<lambda>(s, any_rx).
     bindR (tcp_sendAndRecv (server_recvCallback k) (net k) (os_sockets s ! k) s) (\<lambda>(sock, s1, rx).
     Inr (s1\<lparr> os_sockets := (os_sockets s1)[k := sock] \<rparr>, any_rx \<or> rx)))"

definition server_sendAndRecv :: "(pending \<Rightarrow> pending) \<Rightarrow> (nat \<Rightarrow> io) \<Rightarrow> OrderServer \<Rightarrow> OrderServer result" where
  "server_sendAndRecv sort_pending net s =
     bindR (foldR (server_socket_round net) [0..<length (os_sockets s)] (s, False)) (\<lambda>(s1, any_rx).
     Inr (if any_rx then recvFinishedCallback sort_pending s1 else s1))"

section \<open>Responses\<close>

text \<open>The body of the loop of \<open>run\<close> that sends one response.\<close>

definition send_response :: "MEClientResponse \<Rightarrow> OrderServer \<Rightarrow> OrderServer result" where
  "send_response rsp s =
     bindR (index ME_MAX_NUM_CLIENTS (unat (rsp_client_id rsp))) (\<lambda>c.
     bindR (ASSERT (os_cid_tcp_socket s c \<noteq> None) ''Dropping response to unknown client_id:'') (\<lambda>_.
     let k = the (os_cid_tcp_socket s c); seq = os_cid_next_outgoing_seq_num s c in
     bindR (tcp_send (os_sockets s ! k) (le_bytes 8 seq)) (\<lambda>sock1.
     bindR (tcp_send sock1 (encode_MEClientResponse rsp)) (\<lambda>sock2.
     Inr (s\<lparr> os_sockets := (os_sockets s)[k := sock2],
            os_cid_next_outgoing_seq_num := (os_cid_next_outgoing_seq_num s)(c := seq + 1) \<rparr>)))))"

definition drain_responses :: "OrderServer \<Rightarrow> OrderServer result" where
  "drain_responses s =
     bindR (lf_drain (lf_size (os_responses s)) send_response (os_responses s) s) (\<lambda>(q, s').
     Inr (s'\<lparr> os_responses := q \<rparr>))"

text \<open>One round of the loop of \<open>run\<close>.\<close>

definition server_round :: "(pending \<Rightarrow> pending) \<Rightarrow> int list \<Rightarrow> (nat \<Rightarrow> io) \<Rightarrow> OrderServer \<Rightarrow> OrderServer result" where
  "server_round sort_pending fds net s =
     bindR (server_sendAndRecv sort_pending net (server_poll fds s)) drain_responses"

section \<open>Which requests are accepted\<close>

text \<open>
  The messages of one client with the expected sequence numbers, in the order they arrive: what the
  server must let through.
\<close>

fun in_sequence :: "nat \<Rightarrow> OMClientRequest list \<Rightarrow> OMClientRequest list" where
  "in_sequence n [] = []"
| "in_sequence n (r # rs) = (if omreq_seq_num r = n then r # in_sequence (n + 1) rs else in_sequence n rs)"

lemma in_sequence_numbers: "map omreq_seq_num (in_sequence n rs) = [n..<n + length (in_sequence n rs)]"
proof (induction n rs rule: in_sequence.induct)
  case (2 n r rs)
  let ?k = "\<lambda>m. length (in_sequence m rs)"
  have "[n..<n + Suc (?k (n + 1))] = n # [n + 1..<(n + 1) + ?k (n + 1)]"
    by (subst upt_conv_Cons) simp_all
  then show ?case using 2 by (simp del: upt_Suc)
qed simp

lemma handle_requests_accept:
  assumes "os_cid_tcp_socket s c = None \<or> os_cid_tcp_socket s c = Some k" and "c < ME_MAX_NUM_CLIENTS"
    and "\<And>r. r \<in> set rs \<Longrightarrow> unat (req_client_id (omreq_request r)) = c"
    and "length (os_pending s) + length (in_sequence (os_cid_next_exp_seq_num s c) rs) \<le> ME_MAX_PENDING_REQUESTS"
  shows "\<exists>s'. foldR (handle_request k rx) rs s = Inr s'
     \<and> os_pending s' = os_pending s @ map (\<lambda>r. (rx, omreq_request r)) (in_sequence (os_cid_next_exp_seq_num s c) rs)
     \<and> os_cid_next_exp_seq_num s' c = os_cid_next_exp_seq_num s c + length (in_sequence (os_cid_next_exp_seq_num s c) rs)
     \<and> (rs \<noteq> [] \<longrightarrow> os_cid_tcp_socket s' c = Some k)
     \<and> (\<forall>d. d \<noteq> c \<longrightarrow> os_cid_tcp_socket s' d = os_cid_tcp_socket s d
          \<and> os_cid_next_exp_seq_num s' d = os_cid_next_exp_seq_num s d)"
  using assms
proof (induction rs arbitrary: s)
  case (Cons r rs)
  let ?n = "os_cid_next_exp_seq_num s c"
  let ?s1 = "if os_cid_tcp_socket s c = None then s\<lparr> os_cid_tcp_socket := (os_cid_tcp_socket s)(c := Some k) \<rparr> else s"
  have c: "unat (req_client_id (omreq_request r)) = c" using Cons.prems(3) by simp
  have s1: "os_cid_tcp_socket ?s1 c = Some k" "os_pending ?s1 = os_pending s"
      "os_cid_next_exp_seq_num ?s1 = os_cid_next_exp_seq_num s"
      "\<forall>d. d \<noteq> c \<longrightarrow> os_cid_tcp_socket ?s1 d = os_cid_tcp_socket s d"
    using Cons.prems(1) by auto
  show ?case
  proof (cases "omreq_seq_num r = ?n")
    case False
    then have "handle_request k rx r s = Inr ?s1"
      using c s1 Cons.prems(2) by (simp add: handle_request_def Let_def)
    moreover have "\<exists>s'. foldR (handle_request k rx) rs ?s1 = Inr s'
       \<and> os_pending s' = os_pending ?s1 @ map (\<lambda>r. (rx, omreq_request r)) (in_sequence (os_cid_next_exp_seq_num ?s1 c) rs)
       \<and> os_cid_next_exp_seq_num s' c = os_cid_next_exp_seq_num ?s1 c + length (in_sequence (os_cid_next_exp_seq_num ?s1 c) rs)
       \<and> (rs \<noteq> [] \<longrightarrow> os_cid_tcp_socket s' c = Some k)
       \<and> (\<forall>d. d \<noteq> c \<longrightarrow> os_cid_tcp_socket s' d = os_cid_tcp_socket ?s1 d
            \<and> os_cid_next_exp_seq_num s' d = os_cid_next_exp_seq_num ?s1 d)"
      by (rule Cons.IH) (use Cons.prems s1 False in auto)
    ultimately show ?thesis using s1 False by (cases rs) auto
  next
    case True
    let ?s2 = "?s1\<lparr> os_cid_next_exp_seq_num := (os_cid_next_exp_seq_num ?s1)(c := ?n + 1),
                 os_pending := os_pending s @ [(rx, omreq_request r)] \<rparr>"
    have "length (os_pending s) < ME_MAX_PENDING_REQUESTS" using Cons.prems(4) True by simp
    then have "handle_request k rx r s = Inr ?s2"
      using c s1 Cons.prems(2) True by (simp add: handle_request_def Let_def addClientRequest_def)
    moreover have "\<exists>s'. foldR (handle_request k rx) rs ?s2 = Inr s'
       \<and> os_pending s' = os_pending ?s2 @ map (\<lambda>r. (rx, omreq_request r)) (in_sequence (os_cid_next_exp_seq_num ?s2 c) rs)
       \<and> os_cid_next_exp_seq_num s' c = os_cid_next_exp_seq_num ?s2 c + length (in_sequence (os_cid_next_exp_seq_num ?s2 c) rs)
       \<and> (rs \<noteq> [] \<longrightarrow> os_cid_tcp_socket s' c = Some k)
       \<and> (\<forall>d. d \<noteq> c \<longrightarrow> os_cid_tcp_socket s' d = os_cid_tcp_socket ?s2 d
            \<and> os_cid_next_exp_seq_num s' d = os_cid_next_exp_seq_num ?s2 d)"
      by (rule Cons.IH) (use Cons.prems s1 True in auto)
    ultimately show ?thesis using s1 True by (cases rs) auto
  qed
qed simp

end
