(* ===== verification/OrderServerTheorems.thy ===== *)
theory OrderServerTheorems
  imports OrderServer
begin

text \<open>
  The properties of the order gateway of the exchange: framing of the byte stream, sequence checking, the impersonation
  guard, publication to the matching engine in order of arrival, and the numbering of the responses.
\<close>

section \<open>Framing and sequence checking\<close>

text \<open>The requests that survive the wire: the fields fit their types.\<close>

definition wire_ok :: "OMClientRequest \<Rightarrow> bool" where
  "wire_ok r \<longleftrightarrow> omreq_seq_num r < 2 ^ 64 \<and> price_ok (req_price (omreq_request r))"

lemma wire_ok_decode: "wire_ok r \<Longrightarrow> decode_OMClientRequest (encode_OMClientRequest r) = r"
  by (simp add: wire_ok_def om_request_roundtrip)

lemma foldR_cong: "(\<And>x s. x \<in> set xs \<Longrightarrow> f x s = g x s) \<Longrightarrow> foldR f xs s = foldR g xs s"
proof (induction xs arbitrary: s)
  case (Cons x xs)
  then show ?case by (cases "g x s") simp_all
qed simp

lemma sizeof_OMClientRequest_pos: "0 < sizeof_OMClientRequest"
  by (simp add: sizeof_defs)

lemma server_recvCallback_messages:
  assumes "\<forall>r\<in>set rs. wire_ok r" and "length rest < sizeof_OMClientRequest"
  shows "server_recvCallback k (sock\<lparr> sock_in := concat (map encode_OMClientRequest rs) @ rest \<rparr>) rx s
     = bindR (foldR (handle_request k rx) rs s) (\<lambda>s'. Inr (sock\<lparr> sock_in := rest \<rparr>, s'))"
proof -
  have "foldR (\<lambda>r. handle_request k rx (decode_OMClientRequest (encode_OMClientRequest r))) rs s
      = foldR (handle_request k rx) rs s"
    by (rule foldR_cong) (use assms(1) in \<open>simp add: wire_ok_decode\<close>)
  moreover have "consume sizeof_OMClientRequest (\<lambda>m. handle_request k rx (decode_OMClientRequest m))
        (concat (map encode_OMClientRequest rs) @ rest) s
      = bindR (foldR (\<lambda>r. handle_request k rx (decode_OMClientRequest (encode_OMClientRequest r))) rs s)
          (\<lambda>s'. Inr (rest, s'))"
    by (rule consume_messages) (use assms(2) sizeof_OMClientRequest_pos in auto)
  ultimately show ?thesis by (simp add: server_recvCallback_def)
qed

text \<open>C15: the bytes of a client's requests, with an incomplete message behind them, are decoded one by one; exactly the
  messages whose sequence number is the expected one are staged for the matching engine, with the time of
  arrival, in the order sent; their numbers are consecutive; the incomplete message stays in the
  buffer, and the client is bound to the connection.\<close>

theorem requests_accepted_in_sequence:
  assumes "os_cid_tcp_socket s c = None \<or> os_cid_tcp_socket s c = Some k" and "c < ME_MAX_NUM_CLIENTS"
    and "\<forall>r\<in>set rs. wire_ok r \<and> unat (req_client_id (omreq_request r)) = c"
    and "acc = in_sequence (os_cid_next_exp_seq_num s c) rs"
    and "length (os_pending s) + length acc \<le> ME_MAX_PENDING_REQUESTS"
    and "length rest < sizeof_OMClientRequest" and "rs \<noteq> []"
  shows "\<exists>s'. server_recvCallback k (sock\<lparr> sock_in := concat (map encode_OMClientRequest rs) @ rest \<rparr>) rx s
       = Inr (sock\<lparr> sock_in := rest \<rparr>, s')
     \<and> os_pending s' = os_pending s @ map (\<lambda>r. (rx, omreq_request r)) acc
     \<and> map omreq_seq_num acc = [os_cid_next_exp_seq_num s c..<os_cid_next_exp_seq_num s' c]
     \<and> os_cid_tcp_socket s' c = Some k
     \<and> (\<forall>d. d \<noteq> c \<longrightarrow> os_cid_tcp_socket s' d = os_cid_tcp_socket s d
          \<and> os_cid_next_exp_seq_num s' d = os_cid_next_exp_seq_num s d)"
proof -
  have "\<exists>s'. foldR (handle_request k rx) rs s = Inr s'
     \<and> os_pending s' = os_pending s @ map (\<lambda>r. (rx, omreq_request r)) (in_sequence (os_cid_next_exp_seq_num s c) rs)
     \<and> os_cid_next_exp_seq_num s' c = os_cid_next_exp_seq_num s c + length (in_sequence (os_cid_next_exp_seq_num s c) rs)
     \<and> (rs \<noteq> [] \<longrightarrow> os_cid_tcp_socket s' c = Some k)
     \<and> (\<forall>d. d \<noteq> c \<longrightarrow> os_cid_tcp_socket s' d = os_cid_tcp_socket s d
          \<and> os_cid_next_exp_seq_num s' d = os_cid_next_exp_seq_num s d)"
    by (rule handle_requests_accept) (use assms in auto)
  then obtain s' where s': "foldR (handle_request k rx) rs s = Inr s'"
      "os_pending s' = os_pending s @ map (\<lambda>r. (rx, omreq_request r)) acc"
      "os_cid_next_exp_seq_num s' c = os_cid_next_exp_seq_num s c + length acc"
      "os_cid_tcp_socket s' c = Some k"
      "\<forall>d. d \<noteq> c \<longrightarrow> os_cid_tcp_socket s' d = os_cid_tcp_socket s d
          \<and> os_cid_next_exp_seq_num s' d = os_cid_next_exp_seq_num s d"
    using assms(4,7) by auto
  have "map omreq_seq_num acc = [os_cid_next_exp_seq_num s c..<os_cid_next_exp_seq_num s' c]"
    using assms(4) s'(3) in_sequence_numbers by metis
  moreover have "\<forall>r\<in>set rs. wire_ok r" using assms(3) by blast
  then have "server_recvCallback k (sock\<lparr> sock_in := concat (map encode_OMClientRequest rs) @ rest \<rparr>) rx s
       = Inr (sock\<lparr> sock_in := rest \<rparr>, s')"
    using s'(1) by (subst server_recvCallback_messages[OF _ assms(6)]) simp_all
  ultimately show ?thesis using s' by (intro exI[of _ s'] conjI)
qed

definition sample_request :: "nat \<Rightarrow> MEClientRequest" where
  "sample_request i = \<lparr> req_type = Req_NEW, req_client_id = 7, req_ticker_id = 0, req_order_id = of_nat i,
     req_side = BUY, req_price = 100, req_qty = 10 \<rparr>"

definition sample_om_request :: "nat \<Rightarrow> OMClientRequest" where
  "sample_om_request i = \<lparr> omreq_seq_num = i, omreq_request = sample_request i \<rparr>"

definition sample_server :: OrderServer where
  "sample_server = OrderServer_new (LFQueue_new 4 (sample_request 0)) (LFQueue_new 4 MEClientResponse_default)"

lemmas sample_server_defs = sample_request_def sample_om_request_def sample_server_def OrderServer_new_def

text \<open>Requests 1, 1 (a replay), 3 (a gap) and 2: the first and the last are staged.\<close>

theorem requests_accepted_in_sequence_witness:
  "\<exists>s'. server_recvCallback 0
         (TCPSocket_new 5\<lparr> sock_in := concat (map encode_OMClientRequest (map sample_om_request [1, 1, 3, 2])) @ [0] \<rparr>)
         9 sample_server = Inr (TCPSocket_new 5\<lparr> sock_in := [0] \<rparr>, s')
     \<and> os_pending s' = [(9, sample_request 1), (9, sample_request 2)]
     \<and> os_cid_tcp_socket s' 7 = Some 0"
proof -
  let ?rs = "map sample_om_request [1, 1, 3, 2]"
  let ?acc = "in_sequence (os_cid_next_exp_seq_num sample_server 7) ?rs"
  have acc: "?acc = map sample_om_request [1, 2]" by (simp add: sample_server_defs)
  have "\<exists>s'. server_recvCallback 0 (TCPSocket_new 5\<lparr> sock_in := concat (map encode_OMClientRequest ?rs) @ [0] \<rparr>)
         9 sample_server = Inr (TCPSocket_new 5\<lparr> sock_in := [0] \<rparr>, s')
     \<and> os_pending s' = os_pending sample_server @ map (\<lambda>r. (9, omreq_request r)) ?acc
     \<and> map omreq_seq_num ?acc = [os_cid_next_exp_seq_num sample_server 7..<os_cid_next_exp_seq_num s' 7]
     \<and> os_cid_tcp_socket s' 7 = Some 0
     \<and> (\<forall>d. d \<noteq> 7 \<longrightarrow> os_cid_tcp_socket s' d = os_cid_tcp_socket sample_server d
          \<and> os_cid_next_exp_seq_num s' d = os_cid_next_exp_seq_num sample_server d)"
  proof (rule requests_accepted_in_sequence[OF _ _ _ refl])
    show "length (os_pending sample_server) + length ?acc \<le> ME_MAX_PENDING_REQUESTS"
      unfolding acc by (simp add: sample_server_defs ME_MAX_PENDING_REQUESTS_def)
  qed (simp_all add: sample_server_defs wire_ok_def price_ok_def sizeof_defs ME_MAX_NUM_CLIENTS_def)
  then show ?thesis unfolding acc by (auto simp: sample_server_defs)
qed

section \<open>Identity of the clients\<close>

text \<open>C17: the impersonation guard: a message that carries the id of a client bound to another connection changes nothing.\<close>

theorem impersonation_ignored:
  assumes "unat (req_client_id (omreq_request r)) < ME_MAX_NUM_CLIENTS"
    and "os_cid_tcp_socket s (unat (req_client_id (omreq_request r))) = Some j" and "j \<noteq> k"
  shows "handle_request k rx r s = Inr s"
  using assms by (simp add: handle_request_def)

theorem impersonation_ignored_witness:
  "handle_request 1 9 (sample_om_request 1) (sample_server\<lparr> os_cid_tcp_socket := [7 \<mapsto> 0] \<rparr>)
     = Inr (sample_server\<lparr> os_cid_tcp_socket := [7 \<mapsto> 0] \<rparr>)"
  by (rule impersonation_ignored[of _ _ 0]) (simp_all add: sample_server_defs ME_MAX_NUM_CLIENTS_def)

text \<open>the client id of a message is not validated before it indexes the arrays of 256 entries: a message
  with a larger id reads and writes out of bounds.\<close>

theorem unchecked_client_id:
  assumes "ME_MAX_NUM_CLIENTS \<le> unat (req_client_id (omreq_request r))"
  shows "handle_request k rx r s = Inl BadIndex"
  using assms by (simp add: handle_request_def index_def)

theorem unchecked_client_id_witness:
  "handle_request 0 9 ((sample_om_request 1)\<lparr> omreq_request := (sample_request 1)\<lparr> req_client_id := 256 \<rparr> \<rparr>) sample_server
     = Inl BadIndex"
  by (rule unchecked_client_id) (simp add: sample_server_defs ME_MAX_NUM_CLIENTS_def)

section \<open>Publication to the matching engine\<close>

text \<open>C18: after the sockets of a round have been read, the staged requests go to the queue of the matching engine, all of them
  and nothing else, ordered by their time of arrival, behind what the queue holds, and none is left staged.\<close>

theorem requests_published_in_time_order:
  assumes "sorts_by_time sort_pending" and "lf_inv (os_requests s)"
    and "length (lf_contents (os_requests s)) + length (os_pending s) \<le> lf_capacity (os_requests s)"
  shows "\<exists>batch. mset batch = mset (os_pending s) \<and> sorted (map fst batch)
     \<and> lf_inv (os_requests (recvFinishedCallback sort_pending s))
     \<and> lf_contents (os_requests (recvFinishedCallback sort_pending s)) = lf_contents (os_requests s) @ map snd batch
     \<and> os_pending (recvFinishedCallback sort_pending s) = []"
proof (cases "os_pending s = []")
  case True
  then show ?thesis
    using assms(2) by (intro exI[of _ "[]"]) (simp add: recvFinishedCallback_def sequenceAndPublish_def)
next
  case False
  have s: "mset (sort_pending (os_pending s)) = mset (os_pending s)" "sorted (map fst (sort_pending (os_pending s)))"
    using assms(1) by (simp_all add: sorts_by_time_def)
  then have "length (sort_pending (os_pending s)) = length (os_pending s)" by (metis size_mset)
  then show ?thesis
    using False s assms lq.push_all[of "os_requests s" "map snd (sort_pending (os_pending s))"]
    by (intro exI[of _ "sort_pending (os_pending s)"]) (simp add: recvFinishedCallback_def sequenceAndPublish_def)
qed

lemma sort_key_sorts_by_time: "sorts_by_time (sort_key fst)"
  by (simp add: sorts_by_time_def)

theorem requests_published_in_time_order_witness:
  "lf_contents (os_requests (recvFinishedCallback (sort_key fst)
       (sample_server\<lparr> os_pending := [(9, sample_request 1), (8, sample_request 2)] \<rparr>)))
     = [sample_request 2, sample_request 1]"
proof -
  let ?s = "sample_server\<lparr> os_pending := [(9, sample_request 1), (8, sample_request 2)] \<rparr>"
  have q: "os_requests ?s = LFQueue_new 4 (sample_request 0)" by (simp add: sample_server_defs)
  have "\<exists>batch. mset batch = mset (os_pending ?s) \<and> sorted (map fst batch)
     \<and> lf_inv (os_requests (recvFinishedCallback (sort_key fst) ?s))
     \<and> lf_contents (os_requests (recvFinishedCallback (sort_key fst) ?s)) = lf_contents (os_requests ?s) @ map snd batch
     \<and> os_pending (recvFinishedCallback (sort_key fst) ?s) = []"
    by (rule requests_published_in_time_order[OF sort_key_sorts_by_time])
      (unfold q, simp_all add: lf_new_inv, simp add: LFQueue_new_def)
  then obtain batch where b: "mset batch = mset (os_pending ?s)" "sorted (map fst batch)"
      "lf_contents (os_requests (recvFinishedCallback (sort_key fst) ?s)) = lf_contents (os_requests ?s) @ map snd batch"
    by blast
  have "lf_contents (os_requests ?s) = []" unfolding q by (simp add: lf_new_inv)
  moreover have "batch = [(8, sample_request 2), (9, sample_request 1)]"
  proof -
    have "size (mset batch) = 2" unfolding b(1) by simp
    then obtain x y where xy: "batch = [x, y]" by (auto simp: numeral_2_eq_2 length_Suc_conv)
    then have "{#x, y#} = {#(9, sample_request 1), (8, sample_request 2)#}" using b(1) by simp
    then show ?thesis using b(2) xy by (auto simp: add_eq_conv_diff)
  qed
  ultimately show ?thesis using b(3) by simp
qed

text \<open>the order of two requests with the same time of arrival is left to the sorting routine: there are two routines
  that both meet the contract of \<open>std::sort\<close> and publish the requests of one client in opposite orders.\<close>

theorem equal_times_order_unspecified:
  "\<exists>sort1 sort2. sorts_by_time sort1 \<and> sorts_by_time sort2
     \<and> snd (sequenceAndPublish sort1 [(9, sample_request 1), (9, sample_request 2)] q)
         = lf_push (lf_push q (sample_request 1)) (sample_request 2)
     \<and> snd (sequenceAndPublish sort2 [(9, sample_request 1), (9, sample_request 2)] q)
         = lf_push (lf_push q (sample_request 2)) (sample_request 1)"
proof (intro exI conjI)
  show "sorts_by_time (sort_key fst)" by (rule sort_key_sorts_by_time)
  show "sorts_by_time (\<lambda>xs. sort_key fst (rev xs))" by (simp add: sorts_by_time_def)
qed (simp_all add: sequenceAndPublish_def)

section \<open>Cutting the stream\<close>















section \<open>Responses\<close>

fun number_from :: "nat \<Rightarrow> MEClientResponse list \<Rightarrow> OMClientResponse list" where
  "number_from n [] = []"
| "number_from n (r # rs) = \<lparr> omrsp_seq_num = n, omrsp_response = r \<rparr> # number_from (n + 1) rs"

definition rsp_client :: "MEClientResponse \<Rightarrow> nat" where "rsp_client r = unat (rsp_client_id r)"

text \<open>Every client of the responses has a connection, with room for the batch.\<close>

definition can_send :: "MEClientResponse list \<Rightarrow> OrderServer \<Rightarrow> bool" where
  "can_send rs s \<longleftrightarrow>
     (\<forall>r\<in>set rs. rsp_client r < ME_MAX_NUM_CLIENTS
        \<and> (\<exists>k. os_cid_tcp_socket s (rsp_client r) = Some k \<and> k < length (os_sockets s)))
     \<and> (\<forall>k<length (os_sockets s). length (sock_out (os_sockets s ! k)) + sizeof_OMClientResponse * length rs \<le> TCPBufferSize)"

lemma send_response_ok:
  assumes "can_send (r # rs) s" and "os_cid_tcp_socket s (rsp_client r) = Some k"
  defines "seq \<equiv> os_cid_next_outgoing_seq_num s (rsp_client r)"
  defines "sock \<equiv> os_sockets s ! k"
  defines "s' \<equiv> s\<lparr> os_sockets := (os_sockets s)[k := sock\<lparr> sock_out := sock_out sock
                  @ encode_OMClientResponse \<lparr> omrsp_seq_num = seq, omrsp_response = r \<rparr> \<rparr>],
                os_cid_next_outgoing_seq_num := (os_cid_next_outgoing_seq_num s)(rsp_client r := seq + 1) \<rparr>"
  shows "send_response r s = Inr s'" and "can_send rs s'"
proof -
  have k: "k < length (os_sockets s)" "rsp_client r < ME_MAX_NUM_CLIENTS"
    using assms(1,2) by (auto simp: can_send_def)
  then have "length (sock_out sock) + sizeof_OMClientResponse * Suc (length rs) \<le> TCPBufferSize"
    using assms(1) by (auto simp: can_send_def sock_def)
  then have room: "length (sock_out sock) + 8 + sizeof_MEClientResponse \<le> TCPBufferSize"
    by (simp add: sizeof_OMClientResponse_def)
  then show "send_response r s = Inr s'"
    using k assms(2)
    by (simp add: send_response_def rsp_client_def[symmetric] tcp_send_def s'_def sock_def seq_def Let_def
        encode_OMClientResponse_def del: One_nat_def)
  show "can_send rs s'"
    using assms(1) k by (auto simp: can_send_def s'_def sock_def nth_list_update)
qed

lemma send_responses:
  assumes "can_send rs s" and "os_cid_tcp_socket s c = Some k" and "\<forall>d. d \<noteq> c \<longrightarrow> os_cid_tcp_socket s d \<noteq> Some k"
    and "k < length (os_sockets s)"
  shows "\<exists>s'. foldR send_response rs s = Inr s'
     \<and> sock_out (os_sockets s' ! k) = sock_out (os_sockets s ! k)
         @ concat (map encode_OMClientResponse (number_from (os_cid_next_outgoing_seq_num s c) (filter (\<lambda>r. rsp_client r = c) rs)))
     \<and> os_cid_next_outgoing_seq_num s' c = os_cid_next_outgoing_seq_num s c + length (filter (\<lambda>r. rsp_client r = c) rs)"
  using assms
proof (induction rs arbitrary: s)
  case (Cons r rs)
  let ?seq = "os_cid_next_outgoing_seq_num s (rsp_client r)"
  obtain j where j: "os_cid_tcp_socket s (rsp_client r) = Some j"
    using Cons.prems(1) by (auto simp: can_send_def)
  define s1 where "s1 = s\<lparr> os_sockets := (os_sockets s)[j := (os_sockets s ! j)\<lparr> sock_out := sock_out (os_sockets s ! j)
                  @ encode_OMClientResponse \<lparr> omrsp_seq_num = ?seq, omrsp_response = r \<rparr> \<rparr>],
                os_cid_next_outgoing_seq_num := (os_cid_next_outgoing_seq_num s)(rsp_client r := ?seq + 1) \<rparr>"
  have r: "send_response r s = Inr s1" "can_send rs s1"
    using send_response_ok[OF Cons.prems(1) j] by (simp_all add: s1_def)
  have "\<exists>s'. foldR send_response rs s1 = Inr s'
     \<and> sock_out (os_sockets s' ! k) = sock_out (os_sockets s1 ! k)
         @ concat (map encode_OMClientResponse (number_from (os_cid_next_outgoing_seq_num s1 c) (filter (\<lambda>r. rsp_client r = c) rs)))
     \<and> os_cid_next_outgoing_seq_num s' c = os_cid_next_outgoing_seq_num s1 c + length (filter (\<lambda>r. rsp_client r = c) rs)"
    using r(2) Cons.prems(2-4) by (intro Cons.IH) (simp_all add: s1_def)
  moreover have "rsp_client r = c \<longleftrightarrow> j = k" using j Cons.prems(2,3) by auto
  ultimately show ?case using r(1) Cons.prems(4) by (auto simp: s1_def)
qed simp

text \<open>draining the responses of the matching engine empties the queue and appends to the connection of a client exactly its
  responses, in the order the engine sent them, each behind its sequence number; the numbers are
  consecutive from the next one of that client.\<close>

theorem responses_numbered_per_client:
  assumes "lf_inv (os_responses s)" and "can_send (lf_contents (os_responses s)) s"
    and "os_cid_tcp_socket s c = Some k" and "\<forall>d. d \<noteq> c \<longrightarrow> os_cid_tcp_socket s d \<noteq> Some k"
    and "k < length (os_sockets s)"
    and "mine = filter (\<lambda>r. rsp_client r = c) (lf_contents (os_responses s))"
  shows "\<exists>s'. drain_responses s = Inr s' \<and> lf_contents (os_responses s') = []
     \<and> sock_out (os_sockets s' ! k) = sock_out (os_sockets s ! k)
         @ concat (map encode_OMClientResponse (number_from (os_cid_next_outgoing_seq_num s c) mine))
     \<and> os_cid_next_outgoing_seq_num s' c = os_cid_next_outgoing_seq_num s c + length mine"
proof -
  obtain q where q: "lf_contents q = []" "\<forall>t. lf_drain (lf_size (os_responses s)) send_response (os_responses s) t
      = bindR (foldR send_response (lf_contents (os_responses s)) t) (\<lambda>s'. Inr (q, s'))"
    using lf_drain_contents[OF assms(1), of "lf_size (os_responses s)" send_response] by (auto simp: lf_size_def)
  obtain s' where "foldR send_response (lf_contents (os_responses s)) s = Inr s'"
      "sock_out (os_sockets s' ! k) = sock_out (os_sockets s ! k)
         @ concat (map encode_OMClientResponse (number_from (os_cid_next_outgoing_seq_num s c) mine))"
      "os_cid_next_outgoing_seq_num s' c = os_cid_next_outgoing_seq_num s c + length mine"
    using send_responses[OF assms(2-5)] assms(6) by blast
  then show ?thesis using q by (simp add: drain_responses_def)
qed

definition sample_response :: "OrderId \<Rightarrow> MEClientResponse" where
  "sample_response i = MEClientResponse_default\<lparr> rsp_type := ACCEPTED, rsp_client_id := 7, rsp_client_order_id := i \<rparr>"

definition sample_answering :: OrderServer where
  "sample_answering = sample_server\<lparr> os_sockets := [TCPSocket_new 5], os_cid_tcp_socket := [7 \<mapsto> 0],
     os_responses := lf_push (lf_push (LFQueue_new 4 MEClientResponse_default) (sample_response 1)) (sample_response 2) \<rparr>"

lemma sample_answering_queue:
  "lf_inv (os_responses sample_answering)" "lf_contents (os_responses sample_answering) = [sample_response 1, sample_response 2]"
proof -
  let ?q = "LFQueue_new 4 MEClientResponse_default"
  have "num_elements ?q = 0" "num_elements (lf_push ?q (sample_response 1)) = 1"
      "lf_capacity ?q = 4" "lf_inv ?q" "lf_contents ?q = []"
    by (simp_all add: lf_inv_def lf_contents_def LFQueue_new_def lf_push_def updateWriteIndex_def)
  then show "lf_inv (os_responses sample_answering)"
      "lf_contents (os_responses sample_answering) = [sample_response 1, sample_response 2]"
    using lf_push_ok[of ?q "sample_response 1"] lf_push_ok[of "lf_push ?q (sample_response 1)" "sample_response 2"]
    by (simp_all add: sample_answering_def)
qed

theorem responses_numbered_per_client_witness:
  "\<exists>s'. drain_responses sample_answering = Inr s' \<and> lf_contents (os_responses s') = []
     \<and> sock_out (os_sockets s' ! 0)
         = encode_OMClientResponse \<lparr> omrsp_seq_num = 1, omrsp_response = sample_response 1 \<rparr>
         @ encode_OMClientResponse \<lparr> omrsp_seq_num = 2, omrsp_response = sample_response 2 \<rparr>"
proof -
  let ?mine = "[sample_response 1, sample_response 2]"
  have s: "os_sockets sample_answering = [TCPSocket_new 5]" "os_cid_tcp_socket sample_answering = [7 \<mapsto> 0]"
      "os_cid_next_outgoing_seq_num sample_answering = (\<lambda>_. 1)"
    by (simp_all add: sample_answering_def sample_server_defs)
  have c: "rsp_client (sample_response i) = 7" for i
    by (simp add: rsp_client_def sample_response_def)
  have "can_send ?mine sample_answering"
    by (simp add: can_send_def c s ME_MAX_NUM_CLIENTS_def TCPBufferSize_def sizeof_defs TCPSocket_new_def)
  then have "\<exists>s'. drain_responses sample_answering = Inr s' \<and> lf_contents (os_responses s') = []
     \<and> sock_out (os_sockets s' ! 0) = sock_out (os_sockets sample_answering ! 0)
         @ concat (map encode_OMClientResponse (number_from (os_cid_next_outgoing_seq_num sample_answering 7) ?mine))
     \<and> os_cid_next_outgoing_seq_num s' 7 = os_cid_next_outgoing_seq_num sample_answering 7 + length ?mine"
    by (intro responses_numbered_per_client) (simp_all add: sample_answering_queue s c)
  then show ?thesis by (auto simp: s TCPSocket_new_def eval_nat_numeral)
qed

end
