(* ===== verification/OrderGateway.thy ===== *)
theory OrderGateway
  imports OrderServerTheorems
begin

text \<open>
  \<^verbatim>\<open>trading/order_gw/order_gateway.h\<close> and \<^verbatim>\<open>order_gateway.cpp\<close>: the client's end of the connection to the exchange, and
  the two directions end to end: requests from the trade engine's queue to the staging area of the order server, and responses
  from the queue of the matching engine to that of the trade engine.
\<close>

section \<open>The gateway\<close>

record OrderGateway =
  og_client_id :: ClientId
  og_outgoing_requests :: "MEClientRequest LFQueue"
  og_incoming_responses :: "MEClientResponse LFQueue"
  og_next_outgoing_seq_num :: nat
  og_next_exp_seq_num :: nat
  og_tcp_socket :: TCPSocket

definition OrderGateway_new :: "ClientId \<Rightarrow> MEClientRequest LFQueue \<Rightarrow> MEClientResponse LFQueue \<Rightarrow> OrderGateway" where
  "OrderGateway_new client_id client_requests client_responses =
     \<lparr> og_client_id = client_id, og_outgoing_requests = client_requests, og_incoming_responses = client_responses,
       og_next_outgoing_seq_num = 1, og_next_exp_seq_num = 1, og_tcp_socket = TCPSocket_new (- 1) \<rparr>"

text \<open>The connection that \<open>start\<close> makes: \<open>fd\<close> is what \<open>connect\<close> returns.\<close>

definition gateway_start :: "int \<Rightarrow> OrderGateway \<Rightarrow> OrderGateway result" where
  "gateway_start fd g =
     bindR (ASSERT (fd \<ge> 0) ''Unable to connect to ip:'') (\<lambda>_. Inr (g\<lparr> og_tcp_socket := (og_tcp_socket g)\<lparr> sock_fd := fd \<rparr> \<rparr>))"

text \<open>The body of the loop of \<open>run\<close> that sends one request.\<close>

definition send_request :: "MEClientRequest \<Rightarrow> OrderGateway \<Rightarrow> OrderGateway result" where
  "send_request client_request g =
     bindR (tcp_send (og_tcp_socket g) (le_bytes 8 (og_next_outgoing_seq_num g))) (\<lambda>sock1.
     bindR (tcp_send sock1 (encode_MEClientRequest client_request)) (\<lambda>sock2.
     Inr (g\<lparr> og_tcp_socket := sock2, og_next_outgoing_seq_num := og_next_outgoing_seq_num g + 1 \<rparr>)))"

definition drain_requests :: "OrderGateway \<Rightarrow> OrderGateway result" where
  "drain_requests g =
     bindR (lf_drain (lf_size (og_outgoing_requests g)) send_request (og_outgoing_requests g) g) (\<lambda>(q, g').
     Inr (g'\<lparr> og_outgoing_requests := q \<rparr>))"

definition handle_response :: "OMClientResponse \<Rightarrow> OrderGateway \<Rightarrow> OrderGateway result" where
  "handle_response response g =
     (if rsp_client_id (omrsp_response response) \<noteq> og_client_id g then Inr g
      else if omrsp_seq_num response \<noteq> og_next_exp_seq_num g then Inr g
      else Inr (g\<lparr> og_next_exp_seq_num := og_next_exp_seq_num g + 1,
                  og_incoming_responses := lf_push (og_incoming_responses g) (omrsp_response response) \<rparr>))"

definition gateway_recvCallback :: "TCPSocket \<Rightarrow> int \<Rightarrow> OrderGateway \<Rightarrow> (TCPSocket \<times> OrderGateway) result" where
  "gateway_recvCallback socket rx_time g =
     bindR (consume sizeof_OMClientResponse (\<lambda>m. handle_response (decode_OMClientResponse m)) (sock_in socket) g)
       (\<lambda>(rest, g'). Inr (socket\<lparr> sock_in := rest \<rparr>, g'))"

definition gateway_round :: "io \<Rightarrow> OrderGateway \<Rightarrow> OrderGateway result" where
  "gateway_round k g =
     bindR (tcp_sendAndRecv gateway_recvCallback k (og_tcp_socket g) g) (\<lambda>(sock, g1, rx).
     drain_requests (g1\<lparr> og_tcp_socket := sock \<rparr>))"

section \<open>Requests to the exchange\<close>

fun number_requests :: "nat \<Rightarrow> MEClientRequest list \<Rightarrow> OMClientRequest list" where
  "number_requests n [] = []"
| "number_requests n (r # rs) = \<lparr> omreq_seq_num = n, omreq_request = r \<rparr> # number_requests (n + 1) rs"

lemma number_requests_in_sequence: "in_sequence n (number_requests n rs) = number_requests n rs"
  by (induction rs arbitrary: n) simp_all

lemma number_requests_set: "x \<in> set (number_requests n rs) \<Longrightarrow> omreq_request x \<in> set rs \<and> omreq_seq_num x < n + length rs"
  by (induction rs arbitrary: n) fastforce+

lemma map_number_requests [simp]: "map omreq_request (number_requests n rs) = rs" "length (number_requests n rs) = length rs"
  by (induction rs arbitrary: n) simp_all

lemma map_request_time: "map (\<lambda>r. (rx, omreq_request r)) xs = map (Pair rx) (map omreq_request xs)"
  by simp

lemma send_requests_ok:
  assumes "length (sock_out (og_tcp_socket g)) + sizeof_OMClientRequest * length rs \<le> TCPBufferSize"
  shows "foldR send_request rs g = Inr (g\<lparr>
     og_tcp_socket := (og_tcp_socket g)\<lparr> sock_out := sock_out (og_tcp_socket g)
       @ concat (map encode_OMClientRequest (number_requests (og_next_outgoing_seq_num g) rs)) \<rparr>,
     og_next_outgoing_seq_num := og_next_outgoing_seq_num g + length rs \<rparr>)"
  using assms
proof (induction rs arbitrary: g)
  case (Cons r rs)
  let ?n = "og_next_outgoing_seq_num g" and ?s = "og_tcp_socket g"
  let ?g = "g\<lparr> og_tcp_socket := ?s\<lparr> sock_out := sock_out ?s @ encode_OMClientRequest \<lparr> omreq_seq_num = ?n, omreq_request = r \<rparr> \<rparr>,
      og_next_outgoing_seq_num := ?n + 1 \<rparr>"
  have "length (sock_out ?s) + 8 + sizeof_MEClientRequest \<le> TCPBufferSize"
    using Cons.prems by (simp add: sizeof_OMClientRequest_def)
  then have "send_request r g = Inr ?g" by (simp add: send_request_def tcp_send_def encode_OMClientRequest_def)
  moreover have "length (sock_out (og_tcp_socket ?g)) + sizeof_OMClientRequest * length rs \<le> TCPBufferSize"
    using Cons.prems by simp
  ultimately show ?case using Cons.IH[of ?g] by simp
qed (simp)

lemma drain_requests_ok:
  assumes "lf_inv (og_outgoing_requests g)" and "lf_contents (og_outgoing_requests g) = rs"
    and "length (sock_out (og_tcp_socket g)) + sizeof_OMClientRequest * length rs \<le> TCPBufferSize"
  shows "\<exists>g'. drain_requests g = Inr g' \<and> lf_contents (og_outgoing_requests g') = []
     \<and> sock_out (og_tcp_socket g') = sock_out (og_tcp_socket g)
         @ concat (map encode_OMClientRequest (number_requests (og_next_outgoing_seq_num g) rs))
     \<and> og_next_outgoing_seq_num g' = og_next_outgoing_seq_num g + length rs"
proof -
  obtain q where q: "lf_contents q = []" "\<forall>t. lf_drain (lf_size (og_outgoing_requests g)) send_request (og_outgoing_requests g) t
      = bindR (foldR send_request (lf_contents (og_outgoing_requests g)) t) (\<lambda>s'. Inr (q, s'))"
    using lf_drain_contents[OF assms(1), of "lf_size (og_outgoing_requests g)" send_request] by (auto simp: lf_size_def)
  then show ?thesis using send_requests_ok[OF assms(3)] assms(2) by (simp add: drain_requests_def)
qed

section \<open>Responses from the exchange\<close>

text \<open>The responses a gateway lets through.\<close>

fun rsp_in_sequence :: "ClientId \<Rightarrow> nat \<Rightarrow> OMClientResponse list \<Rightarrow> MEClientResponse list" where
  "rsp_in_sequence c n [] = []"
| "rsp_in_sequence c n (r # rs) =
     (if rsp_client_id (omrsp_response r) = c \<and> omrsp_seq_num r = n
      then omrsp_response r # rsp_in_sequence c (n + 1) rs else rsp_in_sequence c n rs)"

lemma handle_responses_ok:
  "\<exists>g'. foldR handle_response rs g = Inr g'
    \<and> og_incoming_responses g' = foldl lf_push (og_incoming_responses g) (rsp_in_sequence (og_client_id g) (og_next_exp_seq_num g) rs)
    \<and> og_next_exp_seq_num g' = og_next_exp_seq_num g + length (rsp_in_sequence (og_client_id g) (og_next_exp_seq_num g) rs)
    \<and> og_client_id g' = og_client_id g \<and> og_tcp_socket g' = og_tcp_socket g \<and> og_outgoing_requests g' = og_outgoing_requests g
    \<and> og_next_outgoing_seq_num g' = og_next_outgoing_seq_num g"
proof (induction rs arbitrary: g)
  case (Cons r rs)
  show ?case
  proof (cases "rsp_client_id (omrsp_response r) = og_client_id g \<and> omrsp_seq_num r = og_next_exp_seq_num g")
    case True
    then show ?thesis using Cons.IH[of "g\<lparr> og_next_exp_seq_num := og_next_exp_seq_num g + 1,
        og_incoming_responses := lf_push (og_incoming_responses g) (omrsp_response r) \<rparr>"] by (simp add: handle_response_def)
  next
    case False
    then have "handle_response r g = Inr g" by (auto simp: handle_response_def)
    then show ?thesis using False Cons.IH[of g] by auto
  qed
qed simp

lemma rsp_in_sequence_append:
  "rsp_in_sequence c n (xs @ ys) = rsp_in_sequence c n xs @ rsp_in_sequence c (n + length (rsp_in_sequence c n xs)) ys"
  by (induction xs arbitrary: n) auto

text \<open>Messages that are for another client or have another sequence number than the expected one.\<close>

definition stray :: "ClientId \<Rightarrow> nat \<Rightarrow> OMClientResponse \<Rightarrow> bool" where
  "stray c n r \<longleftrightarrow> rsp_client_id (omrsp_response r) \<noteq> c \<or> omrsp_seq_num r \<noteq> n"

lemma strays_dropped: "\<forall>r \<in> set rs. stray c n r \<Longrightarrow> rsp_in_sequence c n rs = []"
  by (induction rs) (auto simp: stray_def)

lemma number_from_in_sequence:
  "\<forall>r \<in> set rs. rsp_client_id r = c \<Longrightarrow> rsp_in_sequence c n (number_from n rs) = rs"
  by (induction rs arbitrary: n) simp_all

definition rsp_wire_ok :: "OMClientResponse \<Rightarrow> bool" where
  "rsp_wire_ok r \<longleftrightarrow> omrsp_seq_num r < 2 ^ 64 \<and> price_ok (rsp_price (omrsp_response r))"

lemma gateway_recvCallback_messages:
  assumes "\<forall>r \<in> set rs. rsp_wire_ok r" and "length rest < sizeof_OMClientResponse"
  shows "gateway_recvCallback (sock\<lparr> sock_in := concat (map encode_OMClientResponse rs) @ rest \<rparr>) rx g
     = bindR (foldR handle_response rs g) (\<lambda>g'. Inr (sock\<lparr> sock_in := rest \<rparr>, g'))"
proof -
  have "foldR (\<lambda>r. handle_response (decode_OMClientResponse (encode_OMClientResponse r))) rs g = foldR handle_response rs g"
    by (rule foldR_cong) (use assms(1) in \<open>simp add: rsp_wire_ok_def om_response_roundtrip\<close>)
  moreover have "consume sizeof_OMClientResponse (\<lambda>m. handle_response (decode_OMClientResponse m))
        (concat (map encode_OMClientResponse rs) @ rest) g
      = bindR (foldR (\<lambda>r. handle_response (decode_OMClientResponse (encode_OMClientResponse r))) rs g) (\<lambda>g'. Inr (rest, g'))"
    by (rule consume_messages) (use assms(2) in \<open>auto simp: sizeof_defs\<close>)
  ultimately show ?thesis by (simp add: gateway_recvCallback_def)
qed

lemma number_from_set: "x \<in> set (number_from n rs) \<Longrightarrow> omrsp_response x \<in> set rs \<and> omrsp_seq_num x < n + length rs"
  by (induction rs arbitrary: n) fastforce+

end
