(* ===== verification/GatewayTheorems.thy ===== *)
theory GatewayTheorems
  imports OrderGateway
begin

text \<open>End to end between the order gateway of a client and the order server of the exchange.\<close>

section \<open>Requests\<close>

text \<open>C12: The requests a trade engine queued reach the order server: the gateway empties the queue onto its socket, and when those bytes arrive at
  a server that expects the next sequence number of the gateway, exactly these requests are staged, all of them and in order, and
  the two counters agree again, so that the next batch is accepted the same way.\<close>

theorem requests_reach_the_exchange:
  assumes queue: "lf_inv (og_outgoing_requests g)" "lf_contents (og_outgoing_requests g) = rs" "rs \<noteq> []"
    and mine: "\<forall>r \<in> set rs. req_client_id r = og_client_id g \<and> price_ok (req_price r)"
    and c: "c = unat (og_client_id g)" "c < ME_MAX_NUM_CLIENTS"
    and empty: "sock_out (og_tcp_socket g) = []"
    and room: "sizeof_OMClientRequest * length rs \<le> TCPBufferSize" "og_next_outgoing_seq_num g + length rs \<le> 2 ^ 64"
      "length (os_pending s) + length rs \<le> ME_MAX_PENDING_REQUESTS"
    and sync: "os_cid_next_exp_seq_num s c = og_next_outgoing_seq_num g"
    and bound: "os_cid_tcp_socket s c = None \<or> os_cid_tcp_socket s c = Some k"
  shows "\<exists>g' s'. drain_requests g = Inr g' \<and> lf_contents (og_outgoing_requests g') = []
    \<and> server_recvCallback k (sock\<lparr> sock_in := sock_out (og_tcp_socket g') \<rparr>) rx s = Inr (sock\<lparr> sock_in := [] \<rparr>, s')
    \<and> os_pending s' = os_pending s @ map (Pair rx) rs \<and> os_cid_tcp_socket s' c = Some k
    \<and> os_cid_next_exp_seq_num s' c = og_next_outgoing_seq_num g'"
proof -
  let ?n = "og_next_outgoing_seq_num g"
  let ?ms = "number_requests ?n rs"
  obtain g' where g': "drain_requests g = Inr g'" "lf_contents (og_outgoing_requests g') = []"
      "sock_out (og_tcp_socket g') = concat (map encode_OMClientRequest ?ms) @ []" "og_next_outgoing_seq_num g' = ?n + length rs"
    using drain_requests_ok[OF queue(1,2)] room(1) empty by auto
  have seq: "in_sequence (os_cid_next_exp_seq_num s c) ?ms = ?ms" using sync number_requests_in_sequence by simp
  have ms: "\<forall>m \<in> set ?ms. wire_ok m" "\<And>m. m \<in> set ?ms \<Longrightarrow> unat (req_client_id (omreq_request m)) = c"
    using number_requests_set mine room(2) c(1) by (fastforce simp: wire_ok_def)+
  have "\<exists>s'. foldR (handle_request k rx) ?ms s = Inr s'
     \<and> os_pending s' = os_pending s @ map (\<lambda>r. (rx, omreq_request r)) ?ms
     \<and> os_cid_next_exp_seq_num s' c = os_cid_next_exp_seq_num s c + length ?ms
     \<and> (?ms \<noteq> [] \<longrightarrow> os_cid_tcp_socket s' c = Some k)"
    using handle_requests_accept[OF bound c(2), where rs = ?ms and rx = rx] ms(2) seq room(3) by auto
  then obtain s' where s': "foldR (handle_request k rx) ?ms s = Inr s'" "os_pending s' = os_pending s @ map (Pair rx) rs"
      "os_cid_next_exp_seq_num s' c = ?n + length rs" "?ms \<noteq> [] \<longrightarrow> os_cid_tcp_socket s' c = Some k"
    using sync by (auto simp: map_request_time simp del: map_map)
  have "?ms \<noteq> []" using queue(3) by (cases rs) simp_all
  moreover have "server_recvCallback k (sock\<lparr> sock_in := sock_out (og_tcp_socket g') \<rparr>) rx s = Inr (sock\<lparr> sock_in := [] \<rparr>, s')"
    unfolding g'(3) using s'(1) ms(1) by (subst server_recvCallback_messages) (simp_all add: sizeof_OMClientRequest_pos)
  ultimately show ?thesis using g' s' by (intro exI[of _ g'] exI[of _ s']) simp
qed

definition sample_gateway :: OrderGateway where
  "sample_gateway = OrderGateway_new 7 (lf_push (lf_push (LFQueue_new 4 (sample_request 0)) (sample_request 1)) (sample_request 2))
     (LFQueue_new 4 MEClientResponse_default)"

lemma sample_gateway_queue:
  "lf_inv (og_outgoing_requests sample_gateway)" "lf_contents (og_outgoing_requests sample_gateway) = [sample_request 1, sample_request 2]"
proof -
  let ?q = "LFQueue_new 4 (sample_request 0)"
  have "num_elements ?q = 0" "num_elements (lf_push ?q (sample_request 1)) = 1" "lf_capacity ?q = 4" "lf_inv ?q" "lf_contents ?q = []"
    by (simp_all add: lf_inv_def lf_contents_def LFQueue_new_def lf_push_def updateWriteIndex_def)
  then show "lf_inv (og_outgoing_requests sample_gateway)"
      "lf_contents (og_outgoing_requests sample_gateway) = [sample_request 1, sample_request 2]"
    using lf_push_ok[of ?q "sample_request 1"] lf_push_ok[of "lf_push ?q (sample_request 1)" "sample_request 2"]
    by (simp_all add: sample_gateway_def OrderGateway_new_def)
qed

lemma requests_reach_the_exchange_witness:
  "\<exists>g' s'. drain_requests sample_gateway = Inr g'
    \<and> server_recvCallback 0 (TCPSocket_new 5\<lparr> sock_in := sock_out (og_tcp_socket g') \<rparr>) 9 sample_server = Inr (TCPSocket_new 5\<lparr> sock_in := [] \<rparr>, s')
    \<and> os_pending s' = [(9, sample_request 1), (9, sample_request 2)]"
proof -
  have "\<exists>g' s'. drain_requests sample_gateway = Inr g' \<and> lf_contents (og_outgoing_requests g') = []
    \<and> server_recvCallback 0 (TCPSocket_new 5\<lparr> sock_in := sock_out (og_tcp_socket g') \<rparr>) 9 sample_server = Inr (TCPSocket_new 5\<lparr> sock_in := [] \<rparr>, s')
    \<and> os_pending s' = os_pending sample_server @ map (Pair 9) [sample_request 1, sample_request 2] \<and> os_cid_tcp_socket s' 7 = Some 0
    \<and> os_cid_next_exp_seq_num s' 7 = og_next_outgoing_seq_num g'"
    by (rule requests_reach_the_exchange[OF sample_gateway_queue])
      (simp_all add: sample_gateway_def OrderGateway_new_def sample_server_defs price_ok_def ME_MAX_NUM_CLIENTS_def TCPSocket_new_def
        sizeof_defs TCPBufferSize_def ME_MAX_PENDING_REQUESTS_def)
  then show ?thesis by (auto simp: sample_server_defs)
qed

section \<open>Responses\<close>

text \<open>C13: The responses of the matching engine to a client reach its trade engine: the order server sends those of the client, and only those, on its connection, and
  when the bytes arrive at the gateway that expects the next sequence number of the server for this client, the gateway puts all of them
  on the queue of the trade engine, in the order of the matching engine, and the two counters agree again. Messages for other clients and messages out of sequence that arrive before and
  behind them are dropped without a trace, and an incomplete message at the end stays in the buffer.\<close>

theorem responses_reach_the_trade_engine:
  assumes queue: "lf_inv (os_responses s)" "can_send (lf_contents (os_responses s)) s"
    and conn: "os_cid_tcp_socket s c = Some k" "\<forall>d. d \<noteq> c \<longrightarrow> os_cid_tcp_socket s d \<noteq> Some k" "k < length (os_sockets s)"
      "sock_out (os_sockets s ! k) = []"
    and mine: "mine = filter (\<lambda>r. rsp_client r = c) (lf_contents (os_responses s))" "\<forall>r \<in> set mine. price_ok (rsp_price r)"
    and c: "c = unat (og_client_id g)"
    and sync: "og_next_exp_seq_num g = os_cid_next_outgoing_seq_num s c" "os_cid_next_outgoing_seq_num s c + length mine \<le> 2 ^ 64"
    and room: "lf_inv (og_incoming_responses g)"
      "length (lf_contents (og_incoming_responses g)) + length mine \<le> lf_capacity (og_incoming_responses g)"
    and before: "\<forall>m \<in> set before. rsp_wire_ok m \<and> stray (og_client_id g) (og_next_exp_seq_num g) m"
    and behind: "\<forall>m \<in> set behind. rsp_wire_ok m \<and> stray (og_client_id g) (og_next_exp_seq_num g + length mine) m"
    and rest: "length rest < sizeof_OMClientResponse"
  shows "\<exists>s' g'. drain_responses s = Inr s' \<and> lf_contents (os_responses s') = []
    \<and> gateway_recvCallback (sock\<lparr> sock_in := concat (map encode_OMClientResponse before) @ sock_out (os_sockets s' ! k)
          @ concat (map encode_OMClientResponse behind) @ rest \<rparr>) rx g = Inr (sock\<lparr> sock_in := rest \<rparr>, g')
    \<and> lf_contents (og_incoming_responses g') = lf_contents (og_incoming_responses g) @ mine
    \<and> og_next_exp_seq_num g' = os_cid_next_outgoing_seq_num s' c"
proof -
  let ?n = "os_cid_next_outgoing_seq_num s c"
  let ?ms = "number_from ?n mine"
  obtain q where q: "lf_contents q = []" "\<forall>t. lf_drain (lf_size (os_responses s)) send_response (os_responses s) t
      = bindR (foldR send_response (lf_contents (os_responses s)) t) (\<lambda>s'. Inr (q, s'))"
    using lf_drain_contents[OF queue(1), of "lf_size (os_responses s)" send_response] by (auto simp: lf_size_def)
  obtain s1 where s1: "foldR send_response (lf_contents (os_responses s)) s = Inr s1"
      "sock_out (os_sockets s1 ! k) = concat (map encode_OMClientResponse ?ms) @ []" "os_cid_next_outgoing_seq_num s1 c = ?n + length mine"
    using send_responses[OF queue(2) conn(1-3)] mine(1) conn(4) by auto
  define s' where "s' = s1\<lparr> os_responses := q \<rparr>"
  have s': "drain_responses s = Inr s'" using q s1(1) by (simp add: drain_responses_def s'_def)
  let ?all = "before @ ?ms @ behind"
  have ms: "\<forall>m \<in> set ?all. rsp_wire_ok m" using number_from_set mine(2) sync(2) before behind by (fastforce simp: rsp_wire_ok_def)
  have "\<forall>r \<in> set mine. rsp_client_id r = og_client_id g" using mine(1) c by (auto simp: rsp_client_def dest: unsigned_word_eqI)
  then have seq: "rsp_in_sequence (og_client_id g) (og_next_exp_seq_num g) ?all = mine"
    using sync(1) before behind by (simp add: rsp_in_sequence_append strays_dropped number_from_in_sequence)
  then obtain g' where g': "foldR handle_response ?all g = Inr g'" "og_incoming_responses g' = foldl lf_push (og_incoming_responses g) mine"
      "og_next_exp_seq_num g' = og_next_exp_seq_num g + length mine"
    using handle_responses_ok[of ?all g] by auto
  have "gateway_recvCallback (sock\<lparr> sock_in := concat (map encode_OMClientResponse ?all) @ rest \<rparr>) rx g = Inr (sock\<lparr> sock_in := rest \<rparr>, g')"
    unfolding gateway_recvCallback_messages[OF ms rest] g'(1) by simp
  then have "gateway_recvCallback (sock\<lparr> sock_in := concat (map encode_OMClientResponse before) @ sock_out (os_sockets s' ! k)
      @ concat (map encode_OMClientResponse behind) @ rest \<rparr>) rx g = Inr (sock\<lparr> sock_in := rest \<rparr>, g')"
    using s1(2) by (simp add: s'_def)
  moreover have "lf_contents (og_incoming_responses g') = lf_contents (og_incoming_responses g) @ mine"
    using lq.push_all[OF room] g'(2) by simp
  ultimately show ?thesis using s' g'(3) s1(3) sync(1) q(1) by (intro exI[of _ s'] exI[of _ g']) (simp add: s'_def)
qed

definition sample_listening :: OrderGateway where
  "sample_listening = OrderGateway_new 7 (LFQueue_new 4 (sample_request 0)) (LFQueue_new 4 MEClientResponse_default)"

text \<open>A response for client 8 arrives before the two of the server, and one with an old sequence number behind them.\<close>

definition sample_foreign :: OMClientResponse where
  "sample_foreign = \<lparr> omrsp_seq_num = 1, omrsp_response = (sample_response 5)\<lparr> rsp_client_id := 8 \<rparr> \<rparr>"

definition sample_old :: OMClientResponse where
  "sample_old = \<lparr> omrsp_seq_num = 2, omrsp_response = sample_response 6 \<rparr>"

lemma responses_reach_the_trade_engine_witness:
  "\<exists>s' g'. drain_responses sample_answering = Inr s'
    \<and> gateway_recvCallback (TCPSocket_new 3\<lparr> sock_in := concat (map encode_OMClientResponse [sample_foreign]) @ sock_out (os_sockets s' ! 0)
          @ concat (map encode_OMClientResponse [sample_old]) @ [42] \<rparr>) 9 sample_listening = Inr (TCPSocket_new 3\<lparr> sock_in := [42] \<rparr>, g')
    \<and> lf_contents (og_incoming_responses g') = [sample_response 1, sample_response 2]"
proof -
  let ?mine = "[sample_response 1, sample_response 2]"
  have s: "os_sockets sample_answering = [TCPSocket_new 5]" "os_cid_tcp_socket sample_answering = [7 \<mapsto> 0]"
      "os_cid_next_outgoing_seq_num sample_answering = (\<lambda>_. 1)"
    by (simp_all add: sample_answering_def sample_server_defs)
  have c: "rsp_client (sample_response i) = 7" for i by (simp add: rsp_client_def sample_response_def)
  have "lf_inv (og_incoming_responses sample_listening)" "lf_contents (og_incoming_responses sample_listening) = []"
      "lf_capacity (og_incoming_responses sample_listening) = 4" "og_client_id sample_listening = 7" "og_next_exp_seq_num sample_listening = 1"
    by (simp_all add: sample_listening_def OrderGateway_new_def lf_inv_def lf_contents_def LFQueue_new_def)
  note g = this
  have p: "price_ok (rsp_price (sample_response i))" for i
    by (simp add: sample_response_def MEClientResponse_default_def Price_INVALID_def price_ok_def)
  have stray: "rsp_wire_ok sample_foreign" "stray 7 1 sample_foreign" "rsp_wire_ok sample_old" "stray 7 3 sample_old" "length [42 :: byte] < sizeof_OMClientResponse"
    using p[of 5] p[of 6] by (simp_all add: rsp_wire_ok_def stray_def sample_foreign_def sample_old_def sizeof_defs)
  have "can_send ?mine sample_answering"
    by (simp add: can_send_def c s ME_MAX_NUM_CLIENTS_def TCPBufferSize_def sizeof_defs TCPSocket_new_def)
  then have "\<exists>s' g'. drain_responses sample_answering = Inr s' \<and> lf_contents (os_responses s') = []
    \<and> gateway_recvCallback (TCPSocket_new 3\<lparr> sock_in := concat (map encode_OMClientResponse [sample_foreign]) @ sock_out (os_sockets s' ! 0)
          @ concat (map encode_OMClientResponse [sample_old]) @ [42] \<rparr>) 9 sample_listening = Inr (TCPSocket_new 3\<lparr> sock_in := [42] \<rparr>, g')
    \<and> lf_contents (og_incoming_responses g') = lf_contents (og_incoming_responses sample_listening) @ ?mine
    \<and> og_next_exp_seq_num g' = os_cid_next_outgoing_seq_num s' 7"
    by (intro responses_reach_the_trade_engine)
      (simp_all add: sample_answering_queue s c g p TCPSocket_new_def stray sizeof_defs, simp_all add: stray_def sample_foreign_def sample_old_def)
  then show ?thesis using g(2) by auto
qed

end
