(* ===== verification/BacktestEngine.thy ===== *)
theory BacktestEngine
  imports TradeEngine
begin

text \<open>
  \<^verbatim>\<open>backtest/backtest_engine.h\<close> and \<^verbatim>\<open>backtest_engine.cpp\<close>: the harness that drives the trade engine from a tape, with its model of the queue ahead of
  each order. The three queues it shares with the trade engine are those of the record \<open>TradeEngine\<close>. The tape is a list of
  events, and the rows of the profit file are a list of records. The strategy still reads the clock, whose readings are the parameter
  \<open>clock\<close>; \<open>bt_reads\<close> counts them.
\<close>

section \<open>State\<close>

record BookTopEvent =
  ev_ns :: int
  ev_bid_price :: Price
  ev_bid_qty :: Qty
  ev_ask_price :: Price
  ev_ask_qty :: Qty

record TradeEvent =
  tr_ns :: int
  tr_price :: Price
  tr_qty :: Qty
  tr_side :: Side

datatype TapeEvent = BookTop BookTopEvent | Trade TradeEvent

record LiveAlgoOrder =
  la_order_id :: OrderId
  la_price :: Price
  la_side :: Side
  la_leaves :: Qty
  la_ahead :: Qty
  la_created_ns :: int

definition LiveAlgoOrder_default :: LiveAlgoOrder where
  "LiveAlgoOrder_default = \<lparr> la_order_id = OrderId_INVALID, la_price = Price_INVALID, la_side = Side_INVALID,
     la_leaves = 0, la_ahead = 0, la_created_ns = 0 \<rparr>"

record pnl_row =
  row_ns :: int
  row_mid :: double
  row_bid :: Price
  row_ask :: Price
  row_position :: int
  row_real_pnl :: double
  row_unreal_pnl :: double
  row_total_pnl :: double
  row_volume :: Qty
  row_fills :: nat
  row_requotes :: nat
  row_sigma :: double
  row_ofi :: double

record BacktestEngine =
  bt_ticker_id :: TickerId
  bt_engine :: TradeEngine
  bt_next_synth_oid :: OrderId
  bt_resting_bid_oid :: OrderId
  bt_resting_ask_oid :: OrderId
  bt_last_bid_price :: Price
  bt_last_ask_price :: Price
  bt_last_bid_qty :: Qty
  bt_last_ask_qty :: Qty
  bt_live :: "om_ptr \<Rightarrow> LiveAlgoOrder"
  bt_rows :: "pnl_row list"
  bt_num_fills :: nat
  bt_num_requotes :: nat
  bt_reads :: nat

definition BacktestEngine_new :: "fpenv \<Rightarrow> (nat \<Rightarrow> nat \<Rightarrow> double) \<Rightarrow> (nat \<Rightarrow> nat \<Rightarrow> ptr) \<Rightarrow> (nat \<Rightarrow> nat \<Rightarrow> ptr) \<Rightarrow> int \<Rightarrow> TickerId
    \<Rightarrow> TradeEngineCfg \<Rightarrow> BacktestEngine result" where
  "BacktestEngine_new e vwaps ids levels now ticker_id cfg =
     bindR (Prelude.at ME_MAX_TICKERS (unat ticker_id)) (\<lambda>t.
     bindR (TradeEngine_new vwaps ids levels now 1 Algo_MAKER ((\<lambda>_. TradeEngineCfg_default e)(t := cfg))
              (LFQueue_new ME_MAX_CLIENT_UPDATES MEClientRequest_default) (LFQueue_new ME_MAX_CLIENT_UPDATES MEClientResponse_default)
              (LFQueue_new ME_MAX_MARKET_UPDATES MEMarketUpdate_default)) (\<lambda>engine.
     Inr \<lparr> bt_ticker_id = ticker_id, bt_engine = engine, bt_next_synth_oid = 500000,
       bt_resting_bid_oid = OrderId_INVALID, bt_resting_ask_oid = OrderId_INVALID,
       bt_last_bid_price = Price_INVALID, bt_last_ask_price = Price_INVALID, bt_last_bid_qty = 0, bt_last_ask_qty = 0,
       bt_live = (\<lambda>_. LiveAlgoOrder_default), bt_rows = [], bt_num_fills = 0, bt_num_requotes = 0, bt_reads = 0 \<rparr>))"

definition nextSynthOid :: "BacktestEngine \<Rightarrow> OrderId \<times> BacktestEngine" where
  "nextSynthOid bt =
     (let oid = bt_next_synth_oid bt; n = oid + 1 in
      (oid, bt\<lparr> bt_next_synth_oid := (if n \<ge> 900000 then 500000 else n) \<rparr>))"

section \<open>Queues\<close>

text \<open>\<open>publishMarketUpdate\<close> calls the book directly, and with it the strategy.\<close>

definition publishMarketUpdate :: "fpenv \<Rightarrow> (nat \<Rightarrow> int) \<Rightarrow> MEMarketUpdate \<Rightarrow> BacktestEngine \<Rightarrow> BacktestEngine result" where
  "publishMarketUpdate e clock mu bt =
     bindR (Prelude.at ME_MAX_TICKERS (unat (mu_ticker_id mu))) (\<lambda>t.
     bindR (te_deliver e (clock (bt_reads bt)) mu (bt_engine bt)) (\<lambda>te.
     Inr (bt\<lparr> bt_engine := te, bt_reads := bt_reads bt + 1 \<rparr>)))"

definition publishResponse :: "MEClientResponse \<Rightarrow> BacktestEngine \<Rightarrow> BacktestEngine" where
  "publishResponse cr bt =
     (let te = bt_engine bt in
      bt\<lparr> bt_engine := te\<lparr> te_incoming_ogw_responses := lf_push (te_incoming_ogw_responses te) cr \<rparr> \<rparr>)"

text \<open>\<open>live_.at(tid).at(sideToIndex(side))\<close>, read and assigned.\<close>

definition bt_slot :: "BacktestEngine \<Rightarrow> TickerId \<Rightarrow> Side \<Rightarrow> LiveAlgoOrder result" where
  "bt_slot bt tid side = bindR (om_at tid side) (\<lambda>p. Inr (bt_live bt p))"

definition bt_set_slot :: "TickerId \<Rightarrow> Side \<Rightarrow> LiveAlgoOrder \<Rightarrow> BacktestEngine \<Rightarrow> BacktestEngine" where
  "bt_set_slot tid side s bt = bt\<lparr> bt_live := (bt_live bt)((unat tid, sideToIndex side) := s) \<rparr>"

definition pump_request :: "int \<Rightarrow> MEClientRequest \<Rightarrow> BacktestEngine \<Rightarrow> BacktestEngine result" where
  "pump_request now_ns req bt =
     (let tid = req_ticker_id req; side = req_side req in
      bindR (bt_slot bt tid side) (\<lambda>slot.
      let rsp = \<lparr> rsp_type = Rsp_INVALID, rsp_client_id = req_client_id req, rsp_ticker_id = tid, rsp_client_order_id = req_order_id req,
            rsp_market_order_id = req_order_id req, rsp_side = side, rsp_price = req_price req, rsp_exec_qty = 0, rsp_leaves_qty = req_qty req \<rparr> in
      if req_type req = Req_NEW
      then
        let ahead = (if side = BUY then (if req_price req = bt_last_bid_price bt then bt_last_bid_qty bt else 0)
                     else (if req_price req = bt_last_ask_price bt then bt_last_ask_qty bt else 0));
            slot' = slot\<lparr> la_order_id := req_order_id req, la_price := req_price req, la_side := side, la_leaves := req_qty req,
                          la_created_ns := now_ns, la_ahead := ahead \<rparr>;
            bt1 = (bt_set_slot tid side slot' bt)\<lparr> bt_num_requotes := bt_num_requotes bt + 1 \<rparr> in
        Inr (publishResponse (rsp\<lparr> rsp_type := ACCEPTED \<rparr>) bt1)
      else Inr (publishResponse (rsp\<lparr> rsp_type := CANCELED \<rparr>) (bt_set_slot tid side LiveAlgoOrder_default bt))))"

definition set_requests :: "MEClientRequest LFQueue \<Rightarrow> BacktestEngine \<Rightarrow> BacktestEngine" where
  "set_requests q bt = bt\<lparr> bt_engine := (bt_engine bt)\<lparr> te_outgoing_ogw_requests := q \<rparr> \<rparr>"

definition set_responses :: "MEClientResponse LFQueue \<Rightarrow> BacktestEngine \<Rightarrow> BacktestEngine" where
  "set_responses q bt = bt\<lparr> bt_engine := (bt_engine bt)\<lparr> te_incoming_ogw_responses := q \<rparr> \<rparr>"

definition pumpClientRequests :: "int \<Rightarrow> BacktestEngine \<Rightarrow> BacktestEngine result" where
  "pumpClientRequests now_ns bt =
     (let q = te_outgoing_ogw_requests (bt_engine bt) in
      bindR (lf_drain (lf_size q) (pump_request now_ns) q bt) (\<lambda>(q', bt'). Inr (set_requests q' bt')))"

definition pump_response :: "fpenv \<Rightarrow> MEClientResponse \<Rightarrow> BacktestEngine \<Rightarrow> BacktestEngine result" where
  "pump_response e rsp bt = bindR (te_onOrderUpdate e rsp (bt_engine bt)) (\<lambda>te. Inr (bt\<lparr> bt_engine := te \<rparr>))"

definition pumpClientResponses :: "fpenv \<Rightarrow> BacktestEngine \<Rightarrow> BacktestEngine result" where
  "pumpClientResponses e bt =
     (let q = te_incoming_ogw_responses (bt_engine bt) in
      bindR (lf_drain (lf_size q) (pump_response e) q bt) (\<lambda>(q', bt'). Inr (set_responses q' bt')))"

section \<open>Fills\<close>

definition bt_response :: "ClientResponseType \<Rightarrow> TickerId \<Rightarrow> OrderId \<Rightarrow> Side \<Rightarrow> Price \<Rightarrow> Qty \<Rightarrow> Qty \<Rightarrow> MEClientResponse" where
  "bt_response ty tid oid side price exec leaves =
     \<lparr> rsp_type = ty, rsp_client_id = 1, rsp_ticker_id = tid, rsp_client_order_id = oid, rsp_market_order_id = oid, rsp_side = side,
       rsp_price = price, rsp_exec_qty = exec, rsp_leaves_qty = leaves \<rparr>"

text \<open>A fill of a slot: the response, and the slot without what was filled, reset when nothing is left.\<close>

definition bt_fill :: "Side \<Rightarrow> Price \<Rightarrow> Qty \<Rightarrow> LiveAlgoOrder \<Rightarrow> BacktestEngine \<Rightarrow> BacktestEngine" where
  "bt_fill side price fill_qty slot bt =
     (let tid = bt_ticker_id bt;
          leaves = la_leaves slot - fill_qty;
          slot' = (if leaves = 0 then LiveAlgoOrder_default else slot\<lparr> la_leaves := leaves \<rparr>) in
      publishResponse (bt_response FILLED tid (la_order_id slot) side price fill_qty leaves)
        ((bt_set_slot tid side slot' bt)\<lparr> bt_num_fills := bt_num_fills bt + 1 \<rparr>))"

text \<open>\<open>sweepBid\<close> and \<open>sweepAsk\<close>: the touch went through the order of this side.\<close>

definition bt_sweep :: "Side \<Rightarrow> LiveAlgoOrder \<Rightarrow> BacktestEngine \<Rightarrow> BacktestEngine" where
  "bt_sweep side slot bt =
     (let tid = bt_ticker_id bt;
          opp_price = (if side = BUY then bt_last_ask_price bt else bt_last_bid_price bt);
          opp_qty = (if side = BUY then bt_last_ask_qty bt else bt_last_bid_qty bt) in
      if la_ahead slot > 0
      then bt_set_slot tid side LiveAlgoOrder_default
             (publishResponse (bt_response CANCELED tid (la_order_id slot) side (la_price slot) 0 0) bt)
      else bt_fill side opp_price (min (la_leaves slot) opp_qty) slot bt)"

definition matchAgainstBBO :: "BacktestEngine \<Rightarrow> BacktestEngine result" where
  "matchAgainstBBO bt =
     (let tid = bt_ticker_id bt in
      bindR (bt_slot bt tid BUY) (\<lambda>bid_slot.
      bindR (bt_slot bt tid SELL) (\<lambda>ask_slot.
      let bt1 = (if la_leaves bid_slot > 0 \<and> bt_last_ask_price bt \<noteq> Price_INVALID \<and> la_price bid_slot \<ge> bt_last_ask_price bt
                 then bt_sweep BUY bid_slot bt else bt);
          bt2 = (if la_leaves ask_slot > 0 \<and> bt_last_bid_price bt1 \<noteq> Price_INVALID \<and> la_price ask_slot \<le> bt_last_bid_price bt1
                 then bt_sweep SELL ask_slot bt1 else bt1) in
      Inr bt2)))"

text \<open>
  A trade at or through the price of the order of a side: it eats the queue ahead, in \<open>double\<close>s, and what remains fills the order once
  there is nothing ahead.
\<close>

definition bt_trade_fill :: "fpenv \<Rightarrow> Side \<Rightarrow> TradeEvent \<Rightarrow> LiveAlgoOrder \<Rightarrow> BacktestEngine \<Rightarrow> BacktestEngine result" where
  "bt_trade_fill e side ev slot bt =
     (let eat = fmin (d_of_qty e (la_ahead slot)) (d_of_qty e (tr_qty ev)) in
      bindR (d_to_u32 eat) (\<lambda>eaten.
      let slot1 = slot\<lparr> la_ahead := la_ahead slot - eaten \<rparr>;
          bt1 = bt_set_slot (bt_ticker_id bt) side slot1 bt in
      bindR (d_to_u32 (fsub e (d_of_qty e (tr_qty ev)) eat)) (\<lambda>remaining.
      Inr (if remaining > 0 \<and> la_ahead slot1 = 0
           then bt_fill side (la_price slot1) (min (la_leaves slot1) remaining) slot1 bt1 else bt1))))"

definition matchAgainstTrade :: "fpenv \<Rightarrow> TradeEvent \<Rightarrow> BacktestEngine \<Rightarrow> BacktestEngine result" where
  "matchAgainstTrade e ev bt =
     (let tid = bt_ticker_id bt in
      if tr_side ev = BUY
      then bindR (bt_slot bt tid SELL) (\<lambda>ask_slot.
           if la_leaves ask_slot > 0 \<and> tr_price ev \<ge> la_price ask_slot then bt_trade_fill e SELL ev ask_slot bt else Inr bt)
      else if tr_side ev = SELL
      then bindR (bt_slot bt tid BUY) (\<lambda>bid_slot.
           if la_leaves bid_slot > 0 \<and> tr_price ev \<le> la_price bid_slot then bt_trade_fill e BUY ev bid_slot bt else Inr bt)
      else Inr bt)"

section \<open>Events of the tape\<close>

text \<open>\<open>applyBookEvent\<close>: the synthetic orders of the sides that changed are cancelled, both before either is added again.\<close>

definition synth_update :: "MarketUpdateType \<Rightarrow> OrderId \<Rightarrow> TickerId \<Rightarrow> Side \<Rightarrow> Price \<Rightarrow> Qty \<Rightarrow> MEMarketUpdate" where
  "synth_update ty oid tid side price qty =
     \<lparr> mu_type = ty, mu_order_id = oid, mu_ticker_id = tid, mu_side = side, mu_price = price, mu_qty = qty, mu_priority = 0 \<rparr>"

definition cancel_resting_bid :: "fpenv \<Rightarrow> (nat \<Rightarrow> int) \<Rightarrow> bool \<Rightarrow> BacktestEngine \<Rightarrow> BacktestEngine result" where
  "cancel_resting_bid e clock bid_changed bt =
     (if bid_changed \<and> bt_resting_bid_oid bt \<noteq> OrderId_INVALID
      then bindR (publishMarketUpdate e clock (synth_update Upd_CANCEL (bt_resting_bid_oid bt) (bt_ticker_id bt) BUY
                    (bt_last_bid_price bt) (bt_last_bid_qty bt)) bt) (\<lambda>bt1.
           Inr (bt1\<lparr> bt_resting_bid_oid := OrderId_INVALID \<rparr>))
      else Inr bt)"

definition cancel_resting_ask :: "fpenv \<Rightarrow> (nat \<Rightarrow> int) \<Rightarrow> bool \<Rightarrow> BacktestEngine \<Rightarrow> BacktestEngine result" where
  "cancel_resting_ask e clock ask_changed bt =
     (if ask_changed \<and> bt_resting_ask_oid bt \<noteq> OrderId_INVALID
      then bindR (publishMarketUpdate e clock (synth_update Upd_CANCEL (bt_resting_ask_oid bt) (bt_ticker_id bt) SELL
                    (bt_last_ask_price bt) (bt_last_ask_qty bt)) bt) (\<lambda>bt1.
           Inr (bt1\<lparr> bt_resting_ask_oid := OrderId_INVALID \<rparr>))
      else Inr bt)"

definition add_resting_bid :: "fpenv \<Rightarrow> (nat \<Rightarrow> int) \<Rightarrow> bool \<Rightarrow> BookTopEvent \<Rightarrow> BacktestEngine \<Rightarrow> BacktestEngine result" where
  "add_resting_bid e clock bid_changed ev bt =
     (if bid_changed
      then
        bindR (if ev_bid_price ev \<noteq> Price_INVALID
               then let (oid, bt1) = nextSynthOid bt in
                    publishMarketUpdate e clock (synth_update ADD oid (bt_ticker_id bt) BUY (ev_bid_price ev) (ev_bid_qty ev))
                      (bt1\<lparr> bt_resting_bid_oid := oid \<rparr>)
               else Inr bt) (\<lambda>bt2.
        Inr (bt2\<lparr> bt_last_bid_price := ev_bid_price ev, bt_last_bid_qty := ev_bid_qty ev \<rparr>))
      else Inr bt)"

definition add_resting_ask :: "fpenv \<Rightarrow> (nat \<Rightarrow> int) \<Rightarrow> bool \<Rightarrow> BookTopEvent \<Rightarrow> BacktestEngine \<Rightarrow> BacktestEngine result" where
  "add_resting_ask e clock ask_changed ev bt =
     (if ask_changed
      then
        bindR (if ev_ask_price ev \<noteq> Price_INVALID
               then let (oid, bt1) = nextSynthOid bt in
                    publishMarketUpdate e clock (synth_update ADD oid (bt_ticker_id bt) SELL (ev_ask_price ev) (ev_ask_qty ev))
                      (bt1\<lparr> bt_resting_ask_oid := oid \<rparr>)
               else Inr bt) (\<lambda>bt2.
        Inr (bt2\<lparr> bt_last_ask_price := ev_ask_price ev, bt_last_ask_qty := ev_ask_qty ev \<rparr>))
      else Inr bt)"

definition applyBookEvent :: "fpenv \<Rightarrow> (nat \<Rightarrow> int) \<Rightarrow> BookTopEvent \<Rightarrow> BacktestEngine \<Rightarrow> BacktestEngine result" where
  "applyBookEvent e clock ev bt =
     (let bid_changed = (ev_bid_price ev \<noteq> bt_last_bid_price bt \<or> ev_bid_qty ev \<noteq> bt_last_bid_qty bt);
          ask_changed = (ev_ask_price ev \<noteq> bt_last_ask_price bt \<or> ev_ask_qty ev \<noteq> bt_last_ask_qty bt) in
      bindR (cancel_resting_bid e clock bid_changed bt) (\<lambda>bt1.
      bindR (cancel_resting_ask e clock ask_changed bt1) (\<lambda>bt2.
      bindR (add_resting_bid e clock bid_changed ev bt2) (\<lambda>bt3.
      bindR (add_resting_ask e clock ask_changed ev bt3) matchAgainstBBO))))"

definition applyTradeEvent :: "fpenv \<Rightarrow> (nat \<Rightarrow> int) \<Rightarrow> TradeEvent \<Rightarrow> BacktestEngine \<Rightarrow> BacktestEngine result" where
  "applyTradeEvent e clock ev bt =
     bindR (publishMarketUpdate e clock (synth_update TRADE OrderId_INVALID (bt_ticker_id bt) (tr_side ev) (tr_price ev) (tr_qty ev)) bt)
       (matchAgainstTrade e ev)"

definition syncBBOFromBook :: "BacktestEngine \<Rightarrow> BacktestEngine result" where
  "syncBBOFromBook bt =
     bindR (Prelude.at ME_MAX_TICKERS (unat (bt_ticker_id bt))) (\<lambda>t.
     let bbo = mb_bbo (te_ticker_order_book (bt_engine bt) t) in
     Inr (bt\<lparr> bt_last_bid_price := bid_price bbo, bt_last_ask_price := ask_price bbo,
             bt_last_bid_qty := (if bid_qty bbo = Qty_INVALID then 0 else bid_qty bbo),
             bt_last_ask_qty := (if ask_qty bbo = Qty_INVALID then 0 else ask_qty bbo) \<rparr>))"

definition recordPnL :: "fpenv \<Rightarrow> int \<Rightarrow> BacktestEngine \<Rightarrow> BacktestEngine result" where
  "recordPnL e now_ns bt =
     bindR (getPositionInfo (te_position_keeper (bt_engine bt)) (bt_ticker_id bt)) (\<lambda>pos_info.
     bindR (if bt_last_bid_price bt \<noteq> Price_INVALID \<and> bt_last_ask_price bt \<noteq> Price_INVALID
            then bindR (int64 (bt_last_bid_price bt + bt_last_ask_price bt)) (\<lambda>sum. Inr (fmul e half (d_of_int e sum)))
            else Inr (Fin 0)) (\<lambda>mid.
     Inr (bt\<lparr> bt_rows := bt_rows bt @ [\<lparr> row_ns = now_ns, row_mid = mid, row_bid = bt_last_bid_price bt, row_ask = bt_last_ask_price bt,
       row_position = pi_position pos_info, row_real_pnl = pi_real_pnl pos_info, row_unreal_pnl = pi_unreal_pnl pos_info, row_total_pnl = pi_total_pnl pos_info, row_volume = pi_volume pos_info,
       row_fills = bt_num_fills bt, row_requotes = bt_num_requotes bt,
       row_sigma = fe_volatility (te_feature_engine (bt_engine bt)), row_ofi = fe_ofi (te_feature_engine (bt_engine bt)) \<rparr>] \<rparr>)))"

definition kPnlSamplePeriodNs :: int where "kPnlSamplePeriodNs = 50000000"

text \<open>What follows each event: the requests, the responses, and a row every 50 milliseconds of the tape.\<close>

definition bt_settle :: "fpenv \<Rightarrow> int \<Rightarrow> BacktestEngine \<times> int \<Rightarrow> (BacktestEngine \<times> int) result" where
  "bt_settle e now_ns = (\<lambda>(bt, last_pnl_ns).
     bindR (pumpClientRequests now_ns bt) (\<lambda>bt1.
     bindR (pumpClientResponses e bt1) (\<lambda>bt2.
     bindR (int64 (now_ns - last_pnl_ns)) (\<lambda>d.
     if d \<ge> kPnlSamplePeriodNs then bindR (recordPnL e now_ns bt2) (\<lambda>bt3. Inr (bt3, now_ns)) else Inr (bt2, last_pnl_ns)))))"

fun bt_event :: "fpenv \<Rightarrow> (nat \<Rightarrow> int) \<Rightarrow> TapeEvent \<Rightarrow> BacktestEngine \<times> int \<Rightarrow> (BacktestEngine \<times> int) result" where
  "bt_event e clock (BookTop b) (bt, last_pnl_ns) =
     bindR (applyBookEvent e clock b bt) (\<lambda>bt1. bt_settle e (ev_ns b) (bt1, last_pnl_ns))"
| "bt_event e clock (Trade t) (bt, last_pnl_ns) =
     bindR (applyTradeEvent e clock t bt) (\<lambda>bt1. bt_settle e (tr_ns t) (bt1, last_pnl_ns))"

definition bt_finish :: "fpenv \<Rightarrow> BacktestEngine \<times> int \<Rightarrow> BacktestEngine result" where
  "bt_finish e = (\<lambda>(bt, last_pnl_ns). bindR (pumpClientResponses e bt) (recordPnL e last_pnl_ns))"

definition bt_run :: "fpenv \<Rightarrow> (nat \<Rightarrow> int) \<Rightarrow> TapeEvent list \<Rightarrow> BacktestEngine \<Rightarrow> BacktestEngine result" where
  "bt_run e clock tape bt = bindR (foldR (bt_event e clock) tape (bt, 0)) (bt_finish e)"

text \<open>The replay of order-by-order updates.\<close>

definition lobster_event :: "fpenv \<Rightarrow> (nat \<Rightarrow> int) \<Rightarrow> int \<times> MEMarketUpdate \<Rightarrow> BacktestEngine \<times> int \<Rightarrow> (BacktestEngine \<times> int) result" where
  "lobster_event e clock = (\<lambda>(now_ns, mu) (bt, last_pnl_ns).
     bindR (publishMarketUpdate e clock mu bt) (\<lambda>bt1.
     bindR (syncBBOFromBook bt1) (\<lambda>bt2.
     bindR (if mu_type mu = TRADE
            then matchAgainstTrade e \<lparr> tr_ns = now_ns, tr_price = mu_price mu, tr_qty = mu_qty mu, tr_side = mu_side mu \<rparr> bt2
            else matchAgainstBBO bt2) (\<lambda>bt3.
     bt_settle e now_ns (bt3, last_pnl_ns)))))"

definition bt_runLobster :: "fpenv \<Rightarrow> (nat \<Rightarrow> int) \<Rightarrow> (int \<times> MEMarketUpdate) list \<Rightarrow> BacktestEngine \<Rightarrow> BacktestEngine result" where
  "bt_runLobster e clock tape bt = bindR (foldR (lobster_event e clock) tape (bt, 0)) (bt_finish e)"

end
