(* ===== verification/BacktestLoop.thy ===== *)
theory BacktestLoop
  imports BacktestEngine TradingSafety
begin

text \<open>
  The simulated exchange of the backtest keeps the promises that the risk limits rely on. The invariant relates, for every place of the
  order manager, the order it believes in, the slot of the simulator, and the requests and responses that are still queued
  between them: once the queued messages are handled, both agree on what is live.
\<close>

section \<open>The invariant of a place\<close>

text \<open>The responses in a queue, handled one by one: each is in order, and what the order is after all of them.\<close>

definition answer_ok :: "OMOrder \<Rightarrow> MEClientResponse \<Rightarrow> bool" where
  "answer_ok order r \<longleftrightarrow> (rsp_type r = ACCEPTED \<longrightarrow> working order)
     \<and> (rsp_type r = FILLED \<longrightarrow> working order \<and> (rsp_side r = BUY \<or> rsp_side r = SELL)
          \<and> unat (rsp_exec_qty r) + unat (rsp_leaves_qty r) = unat (oo_qty order))"

fun answers_ok :: "OMOrder \<Rightarrow> MEClientResponse list \<Rightarrow> bool" where
  "answers_ok order [] \<longleftrightarrow> True"
| "answers_ok order (r # rs) \<longleftrightarrow> answer_ok order r \<and> answers_ok (order_after r order) rs"

definition answered :: "MEClientResponse list \<Rightarrow> OMOrder \<Rightarrow> OMOrder" where
  "answered rs order = foldl (\<lambda>o' r. order_after r o') order rs"

lemma answers_ok_snoc: "answers_ok order (rs @ [r]) \<longleftrightarrow> answers_ok order rs \<and> answer_ok (answered rs order) r"
  by (induction rs arbitrary: order) (auto simp: answered_def)

lemma answered_simps [simp]:
  "answered [] order = order" "answered (r # rs) order = answered rs (order_after r order)"
  "answered (rs @ [r]) order = order_after r (answered rs order)"
  by (simp_all add: answered_def)

definition settled :: "OMOrder \<Rightarrow> LiveAlgoOrder \<Rightarrow> bool" where
  "settled order slot \<longleftrightarrow> (oo_state order = LIVE \<and> la_leaves slot = oo_qty order) \<or> (\<not> working order \<and> la_leaves slot = 0)"

text \<open>A place: the order, the slot, the queued requests and the queued responses of the place.\<close>

definition slot_inv :: "om_ptr \<Rightarrow> OMOrder \<Rightarrow> LiveAlgoOrder \<Rightarrow> MEClientRequest list \<Rightarrow> MEClientResponse list \<Rightarrow> bool" where
  "slot_inv p order slot rqs rsps \<longleftrightarrow> answers_ok order rsps
     \<and> (working order \<longrightarrow> (unat (oo_ticker_id order), sideToIndex (oo_side order)) = p)
     \<and> (let final = answered rsps order in
        case rqs of
          [] \<Rightarrow> settled final slot
        | [r] \<Rightarrow>
            (req_type r = Req_NEW \<and> oo_state order = PENDING_NEW \<and> oo_state final = PENDING_NEW \<and> oo_qty final = req_qty r \<and> la_leaves slot = 0)
            \<or> (req_type r = Req_CANCEL \<and> oo_state order = PENDING_CANCEL \<and> (working final \<longrightarrow> la_leaves slot = oo_qty final)
                 \<and> (\<not> working final \<longrightarrow> la_leaves slot = 0))
        | _ \<Rightarrow> False)"

definition req_slot :: "MEClientRequest \<Rightarrow> om_ptr" where
  "req_slot r = (unat (req_ticker_id r), sideToIndex (req_side r))"

definition rsp_slot :: "MEClientResponse \<Rightarrow> om_ptr" where
  "rsp_slot r = (unat (rsp_ticker_id r), sideToIndex (rsp_side r))"

definition loop_inv :: "OrderManager \<Rightarrow> (om_ptr \<Rightarrow> LiveAlgoOrder) \<Rightarrow> MEClientRequest list \<Rightarrow> MEClientResponse list \<Rightarrow> bool" where
  "loop_inv om live rqs rsps \<longleftrightarrow> (\<forall>p. slot_inv p (om_orders om p) (live p)
     (filter (\<lambda>r. req_slot r = p) rqs) (filter (\<lambda>r. rsp_slot r = p) rsps))"

lemma loop_invI: "(\<And>p. slot_inv p (om_orders om p) (live p) (filter (\<lambda>r. req_slot r = p) rqs) (filter (\<lambda>r. rsp_slot r = p) rsps)) \<Longrightarrow>
   loop_inv om live rqs rsps"
  unfolding loop_inv_def by blast

lemma loop_invD: "loop_inv om live rqs rsps \<Longrightarrow>
   slot_inv p (om_orders om p) (live p) (filter (\<lambda>r. req_slot r = p) rqs) (filter (\<lambda>r. rsp_slot r = p) rsps)"
  unfolding loop_inv_def by blast

section \<open>Steps of a place\<close>

lemma slot_cancel:
  assumes "slot_inv p order slot rqs []" and "oo_state order = LIVE"
  shows "slot_inv p (order\<lparr> oo_state := PENDING_CANCEL \<rparr>) slot (rqs @ [cancel_request c order]) []
    \<and> req_slot (cancel_request c order) = p"
  using assms by (auto simp: slot_inv_def settled_def working_def cancel_request_def req_slot_def Let_def split: list.splits)

lemma slot_new:
  assumes "slot_inv p order slot rqs []" and "\<not> working order" and "req_type r = Req_NEW" and "req_slot r = p"
  shows "slot_inv p \<lparr> oo_ticker_id = req_ticker_id r, oo_order_id = i, oo_side = req_side r, oo_price = px, oo_qty = req_qty r,
    oo_state = PENDING_NEW \<rparr> slot (rqs @ [r]) []"
  using assms by (auto simp: slot_inv_def settled_def working_def req_slot_def Let_def split: list.splits)

lemma slot_answer:
  assumes "slot_inv p order slot [] (r # rsps)"
  shows "answer_ok order r \<and> slot_inv p (order_after r order) slot [] rsps"
proof -
  have "answer_ok order r" using assms by (simp add: slot_inv_def)
  moreover have "working (order_after r order) \<Longrightarrow> working order"
    using calculation by (auto simp: order_after_def answer_ok_def working_def split: ClientResponseType.splits if_splits)
  ultimately show ?thesis using assms by (auto simp: slot_inv_def Let_def)
qed

text \<open>The simulator handles a request: it accepts what is new and cancels.\<close>

lemma slot_accept:
  assumes "slot_inv p order slot [rq] rsps" and "req_type rq = Req_NEW" and "rsp_type r = ACCEPTED" and "la_leaves slot' = req_qty rq"
  shows "slot_inv p order slot' [] (rsps @ [r])"
  using assms by (auto simp: slot_inv_def settled_def answers_ok_snoc answer_ok_def order_after_def working_def Let_def)

lemma slot_canceled:
  assumes "slot_inv p order slot [rq] rsps" and "req_type rq \<noteq> Req_NEW" and "rsp_type r = CANCELED" and "la_leaves slot' = 0"
  shows "slot_inv p order slot' [] (rsps @ [r])"
  using assms by (auto simp: slot_inv_def settled_def answers_ok_snoc answer_ok_def order_after_def working_def Let_def)

text \<open>A slot with something left belongs to an order that works, also after the responses under way.\<close>

lemma slot_live:
  assumes "slot_inv p order slot rqs rsps" and "0 < la_leaves slot"
  shows "working (answered rsps order) \<and> la_leaves slot = oo_qty (answered rsps order)"
  using assms by (auto simp: slot_inv_def settled_def working_def Let_def split: list.splits)

lemma slot_swept:
  assumes "slot_inv p order slot rqs rsps" and "0 < la_leaves slot" and "rsp_type r = CANCELED" and "la_leaves slot' = 0"
  shows "slot_inv p order slot' rqs (rsps @ [r])"
  using assms slot_live[OF assms(1,2)]
  by (auto simp: slot_inv_def settled_def answers_ok_snoc answer_ok_def order_after_def working_def Let_def split: list.splits)

lemma slot_filled:
  assumes "slot_inv p order slot rqs rsps" and "0 < la_leaves slot" and "rsp_type r = FILLED" and "rsp_side r = BUY \<or> rsp_side r = SELL"
    and "unat (rsp_exec_qty r) + unat (rsp_leaves_qty r) = unat (la_leaves slot)" and "la_leaves slot' = rsp_leaves_qty r"
  shows "slot_inv p order slot' rqs (rsps @ [r])"
  using assms slot_live[OF assms(1,2)]
  by (auto simp: slot_inv_def settled_def answers_ok_snoc answer_ok_def order_after_def working_def Let_def split: list.splits)

section \<open>Steps of the loop\<close>

text \<open>A message of another place changes nothing here.\<close>

lemma loop_change:
  assumes I: "loop_inv om live rqs rsps"
    and here: "slot_inv p (om_orders om' p) (live' p) (filter (\<lambda>r. req_slot r = p) rqs') (filter (\<lambda>r. rsp_slot r = p) rsps')"
    and other: "\<And>q. q \<noteq> p \<Longrightarrow> om_orders om' q = om_orders om q \<and> live' q = live q
        \<and> filter (\<lambda>r. req_slot r = q) rqs' = filter (\<lambda>r. req_slot r = q) rqs
        \<and> filter (\<lambda>r. rsp_slot r = q) rsps' = filter (\<lambda>r. rsp_slot r = q) rsps"
  shows "loop_inv om' live' rqs' rsps'"
proof (rule loop_invI)
  fix q
  show "slot_inv q (om_orders om' q) (live' q) (filter (\<lambda>r. req_slot r = q) rqs') (filter (\<lambda>r. rsp_slot r = q) rsps')"
    using here other[of q] loop_invD[OF I, of q] by (cases "q = p") simp_all
qed

lemma acts_loop:
  "om_acts client_id rm k s rs s' \<Longrightarrow> loop_inv (fst s) live rqs [] \<Longrightarrow> loop_inv (fst s') live (rqs @ rs) []"
proof (induction rule: om_acts.induct)
  case (cancel rs om out p)
  then have I: "loop_inv om live (rqs @ rs) []" by simp
  let ?r = "cancel_request client_id (om_orders om p)"
  have "slot_inv p (om_orders om p) (live p) (filter (\<lambda>r. req_slot r = p) (rqs @ rs)) []" using loop_invD[OF I, of p] by simp
  note c = slot_cancel[OF this cancel.hyps(2), of client_id]
  show ?case by (rule loop_change[OF I, of p]) (use c in auto)
next
  case (new rs om out ticker_id side p price qty)
  then have I: "loop_inv om live (rqs @ rs) []" by simp
  let ?r = "new_request client_id om ticker_id price side qty"
  have r: "req_type ?r = Req_NEW" "req_slot ?r = p" "req_ticker_id ?r = ticker_id" "req_side ?r = side" "req_qty ?r = qty"
    using new.hyps(2) by (simp_all add: new_request_def req_slot_def om_at_eq)
  have "slot_inv p (om_orders om p) (live p) (filter (\<lambda>r. req_slot r = p) (rqs @ rs)) []" using loop_invD[OF I, of p] by simp
  note c = slot_new[OF this new.hyps(4) r(1,2), of "om_next_order_id om" price]
  show ?case by (rule loop_change[OF I, of p]) (use c r in auto)
qed simp

text \<open>The queues of the engine as lists.\<close>

definition bt_requests :: "BacktestEngine \<Rightarrow> MEClientRequest list" where
  "bt_requests bt = lf_contents (te_outgoing_ogw_requests (bt_engine bt))"

definition bt_responses :: "BacktestEngine \<Rightarrow> MEClientResponse list" where
  "bt_responses bt = lf_contents (te_incoming_ogw_responses (bt_engine bt))"

definition bt_queues_ok :: "BacktestEngine \<Rightarrow> bool" where
  "bt_queues_ok bt \<longleftrightarrow> lf_inv (te_outgoing_ogw_requests (bt_engine bt)) \<and> lf_inv (te_incoming_ogw_responses (bt_engine bt))
     \<and> 20 \<le> lf_capacity (te_outgoing_ogw_requests (bt_engine bt)) \<and> 20 \<le> lf_capacity (te_incoming_ogw_responses (bt_engine bt))"

definition bt_inv :: "BacktestEngine \<Rightarrow> bool" where
  "bt_inv bt \<longleftrightarrow> bt_queues_ok bt \<and> te_risk_inv (bt_engine bt) [] \<and> te_algo (bt_engine bt) \<noteq> NoAlgo
     \<and> loop_inv (te_order_manager (bt_engine bt)) (bt_live bt) (bt_requests bt) (bt_responses bt)"

lemma te_risk_inv_tape: "te_risk_inv te tape = te_risk_inv te []"
  by (simp add: te_risk_inv_def)

lemma publishMarketUpdate_inv:
  assumes p: "publishMarketUpdate e clock mu bt = Inr bt'" and I: "bt_inv bt" and none: "bt_responses bt = []"
    and room: "length (bt_requests bt) \<le> 18"
  shows "bt_inv bt' \<and> bt_responses bt' = [] \<and> length (bt_requests bt') \<le> length (bt_requests bt) + 2"
proof -
  obtain te' where d: "te_deliver e (clock (bt_reads bt)) mu (bt_engine bt) = Inr te'"
      and bt': "bt' = bt\<lparr> bt_engine := te', bt_reads := bt_reads bt + 1 \<rparr>"
    using p by (auto simp: publishMarketUpdate_def result_simps)
  let ?te = "bt_engine bt"
  obtain rs where a: "te_acts ?te rs te'" using deliver_acts[OF d] by blast
  then have acts: "om_acts (te_client_id ?te) (te_risk_manager ?te) (te_position_keeper te')
      (te_order_manager ?te, te_outgoing_ogw_requests ?te) rs (te_order_manager te', te_outgoing_ogw_requests te')"
    and n: "length rs \<le> 2" and f: "te_algo te' = te_algo ?te" "te_incoming_ogw_responses te' = te_incoming_ogw_responses ?te"
    by (auto simp: te_acts_def same_frame_def)
  have q: "te_outgoing_ogw_requests te' = foldl lf_push (te_outgoing_ogw_requests ?te) rs" using om_acts_queue[OF acts] by simp
  have "lf_inv (te_outgoing_ogw_requests ?te)" "length (lf_contents (te_outgoing_ogw_requests ?te)) + length rs \<le> lf_capacity (te_outgoing_ogw_requests ?te)"
    using I room n by (simp_all add: bt_inv_def bt_queues_ok_def bt_requests_def)
  note out = lq.push_all[OF this, folded q]
  have "bt_requests bt' = bt_requests bt @ rs" "bt_responses bt' = []" "bt_queues_ok bt'"
    using out f none I by (simp_all add: bt' bt_requests_def bt_responses_def bt_queues_ok_def bt_inv_def)
  moreover have "loop_inv (te_order_manager te') (bt_live bt) (bt_requests bt @ rs) []"
    using acts_loop[OF acts] I none by (simp add: bt_inv_def)
  moreover have "te_risk_inv te' []" using risk.acts[OF _ a, of "[]"] I te_risk_inv_tape[of te' rs] by (simp add: bt_inv_def)
  ultimately show ?thesis using I f n by (auto simp: bt_inv_def bt')
qed

text \<open>A response is queued and the slot of its place changes.\<close>

lemma respond_inv:
  assumes I: "bt_inv bt" and room: "length (bt_responses bt) < 20" and p: "rsp_slot r = p"
    and e: "bt_engine bt' = (bt_engine bt)\<lparr> te_incoming_ogw_responses := lf_push (te_incoming_ogw_responses (bt_engine bt)) r \<rparr>"
    and l: "bt_live bt' = (bt_live bt)(p := slot')"
    and here: "slot_inv p (om_orders (te_order_manager (bt_engine bt)) p) slot' (filter (\<lambda>r. req_slot r = p) (bt_requests bt))
        (filter (\<lambda>r. rsp_slot r = p) (bt_responses bt) @ [r])"
  shows "bt_inv bt' \<and> bt_requests bt' = bt_requests bt \<and> bt_responses bt' = bt_responses bt @ [r]"
proof -
  let ?q = "te_incoming_ogw_responses (bt_engine bt)"
  have "lf_inv ?q" "num_elements ?q < lf_capacity ?q" using I room by (simp_all add: bt_inv_def bt_queues_ok_def bt_responses_def)
  note q = lf_push_ok[OF this, of r]
  have c: "bt_requests bt' = bt_requests bt" "bt_responses bt' = bt_responses bt @ [r]" "bt_queues_ok bt'"
    using q e I by (simp_all add: bt_requests_def bt_responses_def bt_queues_ok_def bt_inv_def)
  have L: "loop_inv (te_order_manager (bt_engine bt)) (bt_live bt) (bt_requests bt) (bt_responses bt)" using I by (simp add: bt_inv_def)
  have "loop_inv (te_order_manager (bt_engine bt')) (bt_live bt') (bt_requests bt') (bt_responses bt')"
    by (rule loop_change[OF L, of p]) (use here p c e l in auto)
  moreover have "te_risk_inv (bt_engine bt') []" "te_algo (bt_engine bt') \<noteq> NoAlgo" using I e by (simp_all add: bt_inv_def te_risk_inv_def)
  ultimately show ?thesis using c by (simp add: bt_inv_def)
qed

lemma fill_split:
  fixes a b :: Qty
  assumes "b \<le> a"
  shows "unat b + unat (a - b) = unat a"
  using assms by (simp add: unat_sub word_le_nat_alt)

definition bt_place :: "BacktestEngine \<Rightarrow> Side \<Rightarrow> om_ptr" where
  "bt_place bt side = (unat (bt_ticker_id bt), sideToIndex side)"

lemma slot_frame_inv:
  assumes I: "bt_inv bt" and e: "bt_engine bt' = bt_engine bt" and l: "bt_live bt' = (bt_live bt)(p := slot')"
    and leaves: "la_leaves slot' = la_leaves (bt_live bt p)"
  shows "bt_inv bt' \<and> bt_requests bt' = bt_requests bt \<and> bt_responses bt' = bt_responses bt"
proof -
  have c: "bt_requests bt' = bt_requests bt" "bt_responses bt' = bt_responses bt" "bt_queues_ok bt' = bt_queues_ok bt"
    using e by (simp_all add: bt_requests_def bt_responses_def bt_queues_ok_def)
  have "slot_inv q o' (bt_live bt' q) rqs rsps = slot_inv q o' (bt_live bt q) rqs rsps" for q o' rqs rsps
    using l leaves by (auto simp: slot_inv_def settled_def Let_def split: list.splits)
  then show ?thesis using I e c by (simp add: bt_inv_def loop_inv_def)
qed

lemma bt_fill_inv:
  assumes I: "bt_inv bt" and room: "length (bt_responses bt) < 20" and side: "side = BUY \<or> side = SELL"
    and slot: "slot = bt_live bt (bt_place bt side)" "0 < la_leaves slot" and q: "q \<le> la_leaves slot"
  shows "bt_inv (bt_fill side price q slot bt) \<and> bt_requests (bt_fill side price q slot bt) = bt_requests bt
    \<and> length (bt_responses (bt_fill side price q slot bt)) = length (bt_responses bt) + 1"
proof -
  let ?p = "bt_place bt side" and ?leaves = "la_leaves slot - q"
  let ?r = "bt_response FILLED (bt_ticker_id bt) (la_order_id slot) side price q ?leaves"
  let ?slot = "if ?leaves = 0 then LiveAlgoOrder_default else slot\<lparr> la_leaves := ?leaves \<rparr>"
  have r: "rsp_slot ?r = ?p" "rsp_type ?r = FILLED" "rsp_side ?r = side" "rsp_exec_qty ?r = q" "rsp_leaves_qty ?r = ?leaves"
    by (simp_all add: bt_response_def rsp_slot_def bt_place_def)
  have L: "loop_inv (te_order_manager (bt_engine bt)) (bt_live bt) (bt_requests bt) (bt_responses bt)" using I by (simp add: bt_inv_def)
  have "unat q + unat ?leaves = unat (la_leaves slot)" using q by (rule fill_split)
  then have "slot_inv ?p (om_orders (te_order_manager (bt_engine bt)) ?p) ?slot (filter (\<lambda>r. req_slot r = ?p) (bt_requests bt))
      (filter (\<lambda>r. rsp_slot r = ?p) (bt_responses bt) @ [?r])"
    using loop_invD[OF L, of ?p] slot side r by (intro slot_filled[where slot = slot]) (simp_all add: LiveAlgoOrder_default_def)
  from respond_inv[OF I room r(1) _ _ this, of "bt_fill side price q slot bt"] show ?thesis
    by (simp add: bt_fill_def publishResponse_def bt_set_slot_def bt_place_def Let_def)
qed

lemma bt_sweep_inv:
  assumes I: "bt_inv bt" and room: "length (bt_responses bt) < 20" and side: "side = BUY \<or> side = SELL"
    and slot: "slot = bt_live bt (bt_place bt side)" "0 < la_leaves slot"
  shows "bt_inv (bt_sweep side slot bt) \<and> bt_requests (bt_sweep side slot bt) = bt_requests bt
    \<and> length (bt_responses (bt_sweep side slot bt)) = length (bt_responses bt) + 1"
proof (cases "la_ahead slot > 0")
  case True
  let ?p = "bt_place bt side"
  let ?r = "bt_response CANCELED (bt_ticker_id bt) (la_order_id slot) side (la_price slot) 0 0"
  have r: "rsp_slot ?r = ?p" "rsp_type ?r = CANCELED" by (simp_all add: bt_response_def rsp_slot_def bt_place_def)
  have L: "loop_inv (te_order_manager (bt_engine bt)) (bt_live bt) (bt_requests bt) (bt_responses bt)" using I by (simp add: bt_inv_def)
  have "slot_inv ?p (om_orders (te_order_manager (bt_engine bt)) ?p) LiveAlgoOrder_default (filter (\<lambda>r. req_slot r = ?p) (bt_requests bt))
      (filter (\<lambda>r. rsp_slot r = ?p) (bt_responses bt) @ [?r])"
    using loop_invD[OF L, of ?p] slot r by (intro slot_swept[where slot = slot]) (simp_all add: LiveAlgoOrder_default_def)
  from respond_inv[OF I room r(1) _ _ this, of "bt_sweep side slot bt"] show ?thesis
    using True by (simp add: bt_sweep_def publishResponse_def bt_set_slot_def bt_place_def Let_def)
next
  case False
  then show ?thesis using bt_fill_inv[OF I room side slot] by (simp add: bt_sweep_def Let_def)
qed

text \<open>What an event keeps: the invariant, and how many messages are queued.\<close>

definition bt_keeps :: "nat \<Rightarrow> BacktestEngine \<Rightarrow> BacktestEngine \<Rightarrow> bool" where
  "bt_keeps n bt bt' \<longleftrightarrow> bt_inv bt' \<and> bt_requests bt' = bt_requests bt \<and> length (bt_responses bt') \<le> length (bt_responses bt) + n"

lemma bt_fields [simp]:
  "bt_ticker_id (bt_sweep side slot bt) = bt_ticker_id bt" "bt_ticker_id (bt_fill side price q slot bt) = bt_ticker_id bt"
  by (simp_all add: bt_sweep_def bt_fill_def publishResponse_def bt_set_slot_def Let_def)

lemma bt_sweep_other: "side \<noteq> side' \<Longrightarrow> bt_live (bt_sweep side slot bt) (bt_place bt side') = bt_live bt (bt_place bt side')"
  by (auto simp: bt_sweep_def bt_fill_def publishResponse_def bt_set_slot_def bt_place_def Let_def)

lemma bt_slot_eq: "bt_slot bt (bt_ticker_id bt) side = Inr slot \<Longrightarrow> slot = bt_live bt (bt_place bt side)"
  by (auto simp: bt_slot_def om_at_eq bt_place_def result_simps)

lemma matchAgainstBBO_inv:
  assumes m: "matchAgainstBBO bt = Inr bt'" and I: "bt_inv bt" and room: "length (bt_responses bt) < 19"
  shows "bt_keeps 2 bt bt'"
proof -
  let ?b = "bt_live bt (bt_place bt BUY)" and ?a = "bt_live bt (bt_place bt SELL)"
  define bt1 where "bt1 = (if la_leaves ?b > 0 \<and> bt_last_ask_price bt \<noteq> Price_INVALID \<and> la_price ?b \<ge> bt_last_ask_price bt
      then bt_sweep BUY ?b bt else bt)"
  have bt': "bt' = (if la_leaves ?a > 0 \<and> bt_last_bid_price bt1 \<noteq> Price_INVALID \<and> la_price ?a \<le> bt_last_bid_price bt1
      then bt_sweep SELL ?a bt1 else bt1)"
  proof -
    obtain b a where ba: "bt_slot bt (bt_ticker_id bt) BUY = Inr b" "bt_slot bt (bt_ticker_id bt) SELL = Inr a"
      using m by (auto simp: matchAgainstBBO_def bindR_eq_Inr Let_def)
    then have "b = ?b" "a = ?a" using bt_slot_eq by simp_all
    then show ?thesis using m ba unfolding matchAgainstBBO_def Let_def bt1_def by (simp only: bindR.simps sum.inject)
  qed
  have 1: "bt_inv bt1 \<and> bt_requests bt1 = bt_requests bt \<and> length (bt_responses bt1) \<le> length (bt_responses bt) + 1"
    using bt_sweep_inv[OF I _ _ refl, of BUY] I room by (simp add: bt1_def)
  have p: "bt_place bt1 SELL = bt_place bt SELL" "bt_live bt1 (bt_place bt SELL) = ?a"
    using bt_sweep_other[of BUY SELL ?b bt] by (simp_all add: bt1_def bt_place_def)
  have a: "?a = bt_live bt1 (bt_place bt1 SELL)" using p by simp
  have "length (bt_responses bt1) < 20" using 1 room by simp
  note sweep = bt_sweep_inv[OF conjunct1[OF 1] this _ a]
  show ?thesis using 1 sweep by (auto simp: bt_keeps_def bt')
qed

lemma bt_trade_fill_inv:
  assumes m: "bt_trade_fill e side ev slot bt = Inr bt'" and I: "bt_inv bt" and room: "length (bt_responses bt) < 20"
    and side: "side = BUY \<or> side = SELL" and slot: "slot = bt_live bt (bt_place bt side)" "0 < la_leaves slot"
  shows "bt_keeps 1 bt bt'"
proof -
  obtain eaten remaining where bt': "bt' = (let slot1 = slot\<lparr> la_ahead := la_ahead slot - eaten \<rparr>;
        bt1 = bt_set_slot (bt_ticker_id bt) side slot1 bt in
      if remaining > 0 \<and> la_ahead slot1 = 0 then bt_fill side (la_price slot1) (min (la_leaves slot1) remaining) slot1 bt1 else bt1)"
    using m by (auto simp: bt_trade_fill_def bindR_eq_Inr Let_def simp del: if_split split del: if_split)
  define slot1 where "slot1 = slot\<lparr> la_ahead := la_ahead slot - eaten \<rparr>"
  define bt1 where "bt1 = bt_set_slot (bt_ticker_id bt) side slot1 bt"
  have l: "la_leaves slot1 = la_leaves slot" by (simp add: slot1_def)
  have 1: "bt_inv bt1 \<and> bt_requests bt1 = bt_requests bt \<and> bt_responses bt1 = bt_responses bt"
    by (rule slot_frame_inv[OF I, where p = "bt_place bt side" and slot' = slot1]) (use l slot in \<open>simp_all add: bt1_def bt_set_slot_def bt_place_def\<close>)
  have s1: "slot1 = bt_live bt1 (bt_place bt1 side)" by (simp add: bt1_def bt_set_slot_def bt_place_def)
  have "length (bt_responses bt1) < 20" "0 < la_leaves slot1" using 1 room slot(2) l by simp_all
  note fill = bt_fill_inv[OF conjunct1[OF 1] this(1) side s1 this(2)]
  show ?thesis using 1 fill by (auto simp: bt_keeps_def bt' slot1_def[symmetric] bt1_def[symmetric] Let_def)
qed

lemma matchAgainstTrade_inv:
  assumes m: "matchAgainstTrade e ev bt = Inr bt'" and I: "bt_inv bt" and room: "length (bt_responses bt) < 20"
  shows "bt_keeps 1 bt bt'"
proof -
  consider "bt' = bt" | side slot where "side = BUY \<or> side = SELL" "slot = bt_live bt (bt_place bt side)" "0 < la_leaves slot"
      "bt_trade_fill e side ev slot bt = Inr bt'"
    using m by (auto simp: matchAgainstTrade_def bindR_eq_Inr Let_def dest!: bt_slot_eq split: if_splits)
  then show ?thesis
  proof cases
    case 1
    then show ?thesis using I by (simp add: bt_keeps_def)
  next
    case 2
    then show ?thesis using bt_trade_fill_inv[OF 2(4) I room] by blast
  qed
qed

end
