(* ===== verification/BacktestTheorems.thy ===== *)
theory BacktestTheorems
  imports BacktestLoop TradingTheorems
begin

text \<open>The pumps of the backtest, its whole run, and the closed loop of strategy and simulated exchange.\<close>

section \<open>Pumping requests\<close>

text \<open>The state while the requests are pumped: \<open>rqs\<close> are those still to come.\<close>

definition pumping :: "BacktestEngine \<Rightarrow> MEClientRequest list \<Rightarrow> bool" where
  "pumping bt rqs \<longleftrightarrow> lf_inv (te_incoming_ogw_responses (bt_engine bt)) \<and> te_risk_inv (bt_engine bt) [] \<and> te_algo (bt_engine bt) \<noteq> NoAlgo
     \<and> loop_inv (te_order_manager (bt_engine bt)) (bt_live bt) rqs (bt_responses bt)
     \<and> length (bt_responses bt) + length rqs \<le> lf_capacity (te_incoming_ogw_responses (bt_engine bt))"

lemma slot_single: "slot_inv p order slot (r # rqs) rsps \<Longrightarrow> rqs = []"
  by (auto simp: slot_inv_def Let_def split: list.splits)

lemma pump_request_inv:
  assumes I: "pumping bt (r # rqs)" and m: "pump_request now r bt = Inr bt'"
  shows "pumping bt' rqs \<and> te_outgoing_ogw_requests (bt_engine bt') = te_outgoing_ogw_requests (bt_engine bt)
    \<and> lf_capacity (te_incoming_ogw_responses (bt_engine bt')) = lf_capacity (te_incoming_ogw_responses (bt_engine bt))"
proof -
  let ?p = "req_slot r" and ?q = "te_incoming_ogw_responses (bt_engine bt)"
  obtain rsp slot' where rsp: "rsp_slot rsp = ?p" "rsp_type rsp = (if req_type r = Req_NEW then ACCEPTED else CANCELED)"
      "la_leaves slot' = (if req_type r = Req_NEW then req_qty r else 0)"
    and e: "bt_engine bt' = (bt_engine bt)\<lparr> te_incoming_ogw_responses := lf_push ?q rsp \<rparr>" and l: "bt_live bt' = (bt_live bt)(?p := slot')"
  proof -
    have p: "om_at (req_ticker_id r) (req_side r) = Inr ?p" using m by (auto simp: pump_request_def bt_slot_def om_at_eq req_slot_def Let_def result_simps)
    let ?new = "req_type r = Req_NEW" and ?slot = "bt_live bt (req_slot r)"
    let ?rsp = "\<lparr> rsp_type = (if ?new then ACCEPTED else CANCELED), rsp_client_id = req_client_id r, rsp_ticker_id = req_ticker_id r,
        rsp_client_order_id = req_order_id r, rsp_market_order_id = req_order_id r, rsp_side = req_side r, rsp_price = req_price r,
        rsp_exec_qty = 0, rsp_leaves_qty = req_qty r \<rparr>"
    let ?ahead = "if req_side r = BUY then (if req_price r = bt_last_bid_price bt then bt_last_bid_qty bt else 0)
        else (if req_price r = bt_last_ask_price bt then bt_last_ask_qty bt else 0)"
    let ?slot' = "if ?new then ?slot\<lparr> la_order_id := req_order_id r, la_price := req_price r, la_side := req_side r, la_leaves := req_qty r,
        la_created_ns := now, la_ahead := ?ahead \<rparr> else LiveAlgoOrder_default"
    show ?thesis
    proof (rule that[of ?rsp ?slot'])
      show "bt_engine bt' = (bt_engine bt)\<lparr> te_incoming_ogw_responses := lf_push ?q ?rsp \<rparr>" "bt_live bt' = (bt_live bt)(?p := ?slot')"
        using m p by (auto simp: pump_request_def bt_slot_def publishResponse_def bt_set_slot_def req_slot_def Let_def)
    qed (simp_all add: rsp_slot_def req_slot_def LiveAlgoOrder_default_def)
  qed
  have L: "loop_inv (te_order_manager (bt_engine bt)) (bt_live bt) (r # rqs) (bt_responses bt)" using I by (simp add: pumping_def)
  note here = loop_invD[OF L, of ?p, simplified]
  note single = slot_single[OF here]
  have "num_elements ?q < lf_capacity ?q" "lf_inv ?q" using I by (auto simp: pumping_def bt_responses_def)
  note q = lf_push_ok[OF this(2,1), of rsp]
  have c: "bt_responses bt' = bt_responses bt @ [rsp]" using q e by (simp add: bt_responses_def)
  have "slot_inv ?p (om_orders (te_order_manager (bt_engine bt)) ?p) slot' [] (filter (\<lambda>x. rsp_slot x = ?p) (bt_responses bt) @ [rsp])"
    using slot_accept[of ?p _ _ r, OF here[unfolded single]] slot_canceled[of ?p _ _ r, OF here[unfolded single]] rsp(2,3)
    by (cases "req_type r = Req_NEW") simp_all
  then have "loop_inv (te_order_manager (bt_engine bt')) (bt_live bt') rqs (bt_responses bt')"
    by (intro loop_change[OF L, of ?p]) (use rsp(1) c e l single in auto)
  then show ?thesis using I q e c by (simp add: pumping_def te_risk_inv_def)
qed

lemma pump_requests_inv:
  "foldR (pump_request now) rqs bt = Inr bt' \<Longrightarrow> pumping bt rqs \<Longrightarrow>
   pumping bt' [] \<and> te_outgoing_ogw_requests (bt_engine bt') = te_outgoing_ogw_requests (bt_engine bt)
    \<and> lf_capacity (te_incoming_ogw_responses (bt_engine bt')) = lf_capacity (te_incoming_ogw_responses (bt_engine bt))"
proof (induction rqs arbitrary: bt)
  case (Cons r rqs)
  then obtain bt1 where "pump_request now r bt = Inr bt1" "foldR (pump_request now) rqs bt1 = Inr bt'" by (auto simp: result_simps)
  then show ?case using Cons.IH[of bt1] pump_request_inv[OF Cons.prems(2)] by simp
qed simp

lemma pumpClientRequests_inv:
  assumes m: "pumpClientRequests now bt = Inr bt'" and I: "bt_inv bt" and room: "length (bt_responses bt) + length (bt_requests bt) \<le> 20"
  shows "bt_inv bt' \<and> bt_requests bt' = []"
proof -
  let ?q = "te_outgoing_ogw_requests (bt_engine bt)"
  have inv: "lf_inv ?q" and cap: "20 \<le> lf_capacity (te_incoming_ogw_responses (bt_engine bt))" using I by (simp_all add: bt_inv_def bt_queues_ok_def)
  obtain q' where q': "lf_inv q'" "lf_contents q' = []" "lf_capacity q' = lf_capacity ?q"
      "\<forall>s. lf_drain (lf_size ?q) (pump_request now) ?q s = bindR (foldR (pump_request now) (lf_contents ?q) s) (\<lambda>s'. Inr (q', s'))"
    using lf_drain_contents[OF inv, of "lf_size ?q" "pump_request now"] by (auto simp: lf_size_def)
  obtain bt1 where bt1: "foldR (pump_request now) (bt_requests bt) bt = Inr bt1" "bt' = set_requests q' bt1"
    using m q'(4) by (auto simp: pumpClientRequests_def bt_requests_def Let_def result_simps)
  have "pumping bt (bt_requests bt)" using I room cap by (simp add: pumping_def bt_inv_def bt_queues_ok_def)
  from pump_requests_inv[OF bt1(1) this] show ?thesis
    using q' I bt1(2)
    by (simp add: pumping_def bt_inv_def bt_queues_ok_def bt_requests_def bt_responses_def set_requests_def te_risk_inv_def)
qed

section \<open>Pumping responses\<close>

definition answering :: "BacktestEngine \<Rightarrow> MEClientResponse list \<Rightarrow> bool" where
  "answering bt rsps \<longleftrightarrow> te_risk_inv (bt_engine bt) [] \<and> te_algo (bt_engine bt) \<noteq> NoAlgo
     \<and> loop_inv (te_order_manager (bt_engine bt)) (bt_live bt) [] rsps"

lemma pump_response_inv:
  assumes I: "answering bt (r # rsps)" and m: "pump_response e r bt = Inr bt'"
  shows "answering bt' rsps \<and> te_outgoing_ogw_requests (bt_engine bt') = te_outgoing_ogw_requests (bt_engine bt)"
proof -
  let ?p = "rsp_slot r" and ?te = "bt_engine bt"
  let ?om = "te_order_manager ?te"
  obtain te' where u: "te_onOrderUpdate e r ?te = Inr te'" and bt': "bt' = bt\<lparr> bt_engine := te' \<rparr>"
    using m by (auto simp: pump_response_def result_simps)
  note f = order_update_effect[OF u]
  have om': "om_onOrderUpdate r ?om = Inr (te_order_manager te')" using f I by (simp add: answering_def)
  note om = om_onOrderUpdate_eq[OF om', folded rsp_slot_def]
  have L: "loop_inv ?om (bt_live bt) [] (r # rsps)" using I by (simp add: answering_def)
  note a = slot_answer[OF loop_invD[OF L, of ?p, simplified]]
  have "response_ok ?om r"
    using a om by (simp add: response_ok_def om_at_eq[THEN iffD2] answer_ok_def rsp_slot_def split: sum.splits)
  from risk.answered[OF _ this u, of "[]"] have "te_risk_inv te' []" using I by (simp add: answering_def)
  moreover have "loop_inv (te_order_manager te') (bt_live bt) [] rsps"
    by (rule loop_change[OF L, of ?p]) (use a om in auto)
  ultimately show ?thesis using I f by (simp add: answering_def bt' same_frame_def)
qed

lemma pump_responses_inv:
  "foldR (pump_response e) rsps bt = Inr bt' \<Longrightarrow> answering bt rsps \<Longrightarrow>
   answering bt' [] \<and> te_outgoing_ogw_requests (bt_engine bt') = te_outgoing_ogw_requests (bt_engine bt)"
proof (induction rsps arbitrary: bt)
  case (Cons r rsps)
  then obtain bt1 where "pump_response e r bt = Inr bt1" "foldR (pump_response e) rsps bt1 = Inr bt'" by (auto simp: result_simps)
  then show ?case using Cons.IH[of bt1] pump_response_inv[OF Cons.prems(2)] by simp
qed simp

lemma pumpClientResponses_inv:
  assumes m: "pumpClientResponses e bt = Inr bt'" and I: "bt_inv bt" and none: "bt_requests bt = []"
  shows "bt_inv bt' \<and> bt_requests bt' = [] \<and> bt_responses bt' = []"
proof -
  let ?q = "te_incoming_ogw_responses (bt_engine bt)"
  have inv: "lf_inv ?q" using I by (simp add: bt_inv_def bt_queues_ok_def)
  obtain q' where q': "lf_inv q'" "lf_contents q' = []" "lf_capacity q' = lf_capacity ?q"
      "\<forall>s. lf_drain (lf_size ?q) (pump_response e) ?q s = bindR (foldR (pump_response e) (lf_contents ?q) s) (\<lambda>s'. Inr (q', s'))"
    using lf_drain_contents[OF inv, of "lf_size ?q" "pump_response e"] by (auto simp: lf_size_def)
  obtain bt1 where bt1: "foldR (pump_response e) (bt_responses bt) bt = Inr bt1" "bt' = set_responses q' bt1"
    using m q'(4) by (auto simp: pumpClientResponses_def bt_responses_def Let_def result_simps)
  have "answering bt (bt_responses bt)" using I none by (simp add: answering_def bt_inv_def)
  from pump_responses_inv[OF bt1(1) this] show ?thesis
    using q' I bt1(2) none
    by (simp add: answering_def bt_inv_def bt_queues_ok_def bt_requests_def bt_responses_def set_responses_def te_risk_inv_def)
qed

section \<open>A whole run\<close>

text \<open>Before the fills of an event are simulated: at most \<open>n\<close> requests, no response.\<close>

definition opened :: "nat \<Rightarrow> BacktestEngine \<Rightarrow> bool" where
  "opened n bt \<longleftrightarrow> bt_inv bt \<and> bt_responses bt = [] \<and> length (bt_requests bt) \<le> n"

lemma opened_cong:
  assumes "bt_engine bt' = bt_engine bt" and "bt_live bt' = bt_live bt"
  shows "opened n bt' \<longleftrightarrow> opened n bt"
  unfolding opened_def bt_inv_def bt_queues_ok_def bt_requests_def bt_responses_def assms by (rule refl)

lemma opened_mono: "opened n bt \<Longrightarrow> n \<le> m \<Longrightarrow> opened m bt"
  by (simp add: opened_def)

lemma publish_opened: "publishMarketUpdate e clock mu bt = Inr bt' \<Longrightarrow> opened n bt \<Longrightarrow> n \<le> 18 \<Longrightarrow> opened (n + 2) bt'"
  using publishMarketUpdate_inv[of e clock mu bt bt'] by (simp add: opened_def)

lemma nextSynthOid_frame:
  "bt_engine (snd (nextSynthOid bt)) = bt_engine bt" "bt_live (snd (nextSynthOid bt)) = bt_live bt"
  by (simp_all add: nextSynthOid_def Let_def)

text \<open>A step that publishes at most one update and otherwise only changes what the simulator remembers of the tape.\<close>

definition one_publish :: "fpenv \<Rightarrow> (nat \<Rightarrow> int) \<Rightarrow> BacktestEngine \<Rightarrow> BacktestEngine \<Rightarrow> bool" where
  "one_publish e clock bt bt' \<longleftrightarrow> (bt_engine bt' = bt_engine bt \<and> bt_live bt' = bt_live bt)
     \<or> (\<exists>mu bt1 bt2. bt_engine bt1 = bt_engine bt \<and> bt_live bt1 = bt_live bt
          \<and> publishMarketUpdate e clock mu bt1 = Inr bt2 \<and> bt_engine bt' = bt_engine bt2 \<and> bt_live bt' = bt_live bt2)"

lemma one_publishI:
  "publishMarketUpdate e clock mu bt1 = Inr bt2 \<Longrightarrow> bt_engine bt1 = bt_engine bt \<Longrightarrow> bt_live bt1 = bt_live bt \<Longrightarrow>
   bt_engine bt' = bt_engine bt2 \<Longrightarrow> bt_live bt' = bt_live bt2 \<Longrightarrow> one_publish e clock bt bt'"
  unfolding one_publish_def by blast

lemma one_publish_none: "bt_engine bt' = bt_engine bt \<Longrightarrow> bt_live bt' = bt_live bt \<Longrightarrow> one_publish e clock bt bt'"
  unfolding one_publish_def by blast

lemma one_publish_opened:
  assumes "one_publish e clock bt bt'" and "opened n bt" and "n \<le> 18"
  shows "opened (n + 2) bt'"
proof -
  consider "bt_engine bt' = bt_engine bt \<and> bt_live bt' = bt_live bt"
    | mu bt1 bt2 where "bt_engine bt1 = bt_engine bt" "bt_live bt1 = bt_live bt" "publishMarketUpdate e clock mu bt1 = Inr bt2"
        "bt_engine bt' = bt_engine bt2" "bt_live bt' = bt_live bt2"
    using assms(1) unfolding one_publish_def by blast
  then show ?thesis
  proof cases
    case 1
    then have "opened n bt'" using assms(2) opened_cong[of bt' bt] by blast
    then show ?thesis by (rule opened_mono) simp
  next
    case 2
    then have "opened n bt1" using assms(2) opened_cong[of bt1 bt] by blast
    then have "opened (n + 2) bt2" using publish_opened[OF 2(3)] assms(3) by blast
    then show ?thesis using opened_cong[of bt' bt2] 2 by blast
  qed
qed

lemma cancel_one_publish:
  "cancel_resting_bid e clock c bt = Inr bt' \<Longrightarrow> one_publish e clock bt bt'"
  "cancel_resting_ask e clock c bt = Inr bt' \<Longrightarrow> one_publish e clock bt bt'"
  by (auto simp: cancel_resting_bid_def cancel_resting_ask_def bindR_eq_Inr split: if_splits intro: one_publish_none one_publishI)

lemma add_one_publish:
  "add_resting_bid e clock c ev bt = Inr bt' \<Longrightarrow> one_publish e clock bt bt'"
  "add_resting_ask e clock c ev bt = Inr bt' \<Longrightarrow> one_publish e clock bt bt'"
  using nextSynthOid_frame[of bt]
  by (auto simp: add_resting_bid_def add_resting_ask_def bindR_eq_Inr split: if_splits prod.splits
      intro: one_publish_none elim!: one_publishI)

lemma applyBookEvent_inv:
  assumes m: "applyBookEvent e clock ev bt = Inr bt'" and o: "opened 0 bt"
  shows "bt_inv bt' \<and> length (bt_requests bt') \<le> 8 \<and> length (bt_responses bt') \<le> 2"
proof -
  obtain bc ac bt1 bt2 bt3 bt4 where s: "cancel_resting_bid e clock bc bt = Inr bt1" "cancel_resting_ask e clock ac bt1 = Inr bt2"
      "add_resting_bid e clock bc ev bt2 = Inr bt3" "add_resting_ask e clock ac ev bt3 = Inr bt4" "matchAgainstBBO bt4 = Inr bt'"
    using m unfolding applyBookEvent_def Let_def bindR_eq_Inr by blast
  have "opened 2 bt1" using one_publish_opened[OF cancel_one_publish(1)[OF s(1)] o] by (simp add: numeral_2_eq_2)
  then have "opened 4 bt2" using one_publish_opened[OF cancel_one_publish(2)[OF s(2)]] by fastforce
  then have "opened 6 bt3" using one_publish_opened[OF add_one_publish(1)[OF s(3)]] by fastforce
  then have "opened 8 bt4" using one_publish_opened[OF add_one_publish(2)[OF s(4)]] by fastforce
  then show ?thesis using matchAgainstBBO_inv[OF s(5)] by (simp add: opened_def bt_keeps_def)
qed

lemma applyTradeEvent_inv:
  assumes m: "applyTradeEvent e clock ev bt = Inr bt'" and o: "opened 0 bt"
  shows "bt_inv bt' \<and> length (bt_requests bt') \<le> 8 \<and> length (bt_responses bt') \<le> 2"
proof -
  obtain mu bt1 where s: "publishMarketUpdate e clock mu bt = Inr bt1" "matchAgainstTrade e ev bt1 = Inr bt'"
    using m unfolding applyTradeEvent_def bindR_eq_Inr by blast
  have "opened 2 bt1" using publish_opened[OF s(1) o] by (simp add: numeral_2_eq_2)
  then show ?thesis using matchAgainstTrade_inv[OF s(2)] by (simp add: opened_def bt_keeps_def)
qed

lemma lobster_match_inv:
  assumes "publishMarketUpdate e clock mu bt = Inr bt1" and "syncBBOFromBook bt1 = Inr bt2"
    and m: "(if c then matchAgainstTrade e ev bt2 else matchAgainstBBO bt2) = Inr bt'" and "opened 0 bt"
  shows "bt_inv bt' \<and> length (bt_requests bt') \<le> 8 \<and> length (bt_responses bt') \<le> 2"
proof -
  have "bt_engine bt2 = bt_engine bt1" "bt_live bt2 = bt_live bt1" using assms(2) by (auto simp: syncBBOFromBook_def bindR_eq_Inr Let_def)
  moreover have "opened 2 bt1" using publish_opened[OF assms(1,4)] by (simp add: numeral_2_eq_2)
  ultimately have "opened 2 bt2" using opened_cong by blast
  then show ?thesis
    using m matchAgainstTrade_inv[of e ev bt2 bt'] matchAgainstBBO_inv[of bt2 bt'] by (cases c) (simp_all add: opened_def bt_keeps_def)
qed

text \<open>The limits are never changed.\<close>

definition bt_limits :: "BacktestEngine \<Rightarrow> RiskManager" where
  "bt_limits bt = te_risk_manager (bt_engine bt)"

lemma publish_limits: "publishMarketUpdate e clock mu bt = Inr bt' \<Longrightarrow> bt_limits bt' = bt_limits bt"
  by (auto simp: publishMarketUpdate_def bt_limits_def te_acts_def same_frame_def result_simps dest!: deliver_acts)

lemma one_publish_limits: "one_publish e clock bt bt' \<Longrightarrow> bt_limits bt' = bt_limits bt"
  using publish_limits by (fastforce simp: one_publish_def bt_limits_def)

lemma sweep_limits [simp]: "bt_limits (bt_sweep side slot bt) = bt_limits bt" "bt_limits (bt_fill side price q slot bt) = bt_limits bt"
    "bt_limits (bt_set_slot tid side slot bt) = bt_limits bt"
  by (simp_all add: bt_limits_def bt_sweep_def bt_fill_def publishResponse_def bt_set_slot_def Let_def)

lemma match_limits:
  "matchAgainstBBO bt = Inr bt' \<Longrightarrow> bt_limits bt' = bt_limits bt"
  "matchAgainstTrade e ev bt = Inr bt' \<Longrightarrow> bt_limits bt' = bt_limits bt"
  by (auto simp: matchAgainstBBO_def matchAgainstTrade_def bt_trade_fill_def bindR_eq_Inr Let_def split: if_splits)

lemma applyBookEvent_limits: "applyBookEvent e clock ev bt = Inr bt' \<Longrightarrow> bt_limits bt' = bt_limits bt"
  by (auto simp: applyBookEvent_def bindR_eq_Inr Let_def
      dest!: cancel_one_publish[THEN one_publish_limits] add_one_publish[THEN one_publish_limits] match_limits(1))

lemma applyTradeEvent_limits: "applyTradeEvent e clock ev bt = Inr bt' \<Longrightarrow> bt_limits bt' = bt_limits bt"
  by (auto simp: applyTradeEvent_def bindR_eq_Inr dest!: publish_limits match_limits(2))

lemma drain_limits:
  assumes f: "\<And>x s s'. f x s = Inr s' \<Longrightarrow> bt_limits s' = bt_limits s"
  shows "lf_drain n f q bt = Inr (q', bt') \<Longrightarrow> bt_limits bt' = bt_limits bt"
proof (induction n arbitrary: q bt)
  case (Suc n)
  then show ?case by (auto simp: bindR_eq_Inr Let_def split: if_splits option.splits dest!: f)
qed (auto split: option.splits)

lemma pump_limits:
  "pump_request now rq bt = Inr bt' \<Longrightarrow> bt_limits bt' = bt_limits bt"
  "pump_response e r bt = Inr bt' \<Longrightarrow> bt_limits bt' = bt_limits bt"
  by (auto simp: pump_request_def pump_response_def publishResponse_def bt_limits_def bt_set_slot_def bindR_eq_Inr Let_def same_frame_def
      dest!: order_update_effect split: if_splits)

lemma pumps_limits:
  "pumpClientRequests now bt = Inr bt' \<Longrightarrow> bt_limits bt' = bt_limits bt"
  "pumpClientResponses e bt = Inr bt' \<Longrightarrow> bt_limits bt' = bt_limits bt"
  using drain_limits[of "pump_request now", OF pump_limits(1)] drain_limits[of "pump_response e", OF pump_limits(2)]
  by (auto simp: pumpClientRequests_def pumpClientResponses_def bindR_eq_Inr Let_def) (auto simp: bt_limits_def set_requests_def set_responses_def)

text \<open>Between two events: the queues are empty, and the limits are those of the configuration.\<close>

definition bt_between :: "RiskManager \<Rightarrow> BacktestEngine \<Rightarrow> bool" where
  "bt_between rm bt \<longleftrightarrow> opened 0 bt \<and> bt_limits bt = rm"

lemma bt_between_cong: "bt_engine bt' = bt_engine bt \<Longrightarrow> bt_live bt' = bt_live bt \<Longrightarrow> bt_between rm bt' \<longleftrightarrow> bt_between rm bt"
  using opened_cong[of bt' bt] by (simp add: bt_between_def bt_limits_def)

lemma recordPnL_between: "recordPnL e now bt = Inr bt' \<Longrightarrow> bt_between rm bt' \<longleftrightarrow> bt_between rm bt"
  by (rule bt_between_cong) (auto simp: recordPnL_def bindR_eq_Inr)

lemma bt_settle_between:
  assumes m: "bt_settle e now (bt, prev) = Inr (bt', prev')" and I: "bt_inv bt" "length (bt_requests bt) \<le> 8" "length (bt_responses bt) \<le> 2"
    and rm: "bt_limits bt = rm"
  shows "bt_between rm bt'"
proof -
  obtain bt1 bt2 where s: "pumpClientRequests now bt = Inr bt1" "pumpClientResponses e bt1 = Inr bt2"
      and bt': "bt' = bt2 \<or> recordPnL e now bt2 = Inr bt'"
    using m by (auto simp: bt_settle_def bindR_eq_Inr split: if_splits)
  have "bt_inv bt1 \<and> bt_requests bt1 = []" using pumpClientRequests_inv[OF s(1) I(1)] I by simp
  then have "opened 0 bt2" using pumpClientResponses_inv[OF s(2)] by (simp add: opened_def)
  then have "bt_between rm bt2" using pumps_limits(1)[OF s(1)] pumps_limits(2)[OF s(2)] rm by (simp add: bt_between_def)
  then show ?thesis using bt' recordPnL_between by blast
qed

lemma bt_event_between:
  assumes "bt_event e clock ev (bt, prev) = Inr (bt', prev')" and "bt_between rm bt"
  shows "bt_between rm bt'"
proof (cases ev)
  case (BookTop b)
  then obtain bt1 where "applyBookEvent e clock b bt = Inr bt1" "bt_settle e (ev_ns b) (bt1, prev) = Inr (bt', prev')"
    using assms(1) by (auto simp: bindR_eq_Inr)
  then show ?thesis using assms(2) applyBookEvent_inv applyBookEvent_limits bt_settle_between by (metis bt_between_def)
next
  case (Trade t)
  then obtain bt1 where "applyTradeEvent e clock t bt = Inr bt1" "bt_settle e (tr_ns t) (bt1, prev) = Inr (bt', prev')"
    using assms(1) by (auto simp: bindR_eq_Inr)
  then show ?thesis using assms(2) applyTradeEvent_inv applyTradeEvent_limits bt_settle_between by (metis bt_between_def)
qed

lemma lobster_event_between:
  assumes "lobster_event e clock (now, mu) (bt, prev) = Inr (bt', prev')" and I: "bt_between rm bt"
  shows "bt_between rm bt'"
proof -
  obtain ev bt1 bt2 bt3 where s: "publishMarketUpdate e clock mu bt = Inr bt1" "syncBBOFromBook bt1 = Inr bt2"
      "(if mu_type mu = TRADE then matchAgainstTrade e ev bt2 else matchAgainstBBO bt2) = Inr bt3"
      "bt_settle e now (bt3, prev) = Inr (bt', prev')"
    using assms(1) unfolding lobster_event_def bindR_eq_Inr prod.case by blast
  have "bt_limits bt3 = bt_limits bt2" using s(3) match_limits by (metis (full_types))
  moreover have "bt_limits bt2 = bt_limits bt1" using s(2) by (auto simp: syncBBOFromBook_def bindR_eq_Inr Let_def bt_limits_def)
  ultimately have "bt_limits bt3 = rm" using publish_limits[OF s(1)] I by (simp add: bt_between_def)
  then show ?thesis using lobster_match_inv[OF s(1-3)] I bt_settle_between[OF s(4)] by (simp add: bt_between_def)
qed

lemma foldR_between:
  assumes "\<And>x bt prev bt' prev'. f x (bt, prev) = Inr (bt', prev') \<Longrightarrow> bt_between rm bt \<Longrightarrow> bt_between rm bt'"
  shows "foldR f xs (bt, prev) = Inr (bt', prev') \<Longrightarrow> bt_between rm bt \<Longrightarrow> bt_between rm bt'"
proof (induction xs arbitrary: bt prev)
  case (Cons x xs)
  then obtain bt1 prev1 where "f x (bt, prev) = Inr (bt1, prev1)" "foldR f xs (bt1, prev1) = Inr (bt', prev')"
    by (auto simp: bindR_eq_Inr)
  then show ?case using Cons.IH Cons.prems(2) assms by blast
qed simp

lemma bt_finish_between: "bt_finish e (bt, prev) = Inr bt' \<Longrightarrow> bt_between rm bt \<Longrightarrow> bt_between rm bt'"
proof -
  assume "bt_finish e (bt, prev) = Inr bt'" and I: "bt_between rm bt"
  then obtain bt1 where s: "pumpClientResponses e bt = Inr bt1" "recordPnL e prev bt1 = Inr bt'"
    by (auto simp: bt_finish_def bindR_eq_Inr)
  have "bt_between rm bt1"
    using pumpClientResponses_inv[OF s(1)] pumps_limits(2)[OF s(1)] I by (simp add: bt_between_def opened_def)
  then show ?thesis using recordPnL_between[OF s(2)] by blast
qed

lemma run_between:
  "bt_run e clock tape bt = Inr bt' \<Longrightarrow> bt_between rm bt \<Longrightarrow> bt_between rm bt'"
  "bt_runLobster e clock updates bt = Inr bt' \<Longrightarrow> bt_between rm bt \<Longrightarrow> bt_between rm bt'"
  unfolding bt_run_def bt_runLobster_def bindR_eq_Inr
  using foldR_between[of "bt_event e clock" rm] foldR_between[of "lobster_event e clock" rm] bt_event_between lobster_event_between
    bt_finish_between by (metis surj_pair)+

section \<open>Position limit of a backtest\<close>

lemma new_backtest:
  assumes "BacktestEngine_new e vwaps ids levels now ticker_id cfg = Inr bt"
    and "unat (max_order_size (cfg_risk cfg)) < 2 ^ 31" and "0 \<le> to_int32 (max_position (cfg_risk cfg))"
  shows "bt_between (RiskManager_new ((\<lambda>_. TradeEngineCfg_default e)(unat ticker_id := cfg))) bt \<and> unat ticker_id < ME_MAX_TICKERS"
proof -
  let ?cfg = "(\<lambda>_. TradeEngineCfg_default e)(unat ticker_id := cfg)"
  let ?rq = "LFQueue_new ME_MAX_CLIENT_UPDATES MEClientRequest_default" and ?rs = "LFQueue_new ME_MAX_CLIENT_UPDATES MEClientResponse_default"
  have t: "unat ticker_id < ME_MAX_TICKERS" using assms(1) by (auto simp: BacktestEngine_new_def result_simps)
  then obtain te where te: "TradeEngine_new vwaps ids levels now 1 Algo_MAKER ?cfg ?rq ?rs
        (LFQueue_new ME_MAX_MARKET_UPDATES MEMarketUpdate_default) = Inr te"
      and bt: "bt_engine bt = te" "bt_live bt = (\<lambda>_. LiveAlgoOrder_default)"
    using assms(1) by (auto simp: BacktestEngine_new_def bindR_eq_Inr)
  have f: "te_incoming_ogw_responses te = ?rs" "te_algo te \<noteq> NoAlgo"
    using te by (auto simp: TradeEngine_new_def result_simps)
  note te0 = TradeEngine_new_fields[OF te]
  have "\<forall>t < ME_MAX_TICKERS. unat (max_order_size (cfg_risk (?cfg t))) < 2 ^ 31 \<and> 0 \<le> to_int32 (max_position (cfg_risk (?cfg t)))"
    using assms(2,3) by (auto simp: TradeEngineCfg_default_def to_int32_def)
  then have "te_risk_inv te []" using te_risk_inv_new[OF te] by blast
  moreover have "loop_inv (te_order_manager te) (\<lambda>_. LiveAlgoOrder_default) [] []"
    by (intro loop_invI) (simp add: slot_inv_def settled_def LiveAlgoOrder_default_def Let_def te0(3)[rule_format])
  moreover have "lf_inv ?rq \<and> lf_contents ?rq = []" "lf_inv ?rs \<and> lf_contents ?rs = []" "lf_capacity ?rq = ME_MAX_CLIENT_UPDATES" "lf_capacity ?rs = ME_MAX_CLIENT_UPDATES"
    by (simp_all add: lf_new_inv ME_MAX_CLIENT_UPDATES_def) (simp_all add: LFQueue_new_def)
  ultimately show ?thesis
    using t te0 f bt by (simp add: bt_between_def opened_def bt_inv_def bt_queues_ok_def bt_requests_def bt_responses_def bt_limits_def ME_MAX_CLIENT_UPDATES_def)
qed

lemma between_position:
  assumes b: "bt_between (RiskManager_new ((\<lambda>_. TradeEngineCfg_default e)(unat ticker_id := cfg))) bt" and t: "unat ticker_id < ME_MAX_TICKERS"
  shows "\<bar>position_of (te_position_keeper (bt_engine bt)) (unat ticker_id)\<bar> \<le> to_int32 (max_position (cfg_risk cfg))
    \<and> lf_contents (te_outgoing_ogw_requests (bt_engine bt)) = [] \<and> lf_contents (te_incoming_ogw_responses (bt_engine bt)) = []"
proof -
  have "te_risk_inv (bt_engine bt) []" using b by (simp add: bt_between_def opened_def bt_inv_def)
  moreover have "limit (te_risk_manager (bt_engine bt)) (unat ticker_id) = to_int32 (max_position (cfg_risk cfg))"
    using b by (simp add: bt_between_def bt_limits_def limit_def RiskManager_new_def)
  ultimately have "\<bar>position_of (te_position_keeper (bt_engine bt)) (unat ticker_id)\<bar> \<le> to_int32 (max_position (cfg_risk cfg))"
    using t by (force simp: te_risk_inv_def risk_inv_def exposed_def)
  moreover have "bt_requests bt = []" "bt_responses bt = []" using b by (simp_all add: bt_between_def opened_def)
  ultimately show ?thesis by (simp only: bt_requests_def bt_responses_def simp_thms)
qed

text \<open>C6: In a backtest the loop is closed: whatever the tape (snapshots of the top of the book and trades, or order-by-order updates), the position of
  the traded ticker stays within the configured maximum, with the responses of the simulator itself and its queue-position
  model. Between two events, that is after each settled event, both message queues are empty.\<close>

theorem backtest_position_within_limit:
  assumes new: "BacktestEngine_new e vwaps ids levels now ticker_id cfg = Inr bt0"
    and cfg: "unat (max_order_size (cfg_risk cfg)) < 2 ^ 31" "0 \<le> to_int32 (max_position (cfg_risk cfg))"
    and run: "bt_run e clock tape bt0 = Inr bt \<or> bt_runLobster e clock updates bt0 = Inr bt"
  shows "\<bar>position_of (te_position_keeper (bt_engine bt)) (unat ticker_id)\<bar> \<le> to_int32 (max_position (cfg_risk cfg))
    \<and> lf_contents (te_outgoing_ogw_requests (bt_engine bt)) = [] \<and> lf_contents (te_incoming_ogw_responses (bt_engine bt)) = []"
  using between_position new_backtest[OF new cfg] run run_between by blast

text \<open>A tape of one snapshot and one trade: the maker quotes behind 20 at 99, the trade of 25 eats these and fills 5 of its 10.\<close>

definition sample_bt_construct :: "BacktestEngine result" where
  "sample_bt_construct = BacktestEngine_new exact_env (\<lambda>_ _. Fin 0) (\<lambda>_ _. None) (\<lambda>_ _. None) 0 0 (sample_cfg 0)"

definition sample_bt :: BacktestEngine where "sample_bt = (case sample_bt_construct of Inr bt \<Rightarrow> bt)"

definition sample_top :: BookTopEvent where
  "sample_top = \<lparr> ev_ns = 1000, ev_bid_price = 99, ev_bid_qty = 20, ev_ask_price = 101, ev_ask_qty = 20 \<rparr>"

definition sample_print :: TradeEvent where
  "sample_print = \<lparr> tr_ns = 2000, tr_price = 99, tr_qty = 25, tr_side = SELL \<rparr>"

definition sample_bt1 :: BacktestEngine where
  "sample_bt1 = result_or sample_bt (applyBookEvent exact_env (\<lambda>_. 0) sample_top sample_bt)"

lemmas bt_eval = applyBookEvent_def cancel_resting_bid_def cancel_resting_ask_def add_resting_bid_def add_resting_ask_def nextSynthOid_def
  publishMarketUpdate_def synth_update_def matchAgainstBBO_def bt_slot_def BacktestEngine_new_def LiveAlgoOrder_default_def
  ME_MAX_CLIENT_UPDATES_def ME_MAX_MARKET_UPDATES_def OrderId_INVALID_def Qty_INVALID_def

lemma sample_bt_eq: "sample_bt_construct = Inr sample_bt"
  by (simp add: sample_bt_def sample_bt_construct_def BacktestEngine_new_def TradeEngine_new_def ME_MAX_TICKERS_def upt_tickers setHysteresisTicks_def)

lemma sample_bt_step1: "applyBookEvent exact_env (\<lambda>_. 0) sample_top sample_bt = Inr sample_bt1"
  by (simp add: sample_bt1_def result_or_def sample_bt_def sample_bt_construct_def bt_eval sample_top_def engine_eval book_eval)

definition sample_bt2 :: "BacktestEngine \<times> int" where
  "sample_bt2 = result_or (sample_bt, 0) (bt_settle exact_env 1000 (sample_bt1, 0))"

definition sample_quote :: "Side \<Rightarrow> OrderId \<Rightarrow> Price \<Rightarrow> OMOrderState \<Rightarrow> OMOrder" where
  "sample_quote side oid price st = \<lparr> oo_ticker_id = 0, oo_order_id = oid, oo_side = side, oo_price = price, oo_qty = 10, oo_state = st \<rparr>"

definition sample_new :: "Side \<Rightarrow> OrderId \<Rightarrow> Price \<Rightarrow> MEClientRequest" where
  "sample_new side oid price = \<lparr> req_type = Req_NEW, req_client_id = 1, req_ticker_id = 0, req_order_id = oid, req_side = side, req_price = price, req_qty = 10 \<rparr>"

lemmas sample_bt1_eval = sample_bt1_def result_or_def sample_bt_def sample_bt_construct_def bt_eval sample_top_def engine_eval book_eval

lemma sample_bt1_queue:
  "num_elements (te_outgoing_ogw_requests (bt_engine sample_bt1)) = 2"
  "next_read_index (te_outgoing_ogw_requests (bt_engine sample_bt1)) = 0"
  "lf_capacity (te_outgoing_ogw_requests (bt_engine sample_bt1)) = 262144"
  "lf_store (te_outgoing_ogw_requests (bt_engine sample_bt1)) 0 = sample_new BUY 1 99"
  "lf_store (te_outgoing_ogw_requests (bt_engine sample_bt1)) (Suc 0) = sample_new SELL 2 101"
  "te_incoming_ogw_responses (bt_engine sample_bt1) = LFQueue_new 262144 MEClientResponse_default"
  by (simp_all add: sample_new_def sample_bt1_eval)

lemma sample_bt1_tape:
  "bt_live sample_bt1 = (\<lambda>_. LiveAlgoOrder_default)" "bt_ticker_id sample_bt1 = 0"
  "bt_last_bid_price sample_bt1 = 99" "bt_last_bid_qty sample_bt1 = 20" "bt_last_ask_price sample_bt1 = 101" "bt_last_ask_qty sample_bt1 = 20"
  by (simp_all add: sample_bt1_eval)

lemma sample_bt1_orders:
  "om_orders (te_order_manager (bt_engine sample_bt1)) (0, 2) = sample_quote BUY 1 99 PENDING_NEW"
  "om_orders (te_order_manager (bt_engine sample_bt1)) (0, 0) = sample_quote SELL 2 101 PENDING_NEW"
  by (simp_all add: sample_quote_def sample_bt1_eval)

lemma sample_bt1_maker: "\<exists>mm. te_algo (bt_engine sample_bt1) = Maker mm"
  by (simp add: sample_bt1_eval)

lemma sample_bt1_position:
  "pi_position (pk_ticker_position (te_position_keeper (bt_engine sample_bt1)) 0) = 0"
  "pi_open_vwap (pk_ticker_position (te_position_keeper (bt_engine sample_bt1)) 0) = (\<lambda>_. Fin 0)"
  "pi_real_pnl (pk_ticker_position (te_position_keeper (bt_engine sample_bt1)) 0) = Fin 0"
  "pk_rebate_bps (te_position_keeper (bt_engine sample_bt1)) 0 = Fin 0"
  "\<not> fe_use_vpin (te_feature_engine (bt_engine sample_bt1))"
  by (simp_all add: sample_bt1_eval)

lemmas sample_bt1_fields = sample_bt1_tape sample_bt1_orders sample_bt1_position

lemmas pump_eval = bt_settle_def pumpClientRequests_def pump_request_def publishResponse_def bt_set_slot_def set_requests_def
  pumpClientResponses_def pump_response_def set_responses_def lf_size_def getNextToRead_def updateReadIndex_def kPnlSamplePeriodNs_def

lemmas settle_eval = pump_eval fill_eval sample_new_def sample_quote_def
     bt_slot_def om_at_def ME_MAX_TICKERS_def with_orders_def om_store_def Let_def LFQueue_new_def lf_push_def updateWriteIndex_def write_slot_def getNextToWriteTo_def

lemma sample_bt_step2: "bt_settle exact_env 1000 (sample_bt1, 0) = Inr sample_bt2"
  using sample_bt1_maker sample_bt1_orders(1)[unfolded numeral_2_eq_2]
  by (auto simp: sample_bt2_def result_or_def settle_eval numeral_2_eq_2 sample_bt1_fields sample_bt1_queue)

lemma sample_bt2_fields:
  "snd sample_bt2 = 0" "bt_ticker_id (fst sample_bt2) = 0"
  "bt_live (fst sample_bt2) (0, 2) = \<lparr> la_order_id = 1, la_price = 99, la_side = BUY, la_leaves = 10, la_ahead = 20, la_created_ns = 1000 \<rparr>"
  "bt_last_bid_price (fst sample_bt2) = 99" "bt_last_ask_price (fst sample_bt2) = 101"
  "te_algo (bt_engine (fst sample_bt2)) = te_algo (bt_engine sample_bt1)"
  "te_position_keeper (bt_engine (fst sample_bt2)) = te_position_keeper (bt_engine sample_bt1)"
  "te_feature_engine (bt_engine (fst sample_bt2)) = te_feature_engine (bt_engine sample_bt1)"
  "om_orders (te_order_manager (bt_engine (fst sample_bt2))) (0, 2) = sample_quote BUY 1 99 LIVE"
  "num_elements (te_outgoing_ogw_requests (bt_engine (fst sample_bt2))) = 0"
  "num_elements (te_incoming_ogw_responses (bt_engine (fst sample_bt2))) = 0"
  "next_read_index (te_incoming_ogw_responses (bt_engine (fst sample_bt2))) = 2"
  "next_write_index (te_incoming_ogw_responses (bt_engine (fst sample_bt2))) = 2"
  "lf_capacity (te_incoming_ogw_responses (bt_engine (fst sample_bt2))) = 262144"
  using sample_bt1_maker sample_bt1_orders(1)[unfolded numeral_2_eq_2]
  by (auto simp: sample_bt2_def result_or_def settle_eval numeral_2_eq_2 sample_bt1_fields sample_bt1_queue)


definition sample_bt3 :: BacktestEngine where
  "sample_bt3 = result_or sample_bt (applyTradeEvent exact_env (\<lambda>_. 0) sample_print (fst sample_bt2))"

lemmas print_eval = applyTradeEvent_def publishMarketUpdate_def synth_update_def te_deliver_def onMarketUpdate_def te_onTradeUpdate_def
  fe_onTradeUpdate_def dispatchOnTradeUpdate_def mm_onTradeUpdate_def matchAgainstTrade_def bt_trade_fill_def bt_fill_def
  bt_response_def sample_print_def d_of_qty_def fmin_def d_to_u32_def fsub_def d_of_int_def trunc_def

lemmas sample_bt2_eval = result_or_def print_eval sample_bt2_fields sample_bt1_fields settle_eval

lemma sample_bt_step3: "applyTradeEvent exact_env (\<lambda>_. 0) sample_print (fst sample_bt2) = Inr sample_bt3"
  using sample_bt1_maker by (auto simp: sample_bt3_def sample_bt2_eval)

lemma sample_bt3_fields:
  "te_algo (bt_engine sample_bt3) = te_algo (bt_engine sample_bt1)"
  "te_position_keeper (bt_engine sample_bt3) = te_position_keeper (bt_engine sample_bt1)"
  "om_orders (te_order_manager (bt_engine sample_bt3)) (0, 2) = sample_quote BUY 1 99 LIVE"
  "num_elements (te_outgoing_ogw_requests (bt_engine sample_bt3)) = 0"
  "num_elements (te_incoming_ogw_responses (bt_engine sample_bt3)) = 1"
  "next_read_index (te_incoming_ogw_responses (bt_engine sample_bt3)) = 2"
  "lf_store (te_incoming_ogw_responses (bt_engine sample_bt3)) 2 = bt_response FILLED 0 1 BUY 99 5 5"
  "lf_capacity (te_incoming_ogw_responses (bt_engine sample_bt3)) = 262144"
  "bt_last_bid_price sample_bt3 = 99" "bt_last_ask_price sample_bt3 = 101" "bt_ticker_id sample_bt3 = 0"
  using sample_bt1_maker by (auto simp: sample_bt3_def sample_bt2_eval)

lemma sample_bt_step4:
  "\<exists>bt. bt_settle exact_env 2000 (sample_bt3, 0) = Inr (bt, 0) \<and> pi_position (pk_ticker_position (te_position_keeper (bt_engine bt)) 0) = 5
     \<and> (\<exists>bt'. bt_finish exact_env (bt, 0) = Inr bt' \<and> te_position_keeper (bt_engine bt') = te_position_keeper (bt_engine bt))"
  using sample_bt1_maker
  by (auto simp: settle_eval bt_finish_def recordPnL_def getPositionInfo_def sample_bt3_fields sample_bt1_fields bt_response_def to_int32_def d_of_int_def)

lemma sample_bt_run:
  "\<exists>bt. bt_run exact_env (\<lambda>_. 0) [BookTop sample_top, Trade sample_print] sample_bt = Inr bt \<and> position_of (te_position_keeper (bt_engine bt)) 0 = 5"
proof -
  obtain bt bt' where b: "bt_settle exact_env 2000 (sample_bt3, 0) = Inr (bt, 0)" "position_of (te_position_keeper (bt_engine bt)) 0 = 5"
      "bt_finish exact_env (bt, 0) = Inr bt'" "te_position_keeper (bt_engine bt') = te_position_keeper (bt_engine bt)"
    using sample_bt_step4 by (auto simp: position_of_def)
  have "bt_settle exact_env 1000 (sample_bt1, 0) = Inr (fst sample_bt2, 0)"
    using sample_bt_step2 sample_bt2_fields(1) by (metis prod.collapse)
  moreover have "ev_ns sample_top = 1000" "tr_ns sample_print = 2000" by (simp_all add: sample_top_def sample_print_def)
  ultimately have "bt_run exact_env (\<lambda>_. 0) [BookTop sample_top, Trade sample_print] sample_bt = Inr bt'"
    using sample_bt_step1 sample_bt_step3 b by (simp add: bt_run_def)
  then show ?thesis using b by auto
qed

lemma backtest_position_within_limit_witness:
  "\<exists>bt. bt_run exact_env (\<lambda>_. 0) [BookTop sample_top, Trade sample_print] sample_bt = Inr bt
     \<and> position_of (te_position_keeper (bt_engine bt)) 0 = 5 \<and> \<bar>position_of (te_position_keeper (bt_engine bt)) 0\<bar> \<le> 50"
proof -
  obtain bt where bt: "bt_run exact_env (\<lambda>_. 0) [BookTop sample_top, Trade sample_print] sample_bt = Inr bt"
      "position_of (te_position_keeper (bt_engine bt)) 0 = 5"
    using sample_bt_run by blast
  have "unat (max_order_size (cfg_risk (sample_cfg 0))) < 2 ^ 31" "0 \<le> to_int32 (max_position (cfg_risk (sample_cfg 0)))"
    by (simp_all add: sample_cfg_limits to_int32_def)
  from backtest_position_within_limit[OF sample_bt_eq[unfolded sample_bt_construct_def] this disjI1[OF bt(1)]]
  show ?thesis using bt by (simp add: sample_cfg_limits to_int32_def)
qed

end
