(* ===== verification/CText.thy ===== *)
theory CText
  imports Doubles CommonTypes
begin

text \<open>
  What the programs use of the standard library for text: \<open>std::getline\<close> on a stream, the conversions \<open>std::stoll\<close>,
  \<open>std::stoi\<close>, \<open>std::stod\<close>, \<open>std::atoi\<close>, \<open>std::atof\<close> and \<open>std::strtoull\<close>, and \<open>std::to_string\<close>. A stream is the text that
  is still unread. The conversions read the longest prefix that is a number and ignore the rest; the members of \<open>std\<close> throw when there is none, or when the
  value does not fit.
\<close>

section \<open>Streams\<close>

text \<open>\<open>std::getline(stream, line, delim)\<close>: fails at the end of the stream, and otherwise takes the text up to the delimiter, which it removes.\<close>

definition getline :: "char \<Rightarrow> string \<Rightarrow> (string \<times> string) option" where
  "getline delim s = (if s = [] then None else Some (takeWhile (\<lambda>c. c \<noteq> delim) s, drop 1 (dropWhile (\<lambda>c. c \<noteq> delim) s)))"

lemma getline_shorter: "getline d s = Some (line, rest) \<Longrightarrow> length rest < length s"
proof -
  assume "getline d s = Some (line, rest)"
  then have "s \<noteq> []" "rest = drop 1 (dropWhile (\<lambda>c. c \<noteq> d) s)" by (auto simp: getline_def split: if_splits)
  moreover have "length (dropWhile (\<lambda>c. c \<noteq> d) s) \<le> length s" by (rule length_dropWhile_le)
  ultimately show ?thesis by (cases "dropWhile (\<lambda>c. c \<noteq> d) s") auto
qed

lemma delim_split:
  "d \<notin> set x \<Longrightarrow> takeWhile (\<lambda>c. c \<noteq> d) (x @ d # rest) = x \<and> dropWhile (\<lambda>c. c \<noteq> d) (x @ d # rest) = d # rest"
  by (induction x) auto

lemma delim_none: "d \<notin> set x \<Longrightarrow> takeWhile (\<lambda>c. c \<noteq> d) x = x \<and> dropWhile (\<lambda>c. c \<noteq> d) x = []"
  by (induction x) auto

lemma getline_field: "d \<notin> set x \<Longrightarrow> getline d (x @ d # rest) = Some (x, rest)"
  using delim_split[of d x rest] by (simp add: getline_def)

lemma getline_last:
  assumes "d \<notin> set x" and "x \<noteq> []"
  shows "getline d x = Some (x, [])"
  by (simp only: getline_def delim_none[OF assms(1)] assms(2) if_False drop_Nil)

section \<open>Scanning numbers\<close>

definition is_space :: "char \<Rightarrow> bool" where
  "is_space c \<longleftrightarrow> (let n = of_char c :: nat in n = 32 \<or> (9 \<le> n \<and> n \<le> 13))"

definition digit_val :: "char \<Rightarrow> nat option" where
  "digit_val c =
     (let n = of_char c :: nat in
      if 48 \<le> n \<and> n \<le> 57 then Some (n - 48)
      else if 97 \<le> n \<and> n \<le> 102 then Some (n - 87)
      else if 65 \<le> n \<and> n \<le> 70 then Some (n - 55)
      else None)"

text \<open>Digits of a base: their value after \<open>v\<close>, how many there are after \<open>n\<close>, and what follows.\<close>

fun scan_digits :: "nat \<Rightarrow> nat \<Rightarrow> nat \<Rightarrow> string \<Rightarrow> nat \<times> nat \<times> string" where
  "scan_digits b v n [] = (v, n, [])"
| "scan_digits b v n (c # cs) =
     (case digit_val c of
        Some d \<Rightarrow> if d < b then scan_digits b (v * b + d) (n + 1) cs else (v, n, c # cs)
      | None \<Rightarrow> (v, n, c # cs))"

fun scan_sign :: "string \<Rightarrow> bool \<times> string" where
  "scan_sign (c # cs) = (if c = CHR ''-'' then (True, cs) else if c = CHR ''+'' then (False, cs) else (False, c # cs))"
| "scan_sign [] = (False, [])"

definition signed :: "bool \<Rightarrow> nat \<Rightarrow> int" where
  "signed neg n = (if neg then - int n else int n)"

text \<open>\<open>strtoll(s, \<dots>, 10)\<close> without its bounds.\<close>

definition scan_int :: "string \<Rightarrow> int option" where
  "scan_int s =
     (let (neg, r) = scan_sign (dropWhile is_space s); (v, n, _) = scan_digits 10 0 0 r in
      if n = 0 then None else Some (signed neg v))"

definition stoll :: "string \<Rightarrow> int result" where
  "stoll s = (case scan_int s of
     None \<Rightarrow> Inl (Exception ''stoll'')
   | Some i \<Rightarrow> if - (2 ^ 63) \<le> i \<and> i < 2 ^ 63 then Inr i else Inl (Exception ''stoll''))"

definition stoi :: "string \<Rightarrow> int result" where
  "stoi s = (case scan_int s of
     None \<Rightarrow> Inl (Exception ''stoi'')
   | Some i \<Rightarrow> if - (2 ^ 31) \<le> i \<and> i < 2 ^ 31 then Inr i else Inl (Exception ''stoi''))"

text \<open>\<open>atoi\<close> is zero when there is no number, and undefined when the number does not fit; \<open>strtoull\<close> saturates, and wraps a negated value.\<close>

definition atoi :: "string \<Rightarrow> int result" where
  "atoi s = (case scan_int s of None \<Rightarrow> Inr 0 | Some i \<Rightarrow> int32 i)"

definition strtoull :: "string \<Rightarrow> nat" where
  "strtoull s = (case scan_int s of
     None \<Rightarrow> 0
   | Some i \<Rightarrow> if 2 ^ 64 \<le> \<bar>i\<bar> then 2 ^ 64 - 1 else nat (i mod 2 ^ 64))"

text \<open>Digits with an optional point: the value without the point, all digits, and the digits behind the point.\<close>

definition scan_point :: "nat \<Rightarrow> string \<Rightarrow> nat \<times> nat \<times> nat \<times> string" where
  "scan_point b s =
     (let (v, n, r) = scan_digits b 0 0 s in
      case r of
        c # cs \<Rightarrow> if c = CHR ''.'' then let (v', n', r') = scan_digits b v 0 cs in (v', n + n', n', r') else (v, n, 0, r)
      | [] \<Rightarrow> (v, n, 0, r))"

definition scan_exponent :: "char \<Rightarrow> char \<Rightarrow> string \<Rightarrow> int" where
  "scan_exponent lo up s =
     (case s of
        c # cs \<Rightarrow>
          if c = lo \<or> c = up
          then let (neg, r) = scan_sign cs; (v, n, _) = scan_digits 10 0 0 r in (if n = 0 then 0 else signed neg v)
          else 0
      | [] \<Rightarrow> 0)"

definition to_lower :: "char \<Rightarrow> char" where
  "to_lower c = (let n = of_char c :: nat in if 65 \<le> n \<and> n \<le> 90 then char_of (n + 32) else c)"

definition starts_with :: "string \<Rightarrow> string \<Rightarrow> bool" where
  "starts_with p s \<longleftrightarrow> map to_lower (take (length p) s) = p"

text \<open>\<open>strtod\<close> before the rounding: decimal and hexadecimal numbers, infinities and \<open>nan\<close>.\<close>

definition scan_real :: "string \<Rightarrow> double option" where
  "scan_real s =
     (let (neg, r) = scan_sign (dropWhile is_space s);
          sg = (if neg then - 1 else 1 :: real);
          (xv, xn, xf, xr) = scan_point 16 (drop 2 r);
          (v, n, f, r') = scan_point 10 r in
      if starts_with ''inf'' r then Some (if neg then NInf else PInf)
      else if starts_with ''nan'' r then Some NaN
      else if starts_with ''0x'' r \<and> xn \<noteq> 0
      then Some (Fin (sg * real xv * 2 powi (scan_exponent (CHR ''p'') (CHR ''P'') xr - 4 * int xf)))
      else if n = 0 then None
      else Some (Fin (sg * real v * 10 powi (scan_exponent (CHR ''e'') (CHR ''E'') r' - int f))))"

text \<open>\<open>ERANGE\<close>: the rounded value is infinite, or below the smallest normal number and not exact.\<close>

definition range_error :: "real \<Rightarrow> double \<Rightarrow> bool" where
  "range_error x d \<longleftrightarrow> (case d of Fin y \<Rightarrow> y \<noteq> x \<and> \<bar>y\<bar> < 2 powi (- 1022) | _ \<Rightarrow> True)"

definition stod :: "fpenv \<Rightarrow> string \<Rightarrow> double result" where
  "stod e s = (case scan_real s of
     None \<Rightarrow> Inl (Exception ''stod'')
   | Some d \<Rightarrow> (case d of
       Fin x \<Rightarrow> if range_error x (fp_rnd e x) then Inl (Exception ''stod'') else Inr (fp_rnd e x)
     | _ \<Rightarrow> Inr d))"

definition atof :: "fpenv \<Rightarrow> string \<Rightarrow> double" where
  "atof e s = (case scan_real s of None \<Rightarrow> Fin 0 | Some d \<Rightarrow> (case d of Fin x \<Rightarrow> fp_rnd e x | _ \<Rightarrow> d))"

section \<open>The command line\<close>

text \<open>\<open>argv[i]\<close> as a string: \<open>argv[argc]\<close> is the null pointer, and there is nothing behind it.\<close>

definition argument :: "string list \<Rightarrow> nat \<Rightarrow> string result" where
  "argument argv i = (if i < length argv then Inr (argv ! i) else if i = length argv then Inl NullDeref else Inl BadIndex)"

definition arg_int :: "string list \<Rightarrow> nat \<Rightarrow> int result" where
  "arg_int argv i = bindR (argument argv i) atoi"

definition arg_double :: "fpenv \<Rightarrow> string list \<Rightarrow> nat \<Rightarrow> double result" where
  "arg_double e argv i = bindR (argument argv i) (\<lambda>s. Inr (atof e s))"

lemma atoi_range: "atoi s = Inr i \<Longrightarrow> - (2 ^ 31) \<le> i \<and> i < 2 ^ 31"
  by (auto simp: atoi_def int32_def split: option.splits if_splits)

lemma arg_int_word:
  assumes "arg_int argv k = Inr i" and "0 \<le> i"
  shows "unat (of_int i :: 32 word) < 2 ^ 31" and "to_int32 (of_int i) = i"
proof -
  have i: "i < 2 ^ 31" using assms(1) atoi_range by (auto simp: arg_int_def bindR_eq_Inr)
  then show "unat (of_int i :: 32 word) < 2 ^ 31" using assms(2) by (simp add: unsigned_of_int take_bit_int_eq_self nat_less_iff)
  show "to_int32 (of_int i) = i" using i assms(2) by (simp add: to_int32_def signed_of_int signed_take_bit_int_eq_self)
qed

section \<open>Printing numbers\<close>

definition digit_char :: "nat \<Rightarrow> char" where
  "digit_char d = char_of (48 + d)"

fun dec :: "nat \<Rightarrow> string" where
  "dec n = (if n < 10 then [digit_char n] else dec (n div 10) @ [digit_char (n mod 10)])"

declare dec.simps [simp del]

text \<open>\<open>std::to_string\<close>, which is also what a stream prints.\<close>

definition to_string :: "int \<Rightarrow> string" where
  "to_string i = (if i < 0 then CHR ''-'' # dec (nat (- i)) else dec (nat i))"

lemma of_digit_char: "d < 10 \<Longrightarrow> (of_char (digit_char d) :: nat) = 48 + d"
  by (simp add: digit_char_def)

lemma digit_char_val [simp]: "d < 10 \<Longrightarrow> digit_val (digit_char d) = Some d"
  by (simp add: digit_val_def of_digit_char)

lemma dec_digits: "set (dec n) \<subseteq> digit_char ` {..<10}"
proof (induction n rule: dec.induct)
  case (1 n)
  then show ?case by (cases "n < 10") (simp_all add: dec.simps[of n])
qed

lemma dec_nonempty [simp]: "dec n \<noteq> []"
  by (simp add: dec.simps)

lemma digit_not:
  assumes "c \<in> set (dec n)"
  shows "48 \<le> (of_char c :: nat) \<and> (of_char c :: nat) \<le> 57"
  using assms dec_digits[of n] of_digit_char by fastforce

lemma scan_digits_append:
  "set ds \<subseteq> digit_char ` {..<10} \<Longrightarrow> scan_digits 10 v n (ds @ r) = scan_digits 10 (fst (scan_digits 10 v n ds)) (n + length ds) r"
proof (induction ds arbitrary: v n)
  case (Cons d ds)
  then obtain k where "k < 10" "d = digit_char k" by auto
  then show ?case using Cons by simp
qed simp

lemma scan_dec: "scan_digits 10 0 0 (dec m @ r) = scan_digits 10 m (length (dec m)) r"
proof (induction m arbitrary: r rule: dec.induct)
  case (1 m)
  show ?case
  proof (cases "m < 10")
    case True
    then show ?thesis by (simp add: dec.simps[of m])
  next
    case False
    then have "scan_digits 10 0 0 (dec m @ r) = scan_digits 10 0 0 (dec (m div 10) @ digit_char (m mod 10) # r)"
      by (simp add: dec.simps[of m])
    also have "\<dots> = scan_digits 10 (m div 10) (length (dec (m div 10))) (digit_char (m mod 10) # r)" using 1 False by simp
    also have "\<dots> = scan_digits 10 m (length (dec m)) r" using False by (simp add: dec.simps[of m])
    finally show ?thesis .
  qed
qed

text \<open>A printed number is read back, whatever follows, unless it is a digit.\<close>

definition no_digit :: "string \<Rightarrow> bool" where
  "no_digit r \<longleftrightarrow> (case r of [] \<Rightarrow> True | c # _ \<Rightarrow> (case digit_val c of None \<Rightarrow> True | Some d \<Rightarrow> 10 \<le> d))"

lemma scan_stop: "no_digit r \<Longrightarrow> scan_digits 10 v n r = (v, n, r)"
  by (cases r) (auto simp: no_digit_def split: option.splits)

lemma hd_dec: "\<exists>c cs. dec n = c # cs \<and> 48 \<le> (of_char c :: nat) \<and> (of_char c :: nat) \<le> 57"
  using digit_not[of "hd (dec n)" n] by (cases "dec n") auto

lemma scan_sign_dec: "scan_sign (dropWhile is_space (to_string i)) = (i < 0, dec (nat \<bar>i\<bar>))"
proof (cases "i < 0")
  case True
  have "\<not> is_space (CHR ''-'')" by (simp add: is_space_def)
  then show ?thesis using True by (simp add: to_string_def)
next
  case False
  obtain c cs where c: "dec (nat i) = c # cs" "48 \<le> (of_char c :: nat)" "(of_char c :: nat) \<le> 57" using hd_dec by blast
  then have "\<not> is_space c" "c \<noteq> CHR ''-''" "c \<noteq> CHR ''+''" by (auto simp: is_space_def)
  then show ?thesis using False c by (simp add: to_string_def)
qed

lemma scan_int_to_string: "scan_int (to_string i) = Some i"
  using scan_dec[of "nat \<bar>i\<bar>" "[]"] by (simp add: scan_int_def scan_sign_dec signed_def split: prod.splits)

lemma to_string_inject: "to_string i = to_string j \<Longrightarrow> i = j"
  by (metis option.inject scan_int_to_string)

lemma dec_inject: "dec m = dec n \<Longrightarrow> m = n"
  using scan_int_to_string[of "int m"] scan_int_to_string[of "int n"] by (simp add: to_string_def)

lemma stoll_to_string: "- (2 ^ 63) \<le> i \<Longrightarrow> i < 2 ^ 63 \<Longrightarrow> stoll (to_string i) = Inr i"
  by (simp add: stoll_def scan_int_to_string)

lemma dec_not_special: "\<not> starts_with ''inf'' (dec n)" "\<not> starts_with ''nan'' (dec n)" "\<not> starts_with ''0x'' (dec n)"
proof -
  have low: "to_lower c = c" if "c \<in> set (dec n)" for c using digit_not[OF that] by (simp add: to_lower_def)
  have t: "map to_lower (take k (dec n)) = take k (dec n)" for k by (rule map_idI) (use low in_set_takeD in fastforce)
  have no: "c \<notin> set (dec n)" if "57 < (of_char c :: nat)" for c using digit_not[of c n] that by linarith
  have "CHR ''i'' \<notin> set (dec n)" "CHR ''n'' \<notin> set (dec n)" "CHR ''x'' \<notin> set (dec n)" by (rule no, simp)+
  moreover have "set (take k (dec n)) \<subseteq> set (dec n)" for k by (rule set_take_subset)
  ultimately show "\<not> starts_with ''inf'' (dec n)" "\<not> starts_with ''nan'' (dec n)" "\<not> starts_with ''0x'' (dec n)"
    unfolding starts_with_def t by (metis in_mono list.set_intros(1,2))+
qed

lemma scan_real_to_string: "scan_real (to_string i) = Some (Fin (real_of_int i))"
proof -
  let ?n = "nat \<bar>i\<bar>"
  have "scan_point 10 (dec ?n) = (?n, length (dec ?n), 0, [])" using scan_dec[of ?n "[]"] by (simp add: scan_point_def)
  moreover have "(if i < 0 then - 1 else 1) * real ?n = real_of_int i" by simp
  ultimately show ?thesis
    by (simp add: scan_real_def scan_sign_dec dec_not_special scan_exponent_def del: of_nat_nat split: prod.splits)
qed

lemma stod_to_string: "rounds_well e \<Longrightarrow> \<bar>i\<bar> \<le> 2 ^ 53 \<Longrightarrow> stod e (to_string i) = Inr (Fin (real_of_int i))"
  by (simp add: stod_def scan_real_to_string rounds_well_def range_error_def)

end
