(* ===== verification/TapeReader.thy ===== *)
theory TapeReader
  imports BacktestEngine CText "HOL-Library.Signed_Division"
begin

text \<open>
  \<^verbatim>\<open>backtest/binance_tape_reader.h\<close> and \<^verbatim>\<open>binance_tape_reader.cpp\<close>: the reader of a tape, either the lines of a file or the synthetic
  random walk, and the loop of the backtest over the events it returns. The file system is the parameter \<open>files\<close>: the text of the file
  of a path, if it can be opened.
\<close>

unbundle bit_operations_syntax

section \<open>State\<close>

record TapeConfig =
  tc_path :: string
  tc_format :: string
  tc_tick_size :: double
  tc_qty_step :: double
  tc_max_events :: nat

definition TapeConfig_default :: TapeConfig where
  "TapeConfig_default = \<lparr> tc_path = [], tc_format = ''synth'', tc_tick_size = Fin 1, tc_qty_step = Fin 1, tc_max_events = 0 \<rparr>"

record TapeReader =
  rd_cfg :: TapeConfig
  rd_in :: string
  rd_eof :: bool
  rd_count :: nat
  rd_synth_seed :: "64 word"
  rd_synth_mid :: int
  rd_synth_ns :: int

definition TapeReader_new :: "(string \<Rightarrow> string option) \<Rightarrow> TapeConfig \<Rightarrow> TapeReader result" where
  "TapeReader_new files cfg =
     bindR (if tc_format cfg = ''binance''
            then (case files (tc_path cfg) of
                    None \<Rightarrow> Inl (Exception (''TapeReader: cannot open '' @ tc_path cfg))
                  | Some text \<Rightarrow> Inr text)
            else Inr []) (\<lambda>text.
     Inr \<lparr> rd_cfg = cfg, rd_in = text, rd_eof = False, rd_count = 0, rd_synth_seed = 0xC0FFEE, rd_synth_mid = 100000, rd_synth_ns = 0 \<rparr>)"

section \<open>Lines of a file\<close>

fun get_fields :: "nat \<Rightarrow> string \<Rightarrow> (string list \<times> string) option" where
  "get_fields 0 s = Some ([], s)"
| "get_fields (Suc n) s =
     (case getline (CHR '','') s of
        None \<Rightarrow> None
      | Some (f, rest) \<Rightarrow> (case get_fields n rest of None \<Rightarrow> None | Some (fs, rest') \<Rightarrow> Some (f # fs, rest')))"

definition to_ticks :: "fpenv \<Rightarrow> TapeConfig \<Rightarrow> string \<Rightarrow> Price result" where
  "to_ticks e cfg s =
     (if s = [] then Inr Price_INVALID else bindR (stod e s) (\<lambda>x. d_llround (fdiv e x (tc_tick_size cfg))))"

definition to_lots :: "fpenv \<Rightarrow> TapeConfig \<Rightarrow> string \<Rightarrow> Qty result" where
  "to_lots e cfg s =
     (if s = [] then Inr Qty_INVALID
      else bindR (stod e s) (\<lambda>x. d_to_u32 (fmax (Fin 1) (fround (fdiv e x (tc_qty_step cfg))))))"

text \<open>One line: \<open>None\<close> when the loop goes on to the next one.\<close>

definition binance_line :: "fpenv \<Rightarrow> TapeConfig \<Rightarrow> string \<Rightarrow> TapeEvent option result" where
  "binance_line e cfg line =
     (if line = [] \<or> hd line = CHR ''#'' \<or> hd line = CHR ''t'' then Inr None
      else
        (case get_fields 8 line of
           Some ([ts_str, kind, p_str, q_str, bp_str, bq_str, ap_str, aq_str], rest) \<Rightarrow>
             let ibm_str = (case getline (CHR '','') rest of None \<Rightarrow> [] | Some (f, _) \<Rightarrow> f) in
             bindR (stoll ts_str) (\<lambda>ts_ns.
             if kind = ''B''
             then bindR (to_ticks e cfg bp_str) (\<lambda>bp. bindR (to_lots e cfg bq_str) (\<lambda>bq.
                  bindR (to_ticks e cfg ap_str) (\<lambda>ap. bindR (to_lots e cfg aq_str) (\<lambda>aq.
                  Inr (Some (BookTop \<lparr> ev_ns = ts_ns, ev_bid_price = bp, ev_bid_qty = bq, ev_ask_price = ap, ev_ask_qty = aq \<rparr>))))))
             else if kind = ''T''
             then let buyer_maker = (ibm_str \<noteq> [] \<and> (hd ibm_str = CHR ''t'' \<or> hd ibm_str = CHR ''1'')) in
                  bindR (to_ticks e cfg p_str) (\<lambda>p. bindR (to_lots e cfg q_str) (\<lambda>q.
                  Inr (Some (Trade \<lparr> tr_ns = ts_ns, tr_price = p, tr_qty = q, tr_side = (if buyer_maker then SELL else BUY) \<rparr>))))
             else Inr None)
         | _ \<Rightarrow> Inr None))"

definition newline :: char where "newline = CHR 0x0A"

function binance_lines :: "fpenv \<Rightarrow> TapeConfig \<Rightarrow> string \<Rightarrow> (string \<times> TapeEvent option) result" where
  "binance_lines e cfg s =
     (case getline newline s of
        None \<Rightarrow> Inr (s, None)
      | Some (line, rest) \<Rightarrow>
          (case binance_line e cfg line of
             Inl err \<Rightarrow> Inl err
           | Inr (Some ev) \<Rightarrow> Inr (rest, Some ev)
           | Inr None \<Rightarrow> binance_lines e cfg rest))"
  by pat_completeness auto

termination by (relation "measure (\<lambda>(_, _, s). length s)") (auto dest: getline_shorter)

declare binance_lines.simps [simp del]

definition nextBinance :: "fpenv \<Rightarrow> TapeReader \<Rightarrow> (TapeReader \<times> TapeEvent option) result" where
  "nextBinance e r =
     bindR (binance_lines e (rd_cfg r) (rd_in r)) (\<lambda>(rest, ev).
     Inr (r\<lparr> rd_in := rest, rd_eof := (rd_eof r \<or> ev = None) \<rparr>, ev))"

section \<open>The synthetic tape\<close>

text \<open>\<open>rng\<close>: the value and the next seed.\<close>

definition rng :: "64 word \<Rightarrow> 64 word \<times> 64 word" where
  "rng seed =
     (let x1 = seed XOR drop_bit 12 seed;
          x2 = x1 XOR push_bit 25 x1;
          x3 = x2 XOR drop_bit 27 x2 in
      (x3 * 2685821657736338717, x3))"

definition uniform :: "fpenv \<Rightarrow> double \<Rightarrow> double \<Rightarrow> 64 word \<Rightarrow> double \<times> 64 word" where
  "uniform e lo hi seed =
     (let (v, seed') = rng seed in
      (fadd e lo (fmul e (fsub e hi lo) (fdiv e (fp_rnd e (real (unat (drop_bit 11 v)))) (fp_rnd e (2 ^ 53)))), seed'))"

definition kAnchor :: int where "kAnchor = 100000"
definition kBandHalf :: int where "kBandHalf = 100"

text \<open>A step of the walk: with the given probability up or down by the given number of ticks.\<close>

definition synth_walk :: "fpenv \<Rightarrow> real \<Rightarrow> int \<Rightarrow> int \<times> 64 word \<Rightarrow> int \<times> 64 word" where
  "synth_walk e p step = (\<lambda>(mid, seed).
     let (a, seed1) = uniform e (Fin 0) (Fin 1) seed in
     if flt a (fp_rnd e p)
     then let (b, seed2) = uniform e (Fin 0) (Fin 1) seed1 in (mid + (if flt b half then step else - step), seed2)
     else (mid, seed1))"

text \<open>The pull towards the anchor, whose division truncates, and the clamp.\<close>

definition synth_clamp :: "int \<Rightarrow> int" where
  "synth_clamp mid =
     (let mid1 = mid - (mid - kAnchor) sdiv 64;
          mid2 = (if mid1 < kAnchor - kBandHalf then kAnchor - kBandHalf else mid1) in
      if mid2 > kAnchor + kBandHalf then kAnchor + kBandHalf else mid2)"

definition synth_event :: "fpenv \<Rightarrow> int \<Rightarrow> int \<Rightarrow> 64 word \<Rightarrow> TapeEvent \<times> 64 word" where
  "synth_event e ns mid seed =
     (let (a, seed1) = uniform e (Fin 0) (Fin 1) seed in
      if flt a (fp_rnd e (55 / 100))
      then
        let (b, seed2) = uniform e (Fin 0) (Fin 1) seed1;
            side = (if flt b half then BUY else SELL);
            px = mid + (if side = BUY then 1 else - 1);
            (v, seed3) = rng seed2 in
        (Trade \<lparr> tr_ns = ns, tr_price = px, tr_qty = ucast (1 + v mod 4), tr_side = side \<rparr>, seed3)
      else
        let (v, seed2) = rng seed1; (w, seed3) = rng seed2 in
        (BookTop \<lparr> ev_ns = ns, ev_bid_price = mid - 1, ev_bid_qty = ucast (1 + v mod 3),
           ev_ask_price = mid + 1, ev_ask_qty = ucast (1 + w mod 3) \<rparr>, seed3))"

definition nextSynth :: "fpenv \<Rightarrow> TapeReader \<Rightarrow> (TapeReader \<times> TapeEvent option) result" where
  "nextSynth e r =
     (if rd_count r \<ge> 200000 then Inr (r\<lparr> rd_eof := True \<rparr>, None)
      else
        let (v, seed1) = uniform e (Fin 0) (Fin 1) (rd_synth_seed r);
            u = fmax (fp_rnd e (1 / 10 ^ 9)) v in
        bindR (d_to_int64 (fmul e (fneg (fp_log e u)) (Fin 50000))) (\<lambda>dt_ns.
        bindR (int64 (rd_synth_ns r + dt_ns)) (\<lambda>ns.
        let (mid, seed3) = synth_walk e (2 / 1000) 5 (synth_walk e (55 / 100) 1 (rd_synth_mid r, seed1));
            mid' = synth_clamp mid;
            (ev, seed4) = synth_event e ns mid' seed3 in
        Inr (r\<lparr> rd_synth_ns := ns, rd_synth_mid := mid', rd_synth_seed := seed4 \<rparr>, Some ev))))"

section \<open>Next event\<close>

definition tape_next :: "fpenv \<Rightarrow> TapeReader \<Rightarrow> (TapeReader \<times> TapeEvent option) result" where
  "tape_next e r =
     (if rd_eof r then Inr (r, None)
      else if tc_max_events (rd_cfg r) \<noteq> 0 \<and> rd_count r \<ge> tc_max_events (rd_cfg r) then Inr (r\<lparr> rd_eof := True \<rparr>, None)
      else
        bindR (if tc_format (rd_cfg r) = ''binance'' then nextBinance e r else nextSynth e r) (\<lambda>(r', ev).
        Inr (if ev \<noteq> None then r'\<lparr> rd_count := rd_count r' + 1 \<rparr> else r', ev)))"

text \<open>A reader has finitely many events: the lines of the file run out, or the count of synthetic events.\<close>

definition tape_left :: "TapeReader \<Rightarrow> nat" where
  "tape_left r = (if tc_format (rd_cfg r) = ''binance'' then length (rd_in r) else 200000 - rd_count r)"

lemma binance_lines_shorter: "binance_lines e cfg s = Inr (rest, Some ev) \<Longrightarrow> length rest < length s"
proof (induction e cfg s rule: binance_lines.induct)
  case (1 e cfg s)
  then obtain line rest1 where l: "getline newline s = Some (line, rest1)" by (auto simp: binance_lines.simps[of e cfg s] split: option.splits)
  from 1 l show ?case
    by (force simp: binance_lines.simps[of e cfg s] split: sum.splits option.splits dest: getline_shorter)
qed

lemma nextSynth_frame:
  assumes "nextSynth e r = Inr (r', Some ev)"
  shows "rd_count r < 200000 \<and> rd_cfg r' = rd_cfg r \<and> rd_count r' = rd_count r \<and> rd_eof r' = rd_eof r"
  using assms by (auto simp: nextSynth_def bindR_eq_Inr Let_def split_beta split: if_splits)

lemma nextBinance_frame:
  assumes "nextBinance e r = Inr (r', Some ev)"
  shows "length (rd_in r') < length (rd_in r) \<and> rd_cfg r' = rd_cfg r \<and> rd_count r' = rd_count r \<and> rd_eof r' = rd_eof r"
  using assms by (auto simp: nextBinance_def bindR_eq_Inr dest!: binance_lines_shorter)

lemma tape_next_left:
  assumes "tape_next e r = Inr (r', Some ev)"
  shows "tape_left r' < tape_left r"
proof -
  obtain r1 where "(if tc_format (rd_cfg r) = ''binance'' then nextBinance e r else nextSynth e r) = Inr (r1, Some ev)"
      "r' = r1\<lparr> rd_count := rd_count r1 + 1 \<rparr>"
    using assms by (auto simp: tape_next_def bindR_eq_Inr split: if_splits)
  then show ?thesis using nextSynth_frame[of e r r1 ev] nextBinance_frame[of e r r1 ev]
    by (cases "tc_format (rd_cfg r) = ''binance''") (auto simp: tape_left_def)
qed

text \<open>The loop of \<open>BacktestEngine::run\<close>, and the tape as the list of all events.\<close>

function bt_loop :: "fpenv \<Rightarrow> (nat \<Rightarrow> int) \<Rightarrow> TapeReader \<Rightarrow> BacktestEngine \<times> int \<Rightarrow> (BacktestEngine \<times> int) result" where
  "bt_loop e clock r s =
     (case tape_next e r of
        Inl err \<Rightarrow> Inl err
      | Inr (r', None) \<Rightarrow> Inr s
      | Inr (r', Some ev) \<Rightarrow> (case bt_event e clock ev s of Inl err \<Rightarrow> Inl err | Inr s' \<Rightarrow> bt_loop e clock r' s'))"
  by pat_completeness auto

termination by (relation "measure (\<lambda>(_, _, r, _). tape_left r)") (auto dest: tape_next_left)

function tape_all :: "fpenv \<Rightarrow> TapeReader \<Rightarrow> TapeEvent list result" where
  "tape_all e r =
     (case tape_next e r of
        Inl err \<Rightarrow> Inl err
      | Inr (r', None) \<Rightarrow> Inr []
      | Inr (r', Some ev) \<Rightarrow> (case tape_all e r' of Inl err \<Rightarrow> Inl err | Inr evs \<Rightarrow> Inr (ev # evs)))"
  by pat_completeness auto

termination by (relation "measure (\<lambda>(_, r). tape_left r)") (auto dest: tape_next_left)

declare bt_loop.simps [simp del] tape_all.simps [simp del]

definition bt_run_tape :: "fpenv \<Rightarrow> (nat \<Rightarrow> int) \<Rightarrow> TapeReader \<Rightarrow> BacktestEngine \<Rightarrow> BacktestEngine result" where
  "bt_run_tape e clock r bt = bindR (bt_loop e clock r (bt, 0)) (bt_finish e)"

lemma bt_loop_tape: "tape_all e r = Inr evs \<Longrightarrow> bt_loop e clock r s = foldR (bt_event e clock) evs s"
proof (induction e clock r s arbitrary: evs rule: bt_loop.induct)
  case (1 e clock r s)
  show ?case
  proof (cases "tape_next e r")
    case (Inr p)
    obtain r' ev where p: "p = (r', ev)" by (cases p)
    show ?thesis
    proof (cases ev)
      case None
      then show ?thesis using 1(2) Inr p by (simp add: bt_loop.simps[of e clock r] tape_all.simps[of e r])
    next
      case (Some x)
      then obtain xs where xs: "tape_all e r' = Inr xs" "evs = x # xs"
        using 1(2) Inr p by (auto simp: tape_all.simps[of e r] split: sum.splits)
      show ?thesis
        using 1(1)[OF Inr p[symmetric] Some _ xs(1)] Inr p Some xs(2)
        by (simp add: bt_loop.simps[of e clock r] split: sum.splits)
    qed
  qed (use 1(2) in \<open>simp add: tape_all.simps[of e r]\<close>)
qed

text \<open>When the loop ends, the whole tape could be read.\<close>

lemma bt_loop_events: "bt_loop e clock r s = Inr s' \<Longrightarrow> \<exists>evs. tape_all e r = Inr evs \<and> foldR (bt_event e clock) evs s = Inr s'"
proof (induction e clock r s rule: bt_loop.induct)
  case (1 e clock r s)
  note eqs = bt_loop.simps[of e clock r s] tape_all.simps[of e r]
  obtain r' ev where n: "tape_next e r = Inr (r', ev)" using 1(2) by (auto simp: eqs split: sum.splits)
  show ?case
  proof (cases ev)
    case None
    then show ?thesis using 1(2) n by (simp add: eqs)
  next
    case (Some x)
    then obtain s1 where s1: "bt_event e clock x s = Inr s1" "bt_loop e clock r' s1 = Inr s'"
      using 1(2) n by (auto simp: eqs split: sum.splits)
    from 1(1)[OF n refl Some s1] n Some s1(1) show ?thesis by (auto simp: eqs)
  qed
qed

end
