(* ===== verification/TapeTheorems.thy ===== *)
theory TapeTheorems
  imports TapeReader
begin

text \<open>
  What the tape readers promise to the backtest: the synthetic tape is complete, ordered in time and stays in its band of prices; a
  file written in the documented format is read back event by event.
\<close>

section \<open>The synthetic tape\<close>

text \<open>What is needed of the arithmetic: the laws of the rounding, that one billionth is not rounded away, and a
  logarithm that is at most one off and not positive up to one.\<close>

definition synth_env :: "fpenv \<Rightarrow> bool" where
  "synth_env e \<longleftrightarrow> rounds_well e \<and> (\<exists>t. fp_rnd e (1 / 10 ^ 9) = Fin t \<and> 1 / 10 ^ 10 \<le> t)
     \<and> (\<forall>x. 0 < x \<and> x \<le> 1 \<longrightarrow> (\<exists>y. fp_log e (Fin x) = Fin y \<and> y \<le> 0 \<and> ln x - 1 \<le> y))"

lemma exact_synth_env: "synth_env exact_env"
proof -
  have "fp_rnd exact_env (1 / 10 ^ 9) = Fin (1 / 10 ^ 9) \<and> 1 / 10 ^ 10 \<le> (1 / 10 ^ 9 :: real)" by simp
  moreover have "fp_log exact_env (Fin x) = Fin (ln x)" for x by (simp add: exact_env_def)
  moreover have "ln x \<le> 0 \<and> ln x - 1 \<le> ln x" if "0 < x \<and> x \<le> 1" for x :: real using that by simp
  ultimately show ?thesis unfolding synth_env_def using exact_rounds_well by blast
qed

lemma unit_fraction:
  assumes "rounds_well e" and "k < (2 :: nat) ^ 53"
  shows "\<exists>x. fadd e (Fin 0) (fmul e (fsub e (Fin 1) (Fin 0)) (fdiv e (fp_rnd e (real k)) (fp_rnd e (2 ^ 53)))) = Fin x \<and> 0 \<le> x \<and> x \<le> 1"
proof -
  have one: "fsub e (Fin 1) (Fin 0) = Fin 1" using rnd_int[OF assms(1), of 1] by (simp add: fsub_def)
  have "fp_rnd e (real k) = Fin (real k)" "fp_rnd e (2 ^ 53) = Fin (2 ^ 53)"
    using rnd_nat[OF assms(1) less_imp_le[OF assms(2)]] rnd_int[OF assms(1), of "2 ^ 53"] by simp_all
  moreover obtain y where y: "fp_rnd e (real k / 2 ^ 53) = Fin y" "0 \<le> y" "y \<le> 1"
    using rnd_unit[OF assms(1), of "real k / 2 ^ 53"] assms(2) by (auto simp: divide_le_eq_1)
  moreover obtain z where z: "fp_rnd e y = Fin z" "0 \<le> z" "z \<le> 1" using rnd_unit[OF assms(1) y(2,3)] by blast
  moreover obtain x where x: "fp_rnd e z = Fin x" "0 \<le> x" "x \<le> 1" using rnd_unit[OF assms(1) z(2,3)] by blast
  ultimately show ?thesis using one by simp
qed

lemma uniform_unit:
  assumes "rounds_well e"
  shows "\<exists>x seed'. uniform e (Fin 0) (Fin 1) seed = (Fin x, seed') \<and> 0 \<le> x \<and> x \<le> 1"
proof -
  obtain v seed' where v: "rng seed = (v, seed')" by (cases "rng seed")
  have "unat v < 2 ^ 64" using unsigned_less[of v] by simp
  then have "unat v div 2 ^ 11 < 2 ^ 53" by (simp add: less_mult_imp_div_less)
  moreover have "unat (drop_bit 11 v) = unat v div 2 ^ 11" by (subst unat_drop_bit_eq) (rule drop_bit_eq_div)
  ultimately show ?thesis using unit_fraction[OF assms, of "unat (drop_bit 11 v)"] unfolding uniform_def v Let_def prod.case by auto
qed

lemma synth_dt:
  assumes "synth_env e" and "0 \<le> x" and "x \<le> 1"
  shows "\<exists>dt. d_to_int64 (fmul e (fneg (fp_log e (fmax (fp_rnd e (1 / 10 ^ 9)) (Fin x)))) (Fin 50000)) = Inr dt \<and> 0 \<le> dt \<and> dt \<le> 5000000"
proof -
  have r: "rounds_well e" using assms(1) by (simp add: synth_env_def)
  obtain t where t: "fp_rnd e (1 / 10 ^ 9) = Fin t" "1 / 10 ^ 10 \<le> t" using assms(1) by (auto simp: synth_env_def)
  have "t \<le> 1" using rnd_unit[OF r, of "1 / 10 ^ 9"] t(1) by auto
  then obtain w where w: "fmax (fp_rnd e (1 / 10 ^ 9)) (Fin x) = Fin w" "1 / 10 ^ 10 \<le> w" "w \<le> 1"
    using that[of x] that[of t] t(2) assms(3) unfolding t(1) by (cases "t < x") (simp_all add: fmax_def)
  have "0 < w" using w(2) by (smt (verit) divide_pos_pos zero_less_power)
  then obtain y where y: "fp_log e (Fin w) = Fin y" "y \<le> 0" "ln w - 1 \<le> y" using assms(1) w(3) unfolding synth_env_def by blast
  have "ln ((10 :: real) ^ 10) = 10 * ln 10" by (subst ln_realpow) simp_all
  then have "ln (1 / 10 ^ 10 :: real) = - (10 * ln 10)" by (subst ln_div) simp_all
  moreover have "ln (10 :: real) \<le> 9" using ln_le_minus_one[of "10 :: real"] by simp
  moreover have "ln (1 / 10 ^ 10) \<le> ln w" using w(2) \<open>0 < w\<close> by (subst ln_le_cancel_iff) simp_all
  ultimately have "- 91 \<le> y" using y(3) by linarith
  then obtain d where d: "fp_rnd e (- y * 50000) = Fin d" "0 \<le> d" "d \<le> 5000000"
    using rnd_between[OF r, of 0 "- y * 50000" 5000000] y(2) by auto
  have "0 \<le> \<lfloor>d\<rfloor>" "\<lfloor>d\<rfloor> \<le> 5000000" using d by linarith+
  then show ?thesis using d y(1) w(1) by (simp add: d_to_int64_def trunc_def int64_Inr)
qed

lemma synth_clamp_band: "\<bar>synth_clamp mid - kAnchor\<bar> \<le> 100"
proof -
  have "\<bar>(let m = (if x < kAnchor - 100 then kAnchor - 100 else x) in if m > kAnchor + 100 then kAnchor + 100 else m) - kAnchor\<bar> \<le> 100" for x
    by (auto simp: Let_def)
  from this[of "mid - (mid - kAnchor) sdiv 64"] show ?thesis by (simp only: synth_clamp_def kBandHalf_def Let_def)
qed

definition event_ns :: "TapeEvent \<Rightarrow> int" where
  "event_ns ev = (case ev of BookTop b \<Rightarrow> ev_ns b | Trade t \<Rightarrow> tr_ns t)"

text \<open>Events of the synthetic tape: a spread of two ticks around a price in the band, or a trade at one of the two sides of it, in small lots.\<close>

definition synth_ok :: "TapeEvent \<Rightarrow> bool" where
  "synth_ok ev = (case ev of
     BookTop b \<Rightarrow> ev_ask_price b = ev_bid_price b + 2 \<and> \<bar>ev_bid_price b + 1 - kAnchor\<bar> \<le> 100
       \<and> ev_bid_qty b \<in> {1, 2, 3} \<and> ev_ask_qty b \<in> {1, 2, 3}
   | Trade t \<Rightarrow> \<bar>tr_price t - kAnchor\<bar> \<le> 101 \<and> tr_qty t \<in> {1, 2, 3, 4} \<and> (tr_side t = BUY \<or> tr_side t = SELL))"

lemma lots_mod:
  fixes v :: "64 word"
  shows "(ucast (1 + v mod 3) :: Qty) \<in> {1, 2, 3}" "(ucast (1 + v mod 4) :: Qty) \<in> {1, 2, 3, 4}"
proof -
  have c: "(ucast (1 + w) :: Qty) \<in> {1, 2, 3}" if "w \<in> {0, 1, 2}" for w :: "64 word" using that by auto
  have d: "(ucast (1 + w) :: Qty) \<in> {1, 2, 3, 4}" if "w \<in> {0, 1, 2, 3}" for w :: "64 word" using that by auto
  have "v mod 3 < 3" "v mod 4 < 4" by (simp_all add: word_mod_less_divisor)
  then have m: "v mod 3 \<in> {0, 1, 2}" "v mod 4 \<in> {0, 1, 2, 3}"
    by (simp_all add: word_less_nat_alt word_unat_eq_iff) linarith+
  show "(ucast (1 + v mod 3) :: Qty) \<in> {1, 2, 3}" by (rule c[OF m(1)])
  show "(ucast (1 + v mod 4) :: Qty) \<in> {1, 2, 3, 4}" by (rule d[OF m(2)])
qed

lemma synth_event_ok:
  assumes "\<bar>mid - kAnchor\<bar> \<le> 100"
  shows "synth_ok (fst (synth_event e ns mid seed)) \<and> event_ns (fst (synth_event e ns mid seed)) = ns"
proof -
  have "\<bar>mid + 1 - kAnchor\<bar> \<le> 101" "\<bar>mid - 1 - kAnchor\<bar> \<le> 101" using assms by linarith+
  then show ?thesis using assms by (simp add: synth_event_def synth_ok_def event_ns_def Let_def split_beta lots_mod del: insert_iff)
qed

text \<open>The invariant of the reader.\<close>

definition synth_inv :: "TapeReader \<Rightarrow> bool" where
  "synth_inv r \<longleftrightarrow> tc_format (rd_cfg r) \<noteq> ''binance'' \<and> \<not> rd_eof r \<and> 0 \<le> rd_synth_ns r \<and> rd_synth_ns r \<le> 5000000 * int (rd_count r)"

lemma nextSynth_ok:
  assumes "synth_env e" and "synth_inv r" and "rd_count r < 200000"
  shows "\<exists>r' ev. nextSynth e r = Inr (r', Some ev) \<and> synth_ok ev \<and> event_ns ev = rd_synth_ns r' \<and> rd_synth_ns r \<le> rd_synth_ns r'
    \<and> rd_synth_ns r' \<le> rd_synth_ns r + 5000000"
proof -
  obtain x seed1 where u: "uniform e (Fin 0) (Fin 1) (rd_synth_seed r) = (Fin x, seed1)" "0 \<le> x" "x \<le> 1"
    using uniform_unit assms(1) unfolding synth_env_def by blast
  obtain dt where dt: "d_to_int64 (fmul e (fneg (fp_log e (fmax (fp_rnd e (1 / 10 ^ 9)) (Fin x)))) (Fin 50000)) = Inr dt"
      "0 \<le> dt" "dt \<le> 5000000"
    using synth_dt[OF assms(1) u(2,3)] by blast
  have "int64 (rd_synth_ns r + dt) = Inr (rd_synth_ns r + dt)" using assms(2,3) dt by (simp add: int64_Inr synth_inv_def)
  then show ?thesis
    using assms(3) u(1) dt synth_event_ok[OF synth_clamp_band]
    by (simp add: nextSynth_def Let_def split_beta)
qed

definition tape_limit :: "TapeReader \<Rightarrow> nat" where
  "tape_limit r = (if tc_max_events (rd_cfg r) = 0 then 200000 else min (tc_max_events (rd_cfg r)) 200000)"

lemma tape_next_end:
  assumes "synth_inv r" and "tape_limit r \<le> rd_count r"
  shows "\<exists>r'. tape_next e r = Inr (r', None)"
  using assms by (auto simp: tape_next_def tape_limit_def synth_inv_def nextSynth_def min_def split: if_splits)

lemma tape_next_synth:
  assumes "synth_env e" and I: "synth_inv r" and "rd_count r < tape_limit r"
  shows "\<exists>r' ev. tape_next e r = Inr (r', Some ev) \<and> synth_inv r' \<and> synth_ok ev \<and> rd_synth_ns r \<le> event_ns ev
    \<and> event_ns ev = rd_synth_ns r' \<and> rd_count r' = rd_count r + 1 \<and> tape_limit r' = tape_limit r"
proof -
  have c: "rd_count r < 200000" "tc_max_events (rd_cfg r) = 0 \<or> rd_count r < tc_max_events (rd_cfg r)"
    using assms(3) by (auto simp: tape_limit_def split: if_splits)
  obtain r1 ev where n: "nextSynth e r = Inr (r1, Some ev)" "synth_ok ev" "event_ns ev = rd_synth_ns r1" "rd_synth_ns r \<le> rd_synth_ns r1"
      "rd_synth_ns r1 \<le> rd_synth_ns r + 5000000"
    using nextSynth_ok[OF assms(1) I c(1)] by blast
  note f = nextSynth_frame[OF n(1)]
  have "tape_next e r = Inr (r1\<lparr> rd_count := rd_count r1 + 1 \<rparr>, Some ev)"
    using I c(2) n(1) by (auto simp: tape_next_def synth_inv_def)
  then show ?thesis using I n f by (intro exI[of _ "r1\<lparr> rd_count := rd_count r1 + 1 \<rparr>"] exI[of _ ev]) (simp add: synth_inv_def tape_limit_def)
qed

lemma synth_tape_all:
  assumes "synth_env e"
  shows "synth_inv r \<Longrightarrow> n = tape_limit r - rd_count r \<Longrightarrow>
    \<exists>evs. tape_all e r = Inr evs \<and> length evs = n \<and> sorted (map event_ns evs) \<and> list_all (\<lambda>ev. synth_ok ev \<and> rd_synth_ns r \<le> event_ns ev) evs"
proof (induction n arbitrary: r)
  case 0
  then obtain r' where "tape_next e r = Inr (r', None)" using tape_next_end[of r e] by auto
  then show ?case by (simp add: tape_all.simps[of e r])
next
  case (Suc n)
  then obtain r' ev where n: "tape_next e r = Inr (r', Some ev)" "synth_inv r'" "synth_ok ev" "rd_synth_ns r \<le> event_ns ev"
      "event_ns ev = rd_synth_ns r'" "rd_count r' = rd_count r + 1" "tape_limit r' = tape_limit r"
    using tape_next_synth[OF assms Suc.prems(1)] by force
  have "n = tape_limit r' - rd_count r'" using n(6,7) Suc.prems(2) by simp
  from Suc.IH[OF n(2) this] obtain evs where evs: "tape_all e r' = Inr evs" "length evs = n" "sorted (map event_ns evs)"
      "list_all (\<lambda>ev. synth_ok ev \<and> rd_synth_ns r' \<le> event_ns ev) evs"
    by blast
  then show ?case using n by (auto simp: tape_all.simps[of e r] list_all_iff)
qed

text \<open>C35: The synthetic tape. Whatever the rounding, reading it from the constructor ends without an error after 200000 events, or the smaller
  number that was asked for; the times never decrease, the spread is two ticks around a price within 100 ticks of the anchor, and trades are of
  one to four lots at most 101 ticks from it: no two prices of the tape share a slot of the price array.\<close>

theorem synthetic_tape_is_well_formed:
  assumes "synth_env e" and "tc_format cfg \<noteq> ''binance''" and "TapeReader_new files cfg = Inr r"
  shows "\<exists>evs. tape_all e r = Inr evs \<and> length evs = (if tc_max_events cfg = 0 then 200000 else min (tc_max_events cfg) 200000)
    \<and> sorted (map event_ns evs) \<and> list_all synth_ok evs"
proof -
  have "synth_inv r" "rd_count r = 0" "rd_cfg r = cfg" using assms(2,3) by (auto simp: TapeReader_new_def synth_inv_def)
  then show ?thesis using synth_tape_all[OF assms(1), of r "tape_limit r"] by (fastforce simp: tape_limit_def list_all_iff)
qed

lemma synthetic_tape_is_well_formed_witness:
  "\<exists>r evs. TapeReader_new (\<lambda>_. None) (TapeConfig_default\<lparr> tc_max_events := 1000 \<rparr>) = Inr r \<and> tape_all exact_env r = Inr evs \<and> length evs = 1000"
proof -
  let ?cfg = "TapeConfig_default\<lparr> tc_max_events := 1000 \<rparr>"
  obtain r where r: "TapeReader_new (\<lambda>_. None) ?cfg = Inr r" by (simp add: TapeReader_new_def TapeConfig_default_def)
  have "tc_format ?cfg \<noteq> ''binance''" by (simp add: TapeConfig_default_def)
  from synthetic_tape_is_well_formed[OF exact_synth_env this r] show ?thesis using r by auto
qed

section \<open>Files\<close>

text \<open>The documented format: nine columns, of which an update of the book and a trade leave some empty.\<close>

definition csv_header :: string where
  "csv_header = ''ts_ns,kind,price,qty,bid_price,bid_qty,ask_price,ask_qty,is_buyer_maker''"

definition csv_row :: "string list \<Rightarrow> string \<Rightarrow> string" where
  "csv_row fs ibm = concat (map (\<lambda>f. f @ '','') fs) @ ibm"

definition csv_line :: "TapeEvent \<Rightarrow> string" where
  "csv_line ev = (case ev of
     BookTop b \<Rightarrow> csv_row [to_string (ev_ns b), ''B'', [], [], to_string (ev_bid_price b), to_string (uint (ev_bid_qty b)),
                   to_string (ev_ask_price b), to_string (uint (ev_ask_qty b))] []
   | Trade t \<Rightarrow> csv_row [to_string (tr_ns t), ''T'', to_string (tr_price t), to_string (uint (tr_qty t)), [], [], [], []]
                   (if tr_side t = SELL then ''true'' else ''false''))"

definition csv_tape :: "TapeEvent list \<Rightarrow> string" where
  "csv_tape evs = csv_header @ newline # concat (map (\<lambda>ev. csv_line ev @ [newline]) evs)"

definition csv_ok :: "TapeEvent \<Rightarrow> bool" where
  "csv_ok ev = (case ev of
     BookTop b \<Rightarrow> price_ok (ev_ns b) \<and> \<bar>ev_bid_price b\<bar> \<le> 2 ^ 53 \<and> \<bar>ev_ask_price b\<bar> \<le> 2 ^ 53 \<and> 1 \<le> ev_bid_qty b \<and> 1 \<le> ev_ask_qty b
   | Trade t \<Rightarrow> price_ok (tr_ns t) \<and> \<bar>tr_price t\<bar> \<le> 2 ^ 53 \<and> 1 \<le> tr_qty t \<and> (tr_side t = BUY \<or> tr_side t = SELL))"

lemma to_string_chars:
  assumes "c \<in> set (to_string i)"
  shows "45 \<le> (of_char c :: nat) \<and> (of_char c :: nat) \<le> 57 \<and> (of_char c :: nat) \<noteq> 46 \<and> (of_char c :: nat) \<noteq> 47"
  using assms digit_not[of c "nat i"] digit_not[of c "nat (- i)"] by (auto simp: to_string_def split: if_splits)

lemma to_string_nonempty [simp]: "to_string i \<noteq> []"
  by (simp add: to_string_def)

lemma to_string_free: "CHR '','' \<notin> set (to_string i)" "newline \<notin> set (to_string i)"
  using to_string_chars[of "CHR '',''" i] to_string_chars[of newline i] by (auto simp: newline_def)

lemma get_fields_row:
  "\<forall>f \<in> set fs. CHR '','' \<notin> set f \<Longrightarrow> get_fields (length fs) (csv_row fs rest) = Some (fs, rest)"
proof (induction fs)
  case (Cons f fs)
  have "csv_row (f # fs) rest = f @ CHR '','' # csv_row fs rest" by (simp add: csv_row_def)
  then show ?case using Cons getline_field[of "CHR '',''" f "csv_row fs rest"] by simp
qed (simp add: csv_row_def)

lemma integral_double: "trunc (real_of_int j) = j" "fround (Fin (real_of_int j)) = Fin (real_of_int j)"
proof -
  have "\<lfloor>real_of_int k + 1 / 2\<rfloor> = k" for k by (simp add: floor_eq_iff)
  from this[of j] this[of "- j"] show "trunc (real_of_int j) = j" "fround (Fin (real_of_int j)) = Fin (real_of_int j)"
    by (simp_all add: fround_def trunc_def floor_minus)
qed

lemma to_ticks_int:
  assumes "rounds_well e" and "tc_tick_size cfg = Fin 1" and "\<bar>i\<bar> \<le> 2 ^ 53"
  shows "to_ticks e cfg (to_string i) = Inr i"
  using assms rnd_int[OF assms(1,3)] stod_to_string[OF assms(1,3)]
  by (simp add: to_ticks_def d_llround_def d_to_int64_def int64_Inr integral_double)

lemma to_lots_int:
  assumes "rounds_well e" and "tc_qty_step cfg = Fin 1" and "1 \<le> q"
  shows "to_lots e cfg (to_string (uint q)) = Inr q"
proof -
  have q: "uint q < 2 ^ 32" "1 \<le> uint q" using assms(3) unsigned_less[of q] by (simp_all add: word_le_def)
  then have b: "\<bar>uint q\<bar> \<le> 2 ^ 53" by simp
  have "fmax (Fin 1) (Fin (real_of_int (uint q))) = Fin (real_of_int (uint q))"
    using q(2) by (cases "uint q = 1") (simp_all add: fmax_def del: of_int_uint)
  then show ?thesis
    using q assms(2) rnd_int[OF assms(1) b] stod_to_string[OF assms(1) b] integral_double[of "uint q"]
    by (simp add: to_lots_def d_to_u32_def)
qed

lemma binance_line_csv:
  assumes e: "rounds_well e" and cfg: "tc_tick_size cfg = Fin 1" "tc_qty_step cfg = Fin 1" and ev: "csv_ok ev"
  shows "binance_line e cfg (csv_line ev) = Inr (Some ev)"
proof -
  have start: "\<not> (csv_row (to_string i # fs) rest = [] \<or> hd (csv_row (to_string i # fs) rest) = CHR ''#'' \<or> hd (csv_row (to_string i # fs) rest) = CHR ''t'')"
    for i fs rest
    using to_string_chars[of "hd (to_string i)" i] by (auto simp: csv_row_def)
  note t = to_ticks_int[OF e cfg(1)] and l = to_lots_int[OF e cfg(2)]
  show ?thesis
  proof (cases ev)
    case (BookTop b)
    let ?fs = "[to_string (ev_ns b), ''B'', [], [], to_string (ev_bid_price b), to_string (uint (ev_bid_qty b)),
                   to_string (ev_ask_price b), to_string (uint (ev_ask_qty b))]"
    have "get_fields 8 (csv_row ?fs []) = Some (?fs, [])" using get_fields_row[of ?fs "[]"] to_string_free by (simp add: numeral_eq_Suc)
    moreover have "stoll (to_string (ev_ns b)) = Inr (ev_ns b)" using ev BookTop stoll_to_string by (simp add: csv_ok_def price_ok_def)
    ultimately show ?thesis using ev BookTop start[of "ev_ns b" "tl ?fs" "[]"]
      by (simp add: binance_line_def csv_line_def csv_ok_def t l getline_def del: get_fields.simps)
  next
    case (Trade b)
    let ?fs = "[to_string (tr_ns b), ''T'', to_string (tr_price b), to_string (uint (tr_qty b)), [], [], [], []]"
    let ?ibm = "if tr_side b = SELL then ''true'' else ''false''"
    have "get_fields 8 (csv_row ?fs ?ibm) = Some (?fs, ?ibm)" using get_fields_row[of ?fs ?ibm] to_string_free by (simp add: numeral_eq_Suc)
    moreover have "stoll (to_string (tr_ns b)) = Inr (tr_ns b)" using ev Trade stoll_to_string by (simp add: csv_ok_def price_ok_def)
    ultimately show ?thesis using ev Trade start[of "tr_ns b" "tl ?fs" ?ibm]
      by (auto simp: binance_line_def csv_line_def csv_ok_def t l getline_def simp del: get_fields.simps)
  qed
qed

lemma csv_line_free: "newline \<notin> set (csv_line ev)"
  using to_string_free(2) by (auto simp: csv_line_def csv_row_def newline_def split: TapeEvent.splits)

lemma tape_all_csv:
  assumes e: "rounds_well e" and cfg: "tc_format cfg = ''binance''" "tc_tick_size cfg = Fin 1" "tc_qty_step cfg = Fin 1" "tc_max_events cfg = 0"
  shows "list_all csv_ok evs \<Longrightarrow> rd_cfg r = cfg \<Longrightarrow> \<not> rd_eof r \<Longrightarrow> rd_in r = concat (map (\<lambda>ev. csv_line ev @ [newline]) evs) \<Longrightarrow>
    tape_all e r = Inr evs"
proof (induction evs arbitrary: r)
  case Nil
  then show ?case
    using cfg by (simp add: tape_all.simps[of e r] tape_next_def nextBinance_def binance_lines.simps[of e cfg] getline_def)
next
  case (Cons ev evs)
  let ?rest = "concat (map (\<lambda>ev. csv_line ev @ [newline]) evs)"
  have "getline newline (rd_in r) = Some (csv_line ev, ?rest)" using Cons.prems(4) getline_field[OF csv_line_free, of ev ?rest] by simp
  then have "binance_lines e cfg (rd_in r) = Inr (?rest, Some ev)"
    using Cons.prems(1) binance_line_csv[OF e cfg(2,3)] by (simp add: binance_lines.simps[of e cfg])
  then have "tape_next e r = Inr (r\<lparr> rd_in := ?rest, rd_count := rd_count r + 1 \<rparr>, Some ev)"
    using Cons.prems cfg by (simp add: tape_next_def nextBinance_def)
  moreover have "tape_all e (r\<lparr> rd_in := ?rest, rd_count := rd_count r + 1 \<rparr>) = Inr evs"
    using Cons by simp
  ultimately show ?case by (simp add: tape_all.simps[of e r])
qed

text \<open>C34: Round trip of a tape file. Any list of events whose prices are exact integers in a double, with positive quantities, written with the documented header and
  columns and one event to a line, is read back by the reader as exactly that list, with a tick and a lot of one.\<close>

theorem binance_tape_roundtrip:
  assumes e: "rounds_well e" and cfg: "tc_format cfg = ''binance''" "tc_tick_size cfg = Fin 1" "tc_qty_step cfg = Fin 1" "tc_max_events cfg = 0"
    and evs: "list_all csv_ok evs" and files: "files (tc_path cfg) = Some (csv_tape evs)"
    and r: "TapeReader_new files cfg = Inr r"
  shows "tape_all e r = Inr evs"
proof -
  let ?rest = "concat (map (\<lambda>ev. csv_line ev @ [newline]) evs)"
  have in0: "rd_in r = csv_tape evs" "rd_cfg r = cfg" "\<not> rd_eof r" using r cfg(1) files by (auto simp: TapeReader_new_def)
  have "getline newline (csv_tape evs) = Some (csv_header, ?rest)"
    unfolding csv_tape_def by (rule getline_field) (simp add: csv_header_def newline_def)
  moreover have "binance_line e cfg csv_header = Inr None" by (simp add: binance_line_def csv_header_def)
  ultimately have "binance_lines e cfg (csv_tape evs) = binance_lines e cfg ?rest" by (simp add: binance_lines.simps[of e cfg "csv_tape evs"])
  then have "tape_next e r = tape_next e (r\<lparr> rd_in := ?rest \<rparr>)" using in0 cfg by (simp add: tape_next_def nextBinance_def)
  then have "tape_all e r = tape_all e (r\<lparr> rd_in := ?rest \<rparr>)" by (simp add: tape_all.simps[of e r] tape_all.simps[of e "r\<lparr> rd_in := ?rest \<rparr>"])
  then show ?thesis using tape_all_csv[OF e cfg evs, of "r\<lparr> rd_in := ?rest \<rparr>"] in0 by simp
qed

definition sample_tape :: "TapeEvent list" where
  "sample_tape = [BookTop \<lparr> ev_ns = 1000, ev_bid_price = 99, ev_bid_qty = 20, ev_ask_price = 101, ev_ask_qty = 30 \<rparr>,
     Trade \<lparr> tr_ns = 2000, tr_price = 99, tr_qty = 25, tr_side = SELL \<rparr>]"

definition sample_tape_cfg :: TapeConfig where
  "sample_tape_cfg = TapeConfig_default\<lparr> tc_path := ''tape.csv'', tc_format := ''binance'' \<rparr>"

lemma binance_tape_roundtrip_witness:
  "\<exists>r. TapeReader_new ((\<lambda>_. None)(''tape.csv'' := Some (csv_tape sample_tape))) sample_tape_cfg = Inr r \<and> tape_all exact_env r = Inr sample_tape"
proof -
  let ?files = "(\<lambda>_. None)(''tape.csv'' := Some (csv_tape sample_tape))"
  obtain r where r: "TapeReader_new ?files sample_tape_cfg = Inr r"
    by (simp add: TapeReader_new_def sample_tape_cfg_def TapeConfig_default_def)
  have cfg: "tc_format sample_tape_cfg = ''binance''" "tc_tick_size sample_tape_cfg = Fin 1" "tc_qty_step sample_tape_cfg = Fin 1"
      "tc_max_events sample_tape_cfg = 0" "?files (tc_path sample_tape_cfg) = Some (csv_tape sample_tape)"
    by (simp_all add: sample_tape_cfg_def TapeConfig_default_def)
  have "list_all csv_ok sample_tape" by (simp add: sample_tape_def csv_ok_def price_ok_def)
  from binance_tape_roundtrip[OF exact_rounds_well cfg(1-4) this cfg(5) r] show ?thesis using r by blast
qed

text \<open>The loop of \<open>BacktestEngine::run\<close> ends, whatever the reader, and when the tape can be read it is the run over the list of its events.\<close>

theorem backtest_runs_the_tape:
  assumes "tape_all e r = Inr evs"
  shows "bt_run_tape e clock r bt = bt_run e clock evs bt"
  using bt_loop_tape[OF assms] by (simp add: bt_run_tape_def bt_run_def)

end
