(* ===== verification/LobsterReader.thy ===== *)
theory LobsterReader
  imports BacktestEngine CText "HOL-Library.AList"
begin

text \<open>
  \<^verbatim>\<open>backtest/lobster_tape_reader.h\<close> and \<^verbatim>\<open>lobster_tape_reader.cpp\<close>: consecutive snapshots of the levels of a book are turned into updates. An
  \<open>std::unordered_map\<close> from prices to quantities is an association list in the order of insertion; the order in which a loop
  visits its entries is left open by the language, and is the parameter \<open>arrange\<close> of the definitions: any function that permutes the entries.
\<close>

section \<open>State\<close>

type_synonym levels = "(Price \<times> Qty) list"

record LobsterConfig =
  lc_message_path :: string
  lc_ticker_id :: TickerId
  lc_levels :: int
  lc_max_events :: nat

record LobsterReader =
  lr_cfg :: LobsterConfig
  lr_msg_in :: string
  lr_ob_in :: string
  lr_eof :: bool
  lr_count :: nat
  lr_next_priority :: Priority
  lr_prev_bid :: levels
  lr_prev_ask :: levels
  lr_pending :: "(int \<times> MEMarketUpdate) list"

definition kAskOidOffset :: OrderId where "kAskOidOffset = 600000"
definition kSentinel :: int where "kSentinel = 9999999990"

text \<open>\<open>std::string::find\<close> and \<open>replace\<close> of the first occurrence.\<close>

fun replace_first :: "string \<Rightarrow> string \<Rightarrow> string \<Rightarrow> string" where
  "replace_first p q [] = []"
| "replace_first p q (c # cs) = (if take (length p) (c # cs) = p then q @ drop (length p) (c # cs) else c # replace_first p q cs)"

definition deriveOrderbookPath :: "string \<Rightarrow> string" where
  "deriveOrderbookPath msg = replace_first ''message'' ''orderbook'' msg"

definition open_file :: "(string \<Rightarrow> string option) \<Rightarrow> string \<Rightarrow> string result" where
  "open_file files path = (case files path of None \<Rightarrow> Inl (Exception (''LobsterReader: cannot open '' @ path)) | Some text \<Rightarrow> Inr text)"

definition LobsterReader_new :: "(string \<Rightarrow> string option) \<Rightarrow> LobsterConfig \<Rightarrow> LobsterReader result" where
  "LobsterReader_new files cfg =
     bindR (open_file files (lc_message_path cfg)) (\<lambda>msg.
     bindR (open_file files (deriveOrderbookPath (lc_message_path cfg))) (\<lambda>ob.
     Inr \<lparr> lr_cfg = cfg, lr_msg_in = msg, lr_ob_in = ob, lr_eof = False, lr_count = 0, lr_next_priority = 1,
       lr_prev_bid = [], lr_prev_ask = [], lr_pending = [] \<rparr>))"

section \<open>A message and a snapshot\<close>

text \<open>A field of the message; \<open>getline\<close> past the end leaves the empty string.\<close>

definition next_field :: "string \<Rightarrow> string \<times> string" where
  "next_field s = (case getline (CHR '','') s of None \<Rightarrow> ([], []) | Some p \<Rightarrow> p)"

record lobster_msg =
  lm_ts :: int
  lm_type :: int
  lm_size :: Qty
  lm_price :: Price
  lm_dir :: int

definition parse_message :: "fpenv \<Rightarrow> string \<Rightarrow> lobster_msg result" where
  "parse_message e mline =
     (let (ts_s, r1) = next_field mline; (ty_s, r2) = next_field r1; (oid_s, r3) = next_field r2;
          (sz_s, r4) = next_field r3; (px_s, r5) = next_field r4; (dir_s, _) = next_field r5 in
      bindR (stod e ts_s) (\<lambda>t. bindR (d_llround (fmul e t (Fin 1000000000))) (\<lambda>ts.
      bindR (stoi ty_s) (\<lambda>ty.
      bindR (stoll sz_s) (\<lambda>sz.
      bindR (stod e px_s) (\<lambda>p. bindR (d_llround (fdiv e p (Fin 100))) (\<lambda>px.
      bindR (stoi dir_s) (\<lambda>dir.
      Inr \<lparr> lm_ts = ts, lm_type = ty, lm_size = of_int sz, lm_price = px, lm_dir = dir \<rparr>))))))))"

text \<open>The numbers of a snapshot line, at most \<open>n\<close> of them.\<close>

fun parse_numbers :: "nat \<Rightarrow> string \<Rightarrow> int list result" where
  "parse_numbers 0 s = Inr []"
| "parse_numbers (Suc n) s =
     (case getline (CHR '','') s of
        None \<Rightarrow> Inr []
      | Some (tok, rest) \<Rightarrow>
          bindR (if tok = [] then Inr kSentinel else stoll tok) (\<lambda>v.
          bindR (parse_numbers n rest) (\<lambda>vs. Inr (v # vs))))"

text \<open>\<open>reserve\<close> of a negative number of levels throws: it is a huge \<open>size_t\<close>.\<close>

definition snapshot_numbers :: "LobsterConfig \<Rightarrow> string \<Rightarrow> int list result" where
  "snapshot_numbers cfg oline =
     (if lc_levels cfg < 0 then Inl (Exception ''vector::reserve'') else parse_numbers (nat (4 * lc_levels cfg)) oline)"

text \<open>One side of a level: an occupied one is stored under its price in cents.\<close>

definition put_level :: "fpenv \<Rightarrow> int \<Rightarrow> int \<Rightarrow> levels \<Rightarrow> levels result" where
  "put_level e p s ls =
     (if p = - (2 ^ 63) then Inl ArithmeticUB
      else if \<bar>p\<bar> < kSentinel \<and> s > 0
      then bindR (d_llround (fdiv e (d_of_int e p) (Fin 100))) (\<lambda>px. Inr (AList.update px (of_int s) ls))
      else Inr ls)"

fun snapshot_levels :: "fpenv \<Rightarrow> int list \<Rightarrow> levels \<times> levels \<Rightarrow> (levels \<times> levels) result" where
  "snapshot_levels e (askP # askS # bidP # bidS # vs) (bid, ask) =
     bindR (put_level e askP askS ask) (\<lambda>ask'.
     bindR (put_level e bidP bidS bid) (\<lambda>bid'.
     snapshot_levels e vs (bid', ask')))"
| "snapshot_levels e _ bidask = Inr bidask"

section \<open>Differences\<close>

definition makeUpd :: "LobsterConfig \<Rightarrow> MarketUpdateType \<Rightarrow> OrderId \<Rightarrow> Side \<Rightarrow> Price \<Rightarrow> Qty \<Rightarrow> Priority \<Rightarrow> MEMarketUpdate" where
  "makeUpd cfg t oid side px q pr =
     \<lparr> mu_type = t, mu_order_id = oid, mu_ticker_id = lc_ticker_id cfg, mu_side = side, mu_price = px, mu_qty = q, mu_priority = pr \<rparr>"

text \<open>\<open>diffSide\<close>: the levels that are gone, then those that are new or changed; each new one takes the next priority.\<close>

definition diff_gone :: "LobsterConfig \<Rightarrow> Side \<Rightarrow> OrderId \<Rightarrow> levels \<Rightarrow> levels \<Rightarrow> MEMarketUpdate list" where
  "diff_gone cfg side base prev cur =
     map (\<lambda>(px, q). makeUpd cfg Upd_CANCEL (base + of_int px) side px 0 Priority_INVALID) (filter (\<lambda>(px, q). map_of cur px = None) prev)"

fun diff_present :: "LobsterConfig \<Rightarrow> Side \<Rightarrow> OrderId \<Rightarrow> levels \<Rightarrow> levels \<Rightarrow> Priority \<Rightarrow> MEMarketUpdate list \<times> Priority" where
  "diff_present cfg side base prev [] pr = ([], pr)"
| "diff_present cfg side base prev ((px, q) # cur) pr =
     (case map_of prev px of
        None \<Rightarrow>
          let (us, pr') = diff_present cfg side base prev cur (pr + 1) in
          (makeUpd cfg ADD (base + of_int px) side px q pr # us, pr')
      | Some q' \<Rightarrow>
          let (us, pr') = diff_present cfg side base prev cur pr in
          (if q' \<noteq> q then makeUpd cfg MODIFY (base + of_int px) side px q Priority_INVALID # us else us, pr'))"

definition diffSide :: "(levels \<Rightarrow> levels) \<Rightarrow> LobsterConfig \<Rightarrow> Side \<Rightarrow> OrderId \<Rightarrow> levels \<Rightarrow> levels \<Rightarrow> Priority \<Rightarrow> MEMarketUpdate list \<times> Priority" where
  "diffSide arrange cfg side base prev cur pr =
     (let (us, pr') = diff_present cfg side base prev (arrange cur) pr in (diff_gone cfg side base (arrange prev) cur @ us, pr'))"

definition trade_print :: "LobsterConfig \<Rightarrow> lobster_msg \<Rightarrow> MEMarketUpdate list" where
  "trade_print cfg m =
     (if lm_type m = 4 \<or> lm_type m = 5
      then [makeUpd cfg TRADE OrderId_INVALID (if lm_dir m = 1 then SELL else BUY) (lm_price m) (lm_size m) Priority_INVALID]
      else [])"

definition lobster_newline :: char where "lobster_newline = CHR 0x0A"

text \<open>\<open>fillStep\<close>: the rest of the reader and whether it goes on.\<close>

definition fillStep :: "(levels \<Rightarrow> levels) \<Rightarrow> fpenv \<Rightarrow> LobsterReader \<Rightarrow> (LobsterReader \<times> bool) result" where
  "fillStep arrange e r =
     (if lr_eof r then Inr (r, False)
      else if lc_max_events (lr_cfg r) \<noteq> 0 \<and> lr_count r \<ge> lc_max_events (lr_cfg r) then Inr (r\<lparr> lr_eof := True \<rparr>, False)
      else
        (case getline lobster_newline (lr_msg_in r) of
           None \<Rightarrow> Inr (r\<lparr> lr_eof := True \<rparr>, False)
         | Some (mline, msg) \<Rightarrow>
             (case getline lobster_newline (lr_ob_in r) of
                None \<Rightarrow> Inr (r\<lparr> lr_msg_in := msg, lr_eof := True \<rparr>, False)
              | Some (oline, ob) \<Rightarrow>
                  let r1 = r\<lparr> lr_msg_in := msg, lr_ob_in := ob \<rparr>; cfg = lr_cfg r in
                  if mline = [] \<or> oline = [] then Inr (r1, True)
                  else
                    bindR (parse_message e mline) (\<lambda>m.
                    bindR (snapshot_numbers cfg oline) (\<lambda>vs.
                    bindR (snapshot_levels e vs ([], [])) (\<lambda>(cur_bid, cur_ask).
                    let (bids, pr1) = diffSide arrange cfg BUY 0 (lr_prev_bid r) cur_bid (lr_next_priority r);
                        (asks, pr2) = diffSide arrange cfg SELL kAskOidOffset (lr_prev_ask r) cur_ask pr1 in
                    Inr (r1\<lparr> lr_count := lr_count r + 1, lr_next_priority := pr2, lr_prev_bid := cur_bid, lr_prev_ask := cur_ask,
                           lr_pending := lr_pending r @ map (Pair (lm_ts m)) (trade_print cfg m @ bids @ asks) \<rparr>, True)))))))"

lemma fillStep_shorter: "fillStep arrange e r = Inr (r', True) \<Longrightarrow> length (lr_msg_in r') < length (lr_msg_in r)"
  by (auto simp: fillStep_def bindR_eq_Inr Let_def split_beta split: if_splits option.splits dest: getline_shorter)

text \<open>\<open>next\<close>.\<close>

function lobster_next :: "(levels \<Rightarrow> levels) \<Rightarrow> fpenv \<Rightarrow> LobsterReader \<Rightarrow> (LobsterReader \<times> (int \<times> MEMarketUpdate) option) result" where
  "lobster_next arrange e r =
     (case lr_pending r of
        p # ps \<Rightarrow> Inr (r\<lparr> lr_pending := ps \<rparr>, Some p)
      | [] \<Rightarrow>
          (case fillStep arrange e r of
             Inl err \<Rightarrow> Inl err
           | Inr (r', go) \<Rightarrow> if go then lobster_next arrange e r' else Inr (r', None)))"
  by pat_completeness auto

termination by (relation "measure (\<lambda>(_, _, r). length (lr_msg_in r))") (auto dest: fillStep_shorter)

declare lobster_next.simps [simp del]

lemma lobster_next_left:
  "lobster_next arrange e r = Inr (r', Some p) \<Longrightarrow> (r', r) \<in> measures [\<lambda>r. length (lr_msg_in r), \<lambda>r. length (lr_pending r)]"
proof (induction arrange e r rule: lobster_next.induct)
  case (1 arrange e r)
  show ?case
  proof (cases "lr_pending r")
    case Nil
    then obtain r1 where f: "fillStep arrange e r = Inr (r1, True)" "lobster_next arrange e r1 = Inr (r', Some p)"
      using 1(2) by (auto simp: lobster_next.simps[of arrange e r] split: sum.splits if_splits)
    then have "length (lr_msg_in r') \<le> length (lr_msg_in r1)" using 1(1)[OF Nil f(1) refl] by auto
    then show ?thesis using fillStep_shorter[OF f(1)] by simp
  qed (use 1(2) in \<open>auto simp: lobster_next.simps[of arrange e r]\<close>)
qed

section \<open>The replay\<close>

text \<open>The loop of \<open>BacktestEngine::runLobster\<close>, and the updates of the whole tape with the reader that is left.\<close>

function lobster_loop :: "(levels \<Rightarrow> levels) \<Rightarrow> fpenv \<Rightarrow> (nat \<Rightarrow> int) \<Rightarrow> LobsterReader \<Rightarrow> BacktestEngine \<times> int \<Rightarrow> (BacktestEngine \<times> int) result" where
  "lobster_loop arrange e clock r s =
     (case lobster_next arrange e r of
        Inl err \<Rightarrow> Inl err
      | Inr (r', None) \<Rightarrow> Inr s
      | Inr (r', Some ev) \<Rightarrow> (case lobster_event e clock ev s of Inl err \<Rightarrow> Inl err | Inr s' \<Rightarrow> lobster_loop arrange e clock r' s'))"
  by pat_completeness auto

termination
  by (relation "inv_image (measures [\<lambda>r. length (lr_msg_in r), \<lambda>r. length (lr_pending r)]) (\<lambda>(_, _, _, r, _). r)")
    (auto dest!: lobster_next_left simp del: in_measures)

function lobster_all :: "(levels \<Rightarrow> levels) \<Rightarrow> fpenv \<Rightarrow> LobsterReader \<Rightarrow> (LobsterReader \<times> (int \<times> MEMarketUpdate) list) result" where
  "lobster_all arrange e r =
     (case lobster_next arrange e r of
        Inl err \<Rightarrow> Inl err
      | Inr (r', None) \<Rightarrow> Inr (r', [])
      | Inr (r', Some ev) \<Rightarrow> (case lobster_all arrange e r' of Inl err \<Rightarrow> Inl err | Inr (r'', evs) \<Rightarrow> Inr (r'', ev # evs)))"
  by pat_completeness auto

termination
  by (relation "inv_image (measures [\<lambda>r. length (lr_msg_in r), \<lambda>r. length (lr_pending r)]) (\<lambda>(_, _, r). r)")
    (auto dest!: lobster_next_left simp del: in_measures)

declare lobster_loop.simps [simp del] lobster_all.simps [simp del]

definition bt_run_lobster_tape :: "(levels \<Rightarrow> levels) \<Rightarrow> fpenv \<Rightarrow> (nat \<Rightarrow> int) \<Rightarrow> LobsterReader \<Rightarrow> BacktestEngine \<Rightarrow> BacktestEngine result" where
  "bt_run_lobster_tape arrange e clock r bt = bindR (lobster_loop arrange e clock r (bt, 0)) (bt_finish e)"

text \<open>The events the loop handles are a prefix of the tape, and all of it when the loop ends.\<close>

lemma lobster_loop_events:
  "lobster_loop arrange e clock r s = Inr s' \<Longrightarrow>
   \<exists>r' evs. lobster_all arrange e r = Inr (r', evs) \<and> foldR (lobster_event e clock) evs s = Inr s'"
proof (induction arrange e clock r s rule: lobster_loop.induct)
  case (1 arrange e clock r s)
  note eqs = lobster_loop.simps[of arrange e clock r s] lobster_all.simps[of arrange e r]
  obtain r' ev where n: "lobster_next arrange e r = Inr (r', ev)" using 1(2) by (auto simp: eqs split: sum.splits)
  show ?case
  proof (cases ev)
    case None
    then show ?thesis using 1(2) n by (simp add: eqs)
  next
    case (Some x)
    then obtain s1 where s1: "lobster_event e clock x s = Inr s1" "lobster_loop arrange e clock r' s1 = Inr s'"
      using 1(2) n by (auto simp: eqs split: sum.splits)
    from 1(1)[OF n refl Some s1] n Some s1(1) show ?thesis by (auto simp: eqs)
  qed
qed

end
