(* ===== verification/LobsterTheorems.thy ===== *)
theory LobsterTheorems
  imports LobsterReader BookMirror "HOL-Library.Multiset"
begin

text \<open>
  What the snapshot reader promises: fed to the client's book, the pointer structure of the theory \<open>MarketOrderBook\<close>, the updates it emits lead from each snapshot
  to the next, whatever the order in which the hash maps are traversed. The reader gives each level one order, whose id is its price for a bid and its price plus
  \<open>kAskOidOffset\<close> for an ask. Since the book has one level per price for both sides, this needs that no new bid is at a price that was an ask before.
\<close>

section \<open>Ids of levels\<close>

definition base_of :: "Side \<Rightarrow> OrderId" where
  "base_of side = (if side = BUY then 0 else kAskOidOffset)"

lemma level_id_uint:
  assumes "price_in_window p"
  shows "uint (base_of side + of_int p) = (if side = BUY then 0 else 600000) + p"
proof -
  have p: "0 \<le> p" "p < 131072" using assms by (simp_all add: price_in_window_def ME_MAX_PRICE_LEVELS_def)
  then have "uint (of_int p :: OrderId) = p" by (simp add: uint_word_of_int_eq take_bit_int_eq_self)
  then show ?thesis using p by (simp add: base_of_def kAskOidOffset_def uint_word_ariths take_bit_int_eq_self)
qed

lemma level_id_inject:
  assumes "price_in_window p" and "price_in_window q" and "side = BUY \<or> side = SELL" and "side' = BUY \<or> side' = SELL"
  shows "base_of side + of_int p = base_of side' + of_int q \<longleftrightarrow> side = side' \<and> p = q"
proof
  assume "base_of side + of_int p = base_of side' + of_int q"
  then have "uint (base_of side + of_int p) = uint (base_of side' + of_int q)" by simp
  then show "side = side' \<and> p = q"
    using assms unfolding level_id_uint[OF assms(1)] level_id_uint[OF assms(2)]
    by (auto simp: price_in_window_def ME_MAX_PRICE_LEVELS_def split: if_splits)
qed simp

lemma level_id_bound:
  assumes "price_in_window p"
  shows "unat (base_of side + of_int p) < ME_MAX_ORDER_IDS"
proof -
  have "uint (base_of side + of_int p) < 1048576"
    using assms unfolding level_id_uint[OF assms] by (simp add: price_in_window_def ME_MAX_PRICE_LEVELS_def)
  moreover have "int (unat (base_of side + of_int p)) = uint (base_of side + of_int p)" by (rule uint_nat[symmetric])
  ultimately show ?thesis unfolding ME_MAX_ORDER_IDS_def by linarith
qed

section \<open>Books with one order per level\<close>

text \<open>The quantity at each price of a side, and sides on which every level has the one order of the reader.\<close>

type_synonym depth = "Price \<rightharpoonup> Qty"

definition level_qtys :: "MarketOrder side_view \<Rightarrow> depth" where
  "level_qtys V = (\<lambda>p. map_option (\<lambda>vs. sum_list (map on_qty vs)) (map_of V p))"

definition one_order :: "Side \<Rightarrow> MarketOrder side_view \<Rightarrow> bool" where
  "one_order side V \<longleftrightarrow> (\<forall>(p, vs) \<in> set V. price_in_window p \<and> (\<exists>v. vs = [v] \<and> mk_order_id v = base_of side + of_int p))"

lemma level_qtys_simps [simp]:
  "level_qtys [] = Map.empty"
  "level_qtys ((p, vs) # V) = (level_qtys V)(p \<mapsto> sum_list (map on_qty vs))"
  by (auto simp: level_qtys_def)

lemma one_order_simps [simp]:
  "one_order side []"
  "one_order side ((p, vs) # V) \<longleftrightarrow> price_in_window p \<and> (\<exists>v. vs = [v] \<and> mk_order_id v = base_of side + of_int p) \<and> one_order side V"
  by (auto simp: one_order_def)

lemma dom_level_qtys: "dom (level_qtys V) = set (map fst V)"
  by (auto simp: level_qtys_def dom_def map_of_eq_None_iff)

lemma level_delete:
  assumes "one_order side V" and "price_in_window p" and "side = BUY \<or> side = SELL"
  defines "V' \<equiv> view_delete (\<lambda>w. mk_order_id w = base_of side + of_int p) V"
  shows "one_order side V' \<and> level_qtys V' = (level_qtys V)(p := None)"
  using assms(1) unfolding V'_def
proof (induction V)
  case (Cons x V)
  obtain q v where x: "x = (q, [v])" "price_in_window q" "mk_order_id v = base_of side + of_int q" using Cons.prems by (cases x) auto
  then have "mk_order_id v = base_of side + of_int p \<longleftrightarrow> q = p" using level_id_inject[OF _ assms(2,3,3), of q] by simp
  then show ?case using Cons x by (auto simp: fun_eq_iff)
qed simp

lemma level_update:
  fixes q :: Qty
  assumes "one_order side V" and "price_in_window p" and "side = BUY \<or> side = SELL"
  defines "V' \<equiv> view_update (\<lambda>w. mk_order_id w = base_of side + of_int p) (on_qty_update (\<lambda>_. q)) V"
  shows "one_order side V' \<and> level_qtys V' = (\<lambda>x. if x = p \<and> level_qtys V p \<noteq> None then Some q else level_qtys V x)"
  using assms(1) unfolding V'_def
proof (induction V)
  case (Cons x V)
  obtain r v where x: "x = (r, [v])" "price_in_window r" "mk_order_id v = base_of side + of_int r" using Cons.prems by (cases x) auto
  then have "mk_order_id v = base_of side + of_int p \<longleftrightarrow> r = p" using level_id_inject[OF _ assms(2,3,3), of r] by simp
  then show ?case using Cons x by (auto simp: fun_eq_iff)
qed simp

lemma level_insert:
  "one_order side V \<Longrightarrow> price_in_window p \<Longrightarrow> mk_order_id v = base_of side + of_int p \<Longrightarrow> level_qtys V p = None \<Longrightarrow>
   one_order side (view_insert side p v V) \<and> level_qtys (view_insert side p v V) = (level_qtys V)(p \<mapsto> on_qty v)"
  by (induction V) (auto simp: fun_eq_iff split: if_splits)

lemma one_order_length: "one_order side V \<Longrightarrow> length (view_orders V) = length V"
  by (induction V) auto

lemma level_count:
  assumes "side_view_ok side V"
  shows "length V = card (dom (level_qtys V))"
proof -
  have "distinct ps" if "sorted_wrt (better side) ps" for ps using that by (induction ps) auto
  then have "distinct (map fst V)" using assms by (simp add: side_view_ok_def)
  then show ?thesis unfolding dom_level_qtys using distinct_card[of "map fst V"] by simp
qed

lemma level_order:
  assumes "one_order side V" and "level_qtys V p = Some q"
  shows "\<exists>v. v \<in> set (view_orders V) \<and> mk_order_id v = base_of side + of_int p \<and> (p, [v]) \<in> set V"
  using assms by (induction V) (auto split: if_splits)

lemma order_id_of_level:
  assumes "one_order side V" and "v \<in> set (view_orders V)"
  shows "\<exists>p. price_in_window p \<and> mk_order_id v = base_of side + of_int p \<and> p \<in> dom (level_qtys V)"
proof -
  obtain p vs where "(p, vs) \<in> set V" "v \<in> set vs" using assms(2) by (auto simp: view_orders_def)
  then show ?thesis using assms(1) unfolding one_order_def dom_level_qtys by force
qed

text \<open>The client's book with these two sides.\<close>

definition lob_book :: "Side \<Rightarrow> depth \<Rightarrow> depth \<Rightarrow> MarketOrderBook \<Rightarrow> bool" where
  "lob_book side m n c \<longleftrightarrow> (\<exists>V W. mb_inv c side V W \<and> one_order side V \<and> one_order (opp side) W \<and> level_qtys V = m \<and> level_qtys W = n)"

lemma lob_book_swap: "side = BUY \<or> side = SELL \<Longrightarrow> lob_book side m n c \<longleftrightarrow> lob_book (opp side) n m c"
proof -
  assume "side = BUY \<or> side = SELL"
  then have "mb_inv c side V W \<longleftrightarrow> mb_inv c (opp side) W V" "opp (opp side) = side" for V W using mb_inv_swap by auto
  then show ?thesis unfolding lob_book_def by metis
qed

lemma lob_CANCEL:
  assumes b: "lob_book side m n c" and side: "side = BUY \<or> side = SELL" and p: "price_in_window p" "m p \<noteq> None"
    and u: "u = makeUpd cfg Upd_CANCEL (base_of side + of_int p) side p q pr"
  shows "\<exists>c' cbs. onMarketUpdate c u = Inr (c', cbs) \<and> lob_book side (m(p := None)) n c'"
proof -
  obtain V W where V: "mb_inv c side V W" "one_order side V" "one_order (opp side) W" "level_qtys V = m" "level_qtys W = n"
    using b by (auto simp: lob_book_def)
  obtain v where v: "v \<in> set (view_orders V)" "mk_order_id v = base_of side + of_int p" "(p, [v]) \<in> set V"
    using level_order[OF V(2), of p] V(4) p(2) by blast
  have "side_view_ok side V" using V(1) half_view_sides(1) by (auto simp: mb_inv_def)
  then have "on_price v = p" using v(3) by (auto simp: side_view_ok_def)
  then have "\<exists>c'. onMarketUpdate c u = Inr (c', [OnOrderBookUpdate (mu_ticker_id u) (mu_price u) side])
     \<and> mb_inv c' side (view_delete (\<lambda>w. mk_order_id w = base_of side + of_int p) V) W"
    using onMarketUpdate_CANCEL[OF V(1) side _ _ v(1), of u] v(2) u by (auto simp: makeUpd_def)
  then show ?thesis using level_delete[OF V(2) p(1) side] V(3-5) unfolding lob_book_def by blast
qed

lemma lob_MODIFY:
  assumes b: "lob_book side m n c" and side: "side = BUY \<or> side = SELL" and p: "price_in_window p" "m p \<noteq> None"
    and u: "u = makeUpd cfg MODIFY (base_of side + of_int p) side p q pr"
  shows "\<exists>c' cbs. onMarketUpdate c u = Inr (c', cbs) \<and> lob_book side (m(p \<mapsto> q)) n c'"
proof -
  obtain V W where V: "mb_inv c side V W" "one_order side V" "one_order (opp side) W" "level_qtys V = m" "level_qtys W = n"
    using b by (auto simp: lob_book_def)
  let ?V = "view_update (\<lambda>w. mk_order_id w = base_of side + of_int p) (on_qty_update (\<lambda>_. q)) V"
  obtain v where v: "v \<in> set (view_orders V)" "mk_order_id v = base_of side + of_int p" "(p, [v]) \<in> set V"
    using level_order[OF V(2), of p] V(4) p(2) by blast
  have "side_view_ok side V" using V(1) half_view_sides(1) by (auto simp: mb_inv_def)
  then have "on_price v = p" using v(3) by (auto simp: side_view_ok_def)
  then obtain c' where "onMarketUpdate c u = Inr (c', [OnOrderBookUpdate (mu_ticker_id u) (mu_price u) side])" "mb_inv c' side ?V W"
    using onMarketUpdate_MODIFY[OF V(1) side _ _ v(1), of u] v(2) u by (auto simp: makeUpd_def)
  moreover have "one_order side ?V" "level_qtys ?V = m(p \<mapsto> q)" using level_update[OF V(2) p(1) side, of q] V(4) p(2) by (auto simp: fun_eq_iff)
  ultimately show ?thesis using V(3,5) unfolding lob_book_def by blast
qed

lemma lob_ADD:
  assumes b: "lob_book side m n c" and side: "side = BUY \<or> side = SELL" and p: "price_in_window p" "m p = None" "n p = None"
    and room: "card (dom m) + card (dom n) + 1 < ME_MAX_PRICE_LEVELS"
    and u: "u = makeUpd cfg ADD (base_of side + of_int p) side p q pr"
  shows "\<exists>c' cbs. onMarketUpdate c u = Inr (c', cbs) \<and> lob_book side (m(p \<mapsto> q)) n c'"
proof -
  obtain V W where V: "mb_inv c side V W" "one_order side V" "one_order (opp side) W" "level_qtys V = m" "level_qtys W = n"
    using b by (auto simp: lob_book_def)
  let ?o = "MarketOrder_new (mu_order_id u) side (mu_price u) (mu_qty u) (mu_priority u) None None"
  have sides: "side_view_ok side V" "side_view_ok (opp side) W" using V(1) half_view_sides by (auto simp: mb_inv_def)
  have count: "length V + length W + 1 < ME_MAX_PRICE_LEVELS" "length (view_orders V) + length (view_orders W) + 1 < ME_MAX_ORDER_IDS"
    using room level_count[OF sides(1)] level_count[OF sides(2)] V(4,5) one_order_length[OF V(2)] one_order_length[OF V(3)]
    by (simp_all add: ME_MAX_PRICE_LEVELS_def ME_MAX_ORDER_IDS_def)
  have fresh: "mk_order_id v \<noteq> base_of side + of_int p" if "v \<in> set (view_orders V @ view_orders W)" for v
  proof -
    have "opp side = BUY \<or> opp side = SELL" "opp side \<noteq> side" using side by auto
    then show ?thesis
      using that order_id_of_level[OF V(2), of v] order_id_of_level[OF V(3), of v] V(4,5) p level_id_inject[OF _ p(1) _ side] side by fastforce
  qed
  have "p \<notin> set (map fst W)" using p(3) V(5) dom_level_qtys[of W] by auto
  then obtain c' where "onMarketUpdate c u = Inr (c', [OnOrderBookUpdate (mu_ticker_id u) (mu_price u) side])"
      "mb_inv c' side (view_insert side (mu_price u) ?o V) W"
    using onMarketUpdate_ADD[OF V(1) side, of u] u p(1) level_id_bound[OF p(1), of side] fresh count by (auto simp: makeUpd_def)
  moreover have "one_order side (view_insert side p ?o V)" "level_qtys (view_insert side p ?o V) = m(p \<mapsto> q)"
    using level_insert[OF V(2) p(1), of ?o] V(4) p(2) u by (simp_all add: MarketOrder_new_def makeUpd_def)
  moreover have "mu_price u = p" using u by (simp add: makeUpd_def)
  ultimately show ?thesis using V(3,5) unfolding lob_book_def by metis
qed

section \<open>One side\<close>

definition any_order :: "(levels \<Rightarrow> levels) \<Rightarrow> bool" where
  "any_order arrange \<longleftrightarrow> (\<forall>ls. mset (arrange ls) = mset ls)"

lemma any_orderD:
  assumes "any_order arrange"
  shows "set (arrange ls) = set ls" and "distinct (map fst ls) \<Longrightarrow> distinct (map fst (arrange ls))"
proof -
  have m: "mset (arrange ls) = mset ls" using assms by (simp add: any_order_def)
  then show "set (arrange ls) = set ls" by (rule mset_eq_setD)
  from m have "mset (map fst (arrange ls)) = mset (map fst ls)" by simp
  then show "distinct (map fst ls) \<Longrightarrow> distinct (map fst (arrange ls))" by (metis mset_eq_imp_distinct_iff)
qed

lemma any_order_map_of: "any_order arrange \<Longrightarrow> distinct (map fst ls) \<Longrightarrow> map_of (arrange ls) = map_of ls"
  by (rule map_of_inject_set[THEN iffD2]) (simp_all add: any_orderD)

text \<open>What a run of updates makes of the book.\<close>

definition leads :: "MEMarketUpdate list \<Rightarrow> MarketOrderBook \<Rightarrow> (MarketOrderBook \<Rightarrow> bool) \<Rightarrow> bool" where
  "leads us c P \<longleftrightarrow> (\<exists>c'. feed us c = Inr c' \<and> P c')"

lemma leads_Nil [simp]: "leads [] c P \<longleftrightarrow> P c"
  by (simp add: leads_def)

lemma leads_Cons: "onMarketUpdate c u = Inr (c', cbs) \<Longrightarrow> leads (u # us) c P \<longleftrightarrow> leads us c' P"
  by (simp add: leads_def)

lemma leads_append: "leads us c P \<Longrightarrow> (\<And>c'. P c' \<Longrightarrow> leads vs c' Q) \<Longrightarrow> leads (us @ vs) c Q"
  by (auto simp: leads_def feed_append)

lemma feed_gone:
  assumes side: "side = BUY \<or> side = SELL"
  shows "lob_book side m n c \<Longrightarrow> distinct (map fst ps) \<Longrightarrow> (\<And>px. px \<in> fst ` set ps \<Longrightarrow> m px \<noteq> None \<and> price_in_window px) \<Longrightarrow>
   leads (diff_gone cfg side (base_of side) ps cur) c (lob_book side (\<lambda>px. if px \<in> fst ` set ps \<and> map_of cur px = None then None else m px) n)"
proof (induction ps arbitrary: m c)
  case (Cons p ps)
  obtain px q where p: "p = (px, q)" by (cases p)
  let ?u = "makeUpd cfg Upd_CANCEL (base_of side + of_int px) side px 0 Priority_INVALID"
  let ?fin = "\<lambda>m x. if x \<in> fst ` set ps \<and> map_of cur x = None then None else m x"
  show ?case
  proof (cases "map_of cur px")
    case None
    obtain c' cbs where c': "onMarketUpdate c ?u = Inr (c', cbs)" "lob_book side (m(px := None)) n c'"
      using lob_CANCEL[OF Cons.prems(1) side _ _ refl, of px cfg 0 Priority_INVALID] Cons.prems(3)[of px] p by auto
    have "leads (diff_gone cfg side (base_of side) ps cur) c' (lob_book side (?fin (m(px := None))) n)"
      using Cons.prems p by (intro Cons.IH[OF c'(2)]) auto
    moreover have "?fin (m(px := None)) = (\<lambda>x. if x \<in> fst ` set (p # ps) \<and> map_of cur x = None then None else m x)"
      using None p by (auto simp: fun_eq_iff)
    ultimately show ?thesis using None p leads_Cons[OF c'(1)] by (simp add: diff_gone_def)
  next
    case (Some q')
    have "leads (diff_gone cfg side (base_of side) ps cur) c (lob_book side (?fin m) n)" using Cons.prems by (intro Cons.IH) auto
    moreover have "?fin m = (\<lambda>x. if x \<in> fst ` set (p # ps) \<and> map_of cur x = None then None else m x)" using Some p by (auto simp: fun_eq_iff)
    ultimately show ?thesis using Some p by (simp add: diff_gone_def)
  qed
qed (simp add: diff_gone_def)

lemma feed_present:
  assumes side: "side = BUY \<or> side = SELL"
  shows "lob_book side m n c \<Longrightarrow> distinct (map fst cs) \<Longrightarrow>
   (\<And>px. px \<in> fst ` set cs \<Longrightarrow> m px = map_of prev px \<and> price_in_window px \<and> (map_of prev px = None \<longrightarrow> n px = None)) \<Longrightarrow>
   card (dom m \<union> fst ` set cs) + card (dom n) < ME_MAX_PRICE_LEVELS \<Longrightarrow> finite (dom m) \<Longrightarrow>
   leads (fst (diff_present cfg side (base_of side) prev cs pr)) c (lob_book side (m ++ map_of cs) n)"
proof (induction cs arbitrary: m c pr)
  case (Cons x cs)
  obtain px q where x: "x = (px, q)" by (cases x)
  define M where "M = m ++ map_of (x # cs)"
  have here: "m px = map_of prev px" "price_in_window px" "map_of prev px = None \<Longrightarrow> n px = None" using Cons.prems(3)[of px] x by auto
  have "px \<notin> dom (map_of cs)" using Cons.prems(2) x by (simp add: dom_map_of_conv_image_fst)
  then have m: "m(px \<mapsto> q) ++ map_of cs = M" "px \<notin> fst ` set cs"
    using x by (simp_all add: M_def map_add_upd_left dom_map_of_conv_image_fst)
  have "dom (m(px \<mapsto> q)) \<union> fst ` set cs = dom m \<union> fst ` set (x # cs)" using x by auto
  then have "card (dom (m(px \<mapsto> q)) \<union> fst ` set cs) + card (dom n) < ME_MAX_PRICE_LEVELS" "finite (dom (m(px \<mapsto> q)))" "distinct (map fst cs)"
    using Cons.prems(2,4,5) by simp_all
  moreover have "(m(px \<mapsto> q)) y = map_of prev y \<and> price_in_window y \<and> (map_of prev y = None \<longrightarrow> n y = None)" if "y \<in> fst ` set cs" for y
    using Cons.prems(3)[of y] that m(2) by auto
  ultimately have rest: "leads (fst (diff_present cfg side (base_of side) prev cs pr')) c' (lob_book side M n)"
    if "lob_book side (m(px \<mapsto> q)) n c'" for c' pr'
    using Cons.IH[OF that, of pr'] unfolding m(1) by blast
  have "leads (fst (diff_present cfg side (base_of side) prev (x # cs) pr)) c (lob_book side M n)"
  proof (cases "map_of prev px")
    case None
    have "px \<notin> dom m" "px \<in> fst ` set (x # cs)" using None here(1) x by auto
    then have "dom m \<subset> dom m \<union> fst ` set (x # cs)" by auto
    then have "card (dom m) < card (dom m \<union> fst ` set (x # cs))" using Cons.prems(5) by (intro psubset_card_mono) auto
    then have "card (dom m) + card (dom n) + 1 < ME_MAX_PRICE_LEVELS" using Cons.prems(4) by linarith
    from lob_ADD[OF Cons.prems(1) side here(2) _ _ this refl, of cfg q pr] None here
    obtain c' cbs where "onMarketUpdate c (makeUpd cfg ADD (base_of side + of_int px) side px q pr) = Inr (c', cbs)" "lob_book side (m(px \<mapsto> q)) n c'"
      by auto
    then show ?thesis using None rest x leads_Cons by (simp add: split_beta Let_def)
  next
    case (Some q')
    show ?thesis
    proof (cases "q' = q")
      case True
      then have "m(px \<mapsto> q) = m" using Some here(1) by auto
      then show ?thesis using True Some rest[of c] Cons.prems(1) x by (simp add: split_beta Let_def)
    next
      case False
      from lob_MODIFY[OF Cons.prems(1) side here(2) _ refl, of cfg q Priority_INVALID] Some here
      obtain c' cbs where "onMarketUpdate c (makeUpd cfg MODIFY (base_of side + of_int px) side px q Priority_INVALID) = Inr (c', cbs)"
          "lob_book side (m(px \<mapsto> q)) n c'" by auto
      then show ?thesis using False Some rest x leads_Cons by (simp add: split_beta Let_def)
    qed
  qed
  then show ?case unfolding M_def .
qed simp

lemma feed_side:
  assumes any: "any_order arrange" and side: "side = BUY \<or> side = SELL" and d: "distinct (map fst prev)" "distinct (map fst cur)"
    and b: "lob_book side (map_of prev) n c" and w: "\<forall>px \<in> fst ` set prev \<union> fst ` set cur. price_in_window px"
    and new: "\<forall>px \<in> fst ` set cur - fst ` set prev. n px = None" and room: "length cur + card (dom n) < ME_MAX_PRICE_LEVELS"
  shows "leads (fst (diffSide arrange cfg side (base_of side) prev cur pr)) c (lob_book side (map_of cur) n)"
proof -
  define m where "m = (\<lambda>px. if px \<in> fst ` set (arrange prev) \<and> map_of cur px = None then None else map_of prev px)"
  have gone: "leads (diff_gone cfg side (base_of side) (arrange prev) cur) c (lob_book side m n)"
    unfolding m_def using any d w by (intro feed_gone[OF side b]) (auto simp: any_orderD map_of_eq_None_iff)
  have sub: "dom m \<subseteq> fst ` set cur" 
  proof
    fix x assume "x \<in> dom m"
    then have "m x \<noteq> None" by blast
    then have "map_of prev x \<noteq> None" "\<not> (x \<in> fst ` set prev \<and> map_of cur x = None)" unfolding m_def any_orderD(1)[OF any] by metis+
    then show "x \<in> fst ` set cur" by (metis map_of_eq_None_iff)
  qed
  then have "card (dom m \<union> fst ` set (arrange cur)) \<le> length cur"
    using any card_length[of "map fst cur"] by (simp add: any_orderD Un_absorb1)
  moreover have "m px = map_of prev px \<and> price_in_window px \<and> (map_of prev px = None \<longrightarrow> n px = None)" if "px \<in> fst ` set (arrange cur)" for px
    using that any w new by (auto simp: m_def any_orderD map_of_eq_None_iff)
  moreover have "m ++ map_of (arrange cur) = map_of cur"
  proof
    fix px
    have "map_of cur px = None \<Longrightarrow> m px = None" using any by (auto simp: m_def any_orderD map_of_eq_None_iff)
    then show "(m ++ map_of (arrange cur)) px = map_of cur px" using any d by (simp add: any_order_map_of map_add_def split: option.splits)
  qed
  moreover have "finite (dom m)" using sub by (rule finite_subset) simp
  ultimately have "leads (fst (diff_present cfg side (base_of side) prev (arrange cur) pr)) c' (lob_book side (map_of cur) n)"
    if "lob_book side m n c'" for c'
    using feed_present[OF side that, of "arrange cur" prev cfg pr] any d room by (simp add: any_orderD)
  from leads_append[OF gone this] show ?thesis by (simp add: diffSide_def split_beta Let_def)
qed

section \<open>Whole tapes\<close>

lemma put_level_facts:
  "put_level e p s ls = Inr ls' \<Longrightarrow> (distinct (map fst ls) \<longrightarrow> distinct (map fst ls')) \<and> length ls' \<le> Suc (length ls)"
proof -
  have "length (AList.update k v ls) \<le> Suc (length ls)" for k v by (induction ls) auto
  then show "put_level e p s ls = Inr ls' \<Longrightarrow> ?thesis" by (auto simp: put_level_def bindR_eq_Inr distinct_update split: if_splits)
qed

lemma snapshot_levels_facts:
  "snapshot_levels e vs ba = Inr (b, a) \<Longrightarrow> distinct (map fst (fst ba)) \<Longrightarrow> distinct (map fst (snd ba)) \<Longrightarrow>
   distinct (map fst b) \<and> distinct (map fst a) \<and> length b \<le> length (fst ba) + length vs div 4 \<and> length a \<le> length (snd ba) + length vs div 4"
proof (induction e vs ba rule: snapshot_levels.induct)
  case (1 e askP askS bidP bidS vs bid ask)
  obtain ask' bid' where l: "put_level e askP askS ask = Inr ask'" "put_level e bidP bidS bid = Inr bid'" "snapshot_levels e vs (bid', ask') = Inr (b, a)"
    using 1(2) by (auto simp: bindR_eq_Inr)
  note f = put_level_facts[OF l(1)] put_level_facts[OF l(2)]
  have "distinct (map fst (fst (bid', ask')))" "distinct (map fst (snd (bid', ask')))" using f 1(3,4) by simp_all
  from 1(1)[OF l(3) this] f show ?case by simp
qed auto

lemma parse_numbers_length: "parse_numbers n s = Inr vs \<Longrightarrow> length vs \<le> n"
  by (induction n s arbitrary: vs rule: parse_numbers.induct) (auto simp: bindR_eq_Inr split: option.splits if_splits)

lemma snapshot_numbers_length: "snapshot_numbers cfg oline = Inr vs \<Longrightarrow> length vs div 4 \<le> nat (lc_levels cfg)"
  by (auto simp: snapshot_numbers_def split: if_splits dest!: parse_numbers_length)

text \<open>
  What a tape has to keep for the replay, checked along the lines that the reader reads: the prices fit into the array of levels, a snapshot has no price on both sides,
  and no new bid is at the price of an ask of the snapshot before, since the bids are compared before the asks.
\<close>

definition lobster_step_ok :: "levels \<Rightarrow> levels \<Rightarrow> levels \<Rightarrow> levels \<Rightarrow> bool" where
  "lobster_step_ok prev_bid prev_ask cur_bid cur_ask \<longleftrightarrow>
     (\<forall>px \<in> fst ` set cur_bid \<union> fst ` set cur_ask. price_in_window px) \<and> fst ` set cur_bid \<inter> fst ` set cur_ask = {}
     \<and> (fst ` set cur_bid - fst ` set prev_bid) \<inter> fst ` set prev_ask = {}"

function lobster_tape_ok :: "(levels \<Rightarrow> levels) \<Rightarrow> fpenv \<Rightarrow> LobsterReader \<Rightarrow> bool" where
  "lobster_tape_ok arrange e r \<longleftrightarrow>
     (case fillStep arrange e (r\<lparr> lr_pending := [] \<rparr>) of
        Inl err \<Rightarrow> True
      | Inr (r', go) \<Rightarrow> lobster_step_ok (lr_prev_bid r) (lr_prev_ask r) (lr_prev_bid r') (lr_prev_ask r') \<and> (go \<longrightarrow> lobster_tape_ok arrange e r'))"
  by pat_completeness auto

termination by (relation "measure (\<lambda>(_, _, r). length (lr_msg_in r))") (auto dest: fillStep_shorter)

declare lobster_tape_ok.simps [simp del]

lemma tape_ok_pending: "lobster_tape_ok arrange e (r\<lparr> lr_pending := ps \<rparr>) = lobster_tape_ok arrange e r"
  by (cases "fillStep arrange e (r\<lparr> lr_pending := [] \<rparr>)") (simp_all add: lobster_tape_ok.simps[of arrange e "r\<lparr> lr_pending := ps \<rparr>"] lobster_tape_ok.simps[of arrange e r] split_beta)

lemma tape_ok_step:
  assumes "lr_pending r = []" and "fillStep arrange e r = Inr (r', go)"
  shows "lobster_tape_ok arrange e r \<longleftrightarrow> lobster_step_ok (lr_prev_bid r) (lr_prev_ask r) (lr_prev_bid r') (lr_prev_ask r') \<and> (go \<longrightarrow> lobster_tape_ok arrange e r')"
proof -
  have "r\<lparr> lr_pending := [] \<rparr> = r" using assms(1) by (cases r) simp
  then show ?thesis using assms(2) by (simp add: lobster_tape_ok.simps[of arrange e r])
qed

text \<open>The invariant: the pending updates lead from the book to the last snapshot.\<close>

definition reader_ok :: "LobsterReader \<Rightarrow> bool" where
  "reader_ok r \<longleftrightarrow> distinct (map fst (lr_prev_bid r)) \<and> distinct (map fst (lr_prev_ask r)) \<and> lc_levels (lr_cfg r) < 65536
     \<and> length (lr_prev_bid r) < 65536 \<and> length (lr_prev_ask r) < 65536
     \<and> (\<forall>px \<in> fst ` set (lr_prev_bid r) \<union> fst ` set (lr_prev_ask r). price_in_window px)"

definition reader_inv :: "MarketOrderBook \<Rightarrow> LobsterReader \<Rightarrow> bool" where
  "reader_inv c r \<longleftrightarrow> reader_ok r \<and> leads (map snd (lr_pending r)) c (lob_book BUY (map_of (lr_prev_bid r)) (map_of (lr_prev_ask r)))"

lemma card_levels: "card (dom (map_of ls)) \<le> length ls"
  using card_length[of "map fst ls"] by (simp add: dom_map_of_conv_image_fst)

lemma step_leads:
  assumes any: "any_order arrange" and r: "reader_ok r" and d: "distinct (map fst cb)" "distinct (map fst ca)"
    and len: "length cb < 65536" "length ca < 65536" and ok: "lobster_step_ok (lr_prev_bid r) (lr_prev_ask r) cb ca"
    and b: "lob_book BUY (map_of (lr_prev_bid r)) (map_of (lr_prev_ask r)) c"
  shows "leads (trade_print cfg m @ fst (diffSide arrange cfg BUY 0 (lr_prev_bid r) cb p1) @ fst (diffSide arrange cfg SELL kAskOidOffset (lr_prev_ask r) ca p2)) c
    (lob_book BUY (map_of cb) (map_of ca))"
proof -
  let ?pb = "lr_prev_bid r" and ?pa = "lr_prev_ask r"
  have dist: "distinct (map fst ?pb)" "distinct (map fst ?pa)" "length ?pb < 65536" "length ?pa < 65536"
    and win: "\<forall>px \<in> fst ` set ?pb \<union> fst ` set cb. price_in_window px" "\<forall>px \<in> fst ` set ?pa \<union> fst ` set ca. price_in_window px"
    using r ok by (auto simp: reader_ok_def lobster_step_ok_def)
  have trade: "leads (trade_print cfg m) c (lob_book BUY (map_of ?pb) (map_of ?pa))"
    using b by (auto simp: trade_print_def leads_def onMarketUpdate_def makeUpd_def)
  have bids: "leads (fst (diffSide arrange cfg BUY 0 ?pb cb p1)) c' (lob_book BUY (map_of cb) (map_of ?pa))"
    if "lob_book BUY (map_of ?pb) (map_of ?pa) c'" for c'
  proof -
    have "\<forall>px \<in> fst ` set cb - fst ` set ?pb. map_of ?pa px = None" using ok by (auto simp: lobster_step_ok_def map_of_eq_None_iff)
    moreover have "length cb + card (dom (map_of ?pa)) < ME_MAX_PRICE_LEVELS"
      using card_levels[of ?pa] len(1) dist(4) by (simp add: ME_MAX_PRICE_LEVELS_def)
    ultimately show ?thesis using feed_side[OF any _ dist(1) d(1) that win(1), of cfg p1] by (simp add: base_of_def)
  qed
  have asks: "leads (fst (diffSide arrange cfg SELL kAskOidOffset ?pa ca p2)) c' (lob_book BUY (map_of cb) (map_of ca))"
    if "lob_book BUY (map_of cb) (map_of ?pa) c'" for c'
  proof -
    have "\<forall>px \<in> fst ` set ca - fst ` set ?pa. map_of cb px = None" using ok by (auto simp: lobster_step_ok_def map_of_eq_None_iff)
    moreover have "length ca + card (dom (map_of cb)) < ME_MAX_PRICE_LEVELS"
      using card_levels[of cb] len by (simp add: ME_MAX_PRICE_LEVELS_def)
    moreover have "lob_book SELL (map_of ?pa) (map_of cb) c'" using that lob_book_swap[of BUY] by simp
    ultimately have "leads (fst (diffSide arrange cfg SELL kAskOidOffset ?pa ca p2)) c' (lob_book SELL (map_of ca) (map_of cb))"
      using feed_side[OF any _ dist(2) d(2) _ win(2), of SELL _ c' cfg p2] by (simp add: base_of_def)
    then show ?thesis using lob_book_swap[of BUY] by (auto simp: leads_def)
  qed
  show ?thesis by (rule leads_append[OF trade leads_append[OF bids asks]])
qed

lemma fillStep_inv:
  assumes any: "any_order arrange" and I: "reader_inv c r" and p: "lr_pending r = []" and t: "lobster_tape_ok arrange e r"
    and f: "fillStep arrange e r = Inr (r', go)"
  shows "reader_inv c r' \<and> (go \<longrightarrow> lobster_tape_ok arrange e r')"
proof -
  have ok: "lobster_step_ok (lr_prev_bid r) (lr_prev_ask r) (lr_prev_bid r') (lr_prev_ask r')" "go \<longrightarrow> lobster_tape_ok arrange e r'"
    using t tape_ok_step[OF p f] by simp_all
  have r: "reader_ok r" "lob_book BUY (map_of (lr_prev_bid r)) (map_of (lr_prev_ask r)) c" using I p by (simp_all add: reader_inv_def)
  consider "lr_cfg r' = lr_cfg r" "lr_prev_bid r' = lr_prev_bid r" "lr_prev_ask r' = lr_prev_ask r" "lr_pending r' = lr_pending r"
    | m vs cb ca p1 p2 oline where "snapshot_numbers (lr_cfg r) oline = Inr vs" "snapshot_levels e vs ([], []) = Inr (cb, ca)"
      "lr_cfg r' = lr_cfg r" "lr_prev_bid r' = cb" "lr_prev_ask r' = ca"
      "lr_pending r' = map (Pair (lm_ts m)) (trade_print (lr_cfg r) m
         @ fst (diffSide arrange (lr_cfg r) BUY 0 (lr_prev_bid r) cb p1) @ fst (diffSide arrange (lr_cfg r) SELL kAskOidOffset (lr_prev_ask r) ca p2))"
    using f p by (fastforce simp: fillStep_def bindR_eq_Inr Let_def split_beta split: if_splits option.splits)
  then show ?thesis
  proof cases
    case 1
    then show ?thesis using I ok(2) by (simp add: reader_inv_def reader_ok_def)
  next
    case 2
    have l: "distinct (map fst cb)" "distinct (map fst ca)" "length cb \<le> nat (lc_levels (lr_cfg r))" "length ca \<le> nat (lc_levels (lr_cfg r))"
      using snapshot_levels_facts[OF 2(2)] snapshot_numbers_length[OF 2(1)] by simp_all
    have "nat (lc_levels (lr_cfg r)) < 65536" using r(1) unfolding reader_ok_def by linarith
    then have len: "length cb < 65536" "length ca < 65536" using l(3,4) by linarith+
    note step = step_leads[OF any r(1) l(1,2) len _ r(2)]
    have "reader_ok r'" using r(1) l len ok(1) 2 by (auto simp: reader_ok_def lobster_step_ok_def)
    then show ?thesis using step ok 2 by (simp add: reader_inv_def comp_def)
  qed
qed

lemma lobster_next_inv:
  "any_order arrange \<Longrightarrow> lobster_next arrange e r = Inr (r', p) \<Longrightarrow> reader_inv c r \<Longrightarrow> lobster_tape_ok arrange e r \<Longrightarrow>
   (case p of None \<Rightarrow> reader_inv c r' \<and> lr_pending r' = []
    | Some (ns, u) \<Rightarrow> \<exists>c' cbs. onMarketUpdate c u = Inr (c', cbs) \<and> reader_inv c' r' \<and> lobster_tape_ok arrange e r')"
proof (induction arrange e r rule: lobster_next.induct)
  case (1 arrange e r)
  note eq = lobster_next.simps[of arrange e r]
  show ?case
  proof (cases "lr_pending r")
    case Nil
    then obtain r1 go where f: "fillStep arrange e r = Inr (r1, go)" using 1(3) by (auto simp: eq split: sum.splits)
    note I = fillStep_inv[OF 1(2,4) Nil 1(5) f]
    show ?thesis
    proof (cases go)
      case True
      then show ?thesis using 1(1)[OF Nil f refl True 1(2)] I 1(3) Nil f by (simp add: eq)
    next
      case False
      then have "lr_pending r1 = lr_pending r" using f by (auto simp: fillStep_def bindR_eq_Inr Let_def split_beta split: if_splits option.splits)
      then show ?thesis using False 1(3) Nil f I by (auto simp: eq)
    qed
  next
    case (Cons x xs)
    then have r': "r' = r\<lparr> lr_pending := xs \<rparr>" "p = Some x" using 1(3) by (simp_all add: eq)
    obtain c' where c': "feed (snd x # map snd xs) c = Inr c'" "lob_book BUY (map_of (lr_prev_bid r)) (map_of (lr_prev_ask r)) c'"
      using 1(4) Cons by (auto simp: reader_inv_def leads_def simp del: feed_Cons)
    then obtain c1 cbs where "onMarketUpdate c (snd x) = Inr (c1, cbs)" "feed (map snd xs) c1 = Inr c'" by (auto simp: bindR_eq_Inr)
    then show ?thesis using 1(4,5) c'(2) r' by (auto simp: reader_inv_def reader_ok_def leads_def tape_ok_pending split_beta)
  qed
qed

lemma lobster_all_inv:
  "any_order arrange \<Longrightarrow> lobster_all arrange e r = Inr (r', ups) \<Longrightarrow> reader_inv c r \<Longrightarrow> lobster_tape_ok arrange e r \<Longrightarrow>
   leads (map snd ups) c (lob_book BUY (map_of (lr_prev_bid r')) (map_of (lr_prev_ask r')))"
proof (induction arrange e r arbitrary: c ups rule: lobster_all.induct)
  case (1 arrange e r)
  note eq = lobster_all.simps[of arrange e r]
  obtain r1 p where n: "lobster_next arrange e r = Inr (r1, p)" using 1(3) by (auto simp: eq split: sum.splits)
  note I = lobster_next_inv[OF 1(2) n 1(4,5)]
  show ?case
  proof (cases p)
    case None
    then show ?thesis using I n 1(3) by (auto simp: eq reader_inv_def)
  next
    case (Some x)
    then obtain ups1 where u: "lobster_all arrange e r1 = Inr (r', ups1)" "ups = x # ups1"
      using 1(3) n by (auto simp: eq split: sum.splits)
    obtain c' cbs where "onMarketUpdate c (snd x) = Inr (c', cbs)" "reader_inv c' r1" "lobster_tape_ok arrange e r1"
      using I Some by (auto simp: split_beta)
    then show ?thesis using 1(1)[OF n refl Some 1(2) u(1)] u(2) leads_Cons by simp
  qed
qed

text \<open>C33: The updates that the snapshot reader emits for a tape, fed to the client's book of pointers, are all handled, and leave exactly the bid and the ask levels
  of the last snapshot with their quantities in it, and so the best bid and offer of the snapshot, whatever the order in which the hash maps are traversed. The tape has
  fewer than 65536 levels per side, prices in cents below 131072, no price on both sides of a snapshot, and no new bid at the price of an ask of the snapshot before.
\<close>

theorem lobster_updates_rebuild_snapshots:
  assumes "any_order arrange" and "LobsterReader_new files cfg = Inr r0" and "lc_levels cfg < 65536" and "lobster_tape_ok arrange e r0"
    and "lobster_all arrange e r0 = Inr (r, ups)"
  shows "\<exists>c bids asks. feed (map snd ups) (MarketOrderBook_new t (\<lambda>_. None) (\<lambda>_. None)) = Inr c \<and> mb_inv c BUY bids asks
    \<and> level_qtys bids = map_of (lr_prev_bid r) \<and> level_qtys asks = map_of (lr_prev_ask r)"
proof -
  let ?c = "MarketOrderBook_new t (\<lambda>_. None) (\<lambda>_. None)"
  have "lob_book BUY Map.empty Map.empty ?c" unfolding lob_book_def
    by (rule exI[of _ "[]"], rule exI[of _ "[]"]) (simp add: mb_inv_new)
  then have "reader_inv ?c r0" using assms(2,3) by (auto simp: LobsterReader_new_def bindR_eq_Inr reader_inv_def reader_ok_def)
  from lobster_all_inv[OF assms(1,5) this assms(4)] show ?thesis unfolding leads_def lob_book_def by blast
qed

section \<open>A sample tape\<close>

definition sample_lobster_cfg :: LobsterConfig where
  "sample_lobster_cfg = \<lparr> lc_message_path = ''A_message_1.csv'', lc_ticker_id = 0, lc_levels = 1, lc_max_events = 0 \<rparr>"

definition sample_messages :: string where
  "sample_messages = ''1,1,7,5,10000,1'' @ [lobster_newline] @ ''2,4,8,5,10100,-1'' @ [lobster_newline]"

definition sample_orderbook :: string where
  "sample_orderbook = ''10100,5,10000,5'' @ [lobster_newline] @ ''10200,5,10000,7'' @ [lobster_newline]"

definition sample_files :: "string \<Rightarrow> string option" where
  "sample_files = (\<lambda>_. None)(''A_message_1.csv'' := Some sample_messages, ''A_orderbook_1.csv'' := Some sample_orderbook)"

lemmas text_eval = getline_def next_field_def is_space_def digit_val_def scan_int_def scan_point_def scan_exponent_def to_lower_def
  starts_with_def scan_real_def range_error_def stod_def stoll_def stoi_def signed_def Let_def

lemma sample_parsed:
  "parse_message exact_env ''1,1,7,5,10000,1'' = Inr \<lparr> lm_ts = 1000000000, lm_type = 1, lm_size = 5, lm_price = 100, lm_dir = 1 \<rparr>"
  "parse_message exact_env ''2,4,8,5,10100,-1'' = Inr \<lparr> lm_ts = 2000000000, lm_type = 4, lm_size = 5, lm_price = 101, lm_dir = -1 \<rparr>"
  "snapshot_numbers sample_lobster_cfg ''10100,5,10000,5'' = Inr [10100, 5, 10000, 5]"
  "snapshot_numbers sample_lobster_cfg ''10200,5,10000,7'' = Inr [10200, 5, 10000, 7]"
  by (simp_all add: parse_message_def text_eval d_llround_def fround_def d_to_int64_def trunc_def int64_def snapshot_numbers_def sample_lobster_cfg_def eval_nat_numeral)

lemma sample_levels:
  "snapshot_levels exact_env [10100, 5, 10000, 5] ([], []) = Inr ([(100, 5)], [(101, 5)])"
  "snapshot_levels exact_env [10200, 5, 10000, 7] ([], []) = Inr ([(100, 7)], [(102, 5)])"
  by (simp_all add: put_level_def kSentinel_def d_llround_def fround_def d_to_int64_def trunc_def int64_def d_of_int_def)

lemma sample_lines:
  "getline lobster_newline sample_messages = Some (''1,1,7,5,10000,1'', ''2,4,8,5,10100,-1'' @ [lobster_newline])"
  "getline lobster_newline (''2,4,8,5,10100,-1'' @ [lobster_newline]) = Some (''2,4,8,5,10100,-1'', [])"
  "getline lobster_newline sample_orderbook = Some (''10100,5,10000,5'', ''10200,5,10000,7'' @ [lobster_newline])"
  "getline lobster_newline (''10200,5,10000,7'' @ [lobster_newline]) = Some (''10200,5,10000,7'', [])"
  by (simp_all add: getline_def lobster_newline_def sample_messages_def sample_orderbook_def)

definition sample_updates :: "(int \<times> MEMarketUpdate) list" where
  "sample_updates =
     map (Pair 1000000000) [makeUpd sample_lobster_cfg ADD 100 BUY 100 5 1, makeUpd sample_lobster_cfg ADD 600101 SELL 101 5 2] @
     map (Pair 2000000000)
       [makeUpd sample_lobster_cfg TRADE OrderId_INVALID BUY 101 5 Priority_INVALID,
        makeUpd sample_lobster_cfg MODIFY 100 BUY 100 7 Priority_INVALID,
        makeUpd sample_lobster_cfg Upd_CANCEL 600101 SELL 101 0 Priority_INVALID, makeUpd sample_lobster_cfg ADD 600102 SELL 102 5 3]"

lemma sample_step:
  assumes "lr_cfg r = sample_lobster_cfg" and "\<not> lr_eof r"
    and "getline lobster_newline (lr_msg_in r) = Some (mline, msg)" and "getline lobster_newline (lr_ob_in r) = Some (oline, ob)"
    and "mline \<noteq> []" and "oline \<noteq> []" and "parse_message exact_env mline = Inr m" and "snapshot_numbers sample_lobster_cfg oline = Inr vs"
    and "snapshot_levels exact_env vs ([], []) = Inr (cb, ca)"
    and "diffSide id sample_lobster_cfg BUY 0 (lr_prev_bid r) cb (lr_next_priority r) = (bids, pr1)"
    and "diffSide id sample_lobster_cfg SELL kAskOidOffset (lr_prev_ask r) ca pr1 = (asks, pr2)"
  shows "fillStep id exact_env r = Inr (r\<lparr> lr_msg_in := msg, lr_ob_in := ob, lr_count := lr_count r + 1, lr_next_priority := pr2,
    lr_prev_bid := cb, lr_prev_ask := ca, lr_pending := lr_pending r @ map (Pair (lm_ts m)) (trade_print sample_lobster_cfg m @ bids @ asks) \<rparr>, True)"
  using assms by (simp add: fillStep_def sample_lobster_cfg_def Let_def)

lemma sample_all:
  assumes "LobsterReader_new sample_files sample_lobster_cfg = Inr r0"
  obtains r where "lobster_all id exact_env r0 = Inr (r, sample_updates)" and "lobster_tape_ok id exact_env r0"
    and "lr_prev_bid r = [(100, 7)]" and "lr_prev_ask r = [(102, 5)]"
proof -
  have p: "deriveOrderbookPath ''A_message_1.csv'' = ''A_orderbook_1.csv''" by (simp add: deriveOrderbookPath_def)
  have r0: "r0 = \<lparr> lr_cfg = sample_lobster_cfg, lr_msg_in = sample_messages, lr_ob_in = sample_orderbook, lr_eof = False, lr_count = 0,
      lr_next_priority = 1, lr_prev_bid = [], lr_prev_ask = [], lr_pending = [] \<rparr>"
    using assms p by (simp add: LobsterReader_new_def open_file_def sample_files_def sample_lobster_cfg_def)
  let ?msg = "''2,4,8,5,10100,-1'' @ [lobster_newline]" and ?ob = "''10200,5,10000,7'' @ [lobster_newline]"
  define r1 where "r1 = r0\<lparr> lr_msg_in := ?msg, lr_ob_in := ?ob, lr_count := 1, lr_next_priority := 3, lr_prev_bid := [(100, 5)], lr_prev_ask := [(101, 5)] \<rparr>"
  define r2 where "r2 = r1\<lparr> lr_msg_in := [], lr_ob_in := [], lr_count := 2, lr_next_priority := 4, lr_prev_bid := [(100, 7)], lr_prev_ask := [(102, 5)] \<rparr>"
  note eval = diffSide_def diff_gone_def kAskOidOffset_def
  have f1: "fillStep id exact_env r0 = Inr (r1\<lparr> lr_pending := take 2 sample_updates \<rparr>, True)"
    by (subst sample_step[OF _ _ _ _ _ _ sample_parsed(1,3) sample_levels(1)])
      ((simp_all add: r0 r1_def sample_lines eval sample_updates_def trade_print_def)+)
  have f2: "fillStep id exact_env r1 = Inr (r2\<lparr> lr_pending := drop 2 sample_updates \<rparr>, True)"
    by (subst sample_step[OF _ _ _ _ _ _ sample_parsed(2,4) sample_levels(2)])
      ((simp_all add: r0 r1_def r2_def sample_lines(2,4)[simplified] eval sample_updates_def trade_print_def)+)
  have f3: "fillStep id exact_env r2 = Inr (r2\<lparr> lr_eof := True \<rparr>, False)"
    by (simp add: fillStep_def r2_def r1_def r0 getline_def sample_lobster_cfg_def)
  have n: "lr_pending r0 = []" "lr_pending r1 = []" "lr_pending r2 = []" "r1\<lparr> lr_pending := [] \<rparr> = r1" "r2\<lparr> lr_pending := [] \<rparr> = r2" by (simp_all add: r2_def r1_def r0)
  have g: "fillStep id exact_env (r1\<lparr> lr_pending := [] \<rparr>) = Inr (r2\<lparr> lr_pending := drop 2 sample_updates \<rparr>, True)"
      "fillStep id exact_env (r2\<lparr> lr_pending := [] \<rparr>) = Inr (r2\<lparr> lr_eof := True \<rparr>, False)"
    by (simp_all only: n f2 f3)
  have "lobster_all id exact_env r0 = Inr (r2\<lparr> lr_eof := True \<rparr>, sample_updates)"
    using f1 g n(1-3) by (simp add: lobster_all.simps lobster_next.simps sample_updates_def)
  moreover have "lobster_step_ok [] [] [(100, 5)] [(101, 5)]" "lobster_step_ok [(100, 5)] [(101, 5)] [(100, 7)] [(102, 5)]"
      "lobster_step_ok [(100, 7)] [(102, 5)] [(100, 7)] [(102, 5)]"
    by (simp_all add: lobster_step_ok_def price_in_window_def ME_MAX_PRICE_LEVELS_def)
  then have "lobster_tape_ok id exact_env r2" "lobster_tape_ok id exact_env r1 \<longleftrightarrow> lobster_tape_ok id exact_env r2"
      "lobster_tape_ok id exact_env r0 \<longleftrightarrow> lobster_tape_ok id exact_env r1"
    unfolding tape_ok_step[OF n(1) f1] tape_ok_step[OF n(2) f2] tape_ok_step[OF n(3) f3] tape_ok_pending by (simp_all add: r2_def r1_def r0)
  then have "lobster_tape_ok id exact_env r0" by simp
  ultimately show ?thesis by (rule that) (simp_all add: r2_def r1_def r0)
qed

lemma lobster_updates_rebuild_snapshots_witness:
  "\<exists>c bids asks. feed (map snd sample_updates) (MarketOrderBook_new 0 (\<lambda>_. None) (\<lambda>_. None)) = Inr c \<and> mb_inv c BUY bids asks
    \<and> level_qtys bids = [100 \<mapsto> 7] \<and> level_qtys asks = [102 \<mapsto> 5]"
proof -
  obtain r0 where n: "LobsterReader_new sample_files sample_lobster_cfg = Inr r0"
    by (simp add: LobsterReader_new_def open_file_def sample_files_def sample_lobster_cfg_def deriveOrderbookPath_def)
  obtain r where r: "lobster_all id exact_env r0 = Inr (r, sample_updates)" "lobster_tape_ok id exact_env r0"
      "lr_prev_bid r = [(100, 7)]" "lr_prev_ask r = [(102, 5)]"
    using sample_all[OF n] by blast
  have "any_order id" "lc_levels sample_lobster_cfg < 65536" by (simp_all add: any_order_def sample_lobster_cfg_def)
  from lobster_updates_rebuild_snapshots[OF this(1) n this(2) r(2,1), of 0] show ?thesis unfolding r(3,4) by simp
qed

end
