(* ===== verification/LatencyHistogram.thy ===== *)
theory LatencyHistogram
  imports Doubles CommonTypes CText "HOL-Library.Word" "HOL-Library.Multiset"
begin

text \<open>
  \<^verbatim>\<open>common/latency_histogram.h\<close>: a histogram whose bucket \<open>i\<close> counts the observations from \<open>2 ^ i\<close> up to \<open>2 ^ (i + 1)\<close>, and its percentiles. The counters
  keep their 64 bits; observations are 64-bit signed integers.
\<close>

section \<open>State and recording\<close>

record LatencyHistogram =
  lh_name :: string
  lh_buckets :: "nat \<Rightarrow> 64 word"
  lh_count :: "64 word"
  lh_sum :: "64 word"
  lh_min :: int
  lh_max :: int

definition LatencyHistogram_new :: "string \<Rightarrow> LatencyHistogram" where
  "LatencyHistogram_new name = \<lparr> lh_name = name, lh_buckets = (\<lambda>_. 0), lh_count = 0, lh_sum = 0, lh_min = 2 ^ 63 - 1, lh_max = 0 \<rparr>"

text \<open>\<open>__builtin_clzll\<close>, for arguments other than zero.\<close>

fun bit_length :: "nat \<Rightarrow> nat" where
  "bit_length n = (if n = 0 then 0 else bit_length (n div 2) + 1)"

declare bit_length.simps [simp del]

definition clzll :: "64 word \<Rightarrow> nat" where
  "clzll w = 64 - bit_length (unat w)"

definition lh_bucket :: "int \<Rightarrow> nat" where
  "lh_bucket value = (if value = 0 then 0 else 63 - clzll (of_int value))"

definition lh_record :: "int \<Rightarrow> LatencyHistogram \<Rightarrow> LatencyHistogram" where
  "lh_record value0 h =
     (let value = (if value0 < 0 then 0 else value0);
          i = lh_bucket value in
      h\<lparr> lh_max := (if value > lh_max h then value else lh_max h),
         lh_min := (if value < lh_min h then value else lh_min h),
         lh_sum := lh_sum h + of_int value,
         lh_count := lh_count h + 1,
         lh_buckets := (lh_buckets h)(i := lh_buckets h i + 1) \<rparr>)"

definition lh_get_min :: "LatencyHistogram \<Rightarrow> int" where
  "lh_get_min h = (if lh_count h \<noteq> 0 then lh_min h else 0)"

definition d_of_u64 :: "fpenv \<Rightarrow> 64 word \<Rightarrow> double" where
  "d_of_u64 e w = fp_rnd e (real (unat w))"

definition lh_mean :: "fpenv \<Rightarrow> LatencyHistogram \<Rightarrow> double" where
  "lh_mean e h = (if lh_count h \<noteq> 0 then fdiv e (d_of_u64 e (lh_sum h)) (d_of_u64 e (lh_count h)) else Fin 0)"

section \<open>Percentiles\<close>

definition d_to_u64 :: "double \<Rightarrow> 64 word result" where
  "d_to_u64 a = (case a of
     Fin x \<Rightarrow> (if 0 \<le> trunc x \<and> trunc x < 2 ^ 64 then Inr (of_int (trunc x)) else Inl ArithmeticUB)
   | _ \<Rightarrow> Inl ArithmeticUB)"

text \<open>\<open>1ULL << i\<close>.\<close>

definition shl1 :: "nat \<Rightarrow> 64 word result" where
  "shl1 i = (if i < 64 then Inr (2 ^ i) else Inl ArithmeticUB)"

text \<open>The value inside of bucket \<open>i\<close>, of which \<open>cumulative\<close> observations are at or below.\<close>

definition percentile_at :: "fpenv \<Rightarrow> LatencyHistogram \<Rightarrow> 64 word \<Rightarrow> nat \<Rightarrow> 64 word \<Rightarrow> int result" where
  "percentile_at e h target i cumulative =
     (if i = 0 then Inr 0
      else
        bindR (shl1 i) (\<lambda>low.
        bindR (shl1 (i + 1)) (\<lambda>high.
        let prev = cumulative - lh_buckets h i;
            frac = (if lh_buckets h i > 0 then fdiv e (d_of_u64 e (target - prev)) (d_of_u64 e (lh_buckets h i)) else Fin 0) in
        d_to_int64 (fadd e (d_of_u64 e low) (fmul e frac (d_of_u64 e (high - low)))))))"

function percentile_loop :: "fpenv \<Rightarrow> LatencyHistogram \<Rightarrow> 64 word \<Rightarrow> nat \<Rightarrow> 64 word \<Rightarrow> int result" where
  "percentile_loop e h target i cumulative0 =
     (if i < 64
      then let cumulative = cumulative0 + lh_buckets h i in
           if cumulative \<ge> target then percentile_at e h target i cumulative
           else percentile_loop e h target (i + 1) cumulative
      else Inr (lh_max h))"
  by pat_completeness auto

termination by (relation "measure (\<lambda>(_, _, _, i, _). 64 - i)") auto

declare percentile_loop.simps [simp del]

definition lh_clamp :: "double \<Rightarrow> double" where
  "lh_clamp p = (let p1 = (if flt p (Fin 0) then Fin 0 else p) in if flt (Fin 1) p1 then Fin 1 else p1)"

definition lh_percentile :: "fpenv \<Rightarrow> LatencyHistogram \<Rightarrow> double \<Rightarrow> int result" where
  "lh_percentile e h p =
     (if lh_count h = 0 then Inr 0
      else bindR (d_to_u64 (fmul e (lh_clamp p) (d_of_u64 e (lh_count h)))) (\<lambda>target. percentile_loop e h target 0 0))"

section \<open>The report\<close>

text \<open>\<open>dumpCsv\<close>, given whether the file could be opened; \<open>print_double\<close> is how a stream prints a \<open>double\<close>.\<close>

definition tag_line :: "string \<Rightarrow> string \<Rightarrow> string" where
  "tag_line tag v = ''# '' @ tag @ '','' @ v @ [CHR 0x0A]"

definition percentile_line :: "fpenv \<Rightarrow> LatencyHistogram \<Rightarrow> string \<times> real \<Rightarrow> string \<Rightarrow> string result" where
  "percentile_line e h = (\<lambda>(tag, p) f. bindR (lh_percentile e h (fp_rnd e p)) (\<lambda>v. Inr (f @ tag_line tag (to_string v))))"

definition bucket_line :: "LatencyHistogram \<Rightarrow> nat \<Rightarrow> string \<Rightarrow> string result" where
  "bucket_line h i f =
     (if lh_buckets h i = 0 then Inr f
      else
        bindR (if i = 0 then Inr 0 else shl1 i) (\<lambda>low.
        bindR (shl1 (i + 1)) (\<lambda>high.
        Inr (f @ dec (unat low) @ '','' @ dec (unat high) @ '','' @ dec (unat (lh_buckets h i)) @ [CHR 0x0A]))))"

definition lh_dumpCsv :: "fpenv \<Rightarrow> (double \<Rightarrow> string) \<Rightarrow> bool \<Rightarrow> LatencyHistogram \<Rightarrow> string option result" where
  "lh_dumpCsv e print_double is_open h =
     (if \<not> is_open then Inr None
      else
        bindR (foldR (percentile_line e h)
                 [(''p50'', 0.50), (''p90'', 0.90), (''p99'', 0.99), (''p999'', 0.999), (''p9999'', 0.9999)]
                 (tag_line ''tag'' (lh_name h) @ tag_line ''count'' (dec (unat (lh_count h))) @ tag_line ''min'' (to_string (lh_get_min h))
                  @ tag_line ''max'' (to_string (lh_max h)) @ tag_line ''mean'' (print_double (lh_mean e h)))) (\<lambda>head.
        bindR (foldR (bucket_line h) [0..<64] (head @ ''bucket_low,bucket_high,count'' @ [CHR 0x0A])) (\<lambda>f. Inr (Some f))))"

section \<open>Buckets\<close>

lemma bit_length_bounds: "0 < n \<Longrightarrow> 0 < bit_length n \<and> 2 ^ (bit_length n - 1) \<le> n \<and> n < 2 ^ bit_length n"
proof (induction n rule: bit_length.induct)
  case (1 n)
  show ?case
  proof (cases "n = 1")
    case True
    then show ?thesis by (simp add: bit_length.simps)
  next
    case False
    then have m: "0 < n div 2" "bit_length n = bit_length (n div 2) + 1" using 1(2) by (auto simp: bit_length.simps[of n])
    then have "2 ^ (bit_length (n div 2) - 1) \<le> n div 2" "n div 2 < 2 ^ bit_length (n div 2)" "0 < bit_length (n div 2)" using 1 by auto
    moreover from this(3) have "(2::nat) ^ bit_length (n div 2) = 2 * 2 ^ (bit_length (n div 2) - 1)" by (simp flip: power_Suc)
    moreover have "k \<le> n div 2 \<Longrightarrow> 2 * k \<le> n" "n div 2 < k \<Longrightarrow> n < 2 * k" for k by linarith+
    from this(2)[of "2 * 2 ^ (bit_length (n div 2) - 1)"] this(1) calculation show ?thesis using m by simp
  qed
qed

lemma bit_length_64:
  assumes "0 < n" and "n < 2 ^ 63"
  shows "bit_length n \<le> 63"
proof (rule ccontr)
  assume "\<not> bit_length n \<le> 63"
  then have "(2::nat) ^ 63 \<le> 2 ^ (bit_length n - 1)" by (intro power_increasing) auto
  then show False using bit_length_bounds[OF assms(1)] assms(2) by linarith
qed

text \<open>Bucket \<open>i\<close> holds the values below \<open>2 ^ (i + 1)\<close> that are not in a lower one; the zeros share the lowest bucket with the ones.\<close>

lemma lh_bucket_less: "0 \<le> v \<Longrightarrow> v < 2 ^ 63 \<Longrightarrow> lh_bucket v < i \<longleftrightarrow> 0 < i \<and> v < 2 ^ i"
proof (cases "v = 0")
  case False
  assume v: "0 \<le> v" "v < 2 ^ 63"
  let ?n = "nat v"
  have n: "0 < ?n" "?n < 2 ^ 63" using v False by (auto simp: nat_less_iff)
  have "unat (of_int v :: 64 word) = ?n" using v by (simp add: unsigned_of_int take_bit_int_eq_self)
  then have b: "lh_bucket v = bit_length ?n - 1" using bit_length_64[OF n] bit_length_bounds[OF n(1)] False
    by (auto simp: lh_bucket_def clzll_def)
  note bb = bit_length_bounds[OF n(1)]
  have "?n < 2 ^ i \<longleftrightarrow> bit_length ?n \<le> i"
  proof
    assume "?n < 2 ^ i"
    then have "(2::nat) ^ (bit_length ?n - 1) < 2 ^ i" using bb by linarith
    then show "bit_length ?n \<le> i" using bb by simp
  next
    assume "bit_length ?n \<le> i"
    then have "(2::nat) ^ bit_length ?n \<le> 2 ^ i" by (rule power_increasing) simp
    then show "?n < 2 ^ i" using bb by linarith
  qed
  moreover have "?n < 2 ^ i \<longleftrightarrow> v < 2 ^ i" using v by (simp add: nat_less_iff)
  moreover have "bit_length ?n \<le> i \<longleftrightarrow> 0 < i \<and> bit_length ?n - 1 < i" using bb by linarith
  ultimately show ?thesis using b by auto
qed (simp add: lh_bucket_def)

section \<open>What is recorded\<close>

definition observed :: "int list \<Rightarrow> int list" where
  "observed xs = map (max 0) xs"

definition lh_of :: "string \<Rightarrow> int list \<Rightarrow> LatencyHistogram" where
  "lh_of name xs = foldl (\<lambda>h x. lh_record x h) (LatencyHistogram_new name) xs"

lemma lh_of_snoc: "lh_of name (xs @ [x]) = lh_record x (lh_of name xs)"
  by (simp add: lh_of_def)

lemma clip: "(if x < 0 then 0 else x) = max 0 (x::int)"
  by auto

lemma lh_of_counts: "lh_count (lh_of name xs) = of_nat (length xs)"
  and lh_of_buckets: "lh_buckets (lh_of name xs) i = of_nat (length (filter (\<lambda>v. lh_bucket v = i) (observed xs)))"
  and lh_of_sum: "lh_sum (lh_of name xs) = of_int (sum_list (observed xs))"
proof (induction xs rule: rev_induct)
  case (snoc x xs)
  note eqs = lh_of_snoc lh_record_def Let_def clip observed_def
  { case 1 show ?case using snoc(1) by (simp add: eqs) }
  { case 2 show ?case using snoc(2) by (auto simp: eqs) }
  { case 3 show ?case using snoc(3) by (simp add: eqs) }
qed (simp_all add: lh_of_def LatencyHistogram_new_def observed_def)

lemma lh_of_extremes:
  "lh_max (lh_of name xs) = Max (set (0 # observed xs))"
  "lh_min (lh_of name xs) = Min (set ((2 ^ 63 - 1) # observed xs))"
proof (induction xs rule: rev_induct)
  case (snoc x xs)
  have s: "set (k # observed (xs @ [x])) = insert (max 0 x) (set (k # observed xs))" for k by (auto simp: observed_def)
  { case 1
    have "lh_max (lh_of name (xs @ [x])) = max (max 0 x) (lh_max (lh_of name xs))" by (simp add: lh_of_snoc lh_record_def Let_def clip max_def)
    then show ?case unfolding s snoc(1) by (subst Max_insert) (simp_all del: list.set(2) add: list.set(2)[THEN arg_cong[where f = finite]]) }
  { case 2
    have "lh_min (lh_of name (xs @ [x])) = min (max 0 x) (lh_min (lh_of name xs))" by (simp add: lh_of_snoc lh_record_def Let_def clip) linarith
    then show ?case unfolding s snoc(2) by (subst Min_insert) (simp_all del: list.set(2) add: list.set(2)[THEN arg_cong[where f = finite]]) }
qed (simp_all add: lh_of_def LatencyHistogram_new_def observed_def)

section \<open>Accuracy of the percentiles\<close>

text \<open>How many observations are in the buckets below \<open>i\<close>.\<close>

definition below :: "int list \<Rightarrow> nat \<Rightarrow> nat" where
  "below vs i = length (filter (\<lambda>v. lh_bucket v < i) vs)"

lemma below_Suc: "below vs (Suc i) = below vs i + length (filter (\<lambda>v. lh_bucket v = i) vs)"
  by (induction vs) (auto simp: below_def less_Suc_eq)

lemma below_0 [simp]: "below vs 0 = 0"
  by (simp add: below_def)

lemma below_le: "below vs i \<le> length vs"
  by (simp add: below_def)

lemma sorted_nth_less: "sorted ys \<Longrightarrow> k < length ys \<Longrightarrow> ys ! k < b \<longleftrightarrow> k < length (filter (\<lambda>v. v < b) ys)" for ys :: "int list"
proof (induction ys arbitrary: k)
  case (Cons y ys)
  show ?case
  proof (cases "y < b")
    case True
    then show ?thesis using Cons by (cases k) auto
  next
    case False
    then have "filter (\<lambda>v. v < b) (y # ys) = []" using Cons.prems(1) by (auto simp: filter_empty_conv)
    moreover have "y \<le> (y # ys) ! k" using Cons.prems by (cases k) auto
    ultimately show ?thesis using False by simp
  qed
qed simp

lemma bucket_of_rank:
  assumes vs: "list_all (\<lambda>v. 0 \<le> v \<and> v < 2 ^ 63) vs" and k: "below vs i < t" "t \<le> below vs (Suc i)"
  shows "lh_bucket (sort vs ! (t - 1)) = i"
proof -
  have t: "t - 1 < length vs" using k below_le[of vs "Suc i"] by linarith
  then have "sort vs ! (t - 1) \<in> set vs" by (metis length_sort nth_mem set_sort)
  then have v: "0 \<le> sort vs ! (t - 1)" "sort vs ! (t - 1) < 2 ^ 63" using vs by (auto simp: list_all_iff)
  have *: "lh_bucket (sort vs ! (t - 1)) < j \<longleftrightarrow> t - 1 < below vs j" if "0 < j" for j
  proof -
    have "below vs j = length (filter (\<lambda>v. v < 2 ^ j) vs)" unfolding below_def
      by (rule arg_cong[where f = length], rule filter_cong) (use vs that in \<open>auto simp: list_all_iff lh_bucket_less\<close>)
    also have "\<dots> = length (filter (\<lambda>v. v < 2 ^ j) (sort vs))" by (metis mset_filter mset_sort size_mset)
    finally show ?thesis using sorted_nth_less[of "sort vs" "t - 1" "2 ^ j"] t v that by (simp add: lh_bucket_less)
  qed
  have "\<not> lh_bucket (sort vs ! (t - 1)) < i" using *[of i] k by (cases i) auto
  moreover have "lh_bucket (sort vs ! (t - 1)) < Suc i" using *[of "Suc i"] k by simp
  ultimately show ?thesis by simp
qed

text \<open>The loop stops in the bucket of the observation of rank \<open>target\<close>.\<close>

lemma percentile_loop_finds:
  assumes h: "\<And>j. unat (lh_buckets h j) = length (filter (\<lambda>v. lh_bucket v = j) vs)" and n: "length vs < 2 ^ 64"
  shows "i \<le> 64 \<Longrightarrow> unat cum = below vs i \<Longrightarrow> below vs i < unat target \<Longrightarrow> unat target \<le> below vs 64 \<Longrightarrow>
    \<exists>k cum'. k < 64 \<and> below vs k < unat target \<and> unat target \<le> below vs (Suc k) \<and> unat cum' = below vs (Suc k)
      \<and> percentile_loop e h target i cum = percentile_at e h target k cum'"
proof (induction "64 - i" arbitrary: i cum)
  case (Suc m)
  then have i: "i < 64" by simp
  let ?c = "cum + lh_buckets h i"
  have "below vs i + length (filter (\<lambda>v. lh_bucket v = i) vs) < 2 ^ 64" using below_le[of vs "Suc i"] n by (simp add: below_Suc)
  then have c: "unat ?c = below vs (Suc i)" using Suc.prems(2) h[of i] by (simp add: unat_add_lem[THEN iffD1] below_Suc)
  show ?case
  proof (cases "target \<le> ?c")
    case True
    then have "percentile_loop e h target i cum = percentile_at e h target i ?c" using i by (simp add: percentile_loop.simps[of e h target i] Let_def)
    moreover have "unat target \<le> below vs (Suc i)" using True c by (simp add: word_le_nat_alt)
    ultimately show ?thesis using i c Suc.prems(3) by blast
  next
    case False
    then have "percentile_loop e h target i cum = percentile_loop e h target (Suc i) ?c" using i by (simp add: percentile_loop.simps[of e h target i] Let_def)
    moreover have "below vs (Suc i) < unat target" using False c by (simp add: word_le_nat_alt)
    ultimately show ?thesis using Suc.hyps(1)[of "Suc i" ?c] Suc.hyps(2) i c Suc.prems(4) by simp
  qed
qed simp

lemma d_of_u64_exact: "rounds_well e \<Longrightarrow> unat w \<le> 2 ^ 53 \<Longrightarrow> d_of_u64 e w = Fin (real (unat w))"
  unfolding d_of_u64_def by (rule rnd_nat)

lemma trunc_between: "real_of_int a \<le> y \<Longrightarrow> y \<le> real_of_int b \<Longrightarrow> 0 \<le> a \<Longrightarrow> a \<le> trunc y \<and> trunc y \<le> b"
  by (auto simp: trunc_def le_floor_iff floor_le_iff)

text \<open>The value interpolated in bucket \<open>k\<close> stays inside of it, its upper bound included.\<close>

lemma percentile_at_bounds:
  assumes e: "rounds_well e" and k: "0 < k" "k \<le> 52" and b: "unat (lh_buckets h k) \<le> 2 ^ 53"
    and t: "unat cum = c + unat (lh_buckets h k)" "c < unat target" "unat target \<le> unat cum"
  shows "\<exists>v. percentile_at e h target k cum = Inr v \<and> 2 ^ k \<le> v \<and> v \<le> 2 ^ (k + 1)"
proof -
  let ?b = "lh_buckets h k"
  define d where "d = unat target - c"
  define m where "m = unat ?b"
  have d: "unat (target - (cum - ?b)) = d" "d \<le> m" "0 < m" "m \<le> 2 ^ 53" "0 < ?b"
  proof -
    have "?b \<le> cum" using t by (simp add: word_le_nat_alt)
    then have p: "unat (cum - ?b) = c" using t by (simp add: unat_sub)
    then have "cum - ?b \<le> target" using t by (simp add: word_le_nat_alt)
    then show "unat (target - (cum - ?b)) = d" using p by (simp add: unat_sub d_def)
  qed (use t b in \<open>auto simp: d_def m_def word_less_nat_alt\<close>)
  have pow: "(2::nat) ^ k \<le> 2 ^ 52" "(2::nat) ^ (k + 1) \<le> 2 ^ 53" using k by (intro power_increasing; simp)+
  have "unat (of_nat (2 ^ k) :: 64 word) = 2 ^ k" using k by (simp only: unsigned_of_nat) (simp add: take_bit_nat_eq_self)
  then have "unat (2 ^ k :: 64 word) = 2 ^ k" by simp
  then have lo: "d_of_u64 e (2 ^ k) = Fin (2 ^ k)" using d_of_u64_exact[OF e, of "2 ^ k"] pow by simp
  have hl: "(2 ^ (k + 1) - 2 ^ k :: 64 word) = 2 ^ k" by simp
  have "\<exists>f. fdiv e (d_of_u64 e (target - (cum - ?b))) (d_of_u64 e ?b) = Fin f \<and> 0 \<le> f \<and> f \<le> 1"
  proof -
    have "d \<le> 2 ^ 53" using d by linarith
    then have "d_of_u64 e (target - (cum - ?b)) = Fin (real d)" "d_of_u64 e ?b = Fin (real m)"
      unfolding d_of_u64_def d(1) m_def[symmetric] using rnd_nat[OF e] d(4) by simp_all
    then show ?thesis using rnd_between[OF e, of 0 "real d / real m" 1] d by simp
  qed
  then obtain f where f: "fdiv e (d_of_u64 e (target - (cum - ?b))) (d_of_u64 e ?b) = Fin f" "0 \<le> f" "f \<le> 1" by blast
  have ik: "\<bar>2 ^ k\<bar> \<le> (2 ^ 53 :: int)" "\<bar>2 ^ (k + 1)\<bar> \<le> (2 ^ 53 :: int)"
    using k power_increasing[of k 53 "2::int"] power_increasing[of "k + 1" 53 "2::int"] by simp_all
  have "f * 2 ^ k \<le> 2 ^ k" "0 \<le> f * 2 ^ k" using f by (simp_all add: mult_left_le_one_le)
  then obtain y where y: "fp_rnd e (f * 2 ^ k) = Fin y" "0 \<le> y" "y \<le> 2 ^ k" using rnd_between[OF e, of 0 "f * 2 ^ k" "2 ^ k"] ik by auto
  then obtain z where z: "fp_rnd e (2 ^ k + y) = Fin z" "2 ^ k \<le> z" "z \<le> 2 ^ (k + 1)"
    using rnd_between[OF e, of "2 ^ k" "2 ^ k + y" "2 ^ (k + 1)"] ik by auto
  have "2 ^ k \<le> trunc z" "trunc z \<le> 2 ^ (k + 1)" using trunc_between[of "2 ^ k" z "2 ^ (k + 1)"] z by simp_all
  moreover have "(2 ^ 53 :: int) < 2 ^ 63" by simp
  then have "trunc z < 2 ^ 63" using calculation ik by linarith
  moreover have "- (2 ^ 63) \<le> trunc z" using order_trans[OF zero_le_power[of "2::int" k] calculation(1)] by simp
  moreover have "percentile_at e h target k cum = int64 (trunc z)"
    using k d(5) f(1) lo hl y(1) z(1) by (simp add: percentile_at_def shl1_def Let_def d_to_int64_def)
  ultimately show ?thesis by auto
qed

lemma lh_of_bucket_nat:
  assumes "length xs < 2 ^ 64"
  shows "unat (lh_buckets (lh_of name xs) i) = length (filter (\<lambda>v. lh_bucket v = i) (observed xs))"
proof -
  have "length (filter (\<lambda>v. lh_bucket v = i) (observed xs)) \<le> length xs" by (metis length_filter_le length_map observed_def)
  then show ?thesis using assms by (simp only: lh_of_buckets unsigned_of_nat) (simp add: take_bit_nat_eq_self)
qed

lemma lh_target:
  assumes e: "rounds_well e" and n: "n \<le> 2 ^ 53"
  shows "\<exists>t. d_to_u64 (fmul e (lh_clamp (Fin p)) (d_of_u64 e (of_nat n))) = Inr t \<and> unat t \<le> n"
proof -
  have "unat (of_nat n :: 64 word) = n" using n by (simp only: unsigned_of_nat) (simp add: take_bit_nat_eq_self)
  then have c: "d_of_u64 e (of_nat n) = Fin (real n)" using d_of_u64_exact[OF e, of "of_nat n"] n by simp
  define q where "q = (if p < 0 then 0 else if 1 < p then 1 else p)"
  have q: "lh_clamp (Fin p) = Fin q" "0 \<le> q" "q \<le> 1" by (auto simp: lh_clamp_def q_def Let_def)
  have "q * real n \<le> real n" "0 \<le> q * real n" using q by (simp_all add: mult_left_le_one_le)
  then obtain y where y: "fp_rnd e (q * real n) = Fin y" "0 \<le> y" "y \<le> real n"
    using rnd_between[OF e, of 0 "q * real n" "int n"] n by auto
  have t: "0 \<le> trunc y" "trunc y \<le> int n" using trunc_between[of 0 y "int n"] y by simp_all
  have "unat (of_int (trunc y) :: 64 word) = nat (trunc y)" using t n by (simp add: unsigned_of_int take_bit_int_eq_self)
  moreover have "d_to_u64 (fmul e (lh_clamp (Fin p)) (d_of_u64 e (of_nat n))) = Inr (of_int (trunc y))"
    using t n q c y(1) by (simp add: d_to_u64_def)
  ultimately show ?thesis using t by auto
qed

section \<open>Properties\<close>

text \<open>The histogram is a faithful summary of what was recorded: the number of observations, the number in each bucket, the smallest and the largest, where a negative
  observation counts as zero; and bucket \<open>i\<close> above the lowest holds the values from \<open>2 ^ i\<close> up to, not including, \<open>2 ^ (i + 1)\<close>.
\<close>

theorem histogram_summarises:
  assumes "xs \<noteq> []" and "length xs < 2 ^ 64" and "list_all (\<lambda>x. x < 2 ^ 63) xs"
  shows "unat (lh_count (lh_of name xs)) = length xs
    \<and> unat (lh_buckets (lh_of name xs) i) = length (filter (\<lambda>v. if i = 0 then v < 2 else 2 ^ i \<le> v \<and> v < 2 ^ (i + 1)) (observed xs))
    \<and> lh_get_min (lh_of name xs) = Min (set (observed xs)) \<and> lh_max (lh_of name xs) = Max (set (observed xs))"
proof (intro conjI)
  show c: "unat (lh_count (lh_of name xs)) = length xs"
    using assms(2) by (simp only: lh_of_counts unsigned_of_nat) (simp add: take_bit_nat_eq_self)
  have v: "0 \<le> v \<and> v < 2 ^ 63" if "v \<in> set (observed xs)" for v using that assms(3) by (auto simp: observed_def list_all_iff)
  have "lh_bucket v = i \<longleftrightarrow> (if i = 0 then v < 2 else 2 ^ i \<le> v \<and> v < 2 ^ (i + 1))" if "v \<in> set (observed xs)" for v
    using lh_bucket_less[of v i] lh_bucket_less[of v "Suc i"] v[OF that] by (auto simp: less_Suc_eq)
  then show "unat (lh_buckets (lh_of name xs) i) = length (filter (\<lambda>v. if i = 0 then v < 2 else 2 ^ i \<le> v \<and> v < 2 ^ (i + 1)) (observed xs))"
    unfolding lh_of_bucket_nat[OF assms(2)] by (intro arg_cong[where f = length] filter_cong) auto
  have ne: "set (observed xs) \<noteq> {}" using assms(1) by (simp add: observed_def)
  have "lh_count (lh_of name xs) \<noteq> 0" using c assms(1) by (metis length_0_conv unsigned_0)
  moreover have "Min (set (observed xs)) \<in> set (observed xs)" using ne by (intro Min_in) simp_all
  then have "Min (set (observed xs)) \<le> 2 ^ 63 - 1" using v by fastforce
  ultimately show "lh_get_min (lh_of name xs) = Min (set (observed xs))" using ne by (simp add: lh_get_min_def lh_of_extremes min_absorb2 del: Min_le_iff)
  have "Max (set (observed xs)) \<in> set (observed xs)" using ne by (intro Max_in) simp_all
  then have "0 \<le> Max (set (observed xs))" using v by blast
  then show "lh_max (lh_of name xs) = Max (set (observed xs))" using ne by (simp add: lh_of_extremes max_def)
qed

lemma histogram_summarises_witness:
  "unat (lh_count (lh_of ''latency'' [5, -3, 12])) = 3 \<and> unat (lh_buckets (lh_of ''latency'' [5, -3, 12]) 2) = 1
    \<and> lh_get_min (lh_of ''latency'' [5, -3, 12]) = 0 \<and> lh_max (lh_of ''latency'' [5, -3, 12]) = 12"
  using histogram_summarises[of "[5, -3, 12]" "''latency''" 2] by (simp add: observed_def)

text \<open>C36: A percentile of at least one and at most \<open>2 ^ 53\<close> recorded values, each below \<open>2 ^ 53\<close>, is within a factor of two of an observation: for the target rank \<open>t\<close>, the integer part of the
  clamped \<open>p\<close> times the number of observations, the result is 0 when \<open>t\<close> is 0 or the \<open>t\<close>-th smallest observation is 0 or 1; otherwise the result is at most twice
  that observation and more than half of it. No conversion or shift on the way is undefined, for any finite \<open>p\<close>.
\<close>

theorem percentile_within_factor_two:
  assumes e: "rounds_well e" and xs: "length xs \<le> 2 ^ 53" "list_all (\<lambda>x. x < 2 ^ 53) xs" and ne: "xs \<noteq> []"
  shows "\<exists>t r. d_to_u64 (fmul e (lh_clamp (Fin p)) (d_of_u64 e (of_nat (length xs)))) = Inr t \<and> unat t \<le> length xs
    \<and> lh_percentile e (lh_of name xs) (Fin p) = Inr r
    \<and> (let v = sort (observed xs) ! (unat t - 1) in if t = 0 \<or> v \<le> 1 then r = 0 else r \<le> 2 * v \<and> v < 2 * r)"
proof -
  let ?vs = "observed xs" and ?h = "lh_of name xs"
  obtain t where t: "d_to_u64 (fmul e (lh_clamp (Fin p)) (d_of_u64 e (of_nat (length xs)))) = Inr t" "unat t \<le> length xs"
    using lh_target[OF e xs(1)] by blast
  have n: "length xs < 2 ^ 64" "length ?vs = length xs" using xs(1) by (simp_all add: observed_def)
  have v: "0 \<le> v \<and> v < 2 ^ 53" if "v \<in> set ?vs" for v using that xs(2) by (auto simp: observed_def list_all_iff)
  then have v63: "0 \<le> v \<and> v < 2 ^ 63" if "v \<in> set ?vs" for v using that by fastforce
  have "lh_count ?h \<noteq> 0"
  proof -
    have "unat (lh_count ?h) = length xs" using n by (simp only: lh_of_counts unsigned_of_nat) (simp add: take_bit_nat_eq_self)
    then show ?thesis using ne by (metis length_0_conv unsigned_0)
  qed
  then have p: "lh_percentile e ?h (Fin p) = percentile_loop e ?h t 0 0" using t by (simp add: lh_percentile_def lh_of_counts)
  show ?thesis
  proof (cases "t = 0")
    case True
    then have "percentile_loop e ?h t 0 0 = Inr 0" by (simp add: percentile_loop.simps[of e ?h 0 0] percentile_at_def)
    then show ?thesis using t p True by auto
  next
    case False
    have "below ?vs 64 = length xs" unfolding below_def using v63 n(2) by (subst filter_True) (force simp: lh_bucket_less)+
    then obtain k cum where k: "below ?vs k < unat t" "unat t \<le> below ?vs (Suc k)" "unat cum = below ?vs (Suc k)"
        "percentile_loop e ?h t 0 0 = percentile_at e ?h t k cum"
      using percentile_loop_finds[of ?h ?vs 0 0 t e] lh_of_bucket_nat[OF n(1)] n t(2) False by (auto simp: unat_gt_0)
    let ?v = "sort ?vs ! (unat t - 1)"
    have bv: "lh_bucket ?v = k" using bucket_of_rank[OF _ k(1,2)] v63 by (auto simp: list_all_iff)
    have "0 < unat t" using False by (simp add: unat_gt_0)
    then have "unat t - 1 < length (sort ?vs)" using t(2) n(2) by (simp only: length_sort)
    then have "?v \<in> set ?vs" by (metis nth_mem set_sort)
    note vb = v[OF this] v63[OF this]
    then have less: "k < j \<longleftrightarrow> 0 < j \<and> ?v < 2 ^ j" for j using lh_bucket_less[of ?v j] bv by simp
    show ?thesis
    proof (cases "k = 0")
      case True
      then have "?v \<le> 1" using less[of 1] by simp
      then show ?thesis using True t p k(4) by (auto simp: percentile_at_def Let_def)
    next
      case False
      have range: "2 ^ k \<le> ?v" "?v < 2 ^ (k + 1)" "k \<le> 52" using less[of k] less[of "k + 1"] less[of 53] vb False by auto
      have one: "2 \<le> (2::int) ^ k" using False power_increasing[of 1 k "2::int"] by simp
      have cum: "unat cum = below ?vs k + unat (lh_buckets ?h k)" using k(3) lh_of_bucket_nat[OF n(1)] by (simp add: below_Suc)
      have b: "unat (lh_buckets ?h k) \<le> 2 ^ 53" using cum k(3) below_le[of ?vs "Suc k"] n xs(1) by linarith
      have "unat t \<le> unat cum" using k by simp
      from percentile_at_bounds[OF e _ range(3) b cum k(1) this] False obtain r where
        "percentile_at e ?h t k cum = Inr r" "2 ^ k \<le> r" "r \<le> 2 ^ (k + 1)" by auto
      then show ?thesis using t p k(4) range one \<open>t \<noteq> 0\<close> by (intro exI[of _ t] exI[of _ r]) (auto simp: Let_def)
    qed
  qed
qed

lemma percentile_within_factor_two_witness:
  "\<exists>r. lh_percentile exact_env (lh_of ''latency'' [1000, 100, 200]) (Fin (2 / 3)) = Inr r \<and> r \<le> 400 \<and> 200 < 2 * r"
proof -
  have "(3::64 word) \<noteq> 0" "d_to_u64 (Fin 2) = Inr 2" by (simp_all add: d_to_u64_def trunc_def)
  then show ?thesis
    using percentile_within_factor_two[OF exact_rounds_well, of "[1000, 100, 200]" "2 / 3" "''latency''"]
    by (auto simp: observed_def d_of_u64_def lh_clamp_def Let_def)
qed

text \<open>The largest observation makes the interpolation leave the range of \<open>int64_t\<close>.\<close>

theorem percentile_of_largest_value_undefined:
  "lh_percentile exact_env (lh_of ''latency'' [2 ^ 63 - 1]) (Fin 1) = Inl ArithmeticUB"
proof -
  let ?v = "2 ^ 63 - 1 :: int" and ?h = "lh_of ''latency'' [2 ^ 63 - 1]"
  have o: "observed [?v] = [?v]" by (simp add: observed_def)
  have b: "lh_bucket ?v = 62" using lh_bucket_less[of ?v 62] lh_bucket_less[of ?v 63] by simp
  have h: "lh_count ?h = 1" "lh_buckets ?h 62 = 1" using b by (simp_all only: lh_of_counts lh_of_buckets o) simp_all
  obtain k cum where k: "below [?v] k < 1" "1 \<le> below [?v] (Suc k)" "unat cum = below [?v] (Suc k)"
      "percentile_loop exact_env ?h 1 0 0 = percentile_at exact_env ?h 1 k cum"
    using percentile_loop_finds[of ?h "[?v]" 0 0 1 exact_env] lh_of_bucket_nat[of "[?v]"] o b by (auto simp: below_def)
  have "k = 62" using bucket_of_rank[OF _ k(1,2)] b by simp
  then have "cum = 1" using k(3) b by (simp add: below_def word_unat_eq_iff)
  then have "percentile_loop exact_env ?h 1 0 0 = Inl ArithmeticUB"
    using k(4) h(2) \<open>k = 62\<close> by (simp add: percentile_at_def shl1_def d_of_u64_def d_to_int64_def trunc_def int64_def)
  then show ?thesis using h(1) by (simp add: lh_percentile_def d_of_u64_def lh_clamp_def d_to_u64_def trunc_def)
qed

end
