(* ===== verification/BacktestMain.thy ===== *)
theory BacktestMain
  imports TapeReader LobsterReader
begin

text \<open>
  \<^verbatim>\<open>backtest/backtest_main.cpp\<close> and the constructor and \<open>run\<close> of \<^verbatim>\<open>backtest_engine.cpp\<close> as the program composes them: the command line, the
  environment, the reader of the tape and the loop. The operating system is a set of parameters: the arguments, the environment,
  the files, the values the clock returns, and the contents of memory that is never initialised.
\<close>

section \<open>Configuration\<close>

record BacktestConfig =
  bc_strategy_label :: string
  bc_pnl_csv_path :: string
  bc_ticker_id :: TickerId
  bc_cfg :: TradeEngineCfg
  bc_tape :: TapeConfig

definition BacktestConfig_default :: "fpenv \<Rightarrow> BacktestConfig" where
  "BacktestConfig_default e = \<lparr> bc_strategy_label = [], bc_pnl_csv_path = [], bc_ticker_id = 0,
     bc_cfg = TradeEngineCfg_default e, bc_tape = TapeConfig_default \<rparr>"

text \<open>The strategy parameters, arguments 7 to 20.\<close>

definition parse_strategy :: "fpenv \<Rightarrow> string list \<Rightarrow> TradeEngineCfg \<Rightarrow> TradeEngineCfg result" where
  "parse_strategy e argv c =
     bindR (arg_int argv 7) (\<lambda>clip. bindR (arg_double e argv 8) (\<lambda>threshold.
     bindR (arg_int argv 9) (\<lambda>max_order. bindR (arg_int argv 10) (\<lambda>max_pos. bindR (arg_double e argv 11) (\<lambda>loss.
     bindR (arg_int argv 12) (\<lambda>use_as. bindR (arg_double e argv 13) (\<lambda>gamma. bindR (arg_double e argv 14) (\<lambda>kappa.
     bindR (arg_double e argv 15) (\<lambda>session_hours.
     bindR (arg_int argv 16) (\<lambda>use_ofi. bindR (arg_double e argv 17) (\<lambda>beta_ofi. bindR (arg_int argv 18) (\<lambda>hyst.
     bindR (arg_int argv 19) (\<lambda>use_adaptive_clip. bindR (arg_double e argv 20) (\<lambda>sigma_ref.
     Inr (c\<lparr> cfg_clip := of_int clip, cfg_threshold := threshold,
             cfg_risk := \<lparr> max_order_size = of_int max_order, max_position = of_int max_pos, max_loss = loss \<rparr>,
             cfg_use_as := (use_as \<noteq> 0), cfg_gamma := gamma, cfg_kappa := kappa, cfg_session_hours := session_hours,
             cfg_use_ofi := (use_ofi \<noteq> 0), cfg_beta_ofi := beta_ofi, cfg_hysteresis_ticks := hyst,
             cfg_use_adaptive_clip := (use_adaptive_clip \<noteq> 0), cfg_sigma_ref := sigma_ref \<rparr>)))))))))))))))"

definition parse_args :: "fpenv \<Rightarrow> string list \<Rightarrow> BacktestConfig result" where
  "parse_args e argv =
     (let d = BacktestConfig_default e in
      bindR (argument argv 1) (\<lambda>label. bindR (argument argv 2) (\<lambda>pnl. bindR (argument argv 3) (\<lambda>path. bindR (argument argv 4) (\<lambda>fmt.
      bindR (arg_double e argv 5) (\<lambda>tick_size. bindR (arg_int argv 6) (\<lambda>ticker.
      bindR (parse_strategy e argv (bc_cfg d)) (\<lambda>c.
      bindR (if length argv \<ge> 22 then bindR (argument argv 21) (\<lambda>s. Inr (strtoull s)) else Inr (tc_max_events (bc_tape d))) (\<lambda>max_events.
      Inr \<lparr> bc_strategy_label = label, bc_pnl_csv_path = pnl, bc_ticker_id = of_int ticker, bc_cfg = c,
            bc_tape = (bc_tape d)\<lparr> tc_path := path, tc_format := fmt, tc_tick_size := tick_size, tc_max_events := max_events \<rparr> \<rparr>)))))))))"

text \<open>The overrides of the environment, in the order of the code.\<close>

definition env_bool :: "(bool \<Rightarrow> TradeEngineCfg \<Rightarrow> TradeEngineCfg) \<Rightarrow> string \<Rightarrow> TradeEngineCfg \<Rightarrow> TradeEngineCfg result" where
  "env_bool upd s c = bindR (atoi s) (\<lambda>v. Inr (upd (v \<noteq> 0) c))"

definition env_double :: "fpenv \<Rightarrow> (double \<Rightarrow> TradeEngineCfg \<Rightarrow> TradeEngineCfg) \<Rightarrow> string \<Rightarrow> TradeEngineCfg \<Rightarrow> TradeEngineCfg result" where
  "env_double e upd s c = Inr (upd (atof e s) c)"

definition env_overrides :: "fpenv \<Rightarrow> (string \<times> (string \<Rightarrow> TradeEngineCfg \<Rightarrow> TradeEngineCfg result)) list" where
  "env_overrides e =
     [(''MAKER_REBATE_BPS'', env_double e (\<lambda>v c. c\<lparr> cfg_maker_rebate_bps := v \<rparr>)),
      (''EWMA_DECAY'', env_double e (\<lambda>v c. c\<lparr> cfg_ewma_decay := v \<rparr>)),
      (''EWMA_DECAY_LONG'', env_double e (\<lambda>v c. c\<lparr> cfg_ewma_decay_long := v \<rparr>)),
      (''OFI_DECAY'', env_double e (\<lambda>v c. c\<lparr> cfg_ofi_decay := v \<rparr>)),
      (''VOL_BOOTSTRAP'', \<lambda>s c. Inr (c\<lparr> cfg_vol_bootstrap := strtoull s \<rparr>)),
      (''SPREAD_WIDEN_OFI'', env_double e (\<lambda>v c. c\<lparr> cfg_spread_widen_ofi := v \<rparr>)),
      (''USE_KILLSWITCH'', env_bool (\<lambda>v c. c\<lparr> cfg_use_killswitch := v \<rparr>)),
      (''KILLSWITCH_OFI'', env_double e (\<lambda>v c. c\<lparr> cfg_killswitch_ofi := v \<rparr>)),
      (''KILLSWITCH_MICRO_TICKS'', env_double e (\<lambda>v c. c\<lparr> cfg_killswitch_micro_ticks := v \<rparr>)),
      (''USE_REGIME_GAMMA'', env_bool (\<lambda>v c. c\<lparr> cfg_use_regime_gamma := v \<rparr>)),
      (''REGIME_GAMMA_SCALE'', env_double e (\<lambda>v c. c\<lparr> cfg_regime_gamma_scale := v \<rparr>)),
      (''USE_STOIKOV_MICRO'', env_bool (\<lambda>v c. c\<lparr> cfg_use_stoikov_micro := v \<rparr>)),
      (''USE_VPIN'', env_bool (\<lambda>v c. c\<lparr> cfg_use_vpin := v \<rparr>)),
      (''VPIN_BUCKET_SIZE'', env_double e (\<lambda>v c. c\<lparr> cfg_vpin_bucket_size := v \<rparr>)),
      (''VPIN_THRESHOLD'', env_double e (\<lambda>v c. c\<lparr> cfg_vpin_threshold := v \<rparr>)),
      (''VPIN_WIDEN_MULT'', env_double e (\<lambda>v c. c\<lparr> cfg_vpin_widen_mult := v \<rparr>)),
      (''VPIN_KILL_SCALE'', env_double e (\<lambda>v c. c\<lparr> cfg_vpin_kill_scale := v \<rparr>))]"

definition env_override :: "(string \<Rightarrow> string option) \<Rightarrow> string \<times> (string \<Rightarrow> TradeEngineCfg \<Rightarrow> TradeEngineCfg result) \<Rightarrow> TradeEngineCfg \<Rightarrow> TradeEngineCfg result" where
  "env_override getenv = (\<lambda>(name, f) c. case getenv name of None \<Rightarrow> Inr c | Some s \<Rightarrow> f s c)"

definition apply_env :: "fpenv \<Rightarrow> (string \<Rightarrow> string option) \<Rightarrow> BacktestConfig \<Rightarrow> BacktestConfig result" where
  "apply_env e getenv bc = bindR (foldR (env_override getenv) (env_overrides e) (bc_cfg bc)) (\<lambda>c. Inr (bc\<lparr> bc_cfg := c \<rparr>))"

section \<open>Construction and run\<close>

text \<open>What the program runs in: memory before it is written, files, clock, and the order of hash maps.\<close>

record machine =
  mc_vwaps :: "nat \<Rightarrow> nat \<Rightarrow> double"
  mc_ids :: "nat \<Rightarrow> nat \<Rightarrow> ptr"
  mc_levels :: "nat \<Rightarrow> nat \<Rightarrow> ptr"
  mc_start :: int
  mc_clock :: "nat \<Rightarrow> int"
  mc_files :: "string \<Rightarrow> string option"
  mc_arrange :: "levels \<Rightarrow> levels"

datatype tape_source = FromTape TapeReader | FromLobster LobsterReader

definition LobsterConfig_of :: "BacktestConfig \<Rightarrow> LobsterConfig" where
  "LobsterConfig_of bc = \<lparr> lc_message_path = tc_path (bc_tape bc), lc_ticker_id = bc_ticker_id bc, lc_levels = 10,
     lc_max_events = tc_max_events (bc_tape bc) \<rparr>"

definition bt_construct :: "fpenv \<Rightarrow> machine \<Rightarrow> BacktestConfig \<Rightarrow> (BacktestEngine \<times> tape_source) result" where
  "bt_construct e mc bc =
     bindR (BacktestEngine_new e (mc_vwaps mc) (mc_ids mc) (mc_levels mc) (mc_start mc) (bc_ticker_id bc) (bc_cfg bc)) (\<lambda>bt.
     if tc_format (bc_tape bc) = ''lobster''
     then bindR (LobsterReader_new (mc_files mc) (LobsterConfig_of bc)) (\<lambda>r. Inr (bt, FromLobster r))
     else bindR (TapeReader_new (mc_files mc) (bc_tape bc)) (\<lambda>r. Inr (bt, FromTape r)))"

fun bt_run_source :: "fpenv \<Rightarrow> machine \<Rightarrow> BacktestEngine \<times> tape_source \<Rightarrow> BacktestEngine result" where
  "bt_run_source e mc (bt, FromTape r) = bt_run_tape e (mc_clock mc) r bt"
| "bt_run_source e mc (bt, FromLobster r) = bt_run_lobster_tape (mc_arrange mc) e (mc_clock mc) r bt"

text \<open>The exit code, and the engine at the end of a run.\<close>

definition bt_main :: "fpenv \<Rightarrow> machine \<Rightarrow> (string \<Rightarrow> string option) \<Rightarrow> string list \<Rightarrow> (int \<times> BacktestEngine option) result" where
  "bt_main e mc getenv argv =
     (if length argv < 20 then Inr (1, None)
      else
        bindR (parse_args e argv) (\<lambda>bc0.
        bindR (apply_env e getenv bc0) (\<lambda>bc.
        bindR (bt_construct e mc bc) (\<lambda>s.
        bindR (bt_run_source e mc s) (\<lambda>bt. Inr (0, Some bt))))))"

section \<open>What the configuration keeps\<close>

text \<open>No override touches the risk limits.\<close>

lemma env_override_risk:
  assumes "nf \<in> set (env_overrides e)" and "env_override getenv nf c = Inr c'"
  shows "cfg_risk c' = cfg_risk c"
  using assms unfolding env_overrides_def
  by (auto simp: env_override_def env_double_def env_bool_def bindR_eq_Inr split: option.splits)

lemma foldR_risk:
  "(\<And>nf c c'. nf \<in> set fs \<Longrightarrow> f nf c = Inr c' \<Longrightarrow> cfg_risk c' = cfg_risk c) \<Longrightarrow> foldR f fs c = Inr c' \<Longrightarrow> cfg_risk c' = cfg_risk c"
proof (induction fs arbitrary: c)
  case (Cons nf fs)
  then obtain c1 where c1: "f nf c = Inr c1" "foldR f fs c1 = Inr c'" by (auto simp: bindR_eq_Inr)
  have "cfg_risk c' = cfg_risk c1" by (rule Cons.IH[OF _ c1(2)]) (use Cons.prems(1) in auto)
  then show ?case using Cons.prems(1)[OF _ c1(1)] by simp
qed simp

lemma apply_env_keeps: "apply_env e getenv bc = Inr bc' \<Longrightarrow> cfg_risk (bc_cfg bc') = cfg_risk (bc_cfg bc) \<and> bc_ticker_id bc' = bc_ticker_id bc \<and> bc_tape bc' = bc_tape bc"
  using foldR_risk[of "env_overrides e" "env_override getenv"] env_override_risk[of _ e getenv]
  by (auto simp: apply_env_def bindR_eq_Inr)

lemma parse_args_risk:
  assumes "parse_args e argv = Inr bc"
  shows "\<exists>t m p l. arg_int argv 6 = Inr t \<and> bc_ticker_id bc = of_int t \<and> arg_int argv 9 = Inr m \<and> arg_int argv 10 = Inr p
    \<and> cfg_risk (bc_cfg bc) = \<lparr> max_order_size = of_int m, max_position = of_int p, max_loss = l \<rparr>"
  using assms by (auto simp: parse_args_def parse_strategy_def bindR_eq_Inr Let_def)

text \<open>The usage check of the program is off by one: with exactly 19 arguments it is passed, and the program then reads the null pointer behind the last
  argument; it never completes. With fewer arguments it prints the usage and fails.
\<close>

theorem missing_argument_not_caught:
  assumes "length argv \<le> 20"
  shows "if length argv < 20 then bt_main e mc getenv argv = Inr (1, None) else \<exists>err. bt_main e mc getenv argv = Inl err"
proof (cases "length argv < 20")
  case False
  then have "arg_double e argv 20 = Inl NullDeref" using assms by (simp add: arg_double_def argument_def)
  then have "parse_args e argv \<noteq> Inr bc" for bc by (auto simp: parse_args_def parse_strategy_def bindR_eq_Inr Let_def)
  then show ?thesis using False by (cases "parse_args e argv") (auto simp: bt_main_def)
qed (simp add: bt_main_def)

text \<open>A machine with one file.\<close>

definition sample_machine :: "string \<Rightarrow> machine" where
  "sample_machine tape = \<lparr> mc_vwaps = (\<lambda>_ _. Fin 0), mc_ids = (\<lambda>_ _. None), mc_levels = (\<lambda>_ _. None), mc_start = 0, mc_clock = (\<lambda>_. 0),
     mc_files = (\<lambda>_. None)(''tape.csv'' := Some tape), mc_arrange = id \<rparr>"

lemma missing_argument_not_caught_witness:
  "\<exists>err. bt_main exact_env (sample_machine []) (\<lambda>_. None) (replicate 20 ''1'') = Inl err"
  using missing_argument_not_caught[of "replicate 20 ''1''" exact_env "sample_machine []" "\<lambda>_. None"] by simp

end
