(* ===== verification/BacktestMainTheorems.thy ===== *)
theory BacktestMainTheorems
  imports BacktestTheorems TapeTheorems BacktestMain
begin

text \<open>The backtest program as a whole: what its command line promises of the position.\<close>

lemma between_source:
  assumes "bt_run_source e mc (bt, src) = Inr bt'" and "bt_between rm bt"
  shows "bt_between rm bt'"
proof (cases src)
  case (FromTape r)
  then obtain evs s where "tape_all e r = Inr evs" "foldR (bt_event e (mc_clock mc)) evs (bt, 0) = Inr s" "bt_finish e s = Inr bt'"
    using assms(1) bt_loop_events by (fastforce simp: bt_run_tape_def bindR_eq_Inr)
  then have "bt_run e (mc_clock mc) evs bt = Inr bt'" by (simp add: bt_run_def)
  then show ?thesis using assms(2) by (rule run_between(1))
next
  case (FromLobster r)
  then obtain ups s where "foldR (lobster_event e (mc_clock mc)) ups (bt, 0) = Inr s" "bt_finish e s = Inr bt'"
    using assms(1) lobster_loop_events by (fastforce simp: bt_run_lobster_tape_def bindR_eq_Inr)
  then have "bt_runLobster e (mc_clock mc) ups bt = Inr bt'" by (simp add: bt_runLobster_def)
  then show ?thesis using assms(2) by (rule run_between(2))
qed

lemma bt_construct_new:
  "bt_construct e mc bc = Inr (bt, src) \<Longrightarrow>
   BacktestEngine_new e (mc_vwaps mc) (mc_ids mc) (mc_levels mc) (mc_start mc) (bc_ticker_id bc) (bc_cfg bc) = Inr bt"
  by (auto simp: bt_construct_def bindR_eq_Inr split: if_splits)

text \<open>C30: When the backtest program runs to its end, on whatever tape (a file of top-of-book snapshots and trades, the synthetic walk, or a pair of order-book files),
  with whatever environment overrides, the position of its ticker is within the eleventh word of the command line, and no message is left in its queues.
\<close>

theorem backtest_program_position_limit:
  assumes run: "bt_main e mc getenv argv = Inr (code, Some bt)"
    and args: "arg_int argv 6 = Inr ticker" "arg_int argv 9 = Inr max_order" "0 \<le> max_order" "arg_int argv 10 = Inr max_pos" "0 \<le> max_pos"
  shows "\<bar>position_of (te_position_keeper (bt_engine bt)) (unat (of_int ticker :: TickerId))\<bar> \<le> max_pos
    \<and> lf_contents (te_outgoing_ogw_requests (bt_engine bt)) = [] \<and> lf_contents (te_incoming_ogw_responses (bt_engine bt)) = []"
proof -
  obtain bc0 bc bt0 src where s: "parse_args e argv = Inr bc0" "apply_env e getenv bc0 = Inr bc" "bt_construct e mc bc = Inr (bt0, src)"
      "bt_run_source e mc (bt0, src) = Inr bt"
    using run by (auto simp: bt_main_def bindR_eq_Inr split: if_splits)
  obtain l where risk: "cfg_risk (bc_cfg bc) = \<lparr> max_order_size = of_int max_order, max_position = of_int max_pos, max_loss = l \<rparr>"
      and ticker: "bc_ticker_id bc = of_int ticker"
    using parse_args_risk[OF s(1)] apply_env_keeps[OF s(2)] args by auto
  note order = arg_int_word[OF args(2,3)] and pos = arg_int_word[OF args(4,5)]
  note new = new_backtest[OF bt_construct_new[OF s(3)]]
  have "bt_between (RiskManager_new ((\<lambda>_. TradeEngineCfg_default e)(unat (bc_ticker_id bc) := bc_cfg bc))) bt0 \<and> unat (bc_ticker_id bc) < ME_MAX_TICKERS"
    by (rule new) (use risk order pos args(5) in simp_all)
  from between_position[OF between_source[OF s(4)], of e "bc_ticker_id bc" "bc_cfg bc"] this show ?thesis
    using risk pos ticker by simp
qed

section \<open>A run of the program\<close>

definition sample_argv :: "string list" where
  "sample_argv = [''backtest'', ''baseline'', ''pnl.csv'', ''tape.csv'', ''binance'', ''1'', ''0'', ''10'', ''0'', ''100'', ''50'', ''-1000'',
     ''0'', ''0.1'', ''1.5'', ''6.5'', ''0'', ''0'', ''0'', ''0'', ''1'']"

definition sample_program_tape :: string where
  "sample_program_tape = concat (map (\<lambda>ev. csv_line ev @ [newline]) [BookTop sample_top, Trade sample_print])"

lemmas number_eval = is_space_def digit_val_def scan_int_def scan_point_def scan_exponent_def to_lower_def starts_with_def scan_real_def
  signed_def Let_def atoi_def atof_def int32_def

lemma sample_numbers:
  "atoi ''0'' = Inr 0" "atoi ''10'' = Inr 10" "atoi ''100'' = Inr 100" "atoi ''50'' = Inr 50"
  "atof exact_env ''0'' = Fin 0" "atof exact_env ''1'' = Fin 1" "atof exact_env ''-1000'' = Fin (- 1000)" "atof exact_env ''0.1'' = Fin (1 / 10)"
  "atof exact_env ''1.5'' = Fin (15 / 10)" "atof exact_env ''6.5'' = Fin (65 / 10)"
  by (simp_all add: number_eval)

definition sample_config :: BacktestConfig where
  "sample_config = \<lparr> bc_strategy_label = ''baseline'', bc_pnl_csv_path = ''pnl.csv'', bc_ticker_id = 0, bc_cfg = sample_cfg 0,
     bc_tape = sample_tape_cfg \<rparr>"

lemma sample_parse_args: "parse_args exact_env sample_argv = Inr sample_config"
  by (simp add: parse_args_def parse_strategy_def arg_int_def arg_double_def argument_def sample_argv_def sample_numbers
      sample_config_def sample_cfg_def TradeEngineCfg_default_def sample_tape_cfg_def TapeConfig_default_def BacktestConfig_default_def eval_nat_numeral)

lemma sample_program_reader:
  obtains r where "TapeReader_new (mc_files (sample_machine sample_program_tape)) sample_tape_cfg = Inr r"
    and "tape_all exact_env r = Inr [BookTop sample_top, Trade sample_print]"
proof -
  obtain r where r: "TapeReader_new (mc_files (sample_machine sample_program_tape)) sample_tape_cfg = Inr r"
      and f: "rd_cfg r = sample_tape_cfg" "\<not> rd_eof r" "rd_in r = sample_program_tape"
    by (simp add: TapeReader_new_def sample_machine_def sample_tape_cfg_def TapeConfig_default_def)
  have cfg: "tc_format sample_tape_cfg = ''binance''" "tc_tick_size sample_tape_cfg = Fin 1" "tc_qty_step sample_tape_cfg = Fin 1"
      "tc_max_events sample_tape_cfg = 0"
    by (simp_all add: sample_tape_cfg_def TapeConfig_default_def)
  have ok: "list_all csv_ok [BookTop sample_top, Trade sample_print]" by (simp add: csv_ok_def price_ok_def sample_top_def sample_print_def)
  show ?thesis by (rule that[OF r tape_all_csv[OF exact_rounds_well cfg ok f(1,2)]]) (simp only: f(3) sample_program_tape_def)
qed

lemma sample_program_run:
  "\<exists>bt. bt_main exact_env (sample_machine sample_program_tape) (\<lambda>_. None) sample_argv = Inr (0, Some bt)
     \<and> position_of (te_position_keeper (bt_engine bt)) 0 = 5"
proof -
  let ?mc = "sample_machine sample_program_tape"
  obtain r where r: "TapeReader_new (mc_files ?mc) sample_tape_cfg = Inr r" "tape_all exact_env r = Inr [BookTop sample_top, Trade sample_print]"
    by (rule sample_program_reader)
  obtain bt where bt: "bt_run exact_env (\<lambda>_. 0) [BookTop sample_top, Trade sample_print] sample_bt = Inr bt"
      "position_of (te_position_keeper (bt_engine bt)) 0 = 5"
    using sample_bt_run by blast
  have "foldR (env_override (\<lambda>_. None)) fs c = Inr c" for fs c by (induction fs) (auto simp: env_override_def split_beta)
  then have "apply_env exact_env (\<lambda>_. None) sample_config = Inr sample_config" by (simp add: apply_env_def)
  moreover have "bt_construct exact_env ?mc sample_config = Inr (sample_bt, FromTape r)"
    using sample_bt_eq r(1) unfolding sample_bt_construct_def
    by (simp add: bt_construct_def sample_config_def sample_machine_def sample_tape_cfg_def)
  moreover have "bt_run_source exact_env ?mc (sample_bt, FromTape r) = Inr bt"
    using bt(1) bt_loop_tape[OF r(2)] by (simp add: bt_run_tape_def bt_run_def sample_machine_def)
  moreover have "length sample_argv = 21" by (simp add: sample_argv_def)
  ultimately have "bt_main exact_env ?mc (\<lambda>_. None) sample_argv = Inr (0, Some bt)" by (simp add: bt_main_def sample_parse_args)
  then show ?thesis using bt(2) by blast
qed

lemma backtest_program_position_limit_witness:
  "\<exists>bt. bt_main exact_env (sample_machine sample_program_tape) (\<lambda>_. None) sample_argv = Inr (0, Some bt)
     \<and> position_of (te_position_keeper (bt_engine bt)) 0 = 5 \<and> lf_contents (te_outgoing_ogw_requests (bt_engine bt)) = []"
proof -
  obtain bt where bt: "bt_main exact_env (sample_machine sample_program_tape) (\<lambda>_. None) sample_argv = Inr (0, Some bt)"
      "position_of (te_position_keeper (bt_engine bt)) 0 = 5"
    using sample_program_run by blast
  have a: "arg_int sample_argv 6 = Inr 0" "arg_int sample_argv 9 = Inr 100" "arg_int sample_argv 10 = Inr 50"
    by (simp_all add: arg_int_def argument_def sample_argv_def sample_numbers eval_nat_numeral)
  from backtest_program_position_limit[OF bt(1) a(1,2) _ a(3)] bt show ?thesis by auto
qed

end
