(* ===== verification/Logging.thy ===== *)
theory Logging
  imports LFQueue CText
begin

text \<open>
  \<^verbatim>\<open>common/logging.h\<close> and \<^verbatim>\<open>common/opt_logging.h\<close>: \<open>log\<close> cuts a format with its arguments into elements on a ring, from which a thread writes the text of
  the file. The two loggers differ in how a string argument is queued: one element for each character, or one block of at most 255
  characters. How a stream prints a \<open>float\<close> or \<open>double\<close> is the parameter \<open>print_fp\<close>. The strings are C strings: they end before the first
  null character.
\<close>

section \<open>Elements\<close>

text \<open>\<open>LogElement\<close>: the tag and the member of the union it selects. \<open>STRING\<close> exists in the optimised logger only.\<close>

datatype LogElement =
    Log_CHAR char
  | INTEGER int
  | LONG_INTEGER int
  | LONG_LONG_INTEGER int
  | UNSIGNED_INTEGER nat
  | UNSIGNED_LONG_INTEGER nat
  | UNSIGNED_LONG_LONG_INTEGER nat
  | FLOAT double
  | DOUBLE double
  | STRING string

text \<open>An argument of \<open>log\<close>, by the overload of \<open>pushValue\<close> it selects.\<close>

datatype log_arg = Value LogElement | Text string

definition c_str :: "string \<Rightarrow> string" where
  "c_str s = takeWhile (\<lambda>c. c \<noteq> CHR 0x00) s"

type_synonym log_queue = "LogElement LFQueue"

section \<open>Producers\<close>

primrec pushValue :: "log_arg \<Rightarrow> log_queue \<Rightarrow> log_queue" where
  "pushValue (Value x) q = lf_push q x"
| "pushValue (Text s) q = foldl (\<lambda>q c. lf_push q (Log_CHAR c)) q (c_str s)"

text \<open>The optimised overload: \<open>strncpy\<close> of at most 255 characters into one element.\<close>

primrec opt_pushValue :: "log_arg \<Rightarrow> log_queue \<Rightarrow> log_queue" where
  "opt_pushValue (Value x) q = lf_push q x"
| "opt_pushValue (Text s) q = lf_push q (STRING (take 255 (c_str s)))"

text \<open>The overloads of \<open>log\<close>, with and without arguments; \<open>push\<close> is the logger's \<open>pushValue\<close>.\<close>

fun log_with :: "(log_arg \<Rightarrow> log_queue \<Rightarrow> log_queue) \<Rightarrow> string \<Rightarrow> log_arg list \<Rightarrow> log_queue \<Rightarrow> log_queue result" where
  "log_with push [] [] q = Inr q"
| "log_with push [] (a # as) q = FATAL ''extra arguments provided to log()''"
| "log_with push (c # s) args q =
     (if c = CHR ''%''
      then if s \<noteq> [] \<and> hd s = CHR ''%''
           then log_with push (tl s) args (lf_push q (Log_CHAR (CHR ''%'')))
           else (case args of
                   [] \<Rightarrow> FATAL ''missing arguments to log()''
                 | a # as \<Rightarrow> log_with push s as (push a q))
      else log_with push s args (lf_push q (Log_CHAR c)))"

definition logger_log :: "string \<Rightarrow> log_arg list \<Rightarrow> log_queue \<Rightarrow> log_queue result" where
  "logger_log = log_with pushValue"

definition opt_log :: "string \<Rightarrow> log_arg list \<Rightarrow> log_queue \<Rightarrow> log_queue result" where
  "opt_log = log_with opt_pushValue"

section \<open>The thread that writes the file\<close>

primrec print_element :: "(double \<Rightarrow> string) \<Rightarrow> LogElement \<Rightarrow> string" where
  "print_element print_fp (Log_CHAR c) = [c]"
| "print_element print_fp (INTEGER i) = to_string i"
| "print_element print_fp (LONG_INTEGER i) = to_string i"
| "print_element print_fp (LONG_LONG_INTEGER i) = to_string i"
| "print_element print_fp (UNSIGNED_INTEGER n) = dec n"
| "print_element print_fp (UNSIGNED_LONG_INTEGER n) = dec n"
| "print_element print_fp (UNSIGNED_LONG_LONG_INTEGER n) = dec n"
| "print_element print_fp (FLOAT d) = print_fp d"
| "print_element print_fp (DOUBLE d) = print_fp d"
| "print_element print_fp (STRING s) = s"

text \<open>\<open>flushQueue\<close> until the ring is empty, or until \<open>running_\<close> is cleared after \<open>k\<close> elements.\<close>

fun flushQueue :: "(double \<Rightarrow> string) \<Rightarrow> nat \<Rightarrow> log_queue \<Rightarrow> string \<Rightarrow> (log_queue \<times> string) result" where
  "flushQueue print_fp 0 q out = Inr (q, out)"
| "flushQueue print_fp (Suc k) q out =
     (case getNextToRead q of
        None \<Rightarrow> Inr (q, out)
      | Some x \<Rightarrow> bindR (updateReadIndex q) (\<lambda>q'. flushQueue print_fp k q' (out @ print_element print_fp x)))"

section \<open>The elements of a message\<close>

primrec arg_elements :: "log_arg \<Rightarrow> LogElement list" where
  "arg_elements (Value x) = [x]"
| "arg_elements (Text s) = map Log_CHAR (c_str s)"

primrec opt_arg_elements :: "log_arg \<Rightarrow> LogElement list" where
  "opt_arg_elements (Value x) = [x]"
| "opt_arg_elements (Text s) = [STRING (take 255 (c_str s))]"

fun log_elements :: "(log_arg \<Rightarrow> LogElement list) \<Rightarrow> string \<Rightarrow> log_arg list \<Rightarrow> LogElement list result" where
  "log_elements f [] [] = Inr []"
| "log_elements f [] (a # as) = FATAL ''extra arguments provided to log()''"
| "log_elements f (c # s) args =
     (if c = CHR ''%''
      then if s \<noteq> [] \<and> hd s = CHR ''%''
           then bindR (log_elements f (tl s) args) (\<lambda>xs. Inr (Log_CHAR (CHR ''%'') # xs))
           else (case args of
                   [] \<Rightarrow> FATAL ''missing arguments to log()''
                 | a # as \<Rightarrow> bindR (log_elements f s as) (\<lambda>xs. Inr (f a @ xs)))
      else bindR (log_elements f s args) (\<lambda>xs. Inr (Log_CHAR c # xs)))"

lemma foldl_push_map: "foldl (\<lambda>q c. lf_push q (Log_CHAR c)) q s = foldl lf_push q (map Log_CHAR s)"
  by (induction s arbitrary: q) simp_all

lemma pushes: "pushValue a q = foldl lf_push q (arg_elements a)" "opt_pushValue a q = foldl lf_push q (opt_arg_elements a)"
  by (cases a; simp add: foldl_push_map)+

lemma bindR_FATAL [simp]: "bindR (FATAL m) f = FATAL m"
  by (simp add: FATAL_def)

lemma log_with_elements:
  assumes "\<And>a q. push a q = foldl lf_push q (f a)"
  shows "log_with push s args q = bindR (log_elements f s args) (\<lambda>xs. Inr (foldl lf_push q xs))"
  using assms by (induction push s args q rule: log_with.induct) (auto simp: split: list.splits)

lemmas logger_elements = log_with_elements[of pushValue arg_elements, OF pushes(1), folded logger_log_def]
lemmas opt_elements = log_with_elements[of opt_pushValue opt_arg_elements, OF pushes(2), folded opt_log_def]

lemma flushQueue_contents:
  assumes "lf_inv q"
  shows "\<exists>q'. flushQueue print_fp k q out = Inr (q', out @ concat (map (print_element print_fp) (take k (lf_contents q))))
    \<and> lf_inv q' \<and> lf_contents q' = drop k (lf_contents q) \<and> lf_capacity q' = lf_capacity q"
  using assms
proof (induction k arbitrary: q out)
  case (Suc k)
  show ?case
  proof (cases "lf_contents q")
    case (Cons x xs)
    then obtain q1 where q1: "getNextToRead q = Some x" "updateReadIndex q = Inr q1" "lf_inv q1" "lf_contents q1 = xs" "lf_capacity q1 = lf_capacity q"
      using lq.forward_one[OF Suc.prems] by blast
    then show ?thesis using Suc.IH[OF q1(3), of "out @ print_element print_fp x"] Cons by simp
  qed (use Suc.prems in \<open>simp add: getNextToRead_contents\<close>)
qed simp

section \<open>Formats\<close>

text \<open>
  A format as its author means it: a literal text, and for each placeholder the literal behind it. A literal writes \<open>%\<close> as \<open>%%\<close>. Behind a
  placeholder a literal must not begin with \<open>%\<close>, and two placeholders must not be adjacent: there \<open>%%\<close> would be read as the escape.
\<close>

definition escape :: "string \<Rightarrow> string" where
  "escape l = concat (map (\<lambda>c. if c = CHR ''%'' then ''%%'' else [c]) l)"

definition template :: "string \<Rightarrow> string list \<Rightarrow> string" where
  "template l0 ls = escape l0 @ concat (map (\<lambda>l. CHR ''%'' # escape l) ls)"

definition separated :: "string list \<Rightarrow> bool" where
  "separated ls \<longleftrightarrow> list_all (\<lambda>l. l \<noteq> []) (butlast ls) \<and> list_all (\<lambda>l. l = [] \<or> hd l \<noteq> CHR ''%'') ls"

lemma escape_simps [simp]: "escape [] = []" "escape (c # l) = (if c = CHR ''%'' then ''%%'' else [c]) @ escape l"
  by (simp_all add: escape_def)

lemma log_elements_literal: "log_elements f (escape l @ s) args = bindR (log_elements f s args) (\<lambda>xs. Inr (map Log_CHAR l @ xs))"
  by (induction l) simp_all

lemma template_Cons: "template l0 (l # ls) = escape l0 @ CHR ''%'' # template l ls"
  by (simp add: template_def)

lemma template_hd:
  assumes "separated (l # ls)"
  shows "template l ls = [] \<or> hd (template l ls) \<noteq> CHR ''%''"
  using assms by (cases l; cases ls) (auto simp: separated_def template_def)

lemma separated_tl: "separated (l # ls) \<Longrightarrow> separated ls"
  by (cases ls) (auto simp: separated_def)

lemma placeholder:
  assumes "separated (l # ls)"
  shows "log_elements f (CHR ''%'' # template l ls) args =
    (case args of [] \<Rightarrow> FATAL ''missing arguments to log()'' | a # as \<Rightarrow> bindR (log_elements f (template l ls) as) (\<lambda>xs. Inr (f a @ xs)))"
  using template_hd[OF assms] by auto

lemma template_elements:
  "separated ls \<Longrightarrow> log_elements f (template l0 ls) args =
    (if length args < length ls then FATAL ''missing arguments to log()''
     else if length ls < length args then FATAL ''extra arguments provided to log()''
     else Inr (map Log_CHAR l0 @ concat (map2 (\<lambda>a l. f a @ map Log_CHAR l) args ls)))"
proof (induction ls arbitrary: l0 args)
  case Nil
  have "template l0 [] = escape l0 @ []" by (simp add: template_def)
  then show ?case by (cases args) (simp_all only: log_elements_literal, simp_all)
next
  case (Cons l ls)
  show ?case
    using Cons.IH[OF separated_tl[OF Cons.prems], of l] placeholder[OF Cons.prems, of f]
    by (cases args) (simp_all add: template_Cons log_elements_literal)
qed

section \<open>Properties\<close>

text \<open>The text an argument stands for.\<close>

primrec arg_text :: "(double \<Rightarrow> string) \<Rightarrow> log_arg \<Rightarrow> string" where
  "arg_text print_fp (Value x) = print_element print_fp x"
| "arg_text print_fp (Text s) = c_str s"

definition message_text :: "(double \<Rightarrow> string) \<Rightarrow> string \<Rightarrow> string list \<Rightarrow> log_arg list \<Rightarrow> string" where
  "message_text print_fp l0 ls args = l0 @ concat (map2 (\<lambda>a l. arg_text print_fp a @ l) args ls)"

lemma print_chars: "concat (map (print_element print_fp) (map Log_CHAR l)) = l"
  by (induction l) simp_all

lemma print_message:
  assumes "\<And>a. a \<in> set args \<Longrightarrow> concat (map (print_element print_fp) (f a)) = arg_text print_fp a"
  shows "concat (map (print_element print_fp) (map Log_CHAR l0 @ concat (map2 (\<lambda>a l. f a @ map Log_CHAR l) args ls)))
    = message_text print_fp l0 ls args"
  using assms
proof (induction args arbitrary: ls l0)
  case Nil
  then show ?case by (simp add: message_text_def print_chars[unfolded map_map])
next
  case (Cons a args)
  show ?case
    using Cons.IH[of "[]" "tl ls"] Cons.prems print_chars[of print_fp]
    by (cases ls) (simp_all add: message_text_def)
qed

lemma print_arg: "concat (map (print_element print_fp) (arg_elements a)) = arg_text print_fp a"
  by (cases a) (simp_all only: arg_elements.simps arg_text.simps print_chars, simp)

lemma push_and_flush:
  assumes inv: "lf_inv q" and room: "num_elements q + length xs \<le> lf_capacity q"
  shows "\<exists>q1 q2. foldl lf_push q xs = q1 \<and> lf_contents q1 = lf_contents q @ xs \<and> lf_inv q1
    \<and> flushQueue print_fp (lf_size q1) q1 out = Inr (q2, out @ concat (map (print_element print_fp) (lf_contents q @ xs))) \<and> lf_contents q2 = []"
proof -
  let ?q = "foldl lf_push q xs"
  have q: "lf_inv ?q" "lf_contents ?q = lf_contents q @ xs" using lq.push_all[OF inv, of xs] room by simp_all
  then have "lf_size ?q = length (lf_contents q @ xs)" by (metis length_lf_contents lf_size_def)
  then show ?thesis using flushQueue_contents[OF q(1), of print_fp "lf_size ?q" out] q by auto
qed

text \<open>C38: A message reaches the log file as it was meant: for a format with as many placeholders as arguments, \<open>log\<close> returns, and after the writing thread has emptied the
  ring, which had room for the elements of the message, the file ends with what was queued before and then the literals with the printed arguments in
  place of the placeholders, \<open>%%\<close> giving \<open>%\<close>.
\<close>

theorem logger_writes_message:
  assumes inv: "lf_inv q" and ls: "separated ls" "length args = length ls"
    and room: "num_elements q + length l0 + length (concat ls) + length (concat (map arg_elements args)) \<le> lf_capacity q"
  shows "\<exists>q1 q2. logger_log (template l0 ls) args q = Inr q1
    \<and> flushQueue print_fp (lf_size q1) q1 out = Inr (q2, out @ concat (map (print_element print_fp) (lf_contents q)) @ message_text print_fp l0 ls args)
    \<and> lf_contents q2 = []"
proof -
  let ?xs = "map Log_CHAR l0 @ concat (map2 (\<lambda>a l. arg_elements a @ map Log_CHAR l) args ls)"
  have "length (concat (map2 (\<lambda>a l. arg_elements a @ map Log_CHAR l) args ls)) = length (concat ls) + length (concat (map arg_elements args))"
    using ls(2) by (induction args ls rule: list_induct2) simp_all
  then have "num_elements q + length ?xs \<le> lf_capacity q" using room by simp
  from push_and_flush[OF inv this, of print_fp out] obtain q2 where
    q2: "flushQueue print_fp (lf_size (foldl lf_push q ?xs)) (foldl lf_push q ?xs) out
        = Inr (q2, out @ concat (map (print_element print_fp) (lf_contents q @ ?xs)))" "lf_contents q2 = []" by blast
  moreover have "logger_log (template l0 ls) args q = Inr (foldl lf_push q ?xs)"
    using ls by (simp add: logger_elements template_elements)
  moreover have "concat (map (print_element print_fp) ?xs) = message_text print_fp l0 ls args"
    by (rule print_message) (rule print_arg)
  ultimately show ?thesis by auto
qed

lemma logger_writes_message_witness:
  "\<exists>q1 q2. logger_log ''100%% % of %'' [Value (INTEGER (- 7)), Text ''ok''] (LFQueue_new 64 (Log_CHAR (CHR ''x''))) = Inr q1
    \<and> flushQueue (\<lambda>_. []) (lf_size q1) q1 ''>'' = Inr (q2, ''>100% -7 of ok'') \<and> lf_contents q2 = []"
proof -
  let ?q = "LFQueue_new 64 (Log_CHAR (CHR ''x''))"
  have q: "lf_inv ?q" "lf_contents ?q = []" "num_elements ?q = 0" "lf_capacity ?q = 64"
    using lf_new_inv[of 64 "Log_CHAR (CHR ''x'')"] by simp_all (simp_all add: LFQueue_new_def)
  have t: "template ''100% '' ['' of '', []] = ''100%% % of %''" by (simp add: template_def)
  have m: "message_text (\<lambda>_. []) ''100% '' ['' of '', []] [Value (INTEGER (- 7)), Text ''ok''] = ''100% -7 of ok''"
    by code_simp
  show ?thesis
    using logger_writes_message[OF q(1), of "['' of '', []]" "[Value (INTEGER (- 7)), Text ''ok'']" "''100% ''" "\<lambda>_. []" "''>''"] q m
    unfolding t by (simp add: separated_def c_str_def)
qed

text \<open>A format with more placeholders than arguments, or fewer, ends the process, in both loggers.\<close>

theorem log_argument_mismatch_is_fatal:
  assumes "separated ls" and "length args \<noteq> length ls"
  shows "logger_log (template l0 ls) args q = FATAL (if length args < length ls then ''missing arguments to log()'' else ''extra arguments provided to log()'')
    \<and> opt_log (template l0 ls) args q = FATAL (if length args < length ls then ''missing arguments to log()'' else ''extra arguments provided to log()'')"
  using assms by (simp add: logger_elements opt_elements template_elements)

lemma log_argument_mismatch_is_fatal_witness:
  "logger_log ''a % b'' [] (LFQueue_new 8 (Log_CHAR (CHR ''x''))) = FATAL ''missing arguments to log()''"
proof -
  have "template ''a '' ['' b''] = ''a % b''" by (simp add: template_def)
  then show ?thesis using log_argument_mismatch_is_fatal[of "['' b'']" "[]" "''a ''" "LFQueue_new 8 (Log_CHAR (CHR ''x''))"] by (simp add: separated_def)
qed

definition short_text :: "log_arg \<Rightarrow> bool" where
  "short_text a = (case a of Value _ \<Rightarrow> True | Text s \<Rightarrow> length (c_str s) \<le> 255)"

lemma opt_print_arg: "short_text a \<Longrightarrow> concat (map (print_element print_fp) (opt_arg_elements a)) = arg_text print_fp a"
  by (cases a) (simp_all add: short_text_def)

abbreviation text_of :: "(double \<Rightarrow> string) \<Rightarrow> LogElement list \<Rightarrow> string" where
  "text_of print_fp xs \<equiv> concat (map (print_element print_fp) xs)"

lemma same_text:
  assumes "\<And>a. short_text a \<Longrightarrow> text_of print_fp (f a) = text_of print_fp (g a)"
  shows "(\<exists>e. log_elements f s args = Inl e \<and> log_elements g s args = Inl e)
    \<or> (\<exists>xs ys. log_elements f s args = Inr xs \<and> log_elements g s args = Inr ys \<and> (list_all short_text args \<longrightarrow> text_of print_fp xs = text_of print_fp ys))"
  using assms
proof (induction f s args rule: log_elements.induct)
  case (3 f c s args)
  show ?case
  proof (cases "c = CHR ''%'' \<and> \<not> (s \<noteq> [] \<and> hd s = CHR ''%'')")
    case True
    then show ?thesis using 3(2)[OF _ _ _ 3(4)] 3(4) by (cases args) (auto simp: FATAL_def)
  next
    case False
    then show ?thesis using 3(1)[OF _ _ 3(4)] 3(3)[OF _ 3(4)] by (cases "c = CHR ''%''") fastforce+
  qed
qed (auto simp: FATAL_def)

text \<open>What the characters of a format contribute, by cases of its head.\<close>

lemma log_elements_Cons:
  assumes "log_elements f (c # s) args = Inr xs"
  obtains (escaped) s' ys where "s = CHR ''%'' # s'" "log_elements f s' args = Inr ys" "xs = Log_CHAR (CHR ''%'') # ys"
  | (placeholder) a as ys where "args = a # as" "log_elements f s as = Inr ys" "xs = f a @ ys"
  | (literal) ys where "log_elements f s args = Inr ys" "xs = Log_CHAR c # ys"
  using assms by (cases s; cases args) (auto simp: bindR_eq_Inr FATAL_def split: if_splits)

lemma elements_length: "log_elements f s args = Inr xs \<Longrightarrow> length xs \<le> length s + length (concat (map f args))"
proof (induction "length s" arbitrary: s args xs rule: less_induct)
  case less
  show ?case
  proof (cases s)
    case (Cons c s1)
    have "log_elements f (c # s1) args = Inr xs" using less(2) Cons by simp
    then show ?thesis
    proof (cases rule: log_elements_Cons)
      case (escaped s' ys)
      then show ?thesis using less(1)[of s' args ys] Cons by simp
    next
      case (placeholder a as ys)
      then show ?thesis using less(1)[of s1 as ys] Cons by simp
    next
      case (literal ys)
      then show ?thesis using less(1)[of s1 args ys] Cons by simp
    qed
  qed (use less(2) in \<open>cases args; simp add: FATAL_def\<close>)
qed

lemma opt_elements_length: "log_elements opt_arg_elements s args = Inr xs \<Longrightarrow> length xs \<le> length s"
proof (induction "length s" arbitrary: s args xs rule: less_induct)
  case less
  have one: "length (opt_arg_elements a) = 1" for a by (cases a) simp_all
  show ?case
  proof (cases s)
    case (Cons c s1)
    have "log_elements opt_arg_elements (c # s1) args = Inr xs" using less(2) Cons by simp
    then show ?thesis
    proof (cases rule: log_elements_Cons)
      case (escaped s' ys)
      then show ?thesis using less(1)[of s' args ys] Cons by simp
    next
      case (placeholder a as ys)
      then show ?thesis using less(1)[of s1 as ys] Cons one[of a] by simp
    next
      case (literal ys)
      then show ?thesis using less(1)[of s1 args ys] Cons by simp
    qed
  qed (use less(2) in \<open>cases args; simp add: FATAL_def\<close>)
qed

text \<open>C39: The optimised logger is equivalent to the logger: whatever the format and the arguments, when no string argument is longer than 255 characters and both rings have room, either both
  end the process with the same message, or the files they write are the same; a string takes one element of the optimised ring.
\<close>

theorem opt_logger_equivalent:
  assumes short: "list_all short_text args" and inv: "lf_inv q" "lf_inv q'" and empty: "lf_contents q = []" "lf_contents q' = []"
    and room: "length fmt + length (concat (map arg_elements args)) \<le> lf_capacity q" "length fmt \<le> lf_capacity q'"
  shows "(\<exists>err. logger_log fmt args q = Inl err \<and> opt_log fmt args q' = Inl err)
    \<or> (\<exists>q1 q1' text q2 q2'. logger_log fmt args q = Inr q1 \<and> opt_log fmt args q' = Inr q1'
        \<and> flushQueue print_fp (lf_size q1) q1 out = Inr (q2, out @ text) \<and> flushQueue print_fp (lf_size q1') q1' out = Inr (q2', out @ text))"
proof -
  have n: "num_elements q = 0" "num_elements q' = 0" using empty by (metis length_lf_contents list.size(3))+
  consider err where "log_elements arg_elements fmt args = Inl err" "log_elements opt_arg_elements fmt args = Inl err"
    | xs ys where "log_elements arg_elements fmt args = Inr xs" "log_elements opt_arg_elements fmt args = Inr ys"
        "text_of print_fp xs = text_of print_fp ys"
    using same_text[of print_fp arg_elements opt_arg_elements fmt args] print_arg opt_print_arg short by fastforce
  then show ?thesis
  proof cases
    case 1
    then show ?thesis by (simp add: logger_elements opt_elements)
  next
    case 2
    have "num_elements q + length xs \<le> lf_capacity q" "num_elements q' + length ys \<le> lf_capacity q'"
      using elements_length[OF 2(1)] opt_elements_length[OF 2(2)] room n by simp_all
    from push_and_flush[OF inv(1) this(1), of print_fp out] push_and_flush[OF inv(2) this(2), of print_fp out] 2 empty
    show ?thesis by (auto simp: logger_elements opt_elements)
  qed
qed

lemma opt_logger_equivalent_witness:
  "\<exists>q1 q1' text q2 q2'. logger_log ''id % ok'' [Text ''abc''] (LFQueue_new 64 (STRING [])) = Inr q1
    \<and> opt_log ''id % ok'' [Text ''abc''] (LFQueue_new 16 (STRING [])) = Inr q1'
    \<and> flushQueue (\<lambda>_. []) (lf_size q1) q1 [] = Inr (q2, text) \<and> flushQueue (\<lambda>_. []) (lf_size q1') q1' [] = Inr (q2', text)"
proof -
  let ?q = "LFQueue_new 64 (STRING [])" and ?q' = "LFQueue_new 16 (STRING [])"
  have q: "lf_inv ?q" "lf_inv ?q'" "lf_contents ?q = []" "lf_contents ?q' = []" "lf_capacity ?q = 64" "lf_capacity ?q' = 16"
    using lf_new_inv[of 64 "STRING []"] lf_new_inv[of 16 "STRING []"] by simp_all (simp_all add: LFQueue_new_def)
  have s: "list_all short_text [Text ''abc'']" by (simp add: short_text_def c_str_def)
  have "logger_log ''id % ok'' [Text ''abc''] ?q \<noteq> Inl err" for err by (simp add: logger_log_def)
  then show ?thesis using opt_logger_equivalent[OF s q(1-4), of "''id % ok''" "\<lambda>_. []" "[]"] q by (simp add: c_str_def)
qed

text \<open>Beyond 255 characters the optimised logger drops the rest of the string.\<close>

theorem opt_logger_truncates:
  "log_elements opt_arg_elements ''%'' [Text (replicate 300 (CHR ''a''))] = Inr [STRING (replicate 255 (CHR ''a''))]"
proof -
  have "c_str (replicate 300 (CHR ''a'')) = replicate 300 (CHR ''a'')" by (simp add: c_str_def takeWhile_eq_all_conv)
  then show ?thesis by (simp add: take_replicate)
qed

end
