(* ===== verification/TradingMain.thy ===== *)
theory TradingMain
  imports TradeEngine CText
begin

text \<open>
  \<^verbatim>\<open>trading/trading_main.cpp\<close>: the configuration of the tickers from the command line, the construction of the engine, and the orders of the
  RANDOM strategy, which \<open>main\<close> sends itself. The values of \<open>rand\<close> are the parameter \<open>rand\<close>: a stream of non-negative integers.
  Starting and stopping the threads, and the sleeps between the steps, are not modelled.
\<close>

section \<open>Configuration\<close>

definition kV11Stride :: nat where "kV11Stride = 14"
definition kV10Stride :: nat where "kV10Stride = 5"

definition trading_stride :: "nat \<Rightarrow> nat" where
  "trading_stride argc = (let kCfgArgs = int argc - 3 in if kCfgArgs > 0 \<and> kCfgArgs mod int kV11Stride = 0 then kV11Stride else kV10Stride)"

definition parse_v10 :: "fpenv \<Rightarrow> string list \<Rightarrow> nat \<Rightarrow> TradeEngineCfg \<Rightarrow> TradeEngineCfg result" where
  "parse_v10 e argv i c =
     bindR (arg_int argv i) (\<lambda>clip. bindR (arg_double e argv (i + 1)) (\<lambda>threshold.
     bindR (arg_int argv (i + 2)) (\<lambda>max_order. bindR (arg_int argv (i + 3)) (\<lambda>max_pos. bindR (arg_double e argv (i + 4)) (\<lambda>loss.
     Inr (c\<lparr> cfg_clip := of_int clip, cfg_threshold := threshold,
             cfg_risk := \<lparr> max_order_size = of_int max_order, max_position = of_int max_pos, max_loss = loss \<rparr> \<rparr>))))))"

definition parse_v11 :: "fpenv \<Rightarrow> string list \<Rightarrow> nat \<Rightarrow> TradeEngineCfg \<Rightarrow> TradeEngineCfg result" where
  "parse_v11 e argv i c =
     bindR (arg_int argv (i + 5)) (\<lambda>use_as. bindR (arg_double e argv (i + 6)) (\<lambda>gamma. bindR (arg_double e argv (i + 7)) (\<lambda>kappa.
     bindR (arg_double e argv (i + 8)) (\<lambda>session_hours. bindR (arg_int argv (i + 9)) (\<lambda>use_ofi. bindR (arg_double e argv (i + 10)) (\<lambda>beta_ofi.
     bindR (arg_int argv (i + 11)) (\<lambda>hyst. bindR (arg_int argv (i + 12)) (\<lambda>use_adaptive_clip. bindR (arg_double e argv (i + 13)) (\<lambda>sigma_ref.
     Inr (c\<lparr> cfg_use_as := (use_as \<noteq> 0), cfg_gamma := gamma, cfg_kappa := kappa, cfg_session_hours := session_hours,
             cfg_use_ofi := (use_ofi \<noteq> 0), cfg_beta_ofi := beta_ofi, cfg_hysteresis_ticks := hyst,
             cfg_use_adaptive_clip := (use_adaptive_clip \<noteq> 0), cfg_sigma_ref := sigma_ref \<rparr>))))))))))"

definition parse_ticker :: "fpenv \<Rightarrow> string list \<Rightarrow> nat \<Rightarrow> nat \<Rightarrow> TradeEngineCfg result" where
  "parse_ticker e argv stride i =
     bindR (parse_v10 e argv i (TradeEngineCfg_default e)) (\<lambda>c. if stride = kV11Stride then parse_v11 e argv i c else Inr c)"

function parse_tickers :: "fpenv \<Rightarrow> string list \<Rightarrow> nat \<Rightarrow> nat \<Rightarrow> nat \<Rightarrow> (nat \<Rightarrow> TradeEngineCfg) \<Rightarrow> (nat \<Rightarrow> TradeEngineCfg) result" where
  "parse_tickers e argv stride i next_ticker_id cfgs =
     (if i < length argv \<and> next_ticker_id < ME_MAX_TICKERS
      then (case parse_ticker e argv stride i of
              Inl err \<Rightarrow> Inl err
            | Inr c \<Rightarrow> parse_tickers e argv stride (i + stride) (next_ticker_id + 1) (cfgs(next_ticker_id := c)))
      else Inr cfgs)"
  by pat_completeness auto

termination by (relation "measure (\<lambda>(_, _, _, _, n, _). ME_MAX_TICKERS - n)") auto

declare parse_tickers.simps [simp del]

text \<open>What \<open>main\<close> builds before the threads start: the engine on fresh queues, or nothing after the usage message.\<close>

definition trading_setup :: "fpenv \<Rightarrow> (nat \<Rightarrow> nat \<Rightarrow> double) \<Rightarrow> (nat \<Rightarrow> nat \<Rightarrow> ptr) \<Rightarrow> (nat \<Rightarrow> nat \<Rightarrow> ptr) \<Rightarrow> int \<Rightarrow> string list
    \<Rightarrow> (AlgoType \<times> TradeEngine) option result" where
  "trading_setup e vwaps ids levels now argv =
     (if length argv < 3 then Inr None
      else
        bindR (arg_int argv 1) (\<lambda>client. bindR (argument argv 2) (\<lambda>algo.
        let client_id = of_int client; algo_type = stringToAlgoType algo in
        bindR (parse_tickers e argv (trading_stride (length argv)) 3 0 (\<lambda>_. TradeEngineCfg_default e)) (\<lambda>ticker_cfg.
        bindR (TradeEngine_new vwaps ids levels now client_id algo_type ticker_cfg
                 (LFQueue_new ME_MAX_CLIENT_UPDATES MEClientRequest_default) (LFQueue_new ME_MAX_CLIENT_UPDATES MEClientResponse_default)
                 (LFQueue_new ME_MAX_MARKET_UPDATES MEMarketUpdate_default)) (\<lambda>te.
        Inr (Some (algo_type, te)))))))"

section \<open>Random orders\<close>

record random_state =
  rs_calls :: nat
  rs_order_id :: OrderId
  rs_client_requests_vec :: "MEClientRequest list"
  rs_queue :: "MEClientRequest LFQueue"

definition random_base :: "(nat \<Rightarrow> nat) \<Rightarrow> nat \<Rightarrow> Price" where
  "random_base rand i = int (rand i mod 100) + 100"

definition random_start :: "ClientId \<Rightarrow> MEClientRequest LFQueue \<Rightarrow> random_state" where
  "random_start client_id q =
     \<lparr> rs_calls = ME_MAX_TICKERS, rs_order_id = ucast (client_id * 1000), rs_client_requests_vec = [], rs_queue = q \<rparr>"

text \<open>One round: a new order, then the cancel of one that was sent before.\<close>

definition random_step :: "ClientId \<Rightarrow> (nat \<Rightarrow> nat) \<Rightarrow> random_state \<Rightarrow> random_state" where
  "random_step client_id rand s =
     (let k = rs_calls s;
          ticker_id = rand k mod ME_MAX_TICKERS;
          price = random_base rand ticker_id + int (rand (k + 1) mod 10) + 1;
          qty = of_nat (1 + rand (k + 2) mod 100 + 1);
          side = (if rand (k + 3) mod 2 \<noteq> 0 then BUY else SELL);
          new_request = \<lparr> req_type = Req_NEW, req_client_id = client_id, req_ticker_id = of_nat ticker_id, req_order_id = rs_order_id s,
            req_side = side, req_price = price, req_qty = qty \<rparr>;
          q1 = sendClientRequest new_request (rs_queue s);
          vec = rs_client_requests_vec s @ [new_request];
          cxl_index = rand (k + 4) mod length vec;
          cxl_request = (vec ! cxl_index)\<lparr> req_type := Req_CANCEL \<rparr> in
      \<lparr> rs_calls = k + 5, rs_order_id = rs_order_id s + 1, rs_client_requests_vec = vec, rs_queue = sendClientRequest cxl_request q1 \<rparr>)"

definition random_loop :: "ClientId \<Rightarrow> (nat \<Rightarrow> nat) \<Rightarrow> nat \<Rightarrow> MEClientRequest LFQueue \<Rightarrow> random_state" where
  "random_loop client_id rand n q = (random_step client_id rand ^^ n) (random_start client_id q)"

definition random_rounds :: nat where "random_rounds = 10000"

section \<open>What the command line configures\<close>

lemma parse_ticker_short:
  assumes "length argv \<le> i + 4"
  shows "\<exists>err. parse_ticker e argv stride i = Inl err"
proof -
  have "arg_double e argv (i + 4) \<noteq> Inr x" for x using assms by (auto simp: arg_double_def argument_def)
  then have "parse_ticker e argv stride i \<noteq> Inr c" for c by (auto simp: parse_ticker_def parse_v10_def bindR_eq_Inr)
  then show ?thesis by (cases "parse_ticker e argv stride i") auto
qed

lemma parse_tickers_incomplete:
  "i < length argv \<Longrightarrow> (length argv - i) mod 5 \<noteq> 0 \<Longrightarrow> length argv - i < 5 * (ME_MAX_TICKERS - n) \<Longrightarrow>
   \<exists>err. parse_tickers e argv 5 i n cfgs = Inl err"
proof (induction "ME_MAX_TICKERS - n" arbitrary: i n cfgs)
  case (Suc m)
  then have n: "n < ME_MAX_TICKERS" by simp
  note eq = parse_tickers.simps[of e argv 5 i n cfgs]
  show ?case
  proof (cases "length argv - i < 5")
    case True
    then have "length argv \<le> i + 4" by simp
    then obtain err where "parse_ticker e argv 5 i = Inl err" using parse_ticker_short by blast
    then show ?thesis using Suc.prems(1) n by (simp add: eq)
  next
    case False
    then have "length argv - i = (length argv - (i + 5)) + 5" by simp
    then have "(length argv - (i + 5)) mod 5 \<noteq> 0" using Suc.prems(2) by (metis mod_add_self2)
    moreover from this have "i + 5 < length argv" by (metis mod_0 not_le_imp_less diff_is_0_eq)
    ultimately have "\<exists>err. parse_tickers e argv 5 (i + 5) (n + 1) cfgs' = Inl err" for cfgs'
      using Suc.hyps(1)[of "n + 1" "i + 5" cfgs'] Suc.hyps(2) Suc.prems(3) by simp
    then show ?thesis using Suc.prems(1) n by (simp add: eq split: sum.split)
  qed
qed simp

text \<open>An incomplete group of arguments is not caught: when the words behind the algorithm are fewer than eight groups and a multiple neither of 5 nor of 14, the program
  reads the null pointer behind the last word (or fails before), and never gets to construct its engine.
\<close>

theorem incomplete_ticker_group_not_caught:
  assumes "3 < length argv" and "length argv < 3 + 5 * ME_MAX_TICKERS"
    and "(length argv - 3) mod 5 \<noteq> 0" and "(length argv - 3) mod 14 \<noteq> 0"
  shows "\<exists>err. trading_setup e vwaps ids levels now argv = Inl err"
proof -
  have "int (length argv) - 3 = int (length argv - 3)" using assms(1) by simp
  moreover have "int (length argv - 3) mod 14 = int ((length argv - 3) mod 14)" by (simp add: zmod_int)
  ultimately have "(int (length argv) - 3) mod 14 \<noteq> 0" using assms(4) by (simp only: of_nat_eq_0_iff) simp
  then have "trading_stride (length argv) = 5" by (simp add: trading_stride_def kV11Stride_def kV10Stride_def Let_def)
  moreover have "\<exists>err. parse_tickers e argv 5 3 0 (\<lambda>_. TradeEngineCfg_default e) = Inl err"
    using parse_tickers_incomplete[of 3 argv 0 e] assms by auto
  ultimately have "trading_setup e vwaps ids levels now argv \<noteq> Inr x" for x using assms(1) by (auto simp: trading_setup_def bindR_eq_Inr Let_def)
  then show ?thesis by (cases "trading_setup e vwaps ids levels now argv") auto
qed

lemma incomplete_ticker_group_not_caught_witness:
  "\<exists>err. trading_setup exact_env (\<lambda>_ _. Fin 0) (\<lambda>_ _. None) (\<lambda>_ _. None) 0 [''trading'', ''1'', ''MAKER'', ''10'', ''0.6'', ''100''] = Inl err"
  by (rule incomplete_ticker_group_not_caught) (simp_all add: ME_MAX_TICKERS_def)

lemma parse_tickers_result:
  "parse_tickers e argv stride i n cfgs = Inr cfgs' \<Longrightarrow> 0 < stride \<Longrightarrow>
   (if n \<le> t \<and> t < ME_MAX_TICKERS \<and> i + stride * (t - n) < length argv
    then parse_ticker e argv stride (i + stride * (t - n)) = Inr (cfgs' t) else cfgs' t = cfgs t)"
proof (induction e argv stride i n cfgs rule: parse_tickers.induct)
  case (1 e argv stride i n cfgs)
  note eq = parse_tickers.simps[of e argv stride i n cfgs]
  show ?case
  proof (cases "i < length argv \<and> n < ME_MAX_TICKERS")
    case True
    then obtain c where c: "parse_ticker e argv stride i = Inr c"
        "parse_tickers e argv stride (i + stride) (n + 1) (cfgs(n := c)) = Inr cfgs'"
      using 1(2) by (auto simp: eq split: sum.splits)
    note IH = 1(1)[OF True c 1(3)]
    consider "t = n" | "t < n" | "n + 1 \<le> t" by linarith
    then show ?thesis
    proof cases
      case 3
      then have "i + stride * (t - n) = i + stride + stride * (t - (n + 1))" by (simp add: Suc_diff_Suc flip: mult_Suc_right)
      then show ?thesis using IH 3 by (simp only: fun_upd_apply) auto
    qed (use IH True c in auto)
  next
    case False
    then have "cfgs' = cfgs" using 1(2) by (auto simp: eq)
    then show ?thesis using False by auto
  qed
qed

section \<open>The random strategy\<close>

definition random_order :: "ClientId \<Rightarrow> OrderId \<Rightarrow> MEClientRequest \<Rightarrow> bool" where
  "random_order client_id oid r \<longleftrightarrow> req_type r = Req_NEW \<and> req_client_id r = client_id \<and> req_order_id r = oid \<and> unat (req_ticker_id r) < ME_MAX_TICKERS
    \<and> (req_side r = BUY \<or> req_side r = SELL) \<and> 101 \<le> req_price r \<and> req_price r \<le> 209 \<and> 2 \<le> unat (req_qty r) \<and> unat (req_qty r) \<le> 101"

lemma random_step_sends:
  "\<exists>r j. random_order client_id (rs_order_id s) r \<and> j \<le> length (rs_client_requests_vec s)
    \<and> rs_client_requests_vec (random_step client_id rand s) = rs_client_requests_vec s @ [r] \<and> rs_order_id (random_step client_id rand s) = rs_order_id s + 1
    \<and> rs_queue (random_step client_id rand s) = lf_push (lf_push (rs_queue s) r) (((rs_client_requests_vec s @ [r]) ! j)\<lparr> req_type := Req_CANCEL \<rparr>)"
proof -
  let ?k = "rs_calls s" and ?vec = "rs_client_requests_vec s"
  let ?r = "\<lparr> req_type = Req_NEW, req_client_id = client_id, req_ticker_id = of_nat (rand ?k mod ME_MAX_TICKERS), req_order_id = rs_order_id s,
      req_side = (if rand (?k + 3) mod 2 \<noteq> 0 then BUY else SELL),
      req_price = random_base rand (rand ?k mod ME_MAX_TICKERS) + int (rand (?k + 1) mod 10) + 1, req_qty = of_nat (1 + rand (?k + 2) mod 100 + 1) \<rparr>"
  have small: "unat (of_nat n :: 32 word) = n" if "n \<le> 101" for n using that by (simp add: unsigned_of_nat take_bit_nat_eq_self)
  have base: "random_base rand t \<le> 199" "100 \<le> random_base rand t" for t unfolding random_base_def using mod_less_divisor[of 100 "rand t"] by linarith+
  have "int (rand (?k + 1) mod 10) \<le> 9" using mod_less_divisor[of 10 "rand (?k + 1)"] by linarith
  then have price: "101 \<le> req_price ?r" "req_price ?r \<le> 209" using base[of "rand ?k mod ME_MAX_TICKERS"] by simp_all
  have "rand (?k + 2) mod 100 < 100" "rand ?k mod ME_MAX_TICKERS < ME_MAX_TICKERS" "ME_MAX_TICKERS \<le> 101" by (simp_all add: ME_MAX_TICKERS_def)
  then have "unat (req_qty ?r) = 1 + rand (?k + 2) mod 100 + 1" "unat (req_ticker_id ?r) = rand ?k mod ME_MAX_TICKERS" "rand (?k + 2) mod 100 < 100"
    using small[of "1 + rand (?k + 2) mod 100 + 1"] small[of "rand ?k mod ME_MAX_TICKERS"] by simp_all
  then have "unat (req_ticker_id ?r) < ME_MAX_TICKERS" "2 \<le> unat (req_qty ?r)" "unat (req_qty ?r) \<le> 101" by (simp_all only:) (simp_all add: ME_MAX_TICKERS_def)
  with price have "random_order client_id (rs_order_id s) ?r" by (simp only: random_order_def MEClientRequest.simps) simp
  moreover have "rand (?k + 4) mod length (?vec @ [?r]) \<le> length ?vec" using mod_less_divisor[of "length (?vec @ [?r])" "rand (?k + 4)"] by simp
  ultimately show ?thesis
    by (intro exI[of _ ?r] exI[of _ "rand (?k + 4) mod length (?vec @ [?r])"]) (simp add: random_step_def Let_def sendClientRequest_def)
qed

text \<open>
  The invariant of the loop after \<open>n\<close> rounds: the \<open>i\<close>-th order has the \<open>i\<close>-th identifier from the first one on, and the queue holds, for each
  round, that order and the cancel of one of the orders sent so far.
\<close>

definition random_inv :: "ClientId \<Rightarrow> nat \<Rightarrow> random_state \<Rightarrow> bool" where
  "random_inv client_id n s \<longleftrightarrow> length (rs_client_requests_vec s) = n \<and> rs_order_id s = ucast (client_id * 1000) + of_nat n
    \<and> (\<forall>i < n. random_order client_id (ucast (client_id * 1000) + of_nat i) (rs_client_requests_vec s ! i))
    \<and> lf_inv (rs_queue s) \<and> length (lf_contents (rs_queue s)) = 2 * n
    \<and> (\<forall>i < n. lf_contents (rs_queue s) ! (2 * i) = rs_client_requests_vec s ! i
         \<and> (\<exists>j \<le> i. lf_contents (rs_queue s) ! (2 * i + 1) = (rs_client_requests_vec s ! j)\<lparr> req_type := Req_CANCEL \<rparr>))"

lemma random_step_inv:
  assumes I: "random_inv client_id n s" and room: "2 * n + 2 \<le> lf_capacity (rs_queue s)"
  shows "random_inv client_id (n + 1) (random_step client_id rand s) \<and> lf_capacity (rs_queue (random_step client_id rand s)) = lf_capacity (rs_queue s)"
proof -
  let ?s = "random_step client_id rand s" and ?vec = "rs_client_requests_vec s" and ?c = "lf_contents (rs_queue s)"
  obtain r j where r: "random_order client_id (rs_order_id s) r" "j \<le> length ?vec" "rs_client_requests_vec ?s = ?vec @ [r]" "rs_order_id ?s = rs_order_id s + 1"
      "rs_queue ?s = lf_push (lf_push (rs_queue s) r) (((?vec @ [r]) ! j)\<lparr> req_type := Req_CANCEL \<rparr>)"
    using random_step_sends by blast
  let ?x = "((?vec @ [r]) ! j)\<lparr> req_type := Req_CANCEL \<rparr>"
  have n: "length ?vec = n" "length ?c = 2 * n" using I by (simp_all add: random_inv_def)
  have q: "rs_queue ?s = foldl lf_push (rs_queue s) [r, ?x]" using r(5) by simp
  have "lf_inv (rs_queue s)" "length ?c + length [r, ?x] \<le> lf_capacity (rs_queue s)" using I room n by (simp_all add: random_inv_def)
  note c = lq.push_all[OF this, folded q]
  have "lf_contents (rs_queue ?s) ! (2 * i) = rs_client_requests_vec ?s ! i
      \<and> (\<exists>k \<le> i. lf_contents (rs_queue ?s) ! (2 * i + 1) = (rs_client_requests_vec ?s ! k)\<lparr> req_type := Req_CANCEL \<rparr>)" if "i < n + 1" for i
  proof (cases "i < n")
    case True
    then obtain k where "?c ! (2 * i) = ?vec ! i" "k \<le> i" "?c ! (2 * i + 1) = (?vec ! k)\<lparr> req_type := Req_CANCEL \<rparr>"
      using I by (auto simp: random_inv_def)
    then show ?thesis using True n c r(3) by (auto simp: nth_append intro!: exI[of _ k])
  next
    case False
    then have i: "i = n" using that by simp
    have "(?c @ [r, ?x]) ! (2 * n) = r" "(?c @ [r, ?x]) ! (2 * n + 1) = ?x" using n(2) by (simp_all only: nth_append_length nth_append) simp_all
    moreover have "(?vec @ [r]) ! n = r" using n(1) by (metis nth_append_length)
    ultimately show ?thesis unfolding i r(3) using c r(2) n(1) by metis
  qed
  moreover have "random_order client_id (ucast (client_id * 1000) + of_nat i) (rs_client_requests_vec ?s ! i)" if "i < n + 1" for i
    using that I r(1,3) n by (cases "i < n") (auto simp: random_inv_def nth_append less_Suc_eq)
  ultimately show ?thesis using I c r(3,4) n by (simp add: random_inv_def algebra_simps)
qed

lemma random_loop_inv:
  assumes "lf_inv q" and "lf_contents q = []" and "2 * n \<le> lf_capacity q"
  shows "random_inv client_id n (random_loop client_id rand n q) \<and> lf_capacity (rs_queue (random_loop client_id rand n q)) = lf_capacity q"
  using assms(3)
proof (induction n)
  case 0
  then show ?case using assms(1,2) by (simp add: random_loop_def random_start_def random_inv_def)
next
  case (Suc n)
  then show ?case using random_step_inv[of client_id n "random_loop client_id rand n q" rand] by (simp add: random_loop_def)
qed

text \<open>The random strategy, whatever the random numbers: its 10000 rounds put exactly 20000 requests into the queue of the engine, in order and without overrunning it even
  if none is read meanwhile. The requests with an even position are new orders of the client with consecutive identifiers, an existing ticker, a quantity
  from 2 to 101 and a price from 101 to 209; each is followed by the cancel of an order that was sent before.
\<close>

theorem random_orders_are_valid:
  assumes "i < random_rounds"
  shows "let q = rs_queue (random_loop client_id rand random_rounds (LFQueue_new ME_MAX_CLIENT_UPDATES MEClientRequest_default)) in
    length (lf_contents q) = 2 * random_rounds \<and> random_order client_id (ucast (client_id * 1000) + of_nat i) (lf_contents q ! (2 * i))
    \<and> (\<exists>j \<le> i. lf_contents q ! (2 * i + 1) = (lf_contents q ! (2 * j))\<lparr> req_type := Req_CANCEL \<rparr>)"
proof -
  let ?q = "LFQueue_new ME_MAX_CLIENT_UPDATES MEClientRequest_default"
  have "lf_inv ?q" "lf_contents ?q = []" "2 * random_rounds \<le> lf_capacity ?q"
    using lf_new_inv[of ME_MAX_CLIENT_UPDATES MEClientRequest_default] by (simp_all add: ME_MAX_CLIENT_UPDATES_def random_rounds_def)
      (simp add: LFQueue_new_def)
  then have I: "random_inv client_id random_rounds (random_loop client_id rand random_rounds ?q)" using random_loop_inv by blast
  let ?s = "random_loop client_id rand random_rounds ?q"
  have at_even: "lf_contents (rs_queue ?s) ! (2 * k) = rs_client_requests_vec ?s ! k" if "k < random_rounds" for k
    using I that unfolding random_inv_def by blast
  obtain j where "j \<le> i" "lf_contents (rs_queue ?s) ! (2 * i + 1) = (rs_client_requests_vec ?s ! j)\<lparr> req_type := Req_CANCEL \<rparr>"
    using I assms unfolding random_inv_def by blast
  moreover from this(1) have "j < random_rounds" using assms by simp
  ultimately have "\<exists>j \<le> i. lf_contents (rs_queue ?s) ! (2 * i + 1) = (lf_contents (rs_queue ?s) ! (2 * j))\<lparr> req_type := Req_CANCEL \<rparr>"
    using at_even by metis
  moreover have "length (lf_contents (rs_queue ?s)) = 2 * random_rounds" using I unfolding random_inv_def by blast
  moreover have "random_order client_id (ucast (client_id * 1000) + of_nat i) (lf_contents (rs_queue ?s) ! (2 * i))"
    using I assms at_even[OF assms] unfolding random_inv_def by metis
  ultimately show ?thesis unfolding Let_def by blast
qed

lemma random_orders_are_valid_witness:
  "random_order 7 7042 (lf_contents (rs_queue (random_loop 7 (\<lambda>k. k * k) random_rounds (LFQueue_new ME_MAX_CLIENT_UPDATES MEClientRequest_default))) ! 84)"
  using random_orders_are_valid[of 42 7 "\<lambda>k. k * k"] by (simp add: random_rounds_def Let_def)

end
