(* ===== verification/TradingMainTheorems.thy ===== *)
theory TradingMainTheorems
  imports TradingMain TradingTheorems
begin

text \<open>The trading program: the limits of its command line hold in every run of the engine it constructs.\<close>

text \<open>The position in the command line of the first word of the group of a ticker, if it has one.\<close>

definition ticker_group :: "string list \<Rightarrow> nat \<Rightarrow> nat option" where
  "ticker_group argv t = (let i = 3 + trading_stride (length argv) * t in if i < length argv then Some i else None)"

definition group_limit :: "string list \<Rightarrow> nat \<Rightarrow> int result" where
  "group_limit argv t = (case ticker_group argv t of None \<Rightarrow> Inr 0 | Some i \<Rightarrow> arg_int argv (i + 3))"

definition group_order_size :: "string list \<Rightarrow> nat \<Rightarrow> int result" where
  "group_order_size argv t = (case ticker_group argv t of None \<Rightarrow> Inr 0 | Some i \<Rightarrow> arg_int argv (i + 2))"

lemma parse_ticker_risk:
  assumes "parse_ticker e argv stride i = Inr c"
  shows "\<exists>m p l. arg_int argv (i + 2) = Inr m \<and> arg_int argv (i + 3) = Inr p \<and> cfg_risk c = \<lparr> max_order_size = of_int m, max_position = of_int p, max_loss = l \<rparr>"
proof -
  obtain c1 where c1: "parse_v10 e argv i (TradeEngineCfg_default e) = Inr c1" "cfg_risk c = cfg_risk c1"
    using assms by (auto simp: parse_ticker_def parse_v11_def bindR_eq_Inr split: if_splits)
  then show ?thesis by (auto simp: parse_v10_def bindR_eq_Inr)
qed

lemma setup_risk:
  assumes "parse_tickers e argv (trading_stride (length argv)) 3 0 (\<lambda>_. TradeEngineCfg_default e) = Inr cfgs" and "t < ME_MAX_TICKERS"
  shows "\<exists>m p l. group_order_size argv t = Inr m \<and> group_limit argv t = Inr p
    \<and> cfg_risk (cfgs t) = \<lparr> max_order_size = of_int m, max_position = of_int p, max_loss = l \<rparr>"
proof -
  have s: "0 < trading_stride (length argv)" by (simp add: trading_stride_def kV11Stride_def kV10Stride_def Let_def)
  from parse_tickers_result[OF assms(1) s, of t] assms(2) show ?thesis
    by (auto simp: group_limit_def group_order_size_def ticker_group_def Let_def TradeEngineCfg_default_def dest: parse_ticker_risk split: if_splits)
qed

text \<open>C31: The trading program honours the limits of its command line in every mode but \<open>RANDOM\<close>: for the engine that \<open>main\<close> constructs, in every run in which the
  exchange answers the orders of the engine and fills no more of one than it has left, the position of each ticker is within the maximum position of its group of words, and
  a ticker without a group is never traded. The order sizes and limits given are not negative. In \<open>RANDOM\<close> mode \<open>main\<close> itself sends orders past the risk manager, and the limit
  does not hold; see \<open>random_mode_ignores_limits\<close>.
\<close>

theorem trading_program_position_limit:
  assumes built: "trading_setup e vwaps ids levels now argv = Inr (Some (algo, te0))" and mode: "algo \<noteq> Algo_RANDOM" and run: "te_runs e te0 tape te"
    and args: "\<And>t m p. t < ME_MAX_TICKERS \<Longrightarrow> group_order_size argv t = Inr m \<Longrightarrow> group_limit argv t = Inr p \<Longrightarrow> 0 \<le> m \<and> 0 \<le> p"
    and t: "t < ME_MAX_TICKERS"
  shows "\<exists>p. group_limit argv t = Inr p \<and> \<bar>position_of (te_position_keeper te) t\<bar> \<le> p"
proof -
  let ?rq = "LFQueue_new ME_MAX_CLIENT_UPDATES MEClientRequest_default"
  obtain client algo_type cfgs where c: "parse_tickers e argv (trading_stride (length argv)) 3 0 (\<lambda>_. TradeEngineCfg_default e) = Inr cfgs"
      "TradeEngine_new vwaps ids levels now (of_int client) algo_type cfgs ?rq (LFQueue_new ME_MAX_CLIENT_UPDATES MEClientResponse_default)
         (LFQueue_new ME_MAX_MARKET_UPDATES MEMarketUpdate_default) = Inr te0"
    using built by (auto simp: trading_setup_def bindR_eq_Inr Let_def split: if_splits)
  have word: "unat (of_int i :: 32 word) < 2 ^ 31 \<and> to_int32 (of_int i) = i" if "\<exists>k. arg_int argv k = Inr i \<or> i = 0" "0 \<le> i" for i
    using that arg_int_word[of argv _ i] by (auto simp: to_int32_def)
  have ok: "unat (max_order_size (cfg_risk (cfgs u))) < 2 ^ 31 \<and> (\<exists>p. group_limit argv u = Inr p \<and> 0 \<le> p \<and> to_int32 (max_position (cfg_risk (cfgs u))) = p)"
    if u: "u < ME_MAX_TICKERS" for u
  proof -
    obtain m p l where m: "group_order_size argv u = Inr m" "group_limit argv u = Inr p"
        "cfg_risk (cfgs u) = \<lparr> max_order_size = of_int m, max_position = of_int p, max_loss = l \<rparr>"
      using setup_risk[OF c(1) u] by blast
    have "0 \<le> m" "0 \<le> p" using args[OF u m(1,2)] by simp_all
    moreover have "\<exists>k. arg_int argv k = Inr m \<or> m = 0" "\<exists>k. arg_int argv k = Inr p \<or> p = 0"
      using m(1,2) by (auto simp: group_limit_def group_order_size_def split: option.splits)
    ultimately show ?thesis using word[of m] word[of p] m by simp
  qed
  have cfg: "\<forall>u < ME_MAX_TICKERS. unat (max_order_size (cfg_risk (cfgs u))) < 2 ^ 31 \<and> 0 \<le> to_int32 (max_position (cfg_risk (cfgs u)))"
    using ok by fastforce
  have "next_write_index ?rq < lf_capacity ?rq" "2 \<le> lf_capacity ?rq" by (simp_all add: LFQueue_new_def ME_MAX_CLIENT_UPDATES_def)
  from runs_within_limit[OF c(2) this cfg run t] ok[OF t] show ?thesis by auto
qed

section \<open>A sample program\<close>

definition sample_trading_argv :: "string list" where
  "sample_trading_argv = [''trading'', ''1'', ''MAKER'', ''10'', ''0'', ''100'', ''50'', ''-1000'']"

lemma sample_trading_numbers:
  "atoi ''1'' = Inr 1" "atoi ''10'' = Inr 10" "atoi ''100'' = Inr 100" "atoi ''50'' = Inr 50"
  by (simp_all add: is_space_def digit_val_def scan_int_def signed_def Let_def atoi_def int32_def)

lemma sample_trading_groups:
  "group_limit sample_trading_argv t = (if t = 0 then Inr 50 else Inr 0)" "group_order_size sample_trading_argv t = (if t = 0 then Inr 100 else Inr 0)"
  by (simp_all add: group_limit_def group_order_size_def ticker_group_def trading_stride_def kV11Stride_def kV10Stride_def sample_trading_argv_def
      arg_int_def argument_def sample_trading_numbers Let_def eval_nat_numeral)

lemma sample_trading_built:
  "\<exists>te0. trading_setup exact_env (\<lambda>_ _. Fin 0) (\<lambda>_ _. None) (\<lambda>_ _. None) 0 sample_trading_argv = Inr (Some (Algo_MAKER, te0))"
proof -
  let ?argv = sample_trading_argv
  have a: "arg_int ?argv 1 = Inr 1" "argument ?argv 2 = Inr ''MAKER''" "length ?argv = 8" "arg_int ?argv 3 = Inr 10" "arg_int ?argv 5 = Inr 100" "arg_int ?argv 6 = Inr 50"
    by (simp_all add: arg_int_def argument_def sample_trading_argv_def sample_trading_numbers eval_nat_numeral)
  have d: "\<exists>x. arg_double exact_env ?argv 4 = Inr x" "\<exists>x. arg_double exact_env ?argv 7 = Inr x"
    by (simp_all add: arg_double_def argument_def sample_trading_argv_def)
  have s: "trading_stride 8 = 5" by (simp add: trading_stride_def kV11Stride_def kV10Stride_def Let_def)
  have "\<exists>c. parse_ticker exact_env ?argv 5 3 = Inr c" using a d by (auto simp: parse_ticker_def parse_v10_def kV11Stride_def)
  then obtain cfgs where "parse_tickers exact_env ?argv 5 3 0 (\<lambda>_. TradeEngineCfg_default exact_env) = Inr cfgs"
    using a(3) by (auto simp: parse_tickers.simps[of _ _ _ 3] parse_tickers.simps[of _ _ _ 8] ME_MAX_TICKERS_def)
  moreover have "stringToAlgoType ''MAKER'' = Algo_MAKER" using stringToAlgoType_roundtrip[of Algo_MAKER] by simp
  ultimately show ?thesis using a s by (simp add: trading_setup_def TradeEngine_new_def ME_MAX_TICKERS_def upt_tickers setHysteresisTicks_def Let_def)
qed

lemma trading_program_position_limit_witness:
  "\<exists>te0. trading_setup exact_env (\<lambda>_ _. Fin 0) (\<lambda>_ _. None) (\<lambda>_ _. None) 0 sample_trading_argv = Inr (Some (Algo_MAKER, te0))
    \<and> \<bar>position_of (te_position_keeper te0) 0\<bar> \<le> 50 \<and> position_of (te_position_keeper te0) 3 = 0"
proof -
  obtain te0 where te0: "trading_setup exact_env (\<lambda>_ _. Fin 0) (\<lambda>_ _. None) (\<lambda>_ _. None) 0 sample_trading_argv = Inr (Some (Algo_MAKER, te0))"
    using sample_trading_built by blast
  have args: "0 \<le> m \<and> 0 \<le> p" if "t < ME_MAX_TICKERS" "group_order_size sample_trading_argv t = Inr m" "group_limit sample_trading_argv t = Inr p" for t m p
    using that by (auto simp: sample_trading_groups split: if_splits)
  from trading_program_position_limit[where t = 0, OF te0 _ te_runs.start args] trading_program_position_limit[where t = 3, OF te0 _ te_runs.start args]
  show ?thesis using te0 by (simp add: sample_trading_groups ME_MAX_TICKERS_def)
qed

section \<open>The mode without limits\<close>

text \<open>The first fill of a position that was never traded.\<close>

lemma fill_marks_returns:
  assumes "\<bar>pi_position p\<bar> < 2 ^ 31"
  shows "\<exists>p'. fill_marks e r p = Inr p' \<and> pi_position p' = pi_position p"
  using assms by (cases "pi_position p = 0") (simp_all add: fill_marks_def open_profit_def Let_def)

lemma first_fill_position:
  assumes "rsp_side r = BUY \<or> rsp_side r = SELL" and "unat (rsp_exec_qty r) \<le> 101" and "101 \<le> rsp_price r" and "rsp_price r \<le> 209"
  shows "\<exists>p. addFill e bps r (PositionInfo_new vwap) = Inr p \<and> \<bar>pi_position p\<bar> = int (unat (rsp_exec_qty r))"
proof -
  have f: "0 \<le> filled r" "filled r \<le> 101" using assms(2) unfolding filled_def by linarith+
  then have d: "to_int32 (rsp_exec_qty r) = filled r" by (intro to_int32_small) simp
  have "0 \<le> rsp_price r * filled r" "rsp_price r * filled r \<le> 209 * 101" using f assms(3,4) by (intro mult_nonneg_nonneg mult_mono; simp)+
  then have n: "int64 (rsp_price r * filled r) = Inr (rsp_price r * filled r)" by (intro int64_Inr) simp_all
  define pos where "pos = filled r * sideToValue (rsp_side r)"
  have "pos = filled r \<or> pos = - filled r" using assms(1) by (auto simp: pos_def)
  then have pos: "\<bar>pos\<bar> = filled r" "- 101 \<le> pos" "pos \<le> 101" using f by linarith+
  define p1 where "p1 = (PositionInfo_new vwap)\<lparr> pi_position := pos, pi_volume := rsp_exec_qty r,
    pi_open_vwap := vwap(sideToIndex (rsp_side r) := fadd e (vwap (sideToIndex (rsp_side r))) (d_of_int e (rsp_price r * filled r))) \<rparr>"
  obtain p2 where p2: "fill_marks e r p1 = Inr p2" "pi_position p2 = pos" using fill_marks_returns[of p1 e r] pos f by (auto simp: p1_def)
  have "addFill e bps r (PositionInfo_new vwap) = Inr (fill_rebate e bps r p2)"
    using pos n p2(1) unfolding addFill_def d Let_def pos_def[symmetric] by (simp add: PositionInfo_new_def fill_adds_def p1_def Let_def)
  moreover have "pi_position (fill_rebate e bps r p2) = pos" using p2(2) by (simp add: fill_rebate_def Let_def)
  ultimately show ?thesis using pos(1) by (simp add: filled_def)
qed

lemma random_request:
  assumes "lf_inv q" and "lf_contents q = []" and "2 * random_rounds \<le> lf_capacity q" and "i < random_rounds"
  shows "random_order client_id (ucast (client_id * 1000) + of_nat i) (lf_contents (rs_queue (random_loop client_id rand random_rounds q)) ! (2 * i))"
  using random_loop_inv[OF assms(1-3), of client_id rand] assms(4) unfolding random_inv_def by metis

text \<open>
  In \<open>RANDOM\<close> mode the limits are not looked at: each of the orders that \<open>main\<close> sends, if it is the first to be filled, leaves a position of its quantity,
  which is above the limit of a ticker that has no group on the command line, or a limit of one.
\<close>

theorem random_mode_ignores_limits:
  assumes built: "trading_setup e vwaps ids levels now argv = Inr (Some (Algo_RANDOM, te0))" and i: "i < random_rounds"
    and req: "req = lf_contents (rs_queue (random_loop (te_client_id te0) rand random_rounds (te_outgoing_ogw_requests te0))) ! (2 * i)"
    and r: "rsp_type r = FILLED" "rsp_ticker_id r = req_ticker_id req" "rsp_side r = req_side req" "rsp_exec_qty r = req_qty req" "rsp_price r = req_price req"
    and limit: "group_limit argv (unat (req_ticker_id req)) = Inr p" "p < 2"
  shows "\<exists>te. te_onOrderUpdate e r te0 = Inr te \<and> p < \<bar>position_of (te_position_keeper te) (unat (req_ticker_id req))\<bar>"
proof -
  have te0: "te_outgoing_ogw_requests te0 = LFQueue_new ME_MAX_CLIENT_UPDATES MEClientRequest_default" "te_algo te0 = NoAlgo"
      "\<exists>cfgs. te_position_keeper te0 = PositionKeeper_new (Some cfgs) vwaps"
    using built by (auto simp: trading_setup_def TradeEngine_new_def bindR_eq_Inr Let_def split: if_splits)
  let ?q = "te_outgoing_ogw_requests te0"
  have "lf_inv ?q" "lf_contents ?q = []" "2 * random_rounds \<le> lf_capacity ?q"
    unfolding te0(1) using lf_new_inv[of ME_MAX_CLIENT_UPDATES MEClientRequest_default]
    by (simp_all add: ME_MAX_CLIENT_UPDATES_def random_rounds_def) (simp add: LFQueue_new_def)
  from random_request[OF this i, of "te_client_id te0" rand, folded req]
  have o: "unat (req_ticker_id req) < ME_MAX_TICKERS" "req_side req = BUY \<or> req_side req = SELL" "101 \<le> req_price req" "req_price req \<le> 209"
      "2 \<le> unat (req_qty req)" "unat (req_qty req) \<le> 101"
    by (simp_all add: random_order_def)
  let ?t = "unat (req_ticker_id req)" and ?k = "te_position_keeper te0"
  obtain cfgs where k: "?k = PositionKeeper_new (Some cfgs) vwaps" using te0(3) by blast
  obtain x where x: "addFill e (pk_rebate_bps ?k ?t) r (PositionInfo_new (vwaps ?t)) = Inr x" "\<bar>pi_position x\<bar> = int (unat (req_qty req))"
    using first_fill_position[of r e "pk_rebate_bps ?k ?t" "vwaps ?t"] o r by auto
  then have "pk_addFill e r ?k = Inr (?k\<lparr> pk_ticker_position := (pk_ticker_position ?k)(?t := x) \<rparr>)"
    using o(1) r(2) k by (simp add: pk_addFill_def PositionKeeper_new_def)
  then have "te_onOrderUpdate e r te0 = Inr (te0\<lparr> te_position_keeper := ?k\<lparr> pk_ticker_position := (pk_ticker_position ?k)(?t := x) \<rparr> \<rparr>)"
    using r(1) te0(2) by (simp add: te_onOrderUpdate_def dispatchOnOrderUpdate_def with_orders_def)
  moreover have "p < int (unat (req_qty req))" using limit(2) o(5) by linarith
  ultimately show ?thesis using x(2) by (simp add: position_of_def)
qed

lemma random_setup:
  "\<exists>te0. trading_setup exact_env (\<lambda>_ _. Fin 0) (\<lambda>_ _. None) (\<lambda>_ _. None) 0 [''trading'', ''1'', ''RANDOM''] = Inr (Some (Algo_RANDOM, te0))"
proof -
  have "arg_int [''trading'', ''1'', ''RANDOM''] 1 = Inr 1" "argument [''trading'', ''1'', ''RANDOM''] 2 = Inr ''RANDOM''"
    by (simp_all add: arg_int_def argument_def sample_trading_numbers)
  moreover have "stringToAlgoType ''RANDOM'' = Algo_RANDOM" using stringToAlgoType_roundtrip[of Algo_RANDOM] by simp
  ultimately show ?thesis
    by (simp add: trading_setup_def parse_tickers.simps[of _ _ _ 3] TradeEngine_new_def ME_MAX_TICKERS_def upt_tickers setHysteresisTicks_def Let_def)
qed

lemma random_mode_ignores_limits_witness:
  "\<exists>te0 r te t. trading_setup exact_env (\<lambda>_ _. Fin 0) (\<lambda>_ _. None) (\<lambda>_ _. None) 0 [''trading'', ''1'', ''RANDOM''] = Inr (Some (Algo_RANDOM, te0))
    \<and> group_limit [''trading'', ''1'', ''RANDOM''] t = Inr 0 \<and> te_onOrderUpdate exact_env r te0 = Inr te \<and> 0 < \<bar>position_of (te_position_keeper te) t\<bar>"
proof -
  obtain te0 where te0: "trading_setup exact_env (\<lambda>_ _. Fin 0) (\<lambda>_ _. None) (\<lambda>_ _. None) 0 [''trading'', ''1'', ''RANDOM''] = Inr (Some (Algo_RANDOM, te0))"
    using random_setup by blast
  define req where "req = lf_contents (rs_queue (random_loop (te_client_id te0) (\<lambda>k. k) random_rounds (te_outgoing_ogw_requests te0))) ! (2 * 0)"
  define r where "r = MEClientResponse_default\<lparr> rsp_type := FILLED, rsp_ticker_id := req_ticker_id req, rsp_side := req_side req,
    rsp_exec_qty := req_qty req, rsp_price := req_price req \<rparr>"
  have l: "group_limit [''trading'', ''1'', ''RANDOM''] t = Inr 0" for t by (simp add: group_limit_def ticker_group_def Let_def)
  have "0 < random_rounds" by (simp add: random_rounds_def)
  from random_mode_ignores_limits[OF te0 this req_def, of r, OF _ _ _ _ _ l] te0 l show ?thesis by (auto simp: r_def)
qed

end
