(* ===== verification/BookPrint.thy ===== *)
theory BookPrint
  imports BookView CText
begin

text \<open>
  The diagnostic dump of a book: \<open>MEOrderBook::toString\<close> of \<^verbatim>\<open>exchange/matcher/me_order_book.cpp\<close> and \<open>MarketOrderBook::toString\<close> of
  \<^verbatim>\<open>trading/strategy/market_order_book.cpp\<close>, which mirrors it, with the optional check that the levels are sorted. The two differ in the member that
  holds the identifier of an order, the parameter \<open>oid\<close>, and in the text of a level in the fatal message, the parameter \<open>level_text\<close>.
  The walks along the rings are translated pointer by pointer; the theorems relate them to the text of the lists of levels and orders.
\<close>

section \<open>Names\<close>

definition orderIdToString :: "OrderId \<Rightarrow> string" where
  "orderIdToString i = (if i = OrderId_INVALID then ''INVALID'' else dec (unat i))"

definition tickerIdToString :: "TickerId \<Rightarrow> string" where
  "tickerIdToString i = (if i = TickerId_INVALID then ''INVALID'' else dec (unat i))"

definition clientIdToString :: "ClientId \<Rightarrow> string" where
  "clientIdToString i = (if i = ClientId_INVALID then ''INVALID'' else dec (unat i))"

definition priceToString :: "Price \<Rightarrow> string" where
  "priceToString p = (if p = Price_INVALID then ''INVALID'' else to_string p)"

definition qtyToString :: "Qty \<Rightarrow> string" where
  "qtyToString q = (if q = Qty_INVALID then ''INVALID'' else dec (unat q))"

definition priorityToString :: "Priority \<Rightarrow> string" where
  "priorityToString p = (if p = Priority_INVALID then ''INVALID'' else dec (unat p))"

text \<open>The conversions \<open>%3s\<close> and \<open>%-3s\<close>, and the buffer of 4096 characters.\<close>

definition pad_left :: "nat \<Rightarrow> string \<Rightarrow> string" where
  "pad_left n s = replicate (n - length s) (CHR '' '') @ s"

definition pad_right :: "nat \<Rightarrow> string \<Rightarrow> string" where
  "pad_right n s = s @ replicate (n - length s) (CHR '' '')"

definition to_buffer :: "string \<Rightarrow> string" where
  "to_buffer s = take 4095 s"

definition endl :: string where "endl = [CHR 0x0A]"

section \<open>Walks\<close>

text \<open>\<open>for (o = first;; o = o->next) { \<dots> if (o->next == first) break; }\<close>\<close>

fun for_ring :: "nat \<Rightarrow> 'a MemPool \<Rightarrow> ('a \<Rightarrow> ptr) \<Rightarrow> ptr \<Rightarrow> ptr \<Rightarrow> ('a \<Rightarrow> 's \<Rightarrow> 's result) \<Rightarrow> 's \<Rightarrow> 's result" where
  "for_ring 0 P nx first p body s = Inl OutOfFuel"
| "for_ring (Suc fuel) P nx first p body s =
     bindR (deref P p) (\<lambda>n.
     bindR (body n s) (\<lambda>s'.
     if nx n = first then Inr s' else for_ring fuel P nx first (nx n) body s'))"

definition level_header :: "Price \<Rightarrow> Price \<Rightarrow> Price \<Rightarrow> Qty \<Rightarrow> nat \<Rightarrow> string" where
  "level_header px prev next qty num =
     to_buffer ('' <px:'' @ pad_left 3 (priceToString px) @ '' p:'' @ pad_left 3 (priceToString prev) @ '' n:'' @ pad_left 3 (priceToString next) @ ''> ''
       @ pad_right 3 (priceToString px) @ '' @ '' @ pad_right 5 (qtyToString qty) @ ''('' @ pad_right 4 (dec num) @ '')'')"

definition order_entry :: "OrderId \<Rightarrow> Qty \<Rightarrow> OrderId \<Rightarrow> OrderId \<Rightarrow> string" where
  "order_entry i q prev next =
     to_buffer (''[oid:'' @ orderIdToString i @ '' q:'' @ qtyToString q @ '' p:'' @ orderIdToString prev @ '' n:'' @ orderIdToString next @ ''] '')"

text \<open>\<open>p ? p->id : OrderId_INVALID\<close>\<close>

definition id_or_invalid :: "('e order_node_scheme \<Rightarrow> OrderId) \<Rightarrow> ('k, 'e) book \<Rightarrow> ptr \<Rightarrow> OrderId" where
  "id_or_invalid oid b p = (case p of None \<Rightarrow> OrderId_INVALID | Some i \<Rightarrow> oid (ON b i))"

definition print_order :: "('e order_node_scheme \<Rightarrow> OrderId) \<Rightarrow> bool \<Rightarrow> ('k, 'e) book \<Rightarrow> 'e order_node_scheme \<Rightarrow> string \<Rightarrow> string result" where
  "print_order oid detailed b o' ss =
     Inr (if detailed then ss @ order_entry (oid o') (on_qty o') (id_or_invalid oid b (on_prev o')) (id_or_invalid oid b (on_next o')) else ss)"

definition sum_order :: "'e order_node_scheme \<Rightarrow> Qty \<times> nat \<Rightarrow> (Qty \<times> nat) result" where
  "sum_order o' = (\<lambda>(qty, num_orders). Inr (qty + on_qty o', num_orders + 1))"

definition for_orders :: "('k, 'e) book \<Rightarrow> OrdersAtPrice \<Rightarrow> ('e order_node_scheme \<Rightarrow> 's \<Rightarrow> 's result) \<Rightarrow> 's \<Rightarrow> 's result" where
  "for_orders b itr body s = for_ring (pool_size (bk_orders b)) (bk_orders b) on_next (lv_first itr) (lv_first itr) body s"

text \<open>The lambda \<open>printer\<close>: the text and the last price.\<close>

definition printer :: "('e order_node_scheme \<Rightarrow> OrderId) \<Rightarrow> (('k, 'e) book \<Rightarrow> OrdersAtPrice \<Rightarrow> string) \<Rightarrow> bool \<Rightarrow> bool \<Rightarrow> ('k, 'e) book \<Rightarrow> Side
    \<Rightarrow> OrdersAtPrice \<Rightarrow> string \<times> Price \<Rightarrow> (string \<times> Price) result" where
  "printer oid level_text detailed sanity_check b side itr = (\<lambda>(ss, last_price).
     bindR (for_orders b itr sum_order (0, 0)) (\<lambda>(qty, num_orders).
     bindR (deref (bk_levels b) (lv_prev itr)) (\<lambda>prev.
     bindR (deref (bk_levels b) (lv_next itr)) (\<lambda>next.
     bindR (for_orders b itr (print_order oid detailed b) (ss @ level_header (lv_price itr) (lv_price prev) (lv_price next) qty num_orders)) (\<lambda>ss1.
     if sanity_check
     then if (side = SELL \<and> last_price \<ge> lv_price itr) \<or> (side = BUY \<and> last_price \<le> lv_price itr)
          then FATAL (''Bids/Asks not sorted last:'' @ priceToString last_price @ '' itr:'' @ level_text b itr)
          else Inr (ss1 @ endl, lv_price itr)
     else Inr (ss1 @ endl, last_price))))))"

text \<open>The loop over the levels of a side.\<close>

definition print_level :: "('e order_node_scheme \<Rightarrow> OrderId) \<Rightarrow> (('k, 'e) book \<Rightarrow> OrdersAtPrice \<Rightarrow> string) \<Rightarrow> bool \<Rightarrow> bool \<Rightarrow> ('k, 'e) book \<Rightarrow> Side \<Rightarrow> string
    \<Rightarrow> OrdersAtPrice \<Rightarrow> nat \<times> string \<times> Price \<Rightarrow> (nat \<times> string \<times> Price) result" where
  "print_level oid level_text detailed sanity_check b side name itr = (\<lambda>(count, ss, last_price).
     bindR (printer oid level_text detailed sanity_check b side itr (ss @ name @ '' L:'' @ dec count @ '' => '', last_price)) (\<lambda>(ss', last_price').
     Inr (count + 1, ss', last_price')))"

definition print_side :: "('e order_node_scheme \<Rightarrow> OrderId) \<Rightarrow> (('k, 'e) book \<Rightarrow> OrdersAtPrice \<Rightarrow> string) \<Rightarrow> bool \<Rightarrow> bool \<Rightarrow> ('k, 'e) book \<Rightarrow> Side \<Rightarrow> string \<Rightarrow> Price
    \<Rightarrow> string \<Rightarrow> string result" where
  "print_side oid level_text detailed sanity_check b side name last_price ss =
     (if best_of side b = None then Inr ss
      else bindR (for_ring (pool_size (bk_levels b)) (bk_levels b) lv_next (best_of side b) (best_of side b)
                    (print_level oid level_text detailed sanity_check b side name) (0, ss, last_price)) (\<lambda>(_, ss', _). Inr ss'))"

definition book_toString :: "('e order_node_scheme \<Rightarrow> OrderId) \<Rightarrow> (('k, 'e) book \<Rightarrow> OrdersAtPrice \<Rightarrow> string) \<Rightarrow> TickerId \<Rightarrow> bool \<Rightarrow> bool \<Rightarrow> ('k, 'e) book \<Rightarrow> string result" where
  "book_toString oid level_text ticker_id detailed validity_check b =
     bindR (print_side oid level_text detailed validity_check b SELL ''ASKS'' (- (2 ^ 63)) (''Ticker:'' @ tickerIdToString ticker_id @ endl)) (\<lambda>ss1.
     print_side oid level_text detailed validity_check b BUY ''BIDS'' (2 ^ 63 - 1)
       (ss1 @ endl @ replicate 26 (CHR '' '') @ ''X'' @ endl @ endl))"

section \<open>The text of the lists\<close>

text \<open>Neighbours in a circular list.\<close>

definition before :: "'a list \<Rightarrow> nat \<Rightarrow> 'a" where "before xs i = xs ! (if i = 0 then length xs - 1 else i - 1)"
definition behind :: "'a list \<Rightarrow> nat \<Rightarrow> 'a" where "behind xs i = xs ! (if i + 1 = length xs then 0 else i + 1)"

definition orders_text :: "('v order_node_scheme \<Rightarrow> OrderId) \<Rightarrow> 'v order_node_scheme list \<Rightarrow> string" where
  "orders_text oid vs = concat (map (\<lambda>j. order_entry (oid (vs ! j)) (on_qty (vs ! j)) (oid (before vs j)) (oid (behind vs j))) [0..<length vs])"

definition level_block_text :: "('v order_node_scheme \<Rightarrow> OrderId) \<Rightarrow> bool \<Rightarrow> 'v order_node_scheme side_view \<Rightarrow> nat \<Rightarrow> string" where
  "level_block_text oid detailed V i =
     level_header (fst (V ! i)) (fst (before V i)) (fst (behind V i)) (sum_list (map on_qty (snd (V ! i)))) (length (snd (V ! i)))
     @ (if detailed then orders_text oid (snd (V ! i)) else []) @ endl"

definition sorted_after :: "Side \<Rightarrow> Price \<Rightarrow> Price \<Rightarrow> bool" where
  "sorted_after side p q \<longleftrightarrow> \<not> ((side = SELL \<and> p \<ge> q) \<or> (side = BUY \<and> p \<le> q))"

definition view_text :: "('v order_node_scheme \<Rightarrow> OrderId) \<Rightarrow> bool \<Rightarrow> string \<Rightarrow> 'v order_node_scheme side_view \<Rightarrow> string" where
  "view_text oid detailed name V = concat (map (\<lambda>i. name @ '' L:'' @ dec i @ '' => '' @ level_block_text oid detailed V i) [0..<length V])"

section \<open>Walking a ring\<close>

lemma for_ring_suffix:
  assumes "ring (\<lambda>i. nx (obj P i)) pv (xs @ ys)" and "ys \<noteq> []" and "length ys \<le> fuel"
  shows "for_ring fuel P nx (Some (hd (xs @ ys))) (Some (hd ys)) body s = foldR body (map (obj P) ys) s"
  using assms
proof (induction ys arbitrary: xs fuel s)
  case (Cons y ys)
  note R = Cons.prems(1)
  obtain k where k: "fuel = Suc k" using Cons.prems(3) by (cases fuel) auto
  show ?case
  proof (cases ys)
    case Nil
    then have "ring (\<lambda>i. nx (obj P i)) pv (hd (xs @ [y]) # tl (xs @ [y]))" using R by simp
    from ring_next_last[OF this] have "nx (obj P y) = Some (hd (xs @ [y]))" by (cases xs) simp_all
    then show ?thesis using k Nil by (cases "body (obj P y) s") simp_all
  next
    case ys: (Cons z zs)
    have n: "nx (obj P y) = Some z" using ring_next_mid[of "\<lambda>i. nx (obj P i)" pv xs y z zs] R ys by simp
    have "distinct (xs @ y # z # zs)" using ring_distinct[OF R] ys by simp
    then have "hd (xs @ y # z # zs) \<noteq> z" by (cases xs) auto
    then have "nx (obj P y) \<noteq> Some (hd (xs @ y # ys))" using n ys by auto
    moreover have "for_ring k P nx (Some (hd ((xs @ [y]) @ ys))) (Some (hd ys)) body s' = foldR body (map (obj P) ys) s'" for s'
      by (rule Cons.IH) (use R Cons.prems(3) ys k in simp_all)
    ultimately show ?thesis using k n ys by (cases "body (obj P y) s") simp_all
  qed
qed simp

lemma for_ring_whole:
  assumes "ring (\<lambda>i. nx (obj P i)) pv xs" and "length xs \<le> fuel"
  shows "for_ring fuel P nx (Some (hd xs)) (Some (hd xs)) body s = foldR body (map (obj P) xs) s"
  using for_ring_suffix[of nx P pv "[]" xs fuel body s] assms ring_nonempty[OF assms(1)] by simp

text \<open>The links of the \<open>i\<close>-th block.\<close>

lemma ring_nth:
  assumes R: "ring nx pv xs" and i: "i < length xs"
  shows "nx (xs ! i) = Some (behind xs i)" and "pv (xs ! i) = Some (before xs i)"
proof -
  have x: "xs = take i xs @ xs ! i # drop (Suc i) xs" using i by (rule id_take_nth_drop)
  have rot: "ring nx pv (xs ! i # drop (Suc i) xs @ take i xs)" using R x ring_rotate[of nx pv "take i xs" "xs ! i # drop (Suc i) xs"] by simp
  have "pv (xs ! i) = Some (last (xs ! i # drop (Suc i) xs @ take i xs))" using ring_prev_hd[OF rot] .
  also have "last (xs ! i # drop (Suc i) xs @ take i xs) = before xs i"
  proof (cases "i = 0")
    case True
    then show ?thesis using i by (cases xs) (auto simp: before_def last_conv_nth)
  next
    case False
    then have ne: "take i xs \<noteq> []" using i by auto
    then have "last (xs ! i # drop (Suc i) xs @ take i xs) = last (take i xs)" by (simp only: last_append if_False last.simps append_is_Nil_conv) simp
    then show ?thesis using False i ne by (simp add: before_def last_conv_nth[OF ne])
  qed
  finally show "pv (xs ! i) = Some (before xs i)" .
  show "nx (xs ! i) = Some (behind xs i)"
  proof (cases "Suc i = length xs")
    case True
    then have "xs ! i = last (hd xs # tl xs)" "ring nx pv (hd xs # tl xs)" using i R by (cases xs; auto simp: last_conv_nth nth_Cons')+
    from ring_next_last[OF this(2), folded this(1)] show ?thesis using True i by (cases xs) (auto simp: behind_def)
  next
    case False
    then have "drop (Suc i) xs = xs ! Suc i # drop (Suc (Suc i)) xs" using i by (simp add: Cons_nth_drop_Suc)
    then have "xs = take i xs @ xs ! i # xs ! Suc i # drop (Suc (Suc i)) xs" using x by simp
    then have "ring nx pv (take i xs @ xs ! i # xs ! Suc i # drop (Suc (Suc i)) xs)" using R by simp
    from ring_next_mid[OF this] show ?thesis using False by (simp add: behind_def)
  qed
qed

lemma before_map: "i < length xs \<Longrightarrow> before (map f xs) i = f (before xs i)"
  by (auto simp: before_def)

lemma behind_map: "i < length xs \<Longrightarrow> behind (map f xs) i = f (behind xs i)"
  by (cases xs) (auto simp: behind_def)

text \<open>A loop whose body, at position \<open>i\<close> of the list, appends to the text what depends on \<open>i\<close> only.\<close>

lemma foldR_text:
  assumes "\<And>i s. i < length xs \<Longrightarrow> body (xs ! i) s = Inr (s @ t i)"
  shows "foldR body xs s = Inr (s @ concat (map t [0..<length xs]))"
proof -
  have "foldR body (drop i xs) s = Inr (s @ concat (map t [i..<length xs]))" if "i \<le> length xs" for i s
    using that
  proof (induction "length xs - i" arbitrary: i s)
    case (Suc m)
    then have i: "i < length xs" by simp
    have IH: "foldR body (drop (Suc i) xs) s' = Inr (s' @ concat (map t [Suc i..<length xs]))" for s' by (rule Suc.hyps(1)) (use Suc.hyps(2) i in simp_all)
    have "drop i xs = xs ! i # drop (Suc i) xs" using i by (simp add: Cons_nth_drop_Suc)
    moreover have "[i..<length xs] = i # [Suc i..<length xs]" using i by (rule upt_conv_Cons)
    ultimately show ?case using assms[OF i] IH by simp
  qed simp
  from this[of 0] show ?thesis by simp
qed

section \<open>The dump of a well-formed book\<close>

text \<open>What the dump needs of the identifier: it does not depend on the links of the order.\<close>

locale identified_orders =
  fixes oid :: "'e order_node_scheme \<Rightarrow> OrderId"
  assumes oid_unlinked: "oid (unlinked n) = oid n"
begin

text \<open>The two loops over the orders of a level.\<close>

lemma sum_loop: "foldR sum_order ns (q, k) = Inr (q + sum_list (map on_qty ns), k + length ns)"
  by (induction ns arbitrary: q k) (simp_all add: sum_order_def)

lemma order_loop:
  assumes R: "ring (onx b) (opv b) os"
  shows "foldR (print_order oid detailed b) (map (ON b) os) ss
    = Inr (ss @ (if detailed then orders_text oid (map (\<lambda>i. unlinked (ON b i)) os) else []))"
proof (cases detailed)
  case True
  let ?vs = "map (\<lambda>i. unlinked (ON b i)) os"
  have "print_order oid detailed b (map (ON b) os ! j) s
      = Inr (s @ order_entry (oid (?vs ! j)) (on_qty (?vs ! j)) (oid (before ?vs j)) (oid (behind ?vs j)))" if "j < length (map (ON b) os)" for j s
  proof -
    have j: "j < length os" using that by simp
    have "on_next (ON b (os ! j)) = Some (behind os j)" "on_prev (ON b (os ! j)) = Some (before os j)"
      using ring_nth[OF R j] by (simp_all add: onx_def opv_def)
    then show ?thesis using True j by (simp add: print_order_def id_or_invalid_def oid_unlinked before_map behind_map)
  qed
  from foldR_text[of "map (ON b) os" "print_order oid detailed b", OF this] True show ?thesis by (simp add: orders_text_def)
next
  case False
  then have "foldR (print_order oid detailed b) ns s = Inr s" for ns s by (induction ns) (simp_all add: print_order_def)
  then show ?thesis using False by simp
qed

lemma level_orders:
  assumes "level_ok b side (l, os)" and "length os \<le> pool_size (bk_orders b)"
  shows "for_orders b (LV b l) body s = foldR body (map (ON b) os) s"
  using for_ring_whole[of on_next "bk_orders b" "opv b" os "pool_size (bk_orders b)" body s] assms
  by (simp add: for_orders_def level_ok_def onx_def)

text \<open>One level, at position \<open>i\<close> of a well-formed side.\<close>

lemma printer_level:
  assumes side: "side_ok b side Ls" and pool: "\<And>x. x \<in> set Ls \<Longrightarrow> length (snd x) \<le> pool_size (bk_orders b)" and i: "i < length Ls"
    and lp: "sorted_after side last_price (fst (abs_side b Ls ! i))"
  shows "printer oid level_text detailed check b side (LV b (level_blocks Ls ! i)) (ss, last_price)
    = Inr (ss @ level_block_text oid detailed (abs_side b Ls) i, if check then fst (abs_side b Ls ! i) else last_price)"
proof -
  obtain l os where lo: "Ls ! i = (l, os)" by (cases "Ls ! i")
  have l: "level_blocks Ls ! i = l" using lo i by (simp add: level_blocks_def)
  have V: "abs_side b Ls ! i = (lv_price (LV b l), map (\<lambda>j. unlinked (ON b j)) os)" using lo i by (simp add: abs_side_def)
  have mem: "(l, os) \<in> set Ls" using lo i by (metis nth_mem)
  have ok: "level_ok b side (l, os)" using side mem by (auto simp: side_ok_def)
  have R: "ring (lnx b) (lpv b) (level_blocks Ls)" using side i by (auto simp: side_ok_def levels_linked_def)
  have len: "i < length (level_blocks Ls)" using i by (simp add: level_blocks_def)
  have prices: "map fst (abs_side b Ls) = map (\<lambda>l. lv_price (LV b l)) (level_blocks Ls)" by (rule fst_abs_side)
  have nb: "lv_price (LV b (before (level_blocks Ls) i)) = fst (before (abs_side b Ls) i)"
      "lv_price (LV b (behind (level_blocks Ls) i)) = fst (behind (abs_side b Ls) i)"
    using before_map[OF len, of "\<lambda>l. lv_price (LV b l)"] behind_map[OF len, of "\<lambda>l. lv_price (LV b l)"]
      before_map[of i "abs_side b Ls" fst] behind_map[of i "abs_side b Ls" fst] i prices by simp_all
  have links: "lv_next (LV b l) = Some (behind (level_blocks Ls) i)" "lv_prev (LV b l) = Some (before (level_blocks Ls) i)"
    using ring_nth[OF R len] l by (simp_all add: lnx_def lpv_def)
  have rng: "ring (onx b) (opv b) os" using ok by (simp add: level_ok_def)
  have small: "length os \<le> pool_size (bk_orders b)" using pool[OF mem] by simp
  have q: "map on_qty (map (\<lambda>j. unlinked (ON b j)) os) = map (\<lambda>j. on_qty (ON b j)) os" by simp
  have lp': "((side = SELL \<and> last_price \<ge> lv_price (LV b l)) \<or> (side = BUY \<and> last_price \<le> lv_price (LV b l))) = False"
    using lp V by (simp add: sorted_after_def)
  show ?thesis
    unfolding printer_def l prod.case level_orders[OF ok small] order_loop[OF rng] sum_loop links deref_simps bindR.simps lp' if_False
    by (simp add: V nb level_block_text_def comp_def)
qed

lemma side_loop:
  assumes side: "side_ok b side Ls" "side = BUY \<or> side = SELL" and pool: "\<And>x. x \<in> set Ls \<Longrightarrow> length (snd x) \<le> pool_size (bk_orders b)"
    and i: "i \<le> length Ls"
    and lp: "\<And>j. i \<le> j \<Longrightarrow> j < length Ls \<Longrightarrow> sorted_after side last_price (fst (abs_side b Ls ! j))"
  shows "\<exists>p. foldR (print_level oid level_text detailed check b side name) (map (LV b) (drop i (level_blocks Ls))) (i, ss, last_price)
    = Inr (length Ls, ss @ concat (map (\<lambda>i. name @ '' L:'' @ dec i @ '' => '' @ level_block_text oid detailed (abs_side b Ls) i) [i..<length Ls]), p)"
  using i lp
proof (induction "length Ls - i" arbitrary: i ss last_price)
  case 0
  then show ?case by (simp add: level_blocks_def)
next
  case (Suc m)
  then have i: "i < length Ls" by simp
  let ?t = "name @ '' L:'' @ dec i @ '' => '' @ level_block_text oid detailed (abs_side b Ls) i"
  let ?p = "if check then fst (abs_side b Ls ! i) else last_price"
  have "i < length (level_blocks Ls)" using i by (simp add: level_blocks_def)
  then have d: "drop i (level_blocks Ls) = level_blocks Ls ! i # drop (Suc i) (level_blocks Ls)" by (rule Cons_nth_drop_Suc[symmetric])
  have here: "print_level oid level_text detailed check b side name (LV b (level_blocks Ls ! i)) (i, ss, last_price) = Inr (Suc i, ss @ ?t, ?p)"
    using printer_level[OF side(1) pool i Suc.prems(2)[OF order_refl i]] by (simp add: print_level_def)
  have "sorted_after side ?p (fst (abs_side b Ls ! j))" if j: "Suc i \<le> j" "j < length Ls" for j
  proof (cases check)
    case True
    have "sorted_wrt (better side) (map fst (abs_side b Ls))" using side(1) by (simp add: side_ok_def fst_abs_side)
    then have "better side (map fst (abs_side b Ls) ! i) (map fst (abs_side b Ls) ! j)" using j by (auto simp: sorted_wrt_iff_nth_less)
    then show ?thesis using True i j side(2) by (auto simp: sorted_after_def better_def)
  qed (use Suc.prems(2)[of j] j in simp)
  then obtain p where "foldR (print_level oid level_text detailed check b side name) (map (LV b) (drop (Suc i) (level_blocks Ls))) (Suc i, ss @ ?t, ?p)
      = Inr (length Ls, (ss @ ?t) @ concat (map (\<lambda>i. name @ '' L:'' @ dec i @ '' => '' @ level_block_text oid detailed (abs_side b Ls) i) [Suc i..<length Ls]), p)"
    using Suc.hyps(1)[of "Suc i" ?p "ss @ ?t"] Suc.hyps(2) i by fastforce
  then show ?case unfolding d list.map foldR.simps here bindR.simps upt_conv_Cons[OF i] by simp
qed

lemma print_side_text:
  assumes side: "side_ok b side Ls" "side = BUY \<or> side = SELL" and pool: "\<And>x. x \<in> set Ls \<Longrightarrow> length (snd x) \<le> pool_size (bk_orders b)"
    and levels: "length Ls \<le> pool_size (bk_levels b)" and lp: "\<And>q. q \<in> set (map fst (abs_side b Ls)) \<Longrightarrow> sorted_after side last_price q"
  shows "print_side oid level_text detailed check b side name last_price ss = Inr (ss @ view_text oid detailed name (abs_side b Ls))"
proof (cases "Ls = []")
  case True
  then show ?thesis using side(1) by (simp add: print_side_def side_ok_def levels_linked_def view_text_def)
next
  case False
  have best: "best_of side b = Some (hd (level_blocks Ls))" and R: "ring (lnx b) (lpv b) (level_blocks Ls)"
    using side(1) False by (simp_all add: side_ok_def levels_linked_def)
  have len: "length (level_blocks Ls) \<le> pool_size (bk_levels b)" using levels by (simp add: level_blocks_def)
  have "sorted_after side last_price (fst (abs_side b Ls ! j))" if "j < length Ls" for j
    by (rule lp) (use that in \<open>metis abs_side_length length_map nth_map nth_mem\<close>)
  then obtain p where "foldR (print_level oid level_text detailed check b side name) (map (LV b) (level_blocks Ls)) (0, ss, last_price)
      = Inr (length Ls, ss @ view_text oid detailed name (abs_side b Ls), p)"
    using side_loop[OF side pool, of 0 last_price level_text detailed check name ss] by (auto simp: view_text_def)
  moreover have "for_ring (pool_size (bk_levels b)) (bk_levels b) lv_next (best_of side b) (best_of side b) body s = foldR body (map (LV b) (level_blocks Ls)) s" for body and s :: "nat \<times> string \<times> Price"
    unfolding best by (rule for_ring_whole[OF R[unfolded lnx_def] len])
  ultimately show ?thesis using best by (simp add: print_side_def)
qed

text \<open>The dump of a well-formed book never fails, with the check of the order or without, and is the text of its two lists of levels.\<close>

lemma book_toString_view:
  assumes "half_view slot b BUY V W"
  shows "book_toString oid level_text ticker_id detailed check b = Inr (''Ticker:'' @ tickerIdToString ticker_id @ endl @ view_text oid detailed ''ASKS'' W
    @ endl @ replicate 26 (CHR '' '') @ ''X'' @ endl @ endl @ view_text oid detailed ''BIDS'' V)"
proof -
  obtain Bs As where rep: "half_rep slot b BUY Bs As" and V: "abs_side b Bs = V" "abs_side b As = W" using assms by (auto simp: half_view_def)
  have sides: "side_ok b BUY Bs" "side_ok b SELL As" using rep by (simp_all add: half_rep_def)
  have counts: "card (in_use (bk_orders b)) = length (view_orders V) + length (view_orders W)" "card (in_use (bk_levels b)) = length V + length W"
    using half_view_counts[OF assms] by simp_all
  have fin: "card (in_use P) \<le> pool_size P" for P :: "'z MemPool"
    using card_mono[of "{..<pool_size P}" "in_use P"] by (auto simp: in_use_def)
  have one: "length (snd x) \<le> length (view_orders (abs_side b Ls))" if "x \<in> set Ls" for x Ls
    using that by (induction Ls) (auto simp: view_orders_def abs_side_def)
  have orders: "length (snd x) \<le> pool_size (bk_orders b)" if "x \<in> set Bs \<union> set As" for x
    using that one[of x Bs] one[of x As] counts(1) fin[of "bk_orders b"] V by auto
  have levels: "length Bs \<le> pool_size (bk_levels b)" "length As \<le> pool_size (bk_levels b)"
    using counts(2) fin[of "bk_levels b"] V abs_side_length[of b Bs] abs_side_length[of b As] by auto
  have window: "price_in_window q" if "q \<in> set (map fst V) \<union> set (map fst W)" for q
    using that half_view_sides(1,2)[OF assms] by (auto simp: side_view_ok_def)
  have "sorted_after BUY (2 ^ 63 - 1) q" if "q \<in> set (map fst V)" for q
    using window[of q] that by (auto simp: sorted_after_def price_in_window_def ME_MAX_PRICE_LEVELS_def)
  moreover have "sorted_after SELL (- (2 ^ 63)) q" if "q \<in> set (map fst W)" for q
    using window[of q] that by (auto simp: sorted_after_def price_in_window_def ME_MAX_PRICE_LEVELS_def)
  ultimately show ?thesis
    using print_side_text[OF sides(1)] print_side_text[OF sides(2)] orders levels by (simp add: book_toString_def V)
qed

end

end
