(* ===== verification/BookDump.thy ===== *)
theory BookDump
  imports BookPrint MirrorTheorems
begin

text \<open>
  The dumps of the two books and of their parts: \<^verbatim>\<open>exchange/matcher/me_order.cpp\<close>, \<open>MEOrdersAtPrice::toString\<close>,
  \<open>MEOrderBook::toString\<close>, \<^verbatim>\<open>trading/strategy/market_order.cpp\<close>, \<open>MarketOrdersAtPrice::toString\<close>, \<open>BBO::toString\<close> and
  \<open>MarketOrderBook::toString\<close>. The walks are those of the theory BookPrint; after any session the dump of the client's book is the
  exchange's dump followed by the best bid and offer, and neither ever finds its levels out of order.
\<close>

section \<open>The exchange\<close>

definition MEOrder_toString :: "me_book \<Rightarrow> MEOrder \<Rightarrow> string" where
  "MEOrder_toString b o' =
     ''MEOrder['' @ ''ticker:'' @ tickerIdToString (mo_ticker_id o') @ '' '' @ ''cid:'' @ clientIdToString (mo_client_id o') @ '' ''
     @ ''oid:'' @ orderIdToString (mo_client_order_id o') @ '' '' @ ''moid:'' @ orderIdToString (mo_market_order_id o') @ '' ''
     @ ''side:'' @ sideToString (on_side o') @ '' '' @ ''price:'' @ priceToString (on_price o') @ '' '' @ ''qty:'' @ qtyToString (on_qty o') @ '' ''
     @ ''prio:'' @ priorityToString (on_priority o') @ '' ''
     @ ''prev:'' @ orderIdToString (id_or_invalid mo_market_order_id b (on_prev o')) @ '' ''
     @ ''next:'' @ orderIdToString (id_or_invalid mo_market_order_id b (on_next o')) @ '']''"

text \<open>\<open>p ? p->price_ : Price_INVALID\<close>\<close>

definition price_or_invalid :: "('k, 'e) book \<Rightarrow> ptr \<Rightarrow> Price" where
  "price_or_invalid b p = (case p of None \<Rightarrow> Price_INVALID | Some l \<Rightarrow> lv_price (LV b l))"

definition MEOrdersAtPrice_toString :: "me_book \<Rightarrow> OrdersAtPrice \<Rightarrow> string" where
  "MEOrdersAtPrice_toString b l =
     ''MEOrdersAtPrice['' @ ''side:'' @ sideToString (lv_side l) @ '' '' @ ''price:'' @ priceToString (lv_price l) @ '' ''
     @ ''first_me_order:'' @ (case lv_first l of None \<Rightarrow> ''null'' | Some i \<Rightarrow> MEOrder_toString b (ON b i)) @ '' ''
     @ ''prev:'' @ priceToString (price_or_invalid b (lv_prev l)) @ '' '' @ ''next:'' @ priceToString (price_or_invalid b (lv_next l)) @ '']''"

definition ob_toString :: "MEOrderBook \<Rightarrow> bool \<Rightarrow> bool \<Rightarrow> string result" where
  "ob_toString m detailed validity_check =
     book_toString mo_market_order_id MEOrdersAtPrice_toString (ob_ticker_id m) detailed validity_check (ob_book m)"

section \<open>The client\<close>

definition MarketOrder_toString :: "mk_book \<Rightarrow> MarketOrder \<Rightarrow> string" where
  "MarketOrder_toString b o' =
     ''MarketOrder['' @ ''oid:'' @ orderIdToString (mk_order_id o') @ '' '' @ ''side:'' @ sideToString (on_side o') @ '' ''
     @ ''price:'' @ priceToString (on_price o') @ '' '' @ ''qty:'' @ qtyToString (on_qty o') @ '' ''
     @ ''prio:'' @ priorityToString (on_priority o') @ '' ''
     @ ''prev:'' @ orderIdToString (id_or_invalid mk_order_id b (on_prev o')) @ '' ''
     @ ''next:'' @ orderIdToString (id_or_invalid mk_order_id b (on_next o')) @ '']''"

definition MarketOrdersAtPrice_toString :: "mk_book \<Rightarrow> OrdersAtPrice \<Rightarrow> string" where
  "MarketOrdersAtPrice_toString b l =
     ''MarketOrdersAtPrice['' @ ''side:'' @ sideToString (lv_side l) @ '' '' @ ''price:'' @ priceToString (lv_price l) @ '' ''
     @ ''first_mkt_order:'' @ (case lv_first l of None \<Rightarrow> ''null'' | Some i \<Rightarrow> MarketOrder_toString b (ON b i)) @ '' ''
     @ ''prev:'' @ priceToString (price_or_invalid b (lv_prev l)) @ '' '' @ ''next:'' @ priceToString (price_or_invalid b (lv_next l)) @ '']''"

definition BBO_toString :: "BBO \<Rightarrow> string" where
  "BBO_toString bbo = ''BBO{'' @ qtyToString (bid_qty bbo) @ ''@'' @ priceToString (bid_price bbo)
     @ ''X'' @ priceToString (ask_price bbo) @ ''@'' @ qtyToString (ask_qty bbo) @ ''}''"

definition mb_toString :: "MarketOrderBook \<Rightarrow> bool \<Rightarrow> bool \<Rightarrow> string result" where
  "mb_toString m detailed validity_check =
     bindR (book_toString mk_order_id MarketOrdersAtPrice_toString (mb_ticker_id m) detailed validity_check (mb_book m)) (\<lambda>ss.
     Inr (ss @ endl @ BBO_toString (mb_bbo m) @ endl))"

section \<open>Both dumps read the lists\<close>

interpretation me_dump: identified_orders mo_market_order_id
  by unfold_locales (simp add: unlinked_def)

interpretation mk_dump: identified_orders mk_order_id
  by unfold_locales (simp add: unlinked_def)

text \<open>What a dump shows of an order is what the mirror keeps of it.\<close>

lemma mirror_nth:
  assumes "i < length V"
  shows "fst (mirror V ! i) = fst (V ! i)" and "snd (mirror V ! i) = map to_market (snd (V ! i))"
  using assms by (simp_all add: mirror_def split_beta)

lemma orders_text_mirror: "orders_text mk_order_id (map to_market vs) = orders_text mo_market_order_id vs"
  unfolding orders_text_def by (rule arg_cong[of _ _ concat]) (simp add: before_map behind_map)

lemma level_block_text_mirror:
  assumes "i < length V"
  shows "level_block_text mk_order_id detailed (mirror V) i = level_block_text mo_market_order_id detailed V i"
proof -
  have "fst (before (mirror V) i) = fst (before V i)" "fst (behind (mirror V) i) = fst (behind V i)"
    unfolding mirror_def using assms by (simp_all add: before_map behind_map split_beta)
  then show ?thesis by (simp add: level_block_text_def mirror_nth[OF assms] orders_text_mirror comp_def)
qed

lemma view_text_mirror: "view_text mk_order_id detailed name (mirror V) = view_text mo_market_order_id detailed name V"
  unfolding view_text_def by (rule arg_cong[of _ _ concat]) (simp add: level_block_text_mirror)

text \<open>The ticker of a book never changes.\<close>

lemma session_ticker: "session t m us \<Longrightarrow> ob_ticker_id m = t"
proof (induction rule: session.induct)
  case session_start
  then show ?case by (simp add: MEOrderBook_new_def)
next
  case (session_new m us req m' evs)
  then show ?case using session_mirrored[OF session_new.hyps(1)] ob_add_admissible[of m _ _ req t] by (fastforce simp: mirrored_def)
next
  case (session_cancel m us c oid m' evs)
  then show ?case using session_mirrored[OF session_cancel.hyps(1)] ob_cancel_total[of m _ _ c oid t] by (fastforce simp: mirrored_def)
qed

lemma onMarketUpdate_ticker: "onMarketUpdate m u = Inr (m', cbs) \<Longrightarrow> mb_ticker_id m' = mb_ticker_id m"
  by (auto simp: onMarketUpdate_def updateBBO_def result_simps Let_def split: if_splits)

lemma feed_ticker: "feed us m = Inr m' \<Longrightarrow> mb_ticker_id m' = mb_ticker_id m"
  by (induction us arbitrary: m) (auto simp: result_simps dest: onMarketUpdate_ticker)

text \<open>C11: the diagnostic dumps. After any session, the exchange's book and the client's book that followed it are printed without the fatal error
  \<open>Bids/Asks not sorted\<close> and without running off a list, with the check of the order of the levels or without it, detailed or not. The text is
  that of the two lists of levels, and the client's text is the exchange's, followed by the best bid and offer.\<close>

theorem dumps_agree:
  assumes "session t m us" and "feed us (MarketOrderBook_new t (\<lambda>_. None) (\<lambda>_. None)) = Inr c"
  shows "\<exists>V W ss. ob_inv m BUY V W \<and> ob_toString m detailed check = Inr ss \<and> mb_toString c detailed check = Inr (ss @ endl @ BBO_toString (mb_bbo c) @ endl)
     \<and> ss = ''Ticker:'' @ tickerIdToString t @ endl @ view_text mo_market_order_id detailed ''ASKS'' W
         @ endl @ replicate 26 (CHR '' '') @ ''X'' @ endl @ endl @ view_text mo_market_order_id detailed ''BIDS'' V"
proof -
  obtain V W where inv: "ob_inv m BUY V W" "mb_inv c BUY (mirror V) (mirror W)"
    using session_mirrored[OF assms(1)] assms(2) by (auto simp: mirrored_def)
  have "half_view me_slot (ob_book m) BUY V W" "half_view mk_slot (mb_book c) BUY (mirror V) (mirror W)"
    using inv by (simp_all add: ob_inv_def mb_inv_def)
  from me_dump.book_toString_view[OF this(1)] mk_dump.book_toString_view[OF this(2)]
  show ?thesis using inv(1) session_ticker[OF assms(1)] feed_ticker[OF assms(2)]
    by (intro exI[of _ V] exI[of _ W]) (simp add: ob_toString_def mb_toString_def view_text_mirror MarketOrderBook_new_def)
qed

theorem dumps_agree_witness:
  "\<exists>m us c V W ss. session 0 m us \<and> us \<noteq> [] \<and> feed us (MarketOrderBook_new 0 (\<lambda>_. None) (\<lambda>_. None)) = Inr c
     \<and> ob_inv m BUY V W \<and> ob_toString m True True = Inr ss \<and> mb_toString c True True = Inr (ss @ endl @ BBO_toString (mb_bbo c) @ endl)"
  using sample_session session_mirrored dumps_agree by metis

end
