(* ===== verification/ExchangeMain.thy ===== *)
theory ExchangeMain
  imports MatchingEngine MarketDataPublisher OrderServer
begin

text \<open>
  \<^verbatim>\<open>exchange/exchange_main.cpp\<close>: what the exchange program builds before its threads run. Three queues connect the matching engine with
  the order server and the market data publisher; the publisher's constructor makes the snapshot synthesizer on the queue it owns.
  A queue that two threads share appears in the state of both. The file descriptors of the two multicast sockets, and what the arrays of the
  books hold before anything is written to them, are parameters.
\<close>

record Exchange =
  ex_matching_engine :: MatchingEngine
  ex_market_data_publisher :: MarketDataPublisher
  ex_snapshot_synthesizer :: SnapshotSynthesizer
  ex_order_server :: OrderServer

definition exchange_main :: "(nat \<Rightarrow> (me_key \<Rightarrow> ptr) \<times> (nat \<Rightarrow> ptr)) \<Rightarrow> int \<Rightarrow> int \<Rightarrow> Exchange result" where
  "exchange_main mem inc_fd snap_fd =
     (let client_requests = LFQueue_new ME_MAX_CLIENT_UPDATES MEClientRequest_default;
          client_responses = LFQueue_new ME_MAX_CLIENT_UPDATES MEClientResponse_default;
          market_updates = LFQueue_new ME_MAX_MARKET_UPDATES MEMarketUpdate_default
      in
      bindR (MarketDataPublisher_new market_updates inc_fd) (\<lambda>publisher.
      bindR (SnapshotSynthesizer_new (pub_snapshot_md_updates publisher) snap_fd) (\<lambda>synthesizer.
      Inr \<lparr> ex_matching_engine = MatchingEngine_new mem client_requests client_responses market_updates,
            ex_market_data_publisher = publisher, ex_snapshot_synthesizer = synthesizer,
            ex_order_server = OrderServer_new client_requests client_responses \<rparr>)))"

end
