(* ===== verification/EndToEnd.thy ===== *)
theory EndToEnd
  imports ExchangeMain MirrorTheorems MarketDataTheorems TradingMainTheorems
begin

text \<open>
  The market data path through both programs: matching engine, publisher, multicast, consumer, trade engine. The state has the threads'
  states and the datagrams in flight; a step is one round of the loop of one thread, in any order. The queue between the engine and the publisher is
  the one of the engine, the queue between the consumer and the trade engine is the one of the trade engine; each round of the other
  side starts from it and leaves it there. The network delivers the datagrams in order and without loss, and no queue overflows:
  what loss and overflow do is shown elsewhere.

  In every reachable state, the client's book of a ticker and the updates still on their way to it determine the exchange's book.
\<close>

section \<open>State and steps\<close>

record path =
  pa_engine :: MatchingEngine
  pa_publisher :: MarketDataPublisher
  pa_wire :: "byte list list"
  pa_consumer :: MarketDataConsumer
  pa_trader :: TradeEngine

text \<open>The requests the books and the client's arrays are sized for.\<close>

definition mirrorable :: "MatchingEngine \<Rightarrow> MEClientRequest \<Rightarrow> bool" where
  "mirrorable e req \<longleftrightarrow> admissible e req
     \<and> (req_type req = Req_NEW \<longrightarrow> unat (ob_next_market_order_id (eng_books e (unat (req_ticker_id req)))) < ME_MAX_ORDER_IDS)"

text \<open>The rounds of the threads: of the matching engine, the publisher, the consumer and the trade engine.\<close>

inductive match_round :: "path \<Rightarrow> path \<Rightarrow> bool" where
  match: "engine_poll (pa_engine s) = Inr e'
    \<Longrightarrow> (\<And>req. getNextToRead (eng_requests (pa_engine s)) = Some req \<Longrightarrow> mirrorable (pa_engine s) req)
    \<Longrightarrow> num_elements (eng_updates e') \<le> lf_capacity (eng_updates e')
    \<Longrightarrow> match_round s (s\<lparr> pa_engine := e' \<rparr>)"

inductive publish_round :: "path \<Rightarrow> path \<Rightarrow> bool" where
  publish: "publisher_round net ((pa_publisher s)\<lparr> pub_outgoing_md_updates := eng_updates (pa_engine s) \<rparr>) = Inr (p', datagram)
    \<Longrightarrow> McastBufferSize \<le> io_sent net
    \<Longrightarrow> num_elements (pub_snapshot_md_updates p') \<le> lf_capacity (pub_snapshot_md_updates p')
    \<Longrightarrow> pub_next_inc_seq_num p' \<le> 2 ^ 64
    \<Longrightarrow> publish_round s (s\<lparr> pa_publisher := p', pa_engine := (pa_engine s)\<lparr> eng_updates := pub_outgoing_md_updates p' \<rparr>,
          pa_wire := pa_wire s @ [datagram] \<rparr>)"

inductive receive_round :: "path \<Rightarrow> path \<Rightarrow> bool" where
  receive: "consumer_round sync \<lparr> io_recv = concat (take k (pa_wire s)), io_sent = m, io_time = now \<rparr> io2
          ((pa_consumer s)\<lparr> con_incoming_md_updates := te_incoming_md_updates (pa_trader s) \<rparr>) = Inr c'
    \<Longrightarrow> length (concat (take k (pa_wire s))) \<le> McastBufferSize
    \<Longrightarrow> num_elements (con_incoming_md_updates c') \<le> lf_capacity (con_incoming_md_updates c')
    \<Longrightarrow> receive_round s (s\<lparr> pa_consumer := c', pa_trader := (pa_trader s)\<lparr> te_incoming_md_updates := con_incoming_md_updates c' \<rparr>,
          pa_wire := drop k (pa_wire s) \<rparr>)"

inductive trade_round :: "path \<Rightarrow> path \<Rightarrow> bool" where
  trade: "te_round fp clock (pa_trader s) = Inr te' \<Longrightarrow> trade_round s (s\<lparr> pa_trader := te' \<rparr>)"

text \<open>What the other threads do to their queues: the order server, the snapshot synthesizer and the order gateway.\<close>

inductive other_round :: "path \<Rightarrow> path \<Rightarrow> bool" where
  others: "lf_inv q \<Longrightarrow> lf_capacity q = ME_MAX_MARKET_UPDATES
    \<Longrightarrow> other_round s (s\<lparr> pa_engine := (pa_engine s)\<lparr> eng_requests := q1, eng_responses := q2 \<rparr>,
          pa_publisher := (pa_publisher s)\<lparr> pub_snapshot_md_updates := q \<rparr>,
          pa_trader := (pa_trader s)\<lparr> te_outgoing_ogw_requests := q3, te_incoming_ogw_responses := q4 \<rparr> \<rparr>)"

definition path_step :: "path \<Rightarrow> path \<Rightarrow> bool" where
  "path_step s s' \<longleftrightarrow> match_round s s' \<or> publish_round s s' \<or> receive_round s s' \<or> trade_round s s' \<or> other_round s s'"

inductive path_reachable :: "path \<Rightarrow> bool" where
  start: "exchange_main (\<lambda>_. (\<lambda>_. None, \<lambda>_. None)) inc_fd snap_fd = Inr ex
    \<Longrightarrow> trading_setup e vwaps (\<lambda>_ _. None) (\<lambda>_ _. None) now argv = Inr (Some (algo_type, te))
    \<Longrightarrow> MarketDataConsumer_new (te_incoming_md_updates te) fd joined = Inr c
    \<Longrightarrow> path_reachable \<lparr> pa_engine = ex_matching_engine ex, pa_publisher = ex_market_data_publisher ex, pa_wire = [],
          pa_consumer = c, pa_trader = te \<rparr>"
| step: "path_reachable s \<Longrightarrow> path_step s s' \<Longrightarrow> path_reachable s'"

text \<open>The updates on their way to the client's books, oldest first: in the client's queue, in the datagrams, in the exchange's queue.\<close>

definition datagram_updates :: "byte list \<Rightarrow> MEMarketUpdate list" where
  "datagram_updates d = map (\<lambda>m. mdp_update (decode_MDPMarketUpdate m)) (whole_messages (length d div sizeof_MDPMarketUpdate) d)"

definition in_flight :: "path \<Rightarrow> MEMarketUpdate list" where
  "in_flight s = lf_contents (te_incoming_md_updates (pa_trader s)) @ concat (map datagram_updates (pa_wire s))
     @ lf_contents (eng_updates (pa_engine s))"

definition of_ticker :: "nat \<Rightarrow> MEMarketUpdate list \<Rightarrow> MEMarketUpdate list" where
  "of_ticker t us = filter (\<lambda>u. unat (mu_ticker_id u) = t) us"

lemma of_ticker_simps [simp]:
  "of_ticker t [] = []" "of_ticker t (xs @ ys) = of_ticker t xs @ of_ticker t ys"
  "of_ticker t (u # us) = (if unat (mu_ticker_id u) = t then u # of_ticker t us else of_ticker t us)"
  "set (of_ticker t us) = {u \<in> set us. unat (mu_ticker_id u) = t}"
  by (simp_all add: of_ticker_def)

section \<open>The updates of a session\<close>

text \<open>Every update of a session names its ticker and a price that fits the wire.\<close>

lemma fill_event_update:
  assumes "u \<in> set (updates_of (fill_events t c side co mo x))"
  shows "mu_ticker_id u = t \<and> mu_price u = on_price (fst x)"
  using assms by (cases x) (auto simp: fill_events_def)

lemma fill_events_update:
  assumes "u \<in> set (updates_of (concat (map (fill_events t c side co mo) fs)))"
  shows "mu_ticker_id u = t \<and> (\<exists>x \<in> set fs. mu_price u = on_price (fst x))"
  using assms by (induction fs) (auto dest: fill_event_update)

lemma fills_in_view:
  assumes "x \<in> set (fills_of (fill_side side price qty W))"
  shows "on_price (fst x) \<in> on_price ` set (view_orders W)"
proof -
  have "fst x \<in> set (map fst (fills_of (fill_side side price qty W)))" using assms by simp
  then show ?thesis unfolding fill_side_in_order by (auto dest: in_set_takeD)
qed

lemma spec_add_updates:
  assumes spec: "spec_add n c co t side price qty V W = (V', W', evs)" and u: "u \<in> set (updates_of evs)"
  shows "mu_ticker_id u = t \<and> mu_price u \<in> insert price (on_price ` set (view_orders W))"
proof -
  let ?fills = "concat (map (fill_events t c side co (ucast (ucast n :: Qty))) (fills_of (fill_side side price qty W)))"
  consider "u \<in> set (updates_of ?fills)" | "mu_ticker_id u = t" "mu_price u = price"
    using spec u by (auto simp: spec_add_def Let_def split: if_splits)
  then show ?thesis
  proof cases
    case 1
    then obtain x where "mu_ticker_id u = t" "x \<in> set (fills_of (fill_side side price qty W))" "mu_price u = on_price (fst x)"
      using fill_events_update by blast
    then show ?thesis using fills_in_view[of x side price qty W] by simp
  qed simp
qed

lemma view_prices: "side_view_ok side V \<Longrightarrow> v \<in> set (view_orders V) \<Longrightarrow> price_in_window (on_price v)"
  by (fastforce simp: side_view_ok_def view_orders_def)

lemma window_price_ok: "price_in_window p \<Longrightarrow> price_ok p"
  by (simp add: price_in_window_def price_ok_def ME_MAX_PRICE_LEVELS_def)

lemma session_inv:
  assumes "session t m us" and "side = BUY \<or> side = SELL"
  obtains V W where "ob_inv m side V W" and "side_view_ok side V" and "side_view_ok (opp side) W"
  using session_mirrored[OF assms(1)] mirrored_side[OF assms(2)] half_view_sides(1,2) by (metis ob_inv_def)

lemma session_updates: "session t m us \<Longrightarrow> u \<in> set us \<Longrightarrow> mu_ticker_id u = t \<and> price_ok (mu_price u)"
proof (induction rule: session.induct)
  case (session_new m us req m' evs)
  have side: "req_side req = BUY \<or> req_side req = SELL" using session_new.hyps(2) by (simp add: admissible_new_def)
  obtain V W where VW: "ob_inv m (req_side req) V W" "side_view_ok (opp (req_side req)) W" by (rule session_inv[OF session_new.hyps(1) side])
  obtain V' W' where spec: "spec_add (ob_next_market_order_id m) (req_client_id req) (req_order_id req) t (req_side req)
      (req_price req) (req_qty req) V W = (V', W', evs)"
    using ob_add_events[OF VW(1) session_new.hyps(2,4)] by blast
  have "price_in_window (req_price req)" using session_new.hyps(2) by (simp add: admissible_new_def)
  then have "mu_ticker_id u = t \<and> price_ok (mu_price u)" if "u \<in> set (updates_of evs)"
    using spec_add_updates[OF spec that] view_prices[OF VW(2)] window_price_ok by auto
  then show ?case using session_new by auto
next
  case (session_cancel m us c oid m' evs)
  obtain V W where VW: "ob_inv m BUY V W" "side_view_ok BUY V" "side_view_ok SELL W" using session_inv[OF session_cancel.hyps(1), of BUY] by auto
  have WV: "ob_inv m SELL W V" using VW(1) ob_inv_swap[of BUY] by simp
  have "mu_ticker_id u = t \<and> price_ok (mu_price u)" if u: "u \<in> set (updates_of evs)"
  proof (cases "\<exists>v \<in> set (view_orders V) \<union> set (view_orders W). me_slot v = Inr (unat c, unat oid)")
    case True
    then obtain v where v: "v \<in> set (view_orders V) \<union> set (view_orders W)" "me_slot v = Inr (unat c, unat oid)" by blast
    then have "evs = cancel_events c oid t v"
      using ob_cancel_ok[OF VW(1), of v c oid t] ob_cancel_ok[OF WV, of v c oid t] session_cancel.hyps(3) by auto
    moreover have "price_ok (on_price v)" using v(1) view_prices[OF VW(2)] view_prices[OF VW(3)] window_price_ok by blast
    ultimately show ?thesis using u by (simp add: cancel_events_def)
  next
    case False
    then have "evs = reject_events c oid t"
      using ob_cancel_miss[of m BUY V W c oid t] VW(1) session_cancel.hyps(2,3) by (auto simp: ob_inv_def)
    then show ?thesis using u by (simp add: reject_events_def)
  qed
  then show ?case using session_cancel by auto
qed simp

section \<open>Datagrams\<close>

text \<open>The datagrams of successive rounds, numbered on from \<open>n\<close>.\<close>

fun datagrams :: "nat \<Rightarrow> MEMarketUpdate list list \<Rightarrow> byte list list" where
  "datagrams n [] = []"
| "datagrams n (us # uss) = concat (map encode_MDPMarketUpdate (mdp_number n us)) # datagrams (n + length us) uss"

lemma concat_datagrams: "concat (datagrams n uss) = concat (map encode_MDPMarketUpdate (mdp_number n (concat uss)))"
  by (induction uss arbitrary: n) (simp_all add: mdp_number_append)

lemma datagrams_append: "datagrams n (xs @ ys) = datagrams n xs @ datagrams (n + length (concat xs)) ys"
  by (induction xs arbitrary: n) (simp_all add: add.assoc)

lemma take_datagrams: "take k (datagrams n uss) = datagrams n (take k uss)"
  by (induction uss arbitrary: n k) (simp_all add: take_Cons' drop_Cons')

lemma drop_datagrams: "drop k (datagrams n uss) = datagrams (n + length (concat (take k uss))) (drop k uss)"
  by (induction uss arbitrary: n k) (simp_all add: take_Cons' drop_Cons' add.assoc)

lemma decode_numbered:
  assumes "mdp_wire_ok us n"
  shows "map (\<lambda>m. mdp_update (decode_MDPMarketUpdate m)) (map encode_MDPMarketUpdate (mdp_number n us)) = us"
  using assms
proof (induction us arbitrary: n)
  case (Cons u us)
  then have "decode_MDPMarketUpdate (encode_MDPMarketUpdate \<lparr> mdp_seq_num = n, mdp_update = u \<rparr>) = \<lparr> mdp_seq_num = n, mdp_update = u \<rparr>"
    by (intro mdp_update_roundtrip) (simp_all add: mdp_wire_ok_def)
  then show ?case using Cons by (simp add: mdp_wire_ok_def)
qed simp

lemma datagram_updates_numbered:
  assumes "mdp_wire_ok us n"
  shows "datagram_updates (concat (map encode_MDPMarketUpdate (mdp_number n us))) = us"
  using buffer_messages[of "[]" _ "mdp_number n us"] decode_numbered[OF assms] by (simp add: datagram_updates_def sizeof_defs)

lemma datagram_updates_datagrams: "mdp_wire_ok (concat uss) n \<Longrightarrow> concat (map datagram_updates (datagrams n uss)) = concat uss"
proof (induction uss arbitrary: n)
  case (Cons us uss)
  then have "mdp_wire_ok us n" and "mdp_wire_ok (concat uss) (n + length us)" by (auto simp: mdp_wire_ok_def)
  then show ?case using Cons.IH by (simp add: datagram_updates_numbered)
qed simp

section \<open>The rounds of the trade engine\<close>

text \<open>Only the delivery of an update changes the books; nothing but the loop takes updates from the queue.\<close>

definition same_market :: "TradeEngine \<Rightarrow> TradeEngine \<Rightarrow> bool" where
  "same_market te te' \<longleftrightarrow> te_ticker_order_book te' = te_ticker_order_book te \<and> te_incoming_md_updates te' = te_incoming_md_updates te"

lemma with_orders_market: "with_orders f te = Inr te' \<Longrightarrow> same_market te te'"
  by (auto simp: with_orders_def result_simps same_market_def)

lemma te_callback_market: "te_callback e now bbo cb te = Inr te' \<Longrightarrow> same_market te te'"
  by (cases cb)
    (auto simp: te_onTradeUpdate_def te_onOrderBookUpdate_def dispatchOnTradeUpdate_def dispatchOnOrderBookUpdate_def result_simps
       same_market_def dest!: with_orders_market)

lemma te_callbacks_market: "foldR (te_callback e now bbo) cbs te = Inr te' \<Longrightarrow> same_market te te'"
  by (induction cbs arbitrary: te) (auto simp: result_simps same_market_def dest!: te_callback_market)

lemma te_onOrderUpdate_market: "te_onOrderUpdate e r te = Inr te' \<Longrightarrow> same_market te te'"
  by (auto simp: te_onOrderUpdate_def dispatchOnOrderUpdate_def result_simps same_market_def dest!: with_orders_market split: if_splits)

lemma te_responses_market: "te_responses fuel e clock te = Inr te' \<Longrightarrow> same_market te te'"
proof (induction fuel arbitrary: te)
  case (Suc fuel)
  then show ?case
    by (subst (asm) (2) te_responses.simps)
       (fastforce simp: result_simps same_market_def te_tick_def split: option.splits dest!: te_onOrderUpdate_market)
qed (subst (asm) te_responses.simps, auto simp: same_market_def split: option.splits)

lemma te_market_update_market:
  assumes "te_market_update e now u te = Inr te'"
  shows "te_incoming_md_updates te' = te_incoming_md_updates te \<and> unat (mu_ticker_id u) < ME_MAX_TICKERS
    \<and> feed (of_ticker t [u]) (te_ticker_order_book te t) = Inr (te_ticker_order_book te' t)"
  using assms by (auto simp: te_market_update_def te_deliver_def result_simps Let_def same_market_def dest!: te_callbacks_market)

lemma te_updates_feed:
  assumes "te_updates fuel e clock te = Inr te'" and "lf_inv (te_incoming_md_updates te)"
  shows "lf_inv (te_incoming_md_updates te') \<and> lf_contents (te_incoming_md_updates te') = []
    \<and> lf_capacity (te_incoming_md_updates te') = lf_capacity (te_incoming_md_updates te)
    \<and> feed (of_ticker t (lf_contents (te_incoming_md_updates te))) (te_ticker_order_book te t) = Inr (te_ticker_order_book te' t)"
  using assms
proof (induction fuel arbitrary: te)
  case 0
  then show ?case by (subst (asm) te_updates.simps) (auto simp: getNextToRead_contents split: option.splits list.splits)
next
  case (Suc fuel)
  let ?q = "te_incoming_md_updates te"
  show ?case
  proof (cases "lf_contents ?q")
    case Nil
    then show ?thesis using Suc.prems by (subst (asm) te_updates.simps) (auto simp: getNextToRead_contents)
  next
    case (Cons u us)
    note nx = lf_pop(1)[OF Suc.prems(2) Cons]
    obtain te1 q where te1: "te_market_update e (clock (2 * te_events te)) u te = Inr te1" "updateReadIndex (te_incoming_md_updates te1) = Inr q"
        "te_updates fuel e clock (te_tick clock (te1\<lparr> te_incoming_md_updates := q \<rparr>)) = Inr te'"
      using Suc.prems(1) nx by (subst (asm) te_updates.simps) (auto simp: result_simps)
    have m: "te_incoming_md_updates te1 = ?q" "feed (of_ticker t [u]) (te_ticker_order_book te t) = Inr (te_ticker_order_book te1 t)"
      using te_market_update_market[OF te1(1), of t] by simp_all
    have q: "lf_inv q" "lf_contents q = us" "lf_capacity q = lf_capacity ?q" using lf_pop(2)[OF Suc.prems(2) Cons] te1(2) m(1) by auto
    have "feed (of_ticker t us) (te_ticker_order_book te1 t) = Inr (te_ticker_order_book te' t)"
        "lf_inv (te_incoming_md_updates te') \<and> lf_contents (te_incoming_md_updates te') = []
         \<and> lf_capacity (te_incoming_md_updates te') = lf_capacity ?q"
      using Suc.IH[OF te1(3)] q by (simp_all add: te_tick_def)
    moreover have "of_ticker t (u # us) = of_ticker t [u] @ of_ticker t us" by simp
    ultimately show ?thesis using m(2) Cons by (simp only: feed_append bindR.simps)
  qed
qed

lemma te_round_feed:
  assumes "te_round e clock te = Inr te'" and "lf_inv (te_incoming_md_updates te)"
  shows "lf_inv (te_incoming_md_updates te') \<and> lf_contents (te_incoming_md_updates te') = []
    \<and> lf_capacity (te_incoming_md_updates te') = lf_capacity (te_incoming_md_updates te)
    \<and> feed (of_ticker t (lf_contents (te_incoming_md_updates te))) (te_ticker_order_book te t) = Inr (te_ticker_order_book te' t)"
proof -
  obtain te1 where "te_responses (lf_size (te_incoming_ogw_responses te)) e clock te = Inr te1"
      "te_updates (lf_size (te_incoming_md_updates te1)) e clock te1 = Inr te'"
    using assms(1) by (auto simp: te_round_def result_simps)
  then show ?thesis using te_updates_feed[of _ e clock te1 te' t] te_responses_market assms(2) by (fastforce simp: same_market_def)
qed

section \<open>The rounds of the publisher and the consumer\<close>

text \<open>What a publisher's round leaves of the queues.\<close>

lemma publish_fold_frame:
  "foldR publish_update us p = Inr p' \<Longrightarrow>
     pub_snapshot_md_updates p' = foldl lf_push (pub_snapshot_md_updates p) (mdp_number (pub_next_inc_seq_num p) us)
   \<and> pub_next_inc_seq_num p' = pub_next_inc_seq_num p + length us"
  by (induction us arbitrary: p) (auto simp: publish_update_def result_simps)

lemma num_elements_pushed: "num_elements (foldl lf_push q xs) = num_elements q + length xs"
  by (induction xs arbitrary: q) (simp_all add: lf_push_def updateWriteIndex_def)

lemma capacity_pushed: "lf_capacity (foldl lf_push q xs) = lf_capacity q"
  by (induction xs arbitrary: q) simp_all

lemma publisher_round_frame:
  assumes "publisher_round net p = Inr (p', wire)" and "lf_inv (pub_outgoing_md_updates p)"
  shows "lf_inv (pub_outgoing_md_updates p') \<and> lf_capacity (pub_outgoing_md_updates p') = lf_capacity (pub_outgoing_md_updates p)
     \<and> pub_snapshot_md_updates p' = foldl lf_push (pub_snapshot_md_updates p) (mdp_number (pub_next_inc_seq_num p) (lf_contents (pub_outgoing_md_updates p)))"
proof -
  let ?q = "pub_outgoing_md_updates p"
  obtain q where q: "lf_inv q" "lf_capacity q = lf_capacity ?q"
      "\<forall>t. lf_drain (lf_size ?q) publish_update ?q t = bindR (foldR publish_update (lf_contents ?q) t) (\<lambda>s'. Inr (q, s'))"
    using lf_drain_contents[OF assms(2), of "lf_size ?q" publish_update] by (auto simp: lf_size_def)
  then obtain p1 where p1: "foldR publish_update (lf_contents ?q) p = Inr p1" "pub_outgoing_md_updates p' = q"
      "pub_snapshot_md_updates p' = pub_snapshot_md_updates p1"
    using assms(1) by (auto simp: publisher_round_def result_simps)
  then show ?thesis using q(1,2) publish_fold_frame[OF p1(1)] by simp
qed

lemma publisher_round_queues:
  assumes "publisher_round net p = Inr (p', wire)" and "lf_inv (pub_outgoing_md_updates p)" and "lf_inv (pub_snapshot_md_updates p)"
    and "num_elements (pub_snapshot_md_updates p') \<le> lf_capacity (pub_snapshot_md_updates p')"
  shows "lf_inv (pub_outgoing_md_updates p') \<and> lf_capacity (pub_outgoing_md_updates p') = lf_capacity (pub_outgoing_md_updates p)
     \<and> lf_inv (pub_snapshot_md_updates p') \<and> lf_capacity (pub_snapshot_md_updates p') = lf_capacity (pub_snapshot_md_updates p)
     \<and> num_elements (pub_snapshot_md_updates p) + num_elements (pub_outgoing_md_updates p) \<le> lf_capacity (pub_snapshot_md_updates p)"
  using publisher_round_frame[OF assms(1,2)] assms(4)
    lq.push_all[OF assms(3), of "mdp_number (pub_next_inc_seq_num p) (lf_contents (pub_outgoing_md_updates p))"]
  by (simp add: num_elements_pushed capacity_pushed)

text \<open>The sockets of a consumer that follows the incremental stream.\<close>

definition following :: "MarketDataConsumer \<Rightarrow> bool" where
  "following c \<longleftrightarrow> \<not> con_in_recovery c \<and> 0 \<le> mc_fd (con_incremental_socket c) \<and> mc_in (con_incremental_socket c) = []
     \<and> mc_out (con_incremental_socket c) = [] \<and> mc_fd (con_snapshot_socket c) = - 1 \<and> mc_in (con_snapshot_socket c) = []
     \<and> mc_out (con_snapshot_socket c) = []"

text \<open>The second half of a round does nothing while the snapshot stream is not joined.\<close>

lemma snapshot_socket_idle: "following c \<Longrightarrow> con_sendAndRecv sync True io c = Inr c"
  by (simp add: following_def con_sendAndRecv_def con_socket_def con_set_socket_def mcast_sendAndRecv_def Let_def)

lemma consumer_round_in_sequence:
  assumes "following c" and "mdp_wire_ok us (con_next_exp_inc_seq_num c)"
    and "io_recv io1 = concat (map encode_MDPMarketUpdate (mdp_number (con_next_exp_inc_seq_num c) us))"
    and "sizeof_MDPMarketUpdate * length us \<le> McastBufferSize"
  shows "consumer_round sync io1 io2 c = Inr (c\<lparr> con_next_exp_inc_seq_num := con_next_exp_inc_seq_num c + length us,
       con_incoming_md_updates := foldl lf_push (con_incoming_md_updates c) us \<rparr>)" (is "_ = Inr ?c")
proof -
  have "con_sendAndRecv sync False io1 c = Inr ?c"
    by (rule sendAndRecv_in_sequence) (use assms in \<open>simp_all add: following_def\<close>)
  moreover have "following ?c" using assms(1) by (simp add: following_def)
  ultimately show ?thesis using snapshot_socket_idle[of ?c] by (simp add: consumer_round_def)
qed

section \<open>The invariant\<close>

text \<open>
  Ghosts: the updates the client has applied, and the batches in flight. All updates in order, restricted to a ticker, are those of
  the session that led to the exchange's book; those applied led to the client's book; the datagrams encode the batches, numbered on
  from what the consumer expects to what the publisher sends next.
\<close>

definition path_books :: "path \<Rightarrow> MEMarketUpdate list \<Rightarrow> MEMarketUpdate list \<Rightarrow> bool" where
  "path_books s applied all \<longleftrightarrow>
     (\<forall>t < ME_MAX_TICKERS. session (of_nat t) (eng_books (pa_engine s) t) (of_ticker t all)
        \<and> feed (of_ticker t applied) (MarketOrderBook_new (of_nat t) (\<lambda>_. None) (\<lambda>_. None)) = Inr (te_ticker_order_book (pa_trader s) t))
     \<and> (\<forall>u \<in> set all. unat (mu_ticker_id u) < ME_MAX_TICKERS)"

definition path_net :: "path \<Rightarrow> MEMarketUpdate list list \<Rightarrow> bool" where
  "path_net s uss \<longleftrightarrow> pa_wire s = datagrams (con_next_exp_inc_seq_num (pa_consumer s)) uss
     \<and> pub_next_inc_seq_num (pa_publisher s) = con_next_exp_inc_seq_num (pa_consumer s) + length (concat uss)
     \<and> pub_next_inc_seq_num (pa_publisher s) \<le> 2 ^ 64 \<and> mc_out (pub_incremental_socket (pa_publisher s)) = [] \<and> following (pa_consumer s)"

definition path_queues :: "path \<Rightarrow> bool" where
  "path_queues s \<longleftrightarrow> lf_inv (eng_updates (pa_engine s)) \<and> lf_capacity (eng_updates (pa_engine s)) = ME_MAX_MARKET_UPDATES
     \<and> lf_inv (te_incoming_md_updates (pa_trader s)) \<and> lf_capacity (te_incoming_md_updates (pa_trader s)) = ME_MAX_MARKET_UPDATES
     \<and> lf_inv (pub_snapshot_md_updates (pa_publisher s)) \<and> lf_capacity (pub_snapshot_md_updates (pa_publisher s)) = ME_MAX_MARKET_UPDATES"

definition path_inv :: "path \<Rightarrow> bool" where
  "path_inv s \<longleftrightarrow> path_queues s \<and> (\<exists>applied uss. path_net s uss
     \<and> path_books s applied (applied @ lf_contents (te_incoming_md_updates (pa_trader s)) @ concat uss @ lf_contents (eng_updates (pa_engine s))))"

lemma path_books_wire:
  assumes "path_books s applied all" and "set us \<subseteq> set all" and "n + length us \<le> 2 ^ 64"
  shows "mdp_wire_ok us n"
proof -
  have "price_ok (mu_price u)" if "u \<in> set us" for u
  proof -
    have "unat (mu_ticker_id u) < ME_MAX_TICKERS" "u \<in> set (of_ticker (unat (mu_ticker_id u)) all)" using assms(1,2) that by (auto simp: path_books_def)
    then show ?thesis using assms(1) session_updates[of "of_nat (unat (mu_ticker_id u))"] unfolding path_books_def by blast
  qed
  then show ?thesis using assms(3) by (simp add: mdp_wire_ok_def)
qed

section \<open>Every step keeps it\<close>

text \<open>The request of an engine's round extends the session of its ticker.\<close>

lemma process_session:
  assumes run: "processClientRequest e req = Inr e'" and adm: "mirrorable e req"
    and ses: "session (req_ticker_id req) (eng_books e (unat (req_ticker_id req))) us"
  shows "\<exists>m evs. session (req_ticker_id req) m (us @ updates_of evs) \<and> eng_books e' = (eng_books e)(unat (req_ticker_id req) := m)
     \<and> eng_updates e' = foldl lf_push (eng_updates e) (updates_of evs) \<and> eng_requests e' = eng_requests e"
proof -
  let ?t = "unat (req_ticker_id req)"
  have t: "?t < ME_MAX_TICKERS" using adm by (simp add: mirrorable_def admissible_def)
  obtain m evs where m: "(case req_type req of
              Req_NEW \<Rightarrow> ob_add (eng_books e ?t) (req_client_id req) (req_order_id req) (req_ticker_id req) (req_side req) (req_price req) (req_qty req)
            | Req_CANCEL \<Rightarrow> ob_cancel (eng_books e ?t) (req_client_id req) (req_order_id req) (req_ticker_id req)
            | Req_INVALID \<Rightarrow> FATAL (''Received invalid client-request-type:'' @ clientRequestTypeToString (req_type req))) = Inr (m, evs)"
      "e' = fold send_event evs (e\<lparr> eng_books := (eng_books e)(?t := m) \<rparr>)"
    using run t unfolding processClientRequest_def by (auto simp: result_simps)
  have "session (req_ticker_id req) m (us @ updates_of evs)"
  proof (cases "req_type req")
    case Req_NEW
    then show ?thesis using m(1) adm by (intro session_new[OF ses]) (simp_all add: mirrorable_def admissible_def)
  next
    case Req_CANCEL
    then show ?thesis using m(1) adm by (intro session_cancel[OF ses]) (simp_all add: mirrorable_def admissible_def)
  next
    case Req_INVALID
    then show ?thesis using adm by (simp add: mirrorable_def admissible_def)
  qed
  then show ?thesis using m(2) by (auto simp: send_events)
qed

lemma poll_books:
  assumes books: "path_books s applied all" and run: "engine_poll (pa_engine s) = Inr e'"
    and adm: "\<And>req. getNextToRead (eng_requests (pa_engine s)) = Some req \<Longrightarrow> mirrorable (pa_engine s) req"
  shows "\<exists>us. eng_updates e' = foldl lf_push (eng_updates (pa_engine s)) us \<and> path_books (s\<lparr> pa_engine := e' \<rparr>) applied (all @ us)"
proof (cases "getNextToRead (eng_requests (pa_engine s))")
  case None
  then have "e' = pa_engine s" using run by (simp add: engine_poll_def)
  then show ?thesis using books by (intro exI[of _ "[]"]) (simp add: path_books_def)
next
  case (Some req)
  let ?e = "pa_engine s" and ?t = "unat (req_ticker_id req)"
  have m: "mirrorable ?e req" using adm Some .
  then have t: "?t < ME_MAX_TICKERS" by (simp add: mirrorable_def admissible_def)
  obtain e1 where e1: "processClientRequest ?e req = Inr e1" "eng_books e' = eng_books e1" "eng_updates e' = eng_updates e1"
    using run Some by (auto simp: engine_poll_def result_simps)
  have "session (of_nat ?t) (eng_books ?e ?t) (of_ticker ?t all)" using books t unfolding path_books_def by blast
  then have "session (req_ticker_id req) (eng_books ?e ?t) (of_ticker ?t all)" by simp
  from process_session[OF e1(1) m this] obtain b evs where b: "session (req_ticker_id req) b (of_ticker ?t all @ updates_of evs)"
      "eng_books e1 = (eng_books ?e)(?t := b)" "eng_updates e1 = foldl lf_push (eng_updates ?e) (updates_of evs)" by blast
  have own: "mu_ticker_id u = req_ticker_id req" if "u \<in> set (updates_of evs)" for u using session_updates[OF b(1), of u] that by simp
  then have "of_ticker t (updates_of evs) = (if t = ?t then updates_of evs else [])" for t by (auto simp: of_ticker_def intro!: filter_True filter_False)
  then have "path_books (s\<lparr> pa_engine := e' \<rparr>) applied (all @ updates_of evs)"
    using books b(1,2) e1(2) own t unfolding path_books_def by auto
  then show ?thesis using b(3) e1(3) by auto
qed

lemma match_step:
  assumes inv: "path_inv s" and run: "engine_poll (pa_engine s) = Inr e'"
    and adm: "\<And>req. getNextToRead (eng_requests (pa_engine s)) = Some req \<Longrightarrow> mirrorable (pa_engine s) req"
    and room: "num_elements (eng_updates e') \<le> lf_capacity (eng_updates e')"
  shows "path_inv (s\<lparr> pa_engine := e' \<rparr>)"
proof -
  obtain applied uss where q: "path_queues s" and net: "path_net s uss"
    and books: "path_books s applied (applied @ lf_contents (te_incoming_md_updates (pa_trader s)) @ concat uss @ lf_contents (eng_updates (pa_engine s)))"
    using inv by (auto simp: path_inv_def)
  obtain us where us: "eng_updates e' = foldl lf_push (eng_updates (pa_engine s)) us"
      "path_books (s\<lparr> pa_engine := e' \<rparr>) applied
         ((applied @ lf_contents (te_incoming_md_updates (pa_trader s)) @ concat uss @ lf_contents (eng_updates (pa_engine s))) @ us)"
    using poll_books[OF books run adm] by blast
  have "lf_inv (eng_updates (pa_engine s))" using q by (simp add: path_queues_def)
  then have p: "lf_inv (eng_updates e')" "lf_contents (eng_updates e') = lf_contents (eng_updates (pa_engine s)) @ us"
      "lf_capacity (eng_updates e') = lf_capacity (eng_updates (pa_engine s))"
    using lq.push_all[of "eng_updates (pa_engine s)" us] room us(1) by (simp_all add: num_elements_pushed capacity_pushed)
  then show ?thesis using q net us(2) unfolding path_inv_def by (auto simp: path_queues_def path_net_def)
qed

lemma publish_step:
  assumes inv: "path_inv s"
    and run: "publisher_round net ((pa_publisher s)\<lparr> pub_outgoing_md_updates := eng_updates (pa_engine s) \<rparr>) = Inr (p', datagram)"
    and sent: "McastBufferSize \<le> io_sent net"
    and room: "num_elements (pub_snapshot_md_updates p') \<le> lf_capacity (pub_snapshot_md_updates p')" and num: "pub_next_inc_seq_num p' \<le> 2 ^ 64"
  shows "path_inv (s\<lparr> pa_publisher := p', pa_engine := (pa_engine s)\<lparr> eng_updates := pub_outgoing_md_updates p' \<rparr>, pa_wire := pa_wire s @ [datagram] \<rparr>)"
    (is "path_inv ?s")
proof -
  let ?p = "(pa_publisher s)\<lparr> pub_outgoing_md_updates := eng_updates (pa_engine s) \<rparr>" and ?us = "lf_contents (eng_updates (pa_engine s))"
  obtain applied uss where q: "path_queues s" and pn: "path_net s uss"
    and books: "path_books s applied (applied @ lf_contents (te_incoming_md_updates (pa_trader s)) @ concat uss @ ?us)"
    using inv by (auto simp: path_inv_def)
  have ok: "lf_inv (pub_outgoing_md_updates ?p)" "lf_inv (pub_snapshot_md_updates ?p)" using q by (simp_all add: path_queues_def)
  note k = publisher_round_queues[OF run ok room]
  have "length ?us \<le> ME_MAX_MARKET_UPDATES" using q by (auto simp: path_queues_def lf_inv_def)
  then have fits: "sizeof_MDPMarketUpdate * length ?us \<le> McastBufferSize" by (simp add: sizeof_defs McastBufferSize_def ME_MAX_MARKET_UPDATES_def)
  have "\<exists>p'. publisher_round net ?p = Inr (p', concat (map encode_MDPMarketUpdate (mdp_number (pub_next_inc_seq_num ?p) ?us)))
     \<and> lf_contents (pub_outgoing_md_updates p') = []
     \<and> lf_contents (pub_snapshot_md_updates p') = lf_contents (pub_snapshot_md_updates ?p) @ mdp_number (pub_next_inc_seq_num ?p) ?us
     \<and> pub_next_inc_seq_num p' = pub_next_inc_seq_num ?p + length ?us \<and> mc_out (pub_incremental_socket p') = []"
    by (rule publisher_round_ok) (use ok k fits sent pn in \<open>simp_all add: path_net_def\<close>)
  then have p': "datagram = concat (map encode_MDPMarketUpdate (mdp_number (pub_next_inc_seq_num (pa_publisher s)) ?us))"
      "lf_contents (pub_outgoing_md_updates p') = []" "pub_next_inc_seq_num p' = pub_next_inc_seq_num (pa_publisher s) + length ?us"
      "mc_out (pub_incremental_socket p') = []"
    using run by auto
  have "path_net ?s (uss @ [?us])" using pn p' num by (simp add: path_net_def datagrams_append)
  moreover have "path_queues ?s" using q k by (simp add: path_queues_def)
  moreover have "path_books ?s applied (applied @ lf_contents (te_incoming_md_updates (pa_trader ?s)) @ concat (uss @ [?us]) @ lf_contents (eng_updates (pa_engine ?s)))"
    using books p'(2) by (simp add: path_books_def)
  ultimately show ?thesis unfolding path_inv_def by blast
qed

lemma receive_step:
  assumes inv: "path_inv s"
    and run: "consumer_round sync \<lparr> io_recv = concat (take k (pa_wire s)), io_sent = m, io_time = now \<rparr> io2
          ((pa_consumer s)\<lparr> con_incoming_md_updates := te_incoming_md_updates (pa_trader s) \<rparr>) = Inr c'"
    and buf: "length (concat (take k (pa_wire s))) \<le> McastBufferSize"
    and room: "num_elements (con_incoming_md_updates c') \<le> lf_capacity (con_incoming_md_updates c')"
  shows "path_inv (s\<lparr> pa_consumer := c', pa_trader := (pa_trader s)\<lparr> te_incoming_md_updates := con_incoming_md_updates c' \<rparr>,
          pa_wire := drop k (pa_wire s) \<rparr>)" (is "path_inv ?s")
proof -
  let ?q = "te_incoming_md_updates (pa_trader s)" and ?n = "con_next_exp_inc_seq_num (pa_consumer s)"
  let ?c = "(pa_consumer s)\<lparr> con_incoming_md_updates := ?q \<rparr>"
  obtain applied uss where q: "path_queues s" and pn: "path_net s uss"
    and books: "path_books s applied (applied @ lf_contents ?q @ concat uss @ lf_contents (eng_updates (pa_engine s)))"
    using inv by (auto simp: path_inv_def)
  let ?us = "concat (take k uss)"
  have split: "concat uss = ?us @ concat (drop k uss)" using concat_append[of "take k uss" "drop k uss"] by simp
  have wire: "concat (take k (pa_wire s)) = concat (map encode_MDPMarketUpdate (mdp_number ?n ?us))"
    using pn by (simp add: path_net_def take_datagrams concat_datagrams)
  have ok: "mdp_wire_ok ?us ?n" by (rule path_books_wire[OF books]) (use pn split in \<open>auto simp: path_net_def\<close>)
  have "consumer_round sync \<lparr> io_recv = concat (take k (pa_wire s)), io_sent = m, io_time = now \<rparr> io2 ?c
      = Inr (?c\<lparr> con_next_exp_inc_seq_num := con_next_exp_inc_seq_num ?c + length ?us, con_incoming_md_updates := foldl lf_push (con_incoming_md_updates ?c) ?us \<rparr>)"
    by (rule consumer_round_in_sequence)
      (use pn ok wire buf length_encoded[of "mdp_number ?n ?us"] in \<open>simp_all add: path_net_def following_def\<close>)
  then have c': "c' = ?c\<lparr> con_next_exp_inc_seq_num := ?n + length ?us, con_incoming_md_updates := foldl lf_push ?q ?us \<rparr>" using run by simp
  have "lf_inv ?q" using q by (simp add: path_queues_def)
  then have p: "lf_inv (foldl lf_push ?q ?us)" "lf_contents (foldl lf_push ?q ?us) = lf_contents ?q @ ?us" "lf_capacity (foldl lf_push ?q ?us) = lf_capacity ?q"
    using lq.push_all[of ?q ?us] room c' by (simp_all add: num_elements_pushed capacity_pushed)
  have "path_net ?s (drop k uss)"
    using pn c' split by (simp add: path_net_def drop_datagrams following_def)
  moreover have "path_queues ?s" using q p c' by (simp add: path_queues_def)
  moreover have "path_books ?s applied (applied @ lf_contents (te_incoming_md_updates (pa_trader ?s)) @ concat (drop k uss) @ lf_contents (eng_updates (pa_engine ?s)))"
    using books p(2) c' unfolding split by (simp add: path_books_def)
  ultimately show ?thesis unfolding path_inv_def by blast
qed

lemma trade_step:
  assumes inv: "path_inv s" and run: "te_round fp clock (pa_trader s) = Inr te'"
  shows "path_inv (s\<lparr> pa_trader := te' \<rparr>)" (is "path_inv ?s")
proof -
  let ?us = "lf_contents (te_incoming_md_updates (pa_trader s))"
  obtain applied uss where q: "path_queues s" and pn: "path_net s uss"
    and books: "path_books s applied (applied @ ?us @ concat uss @ lf_contents (eng_updates (pa_engine s)))"
    using inv by (auto simp: path_inv_def)
  have f: "lf_inv (te_incoming_md_updates te')" "lf_contents (te_incoming_md_updates te') = []"
      "lf_capacity (te_incoming_md_updates te') = lf_capacity (te_incoming_md_updates (pa_trader s))"
      "\<And>t. feed (of_ticker t ?us) (te_ticker_order_book (pa_trader s) t) = Inr (te_ticker_order_book te' t)"
    using te_round_feed[OF run] q by (auto simp: path_queues_def)
  have "path_books ?s (applied @ ?us) ((applied @ ?us) @ lf_contents (te_incoming_md_updates (pa_trader ?s)) @ concat uss @ lf_contents (eng_updates (pa_engine ?s)))"
    using books f(2,4) by (simp add: path_books_def feed_append)
  moreover have "path_queues ?s" "path_net ?s uss" using q f pn by (simp_all add: path_queues_def path_net_def)
  ultimately show ?thesis unfolding path_inv_def by blast
qed

text \<open>The initial state: empty queues, new books and no datagrams.\<close>

lemma exchange_main_parts:
  assumes "exchange_main mem inc_fd snap_fd = Inr ex"
  shows "eng_updates (ex_matching_engine ex) = LFQueue_new ME_MAX_MARKET_UPDATES MEMarketUpdate_default"
    and "eng_books (ex_matching_engine ex) t = MEOrderBook_new (of_nat t) (fst (mem t)) (snd (mem t))"
    and "pub_next_inc_seq_num (ex_market_data_publisher ex) = 1" and "mc_out (pub_incremental_socket (ex_market_data_publisher ex)) = []"
    and "pub_snapshot_md_updates (ex_market_data_publisher ex) = LFQueue_new ME_MAX_MARKET_UPDATES \<lparr> mdp_seq_num = 0, mdp_update = MEMarketUpdate_default \<rparr>"
  using assms by (auto simp: exchange_main_def MarketDataPublisher_new_def result_simps MatchingEngine_new_def mcast_init_def McastSocket_new_def Let_def)

lemma trading_setup_parts:
  assumes "trading_setup e vwaps ids levels now argv = Inr (Some (algo_type, te))"
  shows "te_incoming_md_updates te = LFQueue_new ME_MAX_MARKET_UPDATES MEMarketUpdate_default"
    and "te_ticker_order_book te t = MarketOrderBook_new (of_nat t) (ids t) (levels t)"
  using assms by (auto simp: trading_setup_def TradeEngine_new_def result_simps Let_def split: if_splits)

lemma new_queue:
  "lf_inv (LFQueue_new ME_MAX_MARKET_UPDATES x)" "lf_contents (LFQueue_new ME_MAX_MARKET_UPDATES x) = []"
  using lf_new_inv[of ME_MAX_MARKET_UPDATES x] by (simp_all add: ME_MAX_MARKET_UPDATES_def)

lemma start_inv:
  assumes ex: "exchange_main (\<lambda>_. (\<lambda>_. None, \<lambda>_. None)) inc_fd snap_fd = Inr ex"
    and te: "trading_setup e vwaps (\<lambda>_ _. None) (\<lambda>_ _. None) now argv = Inr (Some (algo_type, te))"
    and c: "MarketDataConsumer_new (te_incoming_md_updates te) fd joined = Inr c"
  shows "path_inv \<lparr> pa_engine = ex_matching_engine ex, pa_publisher = ex_market_data_publisher ex, pa_wire = [], pa_consumer = c, pa_trader = te \<rparr>"
    (is "path_inv ?s")
proof -
  have "con_next_exp_inc_seq_num c = 1" "following c"
    using c by (auto simp: MarketDataConsumer_new_def result_simps following_def mcast_init_def McastSocket_new_def)
  then have "path_net ?s []" using exchange_main_parts(3,4)[OF ex] by (simp add: path_net_def)
  moreover have "path_queues ?s"
    using exchange_main_parts(1,5)[OF ex] trading_setup_parts(1)[OF te] by (simp add: new_queue path_queues_def lf_new_capacity)
  moreover have "path_books ?s [] []"
    using exchange_main_parts(2)[OF ex] trading_setup_parts(2)[OF te] session_start by (simp add: path_books_def)
  ultimately show ?thesis
    unfolding path_inv_def using exchange_main_parts(1)[OF ex] trading_setup_parts(1)[OF te]
    by (intro conjI exI[of _ "[]"]) (simp_all add: new_queue)
qed

lemma path_step_inv:
  assumes "path_step s s'" and "path_inv s"
  shows "path_inv s'"
proof -
  consider "match_round s s'" | "publish_round s s'" | "receive_round s s'" | "trade_round s s'" | "other_round s s'"
    using assms(1) by (auto simp: path_step_def)
  then show ?thesis
  proof cases
    case 1
    then show ?thesis using assms(2) by cases (blast intro: match_step)
  next
    case 2
    then show ?thesis using assms(2) by cases (blast intro: publish_step)
  next
    case 3
    then show ?thesis using assms(2) by cases (blast intro: receive_step)
  next
    case 4
    then show ?thesis using assms(2) by cases (blast intro: trade_step)
  next
    case 5
    then show ?thesis using assms(2) by cases (use assms(2) in \<open>auto simp: path_inv_def path_queues_def path_net_def path_books_def\<close>)
  qed
qed

lemma path_reachable_inv: "path_reachable s \<Longrightarrow> path_inv s"
  by (induction rule: path_reachable.induct) (blast intro: start_inv path_step_inv)+

text \<open>The ghosts of a reachable state, with the updates on their way read off the datagrams.\<close>

lemma path_in_flight:
  assumes "path_inv s"
  obtains applied uss where "path_queues s" and "path_net s uss"
    and "in_flight s = lf_contents (te_incoming_md_updates (pa_trader s)) @ concat uss @ lf_contents (eng_updates (pa_engine s))"
    and "path_books s applied (applied @ in_flight s)"
proof -
  obtain applied uss where q: "path_queues s" and pn: "path_net s uss"
    and books: "path_books s applied (applied @ lf_contents (te_incoming_md_updates (pa_trader s)) @ concat uss @ lf_contents (eng_updates (pa_engine s)))"
    using assms by (auto simp: path_inv_def)
  have "mdp_wire_ok (concat uss) (con_next_exp_inc_seq_num (pa_consumer s))"
    by (rule path_books_wire[OF books]) (use pn in \<open>auto simp: path_net_def\<close>)
  then have "in_flight s = lf_contents (te_incoming_md_updates (pa_trader s)) @ concat uss @ lf_contents (eng_updates (pa_engine s))"
    using pn by (simp add: in_flight_def path_net_def datagram_updates_datagrams)
  then show ?thesis using that[OF q pn] books by simp
qed

section \<open>The client's book is the exchange's\<close>

text \<open>C4: the whole market data path. Start the exchange program and a trading program, and let the matching engine, the publisher, the consumer and
  the trade engine run their rounds in any order, with any requests the books are sized for, on a network that neither loses nor reorders datagrams and
  without overflow of a queue. Then at every moment, for every ticker, the updates that are on their way (in the two queues and in the datagrams)
  can be applied to the client's book, and the result is a book with exactly the levels, queues and best bid and offer of the exchange's book.
  In particular the two books agree whenever nothing is on its way.\<close>

theorem client_books_converge:
  assumes "path_reachable s" and "t < ME_MAX_TICKERS"
  shows "\<exists>c V W. feed (of_ticker t (in_flight s)) (te_ticker_order_book (pa_trader s) t) = Inr c
     \<and> ob_inv (eng_books (pa_engine s) t) BUY V W \<and> mb_inv c BUY (mirror V) (mirror W)
     \<and> (in_flight s = [] \<longrightarrow> c = te_ticker_order_book (pa_trader s) t)"
proof -
  obtain applied uss where books: "path_books s applied (applied @ in_flight s)" by (rule path_in_flight[OF path_reachable_inv[OF assms(1)]])
  have "session (of_nat t) (eng_books (pa_engine s) t) (of_ticker t applied @ of_ticker t (in_flight s))"
      "feed (of_ticker t applied) (MarketOrderBook_new (of_nat t) (\<lambda>_. None) (\<lambda>_. None)) = Inr (te_ticker_order_book (pa_trader s) t)"
    using books assms(2) by (simp_all add: path_books_def)
  then show ?thesis using session_mirrored by (fastforce simp: feed_append mirrored_def)
qed

section \<open>Everything on its way arrives\<close>




text \<open>A run: both programs start, a client's request reaches the engine's queue, the engine executes it and the publisher sends the update.\<close>

lemma sample_start:
  "\<exists>s. path_reachable s \<and> in_flight s = [] \<and> eng_books (pa_engine s) 0 = sample_book \<and> pub_next_inc_seq_num (pa_publisher s) = 1
     \<and> eng_updates (pa_engine s) = LFQueue_new ME_MAX_MARKET_UPDATES MEMarketUpdate_default"
proof -
  obtain ex where ex: "exchange_main (\<lambda>_. (\<lambda>_. None, \<lambda>_. None)) 3 4 = Inr ex"
    by (simp add: exchange_main_def MarketDataPublisher_new_def SnapshotSynthesizer_new_def mcast_init_def Let_def)
  obtain te where te: "trading_setup exact_env (\<lambda>_ _. Fin 0) (\<lambda>_ _. None) (\<lambda>_ _. None) 0 sample_trading_argv = Inr (Some (Algo_MAKER, te))"
    using sample_trading_built by blast
  obtain c where c: "MarketDataConsumer_new (te_incoming_md_updates te) 5 True = Inr c" by (simp add: MarketDataConsumer_new_def)
  let ?s = "\<lparr> pa_engine = ex_matching_engine ex, pa_publisher = ex_market_data_publisher ex, pa_wire = [], pa_consumer = c, pa_trader = te \<rparr>"
  have "path_reachable ?s" by (rule path_reachable.start[OF ex te c])
  moreover have "in_flight ?s = []" using exchange_main_parts(1)[OF ex] trading_setup_parts(1)[OF te] by (simp add: in_flight_def new_queue)
  ultimately show ?thesis using exchange_main_parts(1,3)[OF ex] exchange_main_parts(2)[OF ex, of 0] by (intro exI[of _ ?s]) (simp add: sample_book_def)
qed

lemma sample_order_executed:
  assumes "eng_books e 0 = sample_book" and "eng_updates e = LFQueue_new ME_MAX_MARKET_UPDATES MEMarketUpdate_default"
    and "eng_requests e = lf_push (LFQueue_new 4 MEClientRequest_default) sample_sell"
  shows "getNextToRead (eng_requests e) = Some sample_sell \<and> mirrorable e sample_sell
     \<and> (\<exists>e' u. engine_poll e = Inr e' \<and> eng_updates e' = lf_push (LFQueue_new ME_MAX_MARKET_UPDATES MEMarketUpdate_default) u)"
proof -
  have q: "lf_inv (LFQueue_new 4 MEClientRequest_default)" "lf_contents (LFQueue_new 4 MEClientRequest_default) = []"
      "num_elements (LFQueue_new 4 MEClientRequest_default) < lf_capacity (LFQueue_new 4 MEClientRequest_default)"
    using lf_new_inv[of 4 MEClientRequest_default] by (simp_all add: LFQueue_new_def)
  have q1: "lf_inv (eng_requests e)" "lf_contents (eng_requests e) = [sample_sell]" using lf_push_ok[OF q(1,3), of sample_sell] q(2) assms(3) by simp_all
  note nx = lf_pop(1)[OF q1]
  have adm: "mirrorable e sample_sell"
    using sample_admissible assms(1) by (simp add: mirrorable_def admissible_def sample_sell_def sample_book_def MEOrderBook_new_def sizing_defs)
  obtain m where m: "ob_add sample_book 1 5 0 SELL 100 10 = Inr (m, snd (snd (spec_add 1 1 5 0 SELL 100 10 [] [])))" using sample_first by blast
  have "\<exists>u. updates_of (snd (snd (spec_add 1 1 5 0 SELL 100 10 [] []))) = [u]" by (simp add: spec_add_def Let_def)
  then obtain e1 u where e1: "processClientRequest e sample_sell = Inr e1" "eng_updates e1 = lf_push (eng_updates e) u" "eng_requests e1 = eng_requests e"
    using m assms(1) by (auto simp: processClientRequest_def sample_sell_def sizing_defs send_events)
  obtain q' where "updateReadIndex (eng_requests e1) = Inr q'" using lf_pop(2)[OF q1] e1(3) by auto
  then show ?thesis using nx adm e1(1,2) assms(2) by (auto simp: engine_poll_def)
qed

lemma sample_path:
  "\<exists>s u. path_reachable s \<and> in_flight s = [u] \<and> pub_next_inc_seq_num (pa_publisher s) = 1
     \<and> num_elements (eng_updates (pa_engine s)) = 1 \<and> num_elements (pub_snapshot_md_updates (pa_publisher s)) = 0"
proof -
  obtain s where s: "path_reachable s" "eng_books (pa_engine s) 0 = sample_book"
      "eng_updates (pa_engine s) = LFQueue_new ME_MAX_MARKET_UPDATES MEMarketUpdate_default"
      "in_flight s = []" "pub_next_inc_seq_num (pa_publisher s) = 1"
    using sample_start by blast
  let ?q = "lf_push (LFQueue_new 4 MEClientRequest_default) sample_sell"
  let ?s = "s\<lparr> pa_engine := (pa_engine s)\<lparr> eng_requests := ?q, eng_responses := eng_responses (pa_engine s) \<rparr>,
          pa_publisher := (pa_publisher s)\<lparr> pub_snapshot_md_updates := LFQueue_new ME_MAX_MARKET_UPDATES undefined \<rparr>,
          pa_trader := (pa_trader s)\<lparr> te_outgoing_ogw_requests := te_outgoing_ogw_requests (pa_trader s),
            te_incoming_ogw_responses := te_incoming_ogw_responses (pa_trader s) \<rparr> \<rparr>"
  have "other_round s ?s" by (rule others) (simp_all add: new_queue lf_new_capacity)
  then have r: "path_reachable ?s" by (intro path_reachable.step[OF s(1)]) (simp add: path_step_def)
  obtain e' u where e': "engine_poll (pa_engine ?s) = Inr e'" "eng_updates e' = lf_push (LFQueue_new ME_MAX_MARKET_UPDATES MEMarketUpdate_default) u"
      "getNextToRead (eng_requests (pa_engine ?s)) = Some sample_sell" "mirrorable (pa_engine ?s) sample_sell"
    using sample_order_executed[of "pa_engine ?s"] s(2,3) by auto
  have room: "num_elements (LFQueue_new ME_MAX_MARKET_UPDATES MEMarketUpdate_default) < lf_capacity (LFQueue_new ME_MAX_MARKET_UPDATES MEMarketUpdate_default)"
    by (simp add: LFQueue_new_def ME_MAX_MARKET_UPDATES_def)
  note p = lf_push_ok[OF new_queue(1) room, of u]
  have "match_round ?s (?s\<lparr> pa_engine := e' \<rparr>)" by (rule match[OF e'(1)]) (use e' p in \<open>auto simp: lf_inv_def\<close>)
  then have "path_reachable (?s\<lparr> pa_engine := e' \<rparr>)" by (intro path_reachable.step[OF r]) (simp add: path_step_def)
  moreover have one: "lf_contents (eng_updates e') = [u]" using p e'(2) by (simp add: new_queue)
  then have "in_flight (?s\<lparr> pa_engine := e' \<rparr>) = [u]" using s(4) by (simp add: in_flight_def)
  moreover have "num_elements (eng_updates e') = 1" using one length_lf_contents[of "eng_updates e'"] by simp
  moreover have "num_elements (LFQueue_new ME_MAX_MARKET_UPDATES x) = 0" for x :: MDPMarketUpdate by (simp add: LFQueue_new_def)
  ultimately show ?thesis using s(5) by (intro exI[of _ "?s\<lparr> pa_engine := e' \<rparr>"] exI[of _ u]) simp
qed

theorem client_books_converge_witness:
  "(\<exists>s V W. path_reachable s \<and> in_flight s = [] \<and> ob_inv (eng_books (pa_engine s) 0) BUY V W
      \<and> mb_inv (te_ticker_order_book (pa_trader s) 0) BUY (mirror V) (mirror W))
   \<and> (\<exists>s c V W. path_reachable s \<and> in_flight s \<noteq> [] \<and> feed (of_ticker 0 (in_flight s)) (te_ticker_order_book (pa_trader s) 0) = Inr c
      \<and> ob_inv (eng_books (pa_engine s) 0) BUY V W \<and> mb_inv c BUY (mirror V) (mirror W))"
proof -
  have t: "0 < ME_MAX_TICKERS" by (simp add: ME_MAX_TICKERS_def)
  obtain s u where "path_reachable s" "in_flight s = [u]" using sample_path by blast
  then have "\<exists>s. path_reachable s \<and> in_flight s \<noteq> []" by auto
  then show ?thesis using sample_start client_books_converge[OF _ t] by metis
qed


end
