(* ===== verification/SocketUtils.thy ===== *)
theory SocketUtils
  imports Sockets CText
begin

unbundle bit_operations_syntax

text \<open>
  \<^verbatim>\<open>common/socket_utils.h\<close> and the parts of \<^verbatim>\<open>tcp_socket.cpp\<close>, \<^verbatim>\<open>tcp_server.cpp\<close> and \<^verbatim>\<open>mcast_socket.cpp\<close> that open, join and leave sockets.
  The kernel is a parameter: what it answers to a system call may depend on all calls before it, so the state that is passed along is the list of the calls,
  the latest first. The interfaces of the machine, the results of \<open>getaddrinfo\<close> and the texts of the errors are parameters as well. The constants have the values of
  Linux. The line \<open>createSocket\<close> logs is left out.

  \<open>socket_view\<close> is the specification: what the documentation of the calls says about a descriptor after a list of calls. The theorems show that a descriptor
  \<open>createSocket\<close> returns has exactly the options, address and backlog that its configuration asks for, and which failures it does not report.
\<close>

section \<open>System calls\<close>

definition AF_INET :: int where "AF_INET = 2"
definition SOCK_STREAM :: int where "SOCK_STREAM = 1"
definition SOCK_DGRAM :: int where "SOCK_DGRAM = 2"
definition IPPROTO_TCP :: int where "IPPROTO_TCP = 6"
definition IPPROTO_UDP :: int where "IPPROTO_UDP = 17"
definition O_NONBLOCK :: "32 word" where "O_NONBLOCK = 0x800"
definition AI_PASSIVE :: "32 word" where "AI_PASSIVE = 1"
definition AI_NUMERICHOST :: "32 word" where "AI_NUMERICHOST = 4"
definition AI_NUMERICSERV :: "32 word" where "AI_NUMERICSERV = 0x400"

definition EINPROGRESS :: int where "EINPROGRESS = 115"

definition MaxTCPServerBacklog :: int where "MaxTCPServerBacklog = 1024"

record sockaddr =
  sin_addr :: string
  sin_port :: "16 word"

definition INADDR_ANY :: string where "INADDR_ANY = ''0.0.0.0''"

record addrinfo =
  ai_family :: int
  ai_socktype :: int
  ai_protocol :: int
  ai_addr :: sockaddr

record hints =
  hint_flags :: "32 word"
  hint_family :: int
  hint_socktype :: int
  hint_protocol :: int

datatype sockopt = TCP_NODELAY | SO_TIMESTAMP | SO_REUSEADDR | SO_REUSEPORT | IP_ADD_MEMBERSHIP string | IP_DROP_MEMBERSHIP string

datatype syscall =
    Sys_socket int int int
  | Sys_getfl int
  | Sys_setfl int "32 word"
  | Sys_setsockopt int sockopt
  | Sys_connect int sockaddr
  | Sys_bind int sockaddr
  | Sys_listen int int
  | Sys_close int

text \<open>An entry of \<open>getifaddrs\<close>: its name, the family of its address if it has one, and what \<open>getnameinfo\<close> writes for it.\<close>

record ifaddrs =
  ifa_name :: string
  ifa_family :: "int option"
  ifa_numeric :: string

record kernel =
  k_getifaddrs :: "ifaddrs list option"
  k_getaddrinfo :: "string \<Rightarrow> string \<Rightarrow> hints \<Rightarrow> int \<times> addrinfo list"
  k_gai_strerror :: "int \<Rightarrow> string"
  k_strerror :: "syscall list \<Rightarrow> string"
  k_answer :: "syscall list \<Rightarrow> syscall \<Rightarrow> int"
  k_errno :: "syscall list \<Rightarrow> syscall \<Rightarrow> int"

definition syscall :: "kernel \<Rightarrow> syscall \<Rightarrow> syscall list \<Rightarrow> int \<times> syscall list" where
  "syscall k c h = (k_answer k h c, c # h)"

section \<open>The functions of the header\<close>

record SocketCfg =
  sc_ip :: string
  sc_iface :: string
  sc_port :: int
  sc_is_udp :: bool
  sc_is_listening :: bool
  sc_needs_so_timestamp :: bool

text \<open>A stream prints a \<open>bool\<close> as a digit.\<close>

definition bool_digit :: "bool \<Rightarrow> string" where "bool_digit b = (if b then ''1'' else ''0'')"

definition SocketCfg_toString :: "SocketCfg \<Rightarrow> string" where
  "SocketCfg_toString cfg =
     ''SocketCfg[ip:'' @ sc_ip cfg @ '' iface:'' @ sc_iface cfg @ '' port:'' @ to_string (sc_port cfg) @ '' is_udp:'' @ bool_digit (sc_is_udp cfg)
     @ '' is_listening:'' @ bool_digit (sc_is_listening cfg) @ '' needs_SO_timestamp:'' @ bool_digit (sc_needs_so_timestamp cfg) @ '']''"

fun find_iface :: "string \<Rightarrow> ifaddrs list \<Rightarrow> string" where
  "find_iface iface [] = []"
| "find_iface iface (ifa # ifas) = (if ifa_family ifa = Some AF_INET \<and> iface = ifa_name ifa then ifa_numeric ifa else find_iface iface ifas)"

definition getIfaceIP :: "kernel \<Rightarrow> string \<Rightarrow> string" where
  "getIfaceIP k iface = (case k_getifaddrs k of None \<Rightarrow> [] | Some ifas \<Rightarrow> find_iface iface ifas)"

definition setNonBlocking :: "kernel \<Rightarrow> int \<Rightarrow> syscall list \<Rightarrow> bool \<times> syscall list" where
  "setNonBlocking k fd h =
     (let (r, h1) = syscall k (Sys_getfl fd) h; flags = (word_of_int r :: 32 word) in
      if flags AND O_NONBLOCK \<noteq> 0 then (True, h1)
      else (let (r2, h2) = syscall k (Sys_setfl fd (flags OR O_NONBLOCK)) h1 in (r2 \<noteq> - 1, h2)))"

definition disableNagle :: "kernel \<Rightarrow> int \<Rightarrow> syscall list \<Rightarrow> bool \<times> syscall list" where
  "disableNagle k fd h = (let (r, h1) = syscall k (Sys_setsockopt fd TCP_NODELAY) h in (r \<noteq> - 1, h1))"

definition setSOTimestamp :: "kernel \<Rightarrow> int \<Rightarrow> syscall list \<Rightarrow> bool \<times> syscall list" where
  "setSOTimestamp k fd h = (let (r, h1) = syscall k (Sys_setsockopt fd SO_TIMESTAMP) h in (r \<noteq> - 1, h1))"

definition join :: "kernel \<Rightarrow> int \<Rightarrow> string \<Rightarrow> syscall list \<Rightarrow> bool \<times> syscall list" where
  "join k fd ip h = (let (r, h1) = syscall k (Sys_setsockopt fd (IP_ADD_MEMBERSHIP ip)) h in (r \<noteq> - 1, h1))"

text \<open>\<open>ASSERT\<close> on the success of the calls before, with the text of the error.\<close>

definition check_call :: "kernel \<Rightarrow> string \<Rightarrow> bool \<times> syscall list \<Rightarrow> syscall list result" where
  "check_call k what = (\<lambda>(ok, h). bindR (ASSERT ok (what @ '' failed. errno:'' @ k_strerror k h)) (\<lambda>_. Inr h))"

text \<open>The block for listening sockets.\<close>

definition bind_listener :: "kernel \<Rightarrow> SocketCfg \<Rightarrow> addrinfo \<Rightarrow> int \<Rightarrow> syscall list \<Rightarrow> syscall list result" where
  "bind_listener k cfg rp fd h =
     (let (r1, h1) = syscall k (Sys_setsockopt fd SO_REUSEADDR) h in
      bindR (check_call k ''SO_REUSEADDR'' (r1 = 0, h1)) (\<lambda>h2.
      let h3 = (if sc_is_udp cfg then snd (syscall k (Sys_setsockopt fd SO_REUSEPORT) h2) else h2);
          addr = (if sc_is_udp cfg then \<lparr> sin_addr = INADDR_ANY, sin_port = word_of_int (sc_port cfg) \<rparr> else ai_addr rp);
          (r2, h4) = syscall k (Sys_bind fd addr) h3
      in check_call k ''bind()'' (r2 = 0, h4)))"

definition listen_on :: "kernel \<Rightarrow> int \<Rightarrow> syscall list \<Rightarrow> syscall list result" where
  "listen_on k fd h = (let (r, h1) = syscall k (Sys_listen fd MaxTCPServerBacklog) h in check_call k ''listen()'' (r = 0, h1))"

text \<open>The body of the loop over the addresses.\<close>

definition open_address :: "kernel \<Rightarrow> SocketCfg \<Rightarrow> addrinfo \<Rightarrow> int \<times> syscall list \<Rightarrow> (int \<times> syscall list) result" where
  "open_address k cfg rp = (\<lambda>(_, h).
     let (socket_fd, h1) = syscall k (Sys_socket (ai_family rp) (ai_socktype rp) (ai_protocol rp)) h in
     bindR (check_call k ''socket()'' (socket_fd \<noteq> - 1, h1)) (\<lambda>h2.
     bindR (check_call k ''setNonBlocking()'' (setNonBlocking k socket_fd h2)) (\<lambda>h3.
     bindR (if \<not> sc_is_udp cfg then check_call k ''disableNagle()'' (disableNagle k socket_fd h3) else Inr h3) (\<lambda>h4.
     let h5 = (if \<not> sc_is_listening cfg then snd (syscall k (Sys_connect socket_fd (ai_addr rp)) h4) else h4) in
     bindR (if sc_is_listening cfg then bind_listener k cfg rp socket_fd h5 else Inr h5) (\<lambda>h6.
     bindR (if \<not> sc_is_udp cfg \<and> sc_is_listening cfg then listen_on k socket_fd h6 else Inr h6) (\<lambda>h7.
     bindR (if sc_needs_so_timestamp cfg then check_call k ''setSOTimestamp()'' (setSOTimestamp k socket_fd h7) else Inr h7) (\<lambda>h8.
     Inr (socket_fd, h8))))))))"

definition socket_hints :: "SocketCfg \<Rightarrow> hints" where
  "socket_hints cfg =
     \<lparr> hint_flags = (if sc_is_listening cfg then AI_PASSIVE else 0) OR (AI_NUMERICHOST OR AI_NUMERICSERV), hint_family = AF_INET,
       hint_socktype = (if sc_is_udp cfg then SOCK_DGRAM else SOCK_STREAM), hint_protocol = (if sc_is_udp cfg then IPPROTO_UDP else IPPROTO_TCP) \<rparr>"

definition resolve :: "kernel \<Rightarrow> SocketCfg \<Rightarrow> int \<times> addrinfo list" where
  "resolve k cfg =
     k_getaddrinfo k (if sc_ip cfg = [] then getIfaceIP k (sc_iface cfg) else sc_ip cfg) (to_string (sc_port cfg)) (socket_hints cfg)"

definition createSocket :: "kernel \<Rightarrow> SocketCfg \<Rightarrow> syscall list \<Rightarrow> (int \<times> syscall list) result" where
  "createSocket k cfg h =
     (let (rc, results) = resolve k cfg in
      bindR (ASSERT (rc = 0) (''getaddrinfo() failed. error:'' @ k_gai_strerror k rc @ '' errno:'' @ k_strerror k h)) (\<lambda>_.
      foldR (open_address k cfg) results (- 1, h)))"

section \<open>The sockets of the program\<close>

definition tcp_connect :: "kernel \<Rightarrow> string \<Rightarrow> string \<Rightarrow> int \<Rightarrow> bool \<Rightarrow> TCPSocket \<times> syscall list \<Rightarrow> (TCPSocket \<times> syscall list) result" where
  "tcp_connect k ip iface port is_listening = (\<lambda>(s, h).
     bindR (createSocket k \<lparr> sc_ip = ip, sc_iface = iface, sc_port = port, sc_is_udp = False, sc_is_listening = is_listening,
              sc_needs_so_timestamp = True \<rparr> h) (\<lambda>(fd, h').
     Inr (s\<lparr> sock_fd := fd \<rparr>, h')))"

definition server_listen :: "kernel \<Rightarrow> string \<Rightarrow> int \<Rightarrow> TCPSocket \<times> syscall list \<Rightarrow> (TCPSocket \<times> syscall list) result" where
  "server_listen k iface port = tcp_connect k [] iface port True"

text \<open>What \<open>TCPServer::poll\<close> does to the descriptors it accepts; the results of the two calls are not looked at.\<close>

definition accepted_calls :: "kernel \<Rightarrow> int list \<Rightarrow> syscall list \<Rightarrow> syscall list" where
  "accepted_calls k fds h = fold (\<lambda>client_fd h. snd (disableNagle k client_fd (snd (setNonBlocking k client_fd h)))) fds h"

definition mcast_open :: "kernel \<Rightarrow> string \<Rightarrow> string \<Rightarrow> int \<Rightarrow> bool \<Rightarrow> McastSocket \<times> syscall list \<Rightarrow> (McastSocket \<times> syscall list) result" where
  "mcast_open k ip iface port is_listening = (\<lambda>(s, h).
     bindR (createSocket k \<lparr> sc_ip = ip, sc_iface = iface, sc_port = port, sc_is_udp = True, sc_is_listening = is_listening,
              sc_needs_so_timestamp = False \<rparr> h) (\<lambda>(fd, h').
     Inr (mcast_init fd s, h')))"

definition mcast_join :: "kernel \<Rightarrow> string \<Rightarrow> McastSocket \<times> syscall list \<Rightarrow> bool \<times> syscall list" where
  "mcast_join k ip = (\<lambda>(s, h). join k (mc_fd s) ip h)"

definition mcast_leave_group :: "kernel \<Rightarrow> string \<Rightarrow> McastSocket \<times> syscall list \<Rightarrow> McastSocket \<times> syscall list" where
  "mcast_leave_group k ip = (\<lambda>(s, h).
     if mc_fd s < 0 then (s, h)
     else (let (_, h1) = syscall k (Sys_setsockopt (mc_fd s) (IP_DROP_MEMBERSHIP ip)) h; (_, h2) = syscall k (Sys_close (mc_fd s)) h1
           in (mcast_leave s, h2)))"

section \<open>What the calls do to a descriptor\<close>

record socket_state =
  so_nonblock :: bool
  so_nodelay :: bool
  so_timestamp :: bool
  so_reuseaddr :: bool
  so_bound :: "sockaddr option"
  so_backlog :: "int option"
  so_peer :: "sockaddr option"
  so_groups :: "string list"

definition fresh_socket :: socket_state where
  "fresh_socket = \<lparr> so_nonblock = False, so_nodelay = False, so_timestamp = False, so_reuseaddr = False, so_bound = None, so_backlog = None,
     so_peer = None, so_groups = [] \<rparr>"

primrec set_option :: "sockopt \<Rightarrow> socket_state \<Rightarrow> socket_state" where
  "set_option TCP_NODELAY st = st\<lparr> so_nodelay := True \<rparr>"
| "set_option SO_TIMESTAMP st = st\<lparr> so_timestamp := True \<rparr>"
| "set_option SO_REUSEADDR st = st\<lparr> so_reuseaddr := True \<rparr>"
| "set_option SO_REUSEPORT st = st"
| "set_option (IP_ADD_MEMBERSHIP ip) st = st\<lparr> so_groups := ip # so_groups st \<rparr>"
| "set_option (IP_DROP_MEMBERSHIP ip) st = st\<lparr> so_groups := remove1 ip (so_groups st) \<rparr>"

text \<open>
  A call that is answered by \<open>-1\<close> has no effect, but for \<open>connect\<close> with the error \<open>EINPROGRESS\<close>, which on a non-blocking socket goes on in the background; with any other
  error the socket has no peer. \<open>F_GETFL\<close> changes nothing; its answer tells whether the descriptor was non-blocking already.
\<close>

definition connect_begun :: "int \<Rightarrow> int \<Rightarrow> bool" where
  "connect_begun r err \<longleftrightarrow> r \<noteq> - 1 \<or> err = EINPROGRESS"

primrec effect :: "int \<Rightarrow> int \<Rightarrow> int \<Rightarrow> syscall \<Rightarrow> socket_state \<Rightarrow> socket_state" where
  "effect fd r err (Sys_socket fam typ proto) st = (if r = fd then fresh_socket else st)"
| "effect fd r err (Sys_getfl d) st = (if d = fd \<and> r \<noteq> - 1 \<and> (word_of_int r :: 32 word) AND O_NONBLOCK \<noteq> 0 then st\<lparr> so_nonblock := True \<rparr> else st)"
| "effect fd r err (Sys_setfl d w) st = (if d = fd \<and> r \<noteq> - 1 then st\<lparr> so_nonblock := (w AND O_NONBLOCK \<noteq> 0) \<rparr> else st)"
| "effect fd r err (Sys_setsockopt d opt) st = (if d = fd \<and> r \<noteq> - 1 then set_option opt st else st)"
| "effect fd r err (Sys_connect d a) st = (if d = fd \<and> connect_begun r err then st\<lparr> so_peer := Some a \<rparr> else st)"
| "effect fd r err (Sys_bind d a) st = (if d = fd \<and> r \<noteq> - 1 then st\<lparr> so_bound := Some a \<rparr> else st)"
| "effect fd r err (Sys_listen d n) st = (if d = fd \<and> r \<noteq> - 1 then st\<lparr> so_backlog := Some n \<rparr> else st)"
| "effect fd r err (Sys_close d) st = (if d = fd \<and> r \<noteq> - 1 then fresh_socket else st)"

primrec socket_view :: "kernel \<Rightarrow> int \<Rightarrow> syscall list \<Rightarrow> socket_state" where
  "socket_view k fd [] = fresh_socket"
| "socket_view k fd (c # h) = effect fd (k_answer k h c) (k_errno k h c) c (socket_view k fd h)"

text \<open>What a configuration asks for, with the address the name resolved to and the peer.\<close>

definition configured :: "SocketCfg \<Rightarrow> sockaddr \<Rightarrow> sockaddr option \<Rightarrow> socket_state" where
  "configured cfg a peer =
     \<lparr> so_nonblock = True, so_nodelay = (\<not> sc_is_udp cfg), so_timestamp = sc_needs_so_timestamp cfg, so_reuseaddr = sc_is_listening cfg,
       so_bound = (if sc_is_listening cfg
                   then Some (if sc_is_udp cfg then \<lparr> sin_addr = INADDR_ANY, sin_port = word_of_int (sc_port cfg) \<rparr> else a) else None),
       so_backlog = (if sc_is_listening cfg \<and> \<not> sc_is_udp cfg then Some MaxTCPServerBacklog else None),
       so_peer = peer, so_groups = [] \<rparr>"

text \<open>The peer after the calls of a list: none for a listening socket, otherwise what became of the call of \<open>connect\<close> that is in the list.\<close>

definition peer_of :: "kernel \<Rightarrow> SocketCfg \<Rightarrow> sockaddr \<Rightarrow> int \<Rightarrow> syscall list \<Rightarrow> sockaddr option \<Rightarrow> bool" where
  "peer_of k cfg a fd h peer \<longleftrightarrow>
     (if sc_is_listening cfg then peer = None
      else \<exists>h1 h2. h = h2 @ Sys_connect fd a # h1
        \<and> peer = (if connect_begun (k_answer k h1 (Sys_connect fd a)) (k_errno k h1 (Sys_connect fd a)) then Some a else None))"

text \<open>\<open>F_GETFL\<close> does not fail on an open descriptor.\<close>

definition getfl_answers :: "kernel \<Rightarrow> bool" where
  "getfl_answers k \<longleftrightarrow> (\<forall>h fd. k_answer k h (Sys_getfl fd) \<noteq> - 1)"

text \<open>Every call succeeds, but for \<open>connect\<close> and \<open>SO_REUSEPORT\<close>, about which nothing is said.\<close>

fun succeeds :: "int \<Rightarrow> syscall \<Rightarrow> bool" where
  "succeeds r (Sys_connect d a) = True"
| "succeeds r (Sys_setsockopt d SO_REUSEPORT) = True"
| "succeeds r (Sys_setsockopt d opt) = (r = 0)"
| "succeeds r (Sys_bind d a) = (r = 0)"
| "succeeds r (Sys_listen d n) = (r = 0)"
| "succeeds r c = (r \<noteq> - 1)"

section \<open>The steps\<close>

lemma check_call_Inr [simp]: "check_call k what (ok, h) = Inr h' \<longleftrightarrow> ok \<and> h' = h"
  by (auto simp: check_call_def result_simps ASSERT_def)

lemma nonblock_bit [simp]: "O_NONBLOCK \<noteq> 0"
  by (simp add: O_NONBLOCK_def)

lemma setNonBlocking_view:
  assumes "setNonBlocking k fd h = (True, h')" and "getfl_answers k"
  shows "socket_view k fd h' = (socket_view k fd h)\<lparr> so_nonblock := True \<rparr>"
  using assms by (auto simp: setNonBlocking_def syscall_def Let_def getfl_answers_def split: if_splits)

lemma setNonBlocking_ok:
  assumes "\<And>h c. succeeds (k_answer k h c) c"
  shows "\<exists>h'. setNonBlocking k fd h = (True, h')"
  using assms[of "Sys_getfl fd # h" "Sys_setfl fd (word_of_int (k_answer k h (Sys_getfl fd)) OR O_NONBLOCK)"]
  by (auto simp: setNonBlocking_def syscall_def Let_def)

lemma bind_listener_view:
  assumes "bind_listener k cfg rp fd h = Inr h'"
  shows "socket_view k fd h' = (socket_view k fd h)\<lparr> so_reuseaddr := True,
     so_bound := Some (if sc_is_udp cfg then \<lparr> sin_addr = INADDR_ANY, sin_port = word_of_int (sc_port cfg) \<rparr> else ai_addr rp) \<rparr>"
  using assms by (auto simp: bind_listener_def syscall_def Let_def result_simps)

lemma open_address_configured:
  assumes run: "open_address k cfg rp (x, h) = Inr (fd, h')" and getfl: "getfl_answers k"
  shows "fd \<noteq> - 1 \<and> (\<exists>peer. socket_view k fd h' = configured cfg (ai_addr rp) peer \<and> peer_of k cfg (ai_addr rp) fd h' peer)"
proof -
  let ?c = "Sys_connect fd (ai_addr rp)"
  let ?h1 = "Sys_socket (ai_family rp) (ai_socktype rp) (ai_protocol rp) # h"
  obtain h3 h4 h6 h7 where fd: "fd = k_answer k h (hd ?h1)" "fd \<noteq> - 1"
    and h3: "setNonBlocking k fd ?h1 = (True, h3)"
    and h4: "(if \<not> sc_is_udp cfg then check_call k ''disableNagle()'' (disableNagle k fd h3) else Inr h3) = Inr h4"
    and h6: "(if sc_is_listening cfg then bind_listener k cfg rp fd (if \<not> sc_is_listening cfg then Sys_connect fd (ai_addr rp) # h4 else h4)
              else Inr (if \<not> sc_is_listening cfg then Sys_connect fd (ai_addr rp) # h4 else h4)) = Inr h6"
    and h7: "(if \<not> sc_is_udp cfg \<and> sc_is_listening cfg then listen_on k fd h6 else Inr h6) = Inr h7"
    and h8: "(if sc_needs_so_timestamp cfg then check_call k ''setSOTimestamp()'' (setSOTimestamp k fd h7) else Inr h7) = Inr h'"
    using run by (auto simp: open_address_def syscall_def Let_def result_simps split_beta check_call_def ASSERT_def prod_eq_iff split: if_splits)
  have v3: "socket_view k fd h3 = fresh_socket\<lparr> so_nonblock := True \<rparr>"
    using setNonBlocking_view[OF h3 getfl] fd(1) by simp
  have v4: "socket_view k fd h4 = (socket_view k fd h3)\<lparr> so_nodelay := \<not> sc_is_udp cfg \<rparr>"
    using h4 v3 by (auto simp: disableNagle_def syscall_def Let_def fresh_socket_def split: if_splits)
  have v6: "socket_view k fd h6 = (if sc_is_listening cfg
      then (socket_view k fd h4)\<lparr> so_reuseaddr := True,
         so_bound := Some (if sc_is_udp cfg then \<lparr> sin_addr = INADDR_ANY, sin_port = word_of_int (sc_port cfg) \<rparr> else ai_addr rp) \<rparr>
      else if connect_begun (k_answer k h4 ?c) (k_errno k h4 ?c) then (socket_view k fd h4)\<lparr> so_peer := Some (ai_addr rp) \<rparr> else socket_view k fd h4)"
    using h6 bind_listener_view[of k cfg rp fd h4 h6] by (auto split: if_splits)
  have v7: "socket_view k fd h7 = (if \<not> sc_is_udp cfg \<and> sc_is_listening cfg then (socket_view k fd h6)\<lparr> so_backlog := Some MaxTCPServerBacklog \<rparr>
      else socket_view k fd h6)"
    using h7 by (auto simp: listen_on_def syscall_def Let_def split: if_splits)
  have "socket_view k fd h' = (if sc_needs_so_timestamp cfg then (socket_view k fd h7)\<lparr> so_timestamp := True \<rparr> else socket_view k fd h7)"
    using h8 by (auto simp: setSOTimestamp_def syscall_def Let_def split: if_splits)
  moreover define peer where "peer = (if sc_is_listening cfg then None else if connect_begun (k_answer k h4 ?c) (k_errno k h4 ?c) then Some (ai_addr rp) else None)"
  ultimately have view: "socket_view k fd h' = configured cfg (ai_addr rp) peer" using v3 v4 v6 v7 by (simp add: configured_def fresh_socket_def)
  have "\<exists>h2. h' = h2 @ ?c # h4" if "\<not> sc_is_listening cfg"
    using that h6 h7 h8 by (auto simp: setSOTimestamp_def syscall_def Let_def split: if_splits)
  then have "peer_of k cfg (ai_addr rp) fd h' peer" by (auto simp: peer_of_def peer_def)
  then show ?thesis using fd(2) view by blast
qed

lemma check_call_ok: "ok \<Longrightarrow> check_call k what (ok, h) = Inr h"
  by (simp add: check_call_def ASSERT_def)

lemma open_address_returns:
  assumes ok: "\<And>h c. succeeds (k_answer k h c) c"
  shows "\<exists>fd h'. open_address k cfg rp x = Inr (fd, h')"
proof -
  have opt: "k_answer k h (Sys_setsockopt d TCP_NODELAY) = 0" "k_answer k h (Sys_setsockopt d SO_TIMESTAMP) = 0" "k_answer k h (Sys_setsockopt d SO_REUSEADDR) = 0"
      "k_answer k h (Sys_bind d a) = 0" "k_answer k h (Sys_listen d n) = 0" "k_answer k h (Sys_socket a1 a2 a3) \<noteq> - 1" for h d a n a1 a2 a3
    using ok[of h "Sys_setsockopt d TCP_NODELAY"] ok[of h "Sys_setsockopt d SO_TIMESTAMP"] ok[of h "Sys_setsockopt d SO_REUSEADDR"]
      ok[of h "Sys_bind d a"] ok[of h "Sys_listen d n"] ok[of h "Sys_socket a1 a2 a3"] by simp_all
  obtain x1 h where x: "x = (x1, h)" by (cases x)
  let ?h1 = "Sys_socket (ai_family rp) (ai_socktype rp) (ai_protocol rp) # h"
  obtain h3 where "setNonBlocking k (k_answer k h (hd ?h1)) ?h1 = (True, h3)" using setNonBlocking_ok[OF ok] by blast
  then show ?thesis
    by (simp add: x open_address_def syscall_def Let_def check_call_ok opt disableNagle_def setSOTimestamp_def listen_on_def bind_listener_def)
qed

lemma foldR_returns: "(\<And>x s. \<exists>s'. f x s = Inr s') \<Longrightarrow> \<exists>s'. foldR f xs s = Inr s'"
proof (induction xs arbitrary: s)
  case (Cons x xs)
  obtain s' where "f x s = Inr s'" using Cons.prems by blast
  then show ?case using Cons.IH[OF Cons.prems, of s'] by simp
qed simp

text \<open>C37: \<open>createSocket\<close>. On a kernel whose \<open>F_GETFL\<close> does not fail, when the address resolves, a descriptor that \<open>createSocket\<close> returns is open and has exactly the
  options, the bound address and the backlog that the configuration asks for, as the answers of the kernel to the calls made tell: any other outcome of these calls ends
  in an assertion. A socket that does not listen has the resolved address as its peer if the kernel accepted the call of \<open>connect\<close> or answered \<open>EINPROGRESS\<close>, and no peer otherwise; \<open>createSocket\<close>
  does not tell the two apart: it always returns a descriptor if the other calls succeed, whatever the kernel answers to \<open>connect\<close>.\<close>

theorem create_socket_configured:
  assumes "getfl_answers k" and "resolve k cfg = (0, rps @ [rp])"
  shows "(\<forall>fd h. createSocket k cfg h0 = Inr (fd, h) \<longrightarrow>
        fd \<noteq> - 1 \<and> (\<exists>peer. socket_view k fd h = configured cfg (ai_addr rp) peer \<and> peer_of k cfg (ai_addr rp) fd h peer))
     \<and> ((\<forall>h c. succeeds (k_answer k h c) c) \<longrightarrow> (\<exists>fd h. createSocket k cfg h0 = Inr (fd, h)))"
proof (intro conjI allI impI)
  fix fd h assume "createSocket k cfg h0 = Inr (fd, h)"
  then obtain x h1 where "open_address k cfg rp (x, h1) = Inr (fd, h)"
    using assms(2) by (auto simp: createSocket_def ASSERT_def foldR_append result_simps)
  then show "fd \<noteq> - 1" "\<exists>peer. socket_view k fd h = configured cfg (ai_addr rp) peer \<and> peer_of k cfg (ai_addr rp) fd h peer"
    using open_address_configured assms(1) by blast+
next
  assume "\<forall>h c. succeeds (k_answer k h c) c"
  then have "\<exists>s'. open_address k cfg a s = Inr s'" for a s using open_address_returns[of k cfg a s] by auto
  then obtain s' where "foldR (open_address k cfg) (rps @ [rp]) (- 1, h0) = Inr s'" using foldR_returns[of "open_address k cfg"] by blast
  then show "\<exists>fd h. createSocket k cfg h0 = Inr (fd, h)" using assms(2) by (cases s') (auto simp: createSocket_def ASSERT_def)
qed

text \<open>A kernel that hands out descriptor 7, where every call succeeds but \<open>connect\<close>, which fails with the given error.\<close>

definition sample_kernel :: "int \<Rightarrow> kernel" where
  "sample_kernel err =
     \<lparr> k_getifaddrs = Some [\<lparr> ifa_name = ''lo'', ifa_family = Some AF_INET, ifa_numeric = ''127.0.0.1'' \<rparr>],
       k_getaddrinfo = (\<lambda>ip port hint. (0, [\<lparr> ai_family = AF_INET, ai_socktype = hint_socktype hint, ai_protocol = hint_protocol hint,
          ai_addr = \<lparr> sin_addr = ip, sin_port = 12345 \<rparr> \<rparr>])),
       k_gai_strerror = (\<lambda>_. []), k_strerror = (\<lambda>_. []),
       k_answer = (\<lambda>h c. case c of Sys_socket a b p \<Rightarrow> 7 | Sys_connect fd a \<Rightarrow> - 1 | _ \<Rightarrow> 0), k_errno = (\<lambda>h c. err) \<rparr>"

definition ECONNREFUSED :: int where "ECONNREFUSED = 111"

definition sample_socket_cfg :: SocketCfg where
  "sample_socket_cfg = \<lparr> sc_ip = [], sc_iface = ''lo'', sc_port = 12345, sc_is_udp = False, sc_is_listening = False, sc_needs_so_timestamp = True \<rparr>"

text \<open>A connection in progress is returned with its peer; a refused one is returned as well, as a socket without a peer.\<close>

theorem create_socket_configured_witness:
  "(\<exists>fd h. createSocket (sample_kernel EINPROGRESS) sample_socket_cfg [] = Inr (fd, h) \<and> fd \<noteq> - 1 \<and> so_nonblock (socket_view (sample_kernel EINPROGRESS) fd h)
      \<and> so_peer (socket_view (sample_kernel EINPROGRESS) fd h) = Some \<lparr> sin_addr = ''127.0.0.1'', sin_port = 12345 \<rparr>)
   \<and> (\<exists>fd h. createSocket (sample_kernel ECONNREFUSED) sample_socket_cfg [] = Inr (fd, h) \<and> fd \<noteq> - 1 \<and> so_peer (socket_view (sample_kernel ECONNREFUSED) fd h) = None)"
proof -
  let ?rp = "\<lparr> ai_family = AF_INET, ai_socktype = SOCK_STREAM, ai_protocol = IPPROTO_TCP, ai_addr = \<lparr> sin_addr = ''127.0.0.1'', sin_port = 12345 \<rparr> \<rparr>"
  have k: "getfl_answers (sample_kernel err)" for err by (simp add: getfl_answers_def sample_kernel_def)
  have r: "resolve (sample_kernel err) sample_socket_cfg = (0, [] @ [?rp])" for err
    by (simp add: resolve_def sample_kernel_def sample_socket_cfg_def getIfaceIP_def socket_hints_def)
  have "succeeds (k_answer (sample_kernel err) h c) c" for err h c
    by (cases "(k_answer (sample_kernel err) h c, c)" rule: succeeds.cases) (simp_all add: sample_kernel_def)
  then have "\<exists>fd h. createSocket (sample_kernel err) sample_socket_cfg [] = Inr (fd, h) \<and> fd \<noteq> - 1 \<and> so_nonblock (socket_view (sample_kernel err) fd h)
      \<and> so_peer (socket_view (sample_kernel err) fd h) = (if err = EINPROGRESS then Some (ai_addr ?rp) else None)" for err
    using create_socket_configured[OF k[of err] r[of err], of "[]"]
    by (fastforce simp: configured_def sample_socket_cfg_def peer_of_def connect_begun_def sample_kernel_def split: if_splits)
  from this[of EINPROGRESS] this[of ECONNREFUSED] show ?thesis by (auto simp: ECONNREFUSED_def EINPROGRESS_def)
qed

text \<open>When \<open>F_GETFL\<close> fails, its answer \<open>-1\<close> has the bit of \<open>O_NONBLOCK\<close> set: \<open>setNonBlocking\<close> reports success without having changed anything.\<close>

theorem setNonBlocking_hides_failure:
  assumes "k_answer k h (Sys_getfl fd) = - 1"
  shows "setNonBlocking k fd h = (True, Sys_getfl fd # h)" and "socket_view k fd (Sys_getfl fd # h) = socket_view k fd h"
  using assms by (simp_all add: setNonBlocking_def syscall_def Let_def O_NONBLOCK_def)

text \<open>After \<open>leave\<close> the descriptor is closed and the socket does not hold it any more.\<close>

lemma mcast_leave_closes:
  assumes "mcast_leave_group k ip (s, h) = (s', h')" and "0 \<le> mc_fd s" and "\<And>h d. k_answer k h (Sys_close d) \<noteq> - 1"
  shows "mc_fd s' = - 1" and "socket_view k (mc_fd s) h' = fresh_socket"
  using assms by (auto simp: mcast_leave_group_def mcast_leave_def syscall_def Let_def)

end
