(* ===== verification/LoggerShutdown.thy ===== *)
theory LoggerShutdown
  imports Logging
begin

text \<open>
  The constructors and destructors of the two loggers, \<^verbatim>\<open>common/logging.h\<close> and \<^verbatim>\<open>common/opt_logging.h\<close>. The destructor waits until the ring is empty, in
  \<open>Common::Logger\<close> for at most five seconds, stops the writing thread, joins it and closes the file. It runs concurrently with that thread:
  \<open>flush_step\<close> has the steps of the thread, \<open>destroy_step\<close> those of the destructor, and \<open>shutdown_step\<close> interleaves them; nothing is logged any more. The inner loop
  of \<open>Common::Logger\<close> tests \<open>running_\<close> before every element, that of the optimised logger does not. Writing an element and advancing the read index
  are one step, because the destructor looks only at the number of elements, which changes with the latter.
\<close>

section \<open>State and steps\<close>

text \<open>
  Where the writing thread is: at the test of \<open>running_\<close>, about to call \<open>getNextToRead\<close>, at the condition of the inner loop with what it returned, in the body of the inner
  loop, asleep, or returned. Where the destructor is: waiting, in \<open>join\<close>, done.
\<close>

datatype flush_pc = Test | Fetch | Check "LogElement option" | Emit LogElement | Sleep | Returned
datatype close_pc = Wait | Join | Closed

datatype logger_class = CommonLogger | OptimisedLogger

record logger =
  lg_queue :: log_queue
  lg_file :: string
  lg_running :: bool
  lg_flush :: flush_pc
  lg_close :: close_pc
  lg_expired :: bool

text \<open>The constructors: opening the file succeeds or not, and the thread starts.\<close>

definition LOG_QUEUE_SIZE :: nat where "LOG_QUEUE_SIZE = 8 * 1024 * 1024"
definition OPT_LOG_QUEUE_SIZE :: nat where "OPT_LOG_QUEUE_SIZE = 1024 * 1024"

definition logger_new :: "nat \<Rightarrow> bool \<Rightarrow> string \<Rightarrow> logger result" where
  "logger_new queue_size is_open file_name =
     bindR (ASSERT is_open (''Could not open log file:'' @ file_name)) (\<lambda>_.
     Inr \<lparr> lg_queue = LFQueue_new queue_size (Log_CHAR (CHR 0x00)), lg_file = [], lg_running = True, lg_flush = Test, lg_close = Wait, lg_expired = False \<rparr>)"

definition Logger_new :: "bool \<Rightarrow> string \<Rightarrow> logger result" where
  "Logger_new = logger_new LOG_QUEUE_SIZE"

definition OptLogger_new :: "bool \<Rightarrow> string \<Rightarrow> logger result" where
  "OptLogger_new = logger_new OPT_LOG_QUEUE_SIZE"

text \<open>The condition of the inner loop of \<open>flushQueue\<close>, and that of the wait of the destructor; \<open>expired\<close> tells whether the deadline has passed.\<close>

definition logger_continues :: "bool \<Rightarrow> log_queue \<Rightarrow> LogElement option \<Rightarrow> bool" where
  "logger_continues running q x \<longleftrightarrow> running \<and> lf_size q \<noteq> 0 \<and> x \<noteq> None"

definition opt_logger_continues :: "bool \<Rightarrow> log_queue \<Rightarrow> LogElement option \<Rightarrow> bool" where
  "opt_logger_continues running q x \<longleftrightarrow> lf_size q \<noteq> 0 \<and> x \<noteq> None"

definition logger_waits :: "bool \<Rightarrow> log_queue \<Rightarrow> bool" where
  "logger_waits expired q \<longleftrightarrow> lf_size q \<noteq> 0 \<and> \<not> expired"

definition opt_logger_waits :: "bool \<Rightarrow> log_queue \<Rightarrow> bool" where
  "opt_logger_waits expired q \<longleftrightarrow> lf_size q \<noteq> 0"

primrec continues :: "logger_class \<Rightarrow> bool \<Rightarrow> log_queue \<Rightarrow> LogElement option \<Rightarrow> bool" where
  "continues CommonLogger = logger_continues"
| "continues OptimisedLogger = opt_logger_continues"

primrec waits :: "logger_class \<Rightarrow> bool \<Rightarrow> log_queue \<Rightarrow> bool" where
  "waits CommonLogger = logger_waits"
| "waits OptimisedLogger = opt_logger_waits"

lemmas logger_conditions = logger_continues_def opt_logger_continues_def logger_waits_def opt_logger_waits_def

inductive flush_step :: "(double \<Rightarrow> string) \<Rightarrow> logger_class \<Rightarrow> logger \<Rightarrow> logger \<Rightarrow> bool" for print_fp k where
  test: "lg_flush s = Test \<Longrightarrow> flush_step print_fp k s (s\<lparr> lg_flush := (if lg_running s then Fetch else Returned) \<rparr>)"
| fetch: "lg_flush s = Fetch \<Longrightarrow> flush_step print_fp k s (s\<lparr> lg_flush := Check (getNextToRead (lg_queue s)) \<rparr>)"
| enter: "lg_flush s = Check (Some x) \<Longrightarrow> continues k (lg_running s) (lg_queue s) (Some x) \<Longrightarrow> flush_step print_fp k s (s\<lparr> lg_flush := Emit x \<rparr>)"
| leave: "lg_flush s = Check next \<Longrightarrow> \<not> continues k (lg_running s) (lg_queue s) next \<Longrightarrow> flush_step print_fp k s (s\<lparr> lg_flush := Sleep \<rparr>)"
| emit: "lg_flush s = Emit x \<Longrightarrow> updateReadIndex (lg_queue s) = Inr q
    \<Longrightarrow> flush_step print_fp k s (s\<lparr> lg_file := lg_file s @ print_element print_fp x, lg_queue := q, lg_flush := Fetch \<rparr>)"
| wake: "lg_flush s = Sleep \<Longrightarrow> flush_step print_fp k s (s\<lparr> lg_flush := Test \<rparr>)"

text \<open>The deadline may pass at any moment while the destructor waits.\<close>

inductive destroy_step :: "logger_class \<Rightarrow> logger \<Rightarrow> logger \<Rightarrow> bool" for k where
  expire: "lg_close s = Wait \<Longrightarrow> destroy_step k s (s\<lparr> lg_expired := True \<rparr>)"
| stop: "lg_close s = Wait \<Longrightarrow> \<not> waits k (lg_expired s) (lg_queue s) \<Longrightarrow> destroy_step k s (s\<lparr> lg_running := False, lg_close := Join \<rparr>)"
| join: "lg_close s = Join \<Longrightarrow> lg_flush s = Returned \<Longrightarrow> destroy_step k s (s\<lparr> lg_close := Closed \<rparr>)"

definition shutdown_step :: "(double \<Rightarrow> string) \<Rightarrow> logger_class \<Rightarrow> logger \<Rightarrow> logger \<Rightarrow> bool" where
  "shutdown_step print_fp k s s' \<longleftrightarrow> flush_step print_fp k s s' \<or> destroy_step k s s'"

lemma shutdown_stepE:
  assumes "shutdown_step print_fp k s s'"
  obtains "flush_step print_fp k s s'" | "destroy_step k s s'"
  using assms by (auto simp: shutdown_step_def)

section \<open>What the file has in the end\<close>

definition backlog :: "(double \<Rightarrow> string) \<Rightarrow> logger \<Rightarrow> string" where
  "backlog print_fp s = concat (map (print_element print_fp) (lf_contents (lg_queue s)))"

text \<open>The element the thread has in its hand is the first of the ring.\<close>

definition writer_ok :: "logger \<Rightarrow> bool" where
  "writer_ok s \<longleftrightarrow> (\<forall>x. lg_flush s = Check (Some x) \<or> lg_flush s = Emit x \<longrightarrow> getNextToRead (lg_queue s) = Some x)"

text \<open>
  Nothing is lost or written twice; once the destructor has stopped the thread the ring is empty, but for the logger with the deadline after it has passed.
\<close>

definition shutdown_inv :: "(double \<Rightarrow> string) \<Rightarrow> logger_class \<Rightarrow> string \<Rightarrow> logger \<Rightarrow> bool" where
  "shutdown_inv print_fp k whole s \<longleftrightarrow> lf_inv (lg_queue s) \<and> writer_ok s \<and> lg_file s @ backlog print_fp s = whole
     \<and> (lg_close s = Wait \<or> lf_contents (lg_queue s) = [] \<or> k = CommonLogger \<and> lg_expired s)"

lemma flush_step_inv: "flush_step print_fp k s s' \<Longrightarrow> shutdown_inv print_fp k whole s \<Longrightarrow> shutdown_inv print_fp k whole s'"
proof (induction rule: flush_step.induct)
  case (emit s x q)
  have inv: "lf_inv (lg_queue s)" and x: "getNextToRead (lg_queue s) = Some x" using emit by (simp_all add: shutdown_inv_def writer_ok_def)
  obtain xs where xs: "lf_contents (lg_queue s) = x # xs" using x getNextToRead_contents[OF inv] by (auto split: list.splits)
  then have "lf_inv q" "lf_contents q = xs" using lf_pop(2)[OF inv xs] emit.hyps(2) by auto
  then show ?case using emit.prems xs by (auto simp: shutdown_inv_def backlog_def writer_ok_def)
qed (auto simp: shutdown_inv_def backlog_def writer_ok_def)

lemma destroy_step_inv: "destroy_step k s s' \<Longrightarrow> shutdown_inv print_fp k whole s \<Longrightarrow> shutdown_inv print_fp k whole s'"
proof (induction rule: destroy_step.induct)
  case (stop s)
  then show ?case by (cases k) (auto simp: shutdown_inv_def backlog_def writer_ok_def logger_conditions lf_size_def lf_contents_def)
qed (auto simp: shutdown_inv_def backlog_def writer_ok_def)

lemma shutdown_run_inv:
  "rtranclp (shutdown_step print_fp k) s0 s \<Longrightarrow> shutdown_inv print_fp k whole s0 \<Longrightarrow> shutdown_inv print_fp k whole s"
  by (induction rule: rtranclp_induct) (auto elim!: shutdown_stepE intro: flush_step_inv destroy_step_inv)

text \<open>C40: Shutdown of the loggers. Let the destructor run concurrently with the writing thread, in any interleaving, from a state in which the ring has not overflowed.
  When the file is closed, it has what it had before, followed by a prefix of what was queued, in order and without a repetition, and what is missing is still in the
  ring. Nothing is missing in the optimised logger, and nothing in \<open>Common::Logger\<close> if its deadline did not pass while the destructor waited.\<close>

theorem logger_shutdown_complete:
  assumes "rtranclp (shutdown_step print_fp k) s0 s" and "lg_close s = Closed"
    and "lf_inv (lg_queue s0)" and "writer_ok s0" and "lg_close s0 = Wait"
  shows "lg_file s @ backlog print_fp s = lg_file s0 @ backlog print_fp s0
     \<and> (k = OptimisedLogger \<or> \<not> lg_expired s \<longrightarrow> lf_contents (lg_queue s) = [] \<and> lg_file s = lg_file s0 @ backlog print_fp s0)"
proof -
  have "shutdown_inv print_fp k (lg_file s0 @ backlog print_fp s0) s"
    by (rule shutdown_run_inv[OF assms(1)]) (use assms(3-5) in \<open>simp add: shutdown_inv_def\<close>)
  then show ?thesis using assms(2) by (auto simp: shutdown_inv_def backlog_def)
qed

definition sample_logger :: "flush_pc \<Rightarrow> logger" where
  "sample_logger pc = \<lparr> lg_queue = lf_push (LFQueue_new 4 (Log_CHAR (CHR 0x00))) (Log_CHAR (CHR ''x'')), lg_file = [], lg_running = True,
     lg_flush = pc, lg_close = Wait, lg_expired = False \<rparr>"

lemma sample_logger_queue:
  "lf_inv (lg_queue (sample_logger pc))" "lf_contents (lg_queue (sample_logger pc)) = [Log_CHAR (CHR ''x'')]"
proof -
  have "lf_inv (LFQueue_new 4 (Log_CHAR (CHR 0x00)))" "lf_contents (LFQueue_new 4 (Log_CHAR (CHR 0x00))) = []"
    using lf_new_inv[of 4 "Log_CHAR (CHR 0x00)"] by simp_all
  moreover have "num_elements (LFQueue_new 4 (Log_CHAR (CHR 0x00))) < lf_capacity (LFQueue_new 4 (Log_CHAR (CHR 0x00)))" by (simp add: LFQueue_new_def)
  ultimately show "lf_inv (lg_queue (sample_logger pc))" "lf_contents (lg_queue (sample_logger pc)) = [Log_CHAR (CHR ''x'')]"
    using lf_push_ok[of "LFQueue_new 4 (Log_CHAR (CHR 0x00))" "Log_CHAR (CHR ''x'')"] by (simp_all add: sample_logger_def)
qed

lemma flush_run: "rtranclp (shutdown_step print_fp k) s0 s \<Longrightarrow> flush_step print_fp k s s' \<Longrightarrow> rtranclp (shutdown_step print_fp k) s0 s'"
  by (erule rtranclp.rtrancl_into_rtrancl) (simp add: shutdown_step_def)

lemma destroy_run: "rtranclp (shutdown_step print_fp k) s0 s \<Longrightarrow> destroy_step k s s' \<Longrightarrow> rtranclp (shutdown_step print_fp k) s0 s'"
  by (erule rtranclp.rtrancl_into_rtrancl) (simp add: shutdown_step_def)

text \<open>Once stopped, an idle thread returns and the file is closed.\<close>

lemma close_from_sleep:
  assumes "rtranclp (shutdown_step print_fp k) s0 s" and "lg_flush s = Sleep" and "lg_close s = Join" and "\<not> lg_running s"
  shows "\<exists>s'. rtranclp (shutdown_step print_fp k) s0 s' \<and> lg_close s' = Closed \<and> lg_file s' = lg_file s \<and> lg_queue s' = lg_queue s \<and> lg_expired s' = lg_expired s"
proof -
  let ?s1 = "s\<lparr> lg_flush := Test \<rparr>" and ?R = "rtranclp (shutdown_step print_fp k) s0"
  let ?s2 = "?s1\<lparr> lg_flush := (if lg_running ?s1 then Fetch else Returned) \<rparr>"
  have "?R ?s1" by (rule flush_run[OF assms(1) wake]) (use assms in simp)
  then have "?R ?s2" by (rule flush_run[OF _ test]) simp
  then have "?R (?s2\<lparr> lg_close := Closed \<rparr>)" by (rule destroy_run[OF _ join]) (use assms in simp_all)
  then show ?thesis by (intro exI[of _ "?s2\<lparr> lg_close := Closed \<rparr>"]) simp
qed

text \<open>A run: the thread writes the element, then the destructor sees the empty ring.\<close>

lemma sample_shutdown:
  "\<exists>s. rtranclp (shutdown_step print_fp k) (sample_logger (Check (Some (Log_CHAR (CHR ''x''))))) s \<and> lg_close s = Closed \<and> \<not> lg_expired s"
proof -
  let ?x = "Log_CHAR (CHR ''x'')"
  let ?s0 = "sample_logger (Check (Some ?x))"
  note q0 = sample_logger_queue[of "Check (Some ?x)"]
  obtain q where q: "updateReadIndex (lg_queue ?s0) = Inr q" "lf_inv q" "lf_contents q = []" using lf_pop(2)[OF q0] by blast
  have emp: "getNextToRead q = None" "lf_size q = 0" using getNextToRead_contents[OF q(2)] q(3) length_lf_contents[of q] by (simp_all add: lf_size_def)
  have full: "lf_size (lg_queue ?s0) \<noteq> 0" using q0(2) length_lf_contents[of "lg_queue ?s0"] by (simp add: lf_size_def)
  let ?s1 = "?s0\<lparr> lg_flush := Emit ?x \<rparr>"
  let ?s2 = "?s1\<lparr> lg_file := lg_file ?s1 @ print_element print_fp ?x, lg_queue := q, lg_flush := Fetch \<rparr>"
  let ?s3 = "?s2\<lparr> lg_flush := Check (getNextToRead (lg_queue ?s2)) \<rparr>"
  let ?s4 = "?s3\<lparr> lg_running := False, lg_close := Join \<rparr>"
  let ?s5 = "?s4\<lparr> lg_flush := Sleep \<rparr>" and ?R = "rtranclp (shutdown_step print_fp k) ?s0"
  have "?R ?s1" by (rule flush_run[OF rtranclp.rtrancl_refl enter]) (use full in \<open>cases k; simp add: sample_logger_def logger_conditions\<close>)+
  then have "?R ?s2" by (rule flush_run[OF _ emit]) (use q(1) in simp_all)
  then have "?R ?s3" by (rule flush_run[OF _ fetch]) simp
  then have "?R ?s4" by (rule destroy_run[OF _ stop]) (use emp in \<open>cases k; simp add: sample_logger_def logger_conditions\<close>)+
  then have "?R ?s5" by (rule flush_run[OF _ leave]) (use emp in \<open>cases k; simp add: logger_conditions\<close>)+
  from close_from_sleep[OF this] show ?thesis by (auto simp: sample_logger_def)
qed

theorem logger_shutdown_complete_witness:
  "\<exists>s. rtranclp (shutdown_step (\<lambda>_. []) CommonLogger) (sample_logger (Check (Some (Log_CHAR (CHR ''x''))))) s \<and> lg_close s = Closed \<and> lg_file s = ''x''"
proof -
  let ?s0 = "sample_logger (Check (Some (Log_CHAR (CHR ''x''))))"
  obtain s where s: "rtranclp (shutdown_step (\<lambda>_. []) CommonLogger) ?s0 s" "lg_close s = Closed" "\<not> lg_expired s" using sample_shutdown by blast
  have "writer_ok ?s0" using lf_pop(1)[OF sample_logger_queue] by (simp add: writer_ok_def) (simp add: sample_logger_def)
  then have "lg_file s = lg_file ?s0 @ backlog (\<lambda>_. []) ?s0"
    using logger_shutdown_complete[OF s(1,2) sample_logger_queue(1)] s(3) by (simp add: sample_logger_def)
  moreover have "lg_file ?s0 @ backlog (\<lambda>_. []) ?s0 = ''x''" by (simp add: backlog_def sample_logger_queue(2)) (simp add: sample_logger_def)
  ultimately show ?thesis using s by auto
qed

section \<open>The shutdown does not hang\<close>

text \<open>How many steps the two threads of \<open>Common::Logger\<close> can still make once \<open>running_\<close> is cleared.\<close>

fun flush_left :: "flush_pc \<Rightarrow> nat" where
  "flush_left (Emit x) = 5" | "flush_left Fetch = 4" | "flush_left (Check n) = 3" | "flush_left Sleep = 2" | "flush_left Test = 1" | "flush_left Returned = 0"

definition steps_left :: "logger \<Rightarrow> nat" where
  "steps_left s = flush_left (lg_flush s) + (if lg_close s = Closed then 0 else 1)"

text \<open>The number of elements still to be taken by a thread that was stopped in the body of its inner loop.\<close>

definition in_hand :: "logger \<Rightarrow> nat" where
  "in_hand s = (case lg_flush s of Emit x \<Rightarrow> 1 | _ \<Rightarrow> 0)"

definition stopped :: "logger \<Rightarrow> bool" where
  "stopped s \<longleftrightarrow> \<not> lg_running s \<and> lg_close s \<noteq> Wait \<and> (lg_close s = Closed \<longrightarrow> lg_flush s = Returned)
     \<and> (\<forall>x. lg_flush s = Emit x \<longrightarrow> num_elements (lg_queue s) \<noteq> 0)"

lemma stopped_step:
  assumes "shutdown_step print_fp CommonLogger s s'" and "stopped s"
  shows "stopped s' \<and> steps_left s' < steps_left s \<and> num_elements (lg_queue s) - in_hand s = num_elements (lg_queue s') - in_hand s'"
  using assms(1)
proof (cases rule: shutdown_stepE)
  case 1
  then show ?thesis using assms(2)
    by (cases rule: flush_step.cases)
      (auto simp: stopped_def steps_left_def in_hand_def logger_conditions updateReadIndex_def Let_def ASSERT_def result_simps split: if_splits)
next
  case 2
  then show ?thesis using assms(2) by (cases rule: destroy_step.cases) (auto simp: stopped_def steps_left_def in_hand_def)
qed

lemma stopped_run:
  assumes "(shutdown_step print_fp CommonLogger ^^ n) s s'" and "stopped s"
  shows "stopped s' \<and> n + steps_left s' \<le> steps_left s \<and> num_elements (lg_queue s) - in_hand s = num_elements (lg_queue s') - in_hand s'"
  using assms
proof (induction n arbitrary: s')
  case (Suc n)
  then obtain t where t: "(shutdown_step print_fp CommonLogger ^^ n) s t" "shutdown_step print_fp CommonLogger t s'" by auto
  then show ?case using Suc.IH[OF t(1) Suc.prems(2)] stopped_step[OF t(2)] by fastforce
qed simp

lemma stopped_progress: "stopped s \<Longrightarrow> lg_close s \<noteq> Closed \<Longrightarrow> \<exists>s'. shutdown_step print_fp CommonLogger s s'"
proof (cases "lg_flush s")
  case (Check n)
  then show "stopped s \<Longrightarrow> \<exists>s'. shutdown_step print_fp CommonLogger s s'"
    by (auto simp: shutdown_step_def stopped_def logger_conditions intro!: exI[of _ "s\<lparr> lg_flush := Sleep \<rparr>"] leave)
next
  case (Emit x)
  assume "stopped s"
  then obtain q where "updateReadIndex (lg_queue s) = Inr q" using Emit by (auto simp: stopped_def updateReadIndex_def ASSERT_def Let_def)
  then show ?thesis using Emit by (auto simp: shutdown_step_def intro: emit)
next
  case Returned
  then show "stopped s \<Longrightarrow> lg_close s \<noteq> Closed \<Longrightarrow> \<exists>s'. shutdown_step print_fp CommonLogger s s'"
    by (cases "lg_close s") (auto simp: shutdown_step_def stopped_def intro: join)
qed (auto simp: shutdown_step_def intro: test fetch wake)

text \<open>The shutdown of \<open>Common::Logger\<close> does not hang. However many elements the ring holds, or claims to hold after an overflow: once the destructor has cleared \<open>running_\<close>,
  every run of the two threads has at most six more steps, does not get stuck before the file is closed, and writes at most one more element.\<close>

theorem logger_shutdown_bounded:
  assumes "(shutdown_step print_fp CommonLogger ^^ n) s s'" and "lg_close s = Join" and "\<not> lg_running s"
    and "\<And>x. lg_flush s = Emit x \<Longrightarrow> num_elements (lg_queue s) \<noteq> 0"
  shows "n \<le> 6 \<and> (lg_close s' = Closed \<or> (\<exists>s''. shutdown_step print_fp CommonLogger s' s'')) \<and> num_elements (lg_queue s) \<le> num_elements (lg_queue s') + 1"
proof -
  have "stopped s" using assms(2-4) by (simp add: stopped_def)
  note run = stopped_run[OF assms(1) this]
  have "flush_left (lg_flush s) \<le> 5" by (cases "lg_flush s") simp_all
  then have "steps_left s \<le> 6" by (simp add: steps_left_def)
  moreover have "in_hand s \<le> 1" by (simp add: in_hand_def split: flush_pc.splits)
  ultimately show ?thesis using run stopped_progress[of s' print_fp] by fastforce
qed

text \<open>Destroyed after its deadline with one element in the ring and the thread asleep, the logger closes its file two steps of the thread later, without the element.\<close>

definition sample_stopped :: logger where
  "sample_stopped = (sample_logger Sleep)\<lparr> lg_running := False, lg_close := Join, lg_expired := True \<rparr>"

theorem logger_shutdown_bounded_witness:
  "\<exists>s. rtranclp (shutdown_step (\<lambda>_. []) CommonLogger) (sample_logger Sleep) sample_stopped \<and> (shutdown_step (\<lambda>_. []) CommonLogger ^^ 3) sample_stopped s
     \<and> (3 :: nat) \<le> 6 \<and> lg_close s = Closed \<and> lg_file s = [] \<and> num_elements (lg_queue sample_stopped) \<le> num_elements (lg_queue s) + 1"
proof -
  let ?S = "shutdown_step (\<lambda>_. []) CommonLogger" and ?s0 = "sample_logger Sleep"
  let ?s1 = "sample_stopped\<lparr> lg_flush := Test \<rparr>"
  let ?s2 = "?s1\<lparr> lg_flush := (if lg_running ?s1 then Fetch else Returned) \<rparr>" and ?e = "?s0\<lparr> lg_expired := True \<rparr>"
  let ?s3 = "?s2\<lparr> lg_close := Closed \<rparr>"
  have "?S\<^sup>*\<^sup>* ?s0 ?e" by (rule destroy_run[OF rtranclp.rtrancl_refl expire]) (simp add: sample_logger_def)
  then have "?S\<^sup>*\<^sup>* ?s0 (?e\<lparr> lg_running := False, lg_close := Join \<rparr>)" by (rule destroy_run[OF _ stop]) (simp_all add: sample_logger_def logger_conditions)
  moreover have "?e\<lparr> lg_running := False, lg_close := Join \<rparr> = sample_stopped" by (simp add: sample_stopped_def)
  moreover have "?S sample_stopped ?s1" unfolding shutdown_step_def by (rule disjI1, rule wake) (simp add: sample_stopped_def sample_logger_def)
  moreover have "?S ?s1 ?s2" unfolding shutdown_step_def by (rule disjI1, rule test) simp
  moreover have "?S ?s2 ?s3" unfolding shutdown_step_def by (rule disjI2, rule join) (simp_all add: sample_stopped_def)
  ultimately have run: "?S\<^sup>*\<^sup>* ?s0 sample_stopped" "(?S ^^ 3) sample_stopped ?s3"
    unfolding numeral_3_eq_3 by (simp, blast intro: relpowp_Suc_I relpowp_0_I)
  have j: "lg_close sample_stopped = Join" "\<not> lg_running sample_stopped" "\<And>x. lg_flush sample_stopped \<noteq> Emit x"
    by (simp_all add: sample_stopped_def sample_logger_def)
  from logger_shutdown_bounded[OF run(2) j(1,2)] j(3) run show ?thesis
    by (intro exI[of _ ?s3]) (simp add: sample_stopped_def sample_logger_def)
qed

end
