(* ===== verification/EngineReports.thy ===== *)
theory EngineReports
  imports LatencyHistogram TradeEngine
begin

text \<open>
  What a trade engine measures and leaves behind: the seven latency histograms of \<^verbatim>\<open>trading/strategy/trade_engine.h\<close>, filled by the macros of
  \<^verbatim>\<open>common/perf_utils.h\<close> in the handlers of \<^verbatim>\<open>trade_engine.cpp\<close> and written to one file each by the destructor; the name of the engine's log; the values the backtest
  reads. The readings of the time-stamp counter are parameters, and so is which files can be opened.
\<close>

section \<open>Measuring\<close>

text \<open>\<open>rdtsc\<close> from the two halves of the register.\<close>

definition rdtsc :: "32 word \<Rightarrow> 32 word \<Rightarrow> 64 word" where
  "rdtsc lo hi = or (push_bit 32 (ucast hi)) (ucast lo)"

text \<open>\<open>START_MEASURE\<close> and \<open>END_MEASURE_HIST\<close> around a call: the difference of the readings, cast to \<open>int64_t\<close>. The log line is left out.\<close>

type_synonym readings = "64 word \<times> 64 word"

definition measured :: "readings \<Rightarrow> LatencyHistogram \<Rightarrow> LatencyHistogram" where
  "measured = (\<lambda>(start, stop). lh_record (sint (stop - start)))"

record TradeLatencies =
  hist_pk_updateBBO :: LatencyHistogram
  hist_fe_obUpdate :: LatencyHistogram
  hist_algo_obUpdate :: LatencyHistogram
  hist_fe_trUpdate :: LatencyHistogram
  hist_algo_trUpdate :: LatencyHistogram
  hist_pk_addFill :: LatencyHistogram
  hist_algo_ordUpdate :: LatencyHistogram

definition TradeLatencies_new :: TradeLatencies where
  "TradeLatencies_new =
     \<lparr> hist_pk_updateBBO = LatencyHistogram_new ''Trading_PositionKeeper_updateBBO'',
       hist_fe_obUpdate = LatencyHistogram_new ''Trading_FeatureEngine_onOrderBookUpdate'',
       hist_algo_obUpdate = LatencyHistogram_new ''Trading_TradeEngine_algoOnOrderBookUpdate_'',
       hist_fe_trUpdate = LatencyHistogram_new ''Trading_FeatureEngine_onTradeUpdate'',
       hist_algo_trUpdate = LatencyHistogram_new ''Trading_TradeEngine_algoOnTradeUpdate_'',
       hist_pk_addFill = LatencyHistogram_new ''Trading_PositionKeeper_addFill'',
       hist_algo_ordUpdate = LatencyHistogram_new ''Trading_TradeEngine_algoOnOrderUpdate_'' \<rparr>"

text \<open>What each of the three handlers records, with the readings around its calls.\<close>

datatype handled =
    BookUpdate readings readings readings
  | TradeUpdate readings readings
  | OrderUpdate MEClientResponse readings readings

primrec record_latency :: "handled \<Rightarrow> TradeLatencies \<Rightarrow> TradeLatencies" where
  "record_latency (BookUpdate r1 r2 r3) l =
     l\<lparr> hist_pk_updateBBO := measured r1 (hist_pk_updateBBO l), hist_fe_obUpdate := measured r2 (hist_fe_obUpdate l),
        hist_algo_obUpdate := measured r3 (hist_algo_obUpdate l) \<rparr>"
| "record_latency (TradeUpdate r1 r2) l =
     l\<lparr> hist_fe_trUpdate := measured r1 (hist_fe_trUpdate l), hist_algo_trUpdate := measured r2 (hist_algo_trUpdate l) \<rparr>"
| "record_latency (OrderUpdate rsp r1 r2) l =
     (let l1 = (if rsp_type rsp = FILLED then l\<lparr> hist_pk_addFill := measured r1 (hist_pk_addFill l) \<rparr> else l)
      in l1\<lparr> hist_algo_ordUpdate := measured r2 (hist_algo_ordUpdate l1) \<rparr>)"

section \<open>Files\<close>

definition latency_list :: "TradeLatencies \<Rightarrow> LatencyHistogram list" where
  "latency_list l = [hist_pk_updateBBO l, hist_fe_obUpdate l, hist_algo_obUpdate l, hist_fe_trUpdate l, hist_algo_trUpdate l, hist_pk_addFill l, hist_algo_ordUpdate l]"

definition latency_path :: "ClientId \<Rightarrow> LatencyHistogram \<Rightarrow> string" where
  "latency_path client_id h = (''latency_'' @ dec (unat client_id) @ ''_'') @ lh_name h @ ''.hgrm''"

definition dumpLatencyHistograms :: "fpenv \<Rightarrow> (double \<Rightarrow> string) \<Rightarrow> (string \<Rightarrow> bool) \<Rightarrow> ClientId \<Rightarrow> TradeLatencies \<Rightarrow> (string \<times> string) list result" where
  "dumpLatencyHistograms e print_double is_open client_id l =
     foldR (\<lambda>h files.
       bindR (lh_dumpCsv e print_double (is_open (latency_path client_id h)) h) (\<lambda>f.
       Inr (case f of None \<Rightarrow> files | Some content \<Rightarrow> files @ [(latency_path client_id h, content)]))) (latency_list l) []"

definition engineLogPath :: "string option \<Rightarrow> ClientId \<Rightarrow> string" where
  "engineLogPath env client_id = (case env of Some e \<Rightarrow> e | None \<Rightarrow> ''trading_engine_'' @ dec (unat client_id) @ ''.log'')"

section \<open>Accessors\<close>

record PositionSnapshot =
  ps_position :: int
  ps_real_pnl :: double
  ps_unreal_pnl :: double
  ps_total_pnl :: double
  ps_volume :: Qty

definition positionInfo :: "TradeEngine \<Rightarrow> TickerId \<Rightarrow> PositionSnapshot result" where
  "positionInfo te ticker_id =
     bindR (getPositionInfo (te_position_keeper te) ticker_id) (\<lambda>pi.
     Inr \<lparr> ps_position = pi_position pi, ps_real_pnl = pi_real_pnl pi, ps_unreal_pnl = pi_unreal_pnl pi, ps_total_pnl = pi_total_pnl pi,
           ps_volume = pi_volume pi \<rparr>)"

definition orderBook :: "TradeEngine \<Rightarrow> TickerId \<Rightarrow> MarketOrderBook result" where
  "orderBook te ticker_id = bindR (Prelude.at ME_MAX_TICKERS (unat ticker_id)) (\<lambda>t. Inr (te_ticker_order_book te t))"

section \<open>No file is overwritten\<close>

text \<open>Recording keeps the names of the histograms.\<close>

lemma measured_name [simp]: "lh_name (measured r h) = lh_name h"
  by (simp add: measured_def lh_record_def Let_def split_beta)

lemma record_names: "map lh_name (latency_list (fold record_latency evs l)) = map lh_name (latency_list l)"
proof (induction evs arbitrary: l)
  case (Cons ev evs)
  then show ?case by (cases ev) (simp_all add: latency_list_def Let_def)
qed simp

lemma dec_no_underscore: "CHR ''_'' \<notin> set (dec n)"
  using digit_not[of "CHR ''_''" n] by auto

lemma latency_path_inject:
  assumes "latency_path c h = latency_path c' h'"
  shows "c = c'" and "lh_name h = lh_name h'"
proof -
  have cut: "takeWhile (\<lambda>x. x \<noteq> CHR ''_'') (dec n @ CHR ''_'' # rest) = dec n" for n rest
    using delim_split[OF dec_no_underscore] by blast
  have e: "dec (unat c) @ CHR ''_'' # lh_name h @ ''.hgrm'' = dec (unat c') @ CHR ''_'' # lh_name h' @ ''.hgrm''" using assms by (simp add: latency_path_def)
  then have "dec (unat c) = dec (unat c')" using cut[of "unat c" "lh_name h @ ''.hgrm''"] cut[of "unat c'" "lh_name h' @ ''.hgrm''"] by (simp only:)
  then have "unat c = unat c'" by (rule dec_inject)
  then show "c = c'" by (simp only: word_unat_eq_iff)
  then show "lh_name h = lh_name h'" using e by simp
qed

text \<open>Of what a dump opens.\<close>

lemma dump_paths:
  "foldR (\<lambda>h files.
       bindR (lh_dumpCsv e print_double (is_open (latency_path c h)) h) (\<lambda>f.
       Inr (case f of None \<Rightarrow> files | Some content \<Rightarrow> files @ [(latency_path c h, content)]))) hs files0 = Inr files
   \<Longrightarrow> map fst files = map fst files0 @ filter is_open (map (latency_path c) hs)"
proof (induction hs arbitrary: files0)
  case (Cons h hs)
  show ?case
  proof (cases "is_open (latency_path c h)")
    case True
    then obtain content where "lh_dumpCsv e print_double True h = Inr (Some content)" using Cons.prems by (auto simp: lh_dumpCsv_def result_simps)
    then show ?thesis using Cons True by (auto simp: result_simps)
  next
    case False
    then have "lh_dumpCsv e print_double False h = Inr None" by (simp add: lh_dumpCsv_def)
    then show ?thesis using Cons False by (auto simp: result_simps)
  qed
qed simp

text \<open>The files of the latency histograms: after any events, a dump that completes writes each of its files once, one for every histogram whose file can be
  opened, and engines of different clients never write the same file.\<close>

theorem latency_files_distinct:
  assumes "dumpLatencyHistograms e print_double is_open c (fold record_latency evs TradeLatencies_new) = Inr files"
    and "dumpLatencyHistograms e print_double is_open c' (fold record_latency evs' TradeLatencies_new) = Inr files'" and "c \<noteq> c'"
  shows "distinct (map fst files)" and "set (map fst files) \<inter> set (map fst files') = {}"
    and "(\<And>p. is_open p) \<Longrightarrow> length files = 7"
proof -
  have paths: "map fst fs = filter is_open (map (latency_path d) (latency_list (fold record_latency es TradeLatencies_new)))"
    if "dumpLatencyHistograms e print_double is_open d (fold record_latency es TradeLatencies_new) = Inr fs" for d es fs
    using dump_paths[OF that[unfolded dumpLatencyHistograms_def]] by simp
  let ?hs = "latency_list (fold record_latency evs TradeLatencies_new)"
  have "map lh_name ?hs = map lh_name (latency_list TradeLatencies_new)" by (rule record_names)
  also have "distinct \<dots>" by (simp add: latency_list_def TradeLatencies_new_def LatencyHistogram_new_def)
  finally have "distinct (map (latency_path c) ?hs)" by (auto simp: distinct_map inj_on_def dest: latency_path_inject(2))
  then show "distinct (map fst files)" unfolding paths[OF assms(1)] by (rule distinct_filter)
  show "set (map fst files) \<inter> set (map fst files') = {}"
    unfolding paths[OF assms(1)] paths[OF assms(2)] using assms(3) by (auto dest: latency_path_inject(1))
  show "length files = 7" if "\<And>p. is_open p"
    using arg_cong[OF paths[OF assms(1)], of length] that by (simp add: latency_list_def)
qed

end
