(* ===== verification/MessageText.thy ===== *)
theory MessageText
  imports BookPrint Messages OrderManager
begin

text \<open>
  The texts of the messages in the log files: \<open>toString\<close> of the structs of \<^verbatim>\<open>client_request.h\<close>, \<^verbatim>\<open>client_response.h\<close>, \<^verbatim>\<open>market_update.h\<close> and \<^verbatim>\<open>om_order.h\<close>. A line
  identifies the message it stands for.
\<close>

definition MEClientRequest_toString :: "MEClientRequest \<Rightarrow> string" where
  "MEClientRequest_toString r =
     ''MEClientRequest ['' @ ''type:'' @ clientRequestTypeToString (req_type r) @ '' client:'' @ clientIdToString (req_client_id r)
     @ '' ticker:'' @ tickerIdToString (req_ticker_id r) @ '' oid:'' @ orderIdToString (req_order_id r) @ '' side:'' @ sideToString (req_side r)
     @ '' qty:'' @ qtyToString (req_qty r) @ '' price:'' @ priceToString (req_price r) @ '']''"

definition OMClientRequest_toString :: "OMClientRequest \<Rightarrow> string" where
  "OMClientRequest_toString r =
     ''OMClientRequest ['' @ ''seq:'' @ dec (omreq_seq_num r) @ '' '' @ MEClientRequest_toString (omreq_request r) @ '']''"

definition MEClientResponse_toString :: "MEClientResponse \<Rightarrow> string" where
  "MEClientResponse_toString r =
     ''MEClientResponse ['' @ ''type:'' @ clientResponseTypeToString (rsp_type r) @ '' client:'' @ clientIdToString (rsp_client_id r)
     @ '' ticker:'' @ tickerIdToString (rsp_ticker_id r) @ '' coid:'' @ orderIdToString (rsp_client_order_id r)
     @ '' moid:'' @ orderIdToString (rsp_market_order_id r) @ '' side:'' @ sideToString (rsp_side r)
     @ '' exec_qty:'' @ qtyToString (rsp_exec_qty r) @ '' leaves_qty:'' @ qtyToString (rsp_leaves_qty r) @ '' price:'' @ priceToString (rsp_price r) @ '']''"

definition OMClientResponse_toString :: "OMClientResponse \<Rightarrow> string" where
  "OMClientResponse_toString r =
     ''OMClientResponse ['' @ ''seq:'' @ dec (omrsp_seq_num r) @ '' '' @ MEClientResponse_toString (omrsp_response r) @ '']''"

definition MEMarketUpdate_toString :: "MEMarketUpdate \<Rightarrow> string" where
  "MEMarketUpdate_toString u =
     ''MEMarketUpdate ['' @ '' type:'' @ marketUpdateTypeToString (mu_type u) @ '' ticker:'' @ tickerIdToString (mu_ticker_id u)
     @ '' oid:'' @ orderIdToString (mu_order_id u) @ '' side:'' @ sideToString (mu_side u) @ '' qty:'' @ qtyToString (mu_qty u)
     @ '' price:'' @ priceToString (mu_price u) @ '' priority:'' @ priorityToString (mu_priority u) @ '']''"

definition MDPMarketUpdate_toString :: "MDPMarketUpdate \<Rightarrow> string" where
  "MDPMarketUpdate_toString u =
     ''MDPMarketUpdate ['' @ '' seq:'' @ dec (mdp_seq_num u) @ '' '' @ MEMarketUpdate_toString (mdp_update u) @ '']''"

definition OMOrder_toString :: "OMOrder \<Rightarrow> string" where
  "OMOrder_toString r =
     ''OMOrder['' @ ''tid:'' @ tickerIdToString (oo_ticker_id r) @ '' '' @ ''oid:'' @ orderIdToString (oo_order_id r) @ '' ''
     @ ''side:'' @ sideToString (oo_side r) @ '' '' @ ''price:'' @ priceToString (oo_price r) @ '' '' @ ''qty:'' @ qtyToString (oo_qty r) @ '' ''
     @ ''state:'' @ OMOrderStateToString (oo_state r) @ '']''"

section \<open>A line identifies its message\<close>

text \<open>The names are injective and have no space.\<close>

lemma no_space: "CHR '' '' \<notin> set (dec n)"
  using digit_not[of "CHR '' ''" n] by auto

lemma number_inject [simp]: "dec m = dec n \<longleftrightarrow> m = n" "to_string i = to_string j \<longleftrightarrow> i = j"
  using dec_inject to_string_inject by blast+

lemma dec_not_invalid: "dec n \<noteq> ''INVALID''" "to_string i \<noteq> ''INVALID''"
proof -
  show d: "dec n \<noteq> ''INVALID''" for n using digit_not[of "CHR ''I''" n] by auto
  show "to_string i \<noteq> ''INVALID''" using d by (simp add: to_string_def)
qed

lemmas not_invalid = dec_not_invalid dec_not_invalid[symmetric]

lemma name_inject [simp]:
  "orderIdToString i = orderIdToString j \<longleftrightarrow> i = j" "tickerIdToString t = tickerIdToString t' \<longleftrightarrow> t = t'"
  "clientIdToString c = clientIdToString c' \<longleftrightarrow> c = c'" "priceToString p = priceToString p' \<longleftrightarrow> p = p'"
  "qtyToString q = qtyToString q' \<longleftrightarrow> q = q'" "priorityToString o1 = priorityToString o2 \<longleftrightarrow> o1 = o2"
  by (simp_all add: orderIdToString_def tickerIdToString_def clientIdToString_def priceToString_def qtyToString_def priorityToString_def not_invalid
      word_unat_eq_iff)

lemma enum_inject [simp]:
  "sideToString s = sideToString s' \<longleftrightarrow> s = s'" "clientRequestTypeToString a = clientRequestTypeToString a' \<longleftrightarrow> a = a'"
  "clientResponseTypeToString b = clientResponseTypeToString b' \<longleftrightarrow> b = b'" "marketUpdateTypeToString c = marketUpdateTypeToString c' \<longleftrightarrow> c = c'"
  "OMOrderStateToString d = OMOrderStateToString d' \<longleftrightarrow> d = d'"
proof -
  show "sideToString s = sideToString s' \<longleftrightarrow> s = s'" by (cases s; cases s') simp_all
  show "clientRequestTypeToString a = clientRequestTypeToString a' \<longleftrightarrow> a = a'" by (cases a; cases a') simp_all
  show "clientResponseTypeToString b = clientResponseTypeToString b' \<longleftrightarrow> b = b'" by (cases b; cases b') simp_all
  show "marketUpdateTypeToString c = marketUpdateTypeToString c' \<longleftrightarrow> c = c'" by (cases c; cases c') simp_all
  show "OMOrderStateToString d = OMOrderStateToString d' \<longleftrightarrow> d = d'" by (cases d; cases d') simp_all
qed

lemma name_no_space [simp]:
  "CHR '' '' \<notin> set (orderIdToString i)" "CHR '' '' \<notin> set (tickerIdToString t)" "CHR '' '' \<notin> set (clientIdToString c)"
  "CHR '' '' \<notin> set (priceToString p)" "CHR '' '' \<notin> set (qtyToString q)" "CHR '' '' \<notin> set (dec n)"
  by (simp_all add: orderIdToString_def tickerIdToString_def clientIdToString_def priceToString_def qtyToString_def to_string_def no_space)

lemma enum_no_space [simp]:
  "CHR '' '' \<notin> set (sideToString s)" "CHR '' '' \<notin> set (clientRequestTypeToString a)" "CHR '' '' \<notin> set (clientResponseTypeToString b)"
  "CHR '' '' \<notin> set (marketUpdateTypeToString c)"
proof -
  show "CHR '' '' \<notin> set (sideToString s)" by (cases s) simp_all
  show "CHR '' '' \<notin> set (clientRequestTypeToString a)" by (cases a) simp_all
  show "CHR '' '' \<notin> set (clientResponseTypeToString b)" by (cases b) simp_all
  show "CHR '' '' \<notin> set (marketUpdateTypeToString c)" by (cases c) simp_all
qed

text \<open>A field ends at the first space.\<close>

lemma field_cut [simp]:
  assumes "CHR '' '' \<notin> set x" and "CHR '' '' \<notin> set y"
  shows "x @ CHR '' '' # r = y @ CHR '' '' # s \<longleftrightarrow> x = y \<and> r = s"
proof
  assume e: "x @ CHR '' '' # r = y @ CHR '' '' # s"
  then have "takeWhile (\<lambda>c. c \<noteq> CHR '' '') (x @ CHR '' '' # r) = takeWhile (\<lambda>c. c \<noteq> CHR '' '') (y @ CHR '' '' # s)" by (rule arg_cong)
  then have "x = y" unfolding delim_split[OF assms(1), THEN conjunct1] delim_split[OF assms(2), THEN conjunct1] .
  then show "x = y \<and> r = s" using e by simp
qed simp

lemma request_line: "MEClientRequest_toString r = MEClientRequest_toString r' \<longleftrightarrow> r = r'"
  by (cases r; cases r') (auto simp: MEClientRequest_toString_def)

lemma response_line: "MEClientResponse_toString r = MEClientResponse_toString r' \<longleftrightarrow> r = r'"
  by (cases r; cases r') (auto simp: MEClientResponse_toString_def)

lemma update_line: "MEMarketUpdate_toString u = MEMarketUpdate_toString u' \<longleftrightarrow> u = u'"
  by (cases u; cases u') (auto simp: MEMarketUpdate_toString_def)

text \<open>The log lines of two messages of the same kind are equal only if the messages are, for requests, responses and market updates, with their sequence numbers or
  without, and for the orders of the order manager.\<close>

theorem log_line_identifies_message:
  "OMClientRequest_toString a = OMClientRequest_toString a' \<longleftrightarrow> a = a'"
  "OMClientResponse_toString b = OMClientResponse_toString b' \<longleftrightarrow> b = b'"
  "MDPMarketUpdate_toString c = MDPMarketUpdate_toString c' \<longleftrightarrow> c = c'"
  "OMOrder_toString d = OMOrder_toString d' \<longleftrightarrow> d = d'"
proof -
  show "OMClientRequest_toString a = OMClientRequest_toString a' \<longleftrightarrow> a = a'"
    by (cases a; cases a') (auto simp: OMClientRequest_toString_def request_line)
  show "OMClientResponse_toString b = OMClientResponse_toString b' \<longleftrightarrow> b = b'"
    by (cases b; cases b') (auto simp: OMClientResponse_toString_def response_line)
  show "MDPMarketUpdate_toString c = MDPMarketUpdate_toString c' \<longleftrightarrow> c = c'"
    by (cases c; cases c') (auto simp: MDPMarketUpdate_toString_def update_line)
  show "OMOrder_toString d = OMOrder_toString d' \<longleftrightarrow> d = d'"
    by (cases d; cases d') (auto simp: OMOrder_toString_def)
qed

end
