(* ===== verification/BinanceGateway.thy ===== *)
theory BinanceGateway
  imports LFQueue Messages
begin

text \<open>
  \<^verbatim>\<open>trading/order_gw/binance\<close>: the adapter for an external venue, which is a scaffold and not linked into the programs. The translation of orders and the handlers of
  incoming frames have empty bodies. What its thread does to the queues is modelled, and what follows for a trade engine that would run with it: its
  requests disappear and no response ever comes.
\<close>

record BinanceWsGateway =
  bw_client_id :: ClientId
  bw_outgoing_requests :: "MEClientRequest LFQueue"
  bw_incoming_responses :: "MEClientResponse LFQueue"
  bw_run :: bool
  bw_request_budget :: int

definition BinanceWsGateway_new :: "ClientId \<Rightarrow> MEClientRequest LFQueue \<Rightarrow> MEClientResponse LFQueue \<Rightarrow> BinanceWsGateway" where
  "BinanceWsGateway_new client_id client_requests client_responses =
     \<lparr> bw_client_id = client_id, bw_outgoing_requests = client_requests, bw_incoming_responses = client_responses, bw_run = False,
       bw_request_budget = 0 \<rparr>"

definition bw_start :: "BinanceWsGateway \<Rightarrow> BinanceWsGateway" where
  "bw_start g = g\<lparr> bw_run := True \<rparr>"

definition bw_stop :: "BinanceWsGateway \<Rightarrow> BinanceWsGateway" where
  "bw_stop g = g\<lparr> bw_run := False \<rparr>"

definition bw_sendOrder :: "MEClientRequest \<Rightarrow> BinanceWsGateway \<Rightarrow> BinanceWsGateway" where
  "bw_sendOrder req g = g"

definition bw_onExecutionReport :: "string \<Rightarrow> BinanceWsGateway \<Rightarrow> BinanceWsGateway" where
  "bw_onExecutionReport json_payload g = g"

text \<open>The body of the loop of \<open>run\<close>.\<close>

definition bw_round :: "BinanceWsGateway \<Rightarrow> BinanceWsGateway result" where
  "bw_round g =
     (case getNextToRead (bw_outgoing_requests g) of
        None \<Rightarrow> Inr g
      | Some req \<Rightarrow>
          (let g1 = bw_sendOrder req g in
           bindR (updateReadIndex (bw_outgoing_requests g1)) (\<lambda>q. Inr (g1\<lparr> bw_outgoing_requests := q \<rparr>))))"

fun bw_rounds :: "nat \<Rightarrow> BinanceWsGateway \<Rightarrow> BinanceWsGateway result" where
  "bw_rounds 0 g = Inr g"
| "bw_rounds (Suc n) g = bindR (bw_round g) (bw_rounds n)"

text \<open>Every request is taken from the queue and dropped: \<open>n\<close> rounds remove the first \<open>n\<close> and change nothing else.\<close>

theorem binance_gateway_drops_requests:
  assumes "lf_inv (bw_outgoing_requests g)"
  shows "\<exists>q. bw_rounds n g = Inr (g\<lparr> bw_outgoing_requests := q \<rparr>) \<and> lf_inv q \<and> lf_contents q = drop n (lf_contents (bw_outgoing_requests g))"
  using assms
proof (induction n arbitrary: g)
  case 0
  then show ?case by (intro exI[of _ "bw_outgoing_requests g"]) simp
next
  case (Suc n)
  let ?q = "bw_outgoing_requests g"
  show ?case
  proof (cases "lf_contents ?q")
    case Nil
    then have "bw_round g = Inr g" using getNextToRead_contents[OF Suc.prems] by (simp add: bw_round_def)
    then show ?thesis using Suc.IH[OF Suc.prems] Nil by simp
  next
    case (Cons r rs)
    obtain q1 where q1: "updateReadIndex ?q = Inr q1" "lf_inv q1" "lf_contents q1 = rs" using lf_pop(2)[OF Suc.prems Cons] by blast
    then have "bw_round g = Inr (g\<lparr> bw_outgoing_requests := q1 \<rparr>)"
      using lf_pop(1)[OF Suc.prems Cons] by (simp add: bw_round_def bw_sendOrder_def)
    then show ?thesis using Suc.IH[of "g\<lparr> bw_outgoing_requests := q1 \<rparr>"] q1 Cons by simp
  qed
qed

end
