(* ===== verification/Spec2Isabelle.thy ===== *)
theory Spec2Isabelle
  imports MirrorTheorems LFQueueSPSC MarketDataTheorems RecoveryTheorems TradingTheorems SignalTheorems GatewayTheorems BacktestTheorems
    TapeTheorems LobsterTheorems LatencyHistogram BacktestMainTheorems Logging TradingMainTheorems
    BookDump EndToEnd SocketUtils LoggerShutdown EngineReports MessageText BinanceGateway
begin

text \<open>
  A verification development of a low-latency electronic trading ecosystem in C++ (directories
  \<^verbatim>\<open>common\<close>, \<^verbatim>\<open>exchange\<close>, \<^verbatim>\<open>trading\<close>, \<^verbatim>\<open>backtest\<close>).

  \<^bold>\<open>The program.\<close> An exchange process and any number of trading processes. In the exchange the order server receives the requests of the clients over TCP,
  the sequencer orders them by arrival time, the matching engine executes them on one limit order book per ticker, its responses go back through the order
  server, and its market updates go through the market data publisher (an incremental multicast stream, and a snapshot stream of the synthesizer) to
  the clients. In a trading process the market data consumer checks the sequence of both streams, the trade engine rebuilds the books, computes signals,
  runs a strategy and sends requests through the risk check, the order manager and the order gateway. The threads are connected by
  single-producer single-consumer ring buffers. The backtest program drives the same trade engine from a recorded or synthetic tape.

  \<^bold>\<open>Theories\<close>, each with the files under \<^verbatim>\<open>src/\<close> it translates:
  \<^item> \<open>Prelude\<close>: the errors (every assertion, fatal exit, exception and undefined operation of the source is a value of \<open>error\<close>), sequencing \<open>bindR\<close> and loops \<open>foldR\<close>, array
    accesses, bounded signed arithmetic, and shared lemmas. \<open>CommonTypes\<close>: \<^verbatim>\<open>common/types.h\<close>, \<^verbatim>\<open>common/macros.h\<close>. \<open>CText\<close>: streams, number parsing and
    printing, and the command line.
  \<^item> \<open>MemPool\<close>: \<^verbatim>\<open>common/mem_pool.h\<close>, \<^verbatim>\<open>opt_mem_pool.h\<close>. \<open>LFQueue\<close>, \<open>LFQueueSPSC\<close>: \<^verbatim>\<open>common/lf_queue.h\<close>, as atomic operations and as the interleaving of the accesses
    of two threads. \<open>Logging\<close>, \<open>LoggerShutdown\<close>: \<^verbatim>\<open>common/logging.h\<close>, \<^verbatim>\<open>opt_logging.h\<close>. \<open>LatencyHistogram\<close>: \<^verbatim>\<open>common/latency_histogram.h\<close>. \<open>Sockets\<close>:
    \<^verbatim>\<open>common/tcp_socket.*\<close>, \<^verbatim>\<open>mcast_socket.*\<close>, \<^verbatim>\<open>tcp_server.*\<close>. \<open>SocketUtils\<close>: \<^verbatim>\<open>common/socket_utils.h\<close>, over a kernel that answers system calls.
  \<^item> \<open>Messages\<close>, \<open>WireFormat\<close>: the packed structs \<^verbatim>\<open>client_request.h\<close>, \<^verbatim>\<open>client_response.h\<close>, \<^verbatim>\<open>market_update.h\<close> and their bytes. \<open>MessageText\<close>: their texts.
  \<^item> \<open>Ring\<close>, \<open>BookCore\<close>, \<open>BookRep\<close>, \<open>BookLevels\<close>, \<open>BookOps\<close>, \<open>BookView\<close>: the intrusive circular lists of levels and orders that the book of the exchange and the book of the
    client share, as an explicit store of records with pointers; the representation predicate that relates them to a list of levels, each a list of
    orders; and the operations \<open>addOrdersAtPrice\<close>, \<open>removeOrdersAtPrice\<close>, \<open>addOrder\<close>, \<open>removeOrder\<close> proved against it.
  \<^item> \<open>MEOrderBook\<close>, \<open>MEMatching\<close>, \<open>MEBookSpec\<close>, \<open>MEBookInvariant\<close>, \<open>MatchingEngine\<close>, \<open>MatchingTheorems\<close>: \<^verbatim>\<open>exchange/matcher\<close>. \<open>ExchangeMain\<close>: \<^verbatim>\<open>exchange/exchange_main.cpp\<close>.
  \<^item> \<open>OrderServer\<close>, \<open>OrderServerTheorems\<close>: \<^verbatim>\<open>exchange/order_server\<close>. \<open>SnapshotSynthesizer\<close>, \<open>SnapshotPublish\<close>, \<open>MarketDataPublisher\<close>: \<^verbatim>\<open>exchange/market_data\<close>.
  \<^item> \<open>MarketOrderBook\<close>, \<open>MarketBookClear\<close>: \<^verbatim>\<open>trading/strategy/market_order_book.*\<close>. \<open>BookMirror\<close>, \<open>MirrorTheorems\<close>: the client book against the exchange book.
    \<open>BookPrint\<close>, \<open>BookDump\<close>: the diagnostic dumps of both.
  \<^item> \<open>EndToEnd\<close>: both programs together, with the datagrams between them, as a step relation over the rounds of their threads.
  \<^item> \<open>MarketDataConsumer\<close>, \<open>MarketDataTheorems\<close>, \<open>RecoveryTheorems\<close>: \<^verbatim>\<open>trading/market_data\<close>. \<open>OrderGateway\<close>, \<open>GatewayTheorems\<close>: \<^verbatim>\<open>trading/order_gw\<close>. \<open>BinanceGateway\<close>: \<^verbatim>\<open>trading/order_gw/binance\<close>.
  \<^item> \<open>Doubles\<close>: floating point. \<open>Vpin\<close>, \<open>FeatureEngine\<close>, \<open>Positions\<close>, \<open>OrderManager\<close>, \<open>Strategies\<close>, \<open>TradeEngine\<close>: the files of \<^verbatim>\<open>trading/strategy\<close> of these names (risk manager
    with the order manager, market maker and liquidity taker in \<open>Strategies\<close>). \<open>OrderActions\<close>, \<open>TradingRuns\<close>, \<open>TradingSafety\<close>, \<open>TradingTheorems\<close>,
    \<open>SignalTheorems\<close>: what they guarantee. \<open>EngineReports\<close>: the latency measurements of the trade engine and the files it leaves. \<open>TradingMain\<close>, \<open>TradingMainTheorems\<close>: \<^verbatim>\<open>trading/trading_main.cpp\<close>.
  \<^item> \<open>BacktestEngine\<close>, \<open>BacktestLoop\<close>, \<open>BacktestTheorems\<close>, \<open>TapeReader\<close>, \<open>TapeTheorems\<close>, \<open>LobsterReader\<close>, \<open>LobsterTheorems\<close>, \<open>BacktestMain\<close>, \<open>BacktestMainTheorems\<close>: \<^verbatim>\<open>backtest\<close>.

  \<^bold>\<open>State and operations.\<close> A struct or class is a record with the source's members, an enum a datatype, an operation a function that returns the changed record or an error. Objects
  from the memory pools live in stores indexed by block number, and pointers are such numbers or null, so that aliasing in the books is that of the source.
  Quantities, tickers, identifiers and counters that can wrap are words of their width; prices and times are integers whose overflow is an
  error. A thread loop is a function for one round of it; what other threads do in between is a step of a relation (\<open>spsc_step\<close>, \<open>engine_reachable\<close>, \<open>session\<close>, \<open>te_runs\<close>, \<open>path_step\<close>,
  \<open>flush_step\<close> and \<open>destroy_step\<close>). Sequence numbers, which are \<open>size_t\<close> in the source, are natural numbers; theorems that encode them assume that they fit 64 bits. The pointer arrays of the books are arguments of the
  constructors, because the source does not initialise them; the theorems on the books start from null pointers.
  Interfaces between components are locales with the laws the client uses, interpreted on the definitions of the provider.

  \<^bold>\<open>What is shown.\<close>
  \<^item> Matching: \<open>add\<close> and \<open>cancel\<close> always return on admissible requests, follow an executable specification of price-time matching, conserve quantity, respect limits; the book is
    never crossed; unknown cancels are rejected.
  \<^item> Market data: the client book mirrors the exchange book after any session, including its best prices and its dump; through both programs, in any interleaving of
    their threads, the client book and the updates on their way determine the exchange book, and one round of the publisher and one of the consumer deliver what is on its way whenever it fits the queues; updates, requests and responses travel complete and in order through the
    wire formats, stray messages are dropped, and how a stream is cut into rounds does not change which requests are executed; a gap stops forwarding; what recovery commits, and why in this code it never completes.
  \<^item> Order entry: sequence numbers, impersonation, time ordering, numbering of responses.
  \<^item> Trading: positions stay within limits in every run, also counting working orders, up to the level of both programs and their command lines, but for the \<open>RANDOM\<close> mode of the trading program, which
    goes past the risk check; this assumes of the exchange that it fills only working orders, by no more than they have left. Requests are well formed; quotes are
    passive; the kill switch cancels exactly the live orders; profit accounting, in exact arithmetic; the micro-price is within the spread and VPIN ends and is a fraction, in rounded arithmetic, as long as the integers involved are exact in
    doubles.
  \<^item> Infrastructure: the counter of the ring is exact under all interleavings, and it is FIFO as long as the producer does not overrun it, which nothing in the code prevents; pools; round trip and well-formedness of
    tapes; the client book rebuilt from recorded snapshots; accuracy of percentiles; what the loggers
    write, also when they shut down, what may be missing then, and that the logger with the deadline does not hang; the state of the sockets that are created, and that a failed \<open>connect\<close> goes unnoticed; log lines identify their messages; no two engines write the same report.
  \<^item> Errors: theorems that exhibit defects of the code (out-of-bounds copies, null pointers, stale levels, overflows, non-termination), which the findings of the manifest list.

  \<^bold>\<open>Parameters and bounds.\<close> Floating-point rounding, \<open>log\<close> and \<open>log1p\<close> are the parameter \<open>fpenv\<close>; theorems state which laws of IEEE 754 they use (\<open>rounds_well\<close>: integers up to 53 bits
  exact, monotone, never NaN), and \<open>exact_env\<close> shows that these can hold. Clock readings, random numbers, file contents, the environment, the traversal order of hash maps, the contents of uninitialised
  memory and how a stream prints a \<open>double\<close> are arguments. Most loops are structural or have a termination proof; where fuel is used (draining of queues, list walks in the books) the fuel is
  the number of elements or blocks, and theorems show that it suffices. The loop of VPIN, which need not end in rounded arithmetic, is a partial function into options.

  \<^bold>\<open>Not modelled.\<close> The texts of the configuration and position records, which print floating-point numbers; thread creation, pinning and sleeps (\<^verbatim>\<open>thread_utils.h\<close>) and
  the formatting of the wall clock (\<^verbatim>\<open>time_utils.h\<close>), which are thin wrappers of system calls; the signal handlers and the waiting at the end of the two \<open>main\<close> functions; log calls
  inside other components, whose only effect is on the log; the memory order of atomics below sequential consistency; the market data consumer of the Binance adapter, which does nothing; the benchmarks. In
  \<open>EndToEnd\<close> the network neither loses nor reorders datagrams and no queue overflows; what happens otherwise is shown for the components (\<open>RecoveryTheorems\<close>, \<open>LFQueue\<close>).
\<close>

end
